(* ===== verification/Prelude.thy ===== *)
theory Prelude
  imports Main "HOL-Library.Word"
begin

unbundle bit_operations_syntax

text \<open>
  What every component shares: the names of the machine types, the model of a C array, the
  search loop that half of the kernel is made of, and the hint collections the component
  theories fill.

  A C array \<open>t[N]\<close> is a total function on indices, of which the code uses the first \<open>N\<close>;
  that every index the code forms is below \<open>N\<close> is proved where it is not evident.
  A pointer that may be \<open>NULL\<close> is a value of type \<open>option\<close>; a pointer into a table is the
  index of the entry.
\<close>

section \<open>Machine types\<close>

type_synonym u8 = "8 word"
type_synonym u16 = "16 word"
type_synonym u32 = "32 word"
type_synonym u64 = "64 word"

text \<open>\<open>(int)x\<close> for a \<open>uint64_t\<close> and \<open>(uint64_t)(int64_t)i\<close> for an \<open>int\<close>.\<close>

definition to_int :: "u64 \<Rightarrow> int" where
  "to_int x = sint (ucast x :: u32)"

definition of_int64 :: "int \<Rightarrow> u64" where
  "of_int64 i = word_of_int i"

section \<open>Hint collections\<close>

named_theorems abs_simps \<open>abstraction functions on the results of operations\<close>
named_theorems frame_simps \<open>state components an operation leaves alone\<close>
named_theorems inv_intros \<open>preservation of well-formedness by operations\<close>

section \<open>Search loops\<close>

text \<open>
  \<open>for (i = 0; i < n; i++) if (P(i)) return i;\<close> --- the least index below \<open>n\<close> that satisfies
  the test, if there is one.
\<close>

definition first_slot :: "nat \<Rightarrow> (nat \<Rightarrow> bool) \<Rightarrow> nat option" where
  "first_slot n P = List.find P [0..<n]"

lemma first_slot_Some:
  "first_slot n P = Some i \<longleftrightarrow> i < n \<and> P i \<and> (\<forall>j<i. \<not> P j)"
  by (auto simp: first_slot_def find_Some_iff)

lemma first_slot_None:
  "first_slot n P = None \<longleftrightarrow> (\<forall>i<n. \<not> P i)"
proof -
  have "first_slot n P = None \<longleftrightarrow> \<not> (\<exists>i. i \<in> set [0..<n] \<and> P i)"
    unfolding first_slot_def by (rule find_None_iff)
  then show ?thesis by simp
qed

lemma first_slot_SomeD:
  assumes "first_slot n P = Some i"
  shows "i < n" and "P i" and "j < i \<Longrightarrow> \<not> P j"
  using assms by (auto simp: first_slot_Some)

lemma first_slot_unique:
  assumes "i < n" and "P i" and "\<And>j. j < n \<Longrightarrow> P j \<Longrightarrow> j = i"
  shows "first_slot n P = Some i"
  unfolding first_slot_Some using assms(1,2)
proof (intro conjI allI impI notI)
  fix j assume "j < i" "P j"
  with assms(1,3) have "j = i" by (meson less_trans)
  with \<open>j < i\<close> show False by simp
qed

lemma first_slot_cong:
  assumes "\<And>i. i < n \<Longrightarrow> P i = Q i"
  shows "first_slot n P = first_slot n Q"
proof (cases "first_slot n Q")
  case None
  then have "first_slot n P = None" using assms unfolding first_slot_None by blast
  with None show ?thesis by simp
next
  case (Some i)
  then have "i < n" "Q i" "\<forall>j<i. \<not> Q j" by (simp_all add: first_slot_Some)
  with assms have "first_slot n P = Some i"
    unfolding first_slot_Some by (metis less_trans)
  with Some show ?thesis by simp
qed

section \<open>Array copies\<close>

text \<open>\<open>for (i = 0; i < n; i++) dst[i] = src[i];\<close>\<close>

definition copy_to :: "nat \<Rightarrow> (nat \<Rightarrow> 'a) \<Rightarrow> (nat \<Rightarrow> 'a) \<Rightarrow> (nat \<Rightarrow> 'a)" where
  "copy_to n src dst = fold (\<lambda>i d. d(i := src i)) [0..<n] dst"

lemma copy_to_eq: "copy_to n src dst = (\<lambda>i. if i < n then src i else dst i)"
  by (induction n) (auto simp: copy_to_def fun_eq_iff)

text \<open>The first \<open>n\<close> cells of an array, as a list.\<close>

definition cells :: "nat \<Rightarrow> (nat \<Rightarrow> 'a) \<Rightarrow> 'a list" where
  "cells n a = map a [0..<n]"

lemma length_cells [simp]: "length (cells n a) = n"
  by (simp add: cells_def)

lemma nth_cells [simp]: "i < n \<Longrightarrow> cells n a ! i = a i"
  by (simp add: cells_def)

lemma set_cells: "set (cells n a) = a ` {..<n}"
  by (auto simp: cells_def)

lemma cells_0 [simp]: "cells 0 a = []"
  by (simp add: cells_def)

lemma cells_Suc: "cells (Suc n) a = cells n a @ [a n]"
  by (simp add: cells_def)

lemma cells_cong: "(\<And>i. i < n \<Longrightarrow> a i = b i) \<Longrightarrow> cells n a = cells n b"
  by (simp add: cells_def)

lemma cells_upd_ge [simp]: "n \<le> i \<Longrightarrow> cells n (a(i := x)) = cells n a"
  by (rule cells_cong) auto

lemma distinct_cells:
  "distinct (cells n a) \<longleftrightarrow> (\<forall>i<n. \<forall>j<n. a i = a j \<longrightarrow> i = j)"
  by (auto simp: distinct_conv_nth)

section \<open>Sums over index ranges\<close>

lemma sum_list_map_upt: "sum_list (map f [0..<n]) = (\<Sum>i<n. f i)" for f :: "nat \<Rightarrow> nat"
  by (induction n) auto

end
