(* ===== verification/Cstring.thy ===== *)
theory Cstring
  imports Prelude
begin

text \<open>
  C strings and the small string routines that the sources repeat from file to file:
  \<open>str_len\<close> and \<open>str_copy\<close> of \<open>process.c\<close>, \<open>sem_str_eq\<close> and \<open>sem_str_copy\<close> of
  \<open>semaphore.c\<close>, and the comparison loops of the user library.

  A string is the buffer that holds it, a list of characters; what the string denotes
  (\<open>cstr\<close>) is the part before the first NUL. Reading at the end of the list yields NUL, so a
  buffer without terminator denotes all its characters. \<open>None\<close> is the null pointer.
\<close>

abbreviation NUL :: char where
  "NUL \<equiv> CHR 0x00"

definition cstr :: "char list \<Rightarrow> string" where
  "cstr b = takeWhile (\<lambda>c. c \<noteq> NUL) b"

text \<open>\<open>*s\<close>\<close>

definition rd :: "char list \<Rightarrow> char" where
  "rd b = (case b of [] \<Rightarrow> NUL | c # _ \<Rightarrow> c)"

lemma rd_simps [simp]: "rd [] = NUL" "rd (c # cs) = c"
  by (simp_all add: rd_def)

lemma cstr_simps [simp]:
  "cstr [] = []"
  "cstr (c # cs) = (if c = NUL then [] else c # cstr cs)"
  by (simp_all add: cstr_def)

lemma NUL_notin_cstr: "NUL \<notin> set (cstr b)"
  by (auto simp: cstr_def dest: set_takeWhileD)

lemma cstr_no_NUL: "NUL \<notin> set s \<Longrightarrow> cstr s = s"
  by (auto simp: cstr_def takeWhile_eq_all_conv)

lemma cstr_idem [simp]: "cstr (cstr b) = cstr b"
  by (rule cstr_no_NUL) (rule NUL_notin_cstr)

lemma length_cstr_le: "length (cstr b) \<le> length b"
  by (simp add: cstr_def length_takeWhile_le)

section \<open>Length and copy (process.c)\<close>

fun str_len_loop :: "char list \<Rightarrow> nat" where
  "str_len_loop [] = 0"
| "str_len_loop (c # cs) = (if c = NUL then 0 else Suc (str_len_loop cs))"

definition str_len :: "char list option \<Rightarrow> nat" where
  "str_len s = (case s of None \<Rightarrow> 0 | Some b \<Rightarrow> str_len_loop b)"

text \<open>The copy loop at index \<open>i\<close>: the rest of the source, and the destination so far.\<close>

fun str_copy_loop :: "char list \<Rightarrow> nat \<Rightarrow> nat \<Rightarrow> char list \<Rightarrow> char list" where
  "str_copy_loop dst i lim [] = dst[i := NUL]"
| "str_copy_loop dst i lim (c # cs) =
     (if i < lim - 1 \<and> c \<noteq> NUL then str_copy_loop (dst[i := c]) (Suc i) lim cs
      else dst[i := NUL])"

definition str_copy :: "char list \<Rightarrow> char list option \<Rightarrow> nat \<Rightarrow> char list" where
  "str_copy dst src lim =
     (case src of None \<Rightarrow> dst[0 := NUL] | Some b \<Rightarrow> str_copy_loop dst 0 lim b)"

lemma str_len_loop_eq: "str_len_loop b = length (cstr b)"
  by (induction b) auto

lemma str_len_eq [simp]: "str_len (Some b) = length (cstr b)" "str_len None = 0"
  by (simp_all add: str_len_def str_len_loop_eq)

lemma length_str_copy_loop [simp]: "length (str_copy_loop dst i lim src) = length dst"
  by (induction dst i lim src rule: str_copy_loop.induct) auto

lemma length_str_copy [simp]: "length (str_copy dst src lim) = length dst"
  by (auto simp: str_copy_def split: option.splits)

lemma cstr_list_update_NUL:
  "i < length dst \<Longrightarrow> NUL \<notin> set (take i dst) \<Longrightarrow> cstr (dst[i := NUL]) = take i dst"
proof -
  assume i: "i < length dst" and n: "NUL \<notin> set (take i dst)"
  have "dst[i := NUL] = take i dst @ NUL # drop (Suc i) dst"
    using i by (simp add: upd_conv_take_nth_drop)
  then show ?thesis
    unfolding cstr_def by (simp, subst takeWhile_append2) (use n in auto)
qed

lemma cstr_str_copy_loop:
  "i \<le> lim - 1 \<Longrightarrow> lim \<le> length dst \<Longrightarrow> 0 < lim \<Longrightarrow> NUL \<notin> set (take i dst) \<Longrightarrow>
   cstr (str_copy_loop dst i lim src) = take i dst @ take (lim - 1 - i) (cstr src)"
proof (induction dst i lim src rule: str_copy_loop.induct)
  case (1 dst i lim)
  then show ?case by (simp add: cstr_list_update_NUL)
next
  case (2 dst i lim c cs)
  show ?case
  proof (cases "i < lim - 1 \<and> c \<noteq> NUL")
    case True
    then have i: "i < length dst" using "2.prems" by linarith
    have "cstr (str_copy_loop dst i lim (c # cs)) =
        take (Suc i) (dst[i := c]) @ take (lim - 1 - Suc i) (cstr cs)"
      using "2.IH" "2.prems" True i not_sym [OF conjunct2 [OF True]]
      by (simp add: take_Suc_conv_app_nth)
    moreover have "take (Suc i) (dst[i := c]) = take i dst @ [c]"
      using i by (simp add: take_Suc_conv_app_nth)
    moreover have "lim - 1 - i = Suc (lim - 1 - Suc i)" using True by linarith
    ultimately show ?thesis using True by simp
  next
    case False
    then show ?thesis
      using "2.prems" by (auto simp: cstr_list_update_NUL)
  qed
qed

lemma cstr_str_copy:
  "0 < lim \<Longrightarrow> lim \<le> length dst \<Longrightarrow>
   cstr (str_copy dst (Some src) lim) = take (lim - 1) (cstr src)"
  by (simp add: str_copy_def cstr_str_copy_loop)

lemma cstr_str_copy_None:
  "dst \<noteq> [] \<Longrightarrow> cstr (str_copy dst None lim) = []"
  by (cases dst) (simp_all add: str_copy_def)

section \<open>Comparison\<close>

text \<open>\<open>while (*a && (*a == *b)) { a++; b++; } return *a == *b;\<close>\<close>

fun str_eq_loop :: "char list \<Rightarrow> char list \<Rightarrow> bool" where
  "str_eq_loop [] b = (NUL = rd b)"
| "str_eq_loop (x # xs) b =
     (if x \<noteq> NUL \<and> x = rd b then str_eq_loop xs (tl b) else x = rd b)"

lemma str_eq_loop_eq: "str_eq_loop a b \<longleftrightarrow> cstr a = cstr b"
proof (induction a arbitrary: b)
  case Nil
  then show ?case by (cases b) auto
next
  case (Cons x xs)
  then show ?case by (cases b) auto
qed

text \<open>\<open>sem_str_eq\<close> (semaphore.c)\<close>

definition sem_str_eq :: "char list option \<Rightarrow> char list option \<Rightarrow> bool" where
  "sem_str_eq a b =
     (case a of None \<Rightarrow> False
      | Some x \<Rightarrow> (case b of None \<Rightarrow> False | Some y \<Rightarrow> str_eq_loop x y))"

lemma sem_str_eq_Some [simp]: "sem_str_eq (Some a) (Some b) \<longleftrightarrow> cstr a = cstr b"
  by (simp add: sem_str_eq_def str_eq_loop_eq)

text \<open>\<open>sem_str_copy\<close> (semaphore.c) is \<open>str_copy\<close> of process.c, line by line.\<close>

definition sem_str_copy :: "char list \<Rightarrow> char list option \<Rightarrow> nat \<Rightarrow> char list" where
  "sem_str_copy dst src lim =
     (case src of None \<Rightarrow> dst[0 := NUL] | Some b \<Rightarrow> str_copy_loop dst 0 lim b)"

lemma sem_str_copy_eq: "sem_str_copy = str_copy"
  by (simp add: sem_str_copy_def str_copy_def fun_eq_iff)

end
