(* ===== verification/Lib.thy ===== *)
theory Lib
  imports Prelude Cstring
begin

text \<open>
  \<open>Kernel/c/lib\<close>: \<open>memset\<close> and \<open>memcpy\<close>, the conversion of numbers to text
  (\<open>uintToBase\<close>, with \<open>intToHexa\<close> of the keyboard driver and \<open>printHex64\<close> of the exception
  handlers on top of it) and the module loader.
\<close>

section \<open>Memory\<close>

text \<open>\<open>while (length--) dst[length] = chr;\<close> --- from the last byte down.\<close>

definition memset :: "u64 \<Rightarrow> int \<Rightarrow> nat \<Rightarrow> (u64 \<Rightarrow> u8) \<Rightarrow> (u64 \<Rightarrow> u8)" where
  "memset destination c len m =
     fold (\<lambda>i m. m(destination + of_nat i := word_of_int c)) (rev [0..<len]) m"

text \<open>The word-wise loop of \<open>memcpy\<close> copies four bytes per round.\<close>

definition copy_word :: "u64 \<Rightarrow> u64 \<Rightarrow> nat \<Rightarrow> (u64 \<Rightarrow> u8) \<Rightarrow> (u64 \<Rightarrow> u8)" where
  "copy_word d s i m =
     (let a = d + 4 * of_nat i; b = s + 4 * of_nat i
      in m(a := m b, a + 1 := m (b + 1), a + 2 := m (b + 2), a + 3 := m (b + 3)))"

definition memcpy :: "u64 \<Rightarrow> u64 \<Rightarrow> nat \<Rightarrow> (u64 \<Rightarrow> u8) \<Rightarrow> (u64 \<Rightarrow> u8)" where
  "memcpy destination source len m =
     (if destination mod 4 = 0 \<and> source mod 4 = 0 \<and> len mod 4 = 0 then
        fold (copy_word destination source) [0..<len div 4] m
      else
        fold (\<lambda>i m. m(destination + of_nat i := m (source + of_nat i))) [0..<len] m)"

section \<open>Numbers to text\<close>

text \<open>\<open>(r < 10) ? r + '0' : r + 'A' - 10\<close>\<close>

definition digit_char :: "nat \<Rightarrow> char" where
  "digit_char r = (if r < 10 then char_of (r + 48) else char_of (r + 65 - 10))"

text \<open>
  The \<open>do ... while (value /= base)\<close> loop: the digits, least significant first. It ends for
  bases from 2 on (the kernel passes 2, 10 and 16); the test on the base only serves to make
  the function total.
\<close>

function digits_loop :: "u64 \<Rightarrow> u32 \<Rightarrow> char list" where
  "digits_loop value' base =
     digit_char (unat (value' mod ucast base))
     # (if value' div ucast base \<noteq> 0 \<and> base \<ge> 2 then digits_loop (value' div ucast base) base else [])"
  by pat_completeness auto
termination
proof (relation "measure (\<lambda>(v, b). unat v)", simp)
  fix v :: u64 and base :: u32
  assume a: "v div ucast base \<noteq> 0 \<and> base \<ge> 2"
  have b: "2 \<le> unat base" using a by (simp add: word_le_nat_alt)
  have "unat base < 2 ^ 32" by (rule order_less_le_trans [OF unsigned_less]) simp
  then have u: "unat (ucast base :: u64) = unat base"
    by (simp add: unsigned_ucast_eq take_bit_nat_eq_self)
  have "v \<noteq> 0" using a by auto
  then have "0 < unat v" by (simp add: unat_gt_0)
  then have "unat v div unat base < unat v" using b by (intro div_less_dividend) auto
  then show "((v div ucast base, base), v, base) \<in> measure (\<lambda>(v, b). unat v)"
    by (simp add: unat_div u)
qed

declare digits_loop.simps [simp del]

text \<open>The reversal in place, with two pointers.\<close>

function reverse_loop :: "nat \<Rightarrow> nat \<Rightarrow> 'a list \<Rightarrow> 'a list" where
  "reverse_loop p1 p2 xs =
     (if p1 < p2 then reverse_loop (p1 + 1) (p2 - 1) (xs[p1 := xs ! p2, p2 := xs ! p1]) else xs)"
  by pat_completeness auto
termination
  by (relation "measure (\<lambda>(p1, p2, xs). p2 - p1)") auto

declare reverse_loop.simps [simp del]

text \<open>\<open>uintToBase\<close>: the number of digits, and the digits written before the final NUL.\<close>

definition uintToBase :: "u64 \<Rightarrow> u32 \<Rightarrow> nat \<times> char list" where
  "uintToBase value' base =
     (let ds = digits_loop value' base
      in (length ds, reverse_loop 0 (length ds - 1) ds))"

text \<open>The first loop of \<open>intToHexa\<close>: \<open>aux >>= 4; --zerosPad;\<close>\<close>

function hex_pad :: "u64 \<Rightarrow> int \<Rightarrow> int" where
  "hex_pad aux zerosPad = (if aux \<noteq> 0 then hex_pad (drop_bit 4 aux) (zerosPad - 1) else zerosPad)"
  by pat_completeness auto
termination
proof (relation "measure (\<lambda>(a, z). unat a)", simp)
  fix a :: u64 and z :: int
  assume "a \<noteq> 0"
  then have "0 < unat a" by (simp add: unat_gt_0)
  then have "unat a div 16 < unat a" by (intro div_less_dividend) auto
  moreover have "unat (drop_bit 4 a) = unat a div 16"
  proof -
    have "unat a < 2 ^ 64" by (rule order_less_le_trans [OF unsigned_less]) simp
    then have "take_bit 64 (unat a) = unat a" by (rule take_bit_nat_eq_self)
    then show ?thesis unfolding unsigned_drop_bit_eq by (simp add: drop_bit_eq_div)
  qed
  ultimately show "((drop_bit 4 a, z - 1), a, z) \<in> measure (\<lambda>(a, z). unat a)"
    by (simp only: in_measure case_prod_conv)
qed

declare hex_pad.simps [simp del]

definition intToHexa :: "u64 \<Rightarrow> nat \<times> char list" where
  "intToHexa value' =
     (let zeros = replicate (nat (hex_pad value' 16)) (CHR ''0'');
          ds = (if value' \<noteq> 0 then snd (uintToBase value' 16) else [])
      in (length zeros + length ds, zeros @ ds))"

text \<open>\<open>printHex64\<close> (exceptions.c) builds the same string with its own padding.\<close>

definition printHex64_text :: "u64 \<Rightarrow> char list" where
  "printHex64_text val =
     (let (n, tmp) = uintToBase val 16;
          pad = (if n < 16 then 16 - n else 0)
      in replicate pad (CHR ''0'') @ tmp)"

section \<open>The module loader (moduleLoader.c)\<close>

text \<open>\<open>readUint32\<close>: a little-endian word, and the advanced pointer.\<close>

definition readUint32 :: "(u64 \<Rightarrow> u8) \<Rightarrow> u64 \<Rightarrow> u32 \<times> u64" where
  "readUint32 m a =
     (ucast (m a) OR push_bit 8 (ucast (m (a + 1))) OR push_bit 16 (ucast (m (a + 2)))
        OR push_bit 24 (ucast (m (a + 3))),
      a + 4)"

definition loadModule :: "u64 \<Rightarrow> u64 \<times> (u64 \<Rightarrow> u8) \<Rightarrow> u64 \<times> (u64 \<Rightarrow> u8)" where
  "loadModule target s =
     (let (a, m) = s;
          (sz, a) = readUint32 m a
      in (a + ucast sz, memcpy target a (unat sz) m))"

definition loadModules :: "u64 \<Rightarrow> (nat \<Rightarrow> u64) \<Rightarrow> (u64 \<Rightarrow> u8) \<Rightarrow> (u64 \<Rightarrow> u8)" where
  "loadModules payloadStart targets m =
     (let (n, a) = readUint32 m payloadStart
      in snd (fold (\<lambda>i. loadModule (targets i)) [0..<unat n] (a, m)))"

end
