(* ===== verification/Module_Packer.thy ===== *)
theory Module_Packer
  imports Lib
begin

text \<open>
  \<open>Toolchain/ModulePacker/main.c\<close>: the host tool that appends the modules of user space to the kernel. The
  image is the kernel, the number of modules and then each module behind its size, both numbers as
  four bytes, the lowest first: what \<open>loadModules\<close> of the kernel reads.

  The file system of the host is a map from names to contents; a name with no contents cannot be read.
  \<open>argp_parse\<close> of the C library is represented by the sequence of keys it passes to \<open>parse_opt\<close>.
\<close>

record host =
  files :: "string \<Rightarrow> u8 list option"
  can_create :: "string \<Rightarrow> bool"
  stdout :: string

definition BUFFER_SIZE :: nat where
  "BUFFER_SIZE = 128"

definition MAX_FILES :: nat where
  "MAX_FILES = 128"

definition print :: "string \<Rightarrow> host \<Rightarrow> host" where
  "print msg h = h\<lparr>stdout := stdout h @ msg\<rparr>"

section \<open>Copying a file\<close>

text \<open>A stream that is read: what is left, and whether a read came back short.\<close>

record stream =
  left_over :: "u8 list"
  eof :: bool

definition fread :: "nat \<Rightarrow> stream \<Rightarrow> u8 list \<times> stream" where
  "fread n s =
     (take n (left_over s), s\<lparr>left_over := drop n (left_over s), eof := (eof s \<or> length (left_over s) < n)\<rparr>)"

text \<open>\<open>while (!feof(source))\<close>; \<open>t\<close> is what has been written to the target.\<close>

function write_file :: "u8 list \<Rightarrow> stream \<Rightarrow> u8 list" where
  "write_file t source =
     (if eof source then t
      else let (buffer, source) = fread BUFFER_SIZE source in write_file (t @ buffer) source)"
  by pat_completeness auto
termination
  by (relation "measure (\<lambda>(t, s). if eof s then 0 else Suc (length (left_over s)))")
    (auto simp: fread_def BUFFER_SIZE_def)

declare write_file.simps [simp del]

definition le32 :: "u32 \<Rightarrow> u8 list" where
  "le32 w = [ucast w, ucast (drop_bit 8 w), ucast (drop_bit 16 w), ucast (drop_bit 24 w)]"

text \<open>\<open>st_size\<close> is cut off at 32 bits.\<close>

definition write_size :: "u8 list \<Rightarrow> u8 list \<Rightarrow> u8 list" where
  "write_size t content = t @ le32 (of_nat (length content))"

section \<open>Building the image\<close>

text \<open>
  The bytes a source delivers. \<open>None\<close> stands for undefined behaviour: a file that cannot be opened is
  read through a null pointer, and what comes out of the file that is being written depends on buffering.
\<close>

definition source_of :: "string \<Rightarrow> host \<Rightarrow> string \<Rightarrow> u8 list option" where
  "source_of target h f = (if target = f then None else files h f)"

fun write_modules :: "string \<Rightarrow> host \<Rightarrow> string list \<Rightarrow> u8 list \<Rightarrow> u8 list option" where
  "write_modules target h [] t = Some t"
| "write_modules target h (f # fs) t =
     (case source_of target h f of
        None \<Rightarrow> None
      | Some content \<Rightarrow>
          write_modules target h fs (write_file (write_size t content) \<lparr>left_over = content, eof = False\<rparr>))"

definition buildImage :: "string list \<Rightarrow> string \<Rightarrow> host \<Rightarrow> (bool \<times> host) option" where
  "buildImage fileArray output_file h =
     (if \<not> can_create h output_file then Some (False, print ''Can't create target file\<newline>'' h)
      else
        case source_of output_file h (hd fileArray) of
          None \<Rightarrow> None
        | Some binary \<Rightarrow>
            let t = write_file [] \<lparr>left_over = binary, eof = False\<rparr>;
                extraBinaries = int (length fileArray) - 1;
                t = t @ le32 (word_of_int extraBinaries)
            in map_option (\<lambda>t. (True, h\<lparr>files := (files h)(output_file \<mapsto> t)\<rparr>))
                 (write_modules output_file h (tl fileArray) t))"

fun checkFiles :: "string list \<Rightarrow> host \<Rightarrow> bool \<times> host" where
  "checkFiles [] h = (True, h)"
| "checkFiles (f # fs) h =
     (if files h f = None then (False, print (''Can't open file: '' @ f @ ''\<newline>'') h) else checkFiles fs h)"

section \<open>The command line\<close>

record arguments =
  args :: "string list"
  output_file :: string
  count :: nat

datatype key = Key_Output string | Key_Arg string | Key_End | Key_Other

text \<open>
  What \<open>parse_opt\<close> does with one key: \<open>argp_usage\<close> does not return, and the array \<open>args\<close> has \<open>MAX_FILES\<close>
  entries, which the code does not check.
\<close>

datatype parsed = Parsed arguments | Err_Unknown | Usage_Exit | Args_Overflow

definition parse_opt :: "key \<Rightarrow> nat \<Rightarrow> arguments \<Rightarrow> parsed" where
  "parse_opt k arg_num a =
     (case k of
        Key_Output f \<Rightarrow> Parsed (a\<lparr>output_file := f\<rparr>)
      | Key_Arg f \<Rightarrow> if arg_num < MAX_FILES then Parsed (a\<lparr>args := (args a)[arg_num := f]\<rparr>) else Args_Overflow
      | Key_End \<Rightarrow> if arg_num < 1 then Usage_Exit else Parsed (a\<lparr>count := arg_num\<rparr>)
      | Key_Other \<Rightarrow> Err_Unknown)"

text \<open>\<open>argp_parse\<close> counts the arguments that were taken and passes over keys the parser does not know.\<close>

fun argp_parse :: "key list \<Rightarrow> nat \<Rightarrow> arguments \<Rightarrow> parsed" where
  "argp_parse [] n a = Parsed a"
| "argp_parse (k # ks) n a =
     (case parse_opt k n a of
        Parsed b \<Rightarrow> argp_parse ks (case k of Key_Arg f \<Rightarrow> n + 1 | _ \<Rightarrow> n) b
      | Err_Unknown \<Rightarrow> argp_parse ks n a
      | r \<Rightarrow> r)"

text \<open>The exit status and the host; \<open>None\<close> for undefined behaviour. Usage errors exit with 64.\<close>

definition packer_main :: "key list \<Rightarrow> host \<Rightarrow> (int \<times> host) option" where
  "packer_main argv h =
     (case argp_parse argv 0 \<lparr>args = replicate MAX_FILES '''', output_file = ''packedKernel.bin'', count = 0\<rparr> of
        Parsed a \<Rightarrow>
          let fileArray = take (count a) (args a); (ok, h) = checkFiles fileArray h
          in if \<not> ok then Some (1, h)
             else map_option (\<lambda>(ok, h). (if ok then 0 else 1, h)) (buildImage fileArray (output_file a) h)
      | Usage_Exit \<Rightarrow> Some (64, h)
      | _ \<Rightarrow> None)"

end
