(* ===== verification/Bmfs.thy ===== *)
theory Bmfs
  imports Module_Packer
begin

text \<open>
  \<open>Bootloader/BMFS/bmfs.c\<close>: the host tool that makes disk images with the file system from which the boot
  loader starts, and copies files into and out of them. A disk is divided into blocks of 2 MiB. Block 0
  holds the marker and the directory of 64 entries of 64 bytes; a file is a run of blocks from 1 on.

  A disk and a local file are lists of bytes; the directory is the 4096 bytes that are on the disk, so
  that a \<open>strcpy\<close> past the end of a name does what it does. The stream \<open>disk\<close> has a position and an error
  flag. \<open>None\<close> as the result of a command is undefined behaviour: a comparison with a null pointer, an
  \<open>int\<close> that counts past \<open>2^31 - 1\<close>, a name that does not fit the directory, or a local file that is the
  disk itself. Arguments are C strings, and hold no NUL.
\<close>

text \<open>
  What the C library and the machine contribute: the order in which \<open>qsort\<close> leaves an array, the success of
  \<open>malloc\<close>, the input of the user, how far the disk can be written, and the text of the percentage in the
  progress display.
\<close>

type_synonym BMFSEntry = "u8 list"

record libc =
  qsort :: "(BMFSEntry \<Rightarrow> BMFSEntry \<Rightarrow> int) \<Rightarrow> BMFSEntry list \<Rightarrow> BMFSEntry list"
  malloc_ok :: bool
  input_line :: string
  capacity :: nat
  percent_text :: "u64 \<Rightarrow> u64 \<Rightarrow> string"

record bmfs =
  on_host :: host
  diskname :: string
  disk :: "u8 list"
  disk_pos :: nat
  disk_error :: bool
  disksize :: u32
  Directory :: "u8 list"
  DiskInfo :: "u8 list"

definition out_text :: "string \<Rightarrow> bmfs \<Rightarrow> bmfs" where
  "out_text msg s = s\<lparr>on_host := print msg (on_host s)\<rparr>"

section \<open>Text\<close>

definition byte :: "char \<Rightarrow> u8" where
  "byte c = of_nat (of_char c)"

definition chr_of :: "u8 \<Rightarrow> char" where
  "chr_of b = char_of (unat b)"

fun dec :: "nat \<Rightarrow> string" where
  "dec n = (if n < 10 then [char_of (48 + n)] else dec (n div 10) @ [char_of (48 + n mod 10)])"

declare dec.simps [simp del]

text \<open>\<open>%-32s\<close> and \<open>%20lld\<close>\<close>

definition pad_right :: "nat \<Rightarrow> string \<Rightarrow> string" where
  "pad_right n t = t @ replicate (n - length t) (CHR '' '')"

definition lld :: "nat \<Rightarrow> u64 \<Rightarrow> string" where
  "lld n v =
     (let t = (if sint v < 0 then CHR ''-'' # dec (nat (- sint v)) else dec (nat (sint v)))
      in replicate (n - length t) (CHR '' '') @ t)"

definition llu :: "u64 \<Rightarrow> string" where
  "llu v = dec (unat v)"

definition quoted :: "string \<Rightarrow> string" where
  "quoted t = CHR 0x27 # t @ [CHR 0x27]"

definition is_digit :: "char \<Rightarrow> bool" where
  "is_digit c \<longleftrightarrow> 48 \<le> (of_char c :: nat) \<and> (of_char c :: nat) \<le> 57"

definition digit :: "char \<Rightarrow> nat" where
  "digit c = of_char c - 48"

definition is_upper :: "char \<Rightarrow> bool" where
  "is_upper c \<longleftrightarrow> 65 \<le> (of_char c :: nat) \<and> (of_char c :: nat) \<le> 90"

definition tolower :: "char \<Rightarrow> char" where
  "tolower c = (if is_upper c then char_of ((of_char c :: nat) + 32) else c)"

definition toupper :: "char \<Rightarrow> char" where
  "toupper c = (if 97 \<le> (of_char c :: nat) \<and> (of_char c :: nat) \<le> 122 then char_of ((of_char c :: nat) - 32) else c)"

text \<open>\<open>strcasecmp(a, b) == 0\<close>\<close>

definition same_text :: "string \<Rightarrow> string \<Rightarrow> bool" where
  "same_text a b \<longleftrightarrow> map tolower (cstr a) = map tolower (cstr b)"

text \<open>\<open>atoi\<close>; a number that is not an \<open>int\<close> is undefined behaviour.\<close>

definition atoi :: "string \<Rightarrow> int option" where
  "atoi t =
     (let t = dropWhile (\<lambda>c. c = CHR '' '' \<or> 9 \<le> (of_char c :: nat) \<and> (of_char c :: nat) \<le> 13) t;
          neg = (t \<noteq> [] \<and> hd t = CHR ''-'');
          t = (if t \<noteq> [] \<and> (hd t = CHR ''-'' \<or> hd t = CHR ''+'') then tl t else t);
          n = foldl (\<lambda>n c. 10 * n + int (digit c)) 0 (takeWhile is_digit t);
          n = (if neg then - n else n)
      in if - (2 ^ 31) \<le> n \<and> n < 2 ^ 31 then Some n else None)"

section \<open>The disk\<close>

text \<open>Bytes at a place of a list, which grows as a file does.\<close>

definition patch :: "nat \<Rightarrow> u8 list \<Rightarrow> u8 list \<Rightarrow> u8 list" where
  "patch p bs d =
     (if bs = [] then d
      else take p (d @ replicate (p - length d) 0) @ bs @ drop (p + length bs) d)"

definition fseek :: "u64 \<Rightarrow> bmfs \<Rightarrow> bmfs" where
  "fseek off s = (if sint off < 0 then s else s\<lparr>disk_pos := unat off\<rparr>)"

text \<open>Whether everything was written.\<close>

definition fwrite :: "libc \<Rightarrow> u8 list \<Rightarrow> bmfs \<Rightarrow> bool \<times> bmfs" where
  "fwrite c bs s =
     (let room = capacity c - disk_pos s; ok = (length bs \<le> room)
      in (ok, s\<lparr>disk := patch (disk_pos s) (take room bs) (disk s),
                disk_pos := disk_pos s + length (take room bs), disk_error := (disk_error s \<or> \<not> ok)\<rparr>))"

text \<open>What is there of \<open>n\<close> bytes at \<open>p\<close> goes to the front of the buffer.\<close>

definition read_into :: "nat \<Rightarrow> nat \<Rightarrow> u8 list \<Rightarrow> u8 list \<Rightarrow> u8 list" where
  "read_into p n d buf = patch 0 (take n (drop p d)) buf"

definition close_disk :: "bmfs \<Rightarrow> bmfs" where
  "close_disk s = s\<lparr>on_host := (on_host s)\<lparr>files := (files (on_host s))(diskname s \<mapsto> disk s)\<rparr>\<rparr>"

section \<open>Directory entries\<close>

text \<open>Eight bytes, the lowest first.\<close>

fun le_bytes :: "nat \<Rightarrow> u64 \<Rightarrow> u8 list" where
  "le_bytes 0 w = []"
| "le_bytes (Suc n) w = ucast w # le_bytes n (drop_bit 8 w)"

definition rd64 :: "u8 list \<Rightarrow> u64" where
  "rd64 bs = foldr (\<lambda>b w. ucast b OR push_bit 8 w) bs 0"

definition entry_at :: "u8 list \<Rightarrow> nat \<Rightarrow> BMFSEntry" where
  "entry_at d i = take 64 (drop (64 * i) d)"

definition FileName :: "BMFSEntry \<Rightarrow> string" where
  "FileName e = map chr_of (takeWhile (\<lambda>b. b \<noteq> 0) e)"

definition StartingBlock :: "BMFSEntry \<Rightarrow> u64" where
  "StartingBlock e = rd64 (take 8 (drop 32 e))"

definition ReservedBlocks :: "BMFSEntry \<Rightarrow> u64" where
  "ReservedBlocks e = rd64 (take 8 (drop 40 e))"

definition FileSize :: "BMFSEntry \<Rightarrow> u64" where
  "FileSize e = rd64 (take 8 (drop 48 e))"

text \<open>
  The loop of \<open>findfile\<close>: the number of the entry, \<open>Some None\<close> if there is none. The name may be the null
  pointer, which \<open>strcmp\<close> would read.
\<close>

fun find_loop :: "u8 list \<Rightarrow> string option \<Rightarrow> nat list \<Rightarrow> nat option option" where
  "find_loop d nm [] = Some None"
| "find_loop d nm (i # is) =
     (let e = entry_at d i
      in if e ! 0 = 0 then Some None
         else if e ! 0 = 1 then find_loop d nm is
         else case nm of
                None \<Rightarrow> None
              | Some f \<Rightarrow> if f = FileName e then Some (Some i) else find_loop d nm is)"

definition findfile :: "string option \<Rightarrow> bmfs \<Rightarrow> nat option option" where
  "findfile nm s = find_loop (Directory s) nm [0..<64]"

section \<open>list and format\<close>

fun list_loop :: "nat list \<Rightarrow> bmfs \<Rightarrow> bmfs" where
  "list_loop [] s = s"
| "list_loop (i # is) s =
     (let e = entry_at (Directory s) i
      in if e ! 0 = 0 then s
         else if e ! 0 = 1 then list_loop is s
         else list_loop is (out_text (pad_right 32 (FileName e) @ '' '' @ lld 20 (FileSize e) @ '' '' @
                lld 20 (ReservedBlocks e * 2) @ ''\<newline>'') s))"

definition list_files :: "bmfs \<Rightarrow> bmfs" where
  "list_files s =
     list_loop [0..<64]
       (out_text (diskname s @ ''\<newline>Disk Size: '' @ lld 0 (scast (disksize s)) @ '' MiB\<newline>'' @
          ''Name                            |            Size (B)|      Reserved (MiB)\<newline>'' @
          replicate 74 (CHR ''='') @ ''\<newline>'') s)"

definition flush_directory :: "libc \<Rightarrow> bmfs \<Rightarrow> bmfs" where
  "flush_directory c s = (let s = fseek 4096 s in snd (fwrite c (Directory s) s))"

definition format_disk :: "libc \<Rightarrow> bmfs \<Rightarrow> bmfs" where
  "format_disk c s =
     (let s = s\<lparr>DiskInfo := map byte ''BMFS'' @ replicate 508 0, Directory := replicate 4096 0\<rparr>;
          s = fseek 1024 s;
          s = snd (fwrite c (DiskInfo s) s);
          s = flush_directory c s
      in out_text ''Format complete.\<newline>'' s)"

end
