(* ===== verification/Bmfs_Commands.thy ===== *)
theory Bmfs_Commands
  imports Bmfs
begin

text \<open>
  The commands of \<open>Bootloader/BMFS/bmfs.c\<close> that change a disk: \<open>create\<close>, \<open>read\<close>, \<open>write\<close>, \<open>delete\<close> and
  \<open>initialize\<close>, and \<open>main\<close>.
\<close>

section \<open>create\<close>

text \<open>
  The comparison function: the difference of the blocks is cut off at an \<open>int\<close>, and of two unused entries
  each is greater than the other.
\<close>

definition StartingBlockCmp :: "BMFSEntry \<Rightarrow> BMFSEntry \<Rightarrow> int" where
  "StartingBlockCmp ea eb =
     (if ea ! 0 = 1 then 1
      else if eb ! 0 = 1 then - 1
      else sint (ucast (StartingBlock ea - StartingBlock eb) :: u32))"

text \<open>
  The number of entries in front of the end marker, and the first entry that is free; the number stays 0
  if there is no marker.
\<close>

fun count_entries :: "u8 list \<Rightarrow> nat list \<Rightarrow> nat option \<Rightarrow> nat \<times> nat option" where
  "count_entries d [] free = (0, free)"
| "count_entries d (i # is) free =
     (let e = entry_at d i
      in if e ! 0 = 0 then (i, if free = None then Some i else free)
         else if e ! 0 = 1 then count_entries d is (if free = None then Some i else free)
         else count_entries d is free)"

text \<open>
  The search for a gap: \<open>es\<close> are the sorted entries still to come, \<open>prev_file_end\<close> the end of the one
  before. The result is \<open>new_file_start\<close>, 0 if there is no gap.
\<close>

fun find_gap :: "BMFSEntry list \<Rightarrow> u64 \<Rightarrow> u64 \<Rightarrow> u64 \<Rightarrow> u64" where
  "find_gap [] num_blocks blocks_requested prev_file_end =
     (let this_file_start = num_blocks - 1
      in if this_file_start - prev_file_end \<ge> blocks_requested then prev_file_end else 0)"
| "find_gap (e # es) num_blocks blocks_requested prev_file_end =
     (let this_file_start = (if e ! 0 = 1 then num_blocks - 1 else StartingBlock e)
      in if this_file_start - prev_file_end \<ge> blocks_requested then prev_file_end
         else find_gap es num_blocks blocks_requested (StartingBlock e + ReservedBlocks e))"

text \<open>
  The new entry: \<open>strcpy\<close> writes the name last, over what follows if it is longer than 31 characters.
\<close>

definition add_entry :: "string \<Rightarrow> nat \<Rightarrow> nat \<Rightarrow> u64 \<Rightarrow> u64 \<Rightarrow> u8 list \<Rightarrow> u8 list" where
  "add_entry nm slot num_used start blocks d =
     (let d = patch (64 * slot + 32) (le_bytes 8 start) d;
          d = patch (64 * slot + 40) (le_bytes 8 blocks) d;
          d = patch (64 * slot + 48) (le_bytes 8 0) d;
          d = patch (64 * slot) (map byte nm @ [0]) d
      in if slot = num_used \<and> num_used + 1 < 64 then patch (64 * (num_used + 1)) [0] d else d)"

definition bm_create :: "libc \<Rightarrow> string \<Rightarrow> u64 \<Rightarrow> bmfs \<Rightarrow> bmfs option" where
  "bm_create c nm maxsize s =
     (let maxsize = (if maxsize mod 2 \<noteq> 0 then maxsize + 1 else maxsize)
      in case findfile (Some nm) s of
           None \<Rightarrow> None
         | Some (Some _) \<Rightarrow> Some (out_text ''Error: File already exists.\<newline>'' s)
         | Some None \<Rightarrow>
             let blocks_requested = maxsize div 2;
                 num_blocks = ucast (disksize s div 2);
                 s = out_text ''Creating new file...\<newline>'' s;
                 (num_used, first_free) = count_entries (Directory s) [0..<64] None
             in case first_free of
                  None \<Rightarrow> Some (out_text ''Cannot create file: no free directory entries.\<newline>'' s)
                | Some slot \<Rightarrow>
                    let sorted_copy = qsort c StartingBlockCmp (map (entry_at (Directory s)) [0..<num_used]);
                        start = find_gap sorted_copy num_blocks blocks_requested 1
                    in if start = 0 then
                         Some (out_text (''Cannot create file of size '' @ lld 0 maxsize @ '' MiB.\<newline>'') s)
                       else if 64 * slot + length nm + 1 > 4096 then None
                       else
                         let s = s\<lparr>Directory := add_entry nm slot num_used start blocks_requested (Directory s)\<rparr>;
                             s = flush_directory c s
                         in Some (out_text ''Complete\<newline>'' s))"

section \<open>read, write and delete\<close>

text \<open>\<open>putc(getc(disk), tfile)\<close>: behind the end of the disk \<open>getc\<close> gives -1.\<close>

fun getc_at :: "u8 list \<Rightarrow> nat \<Rightarrow> u8" where
  "getc_at d p = (if p < length d then d ! p else 0xFF)"

definition bm_read :: "string option \<Rightarrow> bmfs \<Rightarrow> bmfs option" where
  "bm_read nm s =
     (case findfile nm s of
        None \<Rightarrow> None
      | Some None \<Rightarrow> Some (out_text ''Error: File not found in BMFS.\<newline>'' s)
      | Some (Some i) \<Rightarrow>
          let e = entry_at (Directory s) i;
              s = out_text (''Reading '' @ quoted (the nm) @ '' from BMFS to local file... '') s
          in if \<not> can_create (on_host s) (FileName e) then
               Some (out_text (''Error: Could not open local file '' @ quoted (FileName e) @ ''\<newline>'') s)
             else if FileName e = diskname s \<or> FileSize e \<ge> 2 ^ 31 then None
             else
               let s = fseek (StartingBlock e * 2097152) s;
                   content = map (getc_at (disk s)) [disk_pos s..<disk_pos s + unat (FileSize e)];
                   s = s\<lparr>disk_pos := disk_pos s + unat (FileSize e),
                         on_host := (on_host s)\<lparr>files := (files (on_host s))(FileName e \<mapsto> content)\<rparr>\<rparr>
               in Some (out_text ''Complete\<newline>'' s))"

definition bm_write :: "libc \<Rightarrow> string option \<Rightarrow> bmfs \<Rightarrow> bmfs option" where
  "bm_write c nm s =
     (case findfile nm s of
        None \<Rightarrow> None
      | Some None \<Rightarrow>
          Some (out_text ''Error: File not found in BMFS. A file entry must first be created.\<newline>'' s)
      | Some (Some slot) \<Rightarrow>
          let e = entry_at (Directory s) slot; f = the nm;
              s = out_text (''Writing local file '' @ quoted f @ '' to BMFS... '') s
          in case files (on_host s) f of
               None \<Rightarrow> Some (out_text (''Error: Could not open local file '' @ quoted (FileName e) @ ''\<newline>'') s)
             | Some content \<Rightarrow>
                 let tempfilesize = of_nat (length content) :: u64
                 in if ReservedBlocks e * 2097152 < tempfilesize then
                      Some (out_text ''Not enough reserved space in BMFS.\<newline>'' s)
                    else if f = diskname s \<or> length content \<ge> 2 ^ 31 then None
                    else
                      let s = fseek (StartingBlock e * 2097152) s;
                          s = snd (fwrite c content s);
                          s = s\<lparr>Directory := patch (64 * slot + 48) (le_bytes 8 tempfilesize) (Directory s)\<rparr>;
                          s = flush_directory c s
                      in Some (out_text ''Complete\<newline>'' s))"

definition bm_delete :: "libc \<Rightarrow> string option \<Rightarrow> bmfs \<Rightarrow> bmfs option" where
  "bm_delete c nm s =
     (case findfile nm s of
        None \<Rightarrow> None
      | Some None \<Rightarrow> Some (out_text ''Error: File not found in BMFS.\<newline>'' s)
      | Some (Some slot) \<Rightarrow>
          let s = out_text (''Deleting file '' @ quoted (the nm) @ '' from BMFS... '') s;
              s = s\<lparr>Directory := patch (64 * slot) [1] (Directory s)\<rparr>;
              s = flush_directory c s
          in Some (out_text ''Complete\<newline>'' s))"

end
