(* ===== verification/Bmfs_Main.thy ===== *)
theory Bmfs_Main
  imports Bmfs_Commands
begin

text \<open>
  \<open>initialize\<close> of \<open>Bootloader/BMFS/bmfs.c\<close>, which makes a new disk, and \<open>main\<close>. As in the code, \<open>initialize\<close> goes
  through its steps with a return code \<open>ret\<close>, and a step is done only while that is 0.
\<close>

definition minimumDiskSize :: u64 where
  "minimumDiskSize = 6 * 1024 * 1024"

section \<open>The size\<close>

text \<open>The loop over the characters, \<open>first\<close> at the first: \<open>diskSize\<close>, \<open>diskSizeFactor\<close>, \<open>ret\<close> and the output.\<close>

definition unit_factor :: "char \<Rightarrow> nat option" where
  "unit_factor ch =
     (let u = toupper ch
      in if u = CHR ''K'' then Some 1 else if u = CHR ''M'' then Some 2 else if u = CHR ''G'' then Some 3
         else if u = CHR ''T'' then Some 4 else if u = CHR ''P'' then Some 5 else None)"

definition invalid_size :: "string \<Rightarrow> string" where
  "invalid_size sz = ''Error: Invalid disk size string: '' @ quoted sz @ ''\<newline>''"

fun size_chars :: "string \<Rightarrow> string \<Rightarrow> bool \<Rightarrow> u64 \<Rightarrow> nat \<Rightarrow> u64 \<times> nat \<times> int \<times> string" where
  "size_chars sz [] first diskSize factor = (diskSize, factor, 0, [])"
| "size_chars sz (ch # rest) first diskSize factor =
     (if is_digit ch then
        if diskSize * 10 > diskSize then size_chars sz rest False (diskSize * 10 + of_nat (digit ch)) factor
        else if diskSize = 0 then size_chars sz rest False (diskSize + of_nat (digit ch)) factor
        else (diskSize, factor, 1, ''Error: Disk size is too large\<newline>'')
      else if first then (diskSize, factor, 1, ''Error: A numeric disk size must be specified\<newline>'')
      else case unit_factor ch of
             None \<Rightarrow> (diskSize, factor, 1, invalid_size sz)
           | Some f \<Rightarrow>
               if rest \<noteq> [] then (diskSize, f, 1, invalid_size sz)
               else size_chars sz rest False diskSize f)"

text \<open>\<open>while (diskSizeFactor--)\<close>, which goes on after an error.\<close>

fun scale_loop :: "nat \<Rightarrow> u64 \<Rightarrow> int \<times> string \<Rightarrow> u64 \<times> int \<times> string" where
  "scale_loop 0 diskSize r = (diskSize, r)"
| "scale_loop (Suc n) diskSize (ret, out) =
     (if diskSize * 1024 > diskSize then scale_loop n (diskSize * 1024) (ret, out)
      else scale_loop n diskSize (1, out @ ''Error: Disk size is too large\<newline>''))"

text \<open>The size, the return code and what is printed.\<close>

definition disk_size :: "string \<Rightarrow> u64 \<times> int \<times> string" where
  "disk_size sz =
     (let (diskSize, factor, ret, out) = size_chars sz sz True 0 0;
          (diskSize, ret, out) =
            (if ret = 0 \<and> diskSize > 0 \<and> factor > 0 then scale_loop factor diskSize (ret, out)
             else (diskSize, ret, out))
      in if ret = 0 \<and> diskSize < minimumDiskSize then
           (diskSize, 1, out @ ''Error: Disk size must be at least '' @ llu minimumDiskSize @ '' bytes ('' @
              llu (minimumDiskSize div (1024 * 1024)) @ ''MiB)\<newline>'')
         else (diskSize, ret, out))"

section \<open>initialize\<close>

text \<open>Opening a file for reading; a file that was not named is not opened.\<close>

definition open_file :: "string option \<Rightarrow> string \<Rightarrow> int \<times> bmfs \<Rightarrow> int \<times> bmfs" where
  "open_file nm what r =
     (let (ret, s) = r
      in case nm of
           None \<Rightarrow> (ret, s)
         | Some f \<Rightarrow>
             if ret = 0 \<and> files (on_host s) f = None
             then (1, out_text (''Error: Unable to open '' @ what @ '' file '' @ quoted f @ ''\<newline>'') s)
             else (ret, s))"

definition bufferSize :: nat where
  "bufferSize = 50 * 1024"

definition write_failed :: "bmfs \<Rightarrow> bmfs" where
  "write_failed s = out_text (''Error: Failed to write disk '' @ quoted (diskname s) @ ''\<newline>'') s"

definition read_failed :: "string \<Rightarrow> bmfs \<Rightarrow> bmfs" where
  "read_failed f s = out_text (''Error: Failed to read file '' @ quoted f @ ''\<newline>'') s"

definition show_progress :: "libc \<Rightarrow> u64 \<Rightarrow> u64 \<Rightarrow> bmfs \<Rightarrow> bmfs" where
  "show_progress c writeSize diskSize s =
     out_text (''Formatting disk: '' @ llu writeSize @ '' of '' @ llu diskSize @ '' bytes ('' @
       percent_text c writeSize diskSize @ ''%)...'' @ [CHR 0x0D]) s"

lemma fill_step:
  fixes w d :: u64
  assumes "w < d"
  shows "let chunk = (if of_nat bufferSize > d - w then d - w else of_nat bufferSize)
    in 0 < unat chunk \<and> unat (w + chunk) = unat w + unat chunk \<and> unat w + unat chunk \<le> unat d"
proof -
  have w: "unat w < unat d" using assms by (simp add: word_less_nat_alt)
  have d: "unat (d - w) = unat d - unat w" using assms by (intro unat_sub) simp
  have b: "unat (of_nat bufferSize :: u64) = 51200" by (simp add: bufferSize_def)
  have lt: "unat d < 2 ^ 64" using unsigned_less [of d, where ?'a = nat] by simp
  define chunk :: u64 where "chunk = (if of_nat bufferSize > d - w then d - w else of_nat bufferSize)"
  have c: "0 < unat chunk" "unat chunk \<le> unat d - unat w"
    using w by (auto simp: chunk_def word_less_nat_alt b d)
  then have "unat (w + chunk) = unat w + unat chunk"
    using lt w by (intro unat_add_lem [THEN iffD1]) simp
  then show ?thesis using c w unfolding chunk_def [symmetric] Let_def by simp
qed

text \<open>The loop that fills the disk with zeros.\<close>

function fill_zeros :: "libc \<Rightarrow> u64 \<Rightarrow> u64 \<Rightarrow> bmfs \<Rightarrow> int \<times> bmfs" where
  "fill_zeros c diskSize writeSize s =
     (if writeSize < diskSize then
        let s = show_progress c writeSize diskSize s;
            chunkSize = (if of_nat bufferSize > diskSize - writeSize then diskSize - writeSize
                         else of_nat bufferSize);
            (ok, s) = fwrite c (replicate (unat chunkSize) 0) s
        in if \<not> ok then (1, write_failed s)
           else fill_zeros c diskSize (writeSize + chunkSize) s
      else (0, out_text (''Formatting disk: '' @ llu writeSize @ '' of '' @ llu diskSize @ '' bytes (100%)'' @
                 replicate 9 (CHR '' '') @ ''\<newline>'') s))"
  by pat_completeness auto

termination
proof (relation "measure (\<lambda>(c, d, w, s). unat d - unat w)", simp)
  fix c :: libc and d w chunk :: u64 and s s1 s2 :: bmfs and r ok
  assume w: "w < d"
    and chunk: "chunk = (if of_nat bufferSize > d - w then d - w else of_nat bufferSize)"
  show "((c, d, w + chunk, s2), c, d, w, s) \<in> measure (\<lambda>(c, d, w, s). unat d - unat w)"
    using fill_step [OF w, folded chunk] by (simp add: Let_def) linarith
qed

declare fill_zeros.simps [simp del]

text \<open>The loop that copies a file to the disk, in pieces of the size of the buffer.\<close>

function copy_file :: "libc \<Rightarrow> string \<Rightarrow> u8 list \<Rightarrow> int \<times> bmfs \<Rightarrow> int \<times> bmfs" where
  "copy_file c nm content (ret, s) =
     (let chunk = take bufferSize content
      in if chunk \<noteq> [] then
           let (ok, s) = fwrite c chunk s
           in copy_file c nm (drop bufferSize content) (if ok then (ret, s) else (1, write_failed s))
         else if disk_error s then (1, read_failed nm s) else (ret, s))"
  by pat_completeness auto
termination
  by (relation "measure (\<lambda>(c, nm, content, r). length content)") (auto simp: bufferSize_def)

declare copy_file.simps [simp del]

text \<open>The three files, which were opened before the disk was emptied.\<close>

definition write_mbr :: "libc \<Rightarrow> (string \<times> u8 list) option \<Rightarrow> int \<times> bmfs \<Rightarrow> int \<times> bmfs" where
  "write_mbr c f r =
     (let (ret, s) = r
      in case f of
           None \<Rightarrow> (ret, s)
         | Some (nm, content) \<Rightarrow>
             if ret \<noteq> 0 then (ret, s)
             else
               let s = out_text ''Writing master boot record.\<newline>'' s;
                   s = fseek 0 s
               in if 512 \<le> length content then
                    let (ok, s) = fwrite c (take 512 content) s
                    in if ok then (ret, s) else (1, write_failed s)
                  else (1, read_failed nm s))"

definition write_boot :: "libc \<Rightarrow> string \<Rightarrow> (string \<times> u8 list) option \<Rightarrow> int \<times> bmfs \<Rightarrow> int \<times> bmfs" where
  "write_boot c what f r =
     (let (ret, s) = r
      in case f of
           None \<Rightarrow> (ret, s)
         | Some (nm, content) \<Rightarrow>
             if ret \<noteq> 0 then (ret, s)
             else copy_file c nm content (ret, fseek 8192 (out_text (''Writing '' @ what @ '' file.\<newline>'') s)))"

definition write_kernel :: "libc \<Rightarrow> (string \<times> u8 list) option \<Rightarrow> int \<times> bmfs \<Rightarrow> int \<times> bmfs" where
  "write_kernel c f r =
     (let (ret, s) = r
      in case f of
           None \<Rightarrow> (ret, s)
         | Some (nm, content) \<Rightarrow>
             if ret \<noteq> 0 then (ret, s)
             else copy_file c nm content (ret, out_text ''Writing kernel.\<newline>'' s))"

definition with_content :: "host \<Rightarrow> string option \<Rightarrow> (string \<times> u8 list) option" where
  "with_content h nm = map_option (\<lambda>f. (f, the (files h f))) nm"

text \<open>
  The work on the open disk, and the whole. The name of the disk may not be that of one of the files:
  they would be read while they are written.
\<close>

definition make_disk :: "libc \<Rightarrow> u64 \<Rightarrow> string \<Rightarrow> (string \<times> u8 list) option \<Rightarrow> (string \<times> u8 list) option \<Rightarrow>
    (string \<times> u8 list) option \<Rightarrow> bmfs \<Rightarrow> int \<times> bmfs" where
  "make_disk c diskSize what mbr boot kern s =
     (let (ret, s) = fill_zeros c diskSize 0 (s\<lparr>disk := [], disk_pos := 0, disk_error := False\<rparr>);
          s = (if ret = 0 then format_disk c (s\<lparr>disk_pos := 0, disk_error := False\<rparr>) else s);
          (ret, s) = write_kernel c kern (write_boot c what boot (write_mbr c mbr (ret, s)))
      in (ret, close_disk s))"

definition initialize :: "libc \<Rightarrow> string \<Rightarrow> string option \<Rightarrow> string option \<Rightarrow> string option \<Rightarrow> bmfs \<Rightarrow>
    (int \<times> bmfs) option" where
  "initialize c sz mbr boot kern s =
     (let what = (if kern = None then ''system'' else ''boot loader'');
          (diskSize, ret, out) = disk_size sz;
          (ret, s) = open_file kern ''kernel'' (open_file boot what (open_file mbr ''MBR'' (ret, out_text out s)));
          h = on_host s;
          (ret, s) = (if ret = 0 \<and> \<not> malloc_ok c then (1, out_text ''Error: Failed to allocate buffer\<newline>'' s) else (ret, s));
          (ret, s) = (if ret = 0 \<and> \<not> can_create h (diskname s)
                      then (1, out_text (''Error: Unable to open disk '' @ quoted (diskname s) @ ''\<newline>'') s)
                      else (ret, s))
      in if ret \<noteq> 0 then Some (ret, s)
         else if Some (diskname s) \<in> {mbr, boot, kern} then None
         else
           let (ret, s) = make_disk c diskSize what (with_content h mbr) (with_content h boot)
                            (with_content h kern) s
           in Some (ret, if ret = 0 then out_text ''Disk initialization complete.\<newline>'' s else s))"

section \<open>main\<close>

definition usage :: "string \<Rightarrow> string" where
  "usage prog =
     ''BareMetal File System Utility v1.0 (2013 04 10)\<newline>'' @
     ''Written by Ian Seyler @ Return Infinity (ian.seyler@returninfinity.com)\<newline>\<newline>'' @
     ''Usage: '' @ prog @ '' disk function file\<newline>'' @
     ''Disk: the name of the disk file\<newline>'' @
     ''Function: list, read, write, create, delete, format, initialize\<newline>'' @
     ''File: (if applicable)\<newline>''"

definition arg :: "string list \<Rightarrow> nat \<Rightarrow> string option" where
  "arg argv i = (if i < length argv then Some (argv ! i) else None)"

text \<open>\<open>create\<close> with the size from the command line, or from the line the user types; \<open>filesize\<close> is unsigned there.\<close>

definition create_command :: "libc \<Rightarrow> string list \<Rightarrow> bmfs \<Rightarrow> bmfs option" where
  "create_command c argv s =
     (case arg argv 3 of
        None \<Rightarrow> Some (out_text ''Error: File name not specified.\<newline>'' s)
      | Some nm \<Rightarrow>
          (case arg argv 4 of
             Some t \<Rightarrow>
               (case atoi t of
                  None \<Rightarrow> None
                | Some n \<Rightarrow> if n \<ge> 1 then bm_create c nm (word_of_int n) s
                            else Some (out_text ''Error: Invalid file size.\<newline>'' s))
           | None \<Rightarrow>
               let s = out_text ''Maximum file size in MiB: '' s
               in case atoi (take 31 (input_line c)) of
                    None \<Rightarrow> None
                  | Some n \<Rightarrow>
                      let filesize = word_of_int n :: u32
                      in if filesize \<ge> 1 then bm_create c nm (ucast filesize) s
                         else Some (out_text ''Error: Invalid file size.\<newline>'' s)))"

definition disk_command :: "libc \<Rightarrow> string list \<Rightarrow> bmfs \<Rightarrow> bmfs option" where
  "disk_command c argv s =
     (let command = argv ! 2; filename = arg argv 3
      in if same_text ''list'' command then Some (list_files s)
         else if same_text ''format'' command then
           (case filename of
              Some f \<Rightarrow> if same_text f ''/FORCE'' then Some (format_disk c s)
                        else Some (out_text ''Format aborted!\<newline>'' s)
            | None \<Rightarrow> Some (out_text ''Format aborted!\<newline>'' s))
         else if same_text ''create'' command then create_command c argv s
         else if same_text ''read'' command then bm_read filename s
         else if same_text ''write'' command then bm_write c filename s
         else if same_text ''delete'' command then bm_delete c filename s
         else Some (out_text ''Unknown command\<newline>'' s))"

text \<open>Opening the disk: its size in MiB, the marker and the directory.\<close>

definition open_disk :: "string \<Rightarrow> u8 list \<Rightarrow> host \<Rightarrow> bmfs" where
  "open_disk nm d h =
     \<lparr>on_host = h, diskname = nm, disk = d, disk_pos = 0, disk_error = False,
      disksize = of_nat (length d div 1048576), Directory = read_into 4096 4096 d (replicate 4096 0),
      DiskInfo = read_into 1024 512 d (replicate 512 0)\<rparr>"

definition bmfs_main :: "libc \<Rightarrow> string list \<Rightarrow> host \<Rightarrow> (int \<times> host) option" where
  "bmfs_main c argv h =
     (if length argv < 3 then Some (0, print (usage (argv ! 0)) h)
      else
        let nm = argv ! 1; command = argv ! 2; s = open_disk nm [] h
        in if same_text ''initialize'' command then
             (case arg argv 3 of
                Some sz \<Rightarrow>
                  map_option (\<lambda>(ret, s). (ret, on_host s))
                    (initialize c sz (arg argv 4) (arg argv 5) (arg argv 6) s)
              | None \<Rightarrow>
                  Some (1, print (''Usage: '' @ argv ! 0 @ '' disk '' @ command @
                    '' size [mbr_file] [bootloader_file] [kernel_file]\<newline>'') h))
           else
             case files h nm of
               None \<Rightarrow> Some (0, print (''Error: Unable to open disk '' @ quoted nm @ ''\<newline>'') h)
             | Some d \<Rightarrow>
                 let s = open_disk nm d h
                 in if \<not> same_text (map chr_of (DiskInfo s)) ''BMFS'' then
                      let s = (if same_text ''format'' command then format_disk c s
                               else out_text ''Error: Not a valid BMFS drive (Disk is not BMFS formatted).\<newline>'' s)
                      in Some (0, on_host (close_disk s))
                    else map_option (\<lambda>s. (0, on_host (close_disk s))) (disk_command c argv s))"

end
