(* ===== verification/Bmfs_Bytes.thy ===== *)
theory Bmfs_Bytes
  imports Bmfs_Main
begin

text \<open>
  The bytes of a BMFS disk: what \<open>patch\<close> does to a part of a list, numbers of eight bytes, names, and the
  fields of a directory entry after each of the writes the tool makes.
\<close>

section \<open>Parts of a list\<close>

definition piece :: "nat \<Rightarrow> nat \<Rightarrow> 'a list \<Rightarrow> 'a list" where
  "piece p n d = take n (drop p d)"

lemma length_piece [simp]: "length (piece p n d) = min n (length d - p)"
  by (simp add: piece_def)

lemma nth_piece: "i < length (piece p n d) \<Longrightarrow> piece p n d ! i = d ! (p + i)"
  by (auto simp: piece_def)

lemma piece_piece: "q + m \<le> n \<Longrightarrow> piece q m (piece p n d) = piece (p + q) m d"
  by (auto intro!: nth_equalityI simp: nth_piece add.assoc)

lemma piece_replicate: "p + n \<le> m \<Longrightarrow> piece p n (replicate m x) = replicate n x"
  by (simp add: piece_def)

lemma entry_at_piece: "entry_at d i = piece (64 * i) 64 d"
  by (simp add: entry_at_def piece_def)

lemma patch_in: "p + length bs \<le> length d \<Longrightarrow> patch p bs d = take p d @ bs @ drop (p + length bs) d"
  by (simp add: patch_def)

lemma length_patch [simp]: "p + length bs \<le> length d \<Longrightarrow> length (patch p bs d) = length d"
  by (simp add: patch_in)

lemma nth_patch:
  "p + length bs \<le> length d \<Longrightarrow> i < length d \<Longrightarrow>
   patch p bs d ! i = (if p \<le> i \<and> i < p + length bs then bs ! (i - p) else d ! i)"
  by (auto simp: patch_in nth_append)

lemma patch_Nil [simp]: "patch p [] d = d"
  by (simp add: patch_def)

lemma piece_patch_other:
  "p + length bs \<le> length d \<Longrightarrow> q + n \<le> p \<or> p + length bs \<le> q \<Longrightarrow> piece q n (patch p bs d) = piece q n d"
  by (auto intro!: nth_equalityI simp: nth_piece nth_patch)

lemma piece_patch_inside:
  "q \<le> p \<Longrightarrow> p + length bs \<le> q + n \<Longrightarrow> q + n \<le> length d \<Longrightarrow>
   piece q n (patch p bs d) = patch (p - q) bs (piece q n d)"
proof (rule nth_equalityI)
  assume h: "q \<le> p" "p + length bs \<le> q + n" "q + n \<le> length d"
  then have l: "p - q + length bs \<le> length (piece q n d)" by simp
  then show "length (piece q n (patch p bs d)) = length (patch (p - q) bs (piece q n d))" using h by simp
  fix i assume "i < length (piece q n (patch p bs d))"
  then show "piece q n (patch p bs d) ! i = patch (p - q) bs (piece q n d) ! i"
    using h l by (cases "p \<le> q + i") (auto simp: nth_piece nth_patch ac_simps)
qed

lemma piece_patch_same: "p + length bs \<le> length d \<Longrightarrow> n = length bs \<Longrightarrow> piece p n (patch p bs d) = bs"
  by (auto intro!: nth_equalityI simp: nth_piece nth_patch)

lemma patch_patch:
  "p + length a + length b \<le> length d \<Longrightarrow> patch (p + length a) b (patch p a d) = patch p (a @ b) d"
  by (auto intro!: nth_equalityI simp: nth_patch nth_append)

section \<open>Numbers and names\<close>

lemma length_le_bytes [simp]: "length (le_bytes n w) = n"
  by (induction n arbitrary: w) simp_all

lemma rd64_le_bytes: "rd64 (le_bytes n w) = take_bit (8 * n) w"
proof (induction n arbitrary: w)
  case 0
  then show ?case by (simp add: rd64_def)
next
  case (Suc n)
  have "rd64 (le_bytes (Suc n) w) = ucast (ucast w :: u8) OR push_bit 8 (take_bit (8 * n) (drop_bit 8 w))"
    using Suc [of "drop_bit 8 w"] by (simp add: rd64_def)
  also have "\<dots> = take_bit (8 * Suc n) w"
    by (rule bit_word_eqI) (auto simp: bit_simps)
  finally show ?case .
qed

lemma rd64_le_bytes_8 [simp]: "rd64 (le_bytes 8 w) = w"
  using take_bit_word_eq_self [of 64 w] by (simp add: rd64_le_bytes)

lemma chr_of_byte [simp]: "chr_of (byte c) = c"
  using nat_of_char_less_256 [of c] by (simp add: chr_of_def byte_def unat_of_nat)

end
