(* ===== verification/Bmfs_Dir.thy ===== *)
theory Bmfs_Dir
  imports Bmfs_Bytes
begin

text \<open>
  The directory of a BMFS disk as a set of named areas: which entries are valid, when a directory is well
  formed, what \<open>findfile\<close> finds in it, and how the writes of the tool change it.
\<close>

section \<open>Entries\<close>

definition valid :: "u8 list \<Rightarrow> nat \<Rightarrow> bool" where
  "valid d i \<longleftrightarrow> i < 64 \<and> (\<forall>j \<le> i. entry_at d j ! 0 \<noteq> 0) \<and> entry_at d i ! 0 \<noteq> 1"

definition area :: "BMFSEntry \<Rightarrow> nat set" where
  "area e = {unat (StartingBlock e) ..< unat (StartingBlock e) + unat (ReservedBlocks e)}"

text \<open>On a disk with \<open>nb\<close> blocks: block 0 and the last block are not for files.\<close>

definition entry_ok :: "nat \<Rightarrow> BMFSEntry \<Rightarrow> bool" where
  "entry_ok nb e \<longleftrightarrow> 0 \<in> set (take 32 e) \<and>
     1 \<le> unat (StartingBlock e) \<and> 1 \<le> unat (ReservedBlocks e) \<and>
     unat (StartingBlock e) + unat (ReservedBlocks e) \<le> nb - 1 \<and>
     unat (FileSize e) \<le> unat (ReservedBlocks e) * 2097152"

definition dir_ok :: "nat \<Rightarrow> u8 list \<Rightarrow> bool" where
  "dir_ok nb d \<longleftrightarrow> length d = 4096 \<and> nb < 2 ^ 31 \<and>
     (\<forall>i. valid d i \<longrightarrow> entry_ok nb (entry_at d i)) \<and>
     (\<forall>i j. valid d i \<and> valid d j \<and> i \<noteq> j \<longrightarrow>
        FileName (entry_at d i) \<noteq> FileName (entry_at d j) \<and> area (entry_at d i) \<inter> area (entry_at d j) = {})"

lemma entry_at_length [simp]: "length d = 4096 \<Longrightarrow> i < 64 \<Longrightarrow> length (entry_at d i) = 64"
  by (simp add: entry_at_piece)

lemma entry_patch:
  assumes "length d = 4096" "k < 64" "i < 64" "off + length bs \<le> 64"
  shows "entry_at (patch (64 * k + off) bs d) i = (if i = k then patch off bs (entry_at d k) else entry_at d i)"
proof (cases "i = k")
  case True
  have "64 * k + 64 \<le> 4096" using assms(2) by simp
  then show ?thesis using True assms(1,4) by (simp add: entry_at_piece piece_patch_inside)
next
  case False
  have "64 * k + 64 \<le> 4096" using assms(2) by simp
  moreover have "64 * i + 64 \<le> 64 * k + off \<or> 64 * k + off + length bs \<le> 64 * i"
    using False assms(4) by (cases "i < k") simp_all
  ultimately show ?thesis using False assms(1,4) by (simp add: entry_at_piece piece_patch_other)
qed

lemmas entry_patch0 = entry_patch [where off = 0, simplified]

lemma field_patch:
  assumes "length e = 64"
  shows "StartingBlock (patch 32 (le_bytes 8 w) e) = w" "ReservedBlocks (patch 32 (le_bytes 8 w) e) = ReservedBlocks e"
    "FileSize (patch 32 (le_bytes 8 w) e) = FileSize e"
    "StartingBlock (patch 40 (le_bytes 8 w) e) = StartingBlock e" "ReservedBlocks (patch 40 (le_bytes 8 w) e) = w"
    "FileSize (patch 40 (le_bytes 8 w) e) = FileSize e"
    "StartingBlock (patch 48 (le_bytes 8 w) e) = StartingBlock e"
    "ReservedBlocks (patch 48 (le_bytes 8 w) e) = ReservedBlocks e" "FileSize (patch 48 (le_bytes 8 w) e) = w"
    "length bs \<le> 32 \<Longrightarrow> StartingBlock (patch 0 bs e) = StartingBlock e"
    "length bs \<le> 32 \<Longrightarrow> ReservedBlocks (patch 0 bs e) = ReservedBlocks e"
    "length bs \<le> 32 \<Longrightarrow> FileSize (patch 0 bs e) = FileSize e"
  unfolding StartingBlock_def ReservedBlocks_def FileSize_def piece_def [symmetric]
  using assms by (simp_all add: piece_patch_same piece_patch_other)

lemma takeWhile_take: "\<exists>x \<in> set (take n xs). \<not> P x \<Longrightarrow> takeWhile P xs = takeWhile P (take n xs)"
  by (metis append_take_drop_id takeWhile_append1)

lemma FileName_take: "0 \<in> set (take 32 e) \<Longrightarrow> FileName e = map chr_of (takeWhile (\<lambda>b. b \<noteq> 0) (take 32 e))"
  unfolding FileName_def by (subst takeWhile_take [where n = 32]) auto

lemma FileName_patch:
  assumes "length e = 64" "0 \<in> set (take 32 e)" "32 \<le> p" "p + length bs \<le> 64"
  shows "FileName (patch p bs e) = FileName e" "take 32 (patch p bs e) = take 32 e" "patch p bs e ! 0 = e ! 0"
proof -
  have "piece 0 32 (patch p bs e) = piece 0 32 e" using assms by (intro piece_patch_other) simp_all
  then show t: "take 32 (patch p bs e) = take 32 e" by (simp add: piece_def)
  show "FileName (patch p bs e) = FileName e" using assms(2) t by (simp add: FileName_take)
  show "patch p bs e ! 0 = e ! 0" using assms by (simp add: nth_patch)
qed

lemma FileName_new:
  assumes "length e = 64" "length nm \<le> 31" "NUL \<notin> set nm"
  shows "FileName (patch 0 (map byte nm @ [0]) e) = nm" "0 \<in> set (take 32 (patch 0 (map byte nm @ [0]) e))"
proof -
  have p: "patch 0 (map byte nm @ [0]) e = map byte nm @ 0 # drop (length nm + 1) e"
    using assms by (simp add: patch_in)
  have "chr_of 0 = NUL" using chr_of_byte [of NUL] by (simp add: byte_def)
  then have "byte c \<noteq> 0" if "c \<in> set nm" for c using that assms(3) by (metis chr_of_byte)
  then have "takeWhile (\<lambda>b. b \<noteq> 0) (map byte nm @ 0 # r) = map byte nm" for r
    by (subst takeWhile_append2) auto
  then show "FileName (patch 0 (map byte nm @ [0]) e) = nm" unfolding p FileName_def by (simp add: comp_def)
  show "0 \<in> set (take 32 (patch 0 (map byte nm @ [0]) e))" unfolding p using assms(2) by (simp add: take_Cons')
qed

section \<open>findfile\<close>

definition lookup :: "u8 list \<Rightarrow> string \<Rightarrow> nat option" where
  "lookup d nm = the (find_loop d (Some nm) [0..<64])"

lemma find_loop_spec:
  "i \<le> 64 \<Longrightarrow> (\<forall>j < i. entry_at d j ! 0 \<noteq> 0) \<Longrightarrow>
   \<exists>r. find_loop d (Some nm) [i..<64] = Some r \<and>
     (case r of
        Some k \<Rightarrow> i \<le> k \<and> valid d k \<and> FileName (entry_at d k) = nm
      | None \<Rightarrow> \<forall>k \<ge> i. valid d k \<longrightarrow> FileName (entry_at d k) \<noteq> nm)"
proof (induction "64 - i" arbitrary: i)
  case 0
  then show ?case by (auto simp: valid_def)
next
  case (Suc n)
  then have l: "[i..<64] = i # [Suc i..<64]" by (intro upt_conv_Cons) simp
  have IH: "entry_at d i ! 0 \<noteq> 0 \<Longrightarrow> \<exists>r. find_loop d (Some nm) [Suc i..<64] = Some r \<and>
     (case r of Some k \<Rightarrow> Suc i \<le> k \<and> valid d k \<and> FileName (entry_at d k) = nm
      | None \<Rightarrow> \<forall>k \<ge> Suc i. valid d k \<longrightarrow> FileName (entry_at d k) \<noteq> nm)"
    using Suc.hyps(2) Suc.prems by (intro Suc.hyps(1)) (auto simp: less_Suc_eq)
  have v: "valid d i \<longleftrightarrow> entry_at d i ! 0 \<noteq> 0 \<and> entry_at d i ! 0 \<noteq> 1"
    using Suc.hyps(2) Suc.prems by (auto simp: valid_def le_less)
  consider "entry_at d i ! 0 = 0" | "entry_at d i ! 0 \<noteq> 0" "valid d i" "FileName (entry_at d i) = nm"
    | "entry_at d i ! 0 \<noteq> 0" "valid d i \<longrightarrow> FileName (entry_at d i) \<noteq> nm" by blast
  then show ?case
  proof cases
    case 1
    then have "\<not> valid d k" if "i \<le> k" for k using that by (auto simp: valid_def)
    with 1 show ?thesis by (simp add: l)
  next
    case 2
    then show ?thesis using v by (auto simp: l Let_def)
  next
    case 3
    obtain r where r: "find_loop d (Some nm) [Suc i..<64] = Some r" and
      s: "case r of Some k \<Rightarrow> Suc i \<le> k \<and> valid d k \<and> FileName (entry_at d k) = nm
          | None \<Rightarrow> \<forall>k \<ge> Suc i. valid d k \<longrightarrow> FileName (entry_at d k) \<noteq> nm"
      using IH [OF 3(1)] by blast
    have "find_loop d (Some nm) [i..<64] = Some r" using 3 r v by (auto simp: l Let_def)
    moreover have "case r of Some k \<Rightarrow> i \<le> k \<and> valid d k \<and> FileName (entry_at d k) = nm
      | None \<Rightarrow> \<forall>k \<ge> i. valid d k \<longrightarrow> FileName (entry_at d k) \<noteq> nm"
      using s 3(2) by (cases r) (simp, metis le_neq_implies_less Suc_leI, simp)
    ultimately show ?thesis by blast
  qed
qed

lemma findfile_lookup: "findfile (Some nm) s = Some (lookup (Directory s) nm)"
  using find_loop_spec [of 0 "Directory s" nm] by (auto simp: findfile_def lookup_def)

lemma lookup_Some: "lookup d nm = Some i \<Longrightarrow> valid d i \<and> FileName (entry_at d i) = nm"
  using find_loop_spec [of 0 d nm] by (auto simp: lookup_def)

lemma lookup_None: "lookup d nm = None \<Longrightarrow> valid d i \<Longrightarrow> FileName (entry_at d i) \<noteq> nm"
  using find_loop_spec [of 0 d nm] by (auto simp: lookup_def)

lemma lookup_iff:
  assumes "dir_ok nb d"
  shows "lookup d nm = Some i \<longleftrightarrow> valid d i \<and> FileName (entry_at d i) = nm"
proof
  assume v: "valid d i \<and> FileName (entry_at d i) = nm"
  then obtain j where j: "lookup d nm = Some j" using lookup_None by (cases "lookup d nm") auto
  then show "lookup d nm = Some i" using lookup_Some [OF j] v assms unfolding dir_ok_def by metis
qed (rule lookup_Some)

lemma lookup_cong:
  assumes "dir_ok nb d" "dir_ok nb' d'"
    and "\<And>i. valid d' i \<and> FileName (entry_at d' i) = nm \<longleftrightarrow> valid d i \<and> FileName (entry_at d i) = nm"
  shows "lookup d' nm = lookup d nm"
  using assms(3) lookup_iff [OF assms(1)] lookup_iff [OF assms(2)] by (metis not_None_eq)

end
