(* ===== verification/Bmfs_Alloc.thy ===== *)
theory Bmfs_Alloc
  imports Bmfs_Dir "HOL-Library.Multiset"
begin

text \<open>
  How \<open>delete\<close>, \<open>write\<close> and \<open>create\<close> change the directory, and the search for a gap between the sorted
  areas: first fit, and complete.
\<close>

section \<open>Changing one entry\<close>

lemma dir_ok_change:
  assumes "dir_ok nb d" "length d' = 4096"
    and "\<And>i. valid d' i \<Longrightarrow> i \<noteq> k \<Longrightarrow> valid d i \<and> entry_at d' i = entry_at d i"
    and "valid d' k \<Longrightarrow> entry_ok nb (entry_at d' k)"
    and "\<And>i. valid d' k \<Longrightarrow> valid d i \<Longrightarrow> i \<noteq> k \<Longrightarrow>
      FileName (entry_at d i) \<noteq> FileName (entry_at d' k) \<and> area (entry_at d i) \<inter> area (entry_at d' k) = {}"
  shows "dir_ok nb d'"
  unfolding dir_ok_def
proof (intro conjI allI impI)
  fix i
  show "entry_ok nb (entry_at d' i)" if "valid d' i"
    using assms(1,3,4) that unfolding dir_ok_def by (cases "i = k") auto
next
  fix i j
  assume v: "valid d' i \<and> valid d' j \<and> i \<noteq> j"
  consider "i = k" | "j = k" | "i \<noteq> k" "j \<noteq> k" by blast
  then have "FileName (entry_at d' i) \<noteq> FileName (entry_at d' j) \<and> area (entry_at d' i) \<inter> area (entry_at d' j) = {}"
  proof cases
    case 1
    then show ?thesis using v assms(3) [of j] assms(5) [of j] by (auto simp: Int_commute)
  next
    case 2
    then show ?thesis using v assms(3) [of i] assms(5) [of i] by auto
  next
    case 3
    then show ?thesis using v assms(1) assms(3) [of i] assms(3) [of j] unfolding dir_ok_def by simp
  qed
  then show "FileName (entry_at d' i) \<noteq> FileName (entry_at d' j)" "area (entry_at d' i) \<inter> area (entry_at d' j) = {}"
    by blast+
qed (use assms(1,2) in \<open>simp_all add: dir_ok_def\<close>)

lemma deleted_entry:
  assumes "dir_ok nb d" "valid d k"
  defines "d' \<equiv> patch (64 * k) [1] d"
  shows "dir_ok nb d'" "valid d' i \<longleftrightarrow> valid d i \<and> i \<noteq> k" "i < 64 \<Longrightarrow> i \<noteq> k \<Longrightarrow> entry_at d' i = entry_at d i"
proof -
  have k: "length d = 4096" "k < 64" using assms(1,2) by (simp_all add: dir_ok_def valid_def)
  have e: "entry_at d' i = (if i = k then patch 0 [1] (entry_at d k) else entry_at d i)" if "i < 64" for i
    unfolding d'_def using k that by (intro entry_patch0) simp_all
  then show "i < 64 \<Longrightarrow> i \<noteq> k \<Longrightarrow> entry_at d' i = entry_at d i" by simp
  have "patch 0 [1] (entry_at d k) ! 0 = 1" using k by (simp add: nth_patch)
  then have m: "entry_at d' i ! 0 = (if i = k then 1 else entry_at d i ! 0)" if "i < 64" for i
    using e [OF that] by simp
  have kz: "entry_at d k ! 0 \<noteq> 0" using assms(2) by (simp add: valid_def)
  have z: "entry_at d' i ! 0 = 0 \<longleftrightarrow> entry_at d i ! 0 = 0" if "i < 64" for i
    using m [OF that] kz by auto
  have v: "valid d' i \<longleftrightarrow> valid d i \<and> i \<noteq> k" for i
  proof (cases "i < 64")
    case True
    then have "(\<forall>j \<le> i. entry_at d' j ! 0 \<noteq> 0) \<longleftrightarrow> (\<forall>j \<le> i. entry_at d j ! 0 \<noteq> 0)" using z by auto
    then show ?thesis using True m [OF True] by (auto simp: valid_def)
  qed (simp add: valid_def)
  then show "valid d' i \<longleftrightarrow> valid d i \<and> i \<noteq> k" .
  show "dir_ok nb d'"
  proof (rule dir_ok_change [OF assms(1), where k = k])
    show "length d' = 4096" using k by (simp add: d'_def)
    show "valid d i \<and> entry_at d' i = entry_at d i" if "valid d' i" "i \<noteq> k" for i
      using that e v by (simp add: valid_def)
  qed (use v in blast)+
qed

lemma resized_entry:
  assumes "dir_ok nb d" "valid d k" and "unat n \<le> unat (ReservedBlocks (entry_at d k)) * 2097152"
  defines "d' \<equiv> patch (64 * k + 48) (le_bytes 8 n) d"
  shows "dir_ok nb d'" "valid d' i \<longleftrightarrow> valid d i" "i < 64 \<Longrightarrow> i \<noteq> k \<Longrightarrow> entry_at d' i = entry_at d i"
    "FileName (entry_at d' k) = FileName (entry_at d k)" "FileSize (entry_at d' k) = n"
    "StartingBlock (entry_at d' k) = StartingBlock (entry_at d k)"
    "ReservedBlocks (entry_at d' k) = ReservedBlocks (entry_at d k)"
proof -
  have k: "length d = 4096" "k < 64" "entry_ok nb (entry_at d k)" using assms(1,2) by (simp_all add: dir_ok_def valid_def)
  have l: "length (entry_at d k) = 64" using k by simp
  have e: "entry_at d' i = (if i = k then patch 48 (le_bytes 8 n) (entry_at d k) else entry_at d i)" if "i < 64" for i
    unfolding d'_def using k that by (intro entry_patch) simp_all
  then show "i < 64 \<Longrightarrow> i \<noteq> k \<Longrightarrow> entry_at d' i = entry_at d i" by simp
  have ek: "entry_at d' k = patch 48 (le_bytes 8 n) (entry_at d k)" using e k by simp
  have nm: "FileName (entry_at d' k) = FileName (entry_at d k)" "take 32 (entry_at d' k) = take 32 (entry_at d k)"
    "entry_at d' k ! 0 = entry_at d k ! 0"
    unfolding ek using k(3) l by (auto simp: entry_ok_def intro!: FileName_patch)
  then show "FileName (entry_at d' k) = FileName (entry_at d k)" by simp
  show f: "FileSize (entry_at d' k) = n" "StartingBlock (entry_at d' k) = StartingBlock (entry_at d k)"
    unfolding ek using l by (simp_all add: field_patch)
  show r: "ReservedBlocks (entry_at d' k) = ReservedBlocks (entry_at d k)"
    unfolding ek using l by (simp add: field_patch)
  have m: "entry_at d' i ! 0 = entry_at d i ! 0" if "i < 64" for i using e that nm(3) by metis
  show v: "valid d' i \<longleftrightarrow> valid d i" for i using m by (auto simp: valid_def)
  have a: "area (entry_at d' k) = area (entry_at d k)" by (simp add: area_def f r)
  show "dir_ok nb d'"
  proof (rule dir_ok_change [OF assms(1), where k = k])
    show "length d' = 4096" using k by (simp add: d'_def)
    show "entry_ok nb (entry_at d' k)" using k(3) nm(2) assms(3) by (simp add: entry_ok_def f r)
    show "FileName (entry_at d i) \<noteq> FileName (entry_at d' k) \<and> area (entry_at d i) \<inter> area (entry_at d' k) = {}"
      if "valid d i" "i \<noteq> k" for i
      using assms(1,2) that unfolding nm(1) a dir_ok_def by simp
  qed (use e v in \<open>auto simp: valid_def\<close>)
qed

section \<open>Adding an entry\<close>

definition short_name :: "string \<Rightarrow> bool" where
  "short_name nm \<longleftrightarrow> nm \<noteq> [] \<and> length nm \<le> 31 \<and> NUL \<notin> set nm \<and> hd nm \<noteq> CHR 0x01"

text \<open>\<open>n\<close> files, no entry that was deleted, and the end marker behind them.\<close>

definition compact :: "nat \<Rightarrow> u8 list \<Rightarrow> bool" where
  "compact n d \<longleftrightarrow> n < 64 \<and> (\<forall>i < n. entry_at d i ! 0 \<noteq> 0 \<and> entry_at d i ! 0 \<noteq> 1) \<and> entry_at d n ! 0 = 0"

lemma compact_valid:
  assumes "compact n d"
  shows "valid d i \<longleftrightarrow> i < n"
proof
  assume "valid d i"
  then have "\<forall>j \<le> i. entry_at d j ! 0 \<noteq> 0" by (simp add: valid_def)
  moreover have "entry_at d n ! 0 = 0" using assms by (simp add: compact_def)
  ultimately have "\<not> n \<le> i" by blast
  then show "i < n" by simp
qed (use assms in \<open>auto simp: compact_def valid_def\<close>)

lemma compact_count:
  assumes "compact n d"
  shows "count_entries d [0..<64] None = (n, Some n)"
proof -
  have "i \<le> n \<Longrightarrow> count_entries d [i..<64] None = (n, Some n)" for i
  proof (induction "n - i" arbitrary: i)
    case 0
    then have "i = n" by simp
    moreover have "[n..<64] = n # [Suc n..<64]" using assms by (intro upt_conv_Cons) (simp add: compact_def)
    ultimately show ?case using assms by (simp add: compact_def)
  next
    case (Suc m)
    then have "i < n" by simp
    moreover have "[i..<64] = i # [Suc i..<64]"
      using assms \<open>i < n\<close> by (intro upt_conv_Cons) (simp add: compact_def)
    ultimately show ?case using assms Suc by (simp add: compact_def)
  qed
  then show ?thesis by simp
qed

lemma added_entry:
  fixes st bl :: u64
  assumes "length d = 4096" "compact n d" "short_name nm"
  defines "d' \<equiv> add_entry nm n n st bl d"
  shows "length d' = 4096" "valid d' i \<longleftrightarrow> i \<le> n" "i < n \<Longrightarrow> entry_at d' i = entry_at d i"
    "FileName (entry_at d' n) = nm" "0 \<in> set (take 32 (entry_at d' n))"
    "StartingBlock (entry_at d' n) = st" "ReservedBlocks (entry_at d' n) = bl" "FileSize (entry_at d' n) = 0"
    "n + 1 < 64 \<Longrightarrow> compact (n + 1) d'"
proof -
  have n: "n < 64" "64 * n + 64 \<le> 4096" using assms(2) by (simp_all add: compact_def)
  have nm: "length nm \<le> 31" "NUL \<notin> set nm" using assms(3) by (simp_all add: short_name_def)
  define d1 where "d1 = patch (64 * n + 32) (le_bytes 8 st) d"
  define d2 where "d2 = patch (64 * n + 40) (le_bytes 8 bl) d1"
  define d3 where "d3 = patch (64 * n + 48) (le_bytes 8 0) d2"
  define d4 where "d4 = patch (64 * n) (map byte nm @ [0]) d3"
  have len: "length d1 = 4096" "length d2 = 4096" "length d3 = 4096" "length d4 = 4096"
    using n nm(1) assms(1) by (simp_all add: d1_def d2_def d3_def d4_def)
  define e where "e = patch 48 (le_bytes 8 0) (patch 40 (le_bytes 8 bl) (patch 32 (le_bytes 8 st) (entry_at d n)))"
  have le: "length (entry_at d n) = 64" "length e = 64" using n assms(1) by (simp_all add: e_def)
  have e4: "entry_at d4 i = (if i = n then patch 0 (map byte nm @ [0]) e else entry_at d i)" if "i < 64" for i
    unfolding d4_def d3_def d2_def d1_def e_def using that n nm(1) assms(1)
    by (simp add: entry_patch entry_patch0)
  have d': "d' = (if n + 1 < 64 then patch (64 * (n + 1)) [0] d4 else d4)"
    by (simp add: d'_def add_entry_def d4_def d3_def d2_def d1_def)
  have ei: "entry_at d' i = (if i = n + 1 \<and> n + 1 < 64 then patch 0 [0] (entry_at d4 i) else entry_at d4 i)"
    if "i < 64" for i
  proof (cases "n + 1 < 64")
    case True
    have "entry_at (patch (64 * (n + 1)) [0] d4) i = (if i = n + 1 then patch 0 [0] (entry_at d4 (n + 1)) else entry_at d4 i)"
      using True that len by (intro entry_patch0) simp_all
    then show ?thesis using True by (simp add: d')
  qed (simp add: d')
  show len': "length d' = 4096" using len n by (simp add: d')
  have en: "entry_at d' n = patch 0 (map byte nm @ [0]) e" using ei [OF n(1)] e4 [OF n(1)] by simp
  show old: "entry_at d' i = entry_at d i" if "i < n" for i
    using ei [of i] e4 [of i] that n by simp
  show "FileName (entry_at d' n) = nm" "0 \<in> set (take 32 (entry_at d' n))"
    unfolding en by (rule FileName_new [OF le(2) nm])+
  show "StartingBlock (entry_at d' n) = st" "ReservedBlocks (entry_at d' n) = bl" "FileSize (entry_at d' n) = 0"
    unfolding en e_def using le nm(1) by (simp_all add: field_patch)
  have inj: "byte a = byte b \<longleftrightarrow> a = b" for a b by (metis chr_of_byte)
  have z: "byte NUL = 0" "byte (CHR 0x01) = 1" by (simp_all add: byte_def)
  have m: "entry_at d' n ! 0 \<noteq> 0 \<and> entry_at d' n ! 0 \<noteq> 1"
  proof -
    obtain a r where a: "nm = a # r" "a \<noteq> NUL" "a \<noteq> CHR 0x01"
      using assms(3) by (cases nm) (auto simp: short_name_def)
    have "entry_at d' n ! 0 = byte a" unfolding en using le(2) nm(1) a(1) by (simp add: nth_patch)
    then show ?thesis using a inj z by metis
  qed
  have c: "entry_at d' (n + 1) ! 0 = 0" if "n + 1 < 64"
    using ei [OF that] that len by (simp add: nth_patch)
  have below: "entry_at d' i ! 0 \<noteq> 0 \<and> entry_at d' i ! 0 \<noteq> 1" if "i \<le> n" for i
    using that m old assms(2) by (cases "i = n") (auto simp: compact_def)
  show "compact (n + 1) d'" if "n + 1 < 64" using that c below by (simp add: compact_def less_Suc_eq_le)
  show "valid d' i \<longleftrightarrow> i \<le> n"
  proof (cases "n + 1 < 64")
    case True
    then have "compact (n + 1) d'" using c below by (simp add: compact_def less_Suc_eq_le)
    then show ?thesis using compact_valid [of "n + 1"] by auto
  next
    case False
    then show ?thesis using n below by (auto simp: valid_def)
  qed
qed

section \<open>The search for a gap\<close>

text \<open>The blocks from \<open>q\<close> on are free for a file of \<open>n\<close> blocks.\<close>

definition fits :: "BMFSEntry set \<Rightarrow> nat \<Rightarrow> nat \<Rightarrow> nat \<Rightarrow> bool" where
  "fits E nb n q \<longleftrightarrow> q + n \<le> nb - 1 \<and> (\<forall>e \<in> E. area e \<inter> {q..<q + n} = {})"

definition before :: "BMFSEntry \<Rightarrow> BMFSEntry \<Rightarrow> bool" where
  "before a b \<longleftrightarrow> unat (StartingBlock a) + unat (ReservedBlocks a) \<le> unat (StartingBlock b)"

lemma fits_Cons: "fits (insert e E) nb n q \<longleftrightarrow> area e \<inter> {q..<q + n} = {} \<and> fits E nb n q"
  by (auto simp: fits_def)

lemma gap_before:
  assumes "1 \<le> n" "1 \<le> unat (ReservedBlocks e)" "p \<le> unat (StartingBlock e)" "unat (StartingBlock e) - p < n"
    and "p \<le> q" "q < unat (StartingBlock e) + unat (ReservedBlocks e)"
  shows "area e \<inter> {q..<q + n} \<noteq> {}"
proof -
  let ?x = "if q < unat (StartingBlock e) then unat (StartingBlock e) else q"
  have "?x \<in> area e \<inter> {q..<q + n}" using assms by (auto simp: area_def)
  then show ?thesis by blast
qed

lemma find_gap_spec:
  fixes req :: u64
  assumes "\<forall>e \<in> set es. e ! 0 \<noteq> 1 \<and> 1 \<le> unat (ReservedBlocks e) \<and>
      unat (StartingBlock e) + unat (ReservedBlocks e) \<le> nb - 1 \<and> unat prev \<le> unat (StartingBlock e)"
    and "sorted_wrt before es" and "1 \<le> unat prev" "unat prev \<le> nb - 1" "nb < 2 ^ 31" "1 \<le> unat req"
  shows "let r = unat (find_gap es (of_nat nb) req prev)
    in if r = 0 then \<forall>q \<ge> unat prev. \<not> fits (set es) nb (unat req) q
       else unat prev \<le> r \<and> fits (set es) nb (unat req) r \<and>
         (\<forall>q. unat prev \<le> q \<and> q < r \<longrightarrow> \<not> fits (set es) nb (unat req) q)"
  using assms
proof (induction es arbitrary: prev)
  case Nil
  have nb: "unat (of_nat nb - 1 :: u64) = nb - 1"
  proof -
    have "unat (of_nat nb :: u64) = nb" using Nil.prems by (simp add: unat_of_nat)
    then show ?thesis using Nil.prems by (subst unat_sub) (simp_all add: word_le_nat_alt)
  qed
  then have "unat (of_nat nb - 1 - prev :: u64) = nb - 1 - unat prev"
    using Nil.prems by (subst unat_sub) (simp_all add: word_le_nat_alt)
  then show ?case using Nil.prems by (auto simp: fits_def word_le_nat_alt)
next
  case (Cons e es)
  let ?s = "unat (StartingBlock e)" and ?r = "unat (ReservedBlocks e)"
  have e: "e ! 0 \<noteq> 1" "1 \<le> ?r" "?s + ?r \<le> nb - 1" "unat prev \<le> ?s" using Cons.prems(1) by simp_all
  have d: "unat (StartingBlock e - prev) = ?s - unat prev"
    using e by (subst unat_sub) (simp_all add: word_le_nat_alt)
  have later: "?s + ?r \<le> unat (StartingBlock x)" if "x \<in> set es" for x
    using Cons.prems(2) that by (simp add: before_def)
  show ?case
  proof (cases "req \<le> StartingBlock e - prev")
    case True
    then have g: "find_gap (e # es) (of_nat nb) req prev = prev" using e by simp
    have f: "unat prev + unat req \<le> ?s" using True e d by (simp add: word_le_nat_alt)
    have "fits (set (e # es)) nb (unat req) (unat prev)"
      using f later e(3) unfolding fits_def area_def by fastforce
    then show ?thesis unfolding g Let_def using Cons.prems(3) by auto
  next
    case False
    then have g: "find_gap (e # es) (of_nat nb) req prev =
        find_gap es (of_nat nb) req (StartingBlock e + ReservedBlocks e)" using e by simp
    have small: "?s - unat prev < unat req" using False d by (simp add: word_le_nat_alt)
    have u: "unat (StartingBlock e + ReservedBlocks e) = ?s + ?r"
      using e(3) Cons.prems(5) by (intro unat_add_lem [THEN iffD1]) simp
    note IH = Cons.IH [of "StartingBlock e + ReservedBlocks e", unfolded u Let_def]
    let ?g = "unat (find_gap es (of_nat nb) req (StartingBlock e + ReservedBlocks e))"
    have ih: "if ?g = 0 then \<forall>q \<ge> ?s + ?r. \<not> fits (set es) nb (unat req) q
       else ?s + ?r \<le> ?g \<and> fits (set es) nb (unat req) ?g \<and>
         (\<forall>q. ?s + ?r \<le> q \<and> q < ?g \<longrightarrow> \<not> fits (set es) nb (unat req) q)"
      by (rule IH) (use Cons.prems e later in auto)
    have no: "\<not> fits (set (e # es)) nb (unat req) q" if "unat prev \<le> q" "q < ?s + ?r" for q
      using gap_before [OF Cons.prems(6) e(2,4) small that] by (simp add: fits_Cons)
    have after: "fits (set (e # es)) nb (unat req) q \<longleftrightarrow> fits (set es) nb (unat req) q" if "?s + ?r \<le> q" for q
      using that by (auto simp: fits_Cons area_def)
    show ?thesis unfolding g Let_def
      using ih no after e(4) by (cases "?g = 0") (auto simp del: set_simps, (meson not_le)+)
  qed
qed

section \<open>The sorted copy of the directory\<close>

text \<open>
  What the C standard says of \<open>qsort\<close>: if the comparison of different elements agrees with an order, the
  result has the same elements in that order.
\<close>

definition sorts :: "((BMFSEntry \<Rightarrow> BMFSEntry \<Rightarrow> int) \<Rightarrow> BMFSEntry list \<Rightarrow> BMFSEntry list) \<Rightarrow> bool" where
  "sorts q \<longleftrightarrow>
     (\<forall>cmp xs (key :: BMFSEntry \<Rightarrow> nat).
        distinct xs \<and> (\<forall>x \<in> set xs. \<forall>y \<in> set xs. x \<noteq> y \<longrightarrow>
          (cmp x y < 0 \<longleftrightarrow> key x < key y) \<and> (cmp x y = 0 \<longleftrightarrow> key x = key y)) \<longrightarrow>
        mset (q cmp xs) = mset xs \<and> sorted (map key (q cmp xs)))"

lemma sortsD:
  fixes key :: "BMFSEntry \<Rightarrow> nat"
  assumes "sorts q" "distinct xs"
    and "\<And>x y. x \<in> set xs \<Longrightarrow> y \<in> set xs \<Longrightarrow> x \<noteq> y \<Longrightarrow>
      (cmp x y < 0 \<longleftrightarrow> key x < key y) \<and> (cmp x y = 0 \<longleftrightarrow> key x = key y)"
  shows "mset (q cmp xs) = mset xs" "sorted (map key (q cmp xs))"
  using assms unfolding sorts_def by blast+

lemma signed_diff: "x < 2 ^ 31 \<Longrightarrow> y < 2 ^ 31 \<Longrightarrow> signed_take_bit 31 (int x - int y) = int x - int y"
  by (rule signed_take_bit_int_eq_self) simp_all

lemma sint_diff:
  fixes a b :: u64
  assumes "unat a < 2 ^ 31" "unat b < 2 ^ 31"
  shows "sint (ucast (a - b) :: u32) = int (unat a) - int (unat b)"
proof -
  have d: "is_down (ucast :: u64 \<Rightarrow> u32)" by (simp add: is_down_def source_size_def target_size_def word_size)
  have "a - b = word_of_int (int (unat a) - int (unat b))" by simp
  then have u: "(ucast (a - b) :: u32) = word_of_int (int (unat a) - int (unat b))"
    using ucast_down_wi [OF d] by metis
  have l: "LENGTH(32) - 1 = 31" by simp
  show ?thesis unfolding u sint_sbintrunc' l by (rule signed_diff [OF assms])
qed

lemma sorted_before:
  assumes "sorted (map (\<lambda>e. unat (StartingBlock e)) es)" "distinct es"
    and "\<forall>a \<in> set es. 1 \<le> unat (ReservedBlocks a)"
    and "\<forall>a \<in> set es. \<forall>b \<in> set es. a \<noteq> b \<longrightarrow> area a \<inter> area b = {}"
  shows "sorted_wrt before es"
  unfolding sorted_wrt_iff_nth_less
proof (intro allI impI)
  fix i j
  assume ij: "i < j" "j < length es"
  let ?a = "es ! i" and ?b = "es ! j"
  have s: "unat (StartingBlock ?a) \<le> unat (StartingBlock ?b)"
    using assms(1) ij by (simp add: sorted_iff_nth_mono)
  have "?a \<noteq> ?b" using assms(2) ij by (simp add: nth_eq_iff_index_eq)
  moreover have mem: "?a \<in> set es" "?b \<in> set es" using ij by simp_all
  ultimately have "area ?a \<inter> area ?b = {}" using assms(4) by blast
  moreover have "unat (StartingBlock ?b) \<in> area ?b" using assms(3) mem(2) by (force simp: area_def)
  ultimately have "unat (StartingBlock ?b) \<notin> area ?a" by blast
  then show "before ?a ?b" using s by (simp add: area_def before_def)
qed

lemma sorted_copy:
  assumes "dir_ok nb d" "compact n d" "sorts q"
  defines "es \<equiv> q StartingBlockCmp (map (entry_at d) [0..<n])"
  shows "set es = entry_at d ` {..<n}" "sorted_wrt before es"
proof -
  let ?xs = "map (entry_at d) [0..<n]" and ?key = "\<lambda>e. unat (StartingBlock e)"
  have v: "valid d i \<longleftrightarrow> i < n" for i by (rule compact_valid [OF assms(2)])
  have nb: "nb < 2 ^ 31" and ok: "\<And>i. i < n \<Longrightarrow> entry_ok nb (entry_at d i)"
    and dis: "\<And>i j. i < n \<Longrightarrow> j < n \<Longrightarrow> i \<noteq> j \<Longrightarrow> FileName (entry_at d i) \<noteq> FileName (entry_at d j) \<and>
        area (entry_at d i) \<inter> area (entry_at d j) = {}"
    using assms(1) by (simp_all add: dir_ok_def v)
  have cmp: "StartingBlockCmp x y = int (?key x) - int (?key y)" if "x \<in> set ?xs" "y \<in> set ?xs" for x y
  proof -
    have "z ! 0 \<noteq> 1 \<and> ?key z < 2 ^ 31" if "z \<in> set ?xs" for z
      using that ok nb assms(2) by (fastforce simp: entry_ok_def compact_def)
    then show ?thesis using that sint_diff by (simp add: StartingBlockCmp_def)
  qed
  have "inj_on (entry_at d) {0..<n}"
  proof (rule inj_onI, rule ccontr)
    fix i j
    assume "i \<in> {0..<n}" "j \<in> {0..<n}" "entry_at d i = entry_at d j" "i \<noteq> j"
    then show False using dis [of i j] by simp
  qed
  then have dx: "distinct ?xs" by (simp add: distinct_map)
  have "(StartingBlockCmp x y < 0 \<longleftrightarrow> ?key x < ?key y) \<and> (StartingBlockCmp x y = 0 \<longleftrightarrow> ?key x = ?key y)"
    if "x \<in> set ?xs" "y \<in> set ?xs" for x y
    by (simp only: cmp [OF that] diff_less_0_iff_less of_nat_less_iff right_minus_eq of_nat_eq_iff simp_thms)
  from sortsD [OF assms(3) dx this] have m: "mset es = mset ?xs" and s: "sorted (map ?key es)"
    unfolding es_def by simp_all
  show set: "set es = entry_at d ` {..<n}" using mset_eq_setD [OF m] by (simp add: lessThan_atLeast0)
  have "distinct es" using mset_eq_imp_distinct_iff [OF m] dx by simp
  then show "sorted_wrt before es"
  proof (rule sorted_before [OF s])
    show "\<forall>a \<in> set es. 1 \<le> unat (ReservedBlocks a)" using ok unfolding set by (simp add: entry_ok_def)
    show "\<forall>a \<in> set es. \<forall>b \<in> set es. a \<noteq> b \<longrightarrow> area a \<inter> area b = {}"
    proof (intro ballI impI)
      fix a b
      assume ab: "a \<in> set es" "b \<in> set es" "a \<noteq> b"
      then obtain i j where "i < n" "j < n" "a = entry_at d i" "b = entry_at d j" unfolding set by blast
      moreover from this have "i \<noteq> j" using ab(3) by blast
      ultimately show "area a \<inter> area b = {}" using dis by blast
    qed
  qed
qed

end
