(* ===== verification/Bmfs_Files.thy ===== *)
theory Bmfs_Files
  imports Bmfs_Alloc
begin

text \<open>
  A BMFS disk as a map from names to contents, and what the commands \<open>read\<close>, \<open>write\<close>, \<open>delete\<close> and \<open>create\<close> do
  to that map.
\<close>

section \<open>The abstraction\<close>

definition block_size :: nat where
  "block_size = 2097152"

definition dir_of :: "u8 list \<Rightarrow> u8 list" where
  "dir_of D = piece 4096 4096 D"

definition blocks :: "u8 list \<Rightarrow> nat" where
  "blocks D = length D div 1048576 div 2"

definition disk_ok :: "u8 list \<Rightarrow> bool" where
  "disk_ok D \<longleftrightarrow> length D < 2 ^ 52 \<and> dir_ok (blocks D) (dir_of D)"

definition content_at :: "u8 list \<Rightarrow> BMFSEntry \<Rightarrow> u8 list" where
  "content_at D e = piece (unat (StartingBlock e) * block_size) (unat (FileSize e)) D"

text \<open>A file: the number of blocks that are reserved for it, and its content.\<close>

definition file_at :: "u8 list \<Rightarrow> BMFSEntry \<Rightarrow> nat \<times> u8 list" where
  "file_at D e = (unat (ReservedBlocks e), content_at D e)"

definition bm_files :: "u8 list \<Rightarrow> string \<Rightarrow> (nat \<times> u8 list) option" where
  "bm_files D nm = map_option (\<lambda>i. file_at D (entry_at (dir_of D) i)) (lookup (dir_of D) nm)"

lemma dir_of_length: "disk_ok D \<Longrightarrow> 8192 \<le> length D"
  by (auto simp: disk_ok_def dir_ok_def dir_of_def)

lemma blocks_bound: "disk_ok D \<Longrightarrow> blocks D < 2 ^ 31 \<and> blocks D * block_size \<le> length D"
  by (auto simp: disk_ok_def dir_ok_def blocks_def block_size_def)

text \<open>Where the area of a valid entry lies.\<close>

lemma area_bound:
  assumes "disk_ok D" "valid (dir_of D) i"
  defines "e \<equiv> entry_at (dir_of D) i"
  shows "block_size \<le> unat (StartingBlock e) * block_size"
    and "unat (StartingBlock e) * block_size + unat (ReservedBlocks e) * block_size \<le> length D"
    and "unat (FileSize e) \<le> unat (ReservedBlocks e) * block_size"
    and "unat (StartingBlock e) < 2 ^ 31" "unat (ReservedBlocks e) < 2 ^ 31"
proof -
  have e: "entry_ok (blocks D) e" using assms by (simp add: disk_ok_def dir_ok_def)
  then show "block_size \<le> unat (StartingBlock e) * block_size" by (simp add: entry_ok_def)
  note b = blocks_bound [OF assms(1)]
  have "(unat (StartingBlock e) + unat (ReservedBlocks e)) * block_size \<le> blocks D * block_size"
    using e by (intro mult_right_mono) (auto simp: entry_ok_def)
  then show "unat (StartingBlock e) * block_size + unat (ReservedBlocks e) * block_size \<le> length D"
    using b by (simp add: add_mult_distrib)
  show "unat (FileSize e) \<le> unat (ReservedBlocks e) * block_size"
    using e by (simp add: entry_ok_def block_size_def)
  show "unat (StartingBlock e) < 2 ^ 31" "unat (ReservedBlocks e) < 2 ^ 31"
    using e b by (auto simp: entry_ok_def)
qed

lemma areas_apart:
  assumes "disk_ok D" "valid (dir_of D) i" "valid (dir_of D) j" "i \<noteq> j"
  defines "a \<equiv> entry_at (dir_of D) i" and "b \<equiv> entry_at (dir_of D) j"
  shows "(unat (StartingBlock a) + unat (ReservedBlocks a)) * block_size \<le> unat (StartingBlock b) * block_size \<or>
    (unat (StartingBlock b) + unat (ReservedBlocks b)) * block_size \<le> unat (StartingBlock a) * block_size"
proof -
  have "area a \<inter> area b = {}" "entry_ok (blocks D) a" "entry_ok (blocks D) b"
    using assms by (simp_all add: disk_ok_def dir_ok_def)
  then have "unat (StartingBlock a) + unat (ReservedBlocks a) \<le> unat (StartingBlock b) \<or>
    unat (StartingBlock b) + unat (ReservedBlocks b) \<le> unat (StartingBlock a)"
    by (auto simp: area_def entry_ok_def)
  then show ?thesis by (metis mult_le_mono1)
qed

section \<open>An open disk\<close>

definition opened :: "libc \<Rightarrow> bmfs \<Rightarrow> bool" where
  "opened c s \<longleftrightarrow> disk_ok (disk s) \<and> Directory s = dir_of (disk s) \<and>
     unat (disksize s) = length (disk s) div 1048576 \<and> length (disk s) \<le> capacity c"

text \<open>What the commands leave alone: the marker of the disk, its length, and the host apart from its output.\<close>

definition same_rest :: "bmfs \<Rightarrow> bmfs \<Rightarrow> bool" where
  "same_rest s s' \<longleftrightarrow> diskname s' = diskname s \<and> length (disk s') = length (disk s) \<and>
     piece 1024 512 (disk s') = piece 1024 512 (disk s) \<and> can_create (on_host s') = can_create (on_host s) \<and>
     disksize s' = disksize s"

lemma fwrite_in:
  assumes "disk_pos s + length bs \<le> length (disk s)" "length (disk s) \<le> capacity c"
  shows "fwrite c bs s =
    (True, s\<lparr>disk := patch (disk_pos s) bs (disk s), disk_pos := disk_pos s + length bs\<rparr>)"
proof -
  have "length bs \<le> capacity c - disk_pos s" using assms by simp
  then show ?thesis by (cases s) (simp add: fwrite_def Let_def)
qed

lemma fseek_in:
  assumes "unat off < 2 ^ 63"
  shows "fseek off s = s\<lparr>disk_pos := unat off\<rparr>"
proof -
  have "uint off < 2 ^ 63" using assms of_nat_less_iff [of "unat off" "2 ^ 63", where 'a = int] by simp
  then have "sint off = uint off" unfolding sint_uint
    by (intro signed_take_bit_int_eq_self) (simp_all add: order_trans [OF _ uint_ge_0])
  then have "\<not> sint off < 0" by simp
  then show ?thesis by (simp add: fseek_def)
qed

lemma flush_in:
  assumes "length (Directory s) = 4096" "8192 \<le> length (disk s)" "length (disk s) \<le> capacity c"
  shows "flush_directory c s = s\<lparr>disk := patch 4096 (Directory s) (disk s), disk_pos := 8192\<rparr>"
  using assms by (simp add: flush_directory_def fseek_in fwrite_in)

lemma out_text_simps [simp]:
  "disk (out_text t s) = disk s" "Directory (out_text t s) = Directory s" "disksize (out_text t s) = disksize s"
  "diskname (out_text t s) = diskname s" "files (on_host (out_text t s)) = files (on_host s)"
  "can_create (on_host (out_text t s)) = can_create (on_host s)" "disk_pos (out_text t s) = disk_pos s"
  "disk_error (out_text t s) = disk_error s" "DiskInfo (out_text t s) = DiskInfo s"
  by (simp_all add: out_text_def print_def)

text \<open>The state with more output.\<close>

lemma out_text_twice [simp]: "out_text u (out_text t s) = out_text (t @ u) s"
  by (simp add: out_text_def print_def)

lemma out_text_disk:
  "(out_text t s)\<lparr>disk := d\<rparr> = out_text t (s\<lparr>disk := d\<rparr>)" "(out_text t s)\<lparr>disk_pos := p\<rparr> = out_text t (s\<lparr>disk_pos := p\<rparr>)"
  "(out_text t s)\<lparr>disk_error := b\<rparr> = out_text t (s\<lparr>disk_error := b\<rparr>)" "(out_text t s)\<lparr>Directory := x\<rparr> = out_text t (s\<lparr>Directory := x\<rparr>)"
  "(out_text t s)\<lparr>DiskInfo := x\<rparr> = out_text t (s\<lparr>DiskInfo := x\<rparr>)"
  by (simp_all add: out_text_def)

lemma opened_out [simp]: "opened c (out_text t s) = opened c s" "same_rest s0 (out_text t s) = same_rest s0 s"
  by (simp_all add: opened_def same_rest_def)

section \<open>Replacing the directory on the disk\<close>

lemma new_dir:
  assumes "8192 \<le> length D" "length d = 4096"
  shows "dir_of (patch 4096 d D) = d" "length (patch 4096 d D) = length D"
    "piece 1024 512 (patch 4096 d D) = piece 1024 512 D"
    "blocks (patch 4096 d D) = blocks D"
    "block_size \<le> unat (StartingBlock e) * block_size \<Longrightarrow> content_at (patch 4096 d D) e = content_at D e"
    "block_size \<le> unat (StartingBlock e) * block_size \<Longrightarrow> file_at (patch 4096 d D) e = file_at D e"
  using assms by (simp_all add: dir_of_def piece_patch_same piece_patch_other blocks_def file_at_def content_at_def block_size_def)

text \<open>The files of the disk, entry by entry.\<close>

lemma option_eqI: "(\<And>x. a = Some x \<longleftrightarrow> b = Some x) \<Longrightarrow> a = b"
  by (metis not_None_eq)

lemma bm_files_iff:
  assumes "disk_ok D"
  shows "bm_files D nm = Some bs \<longleftrightarrow>
    (\<exists>i. valid (dir_of D) i \<and> FileName (entry_at (dir_of D) i) = nm \<and> file_at D (entry_at (dir_of D) i) = bs)"
  using lookup_iff [of "blocks D" "dir_of D" nm] assms by (auto simp: bm_files_def disk_ok_def)

lemma bm_files_upd:
  assumes "disk_ok D" "disk_ok D'" "valid (dir_of D') k" "FileName (entry_at (dir_of D') k) = f"
    and "file_at D' (entry_at (dir_of D') k) = bs"
    and "\<And>i. i \<noteq> k \<Longrightarrow> valid (dir_of D') i \<longleftrightarrow> valid (dir_of D) i"
    and "\<And>i. i \<noteq> k \<Longrightarrow> valid (dir_of D) i \<Longrightarrow> entry_at (dir_of D') i = entry_at (dir_of D) i \<and>
      file_at D' (entry_at (dir_of D) i) = file_at D (entry_at (dir_of D) i)"
    and "\<And>i. valid (dir_of D) i \<Longrightarrow> FileName (entry_at (dir_of D) i) = f \<Longrightarrow> i = k"
    and "valid (dir_of D) k \<Longrightarrow> FileName (entry_at (dir_of D) k) = f"
  shows "bm_files D' = (bm_files D)(f \<mapsto> bs)"
proof
  fix nm
  show "bm_files D' nm = ((bm_files D)(f \<mapsto> bs)) nm"
  proof (cases "nm = f")
    case True
    then show ?thesis using bm_files_iff [OF assms(2)] assms(3-5) by auto
  next
    case False
    have "bm_files D' nm = Some x \<longleftrightarrow> bm_files D nm = Some x" for x
    proof -
      have "(valid (dir_of D') i \<and> FileName (entry_at (dir_of D') i) = nm \<and> file_at D' (entry_at (dir_of D') i) = x) \<longleftrightarrow>
        (valid (dir_of D) i \<and> FileName (entry_at (dir_of D) i) = nm \<and> file_at D (entry_at (dir_of D) i) = x)" for i
        using False assms(4,6,7,9) by (cases "i = k") auto
      then show ?thesis unfolding bm_files_iff [OF assms(1)] bm_files_iff [OF assms(2)] by blast
    qed
    from option_eqI [OF this] show ?thesis using False by simp
  qed
qed

section \<open>delete\<close>

lemma delete_file_ok:
  assumes "opened c s" and "bm_files (disk s) f \<noteq> None"
  shows "\<exists>s'. bm_delete c (Some f) s = Some s' \<and> opened c s' \<and> same_rest s s' \<and>
    bm_files (disk s') = (bm_files (disk s))(f := None) \<and> files (on_host s') = files (on_host s) \<and>
    (\<exists>k. lookup (Directory s) f = Some k \<and> Directory s' = patch (64 * k) [1] (Directory s))"
proof -
  let ?D = "disk s" and ?d = "dir_of (disk s)"
  have ok: "disk_ok ?D" "Directory s = ?d" "length ?D \<le> capacity c" and len: "8192 \<le> length ?D"
    using assms(1) dir_of_length by (auto simp: opened_def)
  have dok: "dir_ok (blocks ?D) ?d" using ok(1) by (simp add: disk_ok_def)
  obtain k where k: "lookup ?d f = Some k" using assms(2) by (auto simp: bm_files_def)
  then have v: "valid ?d k" "FileName (entry_at ?d k) = f" using lookup_Some by auto
  let ?d' = "patch (64 * k) [1] ?d"
  note del = deleted_entry [OF dok v(1)]
  have l': "length ?d' = 4096" using del(1) by (simp add: dir_ok_def)
  note nd = new_dir [OF len l']
  let ?D' = "patch 4096 ?d' ?D"
  have ok': "disk_ok ?D'" using ok(1) del(1) nd by (simp add: disk_ok_def)
  have eq: "bm_delete c (Some f) s =
      Some (out_text ''Complete\<newline>'' ((out_text (''Deleting file '' @ quoted f @ '' from BMFS... '') s)
        \<lparr>Directory := ?d', disk := ?D', disk_pos := 8192\<rparr>))"
    using k ok len l' by (simp add: bm_delete_def findfile_lookup flush_in)
  have "bm_files ?D' = (bm_files ?D)(f := None)"
  proof
    fix nm
    have iff: "bm_files ?D' nm = Some x \<longleftrightarrow> nm \<noteq> f \<and> bm_files ?D nm = Some x" for x
    proof -
      have "(valid ?d' i \<and> FileName (entry_at ?d' i) = nm \<and> file_at ?D' (entry_at ?d' i) = x) \<longleftrightarrow>
        nm \<noteq> f \<and> (valid ?d i \<and> FileName (entry_at ?d i) = nm \<and> file_at ?D (entry_at ?d i) = x)" for i
      proof (cases "valid ?d i \<and> i \<noteq> k")
        case True
        then have "FileName (entry_at ?d i) \<noteq> f" using dok v by (auto simp: dir_ok_def)
        then show ?thesis using True del(2,3) [of i] nd(6) area_bound(1) [OF ok(1)] by (auto simp: valid_def)
      qed (use v del(2) in auto)
      then show ?thesis unfolding bm_files_iff [OF ok'] bm_files_iff [OF ok(1)] nd(1) by blast
    qed
    show "bm_files ?D' nm = ((bm_files ?D)(f := None)) nm"
      by (rule option_eqI) (simp only: iff fun_upd_apply split: if_split, blast)
  qed
  then show ?thesis unfolding eq using assms(1) ok' nd k ok(2)
    by (simp add: opened_def same_rest_def)
qed

section \<open>write\<close>

lemma unat_blocks:
  fixes w :: u64
  assumes "unat w < 2 ^ 31"
  shows "unat (w * 2097152) = unat w * block_size" "unat (w * 2097152) < 2 ^ 63"
proof -
  have "unat w * unat (2097152 :: u64) < 2 ^ LENGTH(64)" using assms by simp
  then show "unat (w * 2097152) = unat w * block_size"
    unfolding block_size_def by (subst unat_mult_lem [THEN iffD1]) simp_all
  then show "unat (w * 2097152) < 2 ^ 63" using assms by (simp add: block_size_def)
qed

lemma write_file_ok:
  assumes "opened c s" and "bm_files (disk s) f = Some (r, old)" and "files (on_host s) f = Some bs"
    and "f \<noteq> diskname s" "length bs < 2 ^ 31"
  shows "\<exists>s'. bm_write c (Some f) s = Some s' \<and> opened c s' \<and> same_rest s s' \<and>
    bm_files (disk s') =
      (if length bs \<le> r * block_size then (bm_files (disk s))(f \<mapsto> (r, bs)) else bm_files (disk s)) \<and>
    files (on_host s') = files (on_host s)"
proof -
  let ?D = "disk s" and ?d = "dir_of (disk s)" and ?n = "of_nat (length bs) :: u64"
  obtain k where k: "lookup ?d f = Some k" and r: "r = unat (ReservedBlocks (entry_at ?d k))"
    using assms(2) by (auto simp: bm_files_def file_at_def)
  let ?e = "entry_at ?d k"
  define room where "room = r * block_size"
  have ok: "disk_ok ?D" "Directory s = ?d" "length ?D \<le> capacity c" and len: "8192 \<le> length ?D"
    using assms(1) dir_of_length by (auto simp: opened_def)
  have dok: "dir_ok (blocks ?D) ?d" using ok(1) by (simp add: disk_ok_def)
  have v: "valid ?d k" "FileName ?e = f" using k lookup_Some by auto
  note ab = area_bound [OF ok(1) v(1)]
  have n: "unat ?n = length bs" using assms(5) by (simp add: unat_of_nat)
  have room: "room = unat (ReservedBlocks ?e) * block_size" by (simp add: room_def r)
  have cmp: "ReservedBlocks ?e * 2097152 < ?n \<longleftrightarrow> \<not> length bs \<le> room"
    using unat_blocks(1) [OF ab(5)] n room by (simp add: word_less_nat_alt not_le)
  show ?thesis
  proof (cases "length bs \<le> room")
    case False
    then have "bm_write c (Some f) s = Some (out_text ''Not enough reserved space in BMFS.\<newline>''
        (out_text (''Writing local file '' @ quoted f @ '' to BMFS... '') s))"
      using k ok(2) cmp assms(3) by (simp add: bm_write_def findfile_lookup Let_def)
    then show ?thesis using False assms(1) by (simp add: same_rest_def room_def)
  next
    case True
    let ?p = "unat (StartingBlock ?e) * block_size"
    have fit: "?p + length bs \<le> length ?D" using ab(2) True room by simp
    have p: "8192 \<le> ?p" using ab(1) by (simp add: block_size_def)
    let ?D1 = "patch ?p bs ?D"
    let ?d' = "patch (64 * k + 48) (le_bytes 8 ?n) ?d"
    have res: "unat ?n \<le> unat (ReservedBlocks ?e) * 2097152" using True room n by (simp add: block_size_def)
    note rs = resized_entry [OF dok v(1) res]
    have l1: "length ?D1 = length ?D" using fit by simp
    have d1: "dir_of ?D1 = ?d" "piece 1024 512 ?D1 = piece 1024 512 ?D"
      using fit p by (simp_all add: dir_of_def piece_patch_other)
    have l': "length ?d' = 4096" using rs(1) by (simp add: dir_ok_def)
    let ?D' = "patch 4096 ?d' ?D1"
    have nd: "dir_of ?D' = ?d'" "length ?D' = length ?D" "piece 1024 512 ?D' = piece 1024 512 ?D" "blocks ?D' = blocks ?D"
      using new_dir [of ?D1 ?d'] l1 len l' d1(2) by (simp_all add: blocks_def)
    have ok': "disk_ok ?D'" using ok(1) rs(1) nd by (simp add: disk_ok_def)
    have content: "content_at ?D' e = content_at ?D1 e" if "block_size \<le> unat (StartingBlock e) * block_size" for e
      using new_dir(5) [of ?D1 ?d' e] l1 len l' that by simp
    have new: "content_at ?D' (entry_at ?d' k) = bs"
    proof -
      have "content_at ?D' (entry_at ?d' k) = content_at ?D1 (entry_at ?d' k)"
        using ab(1) rs(6) by (intro content) simp
      also have "\<dots> = bs" using fit n by (simp add: content_at_def rs(5,6) piece_patch_same)
      finally show ?thesis .
    qed
    have old: "content_at ?D' (entry_at ?d i) = content_at ?D (entry_at ?d i)" if i: "valid ?d i" "i \<noteq> k" for i
    proof -
      note ai = area_bound [OF ok(1) i(1)]
      have "content_at ?D' (entry_at ?d i) = content_at ?D1 (entry_at ?d i)" using ai(1) by (rule content)
      also have "\<dots> = content_at ?D (entry_at ?d i)"
        unfolding content_at_def using areas_apart [OF ok(1) i(1) v(1) i(2)] ai(3) fit True room
        by (intro piece_patch_other) (auto simp: add_mult_distrib)
      finally show ?thesis .
    qed
    have bmf: "bm_files ?D' = (bm_files ?D)(f \<mapsto> (r, bs))"
    proof (rule bm_files_upd [OF ok(1) ok', of k])
      show "\<And>i. valid ?d i \<Longrightarrow> FileName (entry_at ?d i) = f \<Longrightarrow> i = k"
        using dok v unfolding dir_ok_def by blast
      show "entry_at (dir_of ?D') i = entry_at ?d i \<and> file_at ?D' (entry_at ?d i) = file_at ?D (entry_at ?d i)"
        if "i \<noteq> k" "valid ?d i" for i
        using rs(3) [of i] old [of i] that nd(1) by (simp add: valid_def file_at_def)
      show "file_at ?D' (entry_at (dir_of ?D') k) = (r, bs)" using new rs(7) by (simp add: nd(1) file_at_def r)
    qed (use v rs nd(1) in simp_all)
    have eq: "bm_write c (Some f) s = Some (out_text ''Complete\<newline>''
        ((out_text (''Writing local file '' @ quoted f @ '' to BMFS... '') s)
          \<lparr>Directory := ?d', disk := ?D', disk_pos := 8192\<rparr>))"
      using k ok assms(3-5) True cmp unat_blocks [OF ab(4)] fit l1 len l'
      by (simp add: bm_write_def findfile_lookup Let_def fseek_in fwrite_in flush_in)
    then show ?thesis using True bmf ok' nd assms(1)
      by (simp add: opened_def same_rest_def room_def)
  qed
qed

section \<open>read\<close>

lemma map_getc: "p + n \<le> length d \<Longrightarrow> map (getc_at d) [p..<p + n] = piece p n d"
  by (rule nth_equalityI) (simp_all add: nth_piece)

lemma read_file_ok:
  assumes "opened c s" and "bm_files (disk s) f = Some (r, bs)"
    and "f \<noteq> diskname s" "length bs < 2 ^ 31" "can_create (on_host s) f"
  shows "\<exists>s'. bm_read (Some f) s = Some s' \<and> opened c s' \<and> same_rest s s' \<and> disk s' = disk s \<and>
    files (on_host s') = (files (on_host s))(f \<mapsto> bs)"
proof -
  let ?D = "disk s" and ?d = "dir_of (disk s)"
  have ok: "disk_ok ?D" "Directory s = ?d" using assms(1) by (auto simp: opened_def)
  obtain k where k: "lookup ?d f = Some k" and bs: "content_at ?D (entry_at ?d k) = bs"
    using assms(2) by (auto simp: bm_files_def file_at_def)
  let ?e = "entry_at ?d k"
  have v: "valid ?d k" "FileName ?e = f" using k lookup_Some by auto
  note ab = area_bound [OF ok(1) v(1)]
  let ?p = "unat (StartingBlock ?e) * block_size"
  have fit: "?p + unat (FileSize ?e) \<le> length ?D" using ab(2,3) by simp
  then have n: "length bs = unat (FileSize ?e)" using bs by (auto simp: content_at_def)
  then have small: "\<not> 2 ^ 31 \<le> FileSize ?e" using assms(4) by (simp add: word_le_nat_alt)
  have "map (getc_at ?D) [?p..<?p + unat (FileSize ?e)] = bs"
    using map_getc [OF fit] bs by (simp add: content_at_def)
  then show ?thesis
    using k ok v(2) small assms(1,3,5) unat_blocks [OF ab(4)]
    by (simp add: bm_read_def findfile_lookup Let_def fseek_in opened_def same_rest_def)
qed

section \<open>create\<close>

definition entries :: "u8 list \<Rightarrow> BMFSEntry set" where
  "entries d = entry_at d ` {i. valid d i}"

text \<open>The blocks that \<open>create\<close> asks for, for a size in MiB.\<close>

lemma blocks_requested:
  fixes m :: u64
  assumes "unat m < 2 ^ 63"
  shows "unat ((if m mod 2 \<noteq> 0 then m + 1 else m) div 2) = (unat m + 1) div 2"
proof -
  have e: "m mod 2 = 0 \<longleftrightarrow> unat m mod 2 = 0" by (simp add: unat_mod word_eq_iff_unsigned flip: unat_eq_0)
  show ?thesis
  proof (cases "m mod 2 = 0")
    case True
    then show ?thesis using e by (simp add: unat_div) presburger
  next
    case False
    have "unat (m + 1) = unat m + 1" using assms by (subst unat_add_lem [THEN iffD1]) simp_all
    then show ?thesis using False by (simp add: unat_div)
  qed
qed

lemma create_dir_ok:
  fixes st bl :: u64
  assumes "dir_ok nb d" "compact n d" "short_name f" "lookup d f = None"
    and "fits (entries d) nb (unat bl) (unat st)" "1 \<le> unat st" "1 \<le> unat bl"
  shows "dir_ok nb (add_entry f n n st bl d)"
proof -
  let ?d' = "add_entry f n n st bl d"
  have "length d = 4096" using assms(1) by (simp add: dir_ok_def)
  note ad = added_entry [OF this assms(2,3), where st = st and bl = bl]
  have v: "valid d i \<longleftrightarrow> i < n" for i by (rule compact_valid [OF assms(2)])
  show ?thesis
  proof (rule dir_ok_change [OF assms(1) ad(1), where k = n])
    show "valid d i \<and> entry_at ?d' i = entry_at d i" if "valid ?d' i" "i \<noteq> n" for i
      using that ad(2,3) v by simp
    show "entry_ok nb (entry_at ?d' n)"
      using ad(5-8) assms(5-7) by (simp add: entry_ok_def fits_def)
    show "FileName (entry_at d i) \<noteq> FileName (entry_at ?d' n) \<and> area (entry_at d i) \<inter> area (entry_at ?d' n) = {}"
      if "valid d i" for i
    proof
      show "FileName (entry_at d i) \<noteq> FileName (entry_at ?d' n)"
        using lookup_None [OF assms(4) that] ad(4) by simp
      have "entry_at d i \<in> entries d" using that by (simp add: entries_def)
      then show "area (entry_at d i) \<inter> area (entry_at ?d' n) = {}"
        using assms(5) ad(6,7) by (simp add: fits_def area_def)
    qed
  qed
qed

lemma gap_Least:
  fixes st bl :: u64
  assumes "let r = unat st in if r = 0 then \<forall>q \<ge> 1. \<not> fits E nb (unat bl) q
       else 1 \<le> r \<and> fits E nb (unat bl) r \<and> (\<forall>q. 1 \<le> q \<and> q < r \<longrightarrow> \<not> fits E nb (unat bl) q)"
  shows "st = 0 \<longleftrightarrow> \<not> (\<exists>q \<ge> 1. fits E nb (unat bl) q)"
    and "st \<noteq> 0 \<Longrightarrow> fits E nb (unat bl) (unat st) \<and> 1 \<le> unat st \<and>
      unat st = (LEAST q. 1 \<le> q \<and> fits E nb (unat bl) q)"
proof -
  show "st = 0 \<longleftrightarrow> \<not> (\<exists>q \<ge> 1. fits E nb (unat bl) q)"
    using assms by (auto simp: Let_def unat_eq_0 split: if_splits)
  assume "st \<noteq> 0"
  then have f: "fits E nb (unat bl) (unat st)" "1 \<le> unat st"
    "\<And>q. 1 \<le> q \<Longrightarrow> q < unat st \<Longrightarrow> \<not> fits E nb (unat bl) q"
    using assms by (auto simp: Let_def unat_eq_0)
  then have "(LEAST q. 1 \<le> q \<and> fits E nb (unat bl) q) = unat st"
    by (intro Least_equality) (auto simp: not_le [symmetric])
  with f show "fits E nb (unat bl) (unat st) \<and> 1 \<le> unat st \<and>
      unat st = (LEAST q. 1 \<le> q \<and> fits E nb (unat bl) q)" by simp
qed

text \<open>The search of \<open>create\<close> in the directory of an open disk.\<close>

lemma create_search:
  assumes "dir_ok nb d" "compact n d" "sorts q" "2 \<le> nb" "1 \<le> unat bl"
  defines "st \<equiv> find_gap (q StartingBlockCmp (map (entry_at d) [0..<n])) (of_nat nb) bl 1"
  shows "st = 0 \<longleftrightarrow> \<not> (\<exists>p \<ge> 1. fits (entries d) nb (unat bl) p)"
    and "st \<noteq> 0 \<Longrightarrow> fits (entries d) nb (unat bl) (unat st) \<and> 1 \<le> unat st \<and>
      unat st = (LEAST p. 1 \<le> p \<and> fits (entries d) nb (unat bl) p)"
proof -
  let ?es = "q StartingBlockCmp (map (entry_at d) [0..<n])"
  have v: "valid d i \<longleftrightarrow> i < n" for i by (rule compact_valid [OF assms(2)])
  note sc = sorted_copy [OF assms(1-3)]
  have set: "set ?es = entries d" using sc(1) v by (simp add: entries_def lessThan_def)
  have ok: "e ! 0 \<noteq> 1 \<and> entry_ok nb e" if "e \<in> entries d" for e
    using that assms(1,2) v by (auto simp: entries_def dir_ok_def compact_def)
  have nb: "nb < 2 ^ 31" using assms(1) by (simp add: dir_ok_def)
  have "let r = unat st in if r = 0 then \<forall>p \<ge> unat (1 :: u64). \<not> fits (set ?es) nb (unat bl) p
       else unat (1 :: u64) \<le> r \<and> fits (set ?es) nb (unat bl) r \<and>
         (\<forall>p. unat (1 :: u64) \<le> p \<and> p < r \<longrightarrow> \<not> fits (set ?es) nb (unat bl) p)"
    unfolding st_def
  proof (rule find_gap_spec)
    show "\<forall>e \<in> set ?es. e ! 0 \<noteq> 1 \<and> 1 \<le> unat (ReservedBlocks e) \<and>
      unat (StartingBlock e) + unat (ReservedBlocks e) \<le> nb - 1 \<and> unat (1 :: u64) \<le> unat (StartingBlock e)"
      using ok unfolding set by (simp add: entry_ok_def)
  qed (use sc(2) assms(4,5) nb in simp_all)
  then have g: "let r = unat st in if r = 0 then \<forall>p \<ge> 1. \<not> fits (entries d) nb (unat bl) p
       else 1 \<le> r \<and> fits (entries d) nb (unat bl) r \<and>
         (\<forall>p. 1 \<le> p \<and> p < r \<longrightarrow> \<not> fits (entries d) nb (unat bl) p)"
    unfolding set by (simp only: unsigned_1)
  show "st = 0 \<longleftrightarrow> \<not> (\<exists>p \<ge> 1. fits (entries d) nb (unat bl) p)" by (rule gap_Least(1) [OF g])
  show "fits (entries d) nb (unat bl) (unat st) \<and> 1 \<le> unat st \<and>
      unat st = (LEAST p. 1 \<le> p \<and> fits (entries d) nb (unat bl) p)" if "st \<noteq> 0"
    by (rule gap_Least(2) [OF g that])
qed

text \<open>The runs of \<open>create\<close> with a name that is not there yet and a free entry.\<close>

lemma bm_create_runs:
  assumes "opened c s" "bm_files (disk s) f = None"
    and "count_entries (Directory s) [0..<64] None = (n, Some slot)" "slot < 64" "length f \<le> 31"
    and "unat m < 2 ^ 63" "unat b = (unat m + 1) div 2"
  defines "st \<equiv> find_gap (qsort c StartingBlockCmp (map (entry_at (Directory s)) [0..<n])) (of_nat (blocks (disk s))) b 1"
  defines "d' \<equiv> add_entry f slot n st b (Directory s)"
  assumes "length d' = 4096"
  shows "\<exists>t. bm_create c f m s = Some (out_text t
    (if st = 0 then s else s\<lparr>Directory := d', disk := patch 4096 d' (disk s), disk_pos := 8192\<rparr>))"
proof -
  let ?D = "disk s"
  define m' where "m' = (if m mod 2 \<noteq> 0 then m + 1 else m)"
  have b: "m' div 2 = b"
    using assms(7) blocks_requested [OF assms(6)] unfolding m'_def by (metis word_unat_eq_iff)
  have ok: "Directory s = dir_of ?D" "length ?D \<le> capacity c" and len: "8192 \<le> length ?D"
    and ds: "unat (disksize s) = length ?D div 1048576"
    using assms(1) dir_of_length by (auto simp: opened_def)
  have lk: "lookup (dir_of ?D) f = None" using assms(2) by (auto simp: bm_files_def)
  have nb: "ucast (disksize s div 2) = (of_nat (blocks ?D) :: u64)"
  proof -
    have "unat (disksize s div 2) < 2 ^ 64"
      using unsigned_less [of "disksize s div 2", where ?'a = nat] by simp
    then have u: "unat (ucast (disksize s div 2) :: u64) = blocks ?D"
      using ds by (simp add: unsigned_ucast_eq take_bit_nat_eq_self unat_div blocks_def)
    show ?thesis unfolding u [symmetric] by simp
  qed
  have short: "\<not> 4096 < 64 * slot + length f + 1" using assms(4,5) by simp
  have l': "length d' = 4096" by fact
  show ?thesis
    unfolding bm_create_def m'_def [symmetric] Let_def b findfile_lookup
    using lk short len ok l' assms(3) [unfolded ok(1)]
    by (auto simp: nb st_def [unfolded ok(1)] d'_def flush_in out_text_disk)
qed

lemma create_file_ok:
  assumes "opened c s" and "compact n (Directory s)" and "sorts (qsort c)" and "short_name f"
    and "bm_files (disk s) f = None" and "2 \<le> blocks (disk s)"
    and "1 \<le> unat m" "unat m < 2 ^ 63"
  defines "b \<equiv> (unat m + 1) div 2"
  defines "P \<equiv> \<lambda>p. 1 \<le> p \<and> fits (entries (Directory s)) (blocks (disk s)) b p"
  shows "\<exists>s'. bm_create c f m s = Some s' \<and> opened c s' \<and> same_rest s s' \<and> files (on_host s') = files (on_host s) \<and>
    (if \<exists>p. P p then
       bm_files (disk s') = (bm_files (disk s))(f \<mapsto> (b, [])) \<and> (n + 1 < 64 \<longrightarrow> compact (n + 1) (Directory s')) \<and>
       (\<exists>w. unat w = b \<and> Directory s' = add_entry f n n (of_nat (LEAST p. P p)) w (Directory s))
     else disk s' = disk s \<and> Directory s' = Directory s)"
proof -
  let ?D = "disk s" and ?d = "dir_of (disk s)"
  define w :: u64 where "w = (if m mod 2 \<noteq> 0 then m + 1 else m) div 2"
  have ok: "disk_ok ?D" "Directory s = ?d" "length ?D \<le> capacity c" and len: "8192 \<le> length ?D"
    using assms(1) dir_of_length by (auto simp: opened_def)
  have dok: "dir_ok (blocks ?D) ?d" using ok(1) by (simp add: disk_ok_def)
  have cp: "compact n ?d" and n: "n < 64" using assms(2) ok(2) by (simp_all add: compact_def)
  have lk: "lookup ?d f = None" using assms(5) by (auto simp: bm_files_def)
  have wb: "unat w = b" unfolding w_def b_def by (rule blocks_requested [OF assms(8)])
  have w1: "1 \<le> unat w" unfolding wb b_def using assms(7) by simp
  define st where "st = find_gap (qsort c StartingBlockCmp (map (entry_at ?d) [0..<n])) (of_nat (blocks ?D)) w 1"
  have P: "P = (\<lambda>p. 1 \<le> p \<and> fits (entries ?d) (blocks ?D) b p)" by (simp add: P_def ok(2))
  note search = create_search [OF dok cp assms(3,6) w1, folded st_def, unfolded wb]
  let ?d' = "add_entry f n n st w ?d"
  have "length ?d = 4096" using dok by (simp add: dir_ok_def)
  note ad = added_entry [OF this cp assms(4), where st = st and bl = w]
  let ?s' = "s\<lparr>Directory := ?d', disk := patch 4096 ?d' ?D, disk_pos := 8192\<rparr>"
  have f: "length f \<le> 31" using assms(4) by (simp add: short_name_def)
  from bm_create_runs [OF assms(1,5), unfolded ok(2), OF compact_count [OF cp] n f assms(8) wb [unfolded b_def],
      folded st_def, OF ad(1)]
  obtain t where eq: "bm_create c f m s = Some (out_text t (if st = 0 then s else ?s'))" by blast
  show ?thesis
  proof (cases "st = 0")
    case True
    then have "\<not> (\<exists>p. P p)" using search(1) unfolding P by blast
    then show ?thesis unfolding eq using assms(1) True by (simp add: same_rest_def)
  next
    case False
    note fit = search(2) [OF False]
    then have ex: "\<exists>p. P p" unfolding P by blast
    have st: "unat st = (LEAST p. P p)" using fit unfolding P by blast
    have st': "of_nat (LEAST p. P p) = st" unfolding st [symmetric] by simp
    have "fits (entries ?d) (blocks ?D) (unat w) (unat st)" "1 \<le> unat st" unfolding wb using fit by blast+
    from create_dir_ok [OF dok cp assms(4) lk this w1] have dok': "dir_ok (blocks ?D) ?d'" .
    let ?D' = "patch 4096 ?d' ?D"
    note nd = new_dir [OF len ad(1)]
    have ok': "disk_ok ?D'" using ok(1) dok' nd by (simp add: disk_ok_def)
    have v: "valid ?d i \<longleftrightarrow> i < n" for i by (rule compact_valid [OF cp])
    have "bm_files ?D' = (bm_files ?D)(f \<mapsto> (b, []))"
    proof (rule bm_files_upd [OF ok(1) ok', of n])
      show "file_at ?D' (entry_at (dir_of ?D') n) = (b, [])"
        by (simp add: nd(1) file_at_def content_at_def ad(7,8) piece_def wb)
      show "entry_at (dir_of ?D') i = entry_at ?d i \<and> file_at ?D' (entry_at ?d i) = file_at ?D (entry_at ?d i)"
        if "valid ?d i" for i
        using that v ad(3) nd(1,6) area_bound(1) [OF ok(1) that] by simp
      show "\<And>i. valid ?d i \<Longrightarrow> FileName (entry_at ?d i) = f \<Longrightarrow> i = n" using lookup_None [OF lk] by blast
    qed (use ad v nd in auto)
    then show ?thesis unfolding eq using False ex ok' nd assms(1) ad(9) wb st'
      by (auto simp: opened_def same_rest_def ok(2))
  qed
qed

end
