(* ===== verification/Bmfs_Init.thy ===== *)
theory Bmfs_Init
  imports Bmfs_Files
begin

text \<open>
  \<open>initialize\<close>: the sizes it understands, and the disk it makes: empty, well formed, with the boot record and
  the loader where the machine looks for them.
\<close>

section \<open>The size\<close>

definition number :: "nat \<Rightarrow> string \<Rightarrow> nat" where
  "number n ds = foldl (\<lambda>n c. 10 * n + digit c) n ds"

lemma number_simps [simp]: "number n [] = n" "number n (c # ds) = number (10 * n + digit c) ds"
  by (simp_all add: number_def)

lemma number_ge: "n \<le> number n ds"
proof (induction ds arbitrary: n)
  case (Cons c ds)
  have "10 * n + digit c \<le> number (10 * n + digit c) ds" by (rule Cons)
  then show ?case by simp
qed simp

lemma size_chars_digits:
  "\<forall>c \<in> set ds. is_digit c \<Longrightarrow> number (unat acc) ds < 2 ^ 64 \<Longrightarrow> \<not> first \<or> ds \<noteq> [] \<Longrightarrow>
   size_chars sz (ds @ u) first acc f = size_chars sz u False (of_nat (number (unat acc) ds)) f"
proof (induction ds arbitrary: acc first)
  case Nil
  then show ?case by simp
next
  case (Cons c ds)
  have le: "10 * unat acc + digit c < 2 ^ 64"
    using number_ge [of "10 * unat acc + digit c" ds] Cons.prems(2) by simp
  have m: "unat (acc * 10) = unat acc * 10" using le by (subst unat_mult_lem [THEN iffD1]) simp_all
  have d: "unat (of_nat (digit c) :: u64) = digit c" using le by (simp add: unat_of_nat)
  have a: "unat (acc * 10 + of_nat (digit c)) = 10 * unat acc + digit c"
    using le by (subst unat_add_lem [THEN iffD1]) (simp_all add: m d)
  have step: "size_chars sz ((c # ds) @ u) first acc f =
      size_chars sz (ds @ u) False (acc * 10 + of_nat (digit c)) f"
  proof (cases "acc = 0")
    case False
    then have "acc < acc * 10" unfolding word_less_nat_alt m by (simp add: unat_gt_0)
    then show ?thesis using Cons.prems(1) by simp
  qed (use Cons.prems(1) in simp)
  show ?case unfolding step using Cons.IH [of "acc * 10 + of_nat (digit c)" False] Cons.prems a by simp
qed

lemma scaled_ge: "(n :: nat) \<le> n * 1024 ^ k"
  using mult_le_mono2 [of 1 "1024 ^ k" n] by (simp only: nat_mult_1_right one_le_numeral one_le_power)

lemma scale_loop_ok:
  "0 < n \<Longrightarrow> n * 1024 ^ k < 2 ^ 64 \<Longrightarrow> scale_loop k (of_nat n) (ret, out) = (of_nat (n * 1024 ^ k), ret, out)"
proof (induction k arbitrary: n)
  case (Suc k)
  have b: "n * 1024 < 2 ^ 64"
    using le_less_trans [OF scaled_ge [of "n * 1024" k]] Suc.prems(2) by (simp add: mult.assoc)
  then have "(of_nat n :: u64) < of_nat (n * 1024)" using Suc.prems(1)
    by (simp add: word_less_nat_alt unat_of_nat del: of_nat_mult)
  then have "scale_loop (Suc k) (of_nat n) (ret, out) = scale_loop k (of_nat (n * 1024)) (ret, out)" by simp
  then show ?case using Suc.IH [of "n * 1024"] Suc.prems by (simp add: mult.assoc)
qed simp

definition unit_of :: "string \<Rightarrow> nat option" where
  "unit_of u = (case u of [] \<Rightarrow> Some 0 | [ch] \<Rightarrow> if is_digit ch then None else unit_factor ch | _ \<Rightarrow> None)"

lemma disk_size_ok:
  assumes "ds \<noteq> []" "\<forall>c \<in> set ds. is_digit c" "unit_of u = Some k"
    and "6291456 \<le> number 0 ds * 1024 ^ k" "number 0 ds * 1024 ^ k < 2 ^ 64"
  shows "disk_size (ds @ u) = (of_nat (number 0 ds * 1024 ^ k), 0, [])"
proof -
  let ?n = "number 0 ds"
  have pos: "0 < ?n" using assms(4) by (cases "?n = 0") simp_all
  have n: "?n < 2 ^ 64" by (rule le_less_trans [OF scaled_ge assms(5)])
  have l: "size_chars (ds @ u) (ds @ u) True 0 0 = size_chars (ds @ u) u False (of_nat ?n) 0"
    using size_chars_digits [of ds 0 True] assms(1,2) n by simp
  have e: "size_chars (ds @ u) u False (of_nat ?n) 0 = (of_nat ?n, k, 0, [])"
    using assms(3) by (auto simp: unit_of_def split: list.splits if_splits)
  have gt: "0 < (of_nat ?n :: u64)" using pos n by (simp add: word_less_nat_alt unat_of_nat)
  have ge: "\<not> (of_nat (?n * 1024 ^ k) :: u64) < minimumDiskSize"
    using assms(4,5) by (simp add: word_less_nat_alt unat_of_nat minimumDiskSize_def del: of_nat_mult)
  have s: "(if k > 0 then scale_loop k (of_nat ?n) (0, []) else (of_nat ?n, 0, [])) = (of_nat (?n * 1024 ^ k), 0, [])"
    using scale_loop_ok [OF pos assms(5), of 0 "[]"] by auto
  show ?thesis using l e gt ge s by (auto simp: disk_size_def Let_def split: if_splits)
qed

text \<open>The test for overflow misses a size whose product with 10 wraps around to something larger.\<close>

lemma disk_size_wraps:
  "disk_size ''30000000000000000000'' = (30000000000000000000, 0, []) \<and>
   unat (30000000000000000000 :: u64) = 11553255926290448384"
  by (simp add: disk_size_def is_digit_def digit_def minimumDiskSize_def)

section \<open>Writing the disk\<close>

lemma fwrite_out: "fwrite c bs (out_text t s) = (fst (fwrite c bs s), out_text t (snd (fwrite c bs s)))"
  by (simp add: fwrite_def Let_def out_text_disk)

lemma fseek_out: "fseek off (out_text t s) = out_text t (fseek off s)"
  by (simp add: fseek_def out_text_disk)

lemma fwrite_end:
  assumes "disk_pos s = length (disk s)" "disk_pos s + length bs \<le> capacity c"
  shows "fwrite c bs s = (True, s\<lparr>disk := disk s @ bs, disk_pos := disk_pos s + length bs\<rparr>)"
proof -
  have "length bs \<le> capacity c - disk_pos s" using assms(2) by simp
  then show ?thesis using assms(1) by (cases s) (auto simp: fwrite_def Let_def patch_def)
qed

lemma fill_zeros_ok:
  "w \<le> d \<Longrightarrow> unat d \<le> capacity c \<Longrightarrow> disk s = replicate (unat w) 0 \<Longrightarrow> disk_pos s = unat w \<Longrightarrow>
   \<exists>t. fill_zeros c d w s = (0, out_text t (s\<lparr>disk := replicate (unat d) 0, disk_pos := unat d\<rparr>))"
proof (induction "unat d - unat w" arbitrary: w s rule: less_induct)
  case less
  show ?case
  proof (cases "w < d")
    case False
    then have "w = d" using less.prems(1) by simp
    then have "s\<lparr>disk := replicate (unat d) 0, disk_pos := unat d\<rparr> = s" using less.prems(3,4) by (cases s) simp
    then show ?thesis using False by (subst fill_zeros.simps) auto
  next
    case True
    define chunk where "chunk = (if of_nat bufferSize > d - w then d - w else of_nat bufferSize)"
    have ch: "0 < unat chunk" "unat (w + chunk) = unat w + unat chunk" "unat w + unat chunk \<le> unat d"
      using fill_step [OF True, folded chunk_def] by (simp_all add: Let_def)
    let ?s = "s\<lparr>disk := replicate (unat (w + chunk)) 0, disk_pos := unat (w + chunk)\<rparr>"
    obtain t where t: "show_progress c w d s = out_text t s" by (simp add: show_progress_def)
    have "fwrite c (replicate (unat chunk) 0) s = (True, ?s)"
      using less.prems ch by (subst fwrite_end) (simp_all add: replicate_add)
    then have step: "fill_zeros c d w s = fill_zeros c d (w + chunk) (out_text t ?s)"
      using True by (subst fill_zeros.simps) (simp add: t fwrite_out chunk_def [symmetric] Let_def)
    have "\<exists>u. fill_zeros c d (w + chunk) (out_text t ?s) =
        (0, out_text u ((out_text t ?s)\<lparr>disk := replicate (unat d) 0, disk_pos := unat d\<rparr>))"
      using ch less.prems by (intro less.hyps) (simp_all add: word_le_nat_alt)
    then show ?thesis unfolding step by (auto simp: out_text_disk)
  qed
qed

definition tag :: "u8 list" where
  "tag = map byte ''BMFS'' @ replicate 508 0"

lemma length_tag [simp]: "length tag = 512"
  by (simp add: tag_def)

lemma format_disk_ok:
  assumes "8192 \<le> length (disk s)" "length (disk s) \<le> capacity c"
  shows "format_disk c s = out_text ''Format complete.\<newline>'' (s\<lparr>DiskInfo := tag, Directory := replicate 4096 0,
    disk := patch 4096 (replicate 4096 0) (patch 1024 tag (disk s)), disk_pos := 8192\<rparr>)"
  using assms unfolding format_disk_def tag_def [symmetric] by (simp add: Let_def fseek_in fwrite_in flush_in)

lemma copy_file_ok:
  "disk_pos s + length bs \<le> length (disk s) \<Longrightarrow> length (disk s) \<le> capacity c \<Longrightarrow> \<not> disk_error s \<Longrightarrow>
   copy_file c nm bs (ret, s) =
     (ret, s\<lparr>disk := patch (disk_pos s) bs (disk s), disk_pos := disk_pos s + length bs\<rparr>)"
proof (induction "length bs" arbitrary: bs s rule: less_induct)
  case less
  show ?case
  proof (cases "bs = []")
    case True
    then show ?thesis using less.prems(3) by (subst copy_file.simps) simp
  next
    case False
    let ?a = "take bufferSize bs" and ?b = "drop bufferSize bs"
    let ?s = "s\<lparr>disk := patch (disk_pos s) ?a (disk s), disk_pos := disk_pos s + length ?a\<rparr>"
    have ne: "?a \<noteq> []" using False by (simp add: bufferSize_def)
    have l: "length ?a + length ?b = length bs" by simp
    have "fwrite c ?a s = (True, ?s)" using less.prems l by (intro fwrite_in) linarith+
    then have step: "copy_file c nm bs (ret, s) = copy_file c nm ?b (ret, ?s)"
      using ne by (subst copy_file.simps) simp
    have ld: "length (patch (disk_pos s) ?a (disk s)) = length (disk s)"
      using less.prems(1) l by (intro length_patch) linarith
    have "copy_file c nm ?b (ret, ?s) =
        (ret, ?s\<lparr>disk := patch (disk_pos ?s) ?b (disk ?s), disk_pos := disk_pos ?s + length ?b\<rparr>)"
    proof (rule less.hyps)
      show "length ?b < length bs" using False by (simp add: bufferSize_def)
      show "disk_pos ?s + length ?b \<le> length (disk ?s)" using less.prems(1) l ld by simp
    qed (use less.prems ld in simp_all)
    also have "patch (disk_pos ?s) ?b (disk ?s) = patch (disk_pos s) bs (disk s)"
      using patch_patch [of "disk_pos s" ?a ?b "disk s"] less.prems(1) l by simp
    finally show ?thesis unfolding step by simp
  qed
qed

section \<open>The steps of initialize\<close>

definition content_of :: "(string \<times> u8 list) option \<Rightarrow> u8 list" where
  "content_of f = (case f of None \<Rightarrow> [] | Some (_, bs) \<Rightarrow> bs)"

lemma write_mbr_ok:
  assumes "512 \<le> length (disk s)" "length (disk s) \<le> capacity c" "f \<noteq> None \<longrightarrow> 512 \<le> length (content_of f)"
  shows "\<exists>t p. write_mbr c f (0, s) =
    (0, out_text t (s\<lparr>disk := patch 0 (take 512 (content_of f)) (disk s), disk_pos := p\<rparr>))"
proof (cases f)
  case None
  have "s = out_text [] (s\<lparr>disk := patch 0 (take 512 (content_of f)) (disk s), disk_pos := disk_pos s\<rparr>)"
    using None by (cases s) (simp add: content_of_def out_text_def print_def)
  moreover have "write_mbr c f (0, s) = (0, s)" using None by (simp add: write_mbr_def)
  ultimately show ?thesis by metis
next
  case (Some a)
  obtain nm bs where a: "a = (nm, bs)" by fastforce
  show ?thesis
    using assms Some a by (auto simp: write_mbr_def content_of_def fseek_out fwrite_out fseek_in fwrite_in out_text_disk)
qed

lemma write_boot_ok:
  assumes "8192 + length (content_of f) \<le> length (disk s)" "length (disk s) \<le> capacity c" "\<not> disk_error s"
  shows "\<exists>t p. write_boot c what f (0, s) = (0, out_text t (s\<lparr>disk := patch 8192 (content_of f) (disk s), disk_pos := p\<rparr>)) \<and>
    (f \<noteq> None \<longrightarrow> p = 8192 + length (content_of f))"
proof (cases f)
  case None
  have "s = out_text [] (s\<lparr>disk := patch 8192 (content_of f) (disk s), disk_pos := disk_pos s\<rparr>)"
    using None by (cases s) (simp add: content_of_def out_text_def print_def)
  moreover have "write_boot c what f (0, s) = (0, s)" using None by (simp add: write_boot_def)
  ultimately show ?thesis using None by metis
next
  case (Some a)
  obtain nm bs where a: "a = (nm, bs)" by fastforce
  let ?s = "fseek 8192 (out_text (''Writing '' @ what @ '' file.\<newline>'') s)"
  have "write_boot c what f (0, s) = copy_file c nm bs (0, ?s)" using Some a by (simp add: write_boot_def)
  also have "\<dots> = (0, ?s\<lparr>disk := patch (disk_pos ?s) bs (disk ?s), disk_pos := disk_pos ?s + length bs\<rparr>)"
    using assms Some a by (intro copy_file_ok) (simp_all add: fseek_in content_of_def)
  finally show ?thesis using Some a by (auto simp: fseek_in content_of_def out_text_disk)
qed

lemma write_kernel_ok:
  assumes "disk_pos s + length (content_of f) \<le> length (disk s)" "length (disk s) \<le> capacity c" "\<not> disk_error s"
  shows "\<exists>t p. write_kernel c f (0, s) = (0, out_text t (s\<lparr>disk := patch (disk_pos s) (content_of f) (disk s), disk_pos := p\<rparr>))"
proof (cases f)
  case None
  have "s = out_text [] (s\<lparr>disk := patch (disk_pos s) (content_of f) (disk s), disk_pos := disk_pos s\<rparr>)"
    using None by (cases s) (simp add: content_of_def out_text_def print_def)
  moreover have "write_kernel c f (0, s) = (0, s)" using None by (simp add: write_kernel_def)
  ultimately show ?thesis by metis
next
  case (Some a)
  obtain nm bs where a: "a = (nm, bs)" by fastforce
  let ?s = "out_text ''Writing kernel.\<newline>'' s"
  have "write_kernel c f (0, s) = copy_file c nm bs (0, ?s)" using Some a by (simp add: write_kernel_def)
  also have "\<dots> = (0, ?s\<lparr>disk := patch (disk_pos ?s) bs (disk ?s), disk_pos := disk_pos ?s + length bs\<rparr>)"
    using assms Some a by (intro copy_file_ok) (simp_all add: content_of_def)
  finally show ?thesis using Some a by (auto simp: content_of_def out_text_disk)
qed

text \<open>The disk that \<open>initialize\<close> makes.\<close>

definition made_disk :: "nat \<Rightarrow> u8 list \<Rightarrow> u8 list \<Rightarrow> u8 list" where
  "made_disk n mbr loader =
     patch 8192 loader (patch 0 mbr (patch 4096 (replicate 4096 0) (patch 1024 tag (replicate n 0))))"

lemma make_disk_ok:
  assumes "8192 + length (content_of boot) + length (content_of kern) \<le> unat n" "unat n \<le> capacity c"
    and "mbr \<noteq> None \<longrightarrow> 512 \<le> length (content_of mbr)" "boot = None \<longrightarrow> kern = None"
  shows "\<exists>t s1. make_disk c n what mbr boot kern s = (0, close_disk (out_text t s1)) \<and>
    disk s1 = made_disk (unat n) (take 512 (content_of mbr)) (content_of boot @ content_of kern) \<and>
    on_host s1 = on_host s \<and> diskname s1 = diskname s"
proof -
  let ?s0 = "s\<lparr>disk := [], disk_pos := 0, disk_error := False\<rparr>"
  let ?M = "take 512 (content_of mbr)" and ?B = "content_of boot" and ?K = "content_of kern"
  let ?Z = "replicate (unat n) 0 :: u8 list"
  obtain t0 where f0: "fill_zeros c n 0 ?s0 = (0, out_text t0 (?s0\<lparr>disk := ?Z, disk_pos := unat n\<rparr>))"
    using fill_zeros_ok [of 0 n c ?s0] assms(2) by auto
  let ?D1 = "patch 4096 (replicate 4096 0) (patch 1024 tag ?Z)"
  define s1 where "s1 = ?s0\<lparr>DiskInfo := tag, Directory := replicate 4096 0, disk := ?D1, disk_pos := 8192\<rparr>"
  have "format_disk c (out_text t0 (s\<lparr>disk := ?Z, disk_pos := 0, disk_error := False\<rparr>)) =
      out_text (t0 @ ''Format complete.\<newline>'') s1"
    using assms(1,2) by (subst format_disk_ok) (simp_all add: s1_def out_text_disk)
  then obtain t1 where f1: "format_disk c (out_text t0 (s\<lparr>disk := ?Z, disk_pos := 0, disk_error := False\<rparr>)) = out_text t1 s1"
    by blast
  have l1: "length ?D1 = unat n" using assms(1) by simp
  have d1: "disk (out_text t1 s1) = ?D1" "\<not> disk_error (out_text t1 s1)" by (simp_all add: s1_def)
  obtain t2 p2 where f2: "write_mbr c mbr (0, out_text t1 s1) =
      (0, out_text t2 ((out_text t1 s1)\<lparr>disk := patch 0 ?M ?D1, disk_pos := p2\<rparr>))"
    using write_mbr_ok [of "out_text t1 s1" c mbr] assms l1 d1(1) by auto
  define s2 where "s2 = s1\<lparr>disk := patch 0 ?M ?D1, disk_pos := p2\<rparr>"
  have g2: "out_text t2 ((out_text t1 s1)\<lparr>disk := patch 0 ?M ?D1, disk_pos := p2\<rparr>) = out_text (t1 @ t2) s2"
    by (simp add: s2_def out_text_disk)
  have l2: "length (disk s2) = unat n" using l1 assms(1) by (simp add: s2_def)
  have e2: "\<not> disk_error s2" by (simp add: s2_def s1_def)
  obtain t3 p3 where f3: "write_boot c what boot (0, out_text (t1 @ t2) s2) =
      (0, out_text t3 ((out_text (t1 @ t2) s2)\<lparr>disk := patch 8192 ?B (disk s2), disk_pos := p3\<rparr>))"
    and p3: "boot \<noteq> None \<longrightarrow> p3 = 8192 + length ?B"
    using write_boot_ok [of boot "out_text (t1 @ t2) s2" c what] assms(1,2) l2 e2 by auto
  define s3 where "s3 = s2\<lparr>disk := patch 8192 ?B (disk s2), disk_pos := p3\<rparr>"
  have g3: "out_text t3 ((out_text (t1 @ t2) s2)\<lparr>disk := patch 8192 ?B (disk s2), disk_pos := p3\<rparr>) =
      out_text (t1 @ t2 @ t3) s3" by (simp add: s3_def out_text_disk)
  have l3: "length (disk s3) = unat n" using l2 assms(1) by (simp add: s3_def)
  have e3: "\<not> disk_error s3" using e2 by (simp add: s3_def)
  have k3: "kern = None \<or> disk_pos s3 = 8192 + length ?B" using p3 assms(4) by (auto simp: s3_def)
  obtain t4 p4 where f4: "write_kernel c kern (0, out_text (t1 @ t2 @ t3) s3) =
      (0, out_text t4 ((out_text (t1 @ t2 @ t3) s3)\<lparr>disk := patch (disk_pos s3) ?K (disk s3), disk_pos := p4\<rparr>))"
  proof (cases "kern = None")
    case True
    have "s3 = s3\<lparr>disk := disk s3, disk_pos := disk_pos s3\<rparr>" by simp
    then have "write_kernel c kern (0, out_text (t1 @ t2 @ t3) s3) =
      (0, out_text [] ((out_text (t1 @ t2 @ t3) s3)\<lparr>disk := patch (disk_pos s3) ?K (disk s3), disk_pos := disk_pos s3\<rparr>))"
      using True by (simp add: write_kernel_def content_of_def out_text_disk)
    then show thesis by (rule that)
  next
    case False
    then show thesis
      using write_kernel_ok [of "out_text (t1 @ t2 @ t3) s3" kern c] assms(1,2) l3 e3 k3 that by auto
  qed
  let ?s4 = "s3\<lparr>disk := patch (disk_pos s3) ?K (disk s3), disk_pos := p4\<rparr>"
  have "make_disk c n what mbr boot kern s = (0, close_disk (out_text (t1 @ t2 @ t3 @ t4) ?s4))"
    unfolding make_disk_def by (simp add: f0 f1 f2 [unfolded g2] f3 [unfolded g3] f4 out_text_disk Let_def)
  moreover have "disk ?s4 = made_disk (unat n) ?M (?B @ ?K)"
  proof (cases "kern = None")
    case True
    then show ?thesis by (simp add: content_of_def s3_def s2_def made_disk_def)
  next
    case False
    then have "disk_pos s3 = 8192 + length ?B" using k3 by blast
    then show ?thesis
      using patch_patch [of 8192 ?B ?K "patch 0 ?M ?D1"] l1 assms(1) by (simp add: s3_def s2_def made_disk_def)
  qed
  ultimately show ?thesis by (intro exI [of _ "t1 @ t2 @ t3 @ t4"] exI [of _ ?s4]) (simp add: s3_def s2_def s1_def)
qed

section \<open>The disk that is made\<close>

lemma length_made_disk [simp]:
  "length mbr \<le> 512 \<Longrightarrow> 8192 + length loader \<le> n \<Longrightarrow> length (made_disk n mbr loader) = n"
  by (simp add: made_disk_def)

lemma made_disk_pieces:
  assumes "length mbr \<le> 512" "8192 + length loader \<le> n"
  shows "dir_of (made_disk n mbr loader) = replicate 4096 0" "piece 1024 512 (made_disk n mbr loader) = tag"
    "piece 0 (length mbr) (made_disk n mbr loader) = mbr" "piece 8192 (length loader) (made_disk n mbr loader) = loader"
  using assms by (simp_all add: made_disk_def dir_of_def piece_patch_other piece_patch_same)

lemma entry_at_zeros: "i < 64 \<Longrightarrow> entry_at (replicate 4096 0) i = replicate 64 0"
  by (simp add: entry_at_piece piece_replicate)

lemma empty_dir:
  shows "compact 0 (replicate 4096 0)" "\<not> valid (replicate 4096 0) i" "nb < 2 ^ 31 \<Longrightarrow> dir_ok nb (replicate 4096 0)"
proof -
  show "compact 0 (replicate 4096 0)" by (simp add: compact_def entry_at_zeros)
  then show "\<not> valid (replicate 4096 0) i" for i using compact_valid by blast
  then show "nb < 2 ^ 31 \<Longrightarrow> dir_ok nb (replicate 4096 0)" by (simp add: dir_ok_def)
qed

lemma made_disk_ok:
  assumes "length mbr \<le> 512" "8192 + length loader \<le> n" "n < 2 ^ 52"
  shows "disk_ok (made_disk n mbr loader)" "bm_files (made_disk n mbr loader) = Map.empty"
proof -
  have d: "dir_of (made_disk n mbr loader) = replicate 4096 0" by (rule made_disk_pieces(1) [OF assms(1,2)])
  have "blocks (made_disk n mbr loader) < 2 ^ 31" using assms by (simp add: blocks_def)
  then show "disk_ok (made_disk n mbr loader)" using assms d empty_dir(3) by (simp add: disk_ok_def)
  show "bm_files (made_disk n mbr loader) = Map.empty"
  proof
    fix nm
    have "lookup (replicate 4096 0) nm = None"
      using lookup_Some [of "replicate 4096 0" nm] empty_dir(2) by (cases "lookup (replicate 4096 0) nm") auto
    then show "bm_files (made_disk n mbr loader) nm = None" by (simp add: bm_files_def d)
  qed
qed

definition file_bytes :: "host \<Rightarrow> string option \<Rightarrow> u8 list" where
  "file_bytes h f = (case f of None \<Rightarrow> [] | Some nm \<Rightarrow> the (files h nm))"

lemma open_file_ok: "f \<noteq> None \<longrightarrow> files (on_host s) (the f) \<noteq> None \<Longrightarrow> open_file f what (0, s) = (0, s)"
  by (auto simp: open_file_def split: option.split)

text \<open>The files that \<open>initialize\<close> reads: they exist, and none of them is the disk.\<close>

definition readable :: "host \<Rightarrow> string \<Rightarrow> string option \<Rightarrow> bool" where
  "readable h dn f \<longleftrightarrow> (case f of None \<Rightarrow> True | Some nm \<Rightarrow> files h nm \<noteq> None \<and> nm \<noteq> dn)"

lemma content_of_with: "content_of (with_content h f) = file_bytes h f"
  by (auto simp: content_of_def with_content_def file_bytes_def split: option.split)

lemma initialize_ok:
  assumes "disk_size sz = (n, 0, [])" and "malloc_ok c" and "can_create (on_host s) (diskname s)"
    and "readable (on_host s) (diskname s) mbr" "readable (on_host s) (diskname s) boot"
      "readable (on_host s) (diskname s) kern" "boot = None \<longrightarrow> kern = None"
    and "mbr \<noteq> None \<longrightarrow> 512 \<le> length (file_bytes (on_host s) mbr)"
    and "8192 + length (file_bytes (on_host s) boot @ file_bytes (on_host s) kern) \<le> unat n" "unat n \<le> capacity c"
  shows "\<exists>s'. initialize c sz mbr boot kern s = Some (0, s') \<and> can_create (on_host s') = can_create (on_host s) \<and>
    files (on_host s') = (files (on_host s))(diskname s \<mapsto> made_disk (unat n) (take 512 (file_bytes (on_host s) mbr))
      (file_bytes (on_host s) boot @ file_bytes (on_host s) kern))"
proof -
  let ?h = "on_host s"
  define what where "what = (if kern = None then ''system'' else ''boot loader'')"
  obtain t s1 where m: "make_disk c n what (with_content ?h mbr) (with_content ?h boot) (with_content ?h kern) (out_text [] s) =
      (0, close_disk (out_text t s1))"
    and s1: "disk s1 = made_disk (unat n) (take 512 (file_bytes ?h mbr)) (file_bytes ?h boot @ file_bytes ?h kern)"
      "on_host s1 = on_host (out_text [] s)" "diskname s1 = diskname (out_text [] s)"
    using make_disk_ok [of "with_content ?h boot" "with_content ?h kern" n c "with_content ?h mbr" what "out_text [] s"] assms
    by (auto simp: content_of_with) (auto simp: with_content_def)
  have say0: "out_text [] s = s" by (cases s) (simp add: out_text_def print_def)
  have o: "open_file kern ''kernel'' (open_file boot what (open_file mbr ''MBR'' (0, out_text [] s))) = (0, s)"
    using assms(4-6) by (subst open_file_ok, auto simp: readable_def say0 split: option.splits)+
  have ne: "Some (diskname s) \<notin> {mbr, boot, kern}"
    using assms(4-6) by (auto simp: readable_def)
  have "initialize c sz mbr boot kern s =
      Some (0, out_text ''Disk initialization complete.\<newline>'' (close_disk (out_text t s1)))"
    using assms(1-3) ne m o unfolding initialize_def what_def [symmetric] by (simp add: Let_def say0)
  then show ?thesis using s1 unfolding say0 by (simp add: close_disk_def)
qed

end
