(* ===== verification/Bmfs_Host.thy ===== *)
theory Bmfs_Host
  imports Bmfs_Init
begin

text \<open>
  Runs of the BMFS tool on a disk of the host: what one command line does to the files of the disk and to
  those of the host, as a run of \<open>main\<close>.
\<close>

section \<open>A disk on the host\<close>

definition formatted :: "u8 list \<Rightarrow> bool" where
  "formatted D \<longleftrightarrow> same_text (map chr_of (piece 1024 512 D)) ''BMFS''"

definition has_disk :: "libc \<Rightarrow> host \<Rightarrow> string \<Rightarrow> u8 list \<Rightarrow> bool" where
  "has_disk c h dn D \<longleftrightarrow> files h dn = Some D \<and> disk_ok D \<and> formatted D \<and> length D \<le> capacity c"

text \<open>The files of the host apart from the disk.\<close>

definition local_files :: "host \<Rightarrow> string \<Rightarrow> string \<Rightarrow> u8 list option" where
  "local_files h dn = (files h)(dn := None)"

lemma formatted_tag: "piece 1024 512 D = tag \<Longrightarrow> formatted D"
proof -
  assume t: "piece 1024 512 D = tag"
  have "chr_of 0 = NUL" using chr_of_byte [of NUL] by (simp add: byte_def)
  then have "map chr_of tag = ''BMFS'' @ NUL # replicate 507 NUL"
    by (simp add: tag_def comp_def flip: replicate_Suc)
  then show ?thesis unfolding formatted_def t same_text_def by simp
qed

lemma open_disk_simps [simp]:
  "disk (open_disk nm D h) = D" "on_host (open_disk nm D h) = h" "diskname (open_disk nm D h) = nm"
  by (simp_all add: open_disk_def)

lemma read_into_all: "p + n \<le> length d \<Longrightarrow> length buf = n \<Longrightarrow> read_into p n d buf = piece p n d"
  by (cases "n = 0") (auto simp: read_into_def piece_def patch_def)

lemma open_disk_opened:
  assumes "has_disk c h dn D"
  shows "opened c (open_disk dn D h)" "Directory (open_disk dn D h) = dir_of D"
    "same_text (map chr_of (DiskInfo (open_disk dn D h))) ''BMFS''"
proof -
  have ok: "disk_ok D" "formatted D" "length D \<le> capacity c" and len: "8192 \<le> length D"
    using assms dir_of_length by (auto simp: has_disk_def)
  have "length D div 1048576 < 2 ^ 32" using ok(1) by (intro less_mult_imp_div_less) (simp add: disk_ok_def)
  then have "unat (of_nat (length D div 1048576) :: u32) = length D div 1048576" by (simp add: unat_of_nat)
  moreover show "Directory (open_disk dn D h) = dir_of D"
    using len by (simp add: open_disk_def read_into_all dir_of_def)
  ultimately show "opened c (open_disk dn D h)"
    using ok by (simp add: opened_def) (simp add: open_disk_def)
  show "same_text (map chr_of (DiskInfo (open_disk dn D h))) ''BMFS''"
    using ok(2) len by (simp add: open_disk_def read_into_all formatted_def)
qed

text \<open>A command that keeps the disk well formed, as a run of \<open>main\<close>.\<close>

lemma main_on_disk:
  assumes "has_disk c h dn D" "\<not> same_text ''initialize'' cmd"
  shows "bmfs_main c (prog # dn # cmd # av) h =
    map_option (\<lambda>s. (0, on_host (close_disk s))) (disk_command c (prog # dn # cmd # av) (open_disk dn D h))"
  using assms open_disk_opened(3) [OF assms(1)] by (simp add: bmfs_main_def has_disk_def)

lemma close_ok:
  assumes "opened c s'" "same_rest (open_disk dn D h) s'" "has_disk c h dn D"
  shows "has_disk c (on_host (close_disk s')) dn (disk s')" "can_create (on_host (close_disk s')) = can_create h"
    "local_files (on_host (close_disk s')) dn = (files (on_host s'))(dn := None)"
  using assms by (simp_all add: has_disk_def same_rest_def close_disk_def formatted_def opened_def local_files_def)

lemma words:
  "\<not> same_text ''initialize'' ''create''" "\<not> same_text ''initialize'' ''read''"
  "\<not> same_text ''initialize'' ''write''" "\<not> same_text ''initialize'' ''delete''"
  "same_text ''initialize'' ''initialize''"
  by code_simp+

lemma commands:
  "disk_command c (prog # dn # ''create'' # av) s = create_command c (prog # dn # ''create'' # av) s"
  "disk_command c (prog # dn # ''read'' # av) s = bm_read (arg (prog # dn # ''read'' # av) 3) s"
  "disk_command c (prog # dn # ''write'' # av) s = bm_write c (arg (prog # dn # ''write'' # av) 3) s"
  "disk_command c (prog # dn # ''delete'' # av) s = bm_delete c (arg (prog # dn # ''delete'' # av) 3) s"
proof -
  have "\<forall>a \<in> set [''list'', ''format'', ''create'', ''read'', ''write'', ''delete''].
    \<forall>b \<in> set [''create'', ''read'', ''write'', ''delete'']. same_text a b = (a = b)" by code_simp
  then show "disk_command c (prog # dn # ''create'' # av) s = create_command c (prog # dn # ''create'' # av) s"
    "disk_command c (prog # dn # ''read'' # av) s = bm_read (arg (prog # dn # ''read'' # av) 3) s"
    "disk_command c (prog # dn # ''write'' # av) s = bm_write c (arg (prog # dn # ''write'' # av) 3) s"
    "disk_command c (prog # dn # ''delete'' # av) s = bm_delete c (arg (prog # dn # ''delete'' # av) 3) s"
    unfolding disk_command_def by (simp_all add: Let_def)
qed

section \<open>The commands as operations on two maps\<close>

datatype disk_op = Write_file string | Read_file string | Delete_file string

fun op_file :: "disk_op \<Rightarrow> string" where
  "op_file (Write_file f) = f"
| "op_file (Read_file f) = f"
| "op_file (Delete_file f) = f"

fun op_line :: "string \<Rightarrow> string \<Rightarrow> disk_op \<Rightarrow> string list" where
  "op_line prog dn (Write_file f) = [prog, dn, ''write'', f]"
| "op_line prog dn (Read_file f) = [prog, dn, ''read'', f]"
| "op_line prog dn (Delete_file f) = [prog, dn, ''delete'', f]"

text \<open>The files of the disk with the blocks reserved for them, and those of the host.\<close>

type_synonym store = "(string \<Rightarrow> (nat \<times> u8 list) option) \<times> (string \<Rightarrow> u8 list option)"

fun spec_op :: "(string \<Rightarrow> bool) \<Rightarrow> disk_op \<Rightarrow> store \<Rightarrow> store" where
  "spec_op can (Write_file f) (m, g) =
     (case (m f, g f) of
        (Some (r, _), Some bs) \<Rightarrow> if length bs \<le> r * block_size then (m(f \<mapsto> (r, bs)), g) else (m, g)
      | _ \<Rightarrow> (m, g))"
| "spec_op can (Read_file f) (m, g) =
     (case m f of Some (r, bs) \<Rightarrow> if can f then (m, g(f \<mapsto> bs)) else (m, g) | None \<Rightarrow> (m, g))"
| "spec_op can (Delete_file f) (m, g) = (m(f := None), g)"

text \<open>Several runs of the tool, one after the other.\<close>

fun bmfs_runs :: "libc \<Rightarrow> string list list \<Rightarrow> host \<Rightarrow> host option" where
  "bmfs_runs c [] h = Some h"
| "bmfs_runs c (argv # lines) h =
     (case bmfs_main c argv h of None \<Rightarrow> None | Some (_, h') \<Rightarrow> bmfs_runs c lines h')"

definition files_small :: "store \<Rightarrow> bool" where
  "files_small st \<longleftrightarrow> (\<forall>f r bs. fst st f = Some (r, bs) \<longrightarrow> length bs < 2 ^ 31) \<and>
     (\<forall>f bs. snd st f = Some bs \<longrightarrow> length bs < 2 ^ 31)"

lemma files_small_op: "files_small st \<Longrightarrow> files_small (spec_op can op st)"
  by (cases st; cases op) (auto simp: files_small_def split: option.splits prod.splits if_splits)

definition store_of :: "host \<Rightarrow> string \<Rightarrow> u8 list \<Rightarrow> store" where
  "store_of h dn D = (bm_files D, local_files h dn)"

text \<open>Names that are not in the directory, and files that are not on the host.\<close>

lemma missing:
  assumes "bm_files (disk s) f = None" "Directory s = dir_of (disk s)"
  shows "\<exists>t. bm_read (Some f) s = Some (out_text t s)" "\<exists>t. bm_write c (Some f) s = Some (out_text t s)"
    "\<exists>t. bm_delete c (Some f) s = Some (out_text t s)"
  using assms by (auto simp: bm_files_def bm_read_def bm_write_def bm_delete_def findfile_lookup)

lemma no_local_file:
  assumes "files (on_host s) f = None"
  shows "\<exists>t. bm_write c (Some f) s = Some (out_text t s)"
  using assms by (auto simp: bm_write_def findfile_lookup Let_def split: option.splits)

lemma no_create:
  assumes "\<not> can_create (on_host s) f"
  shows "\<exists>t. bm_read (Some f) s = Some (out_text t s)"
  using assms lookup_Some [of "Directory s" f]
  by (auto simp: bm_read_def findfile_lookup Let_def split: option.splits)

text \<open>One run of the tool, and many.\<close>

lemma store_close:
  assumes "opened c s'" "same_rest (open_disk dn D h) s'" "has_disk c h dn D"
  shows "\<exists>h' D'. map_option (\<lambda>s. (0 :: int, on_host (close_disk s))) (Some s') = Some (0, h') \<and> has_disk c h' dn D' \<and>
    can_create h' = can_create h \<and> store_of h' dn D' = (bm_files (disk s'), (files (on_host s'))(dn := None))"
  using close_ok [OF assms] by (auto simp: store_of_def)

lemma same_rest_refl: "same_rest s s"
  by (simp add: same_rest_def)

text \<open>The run \<open>line\<close> of the tool goes well, and leaves the files of the disk and of the host as \<open>st\<close>.\<close>

definition run_gives :: "libc \<Rightarrow> string list \<Rightarrow> host \<Rightarrow> string \<Rightarrow> store \<Rightarrow> bool" where
  "run_gives c line h dn st \<longleftrightarrow>
     (\<exists>h' D'. bmfs_main c line h = Some (0, h') \<and> has_disk c h' dn D' \<and> can_create h' = can_create h \<and>
       store_of h' dn D' = st)"

lemma run_givesI:
  assumes "bmfs_main c line h = map_option (\<lambda>s. (0, on_host (close_disk s))) (Some s')"
    and "opened c s'" "same_rest (open_disk dn D h) s'" "has_disk c h dn D"
    and "(bm_files (disk s'), (files (on_host s'))(dn := None)) = st"
  shows "run_gives c line h dn st"
  using store_close [OF assms(2-4)] assms(1,5) unfolding run_gives_def by auto

lemma run_gives_idle:
  assumes "bmfs_main c line h = map_option (\<lambda>s. (0, on_host (close_disk s))) (Some (out_text t (open_disk dn D h)))"
    and "has_disk c h dn D"
  shows "run_gives c line h dn (store_of h dn D)"
  by (rule run_givesI [OF assms(1)])
    (use open_disk_opened(1) [OF assms(2)] assms(2) in \<open>simp_all add: same_rest_refl store_of_def local_files_def\<close>)

lemma delete_op:
  assumes d: "has_disk c h dn D"
  shows "run_gives c [prog, dn, ''delete'', f] h dn ((bm_files D)(f := None), local_files h dn)"
proof -
  let ?s = "open_disk dn D h"
  note op = open_disk_opened [OF d]
  have run: "bmfs_main c [prog, dn, ''delete'', f] h =
      map_option (\<lambda>s. (0, on_host (close_disk s))) (bm_delete c (Some f) ?s)"
    using main_on_disk [OF d words(4)] by (simp add: commands arg_def)
  show ?thesis
  proof (cases "bm_files D f")
    case None
    then obtain t where "bm_delete c (Some f) ?s = Some (out_text t ?s)" using missing(3) [of ?s f] op(2) by auto
    from run_gives_idle [OF run [unfolded this] d] None show ?thesis by (simp add: store_of_def fun_upd_idem)
  next
    case (Some a)
    then obtain s' where s': "bm_delete c (Some f) ?s = Some s'" "opened c s'" "same_rest ?s s'"
      "bm_files (disk s') = (bm_files D)(f := None)" "files (on_host s') = files h"
      using delete_file_ok [OF op(1), of f] by auto
    show ?thesis by (rule run_givesI [OF run [unfolded s'(1)] s'(2,3) d]) (simp add: s' local_files_def)
  qed
qed

lemma read_op:
  assumes d: "has_disk c h dn D" and ne: "f \<noteq> dn" and small: "files_small (store_of h dn D)"
  shows "run_gives c [prog, dn, ''read'', f] h dn (spec_op (can_create h) (Read_file f) (store_of h dn D))"
proof -
  let ?s = "open_disk dn D h"
  note op = open_disk_opened [OF d]
  have run: "bmfs_main c [prog, dn, ''read'', f] h = map_option (\<lambda>s. (0, on_host (close_disk s))) (bm_read (Some f) ?s)"
    using main_on_disk [OF d words(2)] by (simp add: commands arg_def)
  consider "bm_files D f = None" | "\<not> can_create h f" | r bs where "bm_files D f = Some (r, bs)" "can_create h f"
    by (cases "bm_files D f") auto
  then show ?thesis
  proof cases
    case 1
    then obtain t where "bm_read (Some f) ?s = Some (out_text t ?s)" using missing(1) [of ?s f] op(2) by auto
    from run_gives_idle [OF run [unfolded this] d] 1 show ?thesis by (simp add: store_of_def)
  next
    case 2
    then obtain t where "bm_read (Some f) ?s = Some (out_text t ?s)" using no_create [of ?s f] by auto
    moreover have "spec_op (can_create h) (Read_file f) (store_of h dn D) = store_of h dn D"
      using 2 by (auto simp: store_of_def split: option.split)
    ultimately show ?thesis using run_gives_idle [OF _ d] run by metis
  next
    case 3
    then have "length bs < 2 ^ 31" using small by (simp add: files_small_def store_of_def)
    then obtain s' where s': "bm_read (Some f) ?s = Some s'" "opened c s'" "same_rest ?s s'" "disk s' = D"
      "files (on_host s') = (files h)(f \<mapsto> bs)"
      using read_file_ok [OF op(1), of f r bs] 3 ne by auto
    show ?thesis by (rule run_givesI [OF run [unfolded s'(1)] s'(2,3) d])
      (use 3 ne in \<open>simp add: s' store_of_def local_files_def fun_upd_twist\<close>)
  qed
qed

lemma write_op:
  assumes d: "has_disk c h dn D" and ne: "f \<noteq> dn" and small: "files_small (store_of h dn D)"
  shows "run_gives c [prog, dn, ''write'', f] h dn (spec_op (can_create h) (Write_file f) (store_of h dn D))"
proof -
  let ?s = "open_disk dn D h"
  note op = open_disk_opened [OF d]
  have run: "bmfs_main c [prog, dn, ''write'', f] h =
      map_option (\<lambda>s. (0, on_host (close_disk s))) (bm_write c (Some f) ?s)"
    using main_on_disk [OF d words(3)] by (simp add: commands arg_def)
  have l: "local_files h dn f = files h f" using ne by (simp add: local_files_def)
  consider "bm_files D f = None" | "files h f = None" | r old bs where "bm_files D f = Some (r, old)" "files h f = Some bs"
    by (cases "bm_files D f"; cases "files h f") auto
  then show ?thesis
  proof cases
    case 1
    then obtain t where "bm_write c (Some f) ?s = Some (out_text t ?s)" using missing(2) [of ?s f] op(2) by auto
    from run_gives_idle [OF run [unfolded this] d] 1 show ?thesis by (simp add: store_of_def)
  next
    case 2
    then obtain t where "bm_write c (Some f) ?s = Some (out_text t ?s)" using no_local_file [of ?s f] by auto
    moreover have "spec_op (can_create h) (Write_file f) (store_of h dn D) = store_of h dn D"
      using 2 l by (auto simp: store_of_def split: option.split)
    ultimately show ?thesis using run_gives_idle [OF _ d] run by metis
  next
    case 3
    then have "length bs < 2 ^ 31" using small l by (simp add: files_small_def store_of_def)
    then obtain s' where s': "bm_write c (Some f) ?s = Some s'" "opened c s'" "same_rest ?s s'"
      "bm_files (disk s') = (if length bs \<le> r * block_size then (bm_files D)(f \<mapsto> (r, bs)) else bm_files D)"
      "files (on_host s') = files h"
      using write_file_ok [OF op(1), of f r old bs] 3 ne by auto
    show ?thesis by (rule run_givesI [OF run [unfolded s'(1)] s'(2,3) d])
      (use 3 l in \<open>auto simp: s' store_of_def local_files_def\<close>)
  qed
qed

lemma op_ok:
  assumes "has_disk c h dn D" "op_file op \<noteq> dn" "files_small (store_of h dn D)"
  shows "run_gives c (op_line prog dn op) h dn (spec_op (can_create h) op (store_of h dn D))"
proof (cases op)
  case (Delete_file f)
  then show ?thesis using delete_op [OF assms(1)] by (simp add: store_of_def)
qed (use read_op write_op assms in \<open>simp_all\<close>)

lemma runs_ok:
  "has_disk c h dn D \<Longrightarrow> \<forall>op \<in> set ops. op_file op \<noteq> dn \<Longrightarrow> files_small (store_of h dn D) \<Longrightarrow>
   \<exists>h' D'. bmfs_runs c (map (op_line prog dn) ops) h = Some h' \<and> has_disk c h' dn D' \<and>
     store_of h' dn D' = fold (spec_op (can_create h)) ops (store_of h dn D)"
proof (induction ops arbitrary: h D)
  case (Cons op ops)
  then obtain h' D' where run: "bmfs_main c (op_line prog dn op) h = Some (0, h')" and d': "has_disk c h' dn D'"
    and can: "can_create h' = can_create h" and st: "store_of h' dn D' = spec_op (can_create h) op (store_of h dn D)"
    using op_ok [OF Cons.prems(1), of op prog] unfolding run_gives_def by (auto simp: Cons.prems(3))
  have "files_small (store_of h' dn D')" unfolding st by (rule files_small_op [OF Cons.prems(3)])
  then show ?case using Cons.IH [OF d'] Cons.prems(2) run st can by simp
qed auto

section \<open>create and initialize, as runs of main\<close>

lemma atoi_bounds: "atoi t = Some m \<Longrightarrow> - (2 ^ 31) \<le> m \<and> m < 2 ^ 31"
  by (auto simp: atoi_def Let_def split: if_splits)

lemma create_run:
  assumes d: "has_disk c h dn D" and m: "atoi t = Some m" "1 \<le> m"
  shows "bmfs_main c [prog, dn, ''create'', f, t] h =
      map_option (\<lambda>s. (0, on_host (close_disk s))) (bm_create c f (word_of_int m) (open_disk dn D h))"
    and "unat (word_of_int m :: u64) = nat m" "nat m < 2 ^ 31"
proof -
  show "bmfs_main c [prog, dn, ''create'', f, t] h =
      map_option (\<lambda>s. (0, on_host (close_disk s))) (bm_create c f (word_of_int m) (open_disk dn D h))"
    using main_on_disk [OF d words(1)] m by (simp add: commands create_command_def arg_def)
  have b: "0 \<le> m" "m < 2 ^ 31" using m atoi_bounds by fastforce+
  then show "nat m < 2 ^ 31" by simp
  have "uint (word_of_int m :: u64) = m" using b by (simp add: uint_word_of_int)
  then show "unat (word_of_int m :: u64) = nat m" by (simp add: unat_eq_nat_uint)
qed

lemma create_op:
  assumes d: "has_disk c h dn D" and m: "atoi t = Some m" "1 \<le> m"
    and "compact n (dir_of D)" "sorts (qsort c)" "short_name f" "bm_files D f = None" "2 \<le> blocks D"
  defines "b \<equiv> (nat m + 1) div 2"
  defines "P \<equiv> \<lambda>p. 1 \<le> p \<and> fits (entries (dir_of D)) (blocks D) b p"
  shows "\<exists>h' D'. bmfs_main c [prog, dn, ''create'', f, t] h = Some (0, h') \<and> has_disk c h' dn D' \<and>
    can_create h' = can_create h \<and> length D' = length D \<and> local_files h' dn = local_files h dn \<and>
    (if \<exists>p. P p then
       bm_files D' = (bm_files D)(f \<mapsto> (b, [])) \<and> (n + 1 < 64 \<longrightarrow> compact (n + 1) (dir_of D')) \<and>
       (\<exists>w. unat w = b \<and> dir_of D' = add_entry f n n (of_nat (LEAST p. P p)) w (dir_of D))
     else bm_files D' = bm_files D \<and> dir_of D' = dir_of D)"
proof -
  let ?s = "open_disk dn D h" and ?m = "word_of_int m :: u64"
  note op = open_disk_opened [OF d]
  note run = create_run [OF d m]
  have m1: "1 \<le> unat ?m" "unat ?m < 2 ^ 63" using run(2,3) m(2) by simp_all
  have b: "(unat ?m + 1) div 2 = b" unfolding b_def run(2) ..
  from create_file_ok [of c ?s n f ?m, unfolded op(2) open_disk_simps b, folded P_def, OF op(1) assms(4-8) m1]
  obtain s' where s': "bm_create c f ?m ?s = Some s'" "opened c s'" "same_rest ?s s'" "files (on_host s') = files h"
    "if \<exists>p. P p then
       bm_files (disk s') = (bm_files D)(f \<mapsto> (b, [])) \<and> (n + 1 < 64 \<longrightarrow> compact (n + 1) (Directory s')) \<and>
       (\<exists>w. unat w = b \<and> Directory s' = add_entry f n n (of_nat (LEAST p. P p)) w (dir_of D))
     else disk s' = D \<and> Directory s' = dir_of D" by blast
  note cl = close_ok [OF s'(2,3) d]
  have dir: "Directory s' = dir_of (disk s')" using s'(2) by (simp add: opened_def)
  have len: "length (disk s') = length D" using s'(3) by (simp add: same_rest_def)
  have "local_files (on_host (close_disk s')) dn = local_files h dn" using cl(3) s'(4) by (simp add: local_files_def)
  then show ?thesis
    using s'(5) cl(1,2) len unfolding run(1) s'(1) dir
    by (intro exI [of _ "on_host (close_disk s')"] exI [of _ "disk s'"]) (auto split: if_splits)
qed

lemma initialize_op:
  fixes prog :: string
  assumes sz: "disk_size sz = (n, 0, [])" and "malloc_ok c" "can_create h dn"
    and "readable h dn mbr" "readable h dn boot" "readable h dn kern" "boot = None \<longrightarrow> kern = None"
    and "mbr = None \<longrightarrow> boot = None"
    and "mbr \<noteq> None \<longrightarrow> 512 \<le> length (file_bytes h mbr)"
    and "8192 + length (file_bytes h boot @ file_bytes h kern) \<le> unat n" "unat n \<le> capacity c" "unat n < 2 ^ 52"
  defines "D \<equiv> made_disk (unat n) (take 512 (file_bytes h mbr)) (file_bytes h boot @ file_bytes h kern)"
  defines "line \<equiv> [prog, dn, ''initialize'', sz] @ map the (takeWhile (\<lambda>x. x \<noteq> None) [mbr, boot, kern])"
  shows "\<exists>h'. bmfs_main c line h = Some (0, h') \<and> has_disk c h' dn D \<and> can_create h' = can_create h \<and>
    local_files h' dn = local_files h dn"
proof -
  let ?s = "open_disk dn [] h"
  obtain s' where s': "initialize c sz mbr boot kern ?s = Some (0, s')" "can_create (on_host s') = can_create h"
    "files (on_host s') = (files h)(dn \<mapsto> D)"
    using initialize_ok [of sz n c ?s mbr boot kern] assms by auto
  have a: "arg line 3 = Some sz" "arg line 4 = mbr" "arg line 5 = boot" "arg line 6 = kern"
    using assms(7,8) unfolding line_def arg_def by (cases mbr; cases boot; cases kern; simp)+
  have l: "\<not> length line < 3" "line ! 1 = dn" "line ! 2 = ''initialize''" by (simp_all add: line_def)
  have run: "bmfs_main c line h = Some (0, on_host s')"
    using words(5) s'(1) l(1) unfolding bmfs_main_def Let_def l(2,3) a by simp
  have mb: "length (take 512 (file_bytes h mbr)) \<le> 512" by simp
  note mk = made_disk_ok(1) [OF mb assms(10,12)] made_disk_pieces(2) [OF mb assms(10)]
  have "has_disk c (on_host s') dn D"
    using mk s'(3) assms(11) length_made_disk [OF mb assms(10)] formatted_tag
    unfolding has_disk_def D_def by simp
  then show ?thesis using run s'(2,3) by (simp add: local_files_def)
qed

end
