(* ===== verification/Bmfs_Overlap.thy ===== *)
theory Bmfs_Overlap
  imports Bmfs_Host
begin

text \<open>
  What \<open>create\<close> does after a \<open>delete\<close>: the search takes the end of a deleted entry for that of the last file,
  and may choose blocks that belong to another file. Also a sort, for concrete runs.
\<close>

section \<open>A sort\<close>

fun insert_by :: "('a \<Rightarrow> 'a \<Rightarrow> int) \<Rightarrow> 'a \<Rightarrow> 'a list \<Rightarrow> 'a list" where
  "insert_by cmp x [] = [x]"
| "insert_by cmp x (y # ys) = (if cmp x y \<le> 0 then x # y # ys else y # insert_by cmp x ys)"

definition insertion_sort :: "('a \<Rightarrow> 'a \<Rightarrow> int) \<Rightarrow> 'a list \<Rightarrow> 'a list" where
  "insertion_sort cmp xs = foldr (insert_by cmp) xs []"

lemma mset_insert_by [simp]: "mset (insert_by cmp x ys) = add_mset x (mset ys)"
  by (induction ys) simp_all

lemma sorted_insert_by:
  "\<forall>y \<in> set ys. cmp x y \<le> 0 \<longleftrightarrow> (key x :: nat) \<le> key y \<Longrightarrow> sorted (map key ys) \<Longrightarrow>
   sorted (map key (insert_by cmp x ys))"
proof (induction ys)
  case (Cons y ys)
  have "set (insert_by cmp x ys) = insert x (set ys)"
    using mset_insert_by [of cmp x ys] by (metis set_mset_add_mset_insert set_mset_mset)
  then show ?case using Cons by auto
qed simp

lemma insertion_sort_sorts: "sorts insertion_sort"
proof -
  have "mset (insertion_sort cmp xs) = mset xs \<and> sorted (map key (insertion_sort cmp xs))"
    if "distinct xs" "\<forall>x \<in> set xs. \<forall>y \<in> set xs. x \<noteq> y \<longrightarrow>
      (cmp x y < 0 \<longleftrightarrow> key x < key y) \<and> (cmp x y = 0 \<longleftrightarrow> key x = key y)"
    for cmp and xs :: "BMFSEntry list" and key :: "BMFSEntry \<Rightarrow> nat"
    using that
  proof (induction xs)
    case (Cons x xs)
    then have IH: "mset (insertion_sort cmp xs) = mset xs" "sorted (map key (insertion_sort cmp xs))" by simp_all
    have s: "set (insertion_sort cmp xs) = set xs" by (rule mset_eq_setD [OF IH(1)])
    have "cmp x y \<le> 0 \<longleftrightarrow> key x \<le> key y" if "y \<in> set xs" for y
      using Cons.prems that by (simp add: le_less) (metis less_le)
    then have "sorted (map key (insert_by cmp x (insertion_sort cmp xs)))"
      using IH(2) s by (intro sorted_insert_by) simp_all
    then show ?case using IH(1) by (simp add: insertion_sort_def)
  qed (simp add: insertion_sort_def)
  then show ?thesis unfolding sorts_def by blast
qed

section \<open>Deleting and reusing an entry\<close>

lemma delete_run:
  assumes d: "has_disk c h dn D" and "bm_files D f \<noteq> None"
  shows "\<exists>h' D' k. bmfs_main c [prog, dn, ''delete'', f] h = Some (0, h') \<and> has_disk c h' dn D' \<and>
    can_create h' = can_create h \<and> length D' = length D \<and> lookup (dir_of D) f = Some k \<and>
    dir_of D' = patch (64 * k) [1] (dir_of D) \<and> bm_files D' = (bm_files D)(f := None)"
proof -
  let ?s = "open_disk dn D h"
  note op = open_disk_opened [OF d]
  obtain s' k where s': "bm_delete c (Some f) ?s = Some s'" "opened c s'" "same_rest ?s s'"
    "bm_files (disk s') = (bm_files D)(f := None)" "lookup (dir_of D) f = Some k"
    "Directory s' = patch (64 * k) [1] (dir_of D)"
    using delete_file_ok [OF op(1), of f] assms(2) op(2) by auto
  have "bmfs_main c [prog, dn, ''delete'', f] h = Some (0, on_host (close_disk s'))"
    using main_on_disk [OF d words(4)] s'(1) by (simp add: commands arg_def)
  then show ?thesis
    using close_ok [OF s'(2,3) d] s' by (simp add: opened_def same_rest_def) metis
qed

lemma reused_entry:
  fixes st bl :: u64
  assumes "length d = 4096" "slot < 64" "slot \<noteq> n" "length nm \<le> 31" "NUL \<notin> set nm"
  defines "d' \<equiv> add_entry nm slot n st bl d"
  shows "length d' = 4096" "i < 64 \<Longrightarrow> i \<noteq> slot \<Longrightarrow> entry_at d' i = entry_at d i"
    "FileName (entry_at d' slot) = nm" "StartingBlock (entry_at d' slot) = st" "ReservedBlocks (entry_at d' slot) = bl"
    "nm \<noteq> [] \<Longrightarrow> entry_at d' slot ! 0 = byte (hd nm)"
proof -
  define d1 where "d1 = patch (64 * slot + 32) (le_bytes 8 st) d"
  define d2 where "d2 = patch (64 * slot + 40) (le_bytes 8 bl) d1"
  define d3 where "d3 = patch (64 * slot + 48) (le_bytes 8 0) d2"
  have n: "64 * slot + 64 \<le> 4096" using assms(2) by simp
  have d': "d' = patch (64 * slot) (map byte nm @ [0]) d3"
    using assms(3) by (simp add: d'_def add_entry_def d3_def d2_def d1_def)
  have len: "length d1 = 4096" "length d2 = 4096" "length d3 = 4096"
    using n assms(1) by (simp_all add: d1_def d2_def d3_def)
  then show "length d' = 4096" using n assms(4) by (simp add: d')
  define e where "e = patch 48 (le_bytes 8 0) (patch 40 (le_bytes 8 bl) (patch 32 (le_bytes 8 st) (entry_at d slot)))"
  have le: "length (entry_at d slot) = 64" "length e = 64" using assms(1,2) by (simp_all add: e_def)
  have ei: "entry_at d' i = (if i = slot then patch 0 (map byte nm @ [0]) e else entry_at d i)" if "i < 64" for i
    unfolding d' d3_def d2_def d1_def e_def using that assms n by (simp add: entry_patch entry_patch0)
  then show "i < 64 \<Longrightarrow> i \<noteq> slot \<Longrightarrow> entry_at d' i = entry_at d i" by simp
  have es: "entry_at d' slot = patch 0 (map byte nm @ [0]) e" using ei assms(2) by simp
  show "FileName (entry_at d' slot) = nm" unfolding es by (rule FileName_new [OF le(2) assms(4,5)])
  show "StartingBlock (entry_at d' slot) = st" "ReservedBlocks (entry_at d' slot) = bl"
    unfolding es e_def using le assms(4) by (simp_all add: field_patch)
  show "nm \<noteq> [] \<Longrightarrow> entry_at d' slot ! 0 = byte (hd nm)"
    unfolding es using le(2) assms(4) by (cases nm) (simp_all add: nth_patch)
qed

text \<open>
  A directory of two entries, the first one deleted. The sort leaves the deleted entry last, and the
  search goes on behind where it was.
\<close>

lemma sort_pair:
  assumes "sorts q" "a ! 0 = 1" "b ! 0 \<noteq> 1"
  shows "q StartingBlockCmp [a, b] = [b, a]"
proof -
  let ?key = "\<lambda>e :: BMFSEntry. if e ! 0 = 1 then 1 else 0 :: nat"
  have ne: "a \<noteq> b" using assms(2,3) by auto
  then have d: "distinct [a, b]" by simp
  have "(StartingBlockCmp x y < 0 \<longleftrightarrow> ?key x < ?key y) \<and> (StartingBlockCmp x y = 0 \<longleftrightarrow> ?key x = ?key y)"
    if "x \<in> set [a, b]" "y \<in> set [a, b]" "x \<noteq> y" for x y
    using that assms(2,3) by (auto simp: StartingBlockCmp_def)
  note s = sortsD [OF assms(1) d, of StartingBlockCmp ?key, OF this]
  define ys where "ys = q StartingBlockCmp [a, b]"
  have "length ys = Suc (Suc 0)" using mset_eq_length [OF s(1)] by (simp add: ys_def)
  then obtain x y where xy: "ys = [x, y]" by (auto simp: length_Suc_conv)
  have m: "{#x, y#} = {#a, b#}" using s(1) unfolding ys_def [symmetric] xy by simp
  have "?key x \<le> ?key y" using s(2) unfolding ys_def [symmetric] xy by simp
  then have "x \<noteq> a \<or> y \<noteq> b" using assms(2,3) by auto
  then have "x = b \<and> y = a" using m by (auto simp: add_eq_conv_ex)
  then show ?thesis using xy by (simp add: ys_def)
qed

lemma gap_behind_deleted:
  assumes "a ! 0 = 1" "b ! 0 \<noteq> 1" "StartingBlock a = 1" "ReservedBlocks a = 2" "StartingBlock b = 3" "ReservedBlocks b = 7"
  shows "find_gap [b, a] 12 5 1 = 3"
  using assms by (simp add: word_le_nat_alt)

lemma count_two:
  assumes "entry_at d 0 ! 0 = 1" "entry_at d 1 ! 0 \<noteq> 0" "entry_at d 1 ! 0 \<noteq> 1" "entry_at d 2 ! 0 = 0"
  shows "count_entries d [0..<64] None = (2, Some 0)"
proof -
  have "[0..<64] = 0 # 1 # 2 # [3..<64]" by (simp add: upt_conv_Cons)
  then show ?thesis using assms by simp
qed

text \<open>Two files on an empty disk of 24 MiB, of 4 and 14 MiB.\<close>

lemma create_at:
  assumes "has_disk c h dn D" "atoi t = Some m" "1 \<le> m" "compact n (dir_of D)" "sorts (qsort c)" "short_name f"
    and "bm_files D f = None" "2 \<le> blocks D" and b: "(nat m + 1) div 2 = b"
    and q: "fits (entries (dir_of D)) (blocks D) b q" "1 \<le> q"
      "\<And>p. 1 \<le> p \<Longrightarrow> p < q \<Longrightarrow> \<not> fits (entries (dir_of D)) (blocks D) b p"
  shows "\<exists>h' D' w. bmfs_main c [prog, dn, ''create'', f, t] h = Some (0, h') \<and> has_disk c h' dn D' \<and>
    length D' = length D \<and> bm_files D' = (bm_files D)(f \<mapsto> (b, [])) \<and> unat w = b \<and>
    dir_of D' = add_entry f n n (of_nat q) w (dir_of D)"
proof -
  have l: "(LEAST p. 1 \<le> p \<and> fits (entries (dir_of D)) (blocks D) b p) = q"
    using q by (intro Least_equality) (auto simp: not_le [symmetric])
  have "(\<exists>p. 1 \<le> p \<and> fits (entries (dir_of D)) (blocks D) b p) = True" using q(1,2) by blast
  from create_op [OF assms(1-8), of prog, unfolded b l this if_True] show ?thesis by blast
qed

lemma first_file:
  assumes d: "has_disk c h dn D" and "compact 0 (dir_of D)" "bm_files D = Map.empty" "blocks D = 12" "sorts (qsort c)"
    and "short_name f" "atoi t = Some 4"
  shows "\<exists>h' D'. bmfs_main c [prog, dn, ''create'', f, t] h = Some (0, h') \<and> has_disk c h' dn D' \<and>
    compact 1 (dir_of D') \<and> bm_files D' = [f \<mapsto> (2, [])] \<and> blocks D' = 12 \<and>
    FileName (entry_at (dir_of D') 0) = f \<and> StartingBlock (entry_at (dir_of D') 0) = 1 \<and>
    ReservedBlocks (entry_at (dir_of D') 0) = 2"
proof -
  have E: "entries (dir_of D) = {}" using compact_valid [OF assms(2)] by (simp add: entries_def)
  have none: "bm_files D f = None" using assms(3) by simp
  have q: "fits (entries (dir_of D)) (blocks D) 2 1" by (simp add: E assms(4) fits_def)
  obtain h' D' w where r: "bmfs_main c [prog, dn, ''create'', f, t] h = Some (0, h')" "has_disk c h' dn D'"
    "length D' = length D" "bm_files D' = [f \<mapsto> (2, [])]" "unat w = 2" "dir_of D' = add_entry f 0 0 1 w (dir_of D)"
    using create_at [OF d assms(7) _ assms(2,5,6) none _ _ q, of prog] assms(3,4) by auto
  have w: "w = 2" using r(5) by (simp add: word_unat_eq_iff)
  have "length (dir_of D) = 4096" using d by (simp add: has_disk_def disk_ok_def dir_ok_def)
  note ad = added_entry [OF this assms(2,6), where st = 1 and bl = w]
  have "compact 1 (dir_of D')" "blocks D' = 12" using ad(9) r(3) assms(4) by (simp_all add: r(6) blocks_def)
  then show ?thesis using r(1,2,4) ad(4,6,7) by (intro exI [of _ h'] exI [of _ D']) (simp add: r(6) w)
qed

lemma second_file:
  assumes d: "has_disk c h dn D" and cp: "compact 1 (dir_of D)" and "bm_files D = [f \<mapsto> (2, [])]" "blocks D = 12" "sorts (qsort c)"
    and "FileName (entry_at (dir_of D) 0) = f" "StartingBlock (entry_at (dir_of D) 0) = 1"
      "ReservedBlocks (entry_at (dir_of D) 0) = 2"
    and "short_name g" "g \<noteq> f" "atoi t = Some 14"
  shows "\<exists>h' D'. bmfs_main c [prog, dn, ''create'', g, t] h = Some (0, h') \<and> has_disk c h' dn D' \<and>
    compact 2 (dir_of D') \<and> bm_files D' = [f \<mapsto> (2, []), g \<mapsto> (7, [])] \<and> blocks D' = 12 \<and>
    FileName (entry_at (dir_of D') 0) = f \<and> StartingBlock (entry_at (dir_of D') 0) = 1 \<and>
    ReservedBlocks (entry_at (dir_of D') 0) = 2 \<and>
    FileName (entry_at (dir_of D') 1) = g \<and> StartingBlock (entry_at (dir_of D') 1) = 3 \<and>
    ReservedBlocks (entry_at (dir_of D') 1) = 7"
proof -
  let ?e = "entry_at (dir_of D) 0"
  have E: "entries (dir_of D) = {?e}" using compact_valid [OF cp] by (auto simp: entries_def)
  have a: "area ?e = {1..<3}" using assms(7,8) by (auto simp: area_def)
  have q: "fits (entries (dir_of D)) (blocks D) 7 3" by (simp add: E assms(4) fits_def a)
  have nq: "\<not> fits (entries (dir_of D)) (blocks D) 7 p" if p: "1 \<le> p" "p < 3" for p
  proof -
    have "p \<in> {1..<3} \<inter> {p..<p + 7}" using p by simp
    then have "area ?e \<inter> {p..<p + 7} \<noteq> {}" unfolding a by blast
    then show ?thesis by (simp add: E fits_def)
  qed
  have none: "bm_files D g = None" using assms(3,10) by simp
  obtain h' D' w where r: "bmfs_main c [prog, dn, ''create'', g, t] h = Some (0, h')" "has_disk c h' dn D'"
    "length D' = length D" "bm_files D' = [f \<mapsto> (2, []), g \<mapsto> (7, [])]" "unat w = 7"
    "dir_of D' = add_entry g 1 1 3 w (dir_of D)"
    using create_at [OF d assms(11) _ cp assms(5,9) none _ _ q _ nq, of prog] assms(3,4) by auto
  have w: "w = 7" using r(5) by (simp add: word_unat_eq_iff)
  have "length (dir_of D) = 4096" using d by (simp add: has_disk_def disk_ok_def dir_ok_def)
  note ad = added_entry [OF this cp assms(9), where st = 3 and bl = w]
  have "entry_at (dir_of D') 0 = ?e" "compact 2 (dir_of D')" "blocks D' = 12"
    using ad(3) [of 0] ad(9) r(3) assms(4) by (simp_all add: r(6) blocks_def numeral_2_eq_2)
  then show ?thesis using r(1,2,4) ad(4,6,7) assms(6-8)
    by (intro exI [of _ h'] exI [of _ D']) (simp add: r(6) w)
qed

text \<open>The first file is deleted, and a file of 10 MiB is made.\<close>

lemma third_file:
  assumes d: "has_disk c h dn D" and cp: "compact 2 (dir_of D)" and "blocks D = 12" "sorts (qsort c)"
    and "lookup (dir_of D) f = Some 0" "bm_files D k = None"
    and e0: "StartingBlock (entry_at (dir_of D) 0) = 1" "ReservedBlocks (entry_at (dir_of D) 0) = 2"
    and e1: "FileName (entry_at (dir_of D) 1) = g" "StartingBlock (entry_at (dir_of D) 1) = 3"
      "ReservedBlocks (entry_at (dir_of D) 1) = 7"
    and "short_name k" "k \<noteq> f" "atoi t = Some 10"
  shows "\<exists>h' D'. bmfs_runs c [[prog, dn, ''delete'', f], [prog, dn, ''create'', k, t]] h = Some h' \<and>
    files h' dn = Some D' \<and> valid (dir_of D') 0 \<and> valid (dir_of D') 1 \<and>
    FileName (entry_at (dir_of D') 0) = k \<and> area (entry_at (dir_of D') 0) = {3..<8} \<and>
    FileName (entry_at (dir_of D') 1) = g \<and> area (entry_at (dir_of D') 1) = {3..<10}"
proof -
  have "bm_files D f \<noteq> None" using assms(5) by (simp add: bm_files_def)
  from delete_run [OF d this, of prog] obtain h1 D1 where
    r1: "bmfs_main c [prog, dn, ''delete'', f] h = Some (0, h1)" and d1: "has_disk c h1 dn D1"
    and len: "length D1 = length D" and dir1: "dir_of D1 = patch 0 [1] (dir_of D)"
    and fs1: "bm_files D1 = (bm_files D)(f := None)" using assms(5) by auto
  let ?d = "dir_of D" and ?d1 = "dir_of D1" and ?s = "open_disk dn D1 h1"
  have l: "length ?d = 4096" "length ?d1 = 4096" "8192 \<le> length D1"
    using d d1 dir_of_length by (auto simp: has_disk_def disk_ok_def dir_ok_def)
  have e: "entry_at ?d1 i = (if i = 0 then patch 0 [1] (entry_at ?d 0) else entry_at ?d i)" if "i < 64" for i
    using entry_patch0 [of ?d 0 i "[1]"] that l(1) unfolding dir1 by simp
  have m0: "entry_at ?d1 0 ! 0 = 1" using e [of 0] l(1) by (simp add: nth_patch)
  have m1: "entry_at ?d1 1 ! 0 \<noteq> 0" "entry_at ?d1 1 ! 0 \<noteq> 1" "entry_at ?d1 2 ! 0 = 0"
    using e [of 1] e [of 2] cp by (auto simp: compact_def)
  have f0: "StartingBlock (entry_at ?d1 0) = 1" "ReservedBlocks (entry_at ?d1 0) = 2"
    using e [of 0] e0 l(1) by (simp_all add: field_patch)
  have f1: "entry_at ?d1 1 = entry_at ?d 1" using e [of 1] by simp
  have two: "map (entry_at ?d1) [0..<2] = [entry_at ?d1 0, entry_at ?d1 1]" by (simp add: upt_conv_Cons numeral_2_eq_2)
  have bl: "blocks D1 = 12" using assms(3) len by (simp add: blocks_def)
  have gap: "find_gap (qsort c StartingBlockCmp (map (entry_at ?d1) [0..<2])) (of_nat (blocks D1)) 5 1 = 3"
    unfolding two bl sort_pair [OF assms(4) m0 m1(2)]
    of_nat_numeral
    by (rule gap_behind_deleted [OF m0 m1(2) f0]) (simp_all add: f1 [unfolded One_nat_def] e1 [unfolded One_nat_def])
  let ?d2 = "add_entry k 0 2 3 5 ?d1" and ?D2 = "patch 4096 (add_entry k 0 2 3 5 ?d1) D1"
  have k: "length k \<le> 31" "NUL \<notin> set k" "k \<noteq> []" using assms(12) by (simp_all add: short_name_def)
  have n: "(0 :: nat) < 64" "(0 :: nat) \<noteq> 2" by simp_all
  note re = reused_entry [OF l(2) n k(1,2), where st = 3 and bl = 5]
  have none: "bm_files (disk ?s) k = None" using fs1 assms(6) by simp
  have sz: "unat (word_of_int 10 :: u64) < 2 ^ 63" "unat (5 :: u64) = (unat (word_of_int 10 :: u64) + 1) div 2" by simp_all
  note op = open_disk_opened [OF d1]
  obtain u where "bm_create c k (word_of_int 10) ?s =
      Some (out_text u (?s\<lparr>Directory := ?d2, disk := ?D2, disk_pos := 8192\<rparr>))"
    using bm_create_runs [OF op(1) none _ n(1) k(1) sz, unfolded op(2) open_disk_simps,
        OF count_two [OF m0 m1], unfolded gap, OF re(1)] by auto
  then obtain h2 where r2: "bmfs_main c [prog, dn, ''create'', k, t] h1 = Some (0, h2)" "files h2 dn = Some ?D2"
    using create_run(1) [OF d1 assms(14), of prog] by (simp add: close_disk_def)
  have dir2: "dir_of ?D2 = ?d2" by (rule new_dir(1) [OF l(3) re(1)])
  have "byte (hd k) \<noteq> 0" "byte (hd k) \<noteq> 1"
    using assms(12) chr_of_byte [of "hd k"] chr_of_byte [of NUL] chr_of_byte [of "CHR 0x01"] k(3)
    by (auto simp: short_name_def byte_def dest: hd_in_set) 
  then have "valid ?d2 0" "valid ?d2 1" using re(2) [of 1] re(6) [OF k(3)] m1 by (auto simp: valid_def le_Suc_eq)
  moreover have "entry_at ?d2 1 = entry_at ?d 1" using re(2) [of 1] f1 by simp
  ultimately show ?thesis using r1 r2 dir2 re(3-5) e1
    by (intro exI [of _ h2] exI [of _ ?D2]) (simp add: area_def)
qed

end
