(* ===== verification/Bmfs_Props.thy ===== *)
theory Bmfs_Props
  imports Bmfs_Overlap
begin

text \<open>The properties of the BMFS tool, as runs of its \<open>main\<close>.\<close>

section \<open>A host for the witnesses\<close>

definition sample_libc :: libc where
  "sample_libc = \<lparr>qsort = insertion_sort, malloc_ok = True, input_line = [], capacity = 2 ^ 40,
     percent_text = \<lambda>w d. []\<rparr>"

definition sample_files :: "string \<Rightarrow> u8 list option" where
  "sample_files = [''mbr'' \<mapsto> replicate 512 0x90, ''pure64'' \<mapsto> [1, 2, 3], ''kernel'' \<mapsto> [4, 5], ''data'' \<mapsto> [7, 8, 9]]"

definition sample_host :: host where
  "sample_host = \<lparr>files = sample_files, can_create = \<lambda>f. True, stdout = []\<rparr>"

text \<open>A disk of 24 MiB without files, and its host.\<close>

definition sample_disk :: "u8 list" where
  "sample_disk = made_disk 25165824 [] []"

definition disk_host :: host where
  "disk_host = sample_host\<lparr>files := sample_files(''disk'' \<mapsto> sample_disk)\<rparr>"

lemma sample_libc_simps [simp]:
  "qsort sample_libc = insertion_sort" "malloc_ok sample_libc" "capacity sample_libc = 2 ^ 40"
  by (simp_all add: sample_libc_def)

lemma sample_disk_ok:
  "has_disk sample_libc disk_host ''disk'' sample_disk" "bm_files sample_disk = Map.empty"
  "compact 0 (dir_of sample_disk)" "blocks sample_disk = 12" "entries (dir_of sample_disk) = {}"
  "length sample_disk = 25165824"
proof -
  have l: "length ([] :: u8 list) \<le> 512" "8192 + length ([] :: u8 list) \<le> 25165824" "(25165824 :: nat) < 2 ^ 52" by simp_all
  show len: "length sample_disk = 25165824" unfolding sample_disk_def by (rule length_made_disk [OF l(1,2)])
  note ok = made_disk_ok [OF l, folded sample_disk_def]
  note pc = made_disk_pieces [OF l(1,2), folded sample_disk_def]
  show "has_disk sample_libc disk_host ''disk'' sample_disk"
    using ok(1) formatted_tag [OF pc(2)] len by (simp add: has_disk_def disk_host_def)
  show "bm_files sample_disk = Map.empty" by (rule ok(2))
  show cp: "compact 0 (dir_of sample_disk)" unfolding pc(1) by (rule empty_dir(1))
  show "blocks sample_disk = 12" by (simp add: blocks_def len)
  show "entries (dir_of sample_disk) = {}" using compact_valid [OF cp] by (simp add: entries_def)
qed

lemma sizes:
  "disk_size ''24M'' = (25165824, 0, [])"
  "atoi ''4'' = Some 4" "atoi ''10'' = Some 10" "atoi ''14'' = Some 14"
proof -
  have "unit_of ''M'' = Some 2" by (simp add: unit_of_def is_digit_def unit_factor_def toupper_def)
  from disk_size_ok [OF _ _ this, of "''24''"] show "disk_size ''24M'' = (25165824, 0, [])"
    by (simp add: is_digit_def digit_def)
qed (simp_all add: is_digit_def digit_def atoi_def)

section \<open>Properties\<close>

text \<open>
  C21: \<open>read\<close>, \<open>write\<close> and \<open>delete\<close> refine operations on two maps, the files of the disk (the blocks that are
  reserved for each, and its content) and those of the host. On a well-formed disk, any sequence of
  runs of the tool with these commands, on names in any order, ends without an error exit or undefined
  behaviour, leaves the disk well formed and formatted, and gives the maps that the specification gives:
  \<open>write\<close> replaces the content if it fits the reserved blocks, \<open>read\<close> puts the content into the local file,
  \<open>delete\<close> removes the name, and nothing else changes. No file has \<open>2^31\<close> bytes or more, and no command
  names the file that holds the disk.
\<close>

theorem bmfs_refines_maps:
  assumes "has_disk c h dn D" and "files_small (store_of h dn D)" and "\<forall>op \<in> set ops. op_file op \<noteq> dn"
  shows "\<exists>h' D'. bmfs_runs c (map (op_line prog dn) ops) h = Some h' \<and> has_disk c h' dn D' \<and>
    store_of h' dn D' = fold (spec_op (can_create h)) ops (store_of h dn D)"
  using assms by (intro runs_ok)

theorem bmfs_refines_maps_witness:
  "\<exists>h' D'. bmfs_runs sample_libc (map (op_line ''bmfs'' ''disk'')
      [Write_file ''data'', Read_file ''data'', Delete_file ''data'']) disk_host = Some h' \<and>
    has_disk sample_libc h' ''disk'' D' \<and> store_of h' ''disk'' D' = (Map.empty, sample_files)"
proof -
  have l: "local_files disk_host ''disk'' = sample_files"
    by (auto simp: local_files_def disk_host_def sample_files_def)
  have st: "store_of disk_host ''disk'' sample_disk = (Map.empty, sample_files)"
    by (simp add: store_of_def l sample_disk_ok(2))
  have small: "files_small (store_of disk_host ''disk'' sample_disk)"
    unfolding st by (auto simp: files_small_def sample_files_def split: if_splits)
  have ne: "\<forall>op \<in> set [Write_file ''data'', Read_file ''data'', Delete_file ''data'']. op_file op \<noteq> ''disk''" by simp
  show ?thesis using bmfs_refines_maps [OF sample_disk_ok(1) small ne, of "''bmfs''"] unfolding st by simp
qed

text \<open>
  C22: \<open>create\<close> on a well-formed disk whose directory has an end marker and no deleted entry is first fit and complete. If the
  blocks asked for, half the size in MiB rounded up, fit between the files, behind block 0 and before the
  last block, then the new file is empty, has these blocks, and starts at the first place where they
  fit; it joins the other files, which keep their content, and the disk stays well formed. Otherwise
  the disk keeps its files and its directory. The sort does what the C standard says.
\<close>

theorem bmfs_create_first_fit:
  assumes "has_disk c h dn D" and "compact n (dir_of D)" and "sorts (qsort c)"
    and "short_name f" "bm_files D f = None" "2 \<le> blocks D" "atoi t = Some m" "1 \<le> m"
  defines "P \<equiv> \<lambda>p. 1 \<le> p \<and> fits (entries (dir_of D)) (blocks D) ((nat m + 1) div 2) p"
  shows "\<exists>h' D'. bmfs_main c [prog, dn, ''create'', f, t] h = Some (0, h') \<and> has_disk c h' dn D' \<and>
    local_files h' dn = local_files h dn \<and>
    (if \<exists>p. P p then
       bm_files D' = (bm_files D)(f \<mapsto> ((nat m + 1) div 2, [])) \<and> (n + 1 < 64 \<longrightarrow> compact (n + 1) (dir_of D')) \<and>
       (\<exists>i e. lookup (dir_of D') f = Some i \<and> e = entry_at (dir_of D') i \<and> unat (StartingBlock e) = (LEAST p. P p))
     else bm_files D' = bm_files D \<and> dir_of D' = dir_of D)"
proof -
  obtain h' D' where r: "bmfs_main c [prog, dn, ''create'', f, t] h = Some (0, h')" "has_disk c h' dn D'"
    "local_files h' dn = local_files h dn"
    and if': "if \<exists>p. P p then
       bm_files D' = (bm_files D)(f \<mapsto> ((nat m + 1) div 2, [])) \<and> (n + 1 < 64 \<longrightarrow> compact (n + 1) (dir_of D')) \<and>
       (\<exists>w. unat w = (nat m + 1) div 2 \<and> dir_of D' = add_entry f n n (of_nat (LEAST p. P p)) w (dir_of D))
     else bm_files D' = bm_files D \<and> dir_of D' = dir_of D"
    using create_op [OF assms(1,7,8,2-6), of prog, folded P_def] by blast
  have place: "\<exists>i e. lookup (dir_of D') f = Some i \<and> e = entry_at (dir_of D') i \<and> unat (StartingBlock e) = (LEAST p. P p)"
    if "\<exists>p. P p"
  proof -
    from that if' obtain w where w: "dir_of D' = add_entry f n n (of_nat (LEAST p. P p)) w (dir_of D)" by auto
    have ok: "dir_ok (blocks D) (dir_of D)" "dir_ok (blocks D') (dir_of D')"
      using assms(1) r(2) by (simp_all add: has_disk_def disk_ok_def)
    then have "length (dir_of D) = 4096" by (simp add: dir_ok_def)
    from added_entry [OF this assms(2,4), of "of_nat (LEAST p. P p)" w, folded w]
    have v: "valid (dir_of D') n" "FileName (entry_at (dir_of D') n) = f"
      "StartingBlock (entry_at (dir_of D') n) = of_nat (LEAST p. P p)" by simp_all
    have "P (LEAST p. P p)" by (rule LeastI_ex [OF that])
    then have "(LEAST p. P p) \<le> blocks D" unfolding P_def fits_def by linarith
    then have "(LEAST p. P p) < 2 ^ 31" using ok(1) unfolding dir_ok_def by linarith
    then have "unat (of_nat (LEAST p. P p) :: u64) = (LEAST p. P p)" by (simp add: unat_of_nat)
    then show ?thesis using v lookup_iff [OF ok(2)] by auto
  qed
  show ?thesis using r if' place by (cases "\<exists>p. P p") auto
qed

theorem bmfs_create_first_fit_witness:
  "\<exists>h' D'. bmfs_main sample_libc [''bmfs'', ''disk'', ''create'', ''data'', ''10''] disk_host = Some (0, h') \<and>
    has_disk sample_libc h' ''disk'' D' \<and> bm_files D' = [''data'' \<mapsto> (5, [])]"
proof -
  have s: "sorts (qsort sample_libc)" by (simp add: insertion_sort_sorts)
  have nm: "short_name ''data''" by (simp add: short_name_def)
  have none: "bm_files sample_disk ''data'' = None" "2 \<le> blocks sample_disk" by (simp_all add: sample_disk_ok)
  have P: "(\<exists>p \<ge> 1. fits {} 12 5 p) = True" by (auto simp: fits_def intro: exI [of _ 1])
  have b: "(nat 10 + 1) div 2 = 5" by simp
  from bmfs_create_first_fit [OF sample_disk_ok(1,3) s nm none sizes(3), of "''bmfs''",
      unfolded b sample_disk_ok(2,4,5) P if_True]
  show ?thesis by auto
qed

text \<open>
  C23: \<open>create\<close> after \<open>delete\<close> can give a file the blocks of another one. On a new disk of 24 MiB the runs
  that create a file of 4 MiB and one of 14 MiB, delete the first, and create one of 10 MiB end well, but
  leave a directory in which the last file has the blocks 3 to 7, and the second still the blocks 3 to 9.
\<close>

theorem bmfs_create_overlaps:
  assumes "sorts (qsort c)" "malloc_ok c" "25165824 \<le> capacity c" "can_create h dn"
    and "short_name f" "short_name g" "short_name k" "distinct [f, g, k]"
  shows "\<exists>h' D. bmfs_runs c [[prog, dn, ''initialize'', ''24M''], [prog, dn, ''create'', f, ''4''],
      [prog, dn, ''create'', g, ''14''], [prog, dn, ''delete'', f], [prog, dn, ''create'', k, ''10'']] h = Some h' \<and>
    files h' dn = Some D \<and>
    (\<exists>i j. valid (dir_of D) i \<and> valid (dir_of D) j \<and>
      FileName (entry_at (dir_of D) i) = k \<and> area (entry_at (dir_of D) i) = {3..<8} \<and>
      FileName (entry_at (dir_of D) j) = g \<and> area (entry_at (dir_of D) j) = {3..<10})"
proof -
  let ?D = sample_disk
  have n: "unat (25165824 :: u64) = 25165824" by simp
  obtain h0 where h0: "bmfs_main c [prog, dn, ''initialize'', ''24M''] h = Some (0, h0)" "has_disk c h0 dn ?D"
    using initialize_op [OF sizes(1), of c h dn None None None prog] assms(2-4)
    by (auto simp: readable_def file_bytes_def n sample_disk_def)
  obtain h1 D1 where h1: "bmfs_main c [prog, dn, ''create'', f, ''4''] h0 = Some (0, h1)" "has_disk c h1 dn D1"
    "compact 1 (dir_of D1)" "bm_files D1 = [f \<mapsto> (2, [])]" "blocks D1 = 12" "FileName (entry_at (dir_of D1) 0) = f"
    "StartingBlock (entry_at (dir_of D1) 0) = 1" "ReservedBlocks (entry_at (dir_of D1) 0) = 2"
    using first_file [OF h0(2) sample_disk_ok(3,2,4) assms(1,5) sizes(2), of prog] by blast
  have "g \<noteq> f" using assms(8) by auto
  from second_file [OF h1(2-5) assms(1) h1(6-8) assms(6) this sizes(4), of prog]
  obtain h2 D2 where h2: "bmfs_main c [prog, dn, ''create'', g, ''14''] h1 = Some (0, h2)" "has_disk c h2 dn D2"
    "compact 2 (dir_of D2)" "bm_files D2 = [f \<mapsto> (2, []), g \<mapsto> (7, [])]" "blocks D2 = 12"
    and e: "FileName (entry_at (dir_of D2) 0) = f" "StartingBlock (entry_at (dir_of D2) 0) = 1"
      "ReservedBlocks (entry_at (dir_of D2) 0) = 2" "FileName (entry_at (dir_of D2) 1) = g"
      "StartingBlock (entry_at (dir_of D2) 1) = 3" "ReservedBlocks (entry_at (dir_of D2) 1) = 7" by blast
  have dok: "dir_ok (blocks D2) (dir_of D2)" using h2(2) by (simp add: has_disk_def disk_ok_def)
  have lk: "lookup (dir_of D2) f = Some 0" using lookup_iff [OF dok] e(1) compact_valid [OF h2(3)] by simp
  have none: "bm_files D2 k = None" using h2(4) assms(8) by auto
  have ne: "k \<noteq> f" using assms(8) by auto
  from third_file [OF h2(2,3,5) assms(1) lk none e(2-6) assms(7) ne sizes(3), of prog]
  obtain h4 D4 where "bmfs_runs c [[prog, dn, ''delete'', f], [prog, dn, ''create'', k, ''10'']] h2 = Some h4"
    "files h4 dn = Some D4" "valid (dir_of D4) 0" "valid (dir_of D4) 1"
    "FileName (entry_at (dir_of D4) 0) = k" "area (entry_at (dir_of D4) 0) = {3..<8}"
    "FileName (entry_at (dir_of D4) 1) = g" "area (entry_at (dir_of D4) 1) = {3..<10}" by blast
  moreover from this(1) have "bmfs_runs c [[prog, dn, ''initialize'', ''24M''], [prog, dn, ''create'', f, ''4''],
      [prog, dn, ''create'', g, ''14''], [prog, dn, ''delete'', f], [prog, dn, ''create'', k, ''10'']] h = Some h4"
    unfolding bmfs_runs.simps(2) [of _ "[prog, dn, ''initialize'', ''24M'']"] bmfs_runs.simps(2) [of _ "[prog, dn, ''create'', f, ''4'']"]
      bmfs_runs.simps(2) [of _ "[prog, dn, ''create'', g, ''14'']"] h0(1) h1(1) h2(1) option.case prod.case .
  ultimately show ?thesis by blast
qed

theorem bmfs_create_overlaps_witness:
  "\<exists>h' D i j. bmfs_runs sample_libc [[''bmfs'', ''disk'', ''initialize'', ''24M''], [''bmfs'', ''disk'', ''create'', ''a'', ''4''],
      [''bmfs'', ''disk'', ''create'', ''b'', ''14''], [''bmfs'', ''disk'', ''delete'', ''a''],
      [''bmfs'', ''disk'', ''create'', ''k'', ''10'']] sample_host = Some h' \<and> files h' ''disk'' = Some D \<and>
    FileName (entry_at (dir_of D) i) = ''k'' \<and> area (entry_at (dir_of D) i) = {3..<8} \<and>
    FileName (entry_at (dir_of D) j) = ''b'' \<and> area (entry_at (dir_of D) j) = {3..<10}"
proof -
  have s: "sorts (qsort sample_libc)" "malloc_ok sample_libc" "25165824 \<le> capacity sample_libc" "can_create sample_host ''disk''"
    by (simp_all add: insertion_sort_sorts sample_host_def)
  have nm: "short_name ''a''" "short_name ''b''" "short_name ''k''" "distinct [''a'', ''b'', ''k'']"
    by (simp_all add: short_name_def)
  show ?thesis using bmfs_create_overlaps [OF s nm, of "''bmfs''"] by blast
qed

text \<open>
  C24: \<open>initialize\<close> with a size, a boot record, a boot loader and a kernel makes a disk of exactly that size
  that is well formed, formatted and holds no file, and on which the machine finds the first 512 bytes of
  the boot record at byte 0, and the loader with the kernel right behind it at byte 8192. The size is a
  number with one of the units K, M, G, T and P or none, at least 6 MiB; loader and kernel fit the disk.
  The other files of the host stay as they are.
\<close>

theorem bmfs_initialize_boots:
  assumes "ds \<noteq> []" "\<forall>ch \<in> set ds. is_digit ch" "unit_of u = Some x" "n = number 0 ds * 1024 ^ x"
    and "6291456 \<le> n" "n < 2 ^ 52" "n \<le> capacity c" "malloc_ok c" "can_create h dn" "dn \<notin> {mbr, boot, kern}"
    and "files h mbr = Some M" "files h boot = Some B" "files h kern = Some K"
    and "512 \<le> length M" "8192 + length B + length K \<le> n"
  shows "\<exists>h' D. bmfs_main c [prog, dn, ''initialize'', ds @ u, mbr, boot, kern] h = Some (0, h') \<and>
    has_disk c h' dn D \<and> local_files h' dn = local_files h dn \<and> length D = n \<and> bm_files D = Map.empty \<and>
    compact 0 (dir_of D) \<and> take 512 D = take 512 M \<and> take (length (B @ K)) (drop 8192 D) = B @ K"
proof -
  have sz: "disk_size (ds @ u) = (of_nat n, 0, [])"
    using disk_size_ok [OF assms(1-3)] assms(4-6) by simp
  have n: "unat (of_nat n :: u64) = n" using assms(6) by (simp add: unat_of_nat)
  have fb: "file_bytes h (Some mbr) = M" "file_bytes h (Some boot) = B" "file_bytes h (Some kern) = K"
    using assms(11-13) by (simp_all add: file_bytes_def)
  let ?D = "made_disk n (take 512 M) (B @ K)"
  have rd: "readable h dn (Some mbr)" "readable h dn (Some boot)" "readable h dn (Some kern)"
    using assms(10-13) by (auto simp: readable_def)
  have fit: "8192 + length (B @ K) \<le> n" "length (take 512 M) \<le> 512" "length (take 512 M) = 512"
    using assms(14,15) by simp_all
  obtain h' where h': "bmfs_main c [prog, dn, ''initialize'', ds @ u, mbr, boot, kern] h = Some (0, h')"
    "has_disk c h' dn ?D" "local_files h' dn = local_files h dn"
    using initialize_op [OF sz assms(8,9) rd, of prog] fit(1) assms(6,7,14) unfolding fb n by auto
  note pc = made_disk_pieces [OF fit(2,1)]
  have "take 512 ?D = take 512 M" using pc(3) fit(3) by (simp add: piece_def)
  moreover have "take (length (B @ K)) (drop 8192 ?D) = B @ K" using pc(4) by (simp only: piece_def)
  moreover have "compact 0 (dir_of ?D)" unfolding pc(1) by (rule empty_dir(1))
  ultimately show ?thesis using h' made_disk_ok(2) [OF fit(2,1) assms(6)] length_made_disk [OF fit(2,1)] by blast
qed

theorem bmfs_initialize_boots_witness:
  "\<exists>h' D. bmfs_main sample_libc [''bmfs'', ''disk'', ''initialize'', ''6M'', ''mbr'', ''pure64'', ''kernel''] sample_host =
      Some (0, h') \<and> has_disk sample_libc h' ''disk'' D \<and> length D = 6291456 \<and> take 5 (drop 8192 D) = [1, 2, 3, 4, 5]"
proof -
  have sz: "''6'' \<noteq> []" "\<forall>ch \<in> set ''6''. is_digit ch" "unit_of ''M'' = Some 2" "6291456 = number 0 ''6'' * 1024 ^ 2"
    "6291456 \<le> (6291456 :: nat)" "6291456 < (2 :: nat) ^ 52" "6291456 \<le> capacity sample_libc" "malloc_ok sample_libc"
    "can_create sample_host ''disk''" "''disk'' \<notin> {''mbr'', ''pure64'', ''kernel''}"
    by (simp_all add: is_digit_def unit_of_def unit_factor_def toupper_def digit_def sample_host_def)
  have fs: "files sample_host ''mbr'' = Some (replicate 512 0x90)" "files sample_host ''pure64'' = Some [1, 2, 3]"
    "files sample_host ''kernel'' = Some [4, 5]" by (simp_all add: sample_host_def sample_files_def)
  have len: "512 \<le> length (replicate 512 (0x90 :: u8))" "8192 + length [1, 2, 3 :: u8] + length [4, 5 :: u8] \<le> 6291456"
    by simp_all
  have five: "length [1, 2, 3, 4, 5 :: u8] = 5" "[1, 2, 3] @ [4, 5 :: u8] = [1, 2, 3, 4, 5]" "''6'' @ ''M'' = ''6M''" by simp_all
  show ?thesis using bmfs_initialize_boots [OF sz fs len, of "''bmfs''", unfolded five(2,3), unfolded five(1)] by blast
qed

end
