(* ===== verification/Fifo.thy ===== *)
theory Fifo
  imports Prelude
begin

text \<open>
  Circular buffers and the contract they implement. The kernel has four of them: the wait
  queue of a semaphore, the two wait queues of a pipe, the byte buffer of a pipe and the
  keyboard buffer. All are an array, a head index and a count; \<open>ring_list\<close> is the list such
  a triple stands for.

  The locale \<open>fifo\<close> is what the clients (\<open>sem_post\<close>, \<open>pipe_wake_reader\<close>, the copy loops of
  \<open>pipe_read\<close> and \<open>pipe_write\<close>) rely on: pushing appends, if the queue accepts the element,
  and popping takes the head off. The components interpret it on their own operations.
\<close>

section \<open>The contents of a ring\<close>

definition ring_list :: "nat \<Rightarrow> (nat \<Rightarrow> 'a) \<Rightarrow> nat \<Rightarrow> nat \<Rightarrow> 'a list" where
  "ring_list N a h n = map (\<lambda>i. a ((h + i) mod N)) [0..<n]"

lemma length_ring_list [simp]: "length (ring_list N a h n) = n"
  by (simp add: ring_list_def)

lemma ring_list_0 [simp]: "ring_list N a h 0 = []"
  by (simp add: ring_list_def)

lemma ring_list_eq_Nil [simp]: "ring_list N a h n = [] \<longleftrightarrow> n = 0"
  by (simp add: ring_list_def)

lemma ring_list_nth: "i < n \<Longrightarrow> ring_list N a h n ! i = a ((h + i) mod N)"
  by (simp add: ring_list_def)

lemma ring_list_Suc: "ring_list N a h (Suc n) = ring_list N a h n @ [a ((h + n) mod N)]"
  by (simp add: ring_list_def)

lemma ring_list_head:
  assumes "0 < n" and "h < N"
  shows "ring_list N a h n = a h # ring_list N a ((h + 1) mod N) (n - 1)"
proof -
  obtain m where n: "n = Suc m" using assms(1) by (cases n) auto
  have "ring_list N a h (Suc m) = a (h mod N) # map (\<lambda>i. a ((h + i) mod N)) [Suc 0..<Suc m]"
    by (simp add: ring_list_def upt_conv_Cons del: upt_Suc)
  also have "map (\<lambda>i. a ((h + i) mod N)) [Suc 0..<Suc m] = ring_list N a ((h + 1) mod N) m"
    by (simp add: ring_list_def map_Suc_upt [symmetric] mod_add_left_eq o_def del: upt_Suc map_Suc_upt)
  finally show ?thesis using assms(2) n by simp
qed

lemma mod_add_inj_le:
  fixes h i j N :: nat
  assumes "(h + i) mod N = (h + j) mod N" and "j < N" and "i \<le> j"
  shows "i = j"
proof -
  have "N dvd (h + j) - (h + i)"
    using assms(1,3) mod_eq_dvd_iff_nat [of "h + i" "h + j" N] by simp
  then have "N dvd j - i" by simp
  moreover have "j - i < N" using assms(2) by simp
  ultimately have "j - i = 0" using dvd_imp_le [of N "j - i"] by fastforce
  with assms(3) show ?thesis by simp
qed

lemma mod_add_inj:
  fixes h i j N :: nat
  assumes "(h + i) mod N = (h + j) mod N" and "i < N" and "j < N"
  shows "i = j"
  using mod_add_inj_le [of h i N j] mod_add_inj_le [of h j N i] assms
  by (cases "i \<le> j") auto

lemma mod_pop:
  fixes h n N :: nat
  assumes "0 < n"
  shows "((h + 1) mod N + (n - 1)) mod N = (h + n) mod N"
proof -
  have "((h + 1) mod N + (n - 1)) mod N = (h + 1 + (n - 1)) mod N"
    by (rule mod_add_left_eq)
  with assms show ?thesis by simp
qed

lemma ring_list_write:
  assumes "n < N" and "h < N"
  shows "ring_list N (a((h + n) mod N := x)) h (Suc n) = ring_list N a h n @ [x]"
proof -
  have "ring_list N (a((h + n) mod N := x)) h n = ring_list N a h n"
    unfolding ring_list_def
  proof (rule map_cong [OF refl])
    fix i assume "i \<in> set [0..<n]"
    then have "(h + i) mod N \<noteq> (h + n) mod N"
      using assms(1) mod_add_inj [of h i N n] by auto
    then show "(a((h + n) mod N := x)) ((h + i) mod N) = a ((h + i) mod N)" by simp
  qed
  then show ?thesis by (simp add: ring_list_Suc)
qed

lemma ring_list_linear: "n \<le> N \<Longrightarrow> ring_list N a 0 n = cells n a"
  by (simp add: ring_list_def cells_def)

section \<open>Loops over a queue\<close>

text \<open>\<open>while (n < k) buf[n++] = pop(q);\<close> and \<open>while (n < k) push(q, buf[n++]);\<close>\<close>

fun pop_n :: "('q \<Rightarrow> 'a \<times> 'q) \<Rightarrow> nat \<Rightarrow> 'q \<Rightarrow> 'a list \<times> 'q" where
  "pop_n pop 0 q = ([], q)"
| "pop_n pop (Suc n) q =
     (let (x, q1) = pop q; (xs, q2) = pop_n pop n q1 in (x # xs, q2))"

fun push_list :: "('a \<Rightarrow> 'q \<Rightarrow> 'q) \<Rightarrow> 'a list \<Rightarrow> 'q \<Rightarrow> 'q" where
  "push_list push [] q = q"
| "push_list push (x # xs) q = push_list push xs (push x q)"

section \<open>The contract\<close>

locale fifo =
  fixes push :: "'a \<Rightarrow> 'q \<Rightarrow> 'q"
    and pop :: "'q \<Rightarrow> 'a \<times> 'q"
    and contents :: "'q \<Rightarrow> 'a list"
    and ok :: "'q \<Rightarrow> bool"
    and accepts :: "'a \<Rightarrow> 'a list \<Rightarrow> bool"
  assumes push_ok: "ok q \<Longrightarrow> accepts x (contents q) \<Longrightarrow> ok (push x q)"
    and push_contents: "ok q \<Longrightarrow> accepts x (contents q) \<Longrightarrow> contents (push x q) = contents q @ [x]"
    and pop_ok: "ok q \<Longrightarrow> contents q \<noteq> [] \<Longrightarrow> ok (snd (pop q))"
    and pop_contents:
      "ok q \<Longrightarrow> contents q \<noteq> [] \<Longrightarrow> contents q = fst (pop q) # contents (snd (pop q))"
begin

lemma pop_result: "ok q \<Longrightarrow> contents q = x # xs \<Longrightarrow> pop q = (y, q') \<Longrightarrow> y = x \<and> contents q' = xs \<and> ok q'"
  using pop_contents [of q] pop_ok [of q] by auto

text \<open>Popping \<open>n\<close> elements takes the first \<open>n\<close> off, in order.\<close>

lemma pop_n_contents:
  "ok q \<Longrightarrow> n \<le> length (contents q) \<Longrightarrow>
   fst (pop_n pop n q) = take n (contents q) \<and>
   contents (snd (pop_n pop n q)) = drop n (contents q) \<and> ok (snd (pop_n pop n q))"
proof (induction n arbitrary: q)
  case 0
  then show ?case by simp
next
  case (Suc n)
  obtain x xs where xs: "contents q = x # xs" using Suc.prems(2) by (cases "contents q") auto
  obtain y q' where pq: "pop q = (y, q')" by (cases "pop q")
  have q': "y = x" "contents q' = xs" "ok q'"
    using pop_result [OF Suc.prems(1) xs pq] by simp_all
  then have "n \<le> length (contents q')" using Suc.prems(2) xs by simp
  note IH = Suc.IH [OF q'(3) this]
  have eq: "pop_n pop (Suc n) q = (x # fst (pop_n pop n q'), snd (pop_n pop n q'))"
    by (simp add: pq q'(1) case_prod_beta)
  show ?case
    unfolding eq xs fst_conv snd_conv take_Suc_Cons drop_Suc_Cons
    using IH unfolding q'(2) by blast
qed

end

text \<open>A queue of fixed capacity that accepts whatever fits.\<close>

locale bounded_fifo = fifo push pop contents ok "\<lambda>_ l. length l < cap"
  for push :: "'a \<Rightarrow> 'q \<Rightarrow> 'q" and pop :: "'q \<Rightarrow> 'a \<times> 'q"
    and contents :: "'q \<Rightarrow> 'a list" and ok :: "'q \<Rightarrow> bool" and cap :: nat +
  assumes within_cap: "ok q \<Longrightarrow> length (contents q) \<le> cap"
begin

lemma push_list_contents:
  "ok q \<Longrightarrow> length (contents q) + length xs \<le> cap \<Longrightarrow>
   ok (push_list push xs q) \<and> contents (push_list push xs q) = contents q @ xs"
  by (induction xs arbitrary: q) (simp_all add: push_ok push_contents)

text \<open>What was pushed comes out in the order it went in, behind what was there.\<close>

lemma push_pop_all:
  assumes "ok q" and "length (contents q) + length xs \<le> cap"
  shows "fst (pop_n pop (length (contents q) + length xs) (push_list push xs q)) = contents q @ xs"
  using pop_n_contents [of "push_list push xs q" "length (contents q) + length xs"]
    push_list_contents [OF assms] by simp

end

text \<open>A queue whose push leaves the queue alone when it does not accept the element.\<close>

locale refusing_fifo = fifo push pop contents ok accepts
  for push :: "'a \<Rightarrow> 'q \<Rightarrow> 'q" and pop :: "'q \<Rightarrow> 'a \<times> 'q"
    and contents :: "'q \<Rightarrow> 'a list" and ok :: "'q \<Rightarrow> bool" and accepts :: "'a \<Rightarrow> 'a list \<Rightarrow> bool" +
  assumes push_refused: "\<not> accepts x (contents q) \<Longrightarrow> ok q \<Longrightarrow> push x q = q"
begin

lemma push_total_ok: "ok q \<Longrightarrow> ok (push x q)"
  using push_ok [of q x] push_refused [of x q] by (cases "accepts x (contents q)") auto

lemma push_total_contents:
  "ok q \<Longrightarrow> contents (push x q) = (if accepts x (contents q) then contents q @ [x] else contents q)"
  using push_contents [of q x] push_refused [of x q] by (cases "accepts x (contents q)") auto

end

end
