(* ===== verification/Pid_Queue.thy ===== *)
theory Pid_Queue
  imports Fifo
begin

text \<open>
  The circular queues of waiting PIDs: \<open>wait_queue\<close> with \<open>wait_head\<close>, \<open>wait_tail\<close>,
  \<open>wait_count\<close> of a semaphore (semaphore.c), and \<open>wait_readers\<close>, \<open>wait_writers\<close> with their
  indices of a pipe (pipe.c). Both have the same layout and the same pop and remove; they
  differ in push, where the pipe refuses a PID that is already queued.
\<close>

abbreviation MAX_PROCESSES :: nat where
  "MAX_PROCESSES \<equiv> 64"

record pidq =
  q_buf :: "nat \<Rightarrow> u64"
  q_head :: nat
  q_tail :: nat
  q_count :: nat

definition empty_q :: pidq where
  "empty_q = \<lparr>q_buf = (\<lambda>_. 0), q_head = 0, q_tail = 0, q_count = 0\<rparr>"

definition pids :: "pidq \<Rightarrow> u64 list" where
  "pids q = ring_list MAX_PROCESSES (q_buf q) (q_head q) (q_count q)"

definition q_ok :: "pidq \<Rightarrow> bool" where
  "q_ok q \<longleftrightarrow> q_head q < MAX_PROCESSES \<and> q_count q \<le> MAX_PROCESSES \<and>
     q_tail q = (q_head q + q_count q) mod MAX_PROCESSES"

section \<open>Operations\<close>

text \<open>\<open>queue_push\<close> of semaphore.c\<close>

definition sem_queue_push :: "u64 \<Rightarrow> pidq \<Rightarrow> pidq" where
  "sem_queue_push p q =
     (if q_count q \<ge> MAX_PROCESSES then q
      else q\<lparr>q_buf := (q_buf q)(q_tail q := p),
             q_tail := (q_tail q + 1) mod MAX_PROCESSES,
             q_count := q_count q + 1\<rparr>)"

text \<open>\<open>queue_pop\<close>; the callers check \<open>wait_count > 0\<close>.\<close>

definition queue_pop :: "pidq \<Rightarrow> u64 \<times> pidq" where
  "queue_pop q =
     (q_buf q (q_head q),
      q\<lparr>q_head := (q_head q + 1) mod MAX_PROCESSES, q_count := q_count q - 1\<rparr>)"

text \<open>
  \<open>queue_remove_pid\<close>: the scan collects the other PIDs and remembers whether the PID was
  seen; the queue is rebuilt from index 0 only if it was.
\<close>

fun remove_scan :: "(nat \<Rightarrow> u64) \<Rightarrow> u64 \<Rightarrow> nat \<Rightarrow> nat \<Rightarrow> u64 list \<times> bool" where
  "remove_scan buf p idx 0 = ([], False)"
| "remove_scan buf p idx (Suc n) =
     (let (new_q, found) = remove_scan buf p ((idx + 1) mod MAX_PROCESSES) n
      in if buf idx \<noteq> p then (buf idx # new_q, found) else (new_q, True))"

definition queue_remove_pid :: "u64 \<Rightarrow> pidq \<Rightarrow> bool \<times> pidq" where
  "queue_remove_pid p q =
     (if q_count q = 0 then (False, q)
      else let (new_q, found) = remove_scan (q_buf q) p (q_head q) (q_count q);
               new_count = length new_q
           in (found,
               if found then
                 q\<lparr>q_buf := copy_to new_count (\<lambda>i. new_q ! i) (q_buf q),
                   q_head := 0, q_tail := new_count, q_count := new_count\<rparr>
               else q))"

text \<open>\<open>queue_push\<close> of pipe.c: the head is recomputed from tail and count.\<close>

fun queued_scan :: "(nat \<Rightarrow> u64) \<Rightarrow> u64 \<Rightarrow> nat \<Rightarrow> nat \<Rightarrow> bool" where
  "queued_scan buf p idx 0 = False"
| "queued_scan buf p idx (Suc n) =
     (buf idx = p \<or> queued_scan buf p ((idx + 1) mod MAX_PROCESSES) n)"

definition pipe_queue_push :: "u64 \<Rightarrow> pidq \<Rightarrow> pidq" where
  "pipe_queue_push p q =
     (if q_count q \<ge> MAX_PROCESSES then q
      else let head = (q_tail q + MAX_PROCESSES - q_count q) mod MAX_PROCESSES
           in if queued_scan (q_buf q) p head (q_count q) then q
              else q\<lparr>q_buf := (q_buf q)(q_tail q := p),
                     q_tail := (q_tail q + 1) mod MAX_PROCESSES,
                     q_count := q_count q + 1\<rparr>)"

section \<open>What the operations do to the list of waiting PIDs\<close>

lemma empty_q [simp]: "pids empty_q = []" "q_ok empty_q"
  by (simp_all add: empty_q_def pids_def q_ok_def)

lemma length_pids [simp]: "length (pids q) = q_count q"
  by (simp add: pids_def)

lemma pids_eq_Nil [simp]: "pids q = [] \<longleftrightarrow> q_count q = 0"
  by (simp add: pids_def)

lemma q_ok_count: "q_ok q \<Longrightarrow> q_count q \<le> MAX_PROCESSES"
  by (simp add: q_ok_def)

lemma sem_queue_push_ok [inv_intros]: "q_ok q \<Longrightarrow> q_ok (sem_queue_push p q)"
  by (simp add: q_ok_def sem_queue_push_def mod_Suc_eq)

lemma pids_sem_queue_push [abs_simps]:
  "q_ok q \<Longrightarrow>
   pids (sem_queue_push p q) = (if q_count q < MAX_PROCESSES then pids q @ [p] else pids q)"
  by (simp add: q_ok_def sem_queue_push_def pids_def ring_list_write)

lemma queue_pop_ok [inv_intros]: "q_ok q \<Longrightarrow> 0 < q_count q \<Longrightarrow> q_ok (snd (queue_pop q))"
  using mod_pop [of "q_count q" "q_head q" MAX_PROCESSES]
  by (simp add: q_ok_def queue_pop_def le_diff_conv)

lemma pids_queue_pop [abs_simps]:
  "q_ok q \<Longrightarrow> 0 < q_count q \<Longrightarrow> pids q = fst (queue_pop q) # pids (snd (queue_pop q))"
  by (simp add: q_ok_def queue_pop_def pids_def ring_list_head)

lemma remove_scan_eq:
  "idx < MAX_PROCESSES \<Longrightarrow>
   remove_scan buf p idx n =
     (filter (\<lambda>x. x \<noteq> p) (ring_list MAX_PROCESSES buf idx n),
      p \<in> set (ring_list MAX_PROCESSES buf idx n))"
proof (induction n arbitrary: idx)
  case 0
  then show ?case by simp
next
  case (Suc n)
  then show ?case by (simp add: ring_list_head [of "Suc n"] Let_def)
qed

lemma queued_scan_eq:
  "idx < MAX_PROCESSES \<Longrightarrow>
   queued_scan buf p idx n \<longleftrightarrow> p \<in> set (ring_list MAX_PROCESSES buf idx n)"
proof (induction n arbitrary: idx)
  case 0
  then show ?case by simp
next
  case (Suc n)
  then show ?case by (auto simp: ring_list_head [of "Suc n"])
qed

lemma queue_remove_pid_found [abs_simps]:
  "q_ok q \<Longrightarrow> fst (queue_remove_pid p q) \<longleftrightarrow> p \<in> set (pids q)"
  by (auto simp: queue_remove_pid_def q_ok_def remove_scan_eq pids_def Let_def)

lemma pids_queue_remove_pid [abs_simps]:
  assumes "q_ok q"
  shows "pids (snd (queue_remove_pid p q)) = filter (\<lambda>x. x \<noteq> p) (pids q)"
proof (cases "p \<in> set (pids q)")
  case True
  let ?l = "filter (\<lambda>x. x \<noteq> p) (pids q)"
  have "length ?l \<le> MAX_PROCESSES"
    using assms length_filter_le [of "\<lambda>x. x \<noteq> p" "pids q"] by (simp add: q_ok_def)
  then have "ring_list MAX_PROCESSES (copy_to (length ?l) (\<lambda>i. ?l ! i) (q_buf q)) 0 (length ?l) = ?l"
    by (simp add: ring_list_linear copy_to_eq list_eq_iff_nth_eq)
  with True assms show ?thesis
    by (auto simp: queue_remove_pid_def q_ok_def remove_scan_eq pids_def Let_def)
next
  case False
  then have "filter (\<lambda>x. x \<noteq> p) (pids q) = pids q" by (auto intro: filter_True)
  with False assms show ?thesis
    by (auto simp: queue_remove_pid_def q_ok_def remove_scan_eq pids_def Let_def)
qed

lemma queue_remove_pid_ok [inv_intros]:
  assumes "q_ok q"
  shows "q_ok (snd (queue_remove_pid p q))"
proof (cases "p \<in> set (pids q)")
  case True
  have "length (filter (\<lambda>x. x \<noteq> p) (pids q)) < length (pids q)"
    using True by (intro length_filter_less) auto
  then have "length (filter (\<lambda>x. x \<noteq> p) (pids q)) < MAX_PROCESSES"
    using assms by (simp add: q_ok_def)
  with True assms show ?thesis
    by (auto simp: queue_remove_pid_def q_ok_def remove_scan_eq pids_def Let_def)
next
  case False
  with assms show ?thesis
    by (auto simp: queue_remove_pid_def q_ok_def remove_scan_eq pids_def Let_def)
qed

lemma pipe_head_eq:
  "q_ok q \<Longrightarrow> (q_tail q + MAX_PROCESSES - q_count q) mod MAX_PROCESSES = q_head q"
  by (auto simp: q_ok_def mod_if)

lemma pipe_queue_push_ok [inv_intros]: "q_ok q \<Longrightarrow> q_ok (pipe_queue_push p q)"
  by (simp add: q_ok_def pipe_queue_push_def mod_Suc_eq Let_def)

lemma pids_pipe_queue_push [abs_simps]:
  "q_ok q \<Longrightarrow>
   pids (pipe_queue_push p q) =
     (if q_count q < MAX_PROCESSES \<and> p \<notin> set (pids q) then pids q @ [p] else pids q)"
  using pipe_head_eq [of q]
  by (simp add: pipe_queue_push_def queued_scan_eq pids_def ring_list_write Let_def q_ok_def)

lemma sem_push_refused: "\<not> q_count q < MAX_PROCESSES \<Longrightarrow> sem_queue_push p q = q"
  by (simp add: sem_queue_push_def)

lemma pipe_push_refused:
  "\<not> (q_count q < MAX_PROCESSES \<and> p \<notin> set (pids q)) \<Longrightarrow> q_ok q \<Longrightarrow> pipe_queue_push p q = q"
  using pipe_head_eq [of q]
  by (auto simp: pipe_queue_push_def queued_scan_eq pids_def Let_def q_ok_def)

section \<open>Both are FIFO queues\<close>

interpretation semq: refusing_fifo sem_queue_push queue_pop pids q_ok "\<lambda>_ l. length l < MAX_PROCESSES"
  by unfold_locales (auto simp: abs_simps inv_intros sem_push_refused)

interpretation semq: bounded_fifo sem_queue_push queue_pop pids q_ok MAX_PROCESSES
  by unfold_locales (simp add: q_ok_def)

interpretation pipeq: refusing_fifo pipe_queue_push queue_pop pids q_ok
    "\<lambda>p l. length l < MAX_PROCESSES \<and> p \<notin> set l"
  by unfold_locales (auto simp: abs_simps inv_intros pipe_push_refused)

end
