(* ===== verification/Mm_Interface.thy ===== *)
theory Mm_Interface
  imports Prelude
begin

text \<open>
  The interface \<open>memoryManager.h\<close>, which the two memory managers of the kernel implement
  (\<open>memoryManagerFF.c\<close> and \<open>memoryManagerBuddy.c\<close>, one of which is linked): what the
  rest of the kernel relies on when it allocates a stack or a copy of \<open>argv\<close>.

  \<open>live h\<close> is the map of allocated payloads: address to payload size and the
  \<open>is_kernel\<close> mark. A request that would overflow the managers' size arithmetic is not
  \<open>fits\<close>; for such a request the interface promises nothing about the size.
\<close>

record mem_status =
  ms_total :: u64
  ms_free :: u64
  ms_used :: u64
  ms_used_kernel :: u64
  ms_alloc_count :: u64

type_synonym payloads = "u64 \<Rightarrow> (nat \<times> bool) option"

definition disjoint_payloads :: "payloads \<Rightarrow> bool" where
  "disjoint_payloads m \<longleftrightarrow>
     (\<forall>p q s t k l. m p = Some (s, k) \<longrightarrow> m q = Some (t, l) \<longrightarrow> p \<noteq> q \<longrightarrow>
        unat p + s \<le> unat q \<or> unat q + t \<le> unat p)"

locale memory_manager =
  fixes malloc_impl :: "u64 \<Rightarrow> bool \<Rightarrow> 'h \<Rightarrow> u64 \<times> 'h"
    and free_impl :: "u64 \<Rightarrow> 'h \<Rightarrow> 'h option"
    and live :: "'h \<Rightarrow> payloads"
    and ok :: "'h \<Rightarrow> bool"
    and fits :: "u64 \<Rightarrow> bool"
  assumes malloc_null: "ok h \<Longrightarrow> malloc_impl n k h = (0, h') \<Longrightarrow> h' = h"
    and malloc_live: "ok h \<Longrightarrow> malloc_impl n k h = (p, h') \<Longrightarrow> p \<noteq> 0 \<Longrightarrow>
      ok h' \<and> live h p = None \<and>
      (\<exists>s. live h' = (live h)(p \<mapsto> (s, k)) \<and> (fits n \<longrightarrow> unat n \<le> s))"
    and live_disjoint: "ok h \<Longrightarrow> disjoint_payloads (live h)"
    and live_nonnull: "ok h \<Longrightarrow> live h 0 = None"
    and live_bounds: "ok h \<Longrightarrow> live h p = Some (s, k) \<Longrightarrow> unat p + s \<le> 2 ^ 64"
    and free_live: "ok h \<Longrightarrow> live h p \<noteq> None \<Longrightarrow>
      \<exists>h'. free_impl p h = Some h' \<and> ok h' \<and> live h' = (live h)(p := None)"
begin

lemma malloc_ok: "ok h \<Longrightarrow> ok (snd (malloc_impl n k h))"
  using malloc_null [of h n k] malloc_live [of h n k]
  by (cases "malloc_impl n k h") (metis snd_conv)

text \<open>A fresh allocation does not overlap anything that was live.\<close>

lemma malloc_fresh_disjoint:
  assumes "ok h" and "malloc_impl n k h = (p, h')" and "p \<noteq> 0" and "fits n"
    and "live h q = Some (t, l)"
  shows "unat p + unat n \<le> unat q \<or> unat q + t \<le> unat p"
proof -
  obtain s where s: "live h' = (live h)(p \<mapsto> (s, k))" "unat n \<le> s" "ok h'" "live h p = None"
    using malloc_live [OF assms(1-3)] assms(4) by auto
  then have "p \<noteq> q" using assms(5) by auto
  moreover have "live h' p = Some (s, k)" "live h' q = Some (t, l)"
    using s assms(5) by auto
  ultimately have "unat p + s \<le> unat q \<or> unat q + t \<le> unat p"
    using live_disjoint [OF s(3)] unfolding disjoint_payloads_def by blast
  with s(2) show ?thesis by auto
qed

text \<open>Live blocks can be freed in any order, each exactly once.\<close>

lemma free_all:
  assumes "ok h" and "distinct ps" and "set ps \<subseteq> dom (live h)"
  shows "\<exists>h'. fold (\<lambda>p r. Option.bind r (free_impl p)) ps (Some h) = Some h' \<and> ok h' \<and>
    live h' = (\<lambda>p. if p \<in> set ps then None else live h p)"
  using assms
proof (induction ps arbitrary: h)
  case Nil
  then show ?case by simp
next
  case (Cons p ps)
  then obtain h1 where h1: "free_impl p h = Some h1" "ok h1" "live h1 = (live h)(p := None)"
    using free_live [of h p] by auto
  have "set ps \<subseteq> dom (live h1)" using Cons.prems h1(3) by auto
  from Cons.IH [OF h1(2) _ this] Cons.prems(2) obtain h' where
    "fold (\<lambda>p r. Option.bind r (free_impl p)) ps (Some h1) = Some h'" "ok h'"
    "live h' = (\<lambda>p. if p \<in> set ps then None else live h1 p)" by auto
  then show ?case using h1 by (auto simp: fun_eq_iff)
qed

text \<open>Freeing what was just allocated gives back the payloads there were before.\<close>

lemma malloc_free_live:
  assumes "ok h" and "malloc_impl n k h = (p, h')" and "p \<noteq> 0"
  shows "\<exists>h''. free_impl p h' = Some h'' \<and> ok h'' \<and> live h'' = live h"
proof -
  obtain s where s: "live h' = (live h)(p \<mapsto> (s, k))" "ok h'" "live h p = None"
    using malloc_live [OF assms] by auto
  then obtain h'' where "free_impl p h' = Some h''" "ok h''" "live h'' = (live h')(p := None)"
    using free_live [of h' p] by auto
  then show ?thesis using s by (auto simp: fun_upd_idem)
qed

end

end
