(* ===== verification/Mm_FirstFit.thy ===== *)
theory Mm_FirstFit
  imports Mm_Interface
begin

text \<open>
  The default memory manager, \<open>Kernel/c/memoryManager/memoryManagerFF.c\<close>: a linked list of
  blocks, each a 24-byte header followed by its payload, in address order.

  The list of \<open>MemBlock\<close>s reachable from \<open>heap_start\<close> is an Isabelle list of headers in the
  order of the \<open>next\<close> links, each with its address; \<open>heap_start == NULL\<close> is the empty list.
  Sizes and addresses are 64-bit words, with the code's wrap-around. \<open>mm_free\<close> of an address
  that is not the payload of a block of the list has no defined behaviour in C and is \<open>None\<close>.
\<close>

record mem_block =
  mb_addr :: u64
  mb_size :: u64
  mb_free :: bool
  mb_kernel :: bool

type_synonym ff_heap = "mem_block list"

abbreviation HDR :: u64 where
  "HDR \<equiv> 24"

abbreviation MIN_SPLIT :: u64 where
  "MIN_SPLIT \<equiv> 32"

section \<open>Operations\<close>

definition ff_init :: "u64 \<Rightarrow> u64 \<Rightarrow> ff_heap \<Rightarrow> ff_heap" where
  "ff_init start sz h =
     (if sz \<le> HDR then h
      else [\<lparr>mb_addr = start, mb_size = sz - HDR, mb_free = True, mb_kernel = False\<rparr>])"

text \<open>The \<open>while (block != NULL)\<close> loop of \<open>malloc_impl\<close>.\<close>

fun ff_alloc :: "u64 \<Rightarrow> bool \<Rightarrow> ff_heap \<Rightarrow> u64 \<times> ff_heap" where
  "ff_alloc sz kern [] = (0, [])"
| "ff_alloc sz kern (b # bs) =
     (if mb_free b \<and> mb_size b \<ge> sz then
        (if mb_size b \<ge> sz + MIN_SPLIT then
           (mb_addr b + HDR,
            b\<lparr>mb_size := sz, mb_free := False, mb_kernel := kern\<rparr>
            # \<lparr>mb_addr = mb_addr b + HDR + sz, mb_size = mb_size b - sz - HDR,
               mb_free = True, mb_kernel = False\<rparr>
            # bs)
         else (mb_addr b + HDR, b\<lparr>mb_free := False, mb_kernel := kern\<rparr> # bs))
      else let (p, bs') = ff_alloc sz kern bs in (p, b # bs'))"

definition align8 :: "u64 \<Rightarrow> u64" where
  "align8 sz = (sz + 7) AND NOT 7"

definition ff_malloc_impl :: "u64 \<Rightarrow> bool \<Rightarrow> ff_heap \<Rightarrow> u64 \<times> ff_heap" where
  "ff_malloc_impl sz kern h =
     (if sz = 0 \<or> h = [] then (0, h) else ff_alloc (align8 sz) kern h)"

text \<open>The forward coalescing loop of \<open>mm_free\<close>: the block and what follows it.\<close>

fun ff_absorb :: "mem_block \<Rightarrow> mem_block list \<Rightarrow> mem_block \<times> mem_block list" where
  "ff_absorb b [] = (b, [])"
| "ff_absorb b (n # ns) =
     (if mb_free n then ff_absorb (b\<lparr>mb_size := mb_size b + (HDR + mb_size n)\<rparr>) ns
      else (b, n # ns))"

text \<open>
  \<open>mm_free\<close>: the block whose header is at \<open>a\<close> is marked free and absorbs its successors; a
  predecessor that is free absorbs the result.
\<close>

fun ff_free_at :: "u64 \<Rightarrow> ff_heap \<Rightarrow> ff_heap option" where
  "ff_free_at a [] = None"
| "ff_free_at a [b] = None"
| "ff_free_at a (prev # b # bs) =
     (if mb_addr b = a then
        Some (let (b', bs') = ff_absorb (b\<lparr>mb_free := True\<rparr>) bs
              in if mb_free prev then prev\<lparr>mb_size := mb_size prev + (HDR + mb_size b')\<rparr> # bs'
                 else prev # b' # bs')
      else map_option (Cons prev) (ff_free_at a (b # bs)))"

definition ff_free :: "u64 \<Rightarrow> ff_heap \<Rightarrow> ff_heap option" where
  "ff_free ptr h =
     (if ptr = 0 then Some h
      else case h of [] \<Rightarrow> None
      | b # bs \<Rightarrow>
          if mb_addr b = ptr - HDR then
            Some (let (b', bs') = ff_absorb (b\<lparr>mb_free := True\<rparr>) bs in b' # bs')
          else ff_free_at (ptr - HDR) h)"

text \<open>One iteration of \<open>mm_status\<close>, and the loop.\<close>

definition ff_count :: "mem_block \<Rightarrow> mem_status \<Rightarrow> mem_status" where
  "ff_count b st =
     (let bsz = mb_size b + HDR;
          st = st\<lparr>ms_total := ms_total st + bsz\<rparr>
      in if mb_free b then st\<lparr>ms_free := ms_free st + bsz\<rparr>
         else if mb_kernel b then st\<lparr>ms_used_kernel := ms_used_kernel st + bsz\<rparr>
         else st\<lparr>ms_used := ms_used st + bsz, ms_alloc_count := ms_alloc_count st + 1\<rparr>)"

definition ff_status :: "ff_heap \<Rightarrow> mem_status option" where
  "ff_status h =
     (if h = [] then None
      else Some (fold ff_count h
        \<lparr>ms_total = 0, ms_free = 0, ms_used = 0, ms_used_kernel = 0, ms_alloc_count = 0\<rparr>))"

section \<open>Well-formed heaps\<close>

text \<open>The blocks lie one behind the other from address \<open>a\<close> to address \<open>e\<close>.\<close>

fun chain :: "nat \<Rightarrow> ff_heap \<Rightarrow> nat \<Rightarrow> bool" where
  "chain a [] e = (a = e)"
| "chain a (b # bs) e = (unat (mb_addr b) = a \<and> chain (a + 24 + unat (mb_size b)) bs e)"

text \<open>No two neighbours are both free.\<close>

fun coalesced :: "ff_heap \<Rightarrow> bool" where
  "coalesced (b # c # bs) = (\<not> (mb_free b \<and> mb_free c) \<and> coalesced (c # bs))"
| "coalesced _ = True"

definition aligned :: "ff_heap \<Rightarrow> bool" where
  "aligned h \<longleftrightarrow> (\<forall>b \<in> set h. 8 dvd unat (mb_size b))"

definition ff_ok :: "nat \<Rightarrow> nat \<Rightarrow> ff_heap \<Rightarrow> bool" where
  "ff_ok a e h \<longleftrightarrow> 8 \<le> a \<and> h \<noteq> [] \<and> chain a h e \<and> coalesced h \<and> aligned h \<and> e < 2 ^ 64"

fun ff_live :: "ff_heap \<Rightarrow> payloads" where
  "ff_live [] = Map.empty"
| "ff_live (b # bs) =
     (if mb_free b then ff_live bs
      else (ff_live bs)(mb_addr b + HDR \<mapsto> (unat (mb_size b), mb_kernel b)))"


section \<open>Chains\<close>

lemma chain_le: "chain a bs e \<Longrightarrow> a \<le> e"
  by (induction bs arbitrary: a) fastforce+

lemma chain_append:
  "chain a (xs @ ys) e \<longleftrightarrow> (\<exists>m. chain a xs m \<and> chain m ys e)"
  by (induction xs arbitrary: a) auto

text \<open>Where the chain ends below \<open>2^64\<close>, header arithmetic does not wrap.\<close>

lemma unat_add_small:
  "unat (x :: u64) + unat y < 2 ^ 64 \<Longrightarrow> unat (x + y) = unat x + unat y"
  by (simp add: unat_word_ariths)

lemma chain_payload:
  assumes "chain a (b # bs) e" and "e < 2 ^ 64"
  shows "unat (mb_addr b + HDR) = a + 24" and "a + 24 + unat (mb_size b) \<le> e"
proof -
  have le: "a + 24 + unat (mb_size b) \<le> e" using assms(1) chain_le by simp blast
  then show "a + 24 + unat (mb_size b) \<le> e" .
  have "unat (mb_addr b) = a" using assms(1) by simp
  then show "unat (mb_addr b + HDR) = a + 24"
    using le assms(2) unat_add_small [of "mb_addr b" HDR] by simp
qed

lemma chain_payload_nonzero:
  assumes "chain a (b # bs) e" and "e < 2 ^ 64"
  shows "mb_addr b + HDR \<noteq> 0"
  using chain_payload(1) [OF assms] by (metis unat_0 add_is_0 zero_neq_numeral)

lemma ff_live_bounds:
  "chain a bs e \<Longrightarrow> e < 2 ^ 64 \<Longrightarrow> ff_live bs p = Some (s, k) \<Longrightarrow>
   a + 24 \<le> unat p \<and> unat p + s \<le> e"
proof (induction bs arbitrary: a)
  case Nil
  then show ?case by simp
next
  case (Cons b bs)
  note pl = chain_payload [OF Cons.prems(1,2)]
  show ?case
  proof (cases "\<not> mb_free b \<and> p = mb_addr b + HDR")
    case True
    then show ?thesis using Cons.prems(3) pl by auto
  next
    case False
    then have "ff_live bs p = Some (s, k)" using Cons.prems(3) by (auto split: if_splits)
    from Cons.IH [OF _ Cons.prems(2) this] Cons.prems(1) show ?thesis by fastforce
  qed
qed

lemma ff_live_fresh:
  assumes "chain a (b # bs) e" and "e < 2 ^ 64"
  shows "ff_live bs (mb_addr b + HDR) = None"
proof (rule ccontr)
  assume "ff_live bs (mb_addr b + HDR) \<noteq> None"
  then obtain s k where "ff_live bs (mb_addr b + HDR) = Some (s, k)" by auto
  from ff_live_bounds [OF _ assms(2) this] assms(1) chain_payload(1) [OF assms]
  show False by fastforce
qed

lemma ff_live_disjoint:
  "chain a bs e \<Longrightarrow> e < 2 ^ 64 \<Longrightarrow> disjoint_payloads (ff_live bs)"
proof (induction bs arbitrary: a)
  case Nil
  then show ?case by (simp add: disjoint_payloads_def)
next
  case (Cons b bs)
  have IH: "disjoint_payloads (ff_live bs)" using Cons by auto
  note pl = chain_payload [OF Cons.prems]
  have tail: "unat (mb_addr b + HDR) + unat (mb_size b) \<le> unat q"
    if "ff_live bs q = Some (t, l)" for q t l
    using ff_live_bounds [OF _ Cons.prems(2) that] Cons.prems(1) pl by fastforce
  show ?case
  proof (cases "mb_free b")
    case True
    then show ?thesis using IH by simp
  next
    case False
    then show ?thesis
      using IH tail unfolding disjoint_payloads_def by (auto split: if_splits)
  qed
qed

section \<open>Allocation\<close>

lemma unat_sub_split:
  assumes "mb_size b \<ge> sz + MIN_SPLIT" and "mb_size b \<ge> sz"
    and "unat sz + 32 < 2 ^ 64"
  shows "unat (mb_size b - sz - HDR) = unat (mb_size b) - unat sz - 24"
    and "unat sz + 32 \<le> unat (mb_size b)"
proof -
  have s: "unat (sz + MIN_SPLIT) = unat sz + 32" using assms(3) unat_add_small [of sz 32] by simp
  then show le: "unat sz + 32 \<le> unat (mb_size b)" using assms(1) by (simp add: word_le_nat_alt)
  have d: "unat (mb_size b - sz) = unat (mb_size b) - unat sz"
    using assms(2) by (simp add: unat_sub)
  have "HDR \<le> mb_size b - sz" using d le by (simp add: word_le_nat_alt)
  then show "unat (mb_size b - sz - HDR) = unat (mb_size b) - unat sz - 24"
    using d by (simp add: unat_sub)
qed

text \<open>First fit: the loop takes the first block that is free and large enough.\<close>

definition fit :: "u64 \<Rightarrow> mem_block \<Rightarrow> bool" where
  "fit sz b \<longleftrightarrow> mb_free b \<and> mb_size b \<ge> sz"

definition carve :: "u64 \<Rightarrow> bool \<Rightarrow> mem_block \<Rightarrow> mem_block list" where
  "carve sz kern b =
     (if mb_size b \<ge> sz + MIN_SPLIT then
        [b\<lparr>mb_size := sz, mb_free := False, mb_kernel := kern\<rparr>,
         \<lparr>mb_addr = mb_addr b + HDR + sz, mb_size = mb_size b - sz - HDR,
          mb_free = True, mb_kernel = False\<rparr>]
      else [b\<lparr>mb_free := False, mb_kernel := kern\<rparr>])"

lemma ff_alloc_no_fit:
  "\<forall>b \<in> set bs. \<not> fit sz b \<Longrightarrow> ff_alloc sz k bs = (0, bs)"
  by (induction bs) (auto simp: fit_def)

lemma ff_alloc_fit:
  "\<forall>c \<in> set pre. \<not> fit sz c \<Longrightarrow> fit sz b \<Longrightarrow>
   ff_alloc sz k (pre @ b # post) = (mb_addr b + HDR, pre @ carve sz k b @ post)"
  by (induction pre) (auto simp: fit_def carve_def)

lemma first_fit_split:
  "(\<forall>b \<in> set bs. \<not> fit sz b) \<or>
   (\<exists>pre b post. bs = pre @ b # post \<and> (\<forall>c \<in> set pre. \<not> fit sz c) \<and> fit sz b)"
  by (metis split_list_first_prop)

lemma ff_live_append: "ff_live (xs @ ys) = ff_live ys ++ ff_live xs"
  by (induction xs) (auto simp: fun_eq_iff map_add_def)

lemma coalesced_Cons:
  "coalesced (b # bs) \<longleftrightarrow> coalesced bs \<and> \<not> (bs \<noteq> [] \<and> mb_free b \<and> mb_free (hd bs))"
  by (cases bs) auto

lemma coalesced_append:
  "coalesced (xs @ ys) \<longleftrightarrow> coalesced xs \<and> coalesced ys \<and>
     \<not> (xs \<noteq> [] \<and> ys \<noteq> [] \<and> mb_free (last xs) \<and> mb_free (hd ys))"
proof (induction xs)
  case Nil
  then show ?case by simp
next
  case (Cons x xs)
  then show ?case by (cases xs) (auto simp: coalesced_Cons)
qed

lemma aligned_simps [simp]:
  "aligned []"
  "aligned (b # bs) \<longleftrightarrow> 8 dvd unat (mb_size b) \<and> aligned bs"
  "aligned (xs @ ys) \<longleftrightarrow> aligned xs \<and> aligned ys"
  by (auto simp: aligned_def)

text \<open>The blocks a hit is replaced by cover the same range and hold one payload.\<close>

lemma carve_arith:
  assumes "chain a (b # bs) e" and "8 \<le> a" and "e < 2 ^ 64" and "fit sz b"
    and "mb_size b \<ge> sz + MIN_SPLIT"
  shows "unat (mb_addr b + HDR + sz) = a + 24 + unat sz"
    and "unat (mb_size b - sz - HDR) = unat (mb_size b) - unat sz - 24"
    and "unat sz + 32 \<le> unat (mb_size b)"
proof -
  note pl = chain_payload [OF assms(1,3)]
  have sz: "unat sz \<le> unat (mb_size b)" using assms(4) by (simp add: fit_def word_le_nat_alt)
  have "unat sz + 32 < 2 ^ 64" using sz pl(2) assms(2,3) by linarith
  note sub = unat_sub_split [OF assms(5) _ this]
  show "unat (mb_size b - sz - HDR) = unat (mb_size b) - unat sz - 24"
    and "unat sz + 32 \<le> unat (mb_size b)"
    using sub assms(4) by (simp_all add: fit_def)
  have "unat (mb_addr b + HDR) + unat sz < 2 ^ 64" using pl sz assms(3) by linarith
  from unat_add_small [OF this] show "unat (mb_addr b + HDR + sz) = a + 24 + unat sz"
    using pl(1) by simp
qed

lemma chain_carve:
  assumes "chain a (b # bs) e" and "8 \<le> a" and "e < 2 ^ 64" and "fit sz b"
  shows "chain a (carve sz k b @ bs) e"
proof (cases "mb_size b \<ge> sz + MIN_SPLIT")
  case True
  note ar = carve_arith [OF assms True]
  have "a + 24 + unat sz + 24 + (unat (mb_size b) - unat sz - 24) = a + 24 + unat (mb_size b)"
    using ar(3) by simp
  then show ?thesis using True assms(1) ar by (simp add: carve_def ac_simps)
next
  case False
  then show ?thesis using assms(1) by (simp add: carve_def)
qed

lemma ff_live_carve:
  "ff_live (carve sz k b) =
     [mb_addr b + HDR \<mapsto> (unat (if mb_size b \<ge> sz + MIN_SPLIT then sz else mb_size b), k)]"
  by (simp add: carve_def)

lemma carve_shape [simp]:
  "carve sz k b \<noteq> []" "\<not> mb_free (hd (carve sz k b))" "mb_addr (hd (carve sz k b)) = mb_addr b"
  by (simp_all add: carve_def)

lemma coalesced_carve:
  "mb_free b \<Longrightarrow> coalesced (b # bs) \<Longrightarrow> coalesced (carve sz k b @ bs)"
  by (auto simp: carve_def coalesced_Cons)

lemma dvd8_carve:
  assumes "chain a (b # bs) e" and "8 \<le> a" and "e < 2 ^ 64" and "fit sz b"
    and "8 dvd unat (mb_size b)" and "8 dvd unat sz"
  shows "aligned (carve sz k b)"
proof (cases "mb_size b \<ge> sz + MIN_SPLIT")
  case True
  have "8 dvd unat (mb_size b) - unat sz - (24 :: nat)"
    using assms(5,6) by (intro dvd_diff_nat) auto
  then show ?thesis
    using carve_arith(2) [OF assms(1-4) True] assms(6) by (simp add: carve_def True)
next
  case False
  then show ?thesis using assms(5) by (simp add: carve_def)
qed

theorem ff_alloc_ok:
  assumes ok: "ff_ok a e h" and "ff_alloc sz k h = (p, h')" and dvd: "8 dvd unat sz"
  shows "(p = 0 \<longrightarrow> h' = h) \<and>
    (p \<noteq> 0 \<longrightarrow> ff_ok a e h' \<and> ff_live h p = None \<and>
      (\<exists>s. ff_live h' = (ff_live h)(p \<mapsto> (s, k)) \<and> unat sz \<le> s))"
proof (cases "\<forall>b \<in> set h. \<not> fit sz b")
  case True
  then show ?thesis using ff_alloc_no_fit [of h sz k] assms(2) by simp
next
  case False
  then obtain pre b post where h: "h = pre @ b # post"
    and pre: "\<forall>c \<in> set pre. \<not> fit sz c" and b: "fit sz b"
    using first_fit_split by blast
  then have p: "p = mb_addr b + HDR" and h': "h' = pre @ carve sz k b @ post"
    using ff_alloc_fit [OF pre b, of k post] assms(2) by auto
  obtain m where m: "chain a pre m" "chain m (b # post) e"
    using ok h by (auto simp: ff_ok_def chain_append)
  have bounds: "8 \<le> m" "e < 2 ^ 64" using ok chain_le [OF m(1)] by (auto simp: ff_ok_def)
  have "chain a h' e"
    using m(1) chain_carve [OF m(2) bounds b] unfolding h' chain_append by blast
  moreover have "coalesced h'"
    using ok b coalesced_carve [of b post sz k] unfolding h' h ff_ok_def
    by (auto simp: coalesced_append fit_def)
  moreover have "aligned h'"
    using ok dvd8_carve [OF m(2) bounds b _ dvd] unfolding h' h ff_ok_def by auto
  ultimately have ok': "ff_ok a e h'" using ok by (simp add: ff_ok_def h')
  have pre_live: "ff_live pre p = None"
  proof (rule ccontr)
    assume "ff_live pre p \<noteq> None"
    then obtain s l where "ff_live pre p = Some (s, l)" by auto
    from ff_live_bounds [OF m(1) _ this] chain_le [OF m(2)] bounds(2)
      chain_payload(1) [OF m(2) bounds(2)] p
    show False by simp
  qed
  have fresh: "ff_live h p = None"
    using pre_live ff_live_fresh [OF m(2) bounds(2)] b p
    by (simp add: h ff_live_append map_add_def fit_def)
  have "ff_live h' = (ff_live h)(p \<mapsto> (unat (if mb_size b \<ge> sz + MIN_SPLIT then sz else mb_size b), k))"
    using b pre_live p
    by (auto simp: h h' ff_live_append ff_live_carve map_add_def fun_eq_iff fit_def split: option.splits)
  moreover have "unat sz \<le> unat (if mb_size b \<ge> sz + MIN_SPLIT then sz else mb_size b)"
    using b by (simp add: fit_def word_le_nat_alt)
  moreover have "p \<noteq> 0" using chain_payload_nonzero [OF m(2) bounds(2)] p by simp
  ultimately show ?thesis using ok' fresh by blast
qed

section \<open>Release\<close>

lemma merge_size:
  assumes "chain m (b # n # ns) e" and "e < 2 ^ 64"
  shows "unat (mb_size b + (HDR + mb_size n)) = unat (mb_size b) + 24 + unat (mb_size n)"
proof -
  have "m + 24 + unat (mb_size b) + 24 + unat (mb_size n) \<le> e"
    using assms(1) chain_le by simp blast
  with assms(2) have lt: "unat (mb_size b) + (24 + unat (mb_size n)) < 2 ^ 64" by linarith
  then have "unat (HDR + mb_size n) = 24 + unat (mb_size n)"
    using unat_add_small [of HDR "mb_size n"] by simp
  then show ?thesis using lt unat_add_small [of "mb_size b" "HDR + mb_size n"] by simp
qed

lemma chain_merge:
  assumes "chain m (b # n # ns) e" and "e < 2 ^ 64"
  shows "chain m (b\<lparr>mb_size := mb_size b + (HDR + mb_size n)\<rparr> # ns) e"
proof -
  have eq: "m + 24 + unat (mb_size b + (HDR + mb_size n)) =
      m + 24 + unat (mb_size b) + 24 + unat (mb_size n)"
    unfolding merge_size [OF assms] by simp
  have "unat (mb_addr b) = m" and "chain (m + 24 + unat (mb_size b) + 24 + unat (mb_size n)) ns e"
    using assms(1) by simp_all
  note this(1) this(2) [folded eq]
  then show ?thesis by simp
qed

lemma ff_absorb_spec:
  "ff_absorb b bs = (b', bs') \<Longrightarrow> chain m (b # bs) e \<Longrightarrow> e < 2 ^ 64 \<Longrightarrow>
   chain m (b' # bs') e \<and> ff_live bs' = ff_live bs \<and> mb_free b' = mb_free b \<and>
   mb_addr b' = mb_addr b \<and> (bs' \<noteq> [] \<longrightarrow> \<not> mb_free (hd bs')) \<and>
   (coalesced bs \<longrightarrow> coalesced bs') \<and>
   (aligned (b # bs) \<longrightarrow> aligned (b' # bs'))"
proof (induction b bs rule: ff_absorb.induct)
  case (1 b)
  then show ?case by simp
next
  case (2 b n ns)
  show ?case
  proof (cases "mb_free n")
    case True
    note sz = merge_size [OF "2.prems"(2,3)]
    let ?b = "b\<lparr>mb_size := mb_size b + (HDR + mb_size n)\<rparr>"
    have "chain m (?b # ns) e" by (rule chain_merge [OF "2.prems"(2,3)])
    from "2.IH" [OF True _ this "2.prems"(3)] "2.prems"(1) True sz
    show ?thesis by (auto simp: coalesced_Cons)
  next
    case False
    then show ?thesis using "2.prems" by auto
  qed
qed

text \<open>The blocks that replace a released one, given the block before it.\<close>

definition melt :: "mem_block \<Rightarrow> mem_block list \<Rightarrow> mem_block list" where
  "melt b bs = (let (b', bs') = ff_absorb (b\<lparr>mb_free := True\<rparr>) bs in b' # bs')"

definition melt_after :: "mem_block \<Rightarrow> mem_block \<Rightarrow> mem_block list \<Rightarrow> mem_block list" where
  "melt_after prev b bs =
     (if mb_free prev then
        prev\<lparr>mb_size := mb_size prev + (HDR + mb_size (hd (melt b bs)))\<rparr> # tl (melt b bs)
      else prev # melt b bs)"

lemma ff_free_at_hit:
  "\<forall>c \<in> set (tl (pre @ [prev])). mb_addr c \<noteq> mb_addr b \<Longrightarrow>
   ff_free_at (mb_addr b) (pre @ prev # b # post) = Some (pre @ melt_after prev b post)"
proof (induction pre)
  case Nil
  then show ?case by (simp add: melt_after_def melt_def case_prod_beta Let_def)
next
  case (Cons c pre)
  then show ?case
    by (cases pre) (auto simp: Let_def)
qed

lemma melt_spec:
  assumes "chain m (b # bs) e" and "e < 2 ^ 64" and "coalesced bs" and "aligned (b # bs)"
  shows "chain m (melt b bs) e" and "ff_live (melt b bs) = ff_live bs" and "coalesced (melt b bs)"
    and "aligned (melt b bs)" and "melt b bs \<noteq> []" and "mb_free (hd (melt b bs))"
    and "tl (melt b bs) \<noteq> [] \<Longrightarrow> \<not> mb_free (hd (tl (melt b bs)))"
    and "coalesced (tl (melt b bs))"
proof -
  obtain b' bs' where ab: "ff_absorb (b\<lparr>mb_free := True\<rparr>) bs = (b', bs')"
    by (cases "ff_absorb (b\<lparr>mb_free := True\<rparr>) bs")
  have "chain m (b\<lparr>mb_free := True\<rparr> # bs) e" using assms(1) by simp
  from ff_absorb_spec [OF ab this assms(2)] assms(3,4)
  show "chain m (melt b bs) e" and "ff_live (melt b bs) = ff_live bs" and "coalesced (melt b bs)"
    and "aligned (melt b bs)" and "melt b bs \<noteq> []" and "mb_free (hd (melt b bs))"
    and "tl (melt b bs) \<noteq> [] \<Longrightarrow> \<not> mb_free (hd (tl (melt b bs)))"
    and "coalesced (tl (melt b bs))"
    by (auto simp: melt_def ab coalesced_Cons)
qed

lemma melt_after_spec:
  assumes "chain m (prev # b # bs) e" and "e < 2 ^ 64" and "coalesced bs"
    and "aligned (prev # b # bs)"
  shows "chain m (melt_after prev b bs) e"
    and "ff_live (melt_after prev b bs) = ff_live bs ++ ff_live [prev]"
    and "coalesced (melt_after prev b bs)" and "aligned (melt_after prev b bs)"
    and "melt_after prev b bs \<noteq> []" and "mb_free (hd (melt_after prev b bs)) = mb_free prev"
proof -
  let ?m = "m + 24 + unat (mb_size prev)"
  have ch: "chain ?m (b # bs) e" and al: "aligned (b # bs)" using assms(1,4) by simp_all
  note mt = melt_spec [OF ch assms(2,3) al]
  obtain c cs where c: "melt b bs = c # cs" using mt(5) by (cases "melt b bs") auto
  have cc: "chain m (prev # c # cs) e" using mt(1) assms(1) c by simp
  have sz: "unat (mb_size prev + (HDR + mb_size c)) = unat (mb_size prev) + 24 + unat (mb_size c)"
    by (rule merge_size [OF cc assms(2)])
  show "chain m (melt_after prev b bs) e"
    using cc chain_merge [OF cc assms(2)] by (simp add: melt_after_def c)
  show "ff_live (melt_after prev b bs) = ff_live bs ++ ff_live [prev]"
  proof (cases "mb_free prev")
    case True
    then show ?thesis using mt(2,6) c by (simp add: melt_after_def)
  next
    case False
    have "ff_live bs (mb_addr prev + HDR) = None"
      using ff_live_fresh [OF assms(1,2)] by (simp split: if_splits)
    then show ?thesis
      using False mt(2,6) c by (auto simp: melt_after_def fun_eq_iff map_add_def split: option.splits)
  qed
  show "coalesced (melt_after prev b bs)"
    using mt(3,7,8) c by (auto simp: melt_after_def coalesced_Cons)
  show "aligned (melt_after prev b bs)"
    using mt(4) assms(4) sz by (auto simp: melt_after_def c)
  show "melt_after prev b bs \<noteq> []" and "mb_free (hd (melt_after prev b bs)) = mb_free prev"
    by (simp_all add: melt_after_def)
qed

text \<open>Which block is released: the one whose payload starts at the pointer.\<close>

lemma ff_live_mem:
  "ff_live bs p = Some (s, k) \<Longrightarrow>
   \<exists>pre b post. bs = pre @ b # post \<and> \<not> mb_free b \<and> p = mb_addr b + HDR"
proof (induction bs)
  case Nil
  then show ?case by simp
next
  case (Cons c bs)
  show ?case
  proof (cases "\<not> mb_free c \<and> p = mb_addr c + HDR")
    case True
    then show ?thesis by (intro exI [of _ "[]"]) auto
  next
    case False
    with Cons.prems have "ff_live bs p = Some (s, k)" by (auto split: if_splits)
    from Cons.IH [OF this] show ?thesis by (metis append_Cons)
  qed
qed

lemma chain_addr_less:
  assumes "chain a (pre @ b # post) e" and "c \<in> set pre"
  shows "unat (mb_addr c) < unat (mb_addr b)"
  using assms
proof (induction pre arbitrary: a)
  case Nil
  then show ?case by simp
next
  case (Cons d pre)
  from Cons.prems(1) have ch: "chain (a + 24 + unat (mb_size d)) (pre @ b # post) e"
    and d: "unat (mb_addr d) = a" by simp_all
  obtain m where "chain (a + 24 + unat (mb_size d)) pre m" "chain m (b # post) e"
    using ch unfolding chain_append by blast
  then have "a + 24 \<le> unat (mb_addr b)" using chain_le by fastforce
  with Cons.IH [OF ch] Cons.prems(2) d show ?case by auto
qed

theorem ff_free_ok:
  assumes ok: "ff_ok a e h" and live: "ff_live h p \<noteq> None"
  shows "\<exists>h'. ff_free p h = Some h' \<and> ff_ok a e h' \<and> ff_live h' = (ff_live h)(p := None)"
proof -
  obtain pre b post where h: "h = pre @ b # post" and b: "\<not> mb_free b" "p = mb_addr b + HDR"
    using live ff_live_mem by (metis not_None_eq surj_pair)
  obtain m where m: "chain a pre m" "chain m (b # post) e"
    using ok h by (auto simp: ff_ok_def chain_append)
  have e: "e < 2 ^ 64" using ok by (simp add: ff_ok_def)
  have p0: "p \<noteq> 0" "p - HDR = mb_addr b"
    using chain_payload_nonzero [OF m(2) e] b(2) by simp_all
  have wf: "coalesced post" "aligned (b # post)"
    using ok by (auto simp: h ff_ok_def coalesced_append coalesced_Cons)
  have "ff_live pre p = None"
  proof (rule ccontr)
    assume "ff_live pre p \<noteq> None"
    then obtain s l where "ff_live pre p = Some (s, l)" by auto
    from ff_live_bounds [OF m(1) _ this] chain_le [OF m(2)] e chain_payload(1) [OF m(2) e] b(2)
    show False by simp
  qed
  moreover have "ff_live post p = None" using ff_live_fresh [OF m(2) e] b(2) by simp
  ultimately have gone: "(ff_live h)(p := None) = ff_live post ++ ff_live pre"
    using b by (auto simp: h ff_live_append fun_eq_iff map_add_def split: option.splits)
  show ?thesis
  proof (cases pre rule: rev_cases)
    case Nil
    have "ff_free p h = Some (melt b post)"
      using p0 by (simp add: ff_free_def h Nil melt_def)
    moreover note melt_spec [OF m(2) e wf]
    ultimately show ?thesis
      using ok gone m(1) Nil by (auto simp: ff_ok_def)
  next
    case (snoc pre' q)
    have less: "\<forall>c \<in> set pre. mb_addr c \<noteq> mb_addr b"
      using chain_addr_less [of a pre b post e] ok unfolding h ff_ok_def by fastforce
    obtain m' where m': "chain a pre' m'" "chain m' (q # b # post) e"
      using ok unfolding h snoc ff_ok_def by (auto simp: chain_append)
    have al: "aligned (q # b # post)" using ok unfolding h snoc ff_ok_def by simp
    note ma = melt_after_spec [OF m'(2) e wf(1) al]
    have "\<forall>c \<in> set (tl (pre' @ [q])). mb_addr c \<noteq> mb_addr b"
      using less snoc list.set_sel(2) [of "pre' @ [q]"] by blast
    note hit = ff_free_at_hit [OF this, of post]
    have "ff_free p h = Some (pre' @ melt_after q b post)"
    proof -
      obtain c cs where c: "pre' @ [q] = c # cs" by (cases "pre' @ [q]") auto
      then have hc: "h = c # cs @ b # post" using h snoc by (metis append_Cons append_assoc append_Nil)
      have "mb_addr c \<noteq> mb_addr b" using less snoc c by (metis list.set_intros(1))
      then have "ff_free p h = ff_free_at (mb_addr b) h"
        using p0 by (simp add: ff_free_def hc)
      with hit show ?thesis by (simp add: h snoc)
    qed
    moreover have "chain a (pre' @ melt_after q b post) e"
      using m'(1) ma(1) unfolding chain_append by blast
    moreover have "coalesced (pre' @ melt_after q b post)"
      using ok ma(3,5,6) unfolding h snoc ff_ok_def
      by (auto simp: coalesced_append coalesced_Cons)
    moreover have "aligned (pre' @ melt_after q b post)"
      using ok ma(4) unfolding h snoc ff_ok_def by auto
    moreover have "ff_live (pre' @ melt_after q b post) = (ff_live h)(p := None)"
      unfolding gone snoc ff_live_append ma(2) by (simp only: map_add_assoc)
    ultimately show ?thesis using ok ma(5) by (auto simp: ff_ok_def)
  qed
qed

section \<open>Alignment of requests\<close>

lemma and_not7: "(x::u64) AND NOT 7 = push_bit 3 (drop_bit 3 x)" 
proof -
  have m: "(7::u64) = mask 3" by (simp add: mask_eq_exp_minus_1)
  show ?thesis unfolding m by (rule bit_eqI) (auto simp: bit_simps)
qed

lemma unat_and_not7: "unat ((x::u64) AND NOT 7) = 8 * (unat x div 8)"
proof -
  have "unat x < 2 ^ 64" using unsigned_less [of x] by simp
  then have "unat x div 8 * 8 < 2 ^ 64" by linarith
  then show ?thesis
    unfolding and_not7 by (simp add: push_bit_eq_mult unat_word_ariths unsigned_drop_bit_eq drop_bit_eq_div)
qed

lemma unat_align8:
  "unat n + 7 < 2 ^ 64 \<Longrightarrow> unat (align8 n) = 8 * ((unat n + 7) div 8)"
  unfolding align8_def unat_and_not7 using unat_add_small [of n 7] by simp

lemma align8_dvd: "8 dvd unat (align8 n)"
  unfolding align8_def unat_and_not7 by simp

definition ff_fits :: "u64 \<Rightarrow> bool" where
  "ff_fits n \<longleftrightarrow> unat n + 7 < 2 ^ 64"

lemma align8_ge: "ff_fits n \<Longrightarrow> unat n \<le> unat (align8 n)"
  by (simp add: ff_fits_def unat_align8)

section \<open>The first-fit manager implements the interface\<close>

interpretation ff: memory_manager ff_malloc_impl ff_free ff_live "ff_ok a e" ff_fits
  for a e
proof unfold_locales
  fix h n k h'
  assume "ff_ok a e h" and "ff_malloc_impl n k h = (0, h')"
  then show "h' = h"
    using ff_alloc_ok [of a e h "align8 n" k 0 h'] align8_dvd
    by (auto simp: ff_malloc_impl_def split: if_splits)
next
  fix h n k p h'
  assume "ff_ok a e h" and "ff_malloc_impl n k h = (p, h')" and "p \<noteq> 0"
  then show "ff_ok a e h' \<and> ff_live h p = None \<and>
      (\<exists>s. ff_live h' = (ff_live h)(p \<mapsto> (s, k)) \<and> (ff_fits n \<longrightarrow> unat n \<le> s))"
    using ff_alloc_ok [of a e h "align8 n" k p h'] align8_dvd align8_ge [of n]
    by (fastforce simp: ff_malloc_impl_def split: if_splits)
next
  fix h assume "ff_ok a e h"
  then show "disjoint_payloads (ff_live h)" using ff_live_disjoint by (auto simp: ff_ok_def)
  show "ff_live h 0 = None"
  proof (rule ccontr)
    assume "ff_live h 0 \<noteq> None"
    then obtain s k where "ff_live h 0 = Some (s, k)" by auto
    then show False
      using \<open>ff_ok a e h\<close> ff_live_bounds [of a h e 0 s k] by (simp add: ff_ok_def)
  qed
next
  fix h p s k assume "ff_ok a e h" and "ff_live h p = Some (s, k)"
  then show "unat p + s \<le> 2 ^ 64" using ff_live_bounds [of a h e p s k] by (simp add: ff_ok_def)
next
  fix h p assume "ff_ok a e h" and "ff_live h p \<noteq> None"
  then show "\<exists>h'. ff_free p h = Some h' \<and> ff_ok a e h' \<and> ff_live h' = (ff_live h)(p := None)"
    by (rule ff_free_ok)
qed

lemma ff_init_ok:
  assumes "unat start = a" and "8 \<le> a" and "a + unat sz < 2 ^ 64" and "24 < unat sz"
    and "8 dvd unat sz"
  shows "ff_ok a (a + unat sz) (ff_init start sz h)" and "ff_live (ff_init start sz h) = Map.empty"
proof -
  have "\<not> sz \<le> HDR" using assms(4) by (simp add: word_le_nat_alt)
  moreover have "unat (sz - HDR) = unat sz - 24"
    using assms(4) by (simp add: unat_sub word_le_nat_alt)
  ultimately show "ff_ok a (a + unat sz) (ff_init start sz h)"
      and "ff_live (ff_init start sz h) = Map.empty"
    using assms by (simp_all add: ff_init_def ff_ok_def dvd_diff_nat)
qed

text \<open>
  The \<open>is_kernel\<close> mark of a free block is left over from its last use and means nothing.
\<close>

definition forget_mark :: "mem_block \<Rightarrow> mem_block" where
  "forget_mark b = (if mb_free b then b\<lparr>mb_kernel := False\<rparr> else b)"

lemma ff_absorb_stop:
  "bs = [] \<or> \<not> mb_free (hd bs) \<Longrightarrow> ff_absorb b bs = (b, bs)"
  by (cases bs) auto

lemma melt_carve:
  assumes "fit sz b" and "post = [] \<or> \<not> mb_free (hd post)"
  shows "\<exists>b'. melt (hd (carve sz k b)) (tl (carve sz k b) @ post) = b' # post \<and>
    b' = b\<lparr>mb_kernel := k\<rparr>"
proof -
  have "sz + (HDR + (mb_size b - sz - HDR)) = mb_size b" by simp
  then show ?thesis
    using assms ff_absorb_stop [OF assms(2)]
    by (auto simp: melt_def carve_def fit_def)
qed

lemma ff_free_payload:
  assumes "ff_ok a e (pre @ c # rest)" and "pre = [] \<or> \<not> mb_free (last pre)"
  shows "ff_free (mb_addr c + HDR) (pre @ c # rest) = Some (pre @ melt c rest)"
proof -
  obtain m where m: "chain m (c # rest) e" "e < 2 ^ 64" using assms(1) by (auto simp: ff_ok_def chain_append)
  have nz: "mb_addr c + HDR \<noteq> 0" by (rule chain_payload_nonzero [OF m])
  show ?thesis
  proof (cases pre rule: rev_cases)
    case Nil
    then show ?thesis using nz by (simp add: ff_free_def melt_def)
  next
    case (snoc pre' q)
    have less: "\<forall>d \<in> set pre. mb_addr d \<noteq> mb_addr c"
      using chain_addr_less [of a pre c rest e] assms(1) unfolding ff_ok_def by fastforce
    then have "\<forall>d \<in> set (tl (pre' @ [q])). mb_addr d \<noteq> mb_addr c"
      using snoc list.set_sel(2) [of "pre' @ [q]"] by blast
    note hit = ff_free_at_hit [OF this, of rest]
    obtain d ds where d: "pre = d # ds" using snoc by (cases "pre' @ [q]") auto
    have "ff_free (mb_addr c + HDR) (pre @ c # rest) = ff_free_at (mb_addr c) (pre @ c # rest)"
      using nz less d by (simp add: ff_free_def)
    also have "\<dots> = Some (pre @ melt c rest)"
      using hit assms(2) by (simp add: snoc melt_after_def)
    finally show ?thesis .
  qed
qed

text \<open>
  C33: Releasing the block that was just allocated restores the heap: after \<open>malloc_impl\<close> and
  \<open>mm_free\<close> of its result every header is what it was before the allocation (the
  \<open>is_kernel\<close> mark of free blocks aside). Splitting and coalescing undo each other exactly.
\<close>

theorem ff_malloc_free_restores:
  assumes ok: "ff_ok a e h" and m: "ff_malloc_impl n k h = (p, h')" and "p \<noteq> 0"
  shows "\<exists>h''. ff_free p h' = Some h'' \<and> map forget_mark h'' = map forget_mark h"
proof -
  let ?sz = "align8 n"
  have al: "ff_alloc ?sz k h = (p, h')"
    using m assms(3) by (auto simp: ff_malloc_impl_def split: if_splits)
  obtain pre b post where h: "h = pre @ b # post"
    and pre: "\<forall>c \<in> set pre. \<not> fit ?sz c" and b: "fit ?sz b"
    using first_fit_split [of h ?sz] ff_alloc_no_fit [of h ?sz k] al assms(3) by auto
  have p: "p = mb_addr b + HDR" and h': "h' = pre @ carve ?sz k b @ post"
    using ff_alloc_fit [OF pre b, of k post] al h by auto
  define c cs where "c = hd (carve ?sz k b)" and "cs = tl (carve ?sz k b)"
  have ccs: "carve ?sz k b = c # cs" and addr: "mb_addr c = mb_addr b" by (simp_all add: c_def cs_def)
  have fr: "mb_free b" using b by (simp add: fit_def)
  have nb: "post = [] \<or> \<not> mb_free (hd post)" "pre = [] \<or> \<not> mb_free (last pre)"
    using ok fr by (auto simp: h ff_ok_def coalesced_append coalesced_Cons)
  have melt: "melt c (cs @ post) = b\<lparr>mb_kernel := k\<rparr> # post"
    using melt_carve [OF b nb(1), of k] unfolding c_def cs_def by auto
  have "ff_ok a e h'" using ff_alloc_ok [OF ok al align8_dvd] assms(3) by simp
  then have "ff_free p h' = Some (pre @ b\<lparr>mb_kernel := k\<rparr> # post)"
    using ff_free_payload [of a e pre c "cs @ post"] nb(2) by (simp add: h' ccs p melt flip: addr)
  moreover have "forget_mark (b\<lparr>mb_kernel := k\<rparr>) = forget_mark b"
    using fr by (simp add: forget_mark_def)
  ultimately show ?thesis by (simp add: h)
qed

text \<open>The heap the kernel boots with: 8 MB at \<open>0x600000\<close>.\<close>

definition boot_heap :: ff_heap where
  "boot_heap = ff_init 0x600000 0x800000 []"

lemma boot_heap_ok: "ff_ok 0x600000 0xE00000 boot_heap"
  using ff_init_ok(1) [of "0x600000" "0x600000" "0x800000" "[]"]
  by (simp add: boot_heap_def)

theorem ff_malloc_free_restores_witness:
  "\<exists>h''. ff_free 0x600018 (snd (ff_malloc_impl 100 True boot_heap)) = Some h'' \<and>
     map forget_mark h'' = map forget_mark boot_heap"
  by (rule ff_malloc_free_restores [OF boot_heap_ok, of 100 True])
     (simp_all add: boot_heap_def ff_init_def ff_malloc_impl_def align8_def)

section \<open>mm_status\<close>

lemma ff_count_balance:
  "ms_total st = ms_free st + ms_used st + ms_used_kernel st \<Longrightarrow>
   ms_total (ff_count b st) =
     ms_free (ff_count b st) + ms_used (ff_count b st) + ms_used_kernel (ff_count b st)"
  by (simp add: ff_count_def Let_def)

lemma fold_ff_count_balance:
  "ms_total st = ms_free st + ms_used st + ms_used_kernel st \<Longrightarrow>
   ms_total (fold ff_count bs st) = ms_free (fold ff_count bs st) +
     ms_used (fold ff_count bs st) + ms_used_kernel (fold ff_count bs st)"
  by (induction bs arbitrary: st) (simp_all add: ff_count_balance)

lemma fold_ff_count_total:
  "chain a bs e \<Longrightarrow> ms_total (fold ff_count bs st) = ms_total st + of_nat (e - a)"
proof (induction bs arbitrary: a st)
  case Nil
  then show ?case by simp
next
  case (Cons b bs)
  let ?a = "a + 24 + unat (mb_size b)"
  have ch: "chain ?a bs e" using Cons.prems by simp
  have x: "e - a = (e - ?a) + (24 + unat (mb_size b))" using chain_le [OF ch] by simp
  have "(of_nat (e - a) :: u64) = of_nat (e - ?a) + (24 + mb_size b)"
    by (subst x) (simp only: of_nat_add of_nat_numeral of_nat_unat ucast_id)
  with Cons.IH [OF ch, of "ff_count b st"] show ?case by (simp add: ff_count_def Let_def)
qed

definition user_payloads :: "payloads \<Rightarrow> u64 set" where
  "user_payloads m = {p. \<exists>s. m p = Some (s, False)}"

lemma finite_ff_live: "finite (dom (ff_live bs))"
  by (induction bs) auto

lemma finite_user_payloads: "finite (user_payloads (ff_live bs))"
  by (rule finite_subset [OF _ finite_ff_live [of bs]]) (auto simp: user_payloads_def)

lemma fold_ff_count_user:
  "chain a bs e \<Longrightarrow> e < 2 ^ 64 \<Longrightarrow>
   ms_alloc_count (fold ff_count bs st) = ms_alloc_count st + of_nat (card (user_payloads (ff_live bs)))"
proof (induction bs arbitrary: a st)
  case Nil
  then show ?case by (simp add: user_payloads_def)
next
  case (Cons b bs)
  have ch: "chain (a + 24 + unat (mb_size b)) bs e" using Cons.prems by simp
  have fresh: "ff_live bs (mb_addr b + HDR) = None" by (rule ff_live_fresh [OF Cons.prems])
  have "user_payloads (ff_live (b # bs)) =
      (if \<not> mb_free b \<and> \<not> mb_kernel b then insert (mb_addr b + HDR) (user_payloads (ff_live bs))
       else user_payloads (ff_live bs))"
    using fresh by (auto simp: user_payloads_def)
  moreover have "mb_addr b + HDR \<notin> user_payloads (ff_live bs)"
    using fresh by (simp add: user_payloads_def)
  ultimately show ?case
    using Cons.IH [OF ch Cons.prems(2), of "ff_count b st"] finite_user_payloads [of bs]
    by (simp add: ff_count_def Let_def)
qed

text \<open>
  \<open>mm_status\<close> keeps the invariant its comment states: the total is the sum of free, user
  and kernel bytes; the total is the size of the managed range, and \<open>alloc_count\<close> is the
  number of live user allocations.
\<close>

lemma ff_status_correct:
  assumes "ff_ok a e h"
  shows "\<exists>st. ff_status h = Some st \<and> ms_total st = ms_free st + ms_used st + ms_used_kernel st \<and>
    unat (ms_total st) = e - a \<and>
    ms_alloc_count st = of_nat (card (user_payloads (ff_live h)))"
proof -
  have h: "h \<noteq> []" "chain a h e" "e < 2 ^ 64" using assms by (simp_all add: ff_ok_def)
  let ?z = "\<lparr>ms_total = 0, ms_free = 0, ms_used = 0, ms_used_kernel = 0, ms_alloc_count = 0\<rparr>"
  have "unat (of_nat (e - a) :: u64) = e - a"
    using h(3) by (simp add: unat_of_nat take_bit_nat_eq_self)
  then show ?thesis
    using h fold_ff_count_balance [of ?z h] fold_ff_count_total [OF h(2), of ?z]
      fold_ff_count_user [OF h(2,3), of ?z]
    by (simp add: ff_status_def)
qed

section \<open>First fit\<close>

text \<open>
  C34: \<open>malloc_impl\<close> is first fit, and complete: a request fails exactly when no free block is
  large enough for the aligned size, and a request that succeeds is placed at the first free
  block, in address order, that is.
\<close>

theorem ff_malloc_first_fit:
  assumes "ff_ok a e h" and "n \<noteq> 0"
  shows "(fst (ff_malloc_impl n k h) = 0 \<longleftrightarrow> (\<forall>b \<in> set h. \<not> fit (align8 n) b)) \<and>
    (\<forall>pre b post. h = pre @ b # post \<longrightarrow> (\<forall>c \<in> set pre. \<not> fit (align8 n) c) \<longrightarrow>
       fit (align8 n) b \<longrightarrow> fst (ff_malloc_impl n k h) = mb_addr b + HDR)"
proof -
  have h: "h \<noteq> []" using assms(1) by (simp add: ff_ok_def)
  have eq: "ff_malloc_impl n k h = ff_alloc (align8 n) k h"
    using assms(2) h by (simp add: ff_malloc_impl_def)
  have nz: "mb_addr b + HDR \<noteq> 0" if "h = pre @ b # post" for pre b post
  proof -
    from assms(1) that obtain m where "chain m (b # post) e" "e < 2 ^ 64"
      by (auto simp: ff_ok_def chain_append)
    then show ?thesis by (rule chain_payload_nonzero)
  qed
  have "fst (ff_alloc (align8 n) k h) \<noteq> 0" if "\<not> (\<forall>b \<in> set h. \<not> fit (align8 n) b)"
  proof -
    from that obtain pre b post where x: "h = pre @ b # post"
        "\<forall>c \<in> set pre. \<not> fit (align8 n) c" "fit (align8 n) b"
      using first_fit_split by blast
    then show ?thesis using ff_alloc_fit [OF x(2,3), of k post] nz [OF x(1)] by simp
  qed
  then show ?thesis
    unfolding eq using ff_alloc_no_fit [of h "align8 n" k] ff_alloc_fit by auto
qed

theorem ff_malloc_first_fit_witness:
  "fst (ff_malloc_impl 100 False boot_heap) \<noteq> 0"
  using ff_malloc_first_fit [OF boot_heap_ok, of 100 False]
  by (auto simp: boot_heap_def ff_init_def ff_malloc_impl_def align8_def)

text \<open>
  C30: Allocation and release keep the heap well formed (contiguous headers that tile the
  managed range, no two neighbouring free blocks, sizes multiples of 8); an allocation that
  succeeds adds exactly one payload, disjoint from every live one and, for requests below
  \<open>2^64 - 7\<close>, at least as large as requested; releasing a live payload never fails and
  removes exactly it.
\<close>

theorem ff_heap_safe:
  assumes "ff_ok a e h"
  shows "(let (p, h') = ff_malloc_impl n k h in
      ff_ok a e h' \<and> (p = 0 \<longrightarrow> h' = h) \<and>
      (p \<noteq> 0 \<longrightarrow> (\<exists>s. ff_live h' = (ff_live h)(p \<mapsto> (s, k)) \<and>
         (unat n + 7 < 2 ^ 64 \<longrightarrow> unat n \<le> s \<and>
            (\<forall>q t l. ff_live h q = Some (t, l) \<longrightarrow>
               unat p + unat n \<le> unat q \<or> unat q + t \<le> unat p))))) \<and>
    (\<forall>q. ff_live h q \<noteq> None \<longrightarrow>
      (\<exists>h'. ff_free q h = Some h' \<and> ff_ok a e h' \<and> ff_live h' = (ff_live h)(q := None)))"
proof -
  obtain p h' where m: "ff_malloc_impl n k h = (p, h')" by (cases "ff_malloc_impl n k h")
  have "ff_ok a e h'" using ff.malloc_ok [OF assms, of n k] m by simp
  moreover have "p = 0 \<longrightarrow> h' = h" using ff.malloc_null [OF assms] m by auto
  moreover have "\<exists>s. ff_live h' = (ff_live h)(p \<mapsto> (s, k)) \<and>
         (unat n + 7 < 2 ^ 64 \<longrightarrow> unat n \<le> s \<and>
            (\<forall>q t l. ff_live h q = Some (t, l) \<longrightarrow>
               unat p + unat n \<le> unat q \<or> unat q + t \<le> unat p))" if "p \<noteq> 0"
    using ff.malloc_live [OF assms m that] ff.malloc_fresh_disjoint [OF assms m that]
    by (auto simp: ff_fits_def)
  ultimately show ?thesis using m ff.free_live [OF assms] by auto
qed

theorem ff_heap_safe_witness:
  "ff_ok 0x600000 0xE00000 (snd (ff_malloc_impl 4096 True boot_heap))"
  using ff_heap_safe [OF boot_heap_ok, of 4096 True] by (auto simp: case_prod_beta Let_def)

text \<open>
  The alignment of the requested size wraps around: a request of \<open>2^64 - 1\<close> bytes is
  rounded to 0 and succeeds on a fresh heap, with a payload of 0 bytes. (\<open>sys_malloc\<close>
  passes the user's size on unchecked.)
\<close>

theorem ff_malloc_overflow:
  "ff_malloc_impl (- 1) False boot_heap =
     (0x600018,
      [\<lparr>mb_addr = 0x600000, mb_size = 0, mb_free = False, mb_kernel = False\<rparr>,
       \<lparr>mb_addr = 0x600018, mb_size = 0x7FFFD0, mb_free = True, mb_kernel = False\<rparr>])"
  by (simp add: ff_malloc_impl_def align8_def boot_heap_def ff_init_def)

end
