(* ===== verification/Video.thy ===== *)
theory Video
  imports Prelude
begin

text \<open>
  \<open>Kernel/c/drivers/videoDriver.c\<close>: the text console drawn into the linear framebuffer.

  The state is the part of the VBE mode block the driver reads, the framebuffer as a memory of
  bytes indexed by the offset from its base, and the cursor. The glyph table \<open>font.h\<close> is a
  field that nothing writes.
\<close>

abbreviation (input) FONT_WIDTH :: u64 where "FONT_WIDTH \<equiv> 8"
abbreviation (input) FONT_HEIGHT :: u64 where "FONT_HEIGHT \<equiv> 16"
abbreviation (input) MAX_FONT_SIZE :: u64 where "MAX_FONT_SIZE \<equiv> 5"
abbreviation (input) bgColor :: u32 where "bgColor \<equiv> 0"

record video =
  v_width :: u16
  v_height :: u16
  v_pitch :: u16
  v_bpp :: u8
  fb :: "u64 \<Rightarrow> u8"
  currentX :: u64
  currentY :: u64
  defaultTextSize :: u64
  font :: "nat \<Rightarrow> nat \<Rightarrow> u8"

definition getScreenWidth :: "video \<Rightarrow> u16" where
  "getScreenWidth v = v_width v"

definition getScreenHeight :: "video \<Rightarrow> u16" where
  "getScreenHeight v = v_height v"

definition setDefaultTextSize :: "u64 \<Rightarrow> video \<Rightarrow> video" where
  "setDefaultTextSize sz v = v\<lparr>defaultTextSize := (if sz = 0 then 1 else sz)\<rparr>"

definition getDefaultTextSize :: "video \<Rightarrow> u64" where
  "getDefaultTextSize v = defaultTextSize v"

definition setTextSize :: "u8 \<Rightarrow> video \<Rightarrow> video" where
  "setTextSize sz v =
     (let sz = (if sz = 0 then 1 else sz) in v\<lparr>defaultTextSize := ucast sz\<rparr>)"

definition validPosition :: "u64 \<Rightarrow> u64 \<Rightarrow> video \<Rightarrow> bool" where
  "validPosition x y v \<longleftrightarrow> x < ucast (v_width v) \<and> y < ucast (v_height v)"

text \<open>\<open>(bpp + 7) / 8\<close>\<close>

definition bytesPerPixel :: "video \<Rightarrow> u32" where
  "bytesPerPixel v = (ucast (v_bpp v) + 7) div 8"

text \<open>The innermost loop of \<open>putPixel\<close> and \<open>v_fillRectangle\<close>: the bytes of one pixel.\<close>

definition writePixel :: "u32 \<Rightarrow> u64 \<Rightarrow> video \<Rightarrow> video" where
  "writePixel color off v =
     v\<lparr>fb := fold (\<lambda>i f. f(off + of_nat i := ucast (drop_bit (8 * i) color AND 0xFF)))
              [0..<unat (bytesPerPixel v)] (fb v)\<rparr>"

definition putPixel :: "u32 \<Rightarrow> u64 \<Rightarrow> u64 \<Rightarrow> video \<Rightarrow> video" where
  "putPixel hexColor x y v =
     (if \<not> validPosition x y v then v
      else let offset = y * ucast (v_pitch v) + x * ucast (bytesPerPixel v)
           in writePixel hexColor offset v)"

definition v_fillRectangle :: "u64 \<Rightarrow> u64 \<Rightarrow> u64 \<Rightarrow> u64 \<Rightarrow> u32 \<Rightarrow> video \<Rightarrow> video" where
  "v_fillRectangle x0 y0 x1 y1 color v =
     (if x1 \<le> x0 \<or> y1 \<le> y0 then v
      else if \<not> validPosition x0 y0 v then v
      else
        let x1 = (if x1 > ucast (v_width v) then ucast (v_width v) else x1);
            y1 = (if y1 > ucast (v_height v) then ucast (v_height v) else y1);
            bytes_per_pixel = ucast (bytesPerPixel v);
            pitch = ucast (v_pitch v)
        in fold (\<lambda>y v.
             let row_offset = of_nat y * pitch + x0 * bytes_per_pixel
             in fold (\<lambda>x v.
                  let off = row_offset + (of_nat x - x0) * bytes_per_pixel
                  in writePixel color off v)
                [unat x0..<unat x1] v)
           [unat y0..<unat y1] v)"

text \<open>\<open>memcpy\<close> of one row of the framebuffer.\<close>

definition copyRow :: "u64 \<Rightarrow> u64 \<Rightarrow> nat \<Rightarrow> video \<Rightarrow> video" where
  "copyRow dst src n v =
     v\<lparr>fb := fold (\<lambda>i f. f(dst + of_nat i := f (src + of_nat i))) [0..<n] (fb v)\<rparr>"

definition scroll :: "video \<Rightarrow> video" where
  "scroll v =
     (let lineHeight = defaultTextSize v * FONT_HEIGHT;
          pitch = ucast (v_pitch v);
          v = fold (\<lambda>srcY v.
                let dstY = of_nat srcY - lineHeight;
                    srcOffset = of_nat srcY * pitch;
                    dstOffset = dstY * pitch
                in copyRow dstOffset srcOffset (unat (v_pitch v)) v)
              [unat lineHeight..<unat (v_height v)] v;
          lastLineStart = ucast (v_height v) - lineHeight
      in v_fillRectangle 0 lastLineStart (ucast (v_width v)) (ucast (v_height v)) bgColor v)"

definition newLine :: "video \<Rightarrow> video" where
  "newLine v =
     (let v = v\<lparr>currentX := 0\<rparr>;
          stepY = defaultTextSize v * FONT_HEIGHT
      in if currentY v + stepY < ucast (v_height v) then
           let v = v\<lparr>currentY := currentY v + stepY\<rparr>
           in v_fillRectangle 0 (currentY v) (ucast (v_width v)) (currentY v + stepY) bgColor v
         else
           let v = scroll v
           in v\<lparr>currentY := ucast (v_height v) - stepY\<rparr>)"

definition updateCursor :: "video \<Rightarrow> video" where
  "updateCursor v =
     (if \<not> validPosition (currentX v + FONT_WIDTH * defaultTextSize v - 1)
            (currentY v + FONT_HEIGHT * defaultTextSize v - 1) v
      then newLine v else v)"

definition moveRight :: "video \<Rightarrow> video" where
  "moveRight v =
     (let stepX = FONT_WIDTH * defaultTextSize v
      in if currentX v + stepX < ucast (v_width v) then v\<lparr>currentX := currentX v + stepX\<rparr>
         else newLine v)"

definition increaseFontSize :: "video \<Rightarrow> video" where
  "increaseFontSize v =
     updateCursor
       (if defaultTextSize v < MAX_FONT_SIZE then v\<lparr>defaultTextSize := defaultTextSize v + 1\<rparr> else v)"

definition decreaseFontSize :: "video \<Rightarrow> video" where
  "decreaseFontSize v =
     updateCursor
       (if defaultTextSize v > 1 then v\<lparr>defaultTextSize := defaultTextSize v - 1\<rparr> else v)"

text \<open>The four nested loops of \<open>drawChar\<close>.\<close>

definition drawChar :: "u32 \<Rightarrow> u32 \<Rightarrow> u8 \<Rightarrow> u32 \<Rightarrow> u64 \<Rightarrow> video \<Rightarrow> video" where
  "drawChar x y c color sz v =
     (if c \<ge> 128 then v
      else fold (\<lambda>i v.
             let line = font v (unat c) i
             in fold (\<lambda>j v.
                  if push_bit j (ucast line :: u32) AND 0x80 \<noteq> 0 then
                    fold (\<lambda>dy v.
                      fold (\<lambda>dx v.
                          putPixel color (ucast x + of_nat j * sz + of_nat dx)
                            (ucast y + of_nat i * sz + of_nat dy) v)
                        [0..<unat sz] v)
                      [0..<unat sz] v
                  else v)
                [0..<8] v)
           [0..<16] v)"

definition videoPutChar :: "char \<Rightarrow> u32 \<Rightarrow> video \<Rightarrow> video" where
  "videoPutChar c color v =
     (if c = CHR 0x0A \<or> c = CHR 0x0D then newLine v
      else if c = CHR 0x08 then
        (let stepX = FONT_WIDTH * defaultTextSize v;
             stepY = FONT_HEIGHT * defaultTextSize v
         in if currentX v \<ge> stepX then
              let v = v\<lparr>currentX := currentX v - stepX\<rparr>;
                  v = v_fillRectangle (currentX v) (currentY v) (currentX v + stepX)
                        (currentY v + stepY) bgColor v
              in updateCursor v
            else v)
      else updateCursor (moveRight
             (drawChar (ucast (currentX v)) (ucast (currentY v)) (of_char c) color
                (defaultTextSize v) v)))"

text \<open>\<open>videoPrint\<close>: the string is a C string.\<close>

definition videoPrint :: "char list option \<Rightarrow> u32 \<Rightarrow> video \<Rightarrow> video" where
  "videoPrint str color v =
     (case str of None \<Rightarrow> v
      | Some s \<Rightarrow> fold (\<lambda>c. videoPutChar c color) (takeWhile (\<lambda>c. c \<noteq> CHR 0x00) s) v)"

definition drawFilledRect :: "u32 \<Rightarrow> u32 \<Rightarrow> u32 \<Rightarrow> u32 \<Rightarrow> u32 \<Rightarrow> video \<Rightarrow> video" where
  "drawFilledRect x y width height color v =
     v_fillRectangle (ucast x) (ucast y) (ucast x + ucast width) (ucast y + ucast height) color v"

definition clearScreen :: "u32 \<Rightarrow> video \<Rightarrow> video" where
  "clearScreen color v =
     (drawFilledRect 0 0 (ucast (v_width v)) (ucast (v_height v)) color v)
       \<lparr>currentX := 0, currentY := 0\<rparr>"

definition fillRect :: "u64 \<Rightarrow> u64 \<Rightarrow> u64 \<Rightarrow> u64 \<Rightarrow> u32 \<Rightarrow> video \<Rightarrow> video" where
  "fillRect x y w h color v =
     (if w = 0 \<or> h = 0 then v else v_fillRectangle x y (x + w) (y + h) color v)"

end
