(* ===== verification/Kernel_State.thy ===== *)
theory Kernel_State
  imports Cstring Pid_Queue Mm_FirstFit Video
begin

text \<open>
  The state of the kernel: the structures of \<open>process.h\<close>, \<open>semaphore.c\<close>, \<open>pipe.c\<close>,
  \<open>fd.h\<close> and the keyboard driver, and one record with the global variables of all kernel
  files. A pointer into \<open>process_table\<close>, \<open>pipe_table\<close> etc. is the index of the entry.

  Three components of the record are not variables of the program. \<open>qmem\<close> is the memory of the
  kernel stacks in 8-byte words: the saved register frames live there, and
  \<open>process_exit\<close> writes into the frame of the parent. \<open>trampoline\<close> is the address the linker
  gave \<open>process_trampoline\<close>. \<open>fault\<close> records that the execution has
  left what C defines (a wild \<open>mm_free\<close>, an index outside an array) or spins forever on a
  lock; nothing clears it.
\<close>

section \<open>Processes (process.h)\<close>

abbreviation STACK_SIZE :: u64 where "STACK_SIZE \<equiv> 4096"
abbreviation MAX_NAME_LEN :: nat where "MAX_NAME_LEN \<equiv> 32"
abbreviation (input) MIN_PRIORITY :: u8 where "MIN_PRIORITY \<equiv> 1"
abbreviation (input) MAX_PRIORITY :: u8 where "MAX_PRIORITY \<equiv> 5"
abbreviation (input) DEFAULT_PRIORITY :: u8 where "DEFAULT_PRIORITY \<equiv> 3"

datatype process_state =
  PROCESS_FREE | PROCESS_READY | PROCESS_RUNNING | PROCESS_BLOCKED | PROCESS_ZOMBIE

fun state_code :: "process_state \<Rightarrow> u8" where
  "state_code PROCESS_FREE = 0"
| "state_code PROCESS_READY = 1"
| "state_code PROCESS_RUNNING = 2"
| "state_code PROCESS_BLOCKED = 3"
| "state_code PROCESS_ZOMBIE = 4"

text \<open>
  \<open>argv\<close> is the address of the kernel's copy of the argument vector, \<open>argv_blk\<close> the
  contents of that block: the pointer table and the string pool behind it.
\<close>

record pcb =
  pid :: u64
  pname :: "char list"
  entry :: u64
  priority :: u8
  remaining_quanta :: u8
  wait_ticks :: u32
  pstate :: process_state
  rsp :: u64
  stack_base :: u64
  foreground :: u8
  pfd :: "nat \<Rightarrow> int"
  parent_pid :: u64
  waiting_for :: u64
  argc :: int
  argv :: u64
  argv_blk :: "u64 list \<times> char list"
  retval :: int
  held_sems :: u32
  opened_sems :: u32

record process_info =
  pi_pid :: u64
  pi_name :: "char list"
  pi_priority :: u8
  pi_state :: u8
  pi_foreground :: u8
  pi_rsp :: u64

section \<open>Semaphores (semaphore.c)\<close>

text \<open>
  The results of signed arithmetic at its width. The build has no optimisation, so that a sum that does not fit
  wraps around. \<open>sem_wrapped\<close> is no field of the code: it records whether the value has wrapped around
  since the semaphore was opened. No operation looks at it.
\<close>

definition i64 :: "int \<Rightarrow> int" where
  "i64 x = signed_take_bit 63 x"

definition i32 :: "int \<Rightarrow> int" where
  "i32 x = signed_take_bit 31 x"

abbreviation MAX_SEMS :: nat where "MAX_SEMS \<equiv> 32"
abbreviation SEM_NAME_LEN :: nat where "SEM_NAME_LEN \<equiv> 32"

record semaphore =
  sem_name :: "char list"
  sem_value :: int
  sem_queue :: pidq
  open_count :: int
  sem_locked :: bool
  sem_wrapped :: bool

section \<open>Pipes (pipe.c)\<close>

abbreviation PIPE_BUFFER_SIZE :: nat where "PIPE_BUFFER_SIZE \<equiv> 4096"
abbreviation MAX_PIPES :: nat where "MAX_PIPES \<equiv> 32"
abbreviation PIPE_NAME_LEN :: nat where "PIPE_NAME_LEN \<equiv> 32"

record pipe =
  p_buffer :: "nat \<Rightarrow> char"
  read_idx :: nat
  write_idx :: nat
  p_count :: nat
  open_read :: nat
  open_write :: nat
  wait_readers :: pidq
  wait_writers :: pidq
  in_use :: bool
  is_named :: bool
  p_eof :: bool
  opens :: nat
  p_name :: "char list"

section \<open>File descriptors (fd.h)\<close>

abbreviation (input) FD_STDIN :: nat where "FD_STDIN \<equiv> 0"
abbreviation (input) FD_STDOUT :: nat where "FD_STDOUT \<equiv> 1"
abbreviation MAX_FDS :: nat where "MAX_FDS \<equiv> 130"

datatype fd_type = FD_NONE | FD_TERMINAL | FD_PIPE_READ | FD_PIPE_WRITE

record fdesc =
  fd_type :: fd_type
  refcount :: nat
  fd_data :: "nat option"

section \<open>Keyboard and terminal (keyboardDriver.c)\<close>

abbreviation BUFF_LENGTH :: nat where "BUFF_LENGTH \<equiv> 256"
abbreviation (input) TTY_RAW :: int where "TTY_RAW \<equiv> 0"
abbreviation (input) TTY_COOKED :: int where "TTY_COOKED \<equiv> 1"

record keyboard =
  kbd_waiting_process :: "nat option"
  buff :: "nat \<Rightarrow> char"
  shift :: bool
  caps :: bool
  ctrl :: bool
  buff_size :: nat
  start_index :: nat
  end_index :: nat
  boolRegisters :: bool
  registersBuff :: "char list"
  tty_mode :: int
  tty_line :: "nat \<Rightarrow> char"
  tty_line_len :: nat
  tty_line_ready :: bool
  tty_eof :: bool
  pressed_key :: u8
  regsArray :: "nat \<Rightarrow> u64"

section \<open>The kernel\<close>

datatype fault = Spin | Wild_Free | Out_Of_Bounds

record kernel =
  process_table :: "nat \<Rightarrow> pcb"
  next_pid :: u64
  current_process :: "nat option"
  force_switch :: bool
  run_queue :: "nat \<Rightarrow> nat"
  queue_size :: nat
  queue_idx :: nat
  idle_pcb :: "nat option"
  ticks :: u64
  sem_table :: "nat \<Rightarrow> semaphore"
  pipe_table :: "nat \<Rightarrow> pipe"
  fd_table :: "nat \<Rightarrow> fdesc"
  kbd :: keyboard
  video :: video
  heap :: ff_heap
  qmem :: "u64 \<Rightarrow> u64"
  trampoline :: u64
  fault :: "fault option"

text \<open>Access to one entry of a table.\<close>

abbreviation proc :: "kernel \<Rightarrow> nat \<Rightarrow> pcb" where
  "proc k i \<equiv> process_table k i"

definition upd_proc :: "nat \<Rightarrow> (pcb \<Rightarrow> pcb) \<Rightarrow> kernel \<Rightarrow> kernel" where
  "upd_proc i f k = k\<lparr>process_table := (process_table k)(i := f (process_table k i))\<rparr>"

definition upd_sem :: "nat \<Rightarrow> (semaphore \<Rightarrow> semaphore) \<Rightarrow> kernel \<Rightarrow> kernel" where
  "upd_sem i f k = k\<lparr>sem_table := (sem_table k)(i := f (sem_table k i))\<rparr>"

definition upd_pipe :: "nat \<Rightarrow> (pipe \<Rightarrow> pipe) \<Rightarrow> kernel \<Rightarrow> kernel" where
  "upd_pipe i f k = k\<lparr>pipe_table := (pipe_table k)(i := f (pipe_table k i))\<rparr>"

definition upd_fd :: "nat \<Rightarrow> (fdesc \<Rightarrow> fdesc) \<Rightarrow> kernel \<Rightarrow> kernel" where
  "upd_fd i f k = k\<lparr>fd_table := (fd_table k)(i := f (fd_table k i))\<rparr>"

definition upd_kbd :: "(keyboard \<Rightarrow> keyboard) \<Rightarrow> kernel \<Rightarrow> kernel" where
  "upd_kbd f k = k\<lparr>kbd := f (kbd k)\<rparr>"

definition set_fault :: "fault \<Rightarrow> kernel \<Rightarrow> kernel" where
  "set_fault e k = k\<lparr>fault := Some e\<rparr>"

text \<open>
  Updates of one table leave the other components alone, and read back as expected. These
  equations are the simplifier's view of the record.
\<close>

lemma upd_proc_simps [simp]:
  "process_table (upd_proc i f k) = (process_table k)(i := f (process_table k i))"
  "next_pid (upd_proc i f k) = next_pid k"
  "current_process (upd_proc i f k) = current_process k"
  "force_switch (upd_proc i f k) = force_switch k"
  "run_queue (upd_proc i f k) = run_queue k"
  "queue_size (upd_proc i f k) = queue_size k"
  "queue_idx (upd_proc i f k) = queue_idx k"
  "idle_pcb (upd_proc i f k) = idle_pcb k"
  "ticks (upd_proc i f k) = ticks k"
  "sem_table (upd_proc i f k) = sem_table k"
  "pipe_table (upd_proc i f k) = pipe_table k"
  "fd_table (upd_proc i f k) = fd_table k"
  "kbd (upd_proc i f k) = kbd k"
  "video (upd_proc i f k) = video k"
  "heap (upd_proc i f k) = heap k"
  "qmem (upd_proc i f k) = qmem k"
  "trampoline (upd_proc i f k) = trampoline k"
  "fault (upd_proc i f k) = fault k"
  by (simp_all add: upd_proc_def)

lemma upd_sem_simps [simp]:
  "process_table (upd_sem i f' k) = process_table k"
  "next_pid (upd_sem i f' k) = next_pid k"
  "current_process (upd_sem i f' k) = current_process k"
  "force_switch (upd_sem i f' k) = force_switch k"
  "run_queue (upd_sem i f' k) = run_queue k"
  "queue_size (upd_sem i f' k) = queue_size k"
  "queue_idx (upd_sem i f' k) = queue_idx k"
  "idle_pcb (upd_sem i f' k) = idle_pcb k"
  "ticks (upd_sem i f' k) = ticks k"
  "sem_table (upd_sem i f' k) = (sem_table k)(i := f' (sem_table k i))"
  "pipe_table (upd_sem i f' k) = pipe_table k"
  "fd_table (upd_sem i f' k) = fd_table k"
  "kbd (upd_sem i f' k) = kbd k"
  "video (upd_sem i f' k) = video k"
  "heap (upd_sem i f' k) = heap k"
  "qmem (upd_sem i f' k) = qmem k"
  "trampoline (upd_sem i f' k) = trampoline k"
  "fault (upd_sem i f' k) = fault k"
  by (simp_all add: upd_sem_def)

lemma upd_pipe_simps [simp]:
  "process_table (upd_pipe i g k) = process_table k"
  "next_pid (upd_pipe i g k) = next_pid k"
  "current_process (upd_pipe i g k) = current_process k"
  "force_switch (upd_pipe i g k) = force_switch k"
  "run_queue (upd_pipe i g k) = run_queue k"
  "queue_size (upd_pipe i g k) = queue_size k"
  "queue_idx (upd_pipe i g k) = queue_idx k"
  "idle_pcb (upd_pipe i g k) = idle_pcb k"
  "ticks (upd_pipe i g k) = ticks k"
  "sem_table (upd_pipe i g k) = sem_table k"
  "pipe_table (upd_pipe i g k) = (pipe_table k)(i := g (pipe_table k i))"
  "fd_table (upd_pipe i g k) = fd_table k"
  "kbd (upd_pipe i g k) = kbd k"
  "video (upd_pipe i g k) = video k"
  "heap (upd_pipe i g k) = heap k"
  "qmem (upd_pipe i g k) = qmem k"
  "trampoline (upd_pipe i g k) = trampoline k"
  "fault (upd_pipe i g k) = fault k"
  by (simp_all add: upd_pipe_def)

lemma upd_fd_simps [simp]:
  "process_table (upd_fd i d k) = process_table k"
  "next_pid (upd_fd i d k) = next_pid k"
  "current_process (upd_fd i d k) = current_process k"
  "force_switch (upd_fd i d k) = force_switch k"
  "run_queue (upd_fd i d k) = run_queue k"
  "queue_size (upd_fd i d k) = queue_size k"
  "queue_idx (upd_fd i d k) = queue_idx k"
  "idle_pcb (upd_fd i d k) = idle_pcb k"
  "ticks (upd_fd i d k) = ticks k"
  "sem_table (upd_fd i d k) = sem_table k"
  "pipe_table (upd_fd i d k) = pipe_table k"
  "fd_table (upd_fd i d k) = (fd_table k)(i := d (fd_table k i))"
  "kbd (upd_fd i d k) = kbd k"
  "video (upd_fd i d k) = video k"
  "heap (upd_fd i d k) = heap k"
  "qmem (upd_fd i d k) = qmem k"
  "trampoline (upd_fd i d k) = trampoline k"
  "fault (upd_fd i d k) = fault k"
  by (simp_all add: upd_fd_def)

lemma upd_kbd_simps [simp]:
  "process_table (upd_kbd h k) = process_table k"
  "next_pid (upd_kbd h k) = next_pid k"
  "current_process (upd_kbd h k) = current_process k"
  "force_switch (upd_kbd h k) = force_switch k"
  "run_queue (upd_kbd h k) = run_queue k"
  "queue_size (upd_kbd h k) = queue_size k"
  "queue_idx (upd_kbd h k) = queue_idx k"
  "idle_pcb (upd_kbd h k) = idle_pcb k"
  "ticks (upd_kbd h k) = ticks k"
  "sem_table (upd_kbd h k) = sem_table k"
  "pipe_table (upd_kbd h k) = pipe_table k"
  "fd_table (upd_kbd h k) = fd_table k"
  "kbd (upd_kbd h k) = h (kbd k)"
  "video (upd_kbd h k) = video k"
  "heap (upd_kbd h k) = heap k"
  "qmem (upd_kbd h k) = qmem k"
  "trampoline (upd_kbd h k) = trampoline k"
  "fault (upd_kbd h k) = fault k"
  by (simp_all add: upd_kbd_def)

lemma set_fault_simps [simp]:
  "process_table (set_fault e k) = process_table k"
  "next_pid (set_fault e k) = next_pid k"
  "current_process (set_fault e k) = current_process k"
  "force_switch (set_fault e k) = force_switch k"
  "run_queue (set_fault e k) = run_queue k"
  "queue_size (set_fault e k) = queue_size k"
  "queue_idx (set_fault e k) = queue_idx k"
  "idle_pcb (set_fault e k) = idle_pcb k"
  "ticks (set_fault e k) = ticks k"
  "sem_table (set_fault e k) = sem_table k"
  "pipe_table (set_fault e k) = pipe_table k"
  "fd_table (set_fault e k) = fd_table k"
  "kbd (set_fault e k) = kbd k"
  "video (set_fault e k) = video k"
  "heap (set_fault e k) = heap k"
  "qmem (set_fault e k) = qmem k"
  "trampoline (set_fault e k) = trampoline k"
  "fault (set_fault e k) = Some e"
  by (simp_all add: set_fault_def)

section \<open>Memory management as the kernel calls it\<close>

definition mm_malloc :: "u64 \<Rightarrow> kernel \<Rightarrow> u64 \<times> kernel" where
  "mm_malloc sz k =
     (let (p, h) = ff_malloc_impl sz False (heap k) in (p, k\<lparr>heap := h\<rparr>))"

definition mm_malloc_kernel :: "u64 \<Rightarrow> kernel \<Rightarrow> u64 \<times> kernel" where
  "mm_malloc_kernel sz k =
     (let (p, h) = ff_malloc_impl sz True (heap k) in (p, k\<lparr>heap := h\<rparr>))"

definition mm_free :: "u64 \<Rightarrow> kernel \<Rightarrow> kernel" where
  "mm_free p k =
     (case ff_free p (heap k) of None \<Rightarrow> set_fault Wild_Free k | Some h \<Rightarrow> k\<lparr>heap := h\<rparr>)"

end
