(* ===== verification/Process_Core.thy ===== *)
theory Process_Core
  imports Kernel_State
begin

text \<open>
  The part of \<open>Kernel/c/process/process.c\<close> that every other component calls: looking a
  process up by PID, blocking and unblocking it.
\<close>

section \<open>Operations\<close>

definition process_current :: "kernel \<Rightarrow> nat option" where
  "process_current k = current_process k"

definition process_set_current :: "nat option \<Rightarrow> kernel \<Rightarrow> kernel" where
  "process_set_current p k = k\<lparr>current_process := p\<rparr>"

definition process_get :: "u64 \<Rightarrow> kernel \<Rightarrow> nat option" where
  "process_get n k =
     (if n = 0 then None
      else first_slot MAX_PROCESSES
             (\<lambda>i. pid (proc k i) = n \<and> pstate (proc k i) \<noteq> PROCESS_FREE))"

definition process_block :: "u64 \<Rightarrow> kernel \<Rightarrow> kernel" where
  "process_block n k =
     (case process_get n k of
        None \<Rightarrow> k
      | Some p \<Rightarrow>
          if pstate (proc k p) = PROCESS_FREE \<or> pstate (proc k p) = PROCESS_ZOMBIE then k
          else if pstate (proc k p) = PROCESS_BLOCKED then k
          else
            let k = upd_proc p (\<lambda>q. q\<lparr>pstate := PROCESS_BLOCKED\<rparr>) k
            in if Some p = current_process k then k\<lparr>force_switch := True\<rparr> else k)"

definition process_unblock :: "u64 \<Rightarrow> kernel \<Rightarrow> kernel" where
  "process_unblock n k =
     (case process_get n k of
        None \<Rightarrow> k
      | Some p \<Rightarrow>
          if pstate (proc k p) \<noteq> PROCESS_BLOCKED then k
          else
            let k = upd_proc p (\<lambda>q. q\<lparr>pstate := PROCESS_READY, wait_ticks := 0\<rparr>) k
            in case process_current k of
                 None \<Rightarrow> k
               | Some cur \<Rightarrow>
                   if priority (proc k p) > priority (proc k cur) then k\<lparr>force_switch := True\<rparr>
                   else k)"

section \<open>Looking up\<close>

lemma process_get_Some:
  assumes "process_get n k = Some i"
  shows "i < MAX_PROCESSES" and "pid (proc k i) = n" and "pstate (proc k i) \<noteq> PROCESS_FREE"
    and "n \<noteq> 0"
  using assms by (auto simp: process_get_def first_slot_Some split: if_splits)

lemma process_get_None:
  "process_get n k = None \<longleftrightarrow>
     n = 0 \<or> (\<forall>i<MAX_PROCESSES. pid (proc k i) = n \<longrightarrow> pstate (proc k i) = PROCESS_FREE)"
  by (auto simp: process_get_def first_slot_None)

text \<open>The live processes have different, non-zero PIDs.\<close>

definition pids_unique :: "kernel \<Rightarrow> bool" where
  "pids_unique k \<longleftrightarrow>
     (\<forall>i<MAX_PROCESSES. pstate (proc k i) \<noteq> PROCESS_FREE \<longrightarrow> pid (proc k i) \<noteq> 0 \<and>
        (\<forall>j<MAX_PROCESSES. pstate (proc k j) \<noteq> PROCESS_FREE \<longrightarrow>
           pid (proc k i) = pid (proc k j) \<longrightarrow> i = j))"

lemma process_get_pid:
  assumes "pids_unique k" and "i < MAX_PROCESSES" and "pstate (proc k i) \<noteq> PROCESS_FREE"
  shows "process_get (pid (proc k i)) k = Some i"
proof -
  have "first_slot MAX_PROCESSES
      (\<lambda>j. pid (proc k j) = pid (proc k i) \<and> pstate (proc k j) \<noteq> PROCESS_FREE) = Some i"
    using assms by (intro first_slot_unique) (auto simp: pids_unique_def)
  with assms show ?thesis by (auto simp: process_get_def pids_unique_def)
qed

lemma process_get_cong:
  assumes "\<And>i. i < MAX_PROCESSES \<Longrightarrow> pid (proc k' i) = pid (proc k i) \<and>
      (pstate (proc k' i) = PROCESS_FREE \<longleftrightarrow> pstate (proc k i) = PROCESS_FREE)"
  shows "process_get n k' = process_get n k"
  using assms by (simp add: process_get_def cong: first_slot_cong)

end
