(* ===== verification/Scheduler.thy ===== *)
theory Scheduler
  imports Process_Core
begin

text \<open>
  \<open>Kernel/c/scheduler/scheduler.c\<close>: the run queue, an array of PCB pointers kept in
  descending priority order, and round robin with aging over it.
\<close>

abbreviation (input) AGING_INTERVAL :: nat where "AGING_INTERVAL \<equiv> 50"
abbreviation (input) MAX_AGING_BONUS :: int where "MAX_AGING_BONUS \<equiv> 4"

section \<open>Operations\<close>

definition scheduler_set_idle :: "nat option \<Rightarrow> kernel \<Rightarrow> kernel" where
  "scheduler_set_idle p k = k\<lparr>idle_pcb := p\<rparr>"

definition aging_bonus :: "pcb \<Rightarrow> int" where
  "aging_bonus p =
     (let b = int (unat (wait_ticks p) div AGING_INTERVAL)
      in if b > MAX_AGING_BONUS then MAX_AGING_BONUS else b)"

definition scheduler_init :: "kernel \<Rightarrow> kernel" where
  "scheduler_init k = k\<lparr>queue_size := 0, queue_idx := 0\<rparr>"

text \<open>The two shifting loops, from the right end down and from the removed element up.\<close>

definition shift_right :: "nat \<Rightarrow> nat \<Rightarrow> (nat \<Rightarrow> nat) \<Rightarrow> (nat \<Rightarrow> nat)" where
  "shift_right i n q = fold (\<lambda>j q. q(j := q (j - 1))) (rev [Suc i..<Suc n]) q"

definition shift_left :: "nat \<Rightarrow> nat \<Rightarrow> (nat \<Rightarrow> nat) \<Rightarrow> (nat \<Rightarrow> nat)" where
  "shift_left i n q = fold (\<lambda>j q. q(j := q (j + 1))) [i..<n - 1] q"

definition scheduler_add :: "nat \<Rightarrow> kernel \<Rightarrow> kernel" where
  "scheduler_add p k =
     (if queue_size k \<ge> MAX_PROCESSES then k
      else if Some p = idle_pcb k then k
      else
        let (insert_pos, q) =
              (case first_slot (queue_size k)
                      (\<lambda>i. priority (proc k (run_queue k i)) < priority (proc k p)) of
                 None \<Rightarrow> (queue_size k, run_queue k)
               | Some i \<Rightarrow> (i, shift_right i (queue_size k) (run_queue k)));
            k = k\<lparr>run_queue := q(insert_pos := p), queue_size := queue_size k + 1\<rparr>
        in if insert_pos \<le> queue_idx k \<and> queue_size k > 1 then k\<lparr>queue_idx := queue_idx k + 1\<rparr>
           else k)"

definition scheduler_remove :: "nat \<Rightarrow> kernel \<Rightarrow> kernel" where
  "scheduler_remove p k =
     (case first_slot (queue_size k) (\<lambda>i. p = run_queue k i) of
        None \<Rightarrow> k
      | Some i \<Rightarrow>
          let k = k\<lparr>run_queue := shift_left i (queue_size k) (run_queue k),
                    queue_size := queue_size k - 1\<rparr>
          in if queue_idx k \<ge> queue_size k \<and> queue_size k > 0 then
               k\<lparr>queue_idx := queue_size k - 1\<rparr>
             else if i < queue_idx k then k\<lparr>queue_idx := queue_idx k - 1\<rparr>
             else k)"

text \<open>The effective priority, as the first loop and the second pass compute it.\<close>

definition eff :: "pcb \<Rightarrow> int" where
  "eff p = int (unat (priority p)) + (if foreground p \<noteq> 0 then 1 else 0) + aging_bonus p"

text \<open>The first loop: the highest effective priority among the READY, or -1.\<close>

definition highest_eff :: "kernel \<Rightarrow> int" where
  "highest_eff k =
     fold (\<lambda>i h. let p = proc k (run_queue k i)
                 in if pstate p = PROCESS_READY \<and> eff p > h then eff p else h)
       [0..<queue_size k] (- 1)"

text \<open>One pass: advance \<open>queue_idx\<close> at most \<open>n\<close> times until the test holds.\<close>

fun rr_pass :: "nat \<Rightarrow> (pcb \<Rightarrow> bool) \<Rightarrow> kernel \<Rightarrow> nat option \<times> kernel" where
  "rr_pass 0 test k = (None, k)"
| "rr_pass (Suc n) test k =
     (let k = k\<lparr>queue_idx := (queue_idx k + 1) mod queue_size k\<rparr>;
          c = run_queue k (queue_idx k)
      in if test (proc k c) then (Some c, k) else rr_pass n test k)"

definition scheduler_next_ready :: "kernel \<Rightarrow> nat option \<times> kernel" where
  "scheduler_next_ready k =
     (if queue_size k = 0 then (idle_pcb k, k)
      else if highest_eff k < 0 then (idle_pcb k, k)
      else
        let h = highest_eff k in
        case rr_pass (queue_size k)
               (\<lambda>c. pstate c = PROCESS_READY \<and> foreground c \<noteq> 0 \<and>
                     int (unat (priority c)) + 1 + aging_bonus c = h) k of
          (Some c, k) \<Rightarrow> (Some c, k)
        | (None, k) \<Rightarrow>
            (case rr_pass (queue_size k) (\<lambda>c. pstate c = PROCESS_READY \<and> eff c = h) k of
               (Some c, k) \<Rightarrow> (Some c, k)
             | (None, k) \<Rightarrow> (idle_pcb k, k)))"

text \<open>
  \<open>scheduler_start\<close>: \<open>Some rsp\<close> is the stack that \<open>scheduler_start_asm\<close> switches to, never
  to return; \<open>None\<close> is the return to \<open>main\<close>.
\<close>

definition scheduler_start :: "kernel \<Rightarrow> u64 option \<times> kernel" where
  "scheduler_start k =
     (case scheduler_next_ready k of
        (None, k) \<Rightarrow> (None, k)
      | (Some first, k) \<Rightarrow>
          let k = upd_proc first (\<lambda>p. p\<lparr>pstate := PROCESS_RUNNING\<rparr>) k;
              k = process_set_current (Some first) k
          in (Some (rsp (proc k first)), k))"

text \<open>\<open>timer_handler\<close> (time.c)\<close>

definition timer_handler :: "kernel \<Rightarrow> kernel" where
  "timer_handler k = k\<lparr>ticks := ticks k + 1\<rparr>"

definition deltaTicks :: "kernel \<Rightarrow> u64" where
  "deltaTicks k = ticks k"

text \<open>The aging loop of \<open>scheduler_tick\<close>.\<close>

definition age_waiting :: "kernel \<Rightarrow> kernel" where
  "age_waiting k =
     fold (\<lambda>i k. let p = run_queue k i
                 in if Some p \<noteq> current_process k \<and> pstate (proc k p) = PROCESS_READY
                    then upd_proc p (\<lambda>q. q\<lparr>wait_ticks := wait_ticks q + 1\<rparr>) k else k)
       [0..<queue_size k] k"

text \<open>The release of a ZOMBIE that has left the CPU (in \<open>tick\<close> and \<open>yield_impl\<close>).\<close>

definition scheduler_reap :: "nat option \<Rightarrow> kernel \<Rightarrow> kernel" where
  "scheduler_reap c k =
     (case c of
        None \<Rightarrow> k
      | Some cur \<Rightarrow>
          if pstate (proc k cur) = PROCESS_ZOMBIE then
            let k = scheduler_remove cur k;
                k = (if stack_base (proc k cur) \<noteq> 0 then
                       upd_proc cur (\<lambda>p. p\<lparr>stack_base := 0\<rparr>) (mm_free (stack_base (proc k cur)) k)
                     else k);
                k = (if argv (proc k cur) \<noteq> 0 then
                       upd_proc cur (\<lambda>p. p\<lparr>argv := 0\<rparr>) (mm_free (argv (proc k cur)) k)
                     else k)
            in upd_proc cur (\<lambda>p. p\<lparr>rsp := 0, pstate := PROCESS_FREE, pid := 0\<rparr>) k
          else k)"

text \<open>The common end of \<open>tick\<close> and \<open>yield_impl\<close>: \<open>next\<close> gets the CPU.\<close>

definition dispatch :: "nat \<Rightarrow> kernel \<Rightarrow> u64 \<times> kernel" where
  "dispatch nxt k =
     (let k = upd_proc nxt (\<lambda>p. p\<lparr>wait_ticks := 0, pstate := PROCESS_RUNNING\<rparr>) k;
          k = process_set_current (Some nxt) k
      in (rsp (proc k nxt), k))"

definition scheduler_tick :: "u64 \<Rightarrow> kernel \<Rightarrow> u64 \<times> kernel" where
  "scheduler_tick current_rsp k =
     (let k = timer_handler k;
          cur = process_current k;
          k = age_waiting k;
          (keep, k) =
            (case cur of
               None \<Rightarrow> (False, k)
             | Some c \<Rightarrow>
                 let k = upd_proc c (\<lambda>p. p\<lparr>rsp := current_rsp\<rparr>) k
                 in if pstate (proc k c) = PROCESS_RUNNING then
                      let k = (if remaining_quanta (proc k c) > 0 then
                                 upd_proc c (\<lambda>p. p\<lparr>remaining_quanta := remaining_quanta p - 1\<rparr>) k
                               else k)
                      in if remaining_quanta (proc k c) > 0 then (True, k)
                         else (False,
                               upd_proc c (\<lambda>p. p\<lparr>pstate := PROCESS_READY,
                                                  remaining_quanta := priority p\<rparr>) k)
                    else (False, k))
      in if keep then (current_rsp, k)
         else
           case scheduler_next_ready k of
             (None, k) \<Rightarrow>
               (case cur of
                  None \<Rightarrow> (current_rsp, k)
                | Some c \<Rightarrow>
                    if pstate (proc k c) = PROCESS_READY \<or> pstate (proc k c) = PROCESS_RUNNING then
                      (current_rsp, upd_proc c (\<lambda>p. p\<lparr>pstate := PROCESS_RUNNING\<rparr>) k)
                    else (current_rsp, k))
           | (Some nxt, k) \<Rightarrow> dispatch nxt (scheduler_reap cur k))"

definition scheduler_yield_impl :: "u64 \<Rightarrow> kernel \<Rightarrow> u64 \<times> kernel" where
  "scheduler_yield_impl current_rsp k =
     (let cur = process_current k;
          k = (case cur of
                 None \<Rightarrow> k
               | Some c \<Rightarrow>
                   let k = upd_proc c (\<lambda>p. p\<lparr>rsp := current_rsp\<rparr>) k;
                       k = (if pstate (proc k c) = PROCESS_RUNNING
                            then upd_proc c (\<lambda>p. p\<lparr>pstate := PROCESS_READY\<rparr>) k else k)
                   in upd_proc c (\<lambda>p. p\<lparr>remaining_quanta := priority p\<rparr>) k)
      in case scheduler_next_ready k of
           (None, k) \<Rightarrow>
             (case cur of
                None \<Rightarrow> (current_rsp, k)
              | Some c \<Rightarrow>
                  if pstate (proc k c) = PROCESS_READY then
                    (current_rsp, upd_proc c (\<lambda>p. p\<lparr>pstate := PROCESS_RUNNING\<rparr>) k)
                  else (current_rsp, k))
         | (Some nxt, k) \<Rightarrow> dispatch nxt (scheduler_reap cur k))"

end
