(* ===== verification/Semaphores.thy ===== *)
theory Semaphores
  imports Process_Core
begin

text \<open>
  \<open>Kernel/c/semaphore/semaphore.c\<close>: named counting semaphores with a FIFO of waiting PIDs.
  A bit of \<open>held_sems\<close> and \<open>opened_sems\<close> in the PCB records what a process would have to
  give back when it dies.
\<close>

section \<open>Operations\<close>

definition find_sem :: "char list option \<Rightarrow> kernel \<Rightarrow> nat option" where
  "find_sem nm k =
     first_slot MAX_SEMS
       (\<lambda>i. open_count (sem_table k i) > 0 \<and> sem_str_eq (Some (sem_name (sem_table k i))) nm)"

text \<open>
  The spin lock: \<open>atomic_xchg\<close> returns the old value, and the loop ends at once if it was
  \<open>UNLOCKED\<close>. With interrupts off nobody else can release it, so a lock found taken is spun
  on forever.
\<close>

definition sem_lock :: "nat \<Rightarrow> kernel \<Rightarrow> kernel" where
  "sem_lock i k =
     (if sem_locked (sem_table k i) then set_fault Spin k
      else upd_sem i (\<lambda>s. s\<lparr>sem_locked := True\<rparr>) k)"

definition sem_unlock :: "nat \<Rightarrow> kernel \<Rightarrow> kernel" where
  "sem_unlock i k = upd_sem i (\<lambda>s. s\<lparr>sem_locked := False\<rparr>) k"

text \<open>\<open>1u << i\<close>, \<open>x |= 1u << i\<close>, \<open>x &= ~(1u << i)\<close>, \<open>(x >> i) & 1u\<close>\<close>

definition set_sem_bit :: "nat \<Rightarrow> u32 \<Rightarrow> u32" where
  "set_sem_bit i x = x OR push_bit i 1"

definition clear_sem_bit :: "nat \<Rightarrow> u32 \<Rightarrow> u32" where
  "clear_sem_bit i x = x AND NOT (push_bit i 1)"

definition sem_bit :: "nat \<Rightarrow> u32 \<Rightarrow> bool" where
  "sem_bit i x \<longleftrightarrow> drop_bit i x AND 1 \<noteq> 0"

definition sem_init :: "kernel \<Rightarrow> kernel" where
  "sem_init k =
     fold (\<lambda>i. upd_sem i (\<lambda>s. s\<lparr>open_count := 0, sem_value := 0, sem_queue := empty_q,
                              sem_name := (sem_name s)[0 := NUL], sem_locked := False\<rparr>))
       [0..<MAX_SEMS] k"

definition opened_by_current :: "nat \<Rightarrow> kernel \<Rightarrow> kernel" where
  "opened_by_current i k =
     (case process_current k of
        None \<Rightarrow> k
      | Some cur \<Rightarrow> upd_proc cur (\<lambda>p. p\<lparr>opened_sems := set_sem_bit i (opened_sems p)\<rparr>) k)"

text \<open>\<open>value--\<close> and \<open>value++\<close> on an \<open>int64_t\<close>, noting whether the sum fits.\<close>

definition add_value :: "int \<Rightarrow> semaphore \<Rightarrow> semaphore" where
  "add_value d s = s\<lparr>sem_value := i64 (sem_value s + d),
     sem_wrapped := sem_wrapped s \<or> i64 (sem_value s + d) \<noteq> sem_value s + d\<rparr>"

lemma add_value_simps [simp]:
  "sem_value (add_value d s) = i64 (sem_value s + d)"
  "sem_name (add_value d s) = sem_name s" "sem_queue (add_value d s) = sem_queue s"
  "open_count (add_value d s) = open_count s" "sem_locked (add_value d s) = sem_locked s"
  "sem_wrapped (add_value d s) \<longleftrightarrow> sem_wrapped s \<or> i64 (sem_value s + d) \<noteq> sem_value s + d"
  by (simp_all add: add_value_def)

definition reset_queue :: "pidq \<Rightarrow> pidq" where
  "reset_queue q = q\<lparr>q_head := 0, q_tail := 0, q_count := 0\<rparr>"

definition sem_open :: "char list option \<Rightarrow> u64 \<Rightarrow> kernel \<Rightarrow> int \<times> kernel" where
  "sem_open nm initial_value k =
     (if nm = None then (0, k)
      else case find_sem nm k of
        Some i \<Rightarrow>
          (1, opened_by_current i (upd_sem i (\<lambda>s. s\<lparr>open_count := i32 (open_count s + 1)\<rparr>) k))
      | None \<Rightarrow>
          (case first_slot MAX_SEMS (\<lambda>i. open_count (sem_table k i) = 0) of
             None \<Rightarrow> (0, k)
           | Some i \<Rightarrow>
               (1, opened_by_current i
                     (upd_sem i (\<lambda>s. s\<lparr>sem_name := sem_str_copy (sem_name s) nm SEM_NAME_LEN,
                                       sem_value := sint initial_value,
                                       open_count := 1,
                                       sem_queue := reset_queue (sem_queue s),
                                       sem_locked := False,
                                       sem_wrapped := False\<rparr>) k))))"

definition sem_wait :: "char list option \<Rightarrow> kernel \<Rightarrow> int \<times> kernel" where
  "sem_wait nm k =
     (if nm = None then (- 1, k)
      else case find_sem nm k of
        None \<Rightarrow> (- 1, k)
      | Some i \<Rightarrow>
          let cur = process_current k;
              k = sem_lock i k;
              k = upd_sem i (add_value (- 1)) k
          in if sem_value (sem_table k i) < 0 then
               (case cur of
                  None \<Rightarrow> (- 1, sem_unlock i k)
                | Some c \<Rightarrow>
                    let k = upd_sem i (\<lambda>s. s\<lparr>sem_queue := sem_queue_push (pid (proc k c)) (sem_queue s)\<rparr>) k;
                        k = sem_unlock i k
                    in (0, process_block (pid (proc k c)) k))
             else
               let k = (case cur of
                          None \<Rightarrow> k
                        | Some c \<Rightarrow> upd_proc c (\<lambda>p. p\<lparr>held_sems := set_sem_bit i (held_sems p)\<rparr>) k)
               in (0, sem_unlock i k))"

text \<open>
  The end of \<open>sem_post\<close> and of the release branch of \<open>sem_cleanup_for_process\<close>: take a
  waiter off the queue, hand the resource over, unlock, unblock.
\<close>

definition sem_wake :: "nat \<Rightarrow> kernel \<Rightarrow> kernel" where
  "sem_wake i k =
     (let (p, q) = queue_pop (sem_queue (sem_table k i));
          k = upd_sem i (\<lambda>s. s\<lparr>sem_queue := q\<rparr>) k;
          k = (case process_get p k of
                 None \<Rightarrow> k
               | Some w \<Rightarrow> upd_proc w (\<lambda>c. c\<lparr>held_sems := set_sem_bit i (held_sems c)\<rparr>) k);
          k = sem_unlock i k
      in process_unblock p k)"

definition sem_post :: "char list option \<Rightarrow> kernel \<Rightarrow> int \<times> kernel" where
  "sem_post nm k =
     (if nm = None then (- 1, k)
      else case find_sem nm k of
        None \<Rightarrow> (- 1, k)
      | Some i \<Rightarrow>
          let k = sem_lock i k;
              k = (case process_current k of
                     None \<Rightarrow> k
                   | Some c \<Rightarrow> upd_proc c (\<lambda>p. p\<lparr>held_sems := clear_sem_bit i (held_sems p)\<rparr>) k);
              k = upd_sem i (add_value 1) k;
              s = sem_table k i
          in (0, if sem_value s \<le> 0 \<and> q_count (sem_queue s) > 0 then sem_wake i k
                 else sem_unlock i k))"

text \<open>One iteration of \<open>sem_cleanup_for_process\<close>, for the process in slot \<open>p\<close>.\<close>

definition sem_cleanup_one :: "nat \<Rightarrow> u64 \<Rightarrow> nat \<Rightarrow> kernel \<Rightarrow> kernel" where
  "sem_cleanup_one p n i k =
     (if open_count (sem_table k i) \<le> 0 then k
      else
        let k = sem_lock i k;
            (was_queued, q) = queue_remove_pid n (sem_queue (sem_table k i));
            k = upd_sem i (\<lambda>s. s\<lparr>sem_queue := q\<rparr>) k;
            k = (if sem_bit i (opened_sems (proc k p)) then
                   upd_sem i (\<lambda>s. if open_count s > 0 then s\<lparr>open_count := open_count s - 1\<rparr> else s)
                     (upd_proc p (\<lambda>c. c\<lparr>opened_sems := clear_sem_bit i (opened_sems c)\<rparr>) k)
                 else k)
        in if was_queued then
             sem_unlock i
               (upd_proc p (\<lambda>c. c\<lparr>held_sems := clear_sem_bit i (held_sems c)\<rparr>)
                 (upd_sem i (add_value 1) k))
           else if sem_bit i (held_sems (proc k p)) then
             let k = upd_proc p (\<lambda>c. c\<lparr>held_sems := clear_sem_bit i (held_sems c)\<rparr>) k;
                 k = upd_sem i (add_value 1) k;
                 s = sem_table k i
             in if sem_value s \<le> 0 \<and> q_count (sem_queue s) > 0 then sem_wake i k
                else sem_unlock i k
           else sem_unlock i k)"

definition sem_cleanup_for_process :: "u64 \<Rightarrow> kernel \<Rightarrow> kernel" where
  "sem_cleanup_for_process n k =
     (case process_get n k of
        None \<Rightarrow> k
      | Some p \<Rightarrow>
          upd_proc p (\<lambda>c. c\<lparr>held_sems := 0, opened_sems := 0\<rparr>)
            (fold (sem_cleanup_one p n) [0..<MAX_SEMS] k))"

definition sem_close :: "char list option \<Rightarrow> kernel \<Rightarrow> int \<times> kernel" where
  "sem_close nm k =
     (if nm = None then (- 1, k)
      else case find_sem nm k of
        None \<Rightarrow> (- 1, k)
      | Some i \<Rightarrow>
          let k = (case process_current k of
                     None \<Rightarrow> k
                   | Some c \<Rightarrow>
                       upd_proc c (\<lambda>p. p\<lparr>held_sems := clear_sem_bit i (held_sems p),
                                         opened_sems := clear_sem_bit i (opened_sems p)\<rparr>) k);
              k = upd_sem i (\<lambda>s. s\<lparr>open_count := open_count s - 1\<rparr>) k
          in (0, if open_count (sem_table k i) \<le> 0 then
                   upd_sem i (\<lambda>s. s\<lparr>open_count := 0, sem_name := (sem_name s)[0 := NUL],
                                     sem_queue := reset_queue (sem_queue s)\<rparr>) k
                 else k))"

end
