(* ===== verification/Pipes.thy ===== *)
theory Pipes
  imports Process_Core
begin

text \<open>
  \<open>Kernel/c/pipe/pipe.c\<close>: anonymous and named pipes, a ring of 4096 bytes each, with the
  queues of blocked readers and writers.
\<close>

abbreviation (input) READ_BLOCKED :: u64 where "READ_BLOCKED \<equiv> - 1"

section \<open>Operations\<close>

definition pipe_wake_reader :: "nat \<Rightarrow> kernel \<Rightarrow> kernel" where
  "pipe_wake_reader p k =
     (if q_count (wait_readers (pipe_table k p)) > 0 then
        let (n, q) = queue_pop (wait_readers (pipe_table k p))
        in process_unblock n (upd_pipe p (\<lambda>s. s\<lparr>wait_readers := q\<rparr>) k)
      else k)"

definition pipe_wake_writer :: "nat \<Rightarrow> kernel \<Rightarrow> kernel" where
  "pipe_wake_writer p k =
     (if q_count (wait_writers (pipe_table k p)) > 0 then
        let (n, q) = queue_pop (wait_writers (pipe_table k p))
        in process_unblock n (upd_pipe p (\<lambda>s. s\<lparr>wait_writers := q\<rparr>) k)
      else k)"

lemma process_unblock_pipe_table [simp]: "pipe_table (process_unblock n k) = pipe_table k"
  by (simp add: process_unblock_def Let_def split: option.splits)

text \<open>The two draining loops; each iteration takes one PID off the queue.\<close>

function pipe_wake_all_readers :: "nat \<Rightarrow> kernel \<Rightarrow> kernel" where
  "pipe_wake_all_readers p k =
     (if q_count (wait_readers (pipe_table k p)) > 0
      then pipe_wake_all_readers p (pipe_wake_reader p k) else k)"
  by pat_completeness auto
termination
  by (relation "measure (\<lambda>(p, k). q_count (wait_readers (pipe_table k p)))")
     (auto simp: pipe_wake_reader_def queue_pop_def)

function pipe_wake_all_writers :: "nat \<Rightarrow> kernel \<Rightarrow> kernel" where
  "pipe_wake_all_writers p k =
     (if q_count (wait_writers (pipe_table k p)) > 0
      then pipe_wake_all_writers p (pipe_wake_writer p k) else k)"
  by pat_completeness auto
termination
  by (relation "measure (\<lambda>(p, k). q_count (wait_writers (pipe_table k p)))")
     (auto simp: pipe_wake_writer_def queue_pop_def)

declare pipe_wake_all_readers.simps [simp del] pipe_wake_all_writers.simps [simp del]

definition pipe_reset :: "pipe \<Rightarrow> pipe" where
  "pipe_reset p =
     p\<lparr>read_idx := 0, write_idx := 0, p_count := 0, open_read := 0, open_write := 0,
       wait_readers := (wait_readers p)\<lparr>q_head := 0, q_tail := 0, q_count := 0\<rparr>,
       wait_writers := (wait_writers p)\<lparr>q_head := 0, q_tail := 0, q_count := 0\<rparr>,
       is_named := False, p_eof := False, opens := 0, p_name := (p_name p)[0 := NUL]\<rparr>"

definition pipe_maybe_free :: "nat \<Rightarrow> kernel \<Rightarrow> kernel" where
  "pipe_maybe_free p k =
     (if open_read (pipe_table k p) = 0 \<and> open_write (pipe_table k p) = 0
      then upd_pipe p (\<lambda>s. (pipe_reset s)\<lparr>in_use := False\<rparr>) k else k)"

text \<open>\<open>memset(pipe_table, 0, sizeof(pipe_table))\<close>\<close>

definition zero_pipe :: pipe where
  "zero_pipe = \<lparr>p_buffer = (\<lambda>_. NUL), read_idx = 0, write_idx = 0, p_count = 0, open_read = 0,
     open_write = 0, wait_readers = empty_q, wait_writers = empty_q, in_use = False,
     is_named = False, p_eof = False, opens = 0, p_name = replicate PIPE_NAME_LEN NUL\<rparr>"

definition pipe_init :: "kernel \<Rightarrow> kernel" where
  "pipe_init k = k\<lparr>pipe_table := (\<lambda>i. if i < MAX_PIPES then zero_pipe else pipe_table k i)\<rparr>"

definition pipe_cleanup_for_process :: "u64 \<Rightarrow> kernel \<Rightarrow> kernel" where
  "pipe_cleanup_for_process n k =
     fold (\<lambda>i k.
        if \<not> in_use (pipe_table k i) then k
        else upd_pipe i (\<lambda>s. s\<lparr>wait_readers := snd (queue_remove_pid n (wait_readers s)),
                               wait_writers := snd (queue_remove_pid n (wait_writers s))\<rparr>) k)
      [0..<MAX_PIPES] k"

definition pipe_alloc :: "kernel \<Rightarrow> nat option \<times> kernel" where
  "pipe_alloc k =
     (case first_slot MAX_PIPES (\<lambda>i. \<not> in_use (pipe_table k i)) of
        None \<Rightarrow> (None, k)
      | Some i \<Rightarrow> (Some i, upd_pipe i (\<lambda>s. (pipe_reset s)\<lparr>in_use := True\<rparr>) k))"

text \<open>The comparison loop of \<open>pipe_open\<close>: advance while equal, then test both ends.\<close>

fun pipe_name_eq :: "char list \<Rightarrow> char list \<Rightarrow> bool" where
  "pipe_name_eq [] b = (rd b = NUL)"
| "pipe_name_eq (x # xs) b =
     (if x \<noteq> NUL \<and> rd b \<noteq> NUL \<and> x = rd b then pipe_name_eq xs (tl b)
      else x = NUL \<and> rd b = NUL)"

text \<open>The copy loop of \<open>pipe_open\<close>, at index \<open>j\<close> of the destination.\<close>

fun pipe_name_copy :: "char list \<Rightarrow> nat \<Rightarrow> char list \<Rightarrow> char list" where
  "pipe_name_copy dst j [] = dst[j := NUL]"
| "pipe_name_copy dst j (c # cs) =
     (if j < PIPE_NAME_LEN - 1 \<and> c \<noteq> NUL then pipe_name_copy (dst[j := c]) (Suc j) cs
      else dst[j := NUL])"

definition pipe_open :: "char list option \<Rightarrow> kernel \<Rightarrow> nat option \<times> kernel" where
  "pipe_open nm k =
     (case (case nm of
              None \<Rightarrow> None
            | Some s \<Rightarrow> first_slot MAX_PIPES
                (\<lambda>i. in_use (pipe_table k i) \<and> is_named (pipe_table k i) \<and>
                     pipe_name_eq s (p_name (pipe_table k i)))) of
        Some i \<Rightarrow> (Some i, upd_pipe i (\<lambda>s. s\<lparr>opens := opens s + 1\<rparr>) k)
      | None \<Rightarrow>
          (case pipe_alloc k of
             (None, k) \<Rightarrow> (None, k)
           | (Some p, k) \<Rightarrow>
               (Some p,
                case nm of
                  None \<Rightarrow> k
                | Some s \<Rightarrow> upd_pipe p (\<lambda>q. q\<lparr>p_name := pipe_name_copy (p_name q) 0 s,
                                             is_named := True, opens := 1\<rparr>) k)))"

definition pipe_open_read :: "nat option \<Rightarrow> kernel \<Rightarrow> kernel" where
  "pipe_open_read d k =
     (case d of
        None \<Rightarrow> k
      | Some p \<Rightarrow>
          let k = upd_pipe p (\<lambda>s. s\<lparr>open_read := open_read s + 1\<rparr>) k;
              s = pipe_table k p
          in if is_named s \<and> q_count (wait_writers s) > 0 \<and> open_read s > 0
             then pipe_wake_all_writers p k else k)"

definition pipe_open_write :: "nat option \<Rightarrow> kernel \<Rightarrow> kernel" where
  "pipe_open_write d k =
     (case d of
        None \<Rightarrow> k
      | Some p \<Rightarrow>
          let k = upd_pipe p (\<lambda>s. s\<lparr>open_write := open_write s + 1\<rparr>) k
          in if is_named (pipe_table k p) then
               let k = upd_pipe p (\<lambda>s. s\<lparr>p_eof := False\<rparr>) k
               in if q_count (wait_readers (pipe_table k p)) > 0 then pipe_wake_all_readers p k
                  else k
             else k)"

definition pipe_close_read :: "nat option \<Rightarrow> kernel \<Rightarrow> kernel" where
  "pipe_close_read d k =
     (case d of
        None \<Rightarrow> k
      | Some p \<Rightarrow>
          let k = (if open_read (pipe_table k p) > 0
                   then upd_pipe p (\<lambda>s. s\<lparr>open_read := open_read s - 1\<rparr>) k else k);
              k = (if open_read (pipe_table k p) = 0 then pipe_wake_all_writers p k else k)
          in pipe_maybe_free p k)"

definition pipe_close_write :: "nat option \<Rightarrow> kernel \<Rightarrow> kernel" where
  "pipe_close_write d k =
     (case d of
        None \<Rightarrow> k
      | Some p \<Rightarrow>
          let k = (if open_write (pipe_table k p) > 0
                   then upd_pipe p (\<lambda>s. s\<lparr>open_write := open_write s - 1\<rparr>) k else k);
              k = (if open_write (pipe_table k p) = 0 then
                     let k = (if is_named (pipe_table k p) \<and> opens (pipe_table k p) \<ge> 2
                              then upd_pipe p (\<lambda>s. s\<lparr>p_eof := True\<rparr>) k else k)
                     in pipe_wake_all_readers p k
                   else k)
          in pipe_maybe_free p k)"

text \<open>The bodies of the two copy loops: one byte out of the ring, one byte into it.\<close>

definition pipe_get :: "pipe \<Rightarrow> char \<times> pipe" where
  "pipe_get s =
     (p_buffer s (read_idx s),
      s\<lparr>read_idx := (read_idx s + 1) mod PIPE_BUFFER_SIZE, p_count := p_count s - 1\<rparr>)"

definition pipe_put :: "char \<Rightarrow> pipe \<Rightarrow> pipe" where
  "pipe_put c s =
     s\<lparr>p_buffer := (p_buffer s)(write_idx s := c),
       write_idx := (write_idx s + 1) mod PIPE_BUFFER_SIZE, p_count := p_count s + 1\<rparr>"

text \<open>Queue the current process and block it.\<close>

definition block_reader :: "nat \<Rightarrow> kernel \<Rightarrow> kernel" where
  "block_reader p k =
     (case process_current k of
        None \<Rightarrow> k
      | Some cur \<Rightarrow>
          let n = pid (proc k cur)
          in process_block n
               (upd_pipe p (\<lambda>s. s\<lparr>wait_readers := pipe_queue_push n (wait_readers s)\<rparr>) k))"

definition block_writer :: "nat \<Rightarrow> kernel \<Rightarrow> kernel" where
  "block_writer p k =
     (case process_current k of
        None \<Rightarrow> k
      | Some cur \<Rightarrow>
          let n = pid (proc k cur)
          in process_block n
               (upd_pipe p (\<lambda>s. s\<lparr>wait_writers := pipe_queue_push n (wait_writers s)\<rparr>) k))"

text \<open>
  \<open>pipe_read\<close>: the result, the bytes stored at the front of \<open>buf\<close>, the new state.
  \<open>buf_null\<close> says that \<open>buf\<close> is \<open>NULL\<close>.
\<close>

definition pipe_read :: "nat option \<Rightarrow> bool \<Rightarrow> u64 \<Rightarrow> kernel \<Rightarrow> u64 \<times> char list \<times> kernel" where
  "pipe_read d buf_null cnt k =
     (case d of
        None \<Rightarrow> (0, [], k)
      | Some p \<Rightarrow>
          if buf_null \<or> cnt = 0 then (0, [], k)
          else
            let s = pipe_table k p in
            if p_count s = 0 then
              (if is_named s then
                 (if p_eof s then (0, [], k) else (READ_BLOCKED, [], block_reader p k))
               else
                 (if open_write s = 0 then (0, [], k) else (READ_BLOCKED, [], block_reader p k)))
            else
              let to_read = (if unat cnt > p_count s then p_count s else unat cnt);
                  (bytes, s') = pop_n pipe_get to_read s;
                  k = upd_pipe p (\<lambda>_. s') k;
                  k = (if q_count (wait_writers s') > 0 \<and> p_count s' < PIPE_BUFFER_SIZE
                       then pipe_wake_writer p k else k)
              in (of_nat to_read, bytes, k))"

text \<open>\<open>pipe_write\<close>; the bytes at \<open>buf\<close> are given, \<open>None\<close> for \<open>NULL\<close>.\<close>

definition pipe_write :: "nat option \<Rightarrow> char list option \<Rightarrow> u64 \<Rightarrow> kernel \<Rightarrow> u64 \<times> kernel" where
  "pipe_write d buf cnt k =
     (case d of
        None \<Rightarrow> (0, k)
      | Some p \<Rightarrow>
          (case buf of
             None \<Rightarrow> (0, k)
           | Some bytes \<Rightarrow>
               if cnt = 0 then (0, k)
               else
                 let s = pipe_table k p in
                 if open_read s = 0 then
                   (if is_named s then
                      (if p_eof s then (0, k) else (READ_BLOCKED, block_writer p k))
                    else (0, k))
                 else if p_count s \<ge> PIPE_BUFFER_SIZE then (READ_BLOCKED, block_writer p k)
                 else
                   let space = PIPE_BUFFER_SIZE - p_count s;
                       to_write = (if unat cnt < space then unat cnt else space);
                       s' = push_list pipe_put (take to_write bytes) s;
                       k = upd_pipe p (\<lambda>_. s') k;
                       k = (if q_count (wait_readers s') > 0 \<and> p_count s' > 0
                            then pipe_wake_reader p k else k)
                   in (of_nat to_write, k)))"

end
