(* ===== verification/Keyboard_Buffer.thy ===== *)
theory Keyboard_Buffer
  imports Kernel_State
begin

text \<open>
  The buffer half of \<open>Kernel/c/drivers/keyboardDriver.c\<close>: the ring of pending characters,
  the terminal mode, the process waiting for input, and the register snapshot.
\<close>

section \<open>Operations\<close>

definition kbd_set_waiting :: "nat option \<Rightarrow> keyboard \<Rightarrow> keyboard" where
  "kbd_set_waiting p b = b\<lparr>kbd_waiting_process := p\<rparr>"

definition kbd_clear_waiting :: "nat \<Rightarrow> keyboard \<Rightarrow> keyboard" where
  "kbd_clear_waiting p b =
     (if kbd_waiting_process b = Some p then b\<lparr>kbd_waiting_process := None\<rparr> else b)"

definition tty_get_mode :: "keyboard \<Rightarrow> int" where
  "tty_get_mode b = tty_mode b"

definition tty_set_mode :: "int \<Rightarrow> keyboard \<Rightarrow> keyboard" where
  "tty_set_mode mode b =
     b\<lparr>tty_mode := mode, tty_line_len := 0, tty_line_ready := False, tty_eof := False\<rparr>"

text \<open>A full buffer drops its oldest character.\<close>

definition writeBuff :: "char \<Rightarrow> keyboard \<Rightarrow> keyboard" where
  "writeBuff c b =
     (let b = b\<lparr>buff := (buff b)(end_index b := c), end_index := (end_index b + 1) mod BUFF_LENGTH\<rparr>
      in if buff_size b < BUFF_LENGTH then b\<lparr>buff_size := buff_size b + 1\<rparr>
         else b\<lparr>start_index := (start_index b + 1) mod BUFF_LENGTH\<rparr>)"

definition clearBuff :: "keyboard \<Rightarrow> keyboard" where
  "clearBuff b = b\<lparr>buff_size := 0, start_index := 0, end_index := 0\<rparr>"

definition getFromBuffer :: "keyboard \<Rightarrow> char \<times> keyboard" where
  "getFromBuffer b =
     (if buff_size b = 0 then (CHR 0xFF, b)
      else (buff b (start_index b),
            b\<lparr>buff_size := buff_size b - 1, start_index := (start_index b + 1) mod BUFF_LENGTH\<rparr>))"

text \<open>
  \<open>for (i = 0; i < count && i < buff_size; i++) buff[i] = getFromBuffer();\<close> --- the bound
  \<open>buff_size\<close> is read again in each round, after the round before has decremented it.
\<close>

function readKeyBuff_loop :: "nat \<Rightarrow> u64 \<Rightarrow> keyboard \<Rightarrow> char list \<times> keyboard" where
  "readKeyBuff_loop i cnt b =
     (if i < unat cnt \<and> i < buff_size b then
        let (c, b1) = getFromBuffer b;
            (cs, b2) = readKeyBuff_loop (Suc i) cnt b1
        in (c # cs, b2)
      else ([], b))"
  by pat_completeness auto
termination
  by (relation "measure (\<lambda>(i, cnt, b). buff_size b)") (auto simp: getFromBuffer_def)

declare readKeyBuff_loop.simps [simp del]

definition readKeyBuff :: "u64 \<Rightarrow> keyboard \<Rightarrow> u64 \<times> char list \<times> keyboard" where
  "readKeyBuff cnt b =
     (let (cs, b) = readKeyBuff_loop 0 cnt b in (of_nat (length cs), cs, b))"

text \<open>\<open>copyRegistersBuffer\<close>: the string written to the caller's buffer, if there is one.\<close>

definition copyRegistersBuffer :: "keyboard \<Rightarrow> u64 \<times> char list option" where
  "copyRegistersBuffer b =
     (if boolRegisters b then (1, Some (cstr (registersBuff b) @ [NUL])) else (0, None))"

end
