(* ===== verification/Fds.thy ===== *)
theory Fds
  imports Pipes Keyboard_Buffer
begin

text \<open>
  \<open>Kernel/c/pipe/fd.c\<close>: the global table of file descriptors with their reference counts.
  Reading and writing dispatch on the type: the terminal (keyboard and screen) or a pipe.
\<close>

section \<open>Operations\<close>

definition fd_alloc :: "fd_type \<Rightarrow> nat option \<Rightarrow> kernel \<Rightarrow> int \<times> kernel" where
  "fd_alloc t d k =
     (case first_slot MAX_FDS (\<lambda>i. fd_type (fd_table k i) = FD_NONE) of
        None \<Rightarrow> (- 1, k)
      | Some i \<Rightarrow> (int i, upd_fd i (\<lambda>_. \<lparr>fd_type = t, refcount = 0, fd_data = d\<rparr>) k))"

definition fd_init :: "kernel \<Rightarrow> kernel" where
  "fd_init k =
     (let k = fold (\<lambda>i. upd_fd i (\<lambda>_. \<lparr>fd_type = FD_NONE, refcount = 0, fd_data = None\<rparr>))
                [0..<MAX_FDS] k;
          k = upd_fd FD_STDIN (\<lambda>d. d\<lparr>fd_type := FD_TERMINAL\<rparr>) k
      in upd_fd FD_STDOUT (\<lambda>d. d\<lparr>fd_type := FD_TERMINAL\<rparr>) k)"

definition fd_get :: "u64 \<Rightarrow> kernel \<Rightarrow> nat option" where
  "fd_get n k =
     (if n \<ge> of_nat MAX_FDS then None
      else if fd_type (fd_table k (unat n)) = FD_NONE then None
      else Some (unat n))"

definition fd_incref :: "u64 \<Rightarrow> kernel \<Rightarrow> kernel" where
  "fd_incref n k =
     (case fd_get n k of
        None \<Rightarrow> k
      | Some i \<Rightarrow>
          let k = upd_fd i (\<lambda>d. d\<lparr>refcount := refcount d + 1\<rparr>) k;
              d = fd_table k i
          in if fd_type d = FD_PIPE_READ then pipe_open_read (fd_data d) k
             else if fd_type d = FD_PIPE_WRITE then pipe_open_write (fd_data d) k
             else k)"

definition fd_decref :: "u64 \<Rightarrow> kernel \<Rightarrow> kernel" where
  "fd_decref n k =
     (case fd_get n k of
        None \<Rightarrow> k
      | Some i \<Rightarrow>
          let k = (if refcount (fd_table k i) > 0 then
                     let k = upd_fd i (\<lambda>d. d\<lparr>refcount := refcount d - 1\<rparr>) k;
                         d = fd_table k i
                     in if fd_type d = FD_PIPE_READ then pipe_close_read (fd_data d) k
                        else if fd_type d = FD_PIPE_WRITE then pipe_close_write (fd_data d) k
                        else k
                   else k)
          in if refcount (fd_table k i) = 0 \<and> fd_type (fd_table k i) \<noteq> FD_TERMINAL
             then upd_fd i (\<lambda>d. d\<lparr>fd_type := FD_NONE, fd_data := None\<rparr>) k else k)"

text \<open>Block the reader of the terminal until a key arrives.\<close>

definition block_on_keyboard :: "nat \<Rightarrow> kernel \<Rightarrow> kernel" where
  "block_on_keyboard cur k =
     (upd_proc cur (\<lambda>p. p\<lparr>pstate := PROCESS_BLOCKED\<rparr>)
        (upd_kbd (kbd_set_waiting (Some cur)) k))\<lparr>force_switch := True\<rparr>"

text \<open>The line that \<open>fd_read\<close> hands out in cooked mode: the bytes and the rest of the line.\<close>

definition tty_take_line :: "u64 \<Rightarrow> keyboard \<Rightarrow> char list \<times> keyboard" where
  "tty_take_line cnt b =
     (let to_copy = (if tty_line_len b > unat cnt then unat cnt else tty_line_len b);
          bytes = map (tty_line b) [0..<to_copy]
      in (bytes,
          if to_copy = tty_line_len b then
            b\<lparr>tty_line_len := 0, tty_line_ready := False, tty_eof := False\<rparr>
          else
            b\<lparr>tty_line := fold (\<lambda>i l. l(i := l (i + to_copy))) [0..<tty_line_len b - to_copy] (tty_line b),
              tty_line_len := tty_line_len b - to_copy\<rparr>))"

definition tty_read :: "u64 \<Rightarrow> nat option \<Rightarrow> kernel \<Rightarrow> u64 \<times> char list \<times> kernel" where
  "tty_read cnt cur k =
     (case cur of
        None \<Rightarrow> (0, [], k)
      | Some c \<Rightarrow>
          if foreground (proc k c) = 0 then (0, [], k)
          else if tty_get_mode (kbd k) = TTY_COOKED then
            (if tty_eof (kbd k) \<and> tty_line_len (kbd k) = 0 then
               (0, [], upd_kbd (\<lambda>b. b\<lparr>tty_eof := False\<rparr>) k)
             else if tty_line_ready (kbd k) \<or> tty_eof (kbd k) then
               let (bytes, b) = tty_take_line cnt (kbd k)
               in (of_nat (length bytes), bytes, upd_kbd (\<lambda>_. b) k)
             else (READ_BLOCKED, [], block_on_keyboard c k))
          else
            let (n, bytes, b) = readKeyBuff cnt (kbd k);
                k = upd_kbd (\<lambda>_. b) k
            in if n > 0 \<and> bytes ! 0 = CHR 0x04 then (0, bytes, k)
               else if n = 0 then (READ_BLOCKED, bytes, block_on_keyboard c k)
               else (n, bytes, k))"

definition fd_read :: "nat option \<Rightarrow> bool \<Rightarrow> u64 \<Rightarrow> nat option \<Rightarrow> kernel \<Rightarrow> u64 \<times> char list \<times> kernel" where
  "fd_read d buf_null cnt cur k =
     (case d of
        None \<Rightarrow> (0, [], k)
      | Some i \<Rightarrow>
          if buf_null \<or> cnt = 0 then (0, [], k)
          else case fd_type (fd_table k i) of
            FD_TERMINAL \<Rightarrow> tty_read cnt cur k
          | FD_PIPE_READ \<Rightarrow> pipe_read (fd_data (fd_table k i)) buf_null cnt k
          | _ \<Rightarrow> (0, [], k))"

definition fd_write :: "nat option \<Rightarrow> char list option \<Rightarrow> u64 \<Rightarrow> nat option \<Rightarrow> u32 \<Rightarrow> kernel \<Rightarrow> u64 \<times> kernel" where
  "fd_write d buf cnt cur color k =
     (case d of
        None \<Rightarrow> (0, k)
      | Some i \<Rightarrow>
          (case buf of
             None \<Rightarrow> (0, k)
           | Some bytes \<Rightarrow>
               if cnt = 0 then (0, k)
               else case fd_type (fd_table k i) of
                 FD_TERMINAL \<Rightarrow>
                   (cnt, k\<lparr>video := fold (\<lambda>j. videoPutChar (bytes ! j) color) [0..<unat cnt] (video k)\<rparr>)
               | FD_PIPE_WRITE \<Rightarrow> pipe_write (fd_data (fd_table k i)) buf cnt k
               | _ \<Rightarrow> (0, k)))"

definition fd_create_pipe :: "nat option \<Rightarrow> bool \<Rightarrow> kernel \<Rightarrow> int \<times> kernel" where
  "fd_create_pipe p write_end k =
     (case p of
        None \<Rightarrow> (- 1, k)
      | Some _ \<Rightarrow>
          let t = (if write_end then FD_PIPE_WRITE else FD_PIPE_READ);
              (fd, k) = fd_alloc t p k
          in if fd < 0 then (- 1, k)
             else (fd, fd_incref (of_int64 fd) k))"

end
