(* ===== verification/Process.thy ===== *)
theory Process
  imports Scheduler Semaphores Fds
begin

text \<open>
  The rest of \<open>Kernel/c/process/process.c\<close>: the life of a process, from the slot search and
  the initial stack frame of \<open>process_create\<close> to \<open>process_exit\<close>, \<open>process_kill\<close> and
  \<open>process_waitpid\<close>.
\<close>

section \<open>The initial stack frame\<close>

text \<open>\<open>*(--sp) = v;\<close>\<close>

definition push_qword :: "u64 \<Rightarrow> u64 \<times> (u64 \<Rightarrow> u64) \<Rightarrow> u64 \<times> (u64 \<Rightarrow> u64)" where
  "push_qword v s = (fst s - 8, (snd s)(fst s - 8 := v))"

definition build_initial_stack ::
    "u64 \<Rightarrow> u64 \<Rightarrow> int \<Rightarrow> u64 \<Rightarrow> (u64 \<Rightarrow> u64) \<Rightarrow> u64 \<times> (u64 \<Rightarrow> u64)" where
  "build_initial_stack stack_top ent ac av m =
     fold push_qword
       [0, stack_top, 0x202, 0x08, ent,
        0, 0, 0, 0, 0, of_int64 ac, av,
        0, 0, 0, 0, 0, 0, 0, 0]
       (stack_top, m)"

section \<open>The copy of argv\<close>

definition argv_size :: "int \<Rightarrow> char list option list \<Rightarrow> u64" where
  "argv_size ac av =
     fold (\<lambda>s n. case s of None \<Rightarrow> n | Some b \<Rightarrow> n + of_nat (str_len (Some b)) + 1)
       (take (nat ac) av) (8 * of_int64 (ac + 1))"

text \<open>
  The copy loop, with the address at which the next string goes: the pointers it stores and
  the bytes it appends to the pool.
\<close>

fun argv_copy :: "u64 \<Rightarrow> char list option list \<Rightarrow> u64 list \<times> char list" where
  "argv_copy str_pool [] = ([], [])"
| "argv_copy str_pool (None # as) =
     (let (ps, pool) = argv_copy str_pool as in (0 # ps, pool))"
| "argv_copy str_pool (Some s # as) =
     (let len = str_len (Some s) + 1;
          (ps, pool) = argv_copy (str_pool + of_nat len) as
      in (str_pool # ps, cstr s @ [NUL] @ pool))"

section \<open>Operations\<close>

definition zero_pcb :: pcb where
  "zero_pcb = \<lparr>pid = 0, pname = replicate MAX_NAME_LEN NUL, entry = 0, priority = 0,
     remaining_quanta = 0, wait_ticks = 0, pstate = PROCESS_FREE, rsp = 0, stack_base = 0,
     foreground = 0, pfd = (\<lambda>_. 0), parent_pid = 0, waiting_for = 0, argc = 0, argv = 0,
     argv_blk = ([], []), retval = 0, held_sems = 0, opened_sems = 0\<rparr>"

definition process_init :: "kernel \<Rightarrow> kernel" where
  "process_init k =
     k\<lparr>process_table := (\<lambda>i. if i < MAX_PROCESSES then zero_pcb else process_table k i),
       next_pid := 0, current_process := None\<rparr>"

definition process_release_fds :: "nat option \<Rightarrow> kernel \<Rightarrow> kernel" where
  "process_release_fds d k =
     (case d of
        None \<Rightarrow> k
      | Some p \<Rightarrow>
          let k = (if pfd (proc k p) 0 \<ge> 0 then fd_decref (of_int64 (pfd (proc k p) 0)) k else k);
              k = (if pfd (proc k p) 1 \<ge> 0 then fd_decref (of_int64 (pfd (proc k p) 1)) k else k)
          in upd_proc p (\<lambda>c. c\<lparr>pfd := (pfd c)(0 := - 1, 1 := - 1)\<rparr>) k)"

text \<open>
  \<open>process_create\<close>. \<open>av\<close> are the strings \<open>argv\<close> points to, \<open>None\<close> for a null \<open>argv\<close>;
  the PCB is filled in after the stack and the copy of \<open>argv\<close> have been allocated.
\<close>

definition fill_pcb ::
    "char list option \<Rightarrow> u64 \<Rightarrow> int \<Rightarrow> u64 \<Rightarrow> u64 list \<times> char list \<Rightarrow> u8 \<Rightarrow> u64 \<Rightarrow> nat \<Rightarrow> kernel \<Rightarrow> kernel"
  where
  "fill_pcb nm ent ac acopy blk fg sp slot k =
     (let k = k\<lparr>next_pid := next_pid k + 1\<rparr>;
          k = upd_proc slot (\<lambda>p. p\<lparr>rsp := sp, pid := next_pid k, priority := DEFAULT_PRIORITY,
                remaining_quanta := DEFAULT_PRIORITY, wait_ticks := 0,
                pstate := (if fg AND 2 \<noteq> 0 then PROCESS_BLOCKED else PROCESS_READY),
                foreground := fg,
                pfd := (pfd p)(0 := int FD_STDIN, 1 := int FD_STDOUT)\<rparr>) k;
          k = fd_incref (of_int64 (pfd (proc k slot) 0)) k;
          k = fd_incref (of_int64 (pfd (proc k slot) 1)) k;
          parent = (case current_process k of None \<Rightarrow> 0 | Some c \<Rightarrow> pid (proc k c))
      in upd_proc slot (\<lambda>p.
           let p = p\<lparr>parent_pid := parent, waiting_for := 0, argc := ac, argv := acopy,
                     argv_blk := blk, retval := 0, entry := ent, held_sems := 0, opened_sems := 0,
                     pname := str_copy (pname p) nm MAX_NAME_LEN\<rparr>
           in if str_len (Some (pname p)) = 0 then p\<lparr>pname := (pname p)[0 := CHR ''?'', 1 := NUL]\<rparr>
              else p) k)"

definition process_create ::
    "char list option \<Rightarrow> u64 \<Rightarrow> int \<Rightarrow> char list option list option \<Rightarrow> u8 \<Rightarrow> kernel \<Rightarrow> int \<times> kernel"
  where
  "process_create nm ent ac av fg k =
     (case first_slot MAX_PROCESSES (\<lambda>i. pstate (proc k i) = PROCESS_FREE) of
        None \<Rightarrow> (- 1, k)
      | Some slot \<Rightarrow>
          let (base, k) = mm_malloc_kernel STACK_SIZE k;
              k = upd_proc slot (\<lambda>p. p\<lparr>stack_base := base\<rparr>) k
          in if base = 0 then (- 1, k)
             else
               let (failed, acopy, blk, k) =
                     (case av of
                        None \<Rightarrow> (False, 0, ([], []), k)
                      | Some strs \<Rightarrow>
                          if ac > 0 then
                            let (a, k) = mm_malloc_kernel (argv_size ac strs) k
                            in if a = 0 then (True, 0, ([], []), k)
                               else
                                 let (ps, pool) = argv_copy (a + 8 * of_int64 (ac + 1)) (take (nat ac) strs)
                                 in (False, a, (ps @ [0], pool), k)
                          else (False, 0, ([], []), k))
               in if failed then (- 1, mm_free base k)
                  else
                    let (sp, m) = build_initial_stack (base + STACK_SIZE) (trampoline k) ac acopy (qmem k);
                        k = fill_pcb nm ent ac acopy blk fg sp slot (k\<lparr>qmem := m\<rparr>);
                        k = scheduler_add slot k
                    in (to_int (pid (proc k slot)), k))"

text \<open>
  Waking the parent that waits for the process with PID \<open>n\<close>: the return value goes into the
  RAX slot of its saved frame, 14 words above \<open>rsp\<close>.
\<close>

definition wake_parent :: "u64 \<Rightarrow> u64 \<Rightarrow> int \<Rightarrow> kernel \<Rightarrow> kernel" where
  "wake_parent parent n ret k =
     (case process_get parent k of
        None \<Rightarrow> k
      | Some q \<Rightarrow>
          if pstate (proc k q) = PROCESS_BLOCKED \<and> waiting_for (proc k q) = n then
            upd_proc q (\<lambda>p. p\<lparr>waiting_for := 0, pstate := PROCESS_READY, wait_ticks := 0\<rparr>)
              (k\<lparr>qmem := (qmem k)(rsp (proc k q) + 8 * 14 := of_int64 ret)\<rparr>)
          else k)"

definition process_exit :: "int \<Rightarrow> kernel \<Rightarrow> kernel" where
  "process_exit ret k =
     (case current_process k of
        None \<Rightarrow> k
      | Some cur \<Rightarrow>
          let k = upd_proc cur (\<lambda>p. p\<lparr>retval := ret\<rparr>) k;
              k = sem_cleanup_for_process (pid (proc k cur)) k;
              k = pipe_cleanup_for_process (pid (proc k cur)) k;
              k = upd_kbd (kbd_clear_waiting cur) k;
              k = process_release_fds (Some cur) k;
              k = wake_parent (parent_pid (proc k cur)) (pid (proc k cur)) ret k;
              k = upd_proc cur (\<lambda>p. p\<lparr>pstate := PROCESS_ZOMBIE\<rparr>) k
          in k\<lparr>force_switch := True\<rparr>)"

definition process_kill :: "u64 \<Rightarrow> kernel \<Rightarrow> kernel" where
  "process_kill n k =
     (case process_get n k of
        None \<Rightarrow> k
      | Some p \<Rightarrow>
          if pstate (proc k p) = PROCESS_FREE \<or> pstate (proc k p) = PROCESS_ZOMBIE then k
          else
            let k = upd_proc p (\<lambda>c. c\<lparr>retval := - 1\<rparr>) k;
                k = sem_cleanup_for_process n k;
                k = pipe_cleanup_for_process n k;
                k = upd_kbd (kbd_clear_waiting p) k;
                k = wake_parent (parent_pid (proc k p)) n (- 1) k
            in if Some p = current_process k then
                 let k = upd_proc p (\<lambda>c. c\<lparr>pstate := PROCESS_ZOMBIE\<rparr>) k;
                     k = process_release_fds (Some p) k
                 in k\<lparr>force_switch := True\<rparr>
               else
                 let k = scheduler_remove p k;
                     k = process_release_fds (Some p) k;
                     k = (if stack_base (proc k p) \<noteq> 0 then
                            upd_proc p (\<lambda>c. c\<lparr>stack_base := 0\<rparr>) (mm_free (stack_base (proc k p)) k)
                          else k);
                     k = (if argv (proc k p) \<noteq> 0 then
                            upd_proc p (\<lambda>c. c\<lparr>argv := 0\<rparr>) (mm_free (argv (proc k p)) k)
                          else k)
                 in upd_proc p (\<lambda>c. c\<lparr>pstate := PROCESS_FREE, pid := 0\<rparr>) k)"

text \<open>\<open>process_kill_foreground\<close>: index and PID of the newest foreground process, and how many.\<close>

definition foreground_scan :: "kernel \<Rightarrow> nat option \<times> u64 \<times> nat" where
  "foreground_scan k =
     fold (\<lambda>i (idx, tp, n).
        let p = proc k i
        in if pstate p \<noteq> PROCESS_FREE \<and> foreground p \<noteq> 0 then
             (if pid p > tp then (Some i, pid p, n + 1) else (idx, tp, n + 1))
           else (idx, tp, n))
      [0..<MAX_PROCESSES] (None, 0, 0)"

definition process_kill_foreground :: "kernel \<Rightarrow> kernel" where
  "process_kill_foreground k =
     (let (idx, tp, n) = foreground_scan k
      in if idx \<noteq> None \<and> n > 1 then process_kill tp k else k)"

definition process_nice :: "u64 \<Rightarrow> u8 \<Rightarrow> kernel \<Rightarrow> kernel" where
  "process_nice n new_priority k =
     (case process_get n k of
        None \<Rightarrow> k
      | Some p \<Rightarrow>
          let np = (if new_priority < MIN_PRIORITY then MIN_PRIORITY else new_priority);
              np = (if np > MAX_PRIORITY then MAX_PRIORITY else np);
              k = upd_proc p (\<lambda>c. c\<lparr>priority := np, wait_ticks := 0, remaining_quanta := np\<rparr>) k
          in if pstate (proc k p) \<noteq> PROCESS_FREE \<and> pstate (proc k p) \<noteq> PROCESS_ZOMBIE then
               scheduler_add p (scheduler_remove p k)
             else k)"

definition process_waitpid :: "u64 \<Rightarrow> kernel \<Rightarrow> int \<times> kernel" where
  "process_waitpid n k =
     (case process_get n k of
        None \<Rightarrow> (- 1, k)
      | Some c \<Rightarrow>
          if pstate (proc k c) = PROCESS_ZOMBIE then
            let ret = retval (proc k c);
                k = (if stack_base (proc k c) \<noteq> 0 then
                       upd_proc c (\<lambda>p. p\<lparr>stack_base := 0\<rparr>) (mm_free (stack_base (proc k c)) k)
                     else k);
                k = (if argv (proc k c) \<noteq> 0 then
                       upd_proc c (\<lambda>p. p\<lparr>argv := 0\<rparr>) (mm_free (argv (proc k c)) k)
                     else k)
            in (ret, upd_proc c (\<lambda>p. p\<lparr>rsp := 0, pstate := PROCESS_FREE, pid := 0\<rparr>) k)
          else
            let k = (case current_process k of
                       None \<Rightarrow> k
                     | Some cur \<Rightarrow>
                         upd_proc cur (\<lambda>p. p\<lparr>pstate := PROCESS_BLOCKED, waiting_for := n\<rparr>) k)
            in (0, k\<lparr>force_switch := True\<rparr>))"

definition process_ps :: "(nat \<Rightarrow> process_info) \<Rightarrow> u64 \<Rightarrow> kernel \<Rightarrow> nat \<times> (nat \<Rightarrow> process_info)" where
  "process_ps buf lim k =
     fold (\<lambda>i (cnt, buf).
        let p = proc k i
        in if cnt < unat lim \<and> pstate p \<noteq> PROCESS_FREE then
             (cnt + 1,
              buf(cnt := (buf cnt)\<lparr>pi_pid := pid p, pi_priority := priority p,
                    pi_state := state_code (pstate p), pi_foreground := foreground p, pi_rsp := rsp p,
                    pi_name := str_copy (pi_name (buf cnt)) (Some (pname p)) MAX_NAME_LEN\<rparr>))
           else (cnt, buf))
      [0..<MAX_PROCESSES] (0, buf)"

text \<open>A negative \<open>target\<close> passes the check and indexes \<open>fd[2]\<close> out of bounds.\<close>

definition process_pipe_setup :: "u64 \<Rightarrow> int \<Rightarrow> int \<Rightarrow> kernel \<Rightarrow> kernel" where
  "process_pipe_setup n stdio_fd target k =
     (case process_get n k of
        None \<Rightarrow> k
      | Some c \<Rightarrow>
          if target > 1 then k
          else if target < 0 then set_fault Out_Of_Bounds k
          else
            let t = nat target;
                k = (if pfd (proc k c) t \<ge> 0 then fd_decref (of_int64 (pfd (proc k c) t)) k else k);
                k = upd_proc c (\<lambda>p. p\<lparr>pfd := (pfd p)(t := stdio_fd)\<rparr>) k
            in fd_incref (of_int64 stdio_fd) k)"

end
