(* ===== verification/Keyboard.thy ===== *)
theory Keyboard
  imports Process Lib
begin

text \<open>
  \<open>handlePressedKey\<close> of \<open>Kernel/c/drivers/keyboardDriver.c\<close>, the translation of scancodes,
  and the register snapshot.
\<close>

section \<open>The key maps\<close>

definition kbd_min :: "char list" where
  "kbd_min =
     [NUL, CHR 0x1B] @ ''1234567890-='' @ [CHR 0x08] @
     [CHR 0x09] @ ''qwertyuiop[]'' @ [CHR 0x0A] @
     [NUL] @ ''asdfghjkl;'' @ [CHR 0x27, CHR 0x60] @
     [NUL, CHR 0x5C] @ ''zxcvbnm,./'' @ [NUL, CHR ''*''] @
     [NUL, CHR '' '']"

definition kbd_mayus :: "char list" where
  "kbd_mayus =
     [NUL, CHR 0x1B] @ ''!@#$%^&*()_+'' @ [CHR 0x08] @
     [CHR 0x09] @ ''QWERTYUIOP{}'' @ [CHR 0x0A] @
     [NUL] @ ''ASDFGHJKL:'' @ [CHR 0x22, CHR ''~''] @
     [NUL, CHR ''|''] @ ''ZXCVBNM<>?'' @ [NUL, CHR ''*''] @
     [NUL, CHR '' '']"

text \<open>Both arrays have 128 cells; the initialiser fills the rest with zeros.\<close>

definition kbd_char :: "char list \<Rightarrow> nat \<Rightarrow> char" where
  "kbd_char t i = (if i < length t then t ! i else NUL)"

definition kbd_manager :: "nat \<Rightarrow> char list" where
  "kbd_manager i = (if i = 0 then kbd_min else kbd_mayus)"

abbreviation L_SHIFT :: u8 where "L_SHIFT \<equiv> 0x2A"
abbreviation R_SHIFT :: u8 where "R_SHIFT \<equiv> 0x36"
abbreviation CAPS_LOCK :: u8 where "CAPS_LOCK \<equiv> 0x3A"
abbreviation BREAK_CODE :: u8 where "BREAK_CODE \<equiv> 0x80"
abbreviation L_CONTROL :: u8 where "L_CONTROL \<equiv> 0x1D"

section \<open>The register snapshot\<close>

definition reg_names :: "char list list" where
  "reg_names =
     [''RAX: 0x'', ''RBX: 0x'', ''RCX: 0x'', ''RDX: 0x'', ''RBP: 0x'', ''RDI: 0x'', ''RSI: 0x'',
      ''R8: 0x'', ''R9: 0x'', ''R10: 0x'', ''R11: 0x'', ''R12: 0x'', ''R13: 0x'', ''R14: 0x'',
      ''R15: 0x'', ''RIP: 0x'', ''CS: 0x'', ''RFLAGS: 0x'', ''RSP: 0x'', ''SS: 0x'']"

definition snapshot_text :: "(nat \<Rightarrow> u64) \<Rightarrow> char list" where
  "snapshot_text regs =
     concat (map (\<lambda>i. reg_names ! i @ snd (intToHexa (regs i)) @ [CHR 0x0A]) [0..<length reg_names])"

definition storeSnapshot :: "keyboard \<Rightarrow> keyboard" where
  "storeSnapshot b = b\<lparr>registersBuff := snapshot_text (regsArray b) @ [NUL]\<rparr>"

section \<open>Key events\<close>

text \<open>\<open>kbd_scancode_read\<close> (interrupts.asm): read and clear the pending scancode.\<close>

definition kbd_scancode_read :: "keyboard \<Rightarrow> u8 \<times> keyboard" where
  "kbd_scancode_read b = (pressed_key b, b\<lparr>pressed_key := 0\<rparr>)"

text \<open>\<open>kbd_waiting_process->state = PROCESS_READY; kbd_waiting_process = NULL;\<close>\<close>

definition kbd_wake :: "kernel \<Rightarrow> kernel" where
  "kbd_wake k =
     (case kbd_waiting_process (kbd k) of
        None \<Rightarrow> k
      | Some p \<Rightarrow>
          upd_kbd (\<lambda>b. b\<lparr>kbd_waiting_process := None\<rparr>)
            (upd_proc p (\<lambda>c. c\<lparr>pstate := PROCESS_READY\<rparr>) k))"

definition put_video :: "char \<Rightarrow> kernel \<Rightarrow> kernel" where
  "put_video c k = k\<lparr>video := videoPutChar c 0xFFFFFF (video k)\<rparr>"

definition append_line :: "char \<Rightarrow> keyboard \<Rightarrow> keyboard" where
  "append_line c b =
     b\<lparr>tty_line := (tty_line b)(tty_line_len b := c), tty_line_len := tty_line_len b + 1\<rparr>"

text \<open>Ctrl+D\<close>

definition key_eof :: "kernel \<Rightarrow> kernel" where
  "key_eof k =
     (if tty_mode (kbd k) = TTY_COOKED \<and> kbd_waiting_process (kbd k) \<noteq> None then
        kbd_wake (upd_kbd (\<lambda>b. if tty_line_len b > 0 then b\<lparr>tty_line_ready := True\<rparr>
                                else b\<lparr>tty_eof := True\<rparr>) k)
      else kbd_wake (upd_kbd (writeBuff (CHR 0x04)) k))"

text \<open>A key that produces a character.\<close>

definition key_char :: "char \<Rightarrow> kernel \<Rightarrow> kernel" where
  "key_char c k =
     (if tty_mode (kbd k) = TTY_COOKED \<and> kbd_waiting_process (kbd k) \<noteq> None then
        (if c = CHR 0x0A then
           kbd_wake (upd_kbd (\<lambda>b. (append_line c b)\<lparr>tty_line_ready := True\<rparr>) (put_video c k))
         else if c = CHR 0x08 then
           (if tty_line_len (kbd k) > 0 then
              put_video (CHR 0x08) (upd_kbd (\<lambda>b. b\<lparr>tty_line_len := tty_line_len b - 1\<rparr>) k)
            else k)
         else
           (if tty_line_len (kbd k) < 256 - 1 then upd_kbd (append_line c) (put_video c k)
            else k))
      else kbd_wake (upd_kbd (writeBuff c) k))"

definition handlePressedKey :: "kernel \<Rightarrow> kernel" where
  "handlePressedKey k =
     (let (scancode, b) = kbd_scancode_read (kbd k);
          k = upd_kbd (\<lambda>_. b) k
      in if scancode = L_SHIFT \<or> scancode = R_SHIFT then upd_kbd (\<lambda>b. b\<lparr>shift := True\<rparr>) k
         else if scancode = (L_SHIFT OR BREAK_CODE) \<or> scancode = (R_SHIFT OR BREAK_CODE) then
           upd_kbd (\<lambda>b. b\<lparr>shift := False\<rparr>) k
         else if scancode = L_CONTROL then upd_kbd (\<lambda>b. b\<lparr>ctrl := True\<rparr>) k
         else if scancode = (L_CONTROL OR BREAK_CODE) then upd_kbd (\<lambda>b. b\<lparr>ctrl := False\<rparr>) k
         else if scancode = 0x3B then upd_kbd (\<lambda>b. (storeSnapshot b)\<lparr>boolRegisters := True\<rparr>) k
         else if scancode = 0x4B \<or> scancode = 0x4D \<or> scancode = 0x48 \<or> scancode = 0x50
                 \<or> scancode = 0 \<or> scancode > BREAK_CODE then k
         else if ctrl (kbd k) \<and> scancode = 0x2E then process_kill_foreground k
         else if ctrl (kbd k) \<and> scancode = 0x20 then key_eof k
         else if scancode = CAPS_LOCK then upd_kbd (\<lambda>b. b\<lparr>caps := \<not> caps b\<rparr>) k
         else if scancode AND BREAK_CODE = 0 then
           key_char (kbd_char (kbd_manager ((of_bool (shift (kbd k)) + of_bool (caps (kbd k))) mod 2))
                       (unat scancode)) k
         else k)"

text \<open>\<open>irqDispatcher\<close>\<close>

definition irqDispatcher :: "u64 \<Rightarrow> kernel \<Rightarrow> kernel" where
  "irqDispatcher irq k = (if irq = 1 then handlePressedKey k else k)"

end
