(* ===== verification/Syscalls.thy ===== *)
theory Syscalls
  imports Keyboard
begin

text \<open>
  The entries into the kernel: the system calls of \<open>Kernel/c/syscall/syscallDispatcher.c\<close>,
  the three interrupt handlers of \<open>Kernel/asm/interrupts.asm\<close> that can switch processes, and
  the start-up of \<open>Kernel/c/kernel/kernel.c\<close>.

  A system call is a value of \<open>syscall\<close>, with the arguments as the handler finds them: a
  pointer that may be \<open>NULL\<close> is an option, an input buffer is its contents. What the handler
  stores through an output pointer is a value of \<open>outcome\<close>. The speaker and the real-time
  clock are outside the state; the BCD registers of the clock are an argument.
\<close>

section \<open>The calls\<close>

datatype syscall =
    Sys_registers
  | Sys_time "u8 list"
  | Sys_date "u8 list"
  | Sys_read u64 bool u64
  | Sys_write u64 "char list option" u64
  | Sys_increase_fontsize
  | Sys_decrease_fontsize
  | Sys_beep u32 u64
  | Sys_ticks
  | Sys_clear
  | Sys_speaker_start u32
  | Sys_speaker_off
  | Sys_screen_width
  | Sys_screen_height
  | Sys_putpixel u32 u64 u64
  | Sys_fill_rect u64 u64 u64 u64 u32
  | Sys_malloc u64
  | Sys_free u64
  | Sys_mem_status
  | Sys_create_process "char list option" u64 u64 "char list option list option" u64
  | Sys_exit u64
  | Sys_getpid
  | Sys_ps "nat \<Rightarrow> process_info" u64
  | Sys_kill u64
  | Sys_nice u64 u64
  | Sys_block u64
  | Sys_unblock u64
  | Sys_yield
  | Sys_waitpid u64
  | Sys_sem_open "char list option" u64
  | Sys_sem_wait "char list option"
  | Sys_sem_post "char list option"
  | Sys_sem_close "char list option"
  | Sys_pipe bool
  | Sys_dup2 u64 u64
  | Sys_close u64
  | Sys_pipe_open "char list option" bool
  | Sys_pipe_setup u64 u64 u64
  | Sys_tty_mode u64
  | Sys_write_color u64 "char list option" u64 u32

text \<open>The index of each handler in the table \<open>syscalls\<close>.\<close>

fun syscall_no :: "syscall \<Rightarrow> nat" where
  "syscall_no Sys_registers = 0"
| "syscall_no (Sys_time _) = 1"
| "syscall_no (Sys_date _) = 2"
| "syscall_no (Sys_read _ _ _) = 3"
| "syscall_no (Sys_write _ _ _) = 4"
| "syscall_no Sys_increase_fontsize = 5"
| "syscall_no Sys_decrease_fontsize = 6"
| "syscall_no (Sys_beep _ _) = 7"
| "syscall_no Sys_ticks = 8"
| "syscall_no Sys_clear = 9"
| "syscall_no (Sys_speaker_start _) = 10"
| "syscall_no Sys_speaker_off = 11"
| "syscall_no Sys_screen_width = 12"
| "syscall_no Sys_screen_height = 13"
| "syscall_no (Sys_putpixel _ _ _) = 14"
| "syscall_no (Sys_fill_rect _ _ _ _ _) = 15"
| "syscall_no (Sys_malloc _) = 16"
| "syscall_no (Sys_free _) = 17"
| "syscall_no Sys_mem_status = 18"
| "syscall_no (Sys_create_process _ _ _ _ _) = 19"
| "syscall_no (Sys_exit _) = 20"
| "syscall_no Sys_getpid = 21"
| "syscall_no (Sys_ps _ _) = 22"
| "syscall_no (Sys_kill _) = 23"
| "syscall_no (Sys_nice _ _) = 24"
| "syscall_no (Sys_block _) = 25"
| "syscall_no (Sys_unblock _) = 26"
| "syscall_no Sys_yield = 27"
| "syscall_no (Sys_waitpid _) = 28"
| "syscall_no (Sys_sem_open _ _) = 29"
| "syscall_no (Sys_sem_wait _) = 30"
| "syscall_no (Sys_sem_post _) = 31"
| "syscall_no (Sys_sem_close _) = 32"
| "syscall_no (Sys_pipe _) = 33"
| "syscall_no (Sys_dup2 _ _) = 34"
| "syscall_no (Sys_close _) = 35"
| "syscall_no (Sys_pipe_open _ _) = 36"
| "syscall_no (Sys_pipe_setup _ _ _) = 37"
| "syscall_no (Sys_tty_mode _) = 38"
| "syscall_no (Sys_write_color _ _ _ _) = 39"

datatype outcome =
    No_Output
  | Bytes "char list"
  | Bcd "u8 list"
  | Fd_Pair int int
  | Infos nat "nat \<Rightarrow> process_info"
  | Status "mem_status option"

section \<open>Handlers with a body of their own\<close>

definition sys_write_color :: "u64 \<Rightarrow> char list option \<Rightarrow> u64 \<Rightarrow> u32 \<Rightarrow> kernel \<Rightarrow> u64 \<times> kernel" where
  "sys_write_color fd buf cnt color k =
     (case process_current k of
        None \<Rightarrow> (0, k)
      | Some cur \<Rightarrow>
          if buf = None \<or> cnt = 0 then (0, k)
          else if fd \<le> of_nat FD_STDOUT \<and> pfd (proc k cur) (unat fd) < 0 then (0, k)
          else
            let real_fd = (if fd \<le> of_nat FD_STDOUT then pfd (proc k cur) (unat fd) else to_int fd)
            in fd_write (fd_get (of_int64 real_fd) k) buf cnt (Some cur) color k)"

definition sys_read :: "u64 \<Rightarrow> bool \<Rightarrow> u64 \<Rightarrow> kernel \<Rightarrow> u64 \<times> char list \<times> kernel" where
  "sys_read fd buf_null cnt k =
     (case process_current k of
        None \<Rightarrow> (0, [], k)
      | Some cur \<Rightarrow>
          if buf_null \<or> cnt = 0 then (0, [], k)
          else if fd \<le> of_nat FD_STDIN \<and> pfd (proc k cur) (unat fd) < 0 then (0, [], k)
          else
            let real_fd = (if fd \<le> of_nat FD_STDIN then pfd (proc k cur) (unat fd) else to_int fd)
            in fd_read (fd_get (of_int64 real_fd) k) buf_null cnt (Some cur) k)"

definition sys_getpid :: "kernel \<Rightarrow> u64" where
  "sys_getpid k = (case process_current k of None \<Rightarrow> 0 | Some cur \<Rightarrow> pid (proc k cur))"

definition sys_block :: "u64 \<Rightarrow> kernel \<Rightarrow> int \<times> kernel" where
  "sys_block n k =
     (case process_get n k of
        None \<Rightarrow> (- 1, k)
      | Some p \<Rightarrow>
          if pstate (proc k p) = PROCESS_FREE \<or> pstate (proc k p) = PROCESS_ZOMBIE then (- 1, k)
          else if pstate (proc k p) = PROCESS_BLOCKED \<and> waiting_for (proc k p) \<noteq> 0 then (- 1, k)
          else if pstate (proc k p) = PROCESS_BLOCKED then (0, process_unblock n k)
          else (0, process_block n k))"

definition sys_yield :: "kernel \<Rightarrow> kernel" where
  "sys_yield k =
     (case process_current k of
        None \<Rightarrow> k
      | Some cur \<Rightarrow> (upd_proc cur (\<lambda>p. p\<lparr>pstate := PROCESS_READY\<rparr>) k)\<lparr>force_switch := True\<rparr>)"

definition pipe_create_fds :: "nat option \<Rightarrow> kernel \<Rightarrow> int \<times> outcome \<times> kernel" where
  "pipe_create_fds p k =
     (let (read_fd, k) = fd_create_pipe p False k
      in if read_fd < 0 then (- 1, No_Output, k)
         else
           let (write_fd, k) = fd_create_pipe p True k
           in if write_fd < 0 then (- 1, No_Output, fd_decref (of_int64 read_fd) k)
              else (0, Fd_Pair read_fd write_fd, k))"

definition sys_pipe :: "bool \<Rightarrow> kernel \<Rightarrow> int \<times> outcome \<times> kernel" where
  "sys_pipe null k =
     (if null then (- 1, No_Output, k)
      else case pipe_open None k of
        (None, k) \<Rightarrow> (- 1, No_Output, k)
      | (Some p, k) \<Rightarrow> pipe_create_fds (Some p) k)"

definition sys_pipe_open :: "char list option \<Rightarrow> bool \<Rightarrow> kernel \<Rightarrow> int \<times> outcome \<times> kernel" where
  "sys_pipe_open nm null k =
     (if nm = None \<or> null then (- 1, No_Output, k)
      else case pipe_open nm k of
        (None, k) \<Rightarrow> (- 1, No_Output, k)
      | (Some p, k) \<Rightarrow> pipe_create_fds (Some p) k)"

definition sys_dup2 :: "u64 \<Rightarrow> u64 \<Rightarrow> kernel \<Rightarrow> int \<times> kernel" where
  "sys_dup2 old_fd new_fd k =
     (if new_fd > 1 then (- 1, k)
      else case fd_get old_fd k of
        None \<Rightarrow> (- 1, k)
      | Some _ \<Rightarrow>
          (case process_current k of
             None \<Rightarrow> (- 1, k)
           | Some cur \<Rightarrow>
               if pfd (proc k cur) (unat new_fd) = to_int old_fd then (sint old_fd, k)
               else
                 let k = (if pfd (proc k cur) (unat new_fd) \<ge> 0
                          then fd_decref (of_int64 (pfd (proc k cur) (unat new_fd))) k else k);
                     k = upd_proc cur (\<lambda>p. p\<lparr>pfd := (pfd p)(unat new_fd := to_int old_fd)\<rparr>) k
                 in (sint old_fd, fd_incref old_fd k)))"

definition sys_tty_mode :: "u64 \<Rightarrow> kernel \<Rightarrow> int \<times> kernel" where
  "sys_tty_mode mode k = (tty_get_mode (kbd k), upd_kbd (tty_set_mode (to_int mode)) k)"


section \<open>The dispatch table\<close>

text \<open>
  The handler of each call: the value it leaves in RAX (\<open>None\<close> for the \<open>void\<close> handlers),
  what it stores for the caller, the new state.
\<close>

definition ret_void :: "kernel \<Rightarrow> u64 option \<times> outcome \<times> kernel" where
  "ret_void k = (None, No_Output, k)"

definition ret_int :: "int \<times> kernel \<Rightarrow> u64 option \<times> outcome \<times> kernel" where
  "ret_int r = (Some (of_int64 (fst r)), No_Output, snd r)"

definition ret_u64 :: "u64 \<times> kernel \<Rightarrow> u64 option \<times> outcome \<times> kernel" where
  "ret_u64 r = (Some (fst r), No_Output, snd r)"

fun do_syscall :: "syscall \<Rightarrow> kernel \<Rightarrow> u64 option \<times> outcome \<times> kernel" where
  "do_syscall Sys_registers k =
     (let (r, out) = copyRegistersBuffer (kbd k)
      in (Some r, case out of None \<Rightarrow> No_Output | Some s \<Rightarrow> Bytes s, k))"
| "do_syscall (Sys_time rtc) k = (None, Bcd rtc, k)"
| "do_syscall (Sys_date rtc) k = (None, Bcd rtc, k)"
| "do_syscall (Sys_read fd buf_null cnt) k =
     (let (n, bytes, k) = sys_read fd buf_null cnt k in (Some n, Bytes bytes, k))"
| "do_syscall (Sys_write fd buf cnt) k = ret_u64 (sys_write_color fd buf cnt 0xFFFFFF k)"
| "do_syscall Sys_increase_fontsize k = ret_void (k\<lparr>video := increaseFontSize (video k)\<rparr>)"
| "do_syscall Sys_decrease_fontsize k = ret_void (k\<lparr>video := decreaseFontSize (video k)\<rparr>)"
| "do_syscall (Sys_beep freq tks) k = ret_void k"
| "do_syscall Sys_ticks k = ret_u64 (deltaTicks k, k)"
| "do_syscall Sys_clear k = ret_void (k\<lparr>video := clearScreen 0 (video k)\<rparr>)"
| "do_syscall (Sys_speaker_start freq) k = ret_void k"
| "do_syscall Sys_speaker_off k = ret_void k"
| "do_syscall Sys_screen_width k = ret_u64 (ucast (getScreenWidth (video k)), k)"
| "do_syscall Sys_screen_height k = ret_u64 (ucast (getScreenHeight (video k)), k)"
| "do_syscall (Sys_putpixel color x y) k = ret_void (k\<lparr>video := putPixel color x y (video k)\<rparr>)"
| "do_syscall (Sys_fill_rect x y w h color) k =
     ret_void (k\<lparr>video := fillRect x y w h color (video k)\<rparr>)"
| "do_syscall (Sys_malloc sz) k = ret_u64 (mm_malloc sz k)"
| "do_syscall (Sys_free ptr) k = ret_void (mm_free ptr k)"
| "do_syscall Sys_mem_status k = (None, Status (ff_status (heap k)), k)"
| "do_syscall (Sys_create_process nm ent ac av fg) k =
     ret_int (process_create nm ent (to_int ac) av (ucast fg) k)"
| "do_syscall (Sys_exit ret) k = ret_void (process_exit (to_int ret) k)"
| "do_syscall Sys_getpid k = ret_u64 (sys_getpid k, k)"
| "do_syscall (Sys_ps buf lim) k =
     (let (n, infos) = process_ps buf lim k in (Some (of_nat n), Infos n infos, k))"
| "do_syscall (Sys_kill n) k = ret_void (process_kill n k)"
| "do_syscall (Sys_nice n prio) k = ret_void (process_nice n (ucast prio) k)"
| "do_syscall (Sys_block n) k = ret_int (sys_block n k)"
| "do_syscall (Sys_unblock n) k = ret_void (process_unblock n k)"
| "do_syscall Sys_yield k = ret_void (sys_yield k)"
| "do_syscall (Sys_waitpid n) k = ret_int (process_waitpid n k)"
| "do_syscall (Sys_sem_open nm v) k = ret_int (sem_open nm v k)"
| "do_syscall (Sys_sem_wait nm) k = ret_int (sem_wait nm k)"
| "do_syscall (Sys_sem_post nm) k = ret_int (sem_post nm k)"
| "do_syscall (Sys_sem_close nm) k = ret_int (sem_close nm k)"
| "do_syscall (Sys_pipe null) k =
     (let (r, out, k) = sys_pipe null k in (Some (of_int64 r), out, k))"
| "do_syscall (Sys_dup2 old_fd new_fd) k = ret_int (sys_dup2 old_fd new_fd k)"
| "do_syscall (Sys_close fd) k = ret_int (0, fd_decref fd k)"
| "do_syscall (Sys_pipe_open nm null) k =
     (let (r, out, k) = sys_pipe_open nm null k in (Some (of_int64 r), out, k))"
| "do_syscall (Sys_pipe_setup n fd target) k =
     ret_int (0, process_pipe_setup n (to_int fd) (to_int target) k)"
| "do_syscall (Sys_tty_mode mode) k = ret_int (sys_tty_mode mode k)"
| "do_syscall (Sys_write_color fd buf cnt color) k = ret_u64 (sys_write_color fd buf cnt color k)"

declare do_syscall.simps [simp del]
lemmas ret_defs = ret_void_def ret_int_def ret_u64_def

section \<open>Interrupt handlers (interrupts.asm)\<close>

text \<open>
  \<open>.check_yield\<close>, the common end of the system call gate and the keyboard interrupt. The
  result is the stack pointer with which \<open>popState; iretq\<close> goes on.
\<close>

definition check_yield :: "u64 \<Rightarrow> kernel \<Rightarrow> u64 \<times> kernel" where
  "check_yield sp k =
     (if force_switch k then scheduler_yield_impl sp (k\<lparr>force_switch := False\<rparr>) else (sp, k))"

text \<open>\<open>_irq00Handler\<close>\<close>

definition irq00 :: "u64 \<Rightarrow> kernel \<Rightarrow> u64 \<times> kernel" where
  "irq00 sp k = scheduler_tick sp k"

text \<open>
  \<open>_irq01Handler\<close>: the byte from port 0x60 into \<open>pressed_key\<close>; when it is \<open>SNAPSHOT_KEY\<close> the
  registers of the interrupted program go to \<open>regsArray\<close>, read off the frame at \<open>rsp\<close>.
\<close>

definition take_snapshot :: "u64 \<Rightarrow> (u64 \<Rightarrow> u64) \<Rightarrow> (nat \<Rightarrow> u64) \<Rightarrow> (nat \<Rightarrow> u64)" where
  "take_snapshot sp m r =
     (\<lambda>i. if i < 15 then m (sp + 8 * of_nat (14 - i))
          else if i < 18 then m (sp + 8 * of_nat i)
          else if i < 20 then 0 else r i)"

definition irq01 :: "u8 \<Rightarrow> u64 \<Rightarrow> kernel \<Rightarrow> u64 \<times> kernel" where
  "irq01 scancode sp k =
     (let k = upd_kbd (\<lambda>b. b\<lparr>pressed_key := scancode\<rparr>) k;
          k = (if scancode = 0x1D
               then upd_kbd (\<lambda>b. b\<lparr>regsArray := take_snapshot sp (qmem k) (regsArray b)\<rparr>) k else k)
      in check_yield sp (irqDispatcher 1 k))"

text \<open>
  \<open>_irq128Handler\<close>: the call number is compared as a signed number, so one from \<open>2^63\<close> on
  passes the check and indexes the table out of bounds. \<open>table n\<close> is the call that the
  handler at index \<open>n\<close> reads off the argument registers, \<open>junk\<close> what a \<open>void\<close> handler leaves
  in RAX.
\<close>

definition irq128 :: "u64 \<Rightarrow> (nat \<Rightarrow> syscall) \<Rightarrow> u64 \<Rightarrow> u64 \<Rightarrow> kernel \<Rightarrow> u64 \<times> outcome \<times> kernel" where
  "irq128 rax table junk sp k =
     (if sint rax \<ge> 40 then
        let (sp', k) = check_yield sp (k\<lparr>qmem := (qmem k)(sp + 14 * 8 := - 1)\<rparr>)
        in (sp', No_Output, k)
      else if sint rax < 0 then (sp, No_Output, set_fault Out_Of_Bounds k)
      else
        let (r, out, k) = do_syscall (table (unat rax)) k;
            v = (case r of None \<Rightarrow> junk | Some x \<Rightarrow> x);
            (sp', k) = check_yield sp (k\<lparr>qmem := (qmem k)(sp + 14 * 8 := v)\<rparr>)
        in (sp', out, k))"

section \<open>Start-up (kernel.c)\<close>

abbreviation HEAP_START :: u64 where "HEAP_START \<equiv> 0x600000"
abbreviation HEAP_SIZE :: u64 where "HEAP_SIZE \<equiv> 8 * 1024 * 1024"
abbreviation sampleCodeModuleAddress :: u64 where "sampleCodeModuleAddress \<equiv> 0x400000"

definition mm_init :: "u64 \<Rightarrow> u64 \<Rightarrow> kernel \<Rightarrow> kernel" where
  "mm_init start sz k = k\<lparr>heap := ff_init start sz (heap k)\<rparr>"

text \<open>\<open>initializeKernelBinary\<close> from \<open>mm_init\<close> on; \<open>idle_entry\<close> is the address of that function.\<close>

definition register_idle :: "int \<Rightarrow> kernel \<Rightarrow> kernel" where
  "register_idle idle_pid k =
     (case process_get (of_int64 idle_pid) k of
        None \<Rightarrow> k
      | Some idle \<Rightarrow>
          let k = upd_proc idle (\<lambda>p. p\<lparr>priority := MIN_PRIORITY, remaining_quanta := 1\<rparr>) k
          in scheduler_remove idle (scheduler_set_idle (Some idle) k))"

definition initializeKernelBinary :: "u64 \<Rightarrow> kernel \<Rightarrow> kernel" where
  "initializeKernelBinary idle_entry k =
     (let k = mm_init HEAP_START HEAP_SIZE k;
          k = sem_init (scheduler_init (pipe_init (fd_init (process_init k))));
          (idle_pid, k) = process_create (Some ''idle'') idle_entry 0 None 0 k;
          k = register_idle idle_pid k
      in snd (process_create (Some ''shell'') sampleCodeModuleAddress 0 None 1 k))"

text \<open>
  What \<open>clearBSS\<close> leaves of the kernel's variables: zero everywhere. \<open>v\<close> is the screen the
  boot loader set up, \<open>tramp\<close> the address of \<open>process_trampoline\<close>.
\<close>

definition zero_kbd :: keyboard where
  "zero_kbd = \<lparr>kbd_waiting_process = None, buff = (\<lambda>_. NUL), shift = False, caps = False,
     ctrl = False, buff_size = 0, start_index = 0, end_index = 0, boolRegisters = False,
     registersBuff = replicate 1024 NUL, tty_mode = TTY_RAW, tty_line = (\<lambda>_. NUL),
     tty_line_len = 0, tty_line_ready = False, tty_eof = False, pressed_key = 0,
     regsArray = (\<lambda>_. 0)\<rparr>"

definition zero_sem :: semaphore where
  "zero_sem = \<lparr>sem_name = replicate SEM_NAME_LEN NUL, sem_value = 0, sem_queue = empty_q,
     open_count = 0, sem_locked = False, sem_wrapped = False\<rparr>"

definition bss_kernel :: "video \<Rightarrow> u64 \<Rightarrow> (u64 \<Rightarrow> u64) \<Rightarrow> kernel" where
  "bss_kernel v tramp m = \<lparr>process_table = (\<lambda>_. zero_pcb), next_pid = 0, current_process = None,
     force_switch = False, run_queue = (\<lambda>_. 0), queue_size = 0, queue_idx = 0, idle_pcb = None,
     ticks = 0, sem_table = (\<lambda>_. zero_sem), pipe_table = (\<lambda>_. zero_pipe),
     fd_table = (\<lambda>_. \<lparr>fd_type = FD_NONE, refcount = 0, fd_data = None\<rparr>), kbd = zero_kbd,
     video = v, heap = [], qmem = m, trampoline = tramp, fault = None\<rparr>"

text \<open>\<open>main\<close>: start the first process.\<close>

definition boot :: "video \<Rightarrow> u64 \<Rightarrow> u64 \<Rightarrow> (u64 \<Rightarrow> u64) \<Rightarrow> u64 option \<times> kernel" where
  "boot v tramp idle_entry m =
     scheduler_start (initializeKernelBinary idle_entry (bss_kernel v tramp m))"

end
