(* ===== verification/Run_Queue.thy ===== *)
theory Run_Queue
  imports Scheduler
begin

text \<open>
  The run queue as a list. \<open>rq\<close> is the part of the array in use; insertion and removal
  refine the insertion into a descending list and \<open>remove1\<close>, the scan of
  \<open>scheduler_next_ready\<close> finds a READY process of maximal effective priority, in round-robin
  order.
\<close>

definition rq :: "kernel \<Rightarrow> nat list" where
  "rq k = cells (queue_size k) (run_queue k)"

lemma length_rq [simp]: "length (rq k) = queue_size k"
  by (simp add: rq_def)

lemma rq_nth: "i < queue_size k \<Longrightarrow> rq k ! i = run_queue k i"
  by (simp add: rq_def)

lemma rq_eq_Nil: "rq k = [] \<longleftrightarrow> queue_size k = 0"
  using length_rq [of k] by (metis length_0_conv)

lemma rq_cong: "queue_size k' = queue_size k \<Longrightarrow> run_queue k' = run_queue k \<Longrightarrow> rq k' = rq k"
  by (simp add: rq_def)

section \<open>The shifting loops\<close>

lemma shift_right_eq:
  "shift_right i n q = (\<lambda>j. if i < j \<and> j \<le> n then q (j - 1) else q j)"
proof (induction n arbitrary: q)
  case 0
  show ?case by (simp add: shift_right_def fun_eq_iff)
next
  case (Suc n)
  show ?case
  proof (cases "i \<le> n")
    case True
    then have "shift_right i (Suc n) q = shift_right i n (q(Suc n := q n))"
      by (simp add: shift_right_def)
    with True show ?thesis by (auto simp: Suc.IH fun_eq_iff)
  next
    case False
    then show ?thesis by (simp add: shift_right_def fun_eq_iff)
  qed
qed

lemma shift_left_eq:
  "shift_left i n q = (\<lambda>j. if i \<le> j \<and> j < n - 1 then q (j + 1) else q j)"
proof -
  have "fold (\<lambda>j q. q(j := q (j + 1))) [i..<m] q = (\<lambda>j. if i \<le> j \<and> j < m then q (j + 1) else q j)" for m
    by (induction m) (auto simp: fun_eq_iff)
  then show ?thesis by (simp add: shift_left_def)
qed

lemma cells_insert:
  assumes "i \<le> n"
  shows "cells (Suc n) ((shift_right i n q)(i := p)) = take i (cells n q) @ p # drop i (cells n q)"
proof (rule nth_equalityI)
  fix j assume "j < length (cells (Suc n) ((shift_right i n q)(i := p)))"
  then have j: "j < Suc n" by simp
  consider "j < i" | "j = i" | "i < j" by linarith
  then show "cells (Suc n) ((shift_right i n q)(i := p)) ! j
      = (take i (cells n q) @ p # drop i (cells n q)) ! j"
  proof cases
    case 3
    then obtain m where "j = Suc m" "i \<le> m" by (cases j) auto
    with j assms show ?thesis by (simp add: shift_right_eq nth_append Suc_diff_le)
  qed (use j assms in \<open>simp_all add: shift_right_eq nth_append\<close>)
qed (use assms in simp)

lemma cells_delete:
  assumes "i < n"
  shows "cells (n - 1) (shift_left i n q) = take i (cells n q) @ drop (Suc i) (cells n q)"
proof (rule nth_equalityI)
  fix j assume "j < length (cells (n - 1) (shift_left i n q))"
  with assms show "cells (n - 1) (shift_left i n q) ! j = (take i (cells n q) @ drop (Suc i) (cells n q)) ! j"
    by (cases "j < i") (simp_all add: shift_left_eq nth_append)
qed (use assms in simp)

section \<open>Insertion and removal\<close>

text \<open>Insertion before the first element of a lower key: stable, in descending order.\<close>

definition insert_desc :: "('a \<Rightarrow> 'b::linorder) \<Rightarrow> 'a \<Rightarrow> 'a list \<Rightarrow> 'a list" where
  "insert_desc f x l = takeWhile (\<lambda>y. f x \<le> f y) l @ x # dropWhile (\<lambda>y. f x \<le> f y) l"

abbreviation descending :: "('a \<Rightarrow> 'b::linorder) \<Rightarrow> 'a list \<Rightarrow> bool" where
  "descending f \<equiv> sorted_wrt (\<lambda>x y. f y \<le> f x)"

lemma set_insert_desc [simp]: "set (insert_desc f x l) = insert x (set l)"
proof -
  have "set l = set (takeWhile (\<lambda>y. f x \<le> f y) l @ dropWhile (\<lambda>y. f x \<le> f y) l)" by simp
  then show ?thesis unfolding insert_desc_def by (auto simp del: takeWhile_dropWhile_id)
qed

lemma length_insert_desc [simp]: "length (insert_desc f x l) = Suc (length l)"
proof -
  have "length l = length (takeWhile (\<lambda>y. f x \<le> f y) l @ dropWhile (\<lambda>y. f x \<le> f y) l)" by simp
  then show ?thesis unfolding insert_desc_def by (simp del: takeWhile_dropWhile_id)
qed

lemma distinct_insert_desc [simp]: "distinct (insert_desc f x l) \<longleftrightarrow> x \<notin> set l \<and> distinct l"
proof -
  have l: "l = takeWhile (\<lambda>y. f x \<le> f y) l @ dropWhile (\<lambda>y. f x \<le> f y) l" by simp
  show ?thesis unfolding insert_desc_def
    by (subst (3 4) l) (auto simp del: takeWhile_dropWhile_id)
qed

lemma descending_insert_desc:
  assumes "descending f l"
  shows "descending f (insert_desc f x l)"
  using assms
proof (induction l)
  case Nil
  then show ?case by (simp add: insert_desc_def)
next
  case (Cons y l)
  show ?case
  proof (cases "f x \<le> f y")
    case True
    then have "insert_desc f x (y # l) = y # insert_desc f x l" by (simp add: insert_desc_def)
    with True Cons show ?thesis by auto
  next
    case False
    then have "insert_desc f x (y # l) = x # y # l" by (simp add: insert_desc_def)
    with False Cons.prems show ?thesis by (auto intro: order_trans)
  qed
qed

lemma descending_remove1: "descending f l \<Longrightarrow> descending f (remove1 x l)"
  by (induction l) (auto dest: notin_set_remove1 set_mp [OF set_remove1_subset])

lemma first_slot_takeWhile:
  assumes "first_slot n P = Some i" and "\<And>j. j < n \<Longrightarrow> P j \<longleftrightarrow> \<not> Q (q j)"
  shows "takeWhile Q (cells n q) = take i (cells n q)"
    and "dropWhile Q (cells n q) = drop i (cells n q)"
proof -
  note i = first_slot_SomeD [OF assms(1)]
  have Q: "Q (q j)" if "j < i" for j
    using i(1,3) that assms(2) [of j] by auto
  show *: "takeWhile Q (cells n q) = take i (cells n q)"
    by (rule takeWhile_eq_take_P_nth) (use i(1,2) Q assms(2) in auto)
  show "dropWhile Q (cells n q) = drop i (cells n q)"
    using i(1) by (simp add: dropWhile_eq_drop *)
qed

lemma first_slot_takeWhile_None:
  assumes "first_slot n P = None" and "\<And>j. j < n \<Longrightarrow> P j \<longleftrightarrow> \<not> Q (q j)"
  shows "takeWhile Q (cells n q) = cells n q" and "dropWhile Q (cells n q) = []"
proof -
  have "\<forall>x\<in>set (cells n q). Q x" using assms by (auto simp: first_slot_None set_cells)
  then show "takeWhile Q (cells n q) = cells n q" and "dropWhile Q (cells n q) = []"
    by auto
qed

abbreviation prio_of :: "kernel \<Rightarrow> nat \<Rightarrow> u8" where
  "prio_of k i \<equiv> priority (proc k i)"

lemma rq_scheduler_add [abs_simps]:
  "rq (scheduler_add p k) =
     (if queue_size k < MAX_PROCESSES \<and> Some p \<noteq> idle_pcb k then insert_desc (prio_of k) p (rq k)
      else rq k)"
proof (cases "queue_size k < MAX_PROCESSES \<and> Some p \<noteq> idle_pcb k")
  case False
  then show ?thesis by (auto simp: scheduler_add_def)
next
  case True
  let ?n = "queue_size k" and ?q = "run_queue k"
  let ?P = "\<lambda>i. prio_of k (?q i) < prio_of k p"
  show ?thesis
  proof (cases "first_slot ?n ?P")
    case None
    have "rq (scheduler_add p k) = cells (Suc ?n) (?q(?n := p))"
      using True by (simp add: scheduler_add_def None rq_def Let_def)
    moreover note first_slot_takeWhile_None [OF None, of "\<lambda>y. prio_of k p \<le> prio_of k y" ?q]
    ultimately show ?thesis
      using True by (simp add: insert_desc_def rq_def cells_Suc not_le del: takeWhile_eq_all_conv dropWhile_eq_Nil_conv)
  next
    case (Some i)
    then have i: "i < ?n" by (rule first_slot_SomeD)
    have "rq (scheduler_add p k) = cells (Suc ?n) ((shift_right i ?n ?q)(i := p))"
      using True by (simp add: scheduler_add_def Some rq_def Let_def)
    then show ?thesis
      using True i first_slot_takeWhile [OF Some, of "\<lambda>y. prio_of k p \<le> prio_of k y" ?q]
      by (simp add: insert_desc_def rq_def cells_insert not_le)
  qed
qed

lemma remove1_take_drop:
  assumes "i < length l" and "l ! i = x" and "\<And>j. j < i \<Longrightarrow> l ! j \<noteq> x"
  shows "remove1 x l = take i l @ drop (Suc i) l"
proof -
  have "x \<notin> set (take i l)" using assms(1,3) by (auto simp: in_set_conv_nth)
  moreover have "l = take i l @ x # drop (Suc i) l" using assms(1,2) id_take_nth_drop by blast
  ultimately show ?thesis by (metis remove1_append remove1.simps(2))
qed

lemma rq_scheduler_remove [abs_simps]:
  "rq (scheduler_remove p k) = remove1 p (rq k)"
proof (cases "first_slot (queue_size k) (\<lambda>i. p = run_queue k i)")
  case None
  then have "p \<notin> set (rq k)" by (auto simp: first_slot_None rq_def set_cells)
  then show ?thesis by (simp add: scheduler_remove_def None remove1_idem)
next
  case (Some i)
  note i = first_slot_SomeD [OF Some]
  have "rq (scheduler_remove p k) = cells (queue_size k - 1) (shift_left i (queue_size k) (run_queue k))"
    by (simp add: scheduler_remove_def Some rq_def Let_def)
  also have "\<dots> = take i (rq k) @ drop (Suc i) (rq k)"
    unfolding rq_def by (rule cells_delete [OF i(1)])
  also have "\<dots> = remove1 p (rq k)"
  proof (rule remove1_take_drop [symmetric])
    show "rq k ! j \<noteq> p" if "j < i" for j
      using that i(1) i(3) [OF that] by (simp add: rq_nth)
  qed (use i(1,2) in \<open>simp_all add: rq_nth\<close>)
  finally show ?thesis .
qed

text \<open>What the two operations leave alone.\<close>

lemma scheduler_add_frame [simp]:
  "process_table (scheduler_add p k) = process_table k"
  "next_pid (scheduler_add p k) = next_pid k"
  "current_process (scheduler_add p k) = current_process k"
  "force_switch (scheduler_add p k) = force_switch k"
  "idle_pcb (scheduler_add p k) = idle_pcb k"
  "ticks (scheduler_add p k) = ticks k"
  "sem_table (scheduler_add p k) = sem_table k"
  "pipe_table (scheduler_add p k) = pipe_table k"
  "fd_table (scheduler_add p k) = fd_table k"
  "kbd (scheduler_add p k) = kbd k"
  "video (scheduler_add p k) = video k"
  "heap (scheduler_add p k) = heap k"
  "qmem (scheduler_add p k) = qmem k"
  "trampoline (scheduler_add p k) = trampoline k"
  "fault (scheduler_add p k) = fault k"
  by (simp_all add: scheduler_add_def Let_def split: option.split)

lemma scheduler_remove_frame [simp]:
  "process_table (scheduler_remove p k) = process_table k"
  "next_pid (scheduler_remove p k) = next_pid k"
  "current_process (scheduler_remove p k) = current_process k"
  "force_switch (scheduler_remove p k) = force_switch k"
  "idle_pcb (scheduler_remove p k) = idle_pcb k"
  "ticks (scheduler_remove p k) = ticks k"
  "sem_table (scheduler_remove p k) = sem_table k"
  "pipe_table (scheduler_remove p k) = pipe_table k"
  "fd_table (scheduler_remove p k) = fd_table k"
  "kbd (scheduler_remove p k) = kbd k"
  "video (scheduler_remove p k) = video k"
  "heap (scheduler_remove p k) = heap k"
  "qmem (scheduler_remove p k) = qmem k"
  "trampoline (scheduler_remove p k) = trampoline k"
  "fault (scheduler_remove p k) = fault k"
  by (simp_all add: scheduler_remove_def Let_def split: option.split)

section \<open>The cursor\<close>

text \<open>The index stays inside the queue, and on the same process where that is possible.\<close>

definition cursor_ok :: "kernel \<Rightarrow> bool" where
  "cursor_ok k \<longleftrightarrow> queue_idx k < queue_size k \<or> queue_size k = 0 \<and> queue_idx k = 0"

lemma cursor_ok_add [inv_intros]: "cursor_ok k \<Longrightarrow> cursor_ok (scheduler_add p k)"
  by (auto simp: cursor_ok_def scheduler_add_def Let_def first_slot_Some split: option.split)

lemma cursor_ok_remove [inv_intros]: "cursor_ok k \<Longrightarrow> cursor_ok (scheduler_remove p k)"
  by (auto simp: cursor_ok_def scheduler_remove_def Let_def first_slot_Some split: option.split)

definition at_cursor :: "kernel \<Rightarrow> nat" where
  "at_cursor k = run_queue k (queue_idx k)"

lemma at_cursor_add:
  assumes "queue_idx k < queue_size k"
  shows "at_cursor (scheduler_add p k) = at_cursor k"
proof (cases "queue_size k < MAX_PROCESSES \<and> Some p \<noteq> idle_pcb k")
  case False
  then show ?thesis by (auto simp: scheduler_add_def)
next
  case True
  show ?thesis
  proof (cases "first_slot (queue_size k) (\<lambda>i. prio_of k (run_queue k i) < prio_of k p)")
    case None
    with True assms show ?thesis by (simp add: scheduler_add_def at_cursor_def)
  next
    case (Some i)
    with True assms show ?thesis
      by (auto simp: scheduler_add_def at_cursor_def Let_def shift_right_eq)
  qed
qed

lemma at_cursor_remove:
  assumes "queue_idx k < queue_size k" and "at_cursor k \<noteq> p"
  shows "at_cursor (scheduler_remove p k) = at_cursor k"
proof (cases "first_slot (queue_size k) (\<lambda>i. p = run_queue k i)")
  case None
  then show ?thesis by (simp add: scheduler_remove_def)
next
  case (Some i)
  note i = first_slot_SomeD [OF Some]
  then have "i \<noteq> queue_idx k" using assms(2) by (auto simp: at_cursor_def)
  then consider "i < queue_idx k" | "queue_idx k < i" by linarith
  then show ?thesis
  proof cases
    case 1
    then obtain m where m: "queue_idx k = Suc m" by (cases "queue_idx k") auto
    show ?thesis
    proof (cases "queue_size k = Suc (Suc m)")
      case True
      show ?thesis using Some 1 unfolding True m at_cursor_def
        by (simp add: scheduler_remove_def True m Let_def shift_left_eq)
    next
      case False
      with m assms(1) have "\<not> queue_size k - Suc 0 \<le> Suc m" "Suc (Suc m) < queue_size k" by simp_all
      with 1 m show ?thesis
        by (simp add: scheduler_remove_def Some at_cursor_def Let_def shift_left_eq)
    qed
  next
    case 2
    with i(1) have "\<not> queue_size k - Suc 0 \<le> queue_idx k" by simp
    with 2 i(1) show ?thesis
      by (simp add: scheduler_remove_def Some at_cursor_def Let_def shift_left_eq)
  qed
qed


section \<open>The choice of the next process\<close>

lemma first_slot_0 [simp]: "first_slot 0 P = None"
  by (simp add: first_slot_None)

lemma first_slot_Suc:
  "first_slot (Suc n) P = (if P 0 then Some 0 else map_option Suc (first_slot n (\<lambda>m. P (Suc m))))"
proof (cases "P 0")
  case True
  then show ?thesis by (simp add: first_slot_Some)
next
  case False
  show ?thesis
  proof (cases "first_slot n (\<lambda>m. P (Suc m))")
    case None
    then have "first_slot (Suc n) P = None"
      using False unfolding first_slot_None by (metis Suc_less_eq not0_implies_Suc)
    with False None show ?thesis by simp
  next
    case (Some m)
    then have "first_slot (Suc n) P = Some (Suc m)"
      using False unfolding first_slot_Some by (metis Suc_less_eq not0_implies_Suc)
    with False Some show ?thesis by simp
  qed
qed

text \<open>The queue in the order in which the round robin looks at it.\<close>

definition rr_order :: "kernel \<Rightarrow> nat list" where
  "rr_order k = rotate (Suc (queue_idx k)) (rq k)"

lemma set_rr_order [simp]: "set (rr_order k) = set (rq k)"
  by (simp add: rr_order_def)

lemma length_rr_order [simp]: "length (rr_order k) = queue_size k"
  by (simp add: rr_order_def)

lemma rr_order_nth:
  "m < queue_size k \<Longrightarrow> rr_order k ! m = run_queue k ((queue_idx k + m + 1) mod queue_size k)"
  unfolding rr_order_def by (subst nth_rotate) (simp_all add: rq_nth del: rotate_Suc)

lemma rr_pass_eq:
  assumes "queue_size k = s" and "0 < s" and "queue_idx k < s"
  shows "rr_pass n test k =
     (case first_slot n (\<lambda>m. test (proc k (run_queue k ((queue_idx k + m + 1) mod s)))) of
        Some m \<Rightarrow> (Some (run_queue k ((queue_idx k + m + 1) mod s)),
                   k\<lparr>queue_idx := (queue_idx k + m + 1) mod s\<rparr>)
      | None \<Rightarrow> (None, k\<lparr>queue_idx := (queue_idx k + n) mod s\<rparr>))"
  using assms
proof (induction n arbitrary: k)
  case 0
  then show ?case by simp
next
  case (Suc n)
  let ?k = "k\<lparr>queue_idx := (queue_idx k + 1) mod s\<rparr>"
  have step: "(((queue_idx k + 1) mod s) + m + 1) mod s = (queue_idx k + Suc m + 1) mod s"
    "(((queue_idx k + 1) mod s) + m) mod s = (queue_idx k + Suc m) mod s" for m
    using mod_add_left_eq [of "queue_idx k + 1" s "m + 1"] mod_add_left_eq [of "queue_idx k + 1" s m]
    by (simp_all add: add_ac)
  let ?f = "first_slot n (\<lambda>m. test (proc k (run_queue k ((queue_idx k + Suc m + 1) mod s))))"
  have f: "first_slot n (\<lambda>m. test (proc ?k (run_queue ?k ((queue_idx ?k + m + 1) mod s)))) = ?f"
    using step by simp
  have "queue_size ?k = s" "queue_idx ?k < s" using Suc.prems by simp_all
  note IH = Suc.IH [OF this(1) Suc.prems(2) this(2), unfolded f]
  have pass: "rr_pass (Suc n) test k =
      (if test (proc k (run_queue k ((queue_idx k + 0 + 1) mod s)))
       then (Some (run_queue k ((queue_idx k + 0 + 1) mod s)), k\<lparr>queue_idx := (queue_idx k + 0 + 1) mod s\<rparr>)
       else rr_pass n test ?k)"
    by (simp add: Let_def Suc.prems(1))
  show ?case
  proof (cases ?f)
    case None
    then show ?thesis unfolding pass IH using step(2) [of n] by (simp add: first_slot_Suc)
  next
    case (Some m)
    then show ?thesis unfolding pass IH using step(1) [of m] by (simp add: first_slot_Suc)
  qed
qed

text \<open>The same, over the list.\<close>

lemma find_first_slot: "find P l = map_option (\<lambda>m. l ! m) (first_slot (length l) (\<lambda>m. P (l ! m)))"
proof (induction l)
  case (Cons x l)
  show ?case
    by (simp add: first_slot_Suc Cons.IH option.map_comp o_def)
qed simp

lemma rr_pass_queue:
  assumes "queue_idx k < queue_size k"
  shows "case rr_pass (queue_size k) test k of
      (None, k') \<Rightarrow> find (\<lambda>c. test (proc k c)) (rr_order k) = None \<and> k' = k
    | (Some c, k') \<Rightarrow> find (\<lambda>c. test (proc k c)) (rr_order k) = Some c \<and>
        (\<exists>j<queue_size k. k' = k\<lparr>queue_idx := j\<rparr> \<and> run_queue k j = c)"
proof -
  let ?s = "queue_size k"
  have s: "0 < ?s" using assms by simp
  have "first_slot ?s (\<lambda>m. test (proc k (run_queue k ((queue_idx k + m + 1) mod ?s)))) =
      first_slot ?s (\<lambda>m. test (proc k (rr_order k ! m)))"
    by (rule first_slot_cong) (simp add: rr_order_nth)
  then have eq: "rr_pass ?s test k =
     (case first_slot ?s (\<lambda>m. test (proc k (rr_order k ! m))) of
        Some m \<Rightarrow> (Some (run_queue k ((queue_idx k + m + 1) mod ?s)),
                   k\<lparr>queue_idx := (queue_idx k + m + 1) mod ?s\<rparr>)
      | None \<Rightarrow> (None, k\<lparr>queue_idx := (queue_idx k + ?s) mod ?s\<rparr>))"
    using rr_pass_eq [OF refl s assms, of ?s test] by simp
  have f: "find (\<lambda>c. test (proc k c)) (rr_order k) =
      map_option (\<lambda>m. rr_order k ! m) (first_slot ?s (\<lambda>m. test (proc k (rr_order k ! m))))"
    by (simp add: find_first_slot)
  show ?thesis
  proof (cases "first_slot ?s (\<lambda>m. test (proc k (rr_order k ! m)))")
    case None
    then show ?thesis using assms unfolding eq f by simp
  next
    case (Some m)
    then have "m < ?s" by (rule first_slot_SomeD)
    let ?j = "(queue_idx k + m + 1) mod ?s"
    have "?j < ?s \<and> k\<lparr>queue_idx := ?j\<rparr> = k\<lparr>queue_idx := ?j\<rparr> \<and> run_queue k ?j = run_queue k ?j"
      using s by simp
    then have "\<exists>j<?s. k\<lparr>queue_idx := ?j\<rparr> = k\<lparr>queue_idx := j\<rparr> \<and> run_queue k j = run_queue k ?j"
      by (rule exI)
    then show ?thesis
      unfolding eq f Some option.case option.map prod.case using \<open>m < ?s\<close>
      by (intro conjI) (simp only: rr_order_nth)
  qed
qed

abbreviation ready :: "kernel \<Rightarrow> nat \<Rightarrow> bool" where
  "ready k i \<equiv> pstate (proc k i) = PROCESS_READY"

lemma aging_bonus_bounds: "0 \<le> aging_bonus p" "aging_bonus p \<le> 4"
  by (simp_all add: aging_bonus_def Let_def)

lemma eff_nonneg: "0 \<le> eff p"
  using aging_bonus_bounds [of p] by (simp add: eff_def)

definition ready_effs :: "kernel \<Rightarrow> int set" where
  "ready_effs k = (\<lambda>i. eff (proc k i)) ` {i \<in> set (rq k). ready k i}"

lemma Max_step:
  fixes e :: int
  assumes "finite A"
  shows "(if Max (insert (- 1) A) < e then e else Max (insert (- 1) A)) = Max (insert (- 1) (insert e A))"
proof -
  have "Max (insert e (insert (- 1) A)) = max e (Max (insert (- 1) A))"
    using assms by (intro Max_insert) auto
  then show ?thesis by (simp only: insert_commute max_def) auto
qed

lemma highest_eff_Max: "highest_eff k = Max (insert (- 1) (ready_effs k))"
proof -
  let ?f = "\<lambda>q i h. let p = proc k (q i) in if pstate p = PROCESS_READY \<and> eff p > h then eff p else h"
  let ?A = "\<lambda>q n. (\<lambda>i. eff (proc k i)) ` {i \<in> set (cells n q). ready k i}"
  have "fold (?f q) [0..<n] (- 1) = Max (insert (- 1) (?A q n))" for n q
  proof (induction n)
    case 0
    show ?case by simp
  next
    case (Suc n)
    have A: "?A q (Suc n) = (if ready k (q n) then insert (eff (proc k (q n))) (?A q n) else ?A q n)"
      by (auto simp: cells_Suc)
    have "fold (?f q) [0..<Suc n] (- 1) = ?f q n (fold (?f q) [0..<n] (- 1))" by simp
    also have "\<dots> = ?f q n (Max (insert (- 1) (?A q n)))" by (simp only: Suc.IH)
    also have "\<dots> = (if ready k (q n) then Max (insert (- 1) (insert (eff (proc k (q n))) (?A q n)))
        else Max (insert (- 1) (?A q n)))"
    proof -
      have "finite (?A q n)" by simp
      from Max_step [OF this, of "eff (proc k (q n))"] show ?thesis
        by (cases "ready k (q n)") (simp_all only: Let_def simp_thms if_True if_False)
    qed
    also have "\<dots> = Max (insert (- 1) (?A q (Suc n)))" unfolding A by simp
    finally show ?case .
  qed
  then show ?thesis by (simp add: highest_eff_def ready_effs_def rq_def)
qed

lemma highest_eff_neg: "highest_eff k < 0 \<longleftrightarrow> (\<forall>i\<in>set (rq k). \<not> ready k i)"
proof -
  have fin: "finite (ready_effs k)" by (simp add: ready_effs_def)
  have "highest_eff k < 0 \<longleftrightarrow> (\<forall>e\<in>ready_effs k. e < 0)"
    unfolding highest_eff_Max using fin by simp
  then show ?thesis using eff_nonneg by (auto simp: ready_effs_def not_less [symmetric])
qed

lemma highest_eff_ready:
  assumes "\<not> highest_eff k < 0"
  shows "highest_eff k = Max (ready_effs k)" and "highest_eff k \<in> ready_effs k"
proof -
  have fin: "finite (ready_effs k)" by (simp add: ready_effs_def)
  have ne: "ready_effs k \<noteq> {}" using assms by (auto simp: highest_eff_Max)
  have "0 \<le> Max (ready_effs k)"
    using Max_in [OF fin ne] eff_nonneg by (auto simp: ready_effs_def)
  then show "highest_eff k = Max (ready_effs k)"
    unfolding highest_eff_Max using fin ne by (simp add: max_def)
  then show "highest_eff k \<in> ready_effs k" using Max_in [OF fin ne] by simp
qed

text \<open>
  The candidates, in round-robin order, and the choice among them: the first foreground
  process, or the first process if there is none in the foreground.
\<close>

definition best :: "kernel \<Rightarrow> nat list" where
  "best k = filter (\<lambda>c. ready k c \<and> eff (proc k c) = Max (ready_effs k)) (rr_order k)"

definition pick :: "kernel \<Rightarrow> nat option" where
  "pick k =
     (if best k = [] then idle_pcb k
      else case find (\<lambda>c. foreground (proc k c) \<noteq> 0) (best k) of
        Some c \<Rightarrow> Some c
      | None \<Rightarrow> Some (hd (best k)))"

lemma find_filter: "find P (filter Q l) = find (\<lambda>x. Q x \<and> P x) l"
  by (induction l) auto

lemma find_hd_filter: "find Q l = (if filter Q l = [] then None else Some (hd (filter Q l)))"
  by (induction l) auto

lemma best_Nil: "best k = [] \<longleftrightarrow> (\<forall>i\<in>set (rq k). \<not> ready k i)"
proof
  assume b: "best k = []"
  show "\<forall>i\<in>set (rq k). \<not> ready k i"
  proof (rule ccontr)
    assume "\<not> (\<forall>i\<in>set (rq k). \<not> ready k i)"
    then have "\<not> highest_eff k < 0" by (simp add: highest_eff_neg)
    from highest_eff_ready [OF this] obtain i where
      "i \<in> set (rq k)" "ready k i" "eff (proc k i) = Max (ready_effs k)"
      by (auto simp: ready_effs_def)
    then have "i \<in> set (best k)" by (simp add: best_def)
    with b show False by simp
  qed
qed (auto simp: best_def filter_empty_conv)

lemma scheduler_next_ready_idle:
  assumes "\<forall>i\<in>set (rq k). \<not> ready k i"
  shows "scheduler_next_ready k = (idle_pcb k, k)"
  using assms by (simp add: scheduler_next_ready_def highest_eff_neg)

lemma scheduler_next_ready_pick:
  assumes "cursor_ok k"
  shows "\<exists>j. scheduler_next_ready k = (pick k, k\<lparr>queue_idx := j\<rparr>) \<and> cursor_ok (k\<lparr>queue_idx := j\<rparr>)
    \<and> (pick k \<noteq> idle_pcb k \<longrightarrow> pick k = Some (run_queue k j))"
proof (cases "best k = []")
  case True
  have "k = k\<lparr>queue_idx := queue_idx k\<rparr>" by simp
  with True assms show ?thesis
    using scheduler_next_ready_idle [of k] by (metis best_Nil pick_def)
next
  case False
  then have neg: "\<not> highest_eff k < 0" by (simp add: highest_eff_neg best_Nil)
  have qs: "queue_size k \<noteq> 0"
    using False by (auto simp: best_Nil rq_eq_Nil [symmetric])
  then have idx: "queue_idx k < queue_size k" using assms by (simp add: cursor_ok_def)
  note h = highest_eff_ready(1) [OF neg]
  let ?P1 = "\<lambda>c. pstate c = PROCESS_READY \<and> foreground c \<noteq> 0 \<and>
                int (unat (priority c)) + 1 + aging_bonus c = highest_eff k"
  let ?P2 = "\<lambda>c. pstate c = PROCESS_READY \<and> eff c = highest_eff k"
  have f1: "find (\<lambda>c. ?P1 (proc k c)) (rr_order k) = find (\<lambda>c. foreground (proc k c) \<noteq> 0) (best k)"
    unfolding best_def find_filter h by (rule arg_cong2 [where f = find]) (auto simp: eff_def)
  have f2: "find (\<lambda>c. ?P2 (proc k c)) (rr_order k) = Some (hd (best k))"
    using False unfolding h by (subst find_hd_filter) (simp add: best_def)
  note p1 = rr_pass_queue [OF idx, of ?P1, unfolded f1]
  note p2 = rr_pass_queue [OF idx, of ?P2, unfolded f2]
  obtain c2 k2 where r2: "rr_pass (queue_size k) ?P2 k = (Some c2, k2)"
    "c2 = hd (best k)" "\<exists>j<queue_size k. k2 = k\<lparr>queue_idx := j\<rparr> \<and> run_queue k j = c2"
    using p2 by (cases "rr_pass (queue_size k) ?P2 k") (auto split: option.splits)
  show ?thesis
  proof (cases "find (\<lambda>c. foreground (proc k c) \<noteq> 0) (best k)")
    case None
    with p1 have "rr_pass (queue_size k) ?P1 k = (None, k)"
      by (cases "rr_pass (queue_size k) ?P1 k") (auto split: option.splits)
    then have "scheduler_next_ready k = (Some c2, k2)"
      using qs neg r2(1) by (simp add: scheduler_next_ready_def Let_def)
    moreover have "pick k = Some c2" using None False r2(2) by (simp add: pick_def)
    ultimately show ?thesis using r2(3) by (auto simp: cursor_ok_def)
  next
    case (Some c)
    with p1 obtain k1 where r1: "rr_pass (queue_size k) ?P1 k = (Some c, k1)"
      "\<exists>j<queue_size k. k1 = k\<lparr>queue_idx := j\<rparr> \<and> run_queue k j = c"
      by (cases "rr_pass (queue_size k) ?P1 k") (auto split: option.splits)
    then have "scheduler_next_ready k = (Some c, k1)"
      using qs neg by (simp add: scheduler_next_ready_def Let_def)
    moreover have "pick k = Some c" using Some False by (simp add: pick_def)
    ultimately show ?thesis using r1(2) by (auto simp: cursor_ok_def)
  qed
qed

lemma pick_cases:
  obtains (idle) "pick k = idle_pcb k" "\<forall>i\<in>set (rq k). \<not> ready k i"
  | (best) c where "pick k = Some c" "c \<in> set (best k)"
proof (cases "best k = []")
  case True
  then show thesis using idle by (simp add: pick_def best_Nil)
next
  case False
  show thesis
  proof (cases "find (\<lambda>c. foreground (proc k c) \<noteq> 0) (best k)")
    case None
    with False show thesis using best by (simp add: pick_def)
  next
    case (Some c)
    then have "c \<in> set (best k)" by (auto simp: find_Some_iff)
    with Some False show thesis using best by (simp add: pick_def)
  qed
qed

lemma in_best:
  "c \<in> set (best k) \<longleftrightarrow> c \<in> set (rq k) \<and> ready k c \<and>
     (\<forall>d\<in>set (rq k). ready k d \<longrightarrow> eff (proc k d) \<le> eff (proc k c))"
proof -
  have fin: "finite (ready_effs k)" by (simp add: ready_effs_def)
  have "eff (proc k c) = Max (ready_effs k) \<longleftrightarrow>
      (\<forall>d\<in>set (rq k). ready k d \<longrightarrow> eff (proc k d) \<le> eff (proc k c))"
    if "c \<in> set (rq k)" "ready k c"
  proof -
    have "eff (proc k c) \<in> ready_effs k" using that by (auto simp: ready_effs_def)
    then have "eff (proc k c) = Max (ready_effs k) \<longleftrightarrow> (\<forall>e\<in>ready_effs k. e \<le> eff (proc k c))"
      using fin by (metis Max_eqI Max_ge)
    then show ?thesis by (auto simp: ready_effs_def)
  qed
  then show ?thesis by (auto simp: best_def)
qed

end
