(* ===== verification/Frames.thy ===== *)
theory Frames
  imports Syscalls Run_Queue
begin

text \<open>
  What the semaphores, the pipes, the descriptors and the terminal do to the rest of the
  kernel. They touch the process table in two ways only: through \<open>process_block\<close> and
  \<open>process_unblock\<close>, and by writing fields that the scheduler does not read. The locales state
  this as an interface: a reflexive and transitive relation between states that is closed
  under the primitive updates of a component relates the state before and after each
  operation of that component. Each component has two locales: \<open>x_ops\<close> is what its callers
  rely on, one law for each operation; \<open>x_frame\<close> is the case of a relation that does not look at
  the component at all, of which \<open>x_ops\<close> is a consequence.
\<close>

section \<open>The interface\<close>

text \<open>An update of a PCB that the scheduler does not see.\<close>

definition hidden :: "(pcb \<Rightarrow> pcb) \<Rightarrow> bool" where
  "hidden f \<longleftrightarrow>
     (\<forall>p. pid (f p) = pid p \<and> priority (f p) = priority p \<and> foreground (f p) = foreground p
        \<and> pstate (f p) = pstate p)"

text \<open>An update that \<open>waitpid\<close> and the context switch do not see either.\<close>

definition harmless :: "(pcb \<Rightarrow> pcb) \<Rightarrow> bool" where
  "harmless f \<longleftrightarrow>
     (\<forall>p. pid (f p) = pid p \<and> priority (f p) = priority p \<and> foreground (f p) = foreground p
        \<and> pstate (f p) = pstate p \<and> parent_pid (f p) = parent_pid p
        \<and> waiting_for (f p) = waiting_for p \<and> rsp (f p) = rsp p)"

lemma harmless_hidden: "harmless f \<Longrightarrow> hidden f"
  by (simp add: harmless_def hidden_def)

locale kernel_frame =
  fixes R :: "kernel \<Rightarrow> kernel \<Rightarrow> bool"
  assumes R_refl: "R k k"
    and R_trans: "R k k1 \<Longrightarrow> R k1 k2 \<Longrightarrow> R k k2"
    and R_proc: "harmless f \<Longrightarrow> R k (upd_proc i f k)"
    and R_block: "R k (process_block n k)"
    and R_unblock: "R k (process_unblock n k)"
    and R_fault: "e \<noteq> Spin \<Longrightarrow> R k (set_fault e k)"
begin

lemma proc_I: "harmless f \<Longrightarrow> R k k1 \<Longrightarrow> R k (upd_proc i f k1)"
  using R_proc R_trans by blast

lemma block_I: "R k k1 \<Longrightarrow> R k (process_block n k1)"
  using R_block R_trans by blast

lemma unblock_I: "R k k1 \<Longrightarrow> R k (process_unblock n k1)"
  using R_unblock R_trans by blast

lemma fault_I: "e \<noteq> Spin \<Longrightarrow> R k k1 \<Longrightarrow> R k (set_fault e k1)"
  using R_fault R_trans by blast

lemma let_I: "R k e \<Longrightarrow> (\<And>x. R k x \<Longrightarrow> R k (f x)) \<Longrightarrow> R k (Let e f)"
  by simp

lemma let_snd_I: "R k e \<Longrightarrow> (\<And>x. R k x \<Longrightarrow> R k (snd (f x))) \<Longrightarrow> R k (snd (Let e f))"
  by simp

lemma let_option_I: "(\<And>x. R k (snd (f x))) \<Longrightarrow> R k (snd (Let e f))" for e :: "'a option"
  by simp

lemma fold_I: "(\<And>x k1. R k k1 \<Longrightarrow> R k (f x k1)) \<Longrightarrow> R k k1 \<Longrightarrow> R k (fold f l k1)"
  by (induction l arbitrary: k1) auto

lemmas frame_intros = proc_I block_I unblock_I fault_I R_refl let_I let_snd_I let_option_I

end

section \<open>Semaphores\<close>

text \<open>What the callers of the semaphores rely on.\<close>

locale sem_ops = kernel_frame +
  assumes sem_open_R: "R k (snd (sem_open nm v k))"
    and sem_wait_R: "R k (snd (sem_wait nm k))"
    and sem_post_R: "R k (snd (sem_post nm k))"
    and sem_close_R: "R k (snd (sem_close nm k))"
    and sem_cleanup_R: "R k (sem_cleanup_for_process n k)"
begin

lemma sem_cleanup_I: "R k k1 \<Longrightarrow> R k (sem_cleanup_for_process n k1)"
  using sem_cleanup_R R_trans by blast

end

text \<open>A relation that does not look at the semaphores.\<close>

locale sem_frame = kernel_frame +
  assumes R_sem: "R k (upd_sem i f k)"
    and R_spin: "R k (set_fault Spin k)"
begin

lemma sem_I: "R k k1 \<Longrightarrow> R k (upd_sem i f k1)"
  using R_sem R_trans by blast

lemmas sem_intros = frame_intros sem_I

lemma sem_lock_I: "R k k1 \<Longrightarrow> R k (sem_lock i k1)"
  using R_trans [OF _ R_spin] by (simp add: sem_lock_def sem_intros)

lemma sem_unlock_I: "R k k1 \<Longrightarrow> R k (sem_unlock i k1)"
  by (simp add: sem_unlock_def sem_intros)

lemma opened_by_current_I: "R k k1 \<Longrightarrow> R k (opened_by_current i k1)"
  by (auto simp: opened_by_current_def harmless_def intro!: sem_intros split: option.split)

lemma sem_wake_I: "R k k1 \<Longrightarrow> R k (sem_wake i k1)"
  by (auto simp: sem_wake_def harmless_def case_prod_beta intro!: sem_intros sem_unlock_I split: option.split)

lemma sem_open_frame: "R k (snd (sem_open nm v k))"
  by (auto simp: sem_open_def intro!: sem_intros opened_by_current_I split: option.split)

lemma sem_wait_frame: "R k (snd (sem_wait nm k))"
  by (auto simp: sem_wait_def harmless_def intro!: sem_intros sem_lock_I sem_unlock_I split: option.split)

lemma let_sem_I: "(\<And>x. R k (f x)) \<Longrightarrow> R k (Let e f)" "(\<And>x. R k (snd (g x))) \<Longrightarrow> R k (snd (Let e g))"
  for e :: semaphore
  by simp_all

lemma sem_post_frame: "R k (snd (sem_post nm k))"
  by (auto simp: sem_post_def harmless_def intro!: let_sem_I sem_intros sem_lock_I sem_unlock_I sem_wake_I split: option.split)

lemma sem_close_frame: "R k (snd (sem_close nm k))"
  by (auto simp: sem_close_def harmless_def intro!: sem_intros split: option.split)

lemma sem_cleanup_one_I: "R k k1 \<Longrightarrow> R k (sem_cleanup_one p n i k1)"
  by (auto simp: sem_cleanup_one_def harmless_def case_prod_beta
      intro!: let_sem_I sem_intros sem_lock_I sem_unlock_I sem_wake_I split: option.split)

lemma sem_cleanup_frame: "R k (sem_cleanup_for_process n k)"
  by (auto simp: sem_cleanup_for_process_def harmless_def
      intro!: sem_intros fold_I sem_cleanup_one_I split: option.split)

end

sublocale sem_frame \<subseteq> sem_ops
  by unfold_locales (rule sem_open_frame sem_wait_frame sem_post_frame sem_close_frame sem_cleanup_frame)+

section \<open>Pipes\<close>

text \<open>What the callers of the pipes rely on.\<close>

locale pipe_ops = kernel_frame +
  assumes pipe_open_R: "R k (snd (pipe_open nm k))"
    and pipe_open_read_R: "R k (pipe_open_read d k)"
    and pipe_open_write_R: "R k (pipe_open_write d k)"
    and pipe_close_read_R: "R k (pipe_close_read d k)"
    and pipe_close_write_R: "R k (pipe_close_write d k)"
    and pipe_read_R: "R k (snd (snd (pipe_read d null cnt k)))"
    and pipe_write_R: "R k (snd (pipe_write d buf cnt k))"
    and pipe_cleanup_R: "R k (pipe_cleanup_for_process n k)"
begin

lemma pipe_open_read_I: "R k k1 \<Longrightarrow> R k (pipe_open_read d k1)"
  using pipe_open_read_R R_trans by blast

lemma pipe_open_write_I: "R k k1 \<Longrightarrow> R k (pipe_open_write d k1)"
  using pipe_open_write_R R_trans by blast

lemma pipe_close_read_I: "R k k1 \<Longrightarrow> R k (pipe_close_read d k1)"
  using pipe_close_read_R R_trans by blast

lemma pipe_close_write_I: "R k k1 \<Longrightarrow> R k (pipe_close_write d k1)"
  using pipe_close_write_R R_trans by blast

lemma pipe_cleanup_I: "R k k1 \<Longrightarrow> R k (pipe_cleanup_for_process n k1)"
  using pipe_cleanup_R R_trans by blast

end

text \<open>A relation that does not look at the pipes.\<close>

locale pipe_frame = kernel_frame +
  assumes R_pipe: "R k (upd_pipe i f k)"
begin

lemma pipe_I: "R k k1 \<Longrightarrow> R k (upd_pipe i f k1)"
  using R_pipe R_trans by blast

lemmas pipe_intros = frame_intros pipe_I

lemma pipe_wake_reader_I: "R k k1 \<Longrightarrow> R k (pipe_wake_reader p k1)"
  by (auto simp: pipe_wake_reader_def case_prod_beta intro!: pipe_intros)

lemma pipe_wake_writer_I: "R k k1 \<Longrightarrow> R k (pipe_wake_writer p k1)"
  by (auto simp: pipe_wake_writer_def case_prod_beta intro!: pipe_intros)

lemma pipe_wake_all_readers_I: "R k k1 \<Longrightarrow> R k (pipe_wake_all_readers p k1)"
proof (induction p k1 rule: pipe_wake_all_readers.induct)
  case (1 p k1)
  then show ?case
    by (subst pipe_wake_all_readers.simps) (auto intro: pipe_wake_reader_I)
qed

lemma pipe_wake_all_writers_I: "R k k1 \<Longrightarrow> R k (pipe_wake_all_writers p k1)"
proof (induction p k1 rule: pipe_wake_all_writers.induct)
  case (1 p k1)
  then show ?case
    by (subst pipe_wake_all_writers.simps) (auto intro: pipe_wake_writer_I)
qed

lemma pipe_maybe_free_I: "R k k1 \<Longrightarrow> R k (pipe_maybe_free p k1)"
  by (auto simp: pipe_maybe_free_def intro!: pipe_intros)

lemma pipe_cleanup_frame: "R k (pipe_cleanup_for_process n k)"
  by (auto simp: pipe_cleanup_for_process_def intro!: pipe_intros fold_I)

lemma pipe_alloc_frame: "R k (snd (pipe_alloc k))"
  by (auto simp: pipe_alloc_def intro!: pipe_intros split: option.split)

lemma pipe_open_frame: "R k (snd (pipe_open nm k))"
  using pipe_alloc_frame [of k]
  by (auto simp: pipe_open_def intro!: pipe_intros split: option.split prod.split)

lemma pipe_open_read_frame: "R k (pipe_open_read d k)"
  by (auto simp: pipe_open_read_def intro!: pipe_intros pipe_wake_all_writers_I split: option.split)

lemma pipe_open_write_frame: "R k (pipe_open_write d k)"
  by (auto simp: pipe_open_write_def intro!: pipe_intros pipe_wake_all_readers_I split: option.split)

lemma pipe_close_read_frame: "R k (pipe_close_read d k)"
  by (auto simp: pipe_close_read_def intro!: pipe_intros pipe_wake_all_writers_I pipe_maybe_free_I
      split: option.split)

lemma pipe_close_write_frame: "R k (pipe_close_write d k)"
  by (auto simp: pipe_close_write_def intro!: pipe_intros pipe_wake_all_readers_I pipe_maybe_free_I
      split: option.split)

lemma block_reader_I: "R k k1 \<Longrightarrow> R k (block_reader p k1)"
  by (auto simp: block_reader_def Let_def intro!: pipe_intros split: option.split)

lemma block_writer_I: "R k k1 \<Longrightarrow> R k (block_writer p k1)"
  by (auto simp: block_writer_def Let_def intro!: pipe_intros split: option.split)

lemma pipe_read_frame: "R k (snd (snd (pipe_read d null cnt k)))"
  by (auto simp: pipe_read_def Let_def case_prod_beta
      intro!: pipe_intros block_reader_I pipe_wake_writer_I split: option.split)

lemma pipe_write_frame: "R k (snd (pipe_write d buf cnt k))"
  by (auto simp: pipe_write_def Let_def
      intro!: pipe_intros block_writer_I pipe_wake_reader_I split: option.split)

end

sublocale pipe_frame \<subseteq> pipe_ops
  by unfold_locales
     (rule pipe_open_frame pipe_open_read_frame pipe_open_write_frame pipe_close_read_frame
        pipe_close_write_frame pipe_read_frame pipe_write_frame pipe_cleanup_frame)+

section \<open>Descriptors\<close>

text \<open>What the callers of the descriptors and of the pipes behind them rely on.\<close>

locale fd_ops = kernel_frame +
  assumes fd_incref_R: "R k (fd_incref n k)"
    and fd_decref_R: "R k (fd_decref n k)"
    and sys_pipe_R: "R k (snd (snd (sys_pipe null k)))"
    and sys_pipe_open_R: "R k (snd (snd (sys_pipe_open nm null k)))"
    and fd_pipe_read_R: "R k (snd (snd (pipe_read d null cnt k)))"
    and fd_pipe_write_R: "R k (snd (pipe_write d buf cnt k))"
    and fd_pipe_cleanup_R: "R k (pipe_cleanup_for_process n k)"
begin

lemma fd_incref_I: "R k k1 \<Longrightarrow> R k (fd_incref n k1)"
  using fd_incref_R R_trans by blast

lemma fd_decref_I: "R k k1 \<Longrightarrow> R k (fd_decref n k1)"
  using fd_decref_R R_trans by blast

lemma cleanup_pipes_I: "R k k1 \<Longrightarrow> R k (pipe_cleanup_for_process n k1)"
  using fd_pipe_cleanup_R R_trans by blast

lemma release_fds_I: "R k k1 \<Longrightarrow> R k (process_release_fds d k1)"
  by (auto simp: process_release_fds_def harmless_def intro!: frame_intros fd_decref_I split: option.split)

lemma sys_dup2_R: "R k (snd (sys_dup2 old_fd new_fd k))"
  by (auto simp: sys_dup2_def harmless_def intro!: frame_intros fd_decref_I fd_incref_I split: option.split)

lemma process_pipe_setup_R: "R k (process_pipe_setup n fd t k)"
  by (auto simp: process_pipe_setup_def harmless_def Let_def intro!: frame_intros fd_decref_I fd_incref_I split: option.split)

end

text \<open>A relation that does not look at the descriptors.\<close>

locale fd_frame = pipe_ops +
  assumes R_fd: "R k (upd_fd i f k)"
begin

lemma fd_I: "R k k1 \<Longrightarrow> R k (upd_fd i f k1)"
  using R_fd R_trans by blast

lemmas fd_intros = frame_intros fd_I

lemma fd_alloc_frame: "R k (snd (fd_alloc t d k))"
  by (auto simp: fd_alloc_def intro!: fd_intros split: option.split)

lemma fd_incref_frame_I: "R k k1 \<Longrightarrow> R k (fd_incref n k1)"
  by (auto simp: fd_incref_def Let_def
      intro!: fd_intros pipe_open_read_I pipe_open_write_I split: option.split)

lemma fd_decref_frame_I: "R k k1 \<Longrightarrow> R k (fd_decref n k1)"
  by (auto simp: fd_decref_def Let_def
      intro!: fd_intros pipe_close_read_I pipe_close_write_I split: option.split)

lemma fd_create_pipe_frame: "R k (snd (fd_create_pipe p w k))"
  using fd_alloc_frame [of k _ p]
  by (auto simp: fd_create_pipe_def case_prod_beta intro!: fd_incref_frame_I R_refl split: option.split)

lemma pipe_create_fds_frame: "R k (snd (snd (pipe_create_fds p k)))"
  using fd_create_pipe_frame [of k p False]
    R_trans [OF fd_create_pipe_frame [of k p False] fd_create_pipe_frame [of _ p True]]
  by (auto simp: pipe_create_fds_def case_prod_beta Let_def intro!: fd_decref_frame_I)

lemma sys_pipe_frame: "R k (snd (snd (sys_pipe null k)))"
  using pipe_open_R [of k None] R_trans [OF pipe_open_R [of k None] pipe_create_fds_frame]
  by (auto simp: sys_pipe_def R_refl split: option.split prod.split)

lemma sys_pipe_open_frame: "R k (snd (snd (sys_pipe_open nm null k)))"
  using pipe_open_R [of k nm] R_trans [OF pipe_open_R [of k nm] pipe_create_fds_frame]
  by (auto simp: sys_pipe_open_def R_refl split: option.split prod.split)

end

sublocale fd_frame \<subseteq> fd_ops
  by unfold_locales
     (rule fd_incref_frame_I [OF R_refl] fd_decref_frame_I [OF R_refl] sys_pipe_frame sys_pipe_open_frame
        pipe_read_R pipe_write_R pipe_cleanup_R)+

section \<open>The terminal\<close>

definition waiting_kept :: "(keyboard \<Rightarrow> keyboard) \<Rightarrow> bool" where
  "waiting_kept f \<longleftrightarrow> (\<forall>b. kbd_waiting_process (f b) = kbd_waiting_process b)"

text \<open>The running process, which may still be marked READY.\<close>

definition on_cpu :: "kernel \<Rightarrow> nat \<Rightarrow> bool" where
  "on_cpu k c \<longleftrightarrow> current_process k = Some c \<and>
     (pstate (proc k c) = PROCESS_READY \<or> pstate (proc k c) = PROCESS_RUNNING)"

text \<open>What the callers of the terminal rely on.\<close>

locale tty_ops = fd_ops +
  assumes tty_read_R: "on_cpu k c \<Longrightarrow> R k (snd (snd (tty_read cnt (Some c) k)))"
    and R_tty_mode: "R k (upd_kbd (tty_set_mode m) k)"
    and R_video: "R k (k\<lparr>video := v\<rparr>)"
begin

lemma video_I: "R k k1 \<Longrightarrow> R k (k1\<lparr>video := v\<rparr>)"
  using R_video R_trans by blast

lemma fd_read_R: "on_cpu k c \<Longrightarrow> R k (snd (snd (fd_read d null cnt (Some c) k)))"
  by (auto simp: fd_read_def intro!: tty_read_R fd_pipe_read_R R_refl split: option.split fd_type.split)

lemma fd_write_R: "R k (snd (fd_write d buf cnt cur color k))"
  by (auto simp: fd_write_def intro!: frame_intros video_I fd_pipe_write_R split: option.split fd_type.split)

lemma sys_read_R: "on_cpu k c \<Longrightarrow> R k (snd (snd (sys_read fd null cnt k)))"
  using fd_read_R [of k c]
  by (auto simp: sys_read_def process_current_def on_cpu_def R_refl Let_def split: option.split)

lemma sys_write_color_R: "R k (snd (sys_write_color fd buf cnt color k))"
  by (auto simp: sys_write_color_def Let_def intro!: R_refl fd_write_R split: option.split)

lemma sys_tty_mode_R: "R k (snd (sys_tty_mode mode k))"
  by (simp add: sys_tty_mode_def R_tty_mode)

end

text \<open>A relation that looks at the waiting process only.\<close>

locale tty_frame = fd_frame +
  assumes R_kbd: "waiting_kept g \<Longrightarrow> R k (upd_kbd g k)"
    and R_kbd_block: "on_cpu k c \<Longrightarrow> R k (block_on_keyboard c k)"
    and R_video_any: "R k (k\<lparr>video := v\<rparr>)"
begin

lemma kbd_I: "waiting_kept g \<Longrightarrow> R k k1 \<Longrightarrow> R k (upd_kbd g k1)"
  using R_kbd R_trans by blast

lemma kbd_block_I: "on_cpu k1 c \<Longrightarrow> R k k1 \<Longrightarrow> R k (block_on_keyboard c k1)"
  using R_kbd_block R_trans by blast

lemmas tty_intros = fd_intros kbd_I

lemma readKeyBuff_loop_waiting:
  "kbd_waiting_process (snd (readKeyBuff_loop i cnt b)) = kbd_waiting_process b"
proof (induction i cnt b rule: readKeyBuff_loop.induct)
  case (1 i cnt b)
  then show ?case
    by (subst readKeyBuff_loop.simps) (auto simp: getFromBuffer_def case_prod_beta Let_def)
qed

text \<open>A keyboard computed beforehand is an update that keeps the waiting process.\<close>

lemma kbd_const_R:
  assumes "kbd_waiting_process b = kbd_waiting_process (kbd k)"
  shows "R k (upd_kbd (\<lambda>_. b) k)"
proof -
  have "upd_kbd (\<lambda>_. b) k = upd_kbd (\<lambda>c. b\<lparr>kbd_waiting_process := kbd_waiting_process c\<rparr>) k"
    by (simp add: upd_kbd_def assms [symmetric])
  then show ?thesis by (auto simp: waiting_kept_def intro!: tty_intros)
qed

lemma tty_read_frame:
  assumes "on_cpu k c"
  shows "R k (snd (snd (tty_read cnt (Some c) k)))"
proof -
  have rk: "R k (upd_kbd (\<lambda>_. snd (snd (readKeyBuff cnt (kbd k)))) k)" (is "R k ?k")
    by (rule kbd_const_R) (simp add: readKeyBuff_def case_prod_beta readKeyBuff_loop_waiting)
  have tl: "R k (upd_kbd (\<lambda>_. snd (tty_take_line cnt (kbd k))) k)"
    by (rule kbd_const_R) (simp add: tty_take_line_def Let_def)
  have "on_cpu ?k c" using assms by (simp add: on_cpu_def)
  with rk tl assms show ?thesis
    by (auto simp: tty_read_def Let_def case_prod_beta waiting_kept_def
        intro!: tty_intros kbd_block_I)
qed

lemma tty_mode_frame: "R k (upd_kbd (tty_set_mode m) k)"
  by (auto simp: tty_set_mode_def waiting_kept_def intro!: tty_intros)

end

sublocale tty_frame \<subseteq> tty_ops
  by unfold_locales (erule tty_read_frame, rule tty_mode_frame, rule R_video_any)

end
