(* ===== verification/Invariant.thy ===== *)
theory Invariant
  imports Frames
begin

text \<open>
  The invariant of the kernel as a whole: what is true of the process table, the run queue and
  the CPU whenever an interrupt handler returns, and that every handler preserves it.
\<close>

section \<open>The invariant\<close>

abbreviation is_free :: "kernel \<Rightarrow> nat \<Rightarrow> bool" where
  "is_free k i \<equiv> pstate (proc k i) = PROCESS_FREE"

abbreviation zombie :: "kernel \<Rightarrow> nat \<Rightarrow> bool" where
  "zombie k i \<equiv> pstate (proc k i) = PROCESS_ZOMBIE"

text \<open>
  The run queue holds, once each and in descending priority, the processes in use except for
  idle (and except for \<open>D\<close>, the one an operation has just detached); the cursor is inside.
\<close>

definition queue_inv :: "nat set \<Rightarrow> kernel \<Rightarrow> bool" where
  "queue_inv D k \<longleftrightarrow>
     distinct (rq k) \<and>
     set (rq k) = {i. i < MAX_PROCESSES \<and> \<not> is_free k i \<and> Some i \<noteq> idle_pcb k} - D \<and>
     descending (prio_of k) (rq k) \<and> cursor_ok k"

text \<open>PIDs are unique and below the counter; priorities are in range; idle exists, has PID 1
  and is neither in the foreground nor dead.\<close>

definition table_inv :: "kernel \<Rightarrow> bool" where
  "table_inv k \<longleftrightarrow>
     pids_unique k \<and>
     (\<forall>i<MAX_PROCESSES. \<not> is_free k i \<longrightarrow>
        pid (proc k i) \<le> next_pid k \<and> MIN_PRIORITY \<le> priority (proc k i) \<and> priority (proc k i) \<le> MAX_PRIORITY) \<and>
     (\<exists>d<MAX_PROCESSES. idle_pcb k = Some d \<and> \<not> is_free k d \<and> \<not> zombie k d \<and>
        pid (proc k d) = 1 \<and> foreground (proc k d) = 0)"

text \<open>
  Only the current process is RUNNING or a ZOMBIE, and the process that waits for the keyboard
  is alive.
\<close>

definition cpu_inv :: "kernel \<Rightarrow> bool" where
  "cpu_inv k \<longleftrightarrow>
     (\<forall>c. current_process k = Some c \<longrightarrow> c < MAX_PROCESSES) \<and>
     (\<forall>i<MAX_PROCESSES. pstate (proc k i) = PROCESS_RUNNING \<or> zombie k i \<longrightarrow> current_process k = Some i) \<and>
     (\<forall>w. kbd_waiting_process (kbd k) = Some w \<longrightarrow> w < MAX_PROCESSES \<and> \<not> is_free k w \<and> \<not> zombie k w)"

definition sys_inv :: "nat set \<Rightarrow> kernel \<Rightarrow> bool" where
  "sys_inv D k \<longleftrightarrow> queue_inv D k \<and> table_inv k \<and> cpu_inv k"

text \<open>The process on the CPU may go on, or a switch has been requested.\<close>

definition settled :: "kernel \<Rightarrow> bool" where
  "settled k \<longleftrightarrow> force_switch k \<or> (\<exists>c. on_cpu k c)"

definition mid_inv :: "kernel \<Rightarrow> bool" where
  "mid_inv k \<longleftrightarrow> sys_inv {} k \<and> settled k \<and> current_process k \<noteq> None"

definition kernel_inv :: "kernel \<Rightarrow> bool" where
  "kernel_inv k \<longleftrightarrow> sys_inv {} k \<and> \<not> force_switch k \<and> (\<exists>c. on_cpu k c)"

lemma kernel_inv_mid: "kernel_inv k \<Longrightarrow> mid_inv k"
  by (auto simp: kernel_inv_def mid_inv_def settled_def on_cpu_def)

section \<open>Steps the scheduler does not notice\<close>

definition quiet :: "kernel \<Rightarrow> kernel \<Rightarrow> bool" where
  "quiet k k' \<longleftrightarrow>
     run_queue k' = run_queue k \<and> queue_size k' = queue_size k \<and> queue_idx k' = queue_idx k \<and>
     idle_pcb k' = idle_pcb k \<and> next_pid k' = next_pid k \<and> current_process k' = current_process k \<and>
     (\<forall>i. pid (proc k' i) = pid (proc k i) \<and> priority (proc k' i) = priority (proc k i) \<and>
          foreground (proc k' i) = foreground (proc k i) \<and>
          (is_free k' i \<longleftrightarrow> is_free k i) \<and> (zombie k' i \<longleftrightarrow> zombie k i) \<and>
          (pstate (proc k' i) = PROCESS_RUNNING \<longrightarrow> pstate (proc k i) = PROCESS_RUNNING)) \<and>
     (\<forall>w. kbd_waiting_process (kbd k') = Some w \<longrightarrow>
          kbd_waiting_process (kbd k) = Some w \<or> current_process k = Some w \<and> \<not> is_free k w \<and> \<not> zombie k w) \<and>
     (settled k \<longrightarrow> settled k') \<and>
     (current_process k = None \<longrightarrow> force_switch k' = force_switch k)"

lemma quiet_refl: "quiet k k"
  by (simp add: quiet_def)

lemma quiet_trans: "quiet k k1 \<Longrightarrow> quiet k1 k2 \<Longrightarrow> quiet k k2"
  unfolding quiet_def by (elim conjE, intro conjI) (simp | blast)+

lemma quiet_inv:
  assumes "sys_inv D k" and "quiet k k'"
  shows "sys_inv D k'"
proof -
  have q: "run_queue k' = run_queue k" "queue_size k' = queue_size k" "queue_idx k' = queue_idx k"
    "idle_pcb k' = idle_pcb k" "next_pid k' = next_pid k" "current_process k' = current_process k"
    and p: "\<And>i. pid (proc k' i) = pid (proc k i)" "\<And>i. priority (proc k' i) = priority (proc k i)"
      "\<And>i. foreground (proc k' i) = foreground (proc k i)" "\<And>i. is_free k' i = is_free k i"
      "\<And>i. zombie k' i = zombie k i"
      "\<And>i. pstate (proc k' i) = PROCESS_RUNNING \<Longrightarrow> pstate (proc k i) = PROCESS_RUNNING"
    and w: "\<And>w. kbd_waiting_process (kbd k') = Some w \<Longrightarrow>
          kbd_waiting_process (kbd k) = Some w \<or> current_process k = Some w \<and> \<not> is_free k w \<and> \<not> zombie k w"
    using assms(2) unfolding quiet_def by blast+
  have rq: "rq k' = rq k" using q(1,2) by (simp add: rq_def)
  have "queue_inv D k'"
    using assms(1) by (simp add: sys_inv_def queue_inv_def rq p(1-5) q cursor_ok_def)
  moreover have "table_inv k'"
    using assms(1) by (simp add: sys_inv_def table_inv_def pids_unique_def p(1-5) q)
  moreover have "cpu_inv k'"
  proof -
    have c: "cpu_inv k" using assms(1) by (simp add: sys_inv_def)
    then have c1: "\<forall>c. current_process k = Some c \<longrightarrow> c < MAX_PROCESSES"
      unfolding cpu_inv_def by (elim conjE)
    have "w < MAX_PROCESSES \<and> \<not> is_free k w \<and> \<not> zombie k w"
      if "kbd_waiting_process (kbd k') = Some w" for w
      using w [OF that]
    proof
      assume "kbd_waiting_process (kbd k) = Some w"
      then show ?thesis using c unfolding cpu_inv_def by blast
    next
      assume "current_process k = Some w \<and> \<not> is_free k w \<and> \<not> zombie k w"
      then show ?thesis using c1 by blast
    qed
    then have w': "\<forall>w. kbd_waiting_process (kbd k') = Some w \<longrightarrow>
        w < MAX_PROCESSES \<and> \<not> is_free k' w \<and> \<not> zombie k' w"
      using p(4,5) by metis
    have "\<forall>i<MAX_PROCESSES. pstate (proc k i) = PROCESS_RUNNING \<or> zombie k i \<longrightarrow> current_process k = Some i"
      using c unfolding cpu_inv_def by (elim conjE)
    then have "\<forall>i<MAX_PROCESSES. pstate (proc k' i) = PROCESS_RUNNING \<or> zombie k' i \<longrightarrow> current_process k' = Some i"
      unfolding q(6) p(5) using p(6) by metis
    moreover have "\<forall>c. current_process k' = Some c \<longrightarrow> c < MAX_PROCESSES"
      using c1 unfolding q(6) .
    ultimately show ?thesis using w' unfolding cpu_inv_def by (intro conjI)
  qed
  ultimately show ?thesis by (simp add: sys_inv_def)
qed

lemma quiet_mid_inv: "mid_inv k \<Longrightarrow> quiet k k' \<Longrightarrow> mid_inv k'"
  using quiet_inv [of "{}" k k'] by (simp add: mid_inv_def quiet_def)

text \<open>The primitive updates are quiet.\<close>

lemma settled_cong:
  "current_process k' = current_process k \<Longrightarrow> force_switch k' = force_switch k \<Longrightarrow>
   (\<And>i. pstate (proc k' i) = pstate (proc k i)) \<Longrightarrow> settled k' = settled k"
  by (simp add: settled_def on_cpu_def)

lemma quiet_I:
  assumes "run_queue k' = run_queue k" "queue_size k' = queue_size k" "queue_idx k' = queue_idx k"
    "idle_pcb k' = idle_pcb k" "next_pid k' = next_pid k" "current_process k' = current_process k"
    "force_switch k' = force_switch k"
    and "\<And>w. kbd_waiting_process (kbd k') = Some w \<Longrightarrow> kbd_waiting_process (kbd k) = Some w"
    and "\<And>i. pid (proc k' i) = pid (proc k i) \<and> priority (proc k' i) = priority (proc k i) \<and>
          foreground (proc k' i) = foreground (proc k i) \<and> pstate (proc k' i) = pstate (proc k i)"
  shows "quiet k k'"
  using assms settled_cong [of k' k] unfolding quiet_def by auto

lemma quiet_upd_proc: "hidden f \<Longrightarrow> quiet k (upd_proc i f k)"
  by (rule quiet_I) (auto simp: hidden_def)

lemma quiet_hidden_I: "hidden f \<Longrightarrow> quiet k k1 \<Longrightarrow> quiet k (upd_proc i f k1)"
  using quiet_upd_proc quiet_trans by blast

text \<open>Between READY, RUNNING and BLOCKED, but never to RUNNING.\<close>

lemma quiet_pstate:
  assumes "\<not> is_free k i" "\<not> zombie k i" "s = PROCESS_READY \<or> s = PROCESS_BLOCKED"
    and "\<And>p. pid (f p) = pid p \<and> priority (f p) = priority p \<and> foreground (f p) = foreground p \<and> pstate (f p) = s"
    and "s = PROCESS_READY \<or> current_process k \<noteq> Some i \<or> b" and "b \<Longrightarrow> current_process k \<noteq> None"
  shows "quiet k (if b then (upd_proc i f k)\<lparr>force_switch := True\<rparr> else upd_proc i f k)"
  using assms unfolding quiet_def settled_def on_cpu_def by auto

lemma quiet_force: "current_process k \<noteq> None \<Longrightarrow> quiet k (k\<lparr>force_switch := True\<rparr>)"
  unfolding quiet_def settled_def by auto

lemma quiet_process_block: "quiet k (process_block n k)"
proof (cases "process_get n k")
  case None
  then show ?thesis by (simp add: process_block_def quiet_refl)
next
  case (Some p)
  have "quiet k (if Some p = current_process k then (upd_proc p (\<lambda>q. q\<lparr>pstate := PROCESS_BLOCKED\<rparr>) k)\<lparr>force_switch := True\<rparr>
      else upd_proc p (\<lambda>q. q\<lparr>pstate := PROCESS_BLOCKED\<rparr>) k)"
    if "\<not> is_free k p" "\<not> zombie k p"
    using that by (intro quiet_pstate [where s = PROCESS_BLOCKED]) (auto dest: sym)
  then show ?thesis using Some by (simp add: process_block_def quiet_refl Let_def)
qed

lemma quiet_process_unblock: "quiet k (process_unblock n k)"
proof (cases "process_get n k")
  case None
  then show ?thesis by (simp add: process_unblock_def quiet_refl)
next
  case (Some p)
  let ?k = "upd_proc p (\<lambda>q. q\<lparr>pstate := PROCESS_READY, wait_ticks := 0\<rparr>) k"
  have "quiet k ?k" if "pstate (proc k p) = PROCESS_BLOCKED"
    using that quiet_pstate [where s = PROCESS_READY and b = False and k = k and i = p]
    by simp
  moreover have "quiet ?k (?k\<lparr>force_switch := True\<rparr>)" if "current_process k = Some c" for c
    using that by (intro quiet_force) simp
  ultimately show ?thesis using Some
    by (auto simp: process_unblock_def process_current_def quiet_refl Let_def
        intro: quiet_trans split: option.split)
qed

lemma quiet_block_on_keyboard:
  assumes "on_cpu k c"
  shows "quiet k (block_on_keyboard c k)"
  using assms unfolding quiet_def settled_def on_cpu_def block_on_keyboard_def kbd_set_waiting_def
  by auto

interpretation quiet: sem_frame quiet
proof
  show "quiet k (upd_sem i f k)" for k i f by (rule quiet_I) auto
  show "quiet k (set_fault e k)" for k e by (rule quiet_I) auto
  show "quiet k (set_fault Spin k)" for k by (rule quiet_I) auto
qed (blast intro: quiet_refl quiet_trans quiet_upd_proc harmless_hidden quiet_process_block quiet_process_unblock)+

interpretation quiet: pipe_frame quiet
proof
  show "quiet k (upd_pipe i f k)" for k i f by (rule quiet_I) auto
qed

interpretation quiet: tty_frame quiet
proof
  show "quiet k (upd_fd i f k)" for k i f by (rule quiet_I) auto
  show "waiting_kept g \<Longrightarrow> quiet k (upd_kbd g k)" for k g
    by (rule quiet_I) (auto simp: waiting_kept_def)
  show "quiet k (k\<lparr>video := v\<rparr>)" for k v by (rule quiet_I) auto
qed (rule quiet_block_on_keyboard)

section \<open>The scheduler\<close>

text \<open>What the three parts depend on.\<close>

lemma queue_inv_cong:
  assumes "rq k' = rq k" "queue_size k' = queue_size k" "queue_idx k' = queue_idx k" "idle_pcb k' = idle_pcb k"
    "\<And>i. is_free k' i = is_free k i" "\<And>i. prio_of k' i = prio_of k i"
  shows "queue_inv D k' = queue_inv D k"
  unfolding queue_inv_def cursor_ok_def by (simp only: assms)

lemma table_inv_cong:
  assumes "next_pid k' = next_pid k" "idle_pcb k' = idle_pcb k" "process_table k' = process_table k"
  shows "table_inv k' = table_inv k"
  unfolding table_inv_def pids_unique_def by (simp only: assms)

lemma cpu_inv_cong:
  assumes "current_process k' = current_process k" "kbd k' = kbd k" "process_table k' = process_table k"
  shows "cpu_inv k' = cpu_inv k"
  unfolding cpu_inv_def by (simp only: assms)

lemma inv_force [simp]: "sys_inv D (k\<lparr>force_switch := b\<rparr>) = sys_inv D k"
proof -
  let ?k = "k\<lparr>force_switch := b\<rparr>"
  have "queue_inv D ?k = queue_inv D k" by (rule queue_inv_cong) (simp_all add: rq_def)
  moreover have "table_inv ?k = table_inv k" by (rule table_inv_cong) simp_all
  moreover have "cpu_inv ?k = cpu_inv k" by (rule cpu_inv_cong) simp_all
  ultimately show ?thesis by (simp only: sys_inv_def)
qed

lemma inv_remove:
  assumes "sys_inv {} k"
  shows "sys_inv {p} (scheduler_remove p k)"
proof -
  let ?k = "scheduler_remove p k"
  have q: "queue_inv {} k" using assms by (simp add: sys_inv_def)
  then have d: "distinct (rq k)" and s: "set (rq k) = {i. i < MAX_PROCESSES \<and> \<not> is_free k i \<and> Some i \<noteq> idle_pcb k}"
    and o: "descending (prio_of k) (rq k)" and c: "cursor_ok k"
    by (simp_all add: queue_inv_def)
  have "queue_inv {p} ?k"
    unfolding queue_inv_def rq_scheduler_remove scheduler_remove_frame set_remove1_eq [OF d] s
    using d o c by (simp add: descending_remove1 cursor_ok_remove)
  moreover have "table_inv ?k = table_inv k" by (rule table_inv_cong) simp_all
  moreover have "cpu_inv ?k = cpu_inv k" by (rule cpu_inv_cong) simp_all
  ultimately show ?thesis using assms by (simp only: sys_inv_def)
qed

lemma inv_not_queued:
  assumes "sys_inv D k" and "Some p = idle_pcb k \<or> is_free k p"
  shows "sys_inv (D - {p}) k"
proof -
  have "{i. i < MAX_PROCESSES \<and> \<not> is_free k i \<and> Some i \<noteq> idle_pcb k} - (D - {p}) =
      {i. i < MAX_PROCESSES \<and> \<not> is_free k i \<and> Some i \<noteq> idle_pcb k} - D"
    using assms(2) by auto
  then have "queue_inv (D - {p}) k = queue_inv D k" unfolding queue_inv_def by simp
  then show ?thesis using assms(1) by (simp only: sys_inv_def)
qed

lemma inv_queue_room:
  assumes "sys_inv {p} k" and "p < MAX_PROCESSES"
  shows "queue_size k < MAX_PROCESSES"
proof -
  have "queue_inv {p} k" using assms(1) by (simp only: sys_inv_def)
  then have d: "distinct (rq k)" and s: "set (rq k) \<subseteq> {..<MAX_PROCESSES} - {p}"
    unfolding queue_inv_def by auto
  have "length (rq k) \<le> card ({..<MAX_PROCESSES} - {p})"
    using card_mono [OF _ s] distinct_card [OF d] by simp
  then show ?thesis using assms(2) by simp
qed

lemma inv_add:
  assumes "sys_inv {p} k" and "p < MAX_PROCESSES" and "\<not> is_free k p"
  shows "sys_inv {} (scheduler_add p k)"
proof (cases "Some p = idle_pcb k")
  case True
  then have "scheduler_add p k = k" by (simp add: scheduler_add_def)
  with True assms(1) show ?thesis using inv_not_queued [of "{p}" k p] by simp
next
  case False
  let ?k = "scheduler_add p k"
  have room: "queue_size k < MAX_PROCESSES" by (rule inv_queue_room [OF assms(1,2)])
  have rq: "rq ?k = insert_desc (prio_of k) p (rq k)"
    using False room by (simp add: abs_simps)
  have q: "queue_inv {p} k" using assms(1) by (simp only: sys_inv_def)
  then have s: "set (rq k) = {i. i < MAX_PROCESSES \<and> \<not> is_free k i \<and> Some i \<noteq> idle_pcb k} - {p}"
    and d: "distinct (rq k)" and o: "descending (prio_of k) (rq k)" and c: "cursor_ok k"
    by (simp_all add: queue_inv_def)
  have "set (rq ?k) = {i. i < MAX_PROCESSES \<and> \<not> is_free k i \<and> Some i \<noteq> idle_pcb k} - {}"
    unfolding rq set_insert_desc s using False assms(2,3) by auto
  moreover have "distinct (rq ?k)" unfolding rq using d s by simp
  ultimately have "queue_inv {} ?k"
    unfolding queue_inv_def scheduler_add_frame using o c
    by (simp only: rq descending_insert_desc cursor_ok_add)
  moreover have "table_inv ?k = table_inv k" by (rule table_inv_cong) simp_all
  moreover have "cpu_inv ?k = cpu_inv k" by (rule cpu_inv_cong) simp_all
  ultimately show ?thesis using assms(1) by (simp only: sys_inv_def)
qed

lemma inv_idle:
  assumes "sys_inv D k"
  obtains d where "d < MAX_PROCESSES" "idle_pcb k = Some d" "\<not> is_free k d" "\<not> zombie k d"
    "pid (proc k d) = 1" "foreground (proc k d) = 0"
  using assms unfolding sys_inv_def table_inv_def by blast

lemma inv_next_ready:
  assumes "sys_inv {} k"
  obtains n j where "scheduler_next_ready k = (Some n, k\<lparr>queue_idx := j\<rparr>)"
    and "sys_inv {} (k\<lparr>queue_idx := j\<rparr>)" and "n < MAX_PROCESSES"
    and "\<not> is_free k n" and "\<not> zombie k n"
proof -
  have qi: "queue_inv {} k" using assms by (simp only: sys_inv_def)
  then have c: "cursor_ok k" and s: "set (rq k) = {i. i < MAX_PROCESSES \<and> \<not> is_free k i \<and> Some i \<noteq> idle_pcb k}"
    by (simp_all add: queue_inv_def)
  obtain j where j: "scheduler_next_ready k = (pick k, k\<lparr>queue_idx := j\<rparr>)" "cursor_ok (k\<lparr>queue_idx := j\<rparr>)"
    using scheduler_next_ready_pick [OF c] by blast
  let ?k = "k\<lparr>queue_idx := j\<rparr>"
  have "queue_inv {} ?k" using qi j(2) by (simp add: queue_inv_def rq_def)
  moreover have "table_inv ?k = table_inv k" by (rule table_inv_cong) simp_all
  moreover have "cpu_inv ?k = cpu_inv k" by (rule cpu_inv_cong) simp_all
  ultimately have i: "sys_inv {} ?k" using assms by (simp only: sys_inv_def)
  show thesis
  proof (cases rule: pick_cases [of k])
    case idle
    obtain d where "d < MAX_PROCESSES" "idle_pcb k = Some d" "\<not> is_free k d" "\<not> zombie k d"
      by (rule inv_idle [OF assms])
    with j(1) i that idle(1) show thesis by simp
  next
    case (best n)
    then have n: "n \<in> set (rq k)" "ready k n" by (simp_all add: in_best)
    then have "n < MAX_PROCESSES" unfolding s by simp
    with j(1) i that best(1) n(2) show thesis by simp
  qed
qed

lemma inv_dispatch:
  assumes "sys_inv {} k" and "n < MAX_PROCESSES" and "\<not> is_free k n" and "\<not> zombie k n"
    and others: "\<And>i. i < MAX_PROCESSES \<Longrightarrow> i \<noteq> n \<Longrightarrow> pstate (proc k i) \<noteq> PROCESS_RUNNING \<and> \<not> zombie k i"
  shows "sys_inv {} (snd (dispatch n k))" and "on_cpu (snd (dispatch n k)) n"
    and "force_switch (snd (dispatch n k)) = force_switch k"
proof -
  let ?k = "snd (dispatch n k)"
  have p: "pid (proc ?k i) = pid (proc k i)" "prio_of ?k i = prio_of k i"
    "foreground (proc ?k i) = foreground (proc k i)" "is_free ?k i = is_free k i"
    "zombie ?k i = zombie k i"
    "pstate (proc ?k i) = (if i = n then PROCESS_RUNNING else pstate (proc k i))" for i
    using assms(3,4) by (simp_all add: dispatch_def Let_def process_set_current_def)
  have q: "rq ?k = rq k" "queue_size ?k = queue_size k" "queue_idx ?k = queue_idx k" "idle_pcb ?k = idle_pcb k"
    "next_pid ?k = next_pid k" "current_process ?k = Some n" "kbd ?k = kbd k" "force_switch ?k = force_switch k"
    by (simp_all add: dispatch_def Let_def process_set_current_def rq_def)
  have "queue_inv {} ?k = queue_inv {} k" by (rule queue_inv_cong) (simp_all only: p(1-5) q)
  moreover have "table_inv ?k = table_inv k"
    unfolding table_inv_def pids_unique_def by (simp only: p(1-5) q)
  moreover have "cpu_inv ?k"
  proof -
    have "\<forall>w. kbd_waiting_process (kbd k) = Some w \<longrightarrow> w < MAX_PROCESSES \<and> \<not> is_free k w \<and> \<not> zombie k w"
      using assms(1) unfolding sys_inv_def cpu_inv_def by (elim conjE)
    moreover have "i = n" if "i < MAX_PROCESSES" "pstate (proc ?k i) = PROCESS_RUNNING \<or> zombie k i" for i
      using others [OF that(1)] that(2) by (cases "i = n") (simp_all add: p(6))
    ultimately show ?thesis
      unfolding cpu_inv_def p(4,5) q using assms(2) by blast
  qed
  ultimately show "sys_inv {} ?k" using assms(1) by (simp only: sys_inv_def)
  show "on_cpu ?k n" by (simp add: on_cpu_def p(6) q)
  show "force_switch ?k = force_switch k" by (rule q)
qed

text \<open>Releasing a slot that has been taken off the queue.\<close>

lemma inv_release:
  assumes "sys_inv {p} k" and "idle_pcb k \<noteq> Some p" and "kbd_waiting_process (kbd k) \<noteq> Some p"
    and f: "\<And>c. pstate (f c) = PROCESS_FREE"
  shows "sys_inv {} (upd_proc p f k)"
proof -
  let ?k = "upd_proc p f k"
  have p: "proc ?k i = (if i = p then f (proc k p) else proc k i)" for i by simp
  have free: "is_free ?k i \<longleftrightarrow> i = p \<or> is_free k i" for i by (simp add: p f)
  have q: "queue_inv {p} k" and t: "table_inv k" and c: "cpu_inv k" using assms(1) by (simp_all only: sys_inv_def)
  have s: "set (rq k) = {i. i < MAX_PROCESSES \<and> \<not> is_free k i \<and> Some i \<noteq> idle_pcb k} - {p}"
    and d: "distinct (rq k)" and o: "descending (prio_of k) (rq k)" and cu: "cursor_ok k"
    using q by (simp_all add: queue_inv_def)
  have rq: "rq ?k = rq k" by (rule rq_cong) simp_all
  have np: "p \<notin> set (rq k)" unfolding s by simp
  have "descending (prio_of ?k) (rq k)"
    using o by (rule sorted_wrt_mono_rel [rotated]) (use np in auto)
  moreover have "set (rq k) = {i. i < MAX_PROCESSES \<and> \<not> is_free ?k i \<and> Some i \<noteq> idle_pcb k} - {}"
    unfolding s free by auto
  ultimately have "queue_inv {} ?k"
    using d cu unfolding queue_inv_def rq cursor_ok_def by (simp only: upd_proc_simps)
  moreover have "table_inv ?k"
  proof -
    have "pids_unique ?k"
      using t unfolding table_inv_def pids_unique_def free by (simp add: p)
    moreover have "\<forall>i<MAX_PROCESSES. \<not> is_free ?k i \<longrightarrow>
        pid (proc ?k i) \<le> next_pid ?k \<and> 1 \<le> prio_of ?k i \<and> prio_of ?k i \<le> 5"
      using t unfolding table_inv_def free by (simp add: p)
    moreover obtain e where "e < MAX_PROCESSES" "idle_pcb k = Some e" "\<not> is_free k e" "\<not> zombie k e"
      "pid (proc k e) = 1" "foreground (proc k e) = 0"
      by (rule inv_idle [OF assms(1)])
    moreover from this have "e \<noteq> p" using assms(2) by auto
    ultimately show ?thesis unfolding table_inv_def upd_proc_simps(8) by (simp add: p)
  qed
  moreover have "cpu_inv ?k"
  proof -
    have "\<forall>i<MAX_PROCESSES. pstate (proc ?k i) = PROCESS_RUNNING \<or> zombie ?k i \<longrightarrow> current_process k = Some i"
    proof (intro allI impI)
      fix i assume i: "i < MAX_PROCESSES" "pstate (proc ?k i) = PROCESS_RUNNING \<or> zombie ?k i"
      then have "i \<noteq> p" using f by auto
      then have "pstate (proc k i) = PROCESS_RUNNING \<or> zombie k i" using i(2) by (simp only: p if_False)
      then show "current_process k = Some i"
        using c i(1) unfolding cpu_inv_def by blast
    qed
    moreover have "\<forall>w. kbd_waiting_process (kbd k) = Some w \<longrightarrow> w < MAX_PROCESSES \<and> \<not> is_free ?k w \<and> \<not> zombie ?k w"
    proof (intro allI impI)
      fix w assume w: "kbd_waiting_process (kbd k) = Some w"
      then have "w \<noteq> p" using assms(3) by auto
      moreover have "w < MAX_PROCESSES \<and> \<not> is_free k w \<and> \<not> zombie k w"
        using c w unfolding cpu_inv_def by blast
      ultimately show "w < MAX_PROCESSES \<and> \<not> is_free ?k w \<and> \<not> zombie ?k w" by (simp add: p)
    qed
    moreover have "\<forall>e. current_process k = Some e \<longrightarrow> e < MAX_PROCESSES"
      using c unfolding cpu_inv_def by (elim conjE)
    ultimately show ?thesis unfolding cpu_inv_def upd_proc_simps(3,13) by (intro conjI)
  qed
  ultimately show ?thesis by (simp only: sys_inv_def)
qed

lemma quiet_mm_free: "quiet k (mm_free a k)"
  by (cases "ff_free a (heap k)") (rule quiet_I, simp_all add: mm_free_def)+

lemma mm_free_I: "quiet k k1 \<Longrightarrow> quiet k (mm_free a k1)"
  using quiet_mm_free quiet_trans by blast

lemma mm_free_simps [simp]:
  "process_table (mm_free a k) = process_table k"
  "current_process (mm_free a k) = current_process k"
  "force_switch (mm_free a k) = force_switch k"
  by (auto simp: mm_free_def split: option.split)

text \<open>The release of a ZOMBIE by the scheduler.\<close>

lemma inv_reap:
  assumes "sys_inv {} k" and "current_process k = Some c"
  shows "sys_inv {} (scheduler_reap (Some c) k)"
    and "i \<noteq> c \<Longrightarrow> proc (scheduler_reap (Some c) k) i = proc k i"
    and "pstate (proc (scheduler_reap (Some c) k) c) = (if zombie k c then PROCESS_FREE else pstate (proc k c))"
    and "force_switch (scheduler_reap (Some c) k) = force_switch k"
proof -
  show "i \<noteq> c \<Longrightarrow> proc (scheduler_reap (Some c) k) i = proc k i"
    and "pstate (proc (scheduler_reap (Some c) k) c) = (if zombie k c then PROCESS_FREE else pstate (proc k c))"
    and "force_switch (scheduler_reap (Some c) k) = force_switch k"
    by (auto simp: scheduler_reap_def Let_def)
  show "sys_inv {} (scheduler_reap (Some c) k)"
  proof (cases "zombie k c")
    case False
    then show ?thesis using assms(1) by (simp add: scheduler_reap_def)
  next
    case True
    let ?k1 = "scheduler_remove c k"
    define k2 where "k2 = (if stack_base (proc ?k1 c) \<noteq> 0 then
        upd_proc c (\<lambda>p. p\<lparr>stack_base := 0\<rparr>) (mm_free (stack_base (proc ?k1 c)) ?k1) else ?k1)"
    define k3 where "k3 = (if argv (proc k2 c) \<noteq> 0 then
        upd_proc c (\<lambda>p. p\<lparr>argv := 0\<rparr>) (mm_free (argv (proc k2 c)) k2) else k2)"
    have eq: "scheduler_reap (Some c) k = upd_proc c (\<lambda>p. p\<lparr>rsp := 0, pstate := PROCESS_FREE, pid := 0\<rparr>) k3"
      unfolding scheduler_reap_def option.case k3_def k2_def Let_def using True by simp
    have "quiet ?k1 k2" unfolding k2_def by (auto simp: harmless_def intro!: quiet.frame_intros mm_free_I)
    moreover have "quiet k2 k3" unfolding k3_def by (auto simp: harmless_def intro!: quiet.frame_intros mm_free_I)
    ultimately have q: "quiet ?k1 k3" by (rule quiet_trans)
    have i3: "sys_inv {c} k3" by (rule quiet_inv [OF inv_remove [OF assms(1)] q])
    have z3: "zombie k3 c" using True q by (simp add: quiet_def)
    have "idle_pcb k3 \<noteq> Some c" using inv_idle [OF i3] z3 by (metis option.inject)
    moreover have "kbd_waiting_process (kbd k3) \<noteq> Some c"
      using i3 z3 unfolding sys_inv_def cpu_inv_def by blast
    ultimately show ?thesis unfolding eq using i3 by (intro inv_release) simp_all
  qed
qed

text \<open>The switch at the end of \<open>scheduler_tick\<close> and \<open>scheduler_yield_impl\<close>.\<close>

lemma kernel_inv_switch:
  assumes "sys_inv {} k" and "current_process k = Some c" and "pstate (proc k c) \<noteq> PROCESS_RUNNING"
    and "\<not> force_switch k"
  shows "\<exists>n k'. scheduler_next_ready k = (Some n, k') \<and>
    kernel_inv (snd (dispatch n (scheduler_reap (Some c) k')))"
proof -
  obtain n j where nj: "scheduler_next_ready k = (Some n, k\<lparr>queue_idx := j\<rparr>)"
    "sys_inv {} (k\<lparr>queue_idx := j\<rparr>)" "n < MAX_PROCESSES" "\<not> is_free k n" "\<not> zombie k n"
    by (rule inv_next_ready [OF assms(1)])
  let ?k = "k\<lparr>queue_idx := j\<rparr>"
  have cur: "current_process ?k = Some c" using assms(2) by simp
  let ?k2 = "scheduler_reap (Some c) ?k"
  note r = inv_reap [OF nj(2) cur]
  have n2: "\<not> is_free ?k2 n" "\<not> zombie ?k2 n"
    using nj(4,5) r(2) [of n] r(3) by (cases "n = c"; simp)+
  have o2: "pstate (proc ?k2 i) \<noteq> PROCESS_RUNNING \<and> \<not> zombie ?k2 i"
    if "i < MAX_PROCESSES" "i \<noteq> n" for i
  proof (cases "i = c")
    case True
    then show ?thesis using r(3) assms(3) by simp
  next
    case False
    have "pstate (proc k i) = PROCESS_RUNNING \<or> zombie k i \<longrightarrow> current_process k = Some i"
      using assms(1) that(1) unfolding sys_inv_def cpu_inv_def by blast
    then show ?thesis using False r(2) [OF False] assms(2) by auto
  qed
  note d = inv_dispatch [OF r(1) nj(3) n2 o2]
  have "\<not> force_switch (snd (dispatch n ?k2))" using d(3) r(4) assms(4) by simp
  then have "kernel_inv (snd (dispatch n ?k2))"
    unfolding kernel_inv_def using d(1,2) by blast
  with nj(1) show ?thesis by blast
qed

text \<open>The timer.\<close>

lemma age_waiting_frame [simp]:
  "current_process (age_waiting k) = current_process k"
  "force_switch (age_waiting k) = force_switch k"
  "pstate (proc (age_waiting k) i) = pstate (proc k i)"
  "remaining_quanta (proc (age_waiting k) i) = remaining_quanta (proc k i)"
  "priority (proc (age_waiting k) i) = priority (proc k i)"
proof -
  let ?f = "\<lambda>i k. let p = run_queue k i in if Some p \<noteq> current_process k \<and> pstate (proc k p) = PROCESS_READY
                    then upd_proc p (\<lambda>q. q\<lparr>wait_ticks := wait_ticks q + 1\<rparr>) k else k"
  have "current_process (fold ?f l k) = current_process k \<and> force_switch (fold ?f l k) = force_switch k \<and>
      pstate (proc (fold ?f l k) i) = pstate (proc k i) \<and>
      remaining_quanta (proc (fold ?f l k) i) = remaining_quanta (proc k i) \<and>
      priority (proc (fold ?f l k) i) = priority (proc k i)" for l k
    by (induction l arbitrary: k) (simp_all add: Let_def)
  then show "current_process (age_waiting k) = current_process k"
    "force_switch (age_waiting k) = force_switch k"
    "pstate (proc (age_waiting k) i) = pstate (proc k i)"
    "remaining_quanta (proc (age_waiting k) i) = remaining_quanta (proc k i)"
    "priority (proc (age_waiting k) i) = priority (proc k i)"
    unfolding age_waiting_def by blast+
qed

lemma age_waiting_quiet: "quiet k k1 \<Longrightarrow> quiet k (age_waiting k1)"
  unfolding age_waiting_def by (rule quiet.fold_I) (auto simp: Let_def harmless_def intro!: quiet.frame_intros)

lemma quiet_ready:
  assumes "pstate (proc k c) = PROCESS_RUNNING"
    and "\<And>p. pid (f p) = pid p \<and> priority (f p) = priority p \<and> foreground (f p) = foreground p \<and> pstate (f p) = PROCESS_READY"
  shows "quiet k (upd_proc c f k)"
  using quiet_pstate [where b = False and s = PROCESS_READY and k = k and i = c and f = f] assms by simp

lemma irq00_inv:
  assumes "kernel_inv k"
  shows "kernel_inv (snd (scheduler_tick sp k))"
proof -
  obtain c where c: "current_process k = Some c" "on_cpu k c"
    using assms by (auto simp: kernel_inv_def on_cpu_def)
  define k1 where "k1 = upd_proc c (\<lambda>p. p\<lparr>rsp := sp\<rparr>) (age_waiting (timer_handler k))"
  have "quiet k (timer_handler k)" by (rule quiet_I) (auto simp: timer_handler_def)
  then have q1: "quiet k k1"
    unfolding k1_def by (intro quiet_hidden_I age_waiting_quiet) (simp_all add: hidden_def)
  have c1: "current_process k1 = Some c" "\<not> force_switch k1" "pstate (proc k1 c) = pstate (proc k c)"
    using c(1) assms by (simp_all add: k1_def timer_handler_def kernel_inv_def)
  have i1: "sys_inv {} k1" using quiet_inv [OF _ q1] assms by (simp add: kernel_inv_def)
  define k2 where "k2 = (if remaining_quanta (proc k1 c) > 0 then
      upd_proc c (\<lambda>p. p\<lparr>remaining_quanta := remaining_quanta p - 1\<rparr>) k1 else k1)"
  have q2: "quiet k1 k2" unfolding k2_def by (auto simp: harmless_def intro!: quiet.frame_intros)
  have c2: "current_process k2 = Some c" "\<not> force_switch k2" "pstate (proc k2 c) = pstate (proc k c)"
    using c1 by (simp_all add: k2_def)
  have i2: "sys_inv {} k2" by (rule quiet_inv [OF i1 q2])
  define k3 where "k3 = upd_proc c (\<lambda>p. p\<lparr>pstate := PROCESS_READY, remaining_quanta := priority p\<rparr>) k2"
  show ?thesis
  proof (cases "pstate (proc k c) = PROCESS_RUNNING")
    case run: True
    show ?thesis
    proof (cases "remaining_quanta (proc k2 c) > 0")
      case True
      have "scheduler_tick sp k = (sp, k2)"
        using run True c(1) unfolding scheduler_tick_def k2_def k1_def Let_def
        by (simp add: process_current_def timer_handler_def)
      moreover have "kernel_inv k2" unfolding kernel_inv_def on_cpu_def using i2 c2 run by simp
      ultimately show ?thesis by simp
    next
      case False
      have "sys_inv {} k3" unfolding k3_def
        by (rule quiet_inv [OF i2 quiet_ready]) (use c2 run in simp_all)
      moreover have c3: "current_process k3 = Some c" "pstate (proc k3 c) \<noteq> PROCESS_RUNNING" "\<not> force_switch k3"
        using c2 by (simp_all add: k3_def)
      ultimately obtain n k' where n: "scheduler_next_ready k3 = (Some n, k')"
        "kernel_inv (snd (dispatch n (scheduler_reap (Some c) k')))"
        using kernel_inv_switch by blast
      have "scheduler_tick sp k = dispatch n (scheduler_reap (Some c) k')"
        using run False c(1) n(1) unfolding scheduler_tick_def k3_def k2_def k1_def Let_def
        by (simp add: process_current_def timer_handler_def)
      with n(2) show ?thesis by simp
    qed
  next
    case False
    then obtain n k' where n: "scheduler_next_ready k1 = (Some n, k')"
      "kernel_inv (snd (dispatch n (scheduler_reap (Some c) k')))"
      using kernel_inv_switch [OF i1 c1(1) _ c1(2)] c1(3) by auto
    have "scheduler_tick sp k = dispatch n (scheduler_reap (Some c) k')"
      using False c(1) n(1) unfolding scheduler_tick_def k1_def Let_def
      by (simp add: process_current_def timer_handler_def)
    with n(2) show ?thesis by simp
  qed
qed

text \<open>The voluntary switch.\<close>

lemma yield_inv:
  assumes "sys_inv {} k" and "current_process k = Some c" and "\<not> force_switch k"
  shows "kernel_inv (snd (scheduler_yield_impl sp k))"
proof -
  define k1 where "k1 = upd_proc c (\<lambda>p. p\<lparr>rsp := sp\<rparr>) k"
  define k2 where "k2 = (if pstate (proc k1 c) = PROCESS_RUNNING
    then upd_proc c (\<lambda>p. p\<lparr>pstate := PROCESS_READY\<rparr>) k1 else k1)"
  define k3 where "k3 = upd_proc c (\<lambda>p. p\<lparr>remaining_quanta := priority p\<rparr>) k2"
  have "quiet k k1" unfolding k1_def by (auto simp: hidden_def intro!: quiet_upd_proc)
  moreover have "quiet k1 k2" unfolding k2_def by (auto intro: quiet_ready quiet_refl)
  moreover have "quiet k2 k3" unfolding k3_def by (auto simp: harmless_def intro!: quiet.frame_intros)
  ultimately have "quiet k k3" by (blast intro: quiet_trans)
  then have "sys_inv {} k3" by (rule quiet_inv [OF assms(1)])
  moreover have "current_process k3 = Some c" "pstate (proc k3 c) \<noteq> PROCESS_RUNNING" "\<not> force_switch k3"
    using assms(2,3) by (simp_all add: k3_def k2_def k1_def)
  ultimately obtain n k' where n: "scheduler_next_ready k3 = (Some n, k')"
    "kernel_inv (snd (dispatch n (scheduler_reap (Some c) k')))"
    using kernel_inv_switch by blast
  have "scheduler_yield_impl sp k = dispatch n (scheduler_reap (Some c) k')"
    using assms(2) n(1) unfolding scheduler_yield_impl_def k3_def k2_def k1_def Let_def
    by (simp add: process_current_def)
  with n(2) show ?thesis by simp
qed

end
