(* ===== verification/Inv_Process.thy ===== *)
theory Inv_Process
  imports Invariant
begin

text \<open>
  The operations on processes and the invariant: exit, kill, nice, create, wait.
\<close>

text \<open>The keyboard is not touched by the semaphores, the pipes and the descriptors.\<close>

lemma process_block_kbd [simp]: "kbd (process_block n k) = kbd k"
  by (simp add: process_block_def Let_def split: option.split)

lemma process_unblock_kbd [simp]: "kbd (process_unblock n k) = kbd k"
  by (simp add: process_unblock_def Let_def split: option.split)

abbreviation same_kbd :: "kernel \<Rightarrow> kernel \<Rightarrow> bool" where
  "same_kbd k k' \<equiv> kbd k' = kbd k"

interpretation kept: sem_frame same_kbd
  by unfold_locales simp_all

interpretation kept: pipe_frame same_kbd
  by unfold_locales simp_all

interpretation kept: fd_frame same_kbd
  by unfold_locales simp_all

section \<open>Steps towards the end of a process\<close>

lemma quiet_wake_parent: "quiet k (wake_parent par n ret k)"
proof (cases "process_get par k")
  case None
  then show ?thesis by (simp add: wake_parent_def quiet_refl)
next
  case (Some q)
  let ?k = "k\<lparr>qmem := (qmem k)(rsp (proc k q) + 8 * 14 := of_int64 ret)\<rparr>"
  let ?f = "\<lambda>p. p\<lparr>waiting_for := 0, pstate := PROCESS_READY, wait_ticks := 0\<rparr>"
  have "quiet k ?k" by (rule quiet_I) auto
  moreover have "quiet ?k (upd_proc q ?f ?k)" if "pstate (proc k q) = PROCESS_BLOCKED"
    using that quiet_pstate [where b = False and s = PROCESS_READY and k = ?k and i = q and f = ?f] by simp
  ultimately show ?thesis using Some
    by (auto simp: wake_parent_def quiet_refl intro: quiet_trans)
qed

lemma wake_parent_I: "quiet k k1 \<Longrightarrow> quiet k (wake_parent par n ret k1)"
  using quiet_wake_parent quiet_trans by blast

lemma wake_parent_kbd [simp]: "kbd (wake_parent par n ret k) = kbd k"
  by (simp add: wake_parent_def split: option.split)

lemma quiet_clear_waiting: "quiet k (upd_kbd (kbd_clear_waiting c) k)"
  by (rule quiet_I) (auto simp: kbd_clear_waiting_def split: if_splits)

lemma clear_waiting_I: "quiet k k1 \<Longrightarrow> quiet k (upd_kbd (kbd_clear_waiting c) k1)"
  using quiet_clear_waiting quiet_trans by blast

lemma clear_waiting_not: "kbd_waiting_process (kbd_clear_waiting c b) \<noteq> Some c"
  by (simp add: kbd_clear_waiting_def)

text \<open>The current process becomes a ZOMBIE.\<close>

lemma inv_zombie:
  assumes "sys_inv {} k" and "current_process k = Some c" and "\<not> is_free k c"
    and "idle_pcb k \<noteq> Some c" and "kbd_waiting_process (kbd k) \<noteq> Some c"
  shows "sys_inv {} (upd_proc c (\<lambda>p. p\<lparr>pstate := PROCESS_ZOMBIE\<rparr>) k)" (is "sys_inv {} ?k")
proof -
  have p: "pid (proc ?k i) = pid (proc k i)" "prio_of ?k i = prio_of k i"
    "foreground (proc ?k i) = foreground (proc k i)" "is_free ?k i = is_free k i"
    "pstate (proc ?k i) = (if i = c then PROCESS_ZOMBIE else pstate (proc k i))" for i
    using assms(3) by simp_all
  have q: "rq ?k = rq k" by (simp add: rq_def)
  have "queue_inv {} ?k = queue_inv {} k"
    by (rule queue_inv_cong) (simp_all only: p(1-4) q upd_proc_simps(6-8))
  moreover have "table_inv ?k"
  proof -
    have t: "table_inv k" using assms(1) by (simp only: sys_inv_def)
    obtain d where d: "d < MAX_PROCESSES" "idle_pcb k = Some d" "\<not> is_free k d" "\<not> zombie k d"
      "pid (proc k d) = 1" "foreground (proc k d) = 0"
      by (rule inv_idle [OF assms(1)])
    then have "\<not> zombie ?k d" using assms(4) by (auto simp: p(5))
    then have "\<exists>d<MAX_PROCESSES. idle_pcb ?k = Some d \<and> \<not> is_free ?k d \<and> \<not> zombie ?k d \<and>
        pid (proc ?k d) = 1 \<and> foreground (proc ?k d) = 0"
      unfolding p(1,3,4) upd_proc_simps(8) using d by blast
    then show ?thesis using t unfolding table_inv_def pids_unique_def p(1-4) upd_proc_simps(2) by blast
  qed
  moreover have "cpu_inv ?k"
  proof -
    have c: "\<forall>c. current_process k = Some c \<longrightarrow> c < MAX_PROCESSES"
      "\<forall>i<MAX_PROCESSES. pstate (proc k i) = PROCESS_RUNNING \<or> zombie k i \<longrightarrow> current_process k = Some i"
      "\<forall>w. kbd_waiting_process (kbd k) = Some w \<longrightarrow> w < MAX_PROCESSES \<and> \<not> is_free k w \<and> \<not> zombie k w"
      using assms(1) unfolding sys_inv_def cpu_inv_def by blast+
    have "\<forall>i<MAX_PROCESSES. pstate (proc ?k i) = PROCESS_RUNNING \<or> zombie ?k i \<longrightarrow> current_process k = Some i"
    proof (intro allI impI)
      fix i assume i: "i < MAX_PROCESSES" "pstate (proc ?k i) = PROCESS_RUNNING \<or> zombie ?k i"
      show "current_process k = Some i"
      proof (cases "i = c")
        case False
        with i have "pstate (proc k i) = PROCESS_RUNNING \<or> zombie k i" by (simp only: p(5) if_False)
        with i(1) c(2) show ?thesis by blast
      qed (use assms(2) in simp)
    qed
    moreover have "\<forall>w. kbd_waiting_process (kbd k) = Some w \<longrightarrow> w < MAX_PROCESSES \<and> \<not> is_free ?k w \<and> \<not> zombie ?k w"
      using c(3) assms(5) unfolding p(4,5) by metis
    ultimately show ?thesis using c(1) unfolding cpu_inv_def upd_proc_simps(3,13) by (intro conjI)
  qed
  ultimately show ?thesis using assms(1) by (simp only: sys_inv_def)
qed

lemma quiet_simps:
  assumes "quiet k k'"
  shows "current_process k' = current_process k" and "idle_pcb k' = idle_pcb k"
    and "pid (proc k' i) = pid (proc k i)" and "is_free k' i = is_free k i"
    and "zombie k' i = zombie k i" and "next_pid k' = next_pid k"
  using assms unfolding quiet_def by blast+

section \<open>exit and kill\<close>

lemma process_exit_inv:
  assumes "kernel_inv k" and "sys_getpid k \<noteq> 1"
  shows "mid_inv (process_exit ret k)"
proof -
  obtain c where c: "current_process k = Some c" "\<not> is_free k c"
    using assms(1) by (auto simp: kernel_inv_def on_cpu_def)
  have i: "sys_inv {} k" using assms(1) by (simp add: kernel_inv_def)
  have n: "pid (proc k c) \<noteq> 1" using assms(2) c(1) by (simp add: sys_getpid_def process_current_def)
  define k1 where "k1 = upd_proc c (\<lambda>p. p\<lparr>retval := ret\<rparr>) k"
  define k2 where "k2 = pipe_cleanup_for_process (pid (proc k1 c)) (sem_cleanup_for_process (pid (proc k1 c)) k1)"
  define k3 where "k3 = upd_kbd (kbd_clear_waiting c) k2"
  define k4 where "k4 = process_release_fds (Some c) k3"
  define k5 where "k5 = wake_parent (parent_pid (proc k4 c)) (pid (proc k4 c)) ret k4"
  have e2: "pipe_cleanup_for_process (pid (proc (sem_cleanup_for_process (pid (proc k1 c)) k1) c))
      (sem_cleanup_for_process (pid (proc k1 c)) k1) = k2"
    unfolding k2_def using quiet_simps(3) [OF quiet.sem_cleanup_I [OF quiet_refl]] by metis
  have eq: "process_exit ret k = (upd_proc c (\<lambda>p. p\<lparr>pstate := PROCESS_ZOMBIE\<rparr>) k5)\<lparr>force_switch := True\<rparr>"
    unfolding process_exit_def c(1) option.case Let_def k5_def k4_def k3_def k1_def [symmetric] e2 ..
  have q: "quiet k k5" unfolding k5_def k4_def k3_def k2_def k1_def
    by (intro wake_parent_I quiet.release_fds_I clear_waiting_I quiet.cleanup_pipes_I quiet.sem_cleanup_I
        quiet.proc_I quiet_refl) (simp add: harmless_def)
  have w: "kbd_waiting_process (kbd k5) \<noteq> Some c"
    using kept.release_fds_I [of k3 k3 "Some c"] by (simp add: k5_def k4_def k3_def clear_waiting_not)
  have i5: "sys_inv {} k5" by (rule quiet_inv [OF i q])
  have "idle_pcb k5 \<noteq> Some c"
    using inv_idle [OF i] n quiet_simps(2) [OF q] by (metis option.inject)
  then have "sys_inv {} (upd_proc c (\<lambda>p. p\<lparr>pstate := PROCESS_ZOMBIE\<rparr>) k5)"
    using i5 w c quiet_simps [OF q] by (intro inv_zombie) simp_all
  then show ?thesis using quiet_simps(1) [OF q] c(1)
    unfolding eq mid_inv_def settled_def by simp
qed

text \<open>Reaping of the slot of a killed process.\<close>

lemma settled_cong':
  assumes "settled k" and "current_process k' = current_process k" and "force_switch k' = force_switch k"
    and "\<And>c. on_cpu k c \<Longrightarrow> pstate (proc k' c) = pstate (proc k c)"
  shows "settled k'"
  using assms by (auto simp: settled_def on_cpu_def)

text \<open>The two ways in which \<open>process_kill\<close> ends.\<close>

lemma process_kill_cases:
  assumes "process_get n k = Some p" and "\<not> zombie k p"
  obtains (current) k2 where "quiet k k2" "kbd_waiting_process (kbd k2) \<noteq> Some p" "current_process k = Some p"
      "process_kill n k = (process_release_fds (Some p)
         (upd_proc p (\<lambda>c. c\<lparr>pstate := PROCESS_ZOMBIE\<rparr>) k2))\<lparr>force_switch := True\<rparr>"
  | (other) k2 k5 where "quiet k k2" "kbd_waiting_process (kbd k2) \<noteq> Some p" "current_process k \<noteq> Some p"
      "quiet (scheduler_remove p k2) k5" "kbd k5 = kbd k2"
      "process_kill n k = upd_proc p (\<lambda>c. c\<lparr>pstate := PROCESS_FREE, pid := 0\<rparr>) k5"
proof -
  note p = process_get_Some [OF assms(1)]
  define k1 where "k1 = upd_kbd (kbd_clear_waiting p) (pipe_cleanup_for_process n (sem_cleanup_for_process n
      (upd_proc p (\<lambda>c. c\<lparr>retval := - 1\<rparr>) k)))"
  define k2 where "k2 = wake_parent (parent_pid (proc k1 p)) n (- 1) k1"
  have q: "quiet k k2" unfolding k2_def k1_def
    by (intro wake_parent_I clear_waiting_I quiet.cleanup_pipes_I quiet.sem_cleanup_I
        quiet.proc_I quiet_refl) (simp add: harmless_def)
  have w: "kbd_waiting_process (kbd k2) \<noteq> Some p"
    by (simp add: k2_def k1_def clear_waiting_not)
  note cur = quiet_simps(1) [OF q]
  show thesis
  proof (cases "Some p = current_process k2")
    case True
    have "process_kill n k = (process_release_fds (Some p)
         (upd_proc p (\<lambda>c. c\<lparr>pstate := PROCESS_ZOMBIE\<rparr>) k2))\<lparr>force_switch := True\<rparr>"
      unfolding process_kill_def assms(1) option.case using p(3) assms(2) True
      by (simp add: Let_def k2_def k1_def)
    then show thesis using q w True cur by (intro current) simp_all
  next
    case False
    define k3 where "k3 = process_release_fds (Some p) (scheduler_remove p k2)"
    define k4 where "k4 = (if stack_base (proc k3 p) \<noteq> 0 then
        upd_proc p (\<lambda>c. c\<lparr>stack_base := 0\<rparr>) (mm_free (stack_base (proc k3 p)) k3) else k3)"
    define k5 where "k5 = (if argv (proc k4 p) \<noteq> 0 then
        upd_proc p (\<lambda>c. c\<lparr>argv := 0\<rparr>) (mm_free (argv (proc k4 p)) k4) else k4)"
    have eq: "process_kill n k = upd_proc p (\<lambda>c. c\<lparr>pstate := PROCESS_FREE, pid := 0\<rparr>) k5"
      unfolding process_kill_def assms(1) option.case k5_def k4_def k3_def using p(3) assms(2) False
      by (simp only: k2_def k1_def Let_def simp_thms if_False)
    have r3: "quiet (scheduler_remove p k2) k3" unfolding k3_def by (intro quiet.release_fds_I quiet_refl)
    have r4: "quiet k3 k4" unfolding k4_def by (auto simp: harmless_def intro!: quiet.frame_intros mm_free_I)
    have r5: "quiet k4 k5" unfolding k5_def by (auto simp: harmless_def intro!: quiet.frame_intros mm_free_I)
    have "kbd k5 = kbd k2"
      using kept.release_fds_I [of "scheduler_remove p k2" "scheduler_remove p k2" "Some p"]
      by (simp add: k5_def k4_def k3_def mm_free_def split: option.split)
    then show thesis using False cur
      by (intro other [OF q w _ quiet_trans [OF quiet_trans [OF r3 r4] r5] _ eq]) auto
  qed
qed

lemma process_kill_inv:
  assumes "kernel_inv k" and "n \<noteq> 1"
  shows "mid_inv (process_kill n k)"
proof (cases "process_get n k")
  case None
  then show ?thesis using assms(1) by (simp add: process_kill_def kernel_inv_mid)
next
  case (Some p)
  note p = process_get_Some [OF Some]
  have i: "sys_inv {} k" using assms(1) by (simp add: kernel_inv_def)
  have m: "mid_inv k" using assms(1) by (rule kernel_inv_mid)
  obtain c where c: "on_cpu k c" "current_process k = Some c" using assms(1) by (auto simp: kernel_inv_def on_cpu_def)
  have z: "\<not> zombie k p"
    using i p(1) c unfolding sys_inv_def cpu_inv_def on_cpu_def by (metis option.inject process_state.distinct)
  have idle: "idle_pcb k \<noteq> Some p" using inv_idle [OF i] p(2) assms(2) by (metis option.inject)
  show ?thesis
    using Some z
  proof (cases rule: process_kill_cases)
    case (current k2)
    note q = quiet_simps [OF current(1)]
    let ?k3 = "upd_proc p (\<lambda>c. c\<lparr>pstate := PROCESS_ZOMBIE\<rparr>) k2"
    have "sys_inv {} ?k3"
      using quiet_inv [OF i current(1)] current idle p(3) q by (intro inv_zombie) simp_all
    moreover have q3: "quiet ?k3 (process_release_fds (Some p) ?k3)"
      by (intro quiet.release_fds_I quiet_refl)
    ultimately have "sys_inv {} (process_release_fds (Some p) ?k3)" by (rule quiet_inv)
    moreover have "current_process (process_release_fds (Some p) ?k3) \<noteq> None"
      using quiet_simps(1) [OF q3] current(3) q(1) by simp
    ultimately show ?thesis unfolding current(4) by (simp add: mid_inv_def settled_def)
  next
    case (other k2 k5)
    note r = quiet_simps [OF other(4)] and q = quiet_simps [OF other(1)]
    have m2: "mid_inv k2" by (rule quiet_mid_inv [OF m other(1)])
    have "sys_inv {p} k5" by (rule quiet_inv [OF inv_remove [OF quiet_inv [OF i other(1)]] other(4)])
    then have "sys_inv {} (process_kill n k)"
      unfolding other(6) using other(2,5) idle r(2) q(2) by (intro inv_release) simp_all
    moreover have cur: "current_process k5 = Some c" "p \<noteq> c"
      using r(1) q(1) c(2) other(3) by auto
    moreover have "settled (process_kill n k)"
    proof -
      have "settled (scheduler_remove p k2)"
        using m2 by (auto simp: mid_inv_def settled_def on_cpu_def)
      then have "settled k5" using other(4) unfolding quiet_def by blast
      then show ?thesis using cur unfolding other(6) by (auto simp: settled_def on_cpu_def)
    qed
    ultimately show ?thesis unfolding mid_inv_def other(6) by simp
  qed
qed

section \<open>nice\<close>

lemma clamp_priority:
  fixes x :: u8
  shows "1 \<le> (if (if x < 1 then 1 else x) > 5 then 5 else if x < 1 then 1 else x)"
    and "(if (if x < 1 then 1 else x) > 5 then 5 else if x < 1 then 1 else x) \<le> 5"
  by (auto simp: not_less word_le_nat_alt Suc_le_eq unat_gt_0)

lemma inv_set_priority:
  assumes "sys_inv {} k" and "\<not> is_free k p" and "1 \<le> np" and "np \<le> 5"
  shows "sys_inv {p} (scheduler_remove p (upd_proc p (\<lambda>c. c\<lparr>priority := np, wait_ticks := 0, remaining_quanta := np\<rparr>) k))"
    (is "sys_inv {p} (scheduler_remove p ?k)")
proof -
  have p: "pid (proc ?k i) = pid (proc k i)" "prio_of ?k i = (if i = p then np else prio_of k i)"
    "foreground (proc ?k i) = foreground (proc k i)" "pstate (proc ?k i) = pstate (proc k i)" for i
    by simp_all
  let ?k2 = "scheduler_remove p ?k"
  have q: "queue_inv {} k" and t: "table_inv k" and c: "cpu_inv k" using assms(1) by (simp_all only: sys_inv_def)
  have s: "set (rq k) = {i. i < MAX_PROCESSES \<and> \<not> is_free k i \<and> Some i \<noteq> idle_pcb k}"
    and d: "distinct (rq k)" and o: "descending (prio_of k) (rq k)" and cu: "cursor_ok k"
    using q by (simp_all add: queue_inv_def)
  have "rq ?k = rq k" by (rule rq_cong) simp_all
  then have rq: "rq ?k2 = remove1 p (rq k)" by (simp only: rq_scheduler_remove)
  have np: "p \<notin> set (rq ?k2)" unfolding rq using d by simp
  have "descending (prio_of k) (rq ?k2)" unfolding rq by (rule descending_remove1 [OF o])
  then have "descending (prio_of ?k2) (rq ?k2)"
    by (rule sorted_wrt_mono_rel [rotated]) (use np in \<open>auto simp: p\<close>)
  moreover have "cursor_ok ?k2" using cu by (intro cursor_ok_remove) (simp add: cursor_ok_def)
  ultimately have "queue_inv {p} ?k2"
    unfolding queue_inv_def scheduler_remove_frame upd_proc_simps(8) p(4)
    using d by (simp add: rq set_remove1_eq s)
  moreover have "table_inv ?k2"
    using t assms(3,4) unfolding table_inv_def pids_unique_def scheduler_remove_frame upd_proc_simps(2,8) p by simp
  moreover have "cpu_inv ?k2"
    using c unfolding cpu_inv_def scheduler_remove_frame upd_proc_simps(3,13) p(4) .
  ultimately show ?thesis by (simp only: sys_inv_def)
qed

lemma process_nice_inv:
  assumes "kernel_inv k"
  shows "mid_inv (process_nice n np k)"
proof (cases "process_get n k")
  case None
  then show ?thesis using assms by (simp add: process_nice_def kernel_inv_mid)
next
  case (Some p)
  note p = process_get_Some [OF Some]
  have i: "sys_inv {} k" using assms by (simp add: kernel_inv_def)
  obtain c where c: "on_cpu k c" "current_process k = Some c" using assms by (auto simp: kernel_inv_def on_cpu_def)
  have z: "\<not> zombie k p"
    using i p(1) c unfolding sys_inv_def cpu_inv_def on_cpu_def by (metis option.inject process_state.distinct)
  let ?np = "if (if np < 1 then 1 else np) > 5 then 5 else if np < 1 then 1 else np"
  let ?k = "upd_proc p (\<lambda>c. c\<lparr>priority := ?np, wait_ticks := 0, remaining_quanta := ?np\<rparr>) k"
  have eq: "process_nice n np k = scheduler_add p (scheduler_remove p ?k)"
    unfolding process_nice_def Some option.case Let_def using p(3) z by simp
  have "sys_inv {p} (scheduler_remove p ?k)"
    by (rule inv_set_priority [OF i p(3) clamp_priority])
  then have "sys_inv {} (process_nice n np k)"
    unfolding eq using p(1,3) by (intro inv_add) simp_all
  moreover have "settled (process_nice n np k)" "current_process (process_nice n np k) \<noteq> None"
    using c unfolding eq by (auto simp: settled_def on_cpu_def)
  ultimately show ?thesis by (simp add: mid_inv_def)
qed

section \<open>create\<close>

text \<open>A free slot is filled and not yet queued.\<close>

lemma inv_fill:
  assumes "sys_inv {} k" and "slot < MAX_PROCESSES" and "is_free k slot" and "next_pid k \<noteq> - 1"
    and f: "\<And>p. pid (f p) = next_pid k + 1 \<and> priority (f p) = 3 \<and>
        (pstate (f p) = PROCESS_READY \<or> pstate (f p) = PROCESS_BLOCKED)"
  shows "sys_inv {slot} (upd_proc slot f (k\<lparr>next_pid := next_pid k + 1\<rparr>))" (is "sys_inv {slot} ?k")
proof -
  have fr: "pstate (f p) \<noteq> PROCESS_FREE" "pstate (f p) \<noteq> PROCESS_ZOMBIE" "pstate (f p) \<noteq> PROCESS_RUNNING" for p
    using f [of p] by auto
  have p: "proc ?k i = (if i = slot then f (proc k slot) else proc k i)" for i by simp
  have free: "is_free ?k i \<longleftrightarrow> i \<noteq> slot \<and> is_free k i" for i by (simp add: p fr)
  have zomb: "zombie ?k i \<longleftrightarrow> zombie k i" for i using assms(3) by (simp add: p fr)
  have run: "pstate (proc ?k i) = PROCESS_RUNNING \<longleftrightarrow> pstate (proc k i) = PROCESS_RUNNING" for i
    using assms(3) by (simp add: p fr)
  have q: "queue_inv {} k" and t: "table_inv k" and c: "cpu_inv k" using assms(1) by (simp_all only: sys_inv_def)
  have s: "set (rq k) = {i. i < MAX_PROCESSES \<and> \<not> is_free k i \<and> Some i \<noteq> idle_pcb k}"
    and d: "distinct (rq k)" and o: "descending (prio_of k) (rq k)" and cu: "cursor_ok k"
    using q by (simp_all add: queue_inv_def)
  have rq: "rq ?k = rq k" by (simp add: rq_def)
  have ns: "slot \<notin> set (rq k)" unfolding s using assms(3) by simp
  have "descending (prio_of ?k) (rq k)"
    using o by (rule sorted_wrt_mono_rel [rotated]) (use ns in auto)
  moreover have "set (rq k) = {i. i < MAX_PROCESSES \<and> \<not> is_free ?k i \<and> Some i \<noteq> idle_pcb k} - {slot}"
    unfolding free using s ns by auto
  moreover have "cursor_ok ?k" using cu by (simp add: cursor_ok_def)
  ultimately have "queue_inv {slot} ?k"
    using d unfolding queue_inv_def rq by simp
  moreover have "table_inv ?k"
  proof -
    have "1 + next_pid k \<noteq> 0" using assms(4) by (metis add_eq_0_iff)
    from unatSuc [OF this] have lt: "next_pid k < next_pid k + 1"
      by (simp add: word_less_nat_alt add.commute)
    have old: "pid (proc k i) \<noteq> 0" "pid (proc k i) \<le> next_pid k" "1 \<le> prio_of k i" "prio_of k i \<le> 5"
      if "i < MAX_PROCESSES" "\<not> is_free k i" for i
      using t that unfolding table_inv_def pids_unique_def by blast+
    have uniq: "i = j" if "i < MAX_PROCESSES" "\<not> is_free k i" "j < MAX_PROCESSES" "\<not> is_free k j"
      "pid (proc k i) = pid (proc k j)" for i j
      using t that unfolding table_inv_def pids_unique_def by blast
    have new: "pid (f p) = next_pid k + 1" "priority (f p) = 3" for p using f by simp_all
    have fresh: "pid (proc k i) \<noteq> next_pid k + 1" if "i < MAX_PROCESSES" "\<not> is_free k i" for i
      using old(2) [OF that] lt by auto
    have "pids_unique ?k"
      unfolding pids_unique_def
    proof (intro allI impI conjI)
      fix i assume i: "i < MAX_PROCESSES" "\<not> is_free ?k i"
      show "pid (proc ?k i) \<noteq> 0" using i old(1) [of i] lt by (cases "i = slot") (auto simp: free new)
      fix j assume j: "j < MAX_PROCESSES" "\<not> is_free ?k j" "pid (proc ?k i) = pid (proc ?k j)"
      show "i = j"
        using i j uniq [of i j] fresh [of i] fresh [of j] by (cases "i = slot"; cases "j = slot") (auto simp: free new)
    qed
    moreover have "\<forall>i<MAX_PROCESSES. \<not> is_free ?k i \<longrightarrow>
        pid (proc ?k i) \<le> next_pid ?k \<and> 1 \<le> prio_of ?k i \<and> prio_of ?k i \<le> 5"
    proof (intro allI impI)
      fix i assume i: "i < MAX_PROCESSES" "\<not> is_free ?k i"
      show "pid (proc ?k i) \<le> next_pid ?k \<and> 1 \<le> prio_of ?k i \<and> prio_of ?k i \<le> 5"
        using i old(2-4) [of i] lt by (cases "i = slot") (auto simp: free new)
    qed
    moreover obtain e where e: "e < MAX_PROCESSES" "idle_pcb k = Some e" "\<not> is_free k e" "\<not> zombie k e"
      "pid (proc k e) = 1" "foreground (proc k e) = 0"
      by (rule inv_idle [OF assms(1)])
    moreover have "e \<noteq> slot" using e(3) assms(3) by auto
    ultimately show ?thesis unfolding table_inv_def by auto
  qed
  moreover have "cpu_inv ?k"
  proof -
    have "\<forall>w. kbd_waiting_process (kbd k) = Some w \<longrightarrow> w < MAX_PROCESSES \<and> \<not> is_free ?k w \<and> \<not> zombie ?k w"
      using c unfolding cpu_inv_def free zomb by blast
    moreover have "\<forall>i<MAX_PROCESSES. pstate (proc ?k i) = PROCESS_RUNNING \<or> zombie ?k i \<longrightarrow> current_process k = Some i"
      using c unfolding cpu_inv_def run zomb by blast
    moreover have "\<forall>c. current_process k = Some c \<longrightarrow> c < MAX_PROCESSES"
      using c unfolding cpu_inv_def by blast
    moreover have kc: "current_process ?k = current_process k" "kbd ?k = kbd k" by simp_all
    ultimately show ?thesis unfolding cpu_inv_def kc by (intro conjI)
  qed
  ultimately show ?thesis by (simp only: sys_inv_def)
qed

text \<open>The rest of \<open>process_create\<close>.\<close>

lemma quiet_mm_malloc_kernel: "quiet k (snd (mm_malloc_kernel a k))"
  by (rule quiet_I) (simp_all add: mm_malloc_kernel_def case_prod_beta)

lemma settled_fill:
  assumes "settled k" and "is_free k slot"
  shows "settled (upd_proc slot f (k\<lparr>next_pid := n\<rparr>))"
  using assms by (auto simp: settled_def on_cpu_def)

lemma fill_pcb_quiet:
  "\<exists>f. quiet (upd_proc slot f (k\<lparr>next_pid := next_pid k + 1\<rparr>)) (fill_pcb nm ent ac acopy blk fg sp slot k) \<and>
     (\<forall>p. pid (f p) = next_pid k + 1 \<and> priority (f p) = 3 \<and> foreground (f p) = fg \<and>
        pstate (f p) = (if fg AND 2 \<noteq> 0 then PROCESS_BLOCKED else PROCESS_READY))"
proof -
  define f :: "pcb \<Rightarrow> pcb" where "f = (\<lambda>p. p\<lparr>rsp := sp, pid := next_pid k + 1, priority := 3,
                remaining_quanta := 3, wait_ticks := 0,
                pstate := (if fg AND 2 \<noteq> 0 then PROCESS_BLOCKED else PROCESS_READY),
                foreground := fg, pfd := (pfd p)(0 := int 0, 1 := int 1)\<rparr>)"
  define k1 where "k1 = upd_proc slot f (k\<lparr>next_pid := next_pid k + 1\<rparr>)"
  define k2 where "k2 = fd_incref (of_int64 (pfd (proc k1 slot) 0)) k1"
  define k3 where "k3 = fd_incref (of_int64 (pfd (proc k2 slot) 1)) k2"
  let ?k4 = "fill_pcb nm ent ac acopy blk fg sp slot k"
  have k1: "k1 = upd_proc slot (\<lambda>p. p\<lparr>rsp := sp, pid := next_pid (k\<lparr>next_pid := next_pid k + 1\<rparr>), priority := 3,
                remaining_quanta := 3, wait_ticks := 0,
                pstate := (if fg AND 2 \<noteq> 0 then PROCESS_BLOCKED else PROCESS_READY),
                foreground := fg, pfd := (pfd p)(0 := int 0, 1 := int 1)\<rparr>) (k\<lparr>next_pid := next_pid k + 1\<rparr>)"
    by (simp add: k1_def f_def)
  have q3: "quiet k1 k3" unfolding k3_def k2_def by (intro quiet.fd_incref_I quiet_refl)
  have q4: "quiet k3 ?k4"
    unfolding fill_pcb_def Let_def k1 [symmetric] k2_def [symmetric] k3_def [symmetric]
    by (auto intro!: quiet_upd_proc simp: hidden_def)
  have "quiet k1 ?k4" by (rule quiet_trans [OF q3 q4])
  then have "quiet k1 ?k4 \<and> (\<forall>p. pid (f p) = next_pid k + 1 \<and> priority (f p) = 3 \<and> foreground (f p) = fg \<and>
        pstate (f p) = (if fg AND 2 \<noteq> 0 then PROCESS_BLOCKED else PROCESS_READY))"
    by (simp add: f_def)
  then show ?thesis unfolding k1_def by (intro exI [where x = f])
qed

lemma fill_pcb_inv:
  assumes "sys_inv {} k" and "slot < MAX_PROCESSES" and "is_free k slot" and "next_pid k \<noteq> - 1"
  shows "sys_inv {} (scheduler_add slot (fill_pcb nm ent ac acopy blk fg sp slot k))"
    and "settled k \<Longrightarrow> settled (scheduler_add slot (fill_pcb nm ent ac acopy blk fg sp slot k))"
    and "current_process (fill_pcb nm ent ac acopy blk fg sp slot k) = current_process k"
    and "current_process k = None \<Longrightarrow>
      force_switch (fill_pcb nm ent ac acopy blk fg sp slot k) = force_switch k"
proof -
  let ?k4 = "fill_pcb nm ent ac acopy blk fg sp slot k"
  obtain f where q: "quiet (upd_proc slot f (k\<lparr>next_pid := next_pid k + 1\<rparr>)) ?k4"
    and f: "\<And>p. pid (f p) = next_pid k + 1" "\<And>p. priority (f p) = 3" "\<And>p. foreground (f p) = fg"
      "\<And>p. pstate (f p) = (if fg AND 2 \<noteq> 0 then PROCESS_BLOCKED else PROCESS_READY)"
    using fill_pcb_quiet [of slot k nm ent ac acopy blk fg sp] by metis
  let ?k1 = "upd_proc slot f (k\<lparr>next_pid := next_pid k + 1\<rparr>)"
  have i1: "sys_inv {slot} ?k1"
    by (rule inv_fill [OF assms]) (simp add: f)
  have "\<not> is_free ?k1 slot" by (simp add: f)
  then have "\<not> is_free ?k4 slot" using quiet_simps(4) [OF q] by blast
  then show "sys_inv {} (scheduler_add slot ?k4)"
    by (rule inv_add [OF quiet_inv [OF i1 q] assms(2)])
  show "settled (scheduler_add slot ?k4)" if "settled k"
  proof -
    have "settled ?k1" using that assms(3) by (rule settled_fill)
    then have "settled ?k4" using q unfolding quiet_def by blast
    then show ?thesis by (auto simp: settled_def on_cpu_def)
  qed
  show "current_process ?k4 = current_process k"
    using quiet_simps(1) [OF q] by simp
  show "force_switch ?k4 = force_switch k" if "current_process k = None"
    using q that by (simp add: quiet_def)
qed

lemma process_create_cases:
  obtains (full) "process_create nm ent ac av fg k = (- 1, k)"
  | (failed) k' where "quiet k k'" "process_create nm ent ac av fg k = (- 1, k')"
  | (created) slot k' sp acopy blk where "slot < MAX_PROCESSES" "is_free k slot"
      "\<And>i. i < slot \<Longrightarrow> \<not> is_free k i" "quiet k k'"
      "snd (process_create nm ent ac av fg k) = scheduler_add slot (fill_pcb nm ent ac acopy blk fg sp slot k')"
      "fst (process_create nm ent ac av fg k) =
         to_int (pid (proc (scheduler_add slot (fill_pcb nm ent ac acopy blk fg sp slot k')) slot))"
proof (cases "first_slot MAX_PROCESSES (\<lambda>i. is_free k i)")
  case None
  then show thesis using full by (simp add: process_create_def)
next
  case (Some slot)
  note slot = first_slot_SomeD [OF Some]
  obtain base k0 where b: "mm_malloc_kernel 4096 k = (base, k0)" by fastforce
  define k1 where "k1 = upd_proc slot (\<lambda>p. p\<lparr>stack_base := base\<rparr>) k0"
  have q1: "quiet k k1" unfolding k1_def
    using quiet_mm_malloc_kernel [of k 4096] b by (intro quiet.proc_I) (simp_all add: harmless_def)
  let ?st = "\<lambda>acopy k2. build_initial_stack (base + 4096) (trampoline k2) ac acopy (qmem k2)"
  have body: thesis if "quiet k k2"
    "process_create nm ent ac av fg k =
       (to_int (pid (proc (scheduler_add slot (fill_pcb nm ent ac acopy blk fg (fst (?st acopy k2)) slot (k2\<lparr>qmem := snd (?st acopy k2)\<rparr>))) slot)),
        scheduler_add slot (fill_pcb nm ent ac acopy blk fg (fst (?st acopy k2)) slot (k2\<lparr>qmem := snd (?st acopy k2)\<rparr>)))"
    for acopy blk k2
  proof (rule created [OF slot(1,2)])
    show "quiet k (k2\<lparr>qmem := snd (?st acopy k2)\<rparr>)"
      by (rule quiet_trans [OF that(1)]) (rule quiet_I, simp_all)
  qed (use slot(3) that(2) in simp_all)
  show thesis
  proof (cases "base = 0")
    case True
    then show thesis using q1 by (intro failed [of k1]) (simp_all add: process_create_def Some b k1_def Let_def)
  next
    case base: False
    show thesis
    proof (cases "av = None \<or> \<not> ac > 0")
      case True
      then show thesis using base
        by (intro body [OF q1, of 0 "([], [])"])
          (auto simp: process_create_def Some b k1_def Let_def case_prod_beta split: option.split)
    next
      case False
      then obtain strs where strs: "av = Some strs" "ac > 0" by auto
      obtain a k2 where a: "mm_malloc_kernel (argv_size ac strs) k1 = (a, k2)" by fastforce
      have q2: "quiet k k2"
        using quiet_trans [OF q1 quiet_mm_malloc_kernel [of k1 "argv_size ac strs"]] a by simp
      obtain ps pool where pp: "argv_copy (a + 8 * of_int64 (ac + 1)) (take (nat ac) strs) = (ps, pool)"
        by fastforce
      show thesis
      proof (cases "a = 0")
        case True
        then show thesis using base strs a q2 unfolding k1_def
          by (intro failed [OF mm_free_I [of k k2 base]])
            (simp_all add: process_create_def Some b Let_def case_prod_beta)
      next
        case False
        then show thesis using base strs a pp unfolding k1_def
          by (intro body [OF q2, of a "(ps @ [0], pool)"])
            (simp add: process_create_def Some b Let_def case_prod_beta)
      qed
    qed
  qed
qed

lemma process_create_sys_inv:
  assumes "sys_inv {} k" and "next_pid k \<noteq> - 1"
  shows "sys_inv {} (snd (process_create nm ent ac av fg k))"
    and "settled k \<Longrightarrow> settled (snd (process_create nm ent ac av fg k))"
    and "current_process (snd (process_create nm ent ac av fg k)) = current_process k"
    and "current_process k = None \<Longrightarrow> force_switch (snd (process_create nm ent ac av fg k)) = force_switch k"
proof -
  let ?k = "snd (process_create nm ent ac av fg k)"
  have "sys_inv {} ?k \<and> (settled k \<longrightarrow> settled ?k) \<and> current_process ?k = current_process k \<and>
    (current_process k = None \<longrightarrow> force_switch ?k = force_switch k)"
  proof (cases rule: process_create_cases [of nm ent ac av fg k])
    case full
    with assms(1) show ?thesis by simp
  next
    case (failed k')
    with quiet_inv [OF assms(1) failed(1)] show ?thesis by (simp add: quiet_def)
  next
    case (created slot k' sp acopy blk)
    note q = quiet_simps [OF created(4)]
    note f = fill_pcb_inv [OF quiet_inv [OF assms(1) created(4)] created(1), unfolded q, OF created(2) assms(2)]
    have "settled k \<longrightarrow> settled k'" "current_process k = None \<longrightarrow> force_switch k' = force_switch k"
      using created(4) by (simp_all add: quiet_def)
    then show ?thesis unfolding created(5) using f by simp
  qed
  then show "sys_inv {} ?k" "settled k \<Longrightarrow> settled ?k" "current_process ?k = current_process k"
    "current_process k = None \<Longrightarrow> force_switch ?k = force_switch k"
    by blast+
qed

lemma process_create_inv:
  assumes "mid_inv k" and "next_pid k \<noteq> - 1"
  shows "mid_inv (snd (process_create nm ent ac av fg k))"
  using assms process_create_sys_inv [of k nm ent ac av fg] by (simp add: mid_inv_def)

end
