(* ===== verification/Exceptions.thy ===== *)
theory Exceptions
  imports Syscalls
begin

text \<open>
  The two exceptions the kernel handles, division by zero and invalid opcode: the macro \<open>exceptionHandler\<close> of
  \<open>asm/interrupts.asm\<close> around \<open>Kernel/c/interrupts/exceptions.c\<close>.

  The handler shows the registers and waits for ENTER with the interrupts on, so that other
  gates run in between. It is modelled in three parts: what happens before the wait, one round of the wait,
  and what happens after it.
\<close>

section \<open>The screen\<close>

abbreviation WHITE :: u32 where "WHITE \<equiv> 0xFFFFFF"

definition exceptionMessage :: "char list list" where
  "exceptionMessage = [''zeroDivision Exception!'', ''invalidOpcode Exception!'']"

definition regs :: "char list list" where
  "regs = [''RAX: 0x'', ''RBX: 0x'', ''RCX: 0x'', ''RDX: 0x'', ''RBP: 0x'', ''RDI: 0x'', ''RSI: 0x'',
     ''R8 : 0x'', ''R9 : 0x'', ''R10: 0x'', ''R11: 0x'', ''R12: 0x'', ''R13: 0x'', ''R14: 0x'', ''R15: 0x'',
     ''RIP: 0x'', ''CS : 0x'', ''RFL: 0x'', ''RSP: 0x'', ''SS : 0x'']"

definition printHex64 :: "u64 \<Rightarrow> video \<Rightarrow> video" where
  "printHex64 val v = videoPrint (Some (printHex64_text val)) WHITE v"

definition printRegistersSnapshot :: "(nat \<Rightarrow> u64) \<Rightarrow> video \<Rightarrow> video" where
  "printRegistersSnapshot r v =
     fold (\<lambda>i v. newLine (printHex64 (r i) (videoPrint (Some (regs ! i)) WHITE v))) [0..<20] v"

text \<open>\<open>exceptionHandler\<close> up to \<open>_sti\<close>\<close>

definition exceptionHandler :: "char list \<Rightarrow> kernel \<Rightarrow> kernel" where
  "exceptionHandler msg k =
     (let v = newLine (videoPrint (Some msg) WHITE (newLine (video k)));
          v = newLine (videoPrint (Some ''Snapshot de registros:'') WHITE v);
          v = printRegistersSnapshot (regsArray (kbd k)) v
      in k\<lparr>video := newLine (videoPrint (Some ''Presiona ENTER para continuar...'') WHITE v)\<rparr>)"

text \<open>One round of \<open>do \<dots> while ((c = getFromBuffer()) != '\n')\<close>: whether it was the last one.\<close>

definition exception_wait :: "kernel \<Rightarrow> bool \<times> kernel" where
  "exception_wait k =
     (let (c, b) = getFromBuffer (kbd k) in (c = CHR ''\<newline>'', upd_kbd (\<lambda>_. b) k))"

section \<open>The gate\<close>

text \<open>\<open>exceptionsArray\<close>: the message of the handler, where there is one.\<close>

definition exceptionsArray :: "char list option list" where
  "exceptionsArray = [Some (exceptionMessage ! 0), None, None, None, None, None, Some (exceptionMessage ! 1)]"

definition exceptionDispatcher :: "nat \<Rightarrow> kernel \<Rightarrow> kernel" where
  "exceptionDispatcher ex k =
     (case exceptionsArray ! ex of None \<Rightarrow> k | Some msg \<Rightarrow> exceptionHandler msg k)"

definition exception_enter :: "nat \<Rightarrow> u64 \<Rightarrow> kernel \<Rightarrow> kernel" where
  "exception_enter ex sp k =
     exceptionDispatcher ex (upd_kbd (\<lambda>b. b\<lparr>regsArray := take_snapshot sp (qmem k) (regsArray b)\<rparr>) k)"

text \<open>
  \<open>getStackBase\<close>, \<open>endOfKernel\<close> being set by the linker. After the wait the handler ends the line, and the
  macro writes this address and that of the user program over the stack and instruction pointers of the frame: the
  process starts again at the beginning of the shell.
\<close>

definition getStackBase :: "u64 \<Rightarrow> u64" where
  "getStackBase endOfKernel = endOfKernel + 0x1000 * 8 - 8"

definition exception_leave :: "u64 \<Rightarrow> u64 \<Rightarrow> kernel \<Rightarrow> kernel" where
  "exception_leave endOfKernel sp k =
     k\<lparr>video := newLine (video k),
       qmem := (qmem k)(sp + 18 * 8 := getStackBase endOfKernel, sp + 15 * 8 := sampleCodeModuleAddress)\<rparr>"

end
