(* ===== verification/Inv_Steps.thy ===== *)
theory Inv_Steps
  imports Inv_Process Exceptions
begin

text \<open>
  The kernel as a transition system: the timer, the keyboard and the system calls, each from
  the interrupt to the \<open>iretq\<close>. Every step keeps the invariant, and the kernel that
  \<open>initializeKernelBinary\<close> and \<open>scheduler_start\<close> produce satisfies it.
\<close>

section \<open>The handlers\<close>

lemma check_yield_inv:
  assumes "mid_inv k"
  shows "kernel_inv (snd (check_yield sp k))"
proof (cases "force_switch k")
  case True
  obtain c where "current_process k = Some c" using assms by (auto simp: mid_inv_def)
  then have "kernel_inv (snd (scheduler_yield_impl sp (k\<lparr>force_switch := False\<rparr>)))"
    using assms by (intro yield_inv) (simp_all add: mid_inv_def)
  with True show ?thesis by (simp add: check_yield_def)
next
  case False
  with assms show ?thesis by (simp add: check_yield_def kernel_inv_def mid_inv_def settled_def)
qed

text \<open>
  The calls that the invariant needs to exclude: killing idle, an exit of idle, and a creation
  when the PID counter is about to wrap around.
\<close>

fun allowed :: "syscall \<Rightarrow> kernel \<Rightarrow> bool" where
  "allowed (Sys_kill n) k = (n \<noteq> 1)"
| "allowed (Sys_exit _) k = (sys_getpid k \<noteq> 1)"
| "allowed (Sys_create_process _ _ _ _ _) k = (next_pid k \<noteq> - 1)"
| "allowed _ k = True"

lemma quiet_waitpid:
  assumes "kernel_inv k"
  shows "quiet k (snd (process_waitpid n k))"
proof (cases "process_get n k")
  case None
  then show ?thesis by (simp add: process_waitpid_def quiet_refl)
next
  case (Some p)
  obtain c where c: "on_cpu k c" "current_process k = Some c" using assms by (auto simp: kernel_inv_def on_cpu_def)
  have z: "\<not> zombie k p"
    using assms process_get_Some(1) [OF Some] c unfolding kernel_inv_def sys_inv_def cpu_inv_def on_cpu_def
    by (metis option.inject process_state.distinct)
  have "quiet k ((upd_proc c (\<lambda>p. p\<lparr>pstate := PROCESS_BLOCKED, waiting_for := n\<rparr>) k)\<lparr>force_switch := True\<rparr>)"
    using quiet_pstate [where b = True and s = PROCESS_BLOCKED and k = k and i = c
        and f = "\<lambda>p. p\<lparr>pstate := PROCESS_BLOCKED, waiting_for := n\<rparr>"] c(1)
    by (auto simp: on_cpu_def)
  then show ?thesis using Some z c(2) by (simp add: process_waitpid_def Let_def)
qed

lemma quiet_sys_yield:
  assumes "kernel_inv k"
  shows "quiet k (sys_yield k)"
proof -
  obtain c where c: "on_cpu k c" "current_process k = Some c" using assms by (auto simp: kernel_inv_def on_cpu_def)
  show ?thesis
    using quiet_pstate [where b = True and s = PROCESS_READY and k = k and i = c
        and f = "\<lambda>p. p\<lparr>pstate := PROCESS_READY\<rparr>"] c
    by (auto simp: on_cpu_def sys_yield_def process_current_def)
qed

lemma quiet_sys_block: "quiet k (snd (sys_block n k))"
  by (simp add: sys_block_def quiet_refl quiet_process_block quiet_process_unblock split: option.split)

lemma quiet_syscall:
  assumes "kernel_inv k" and "allowed c k"
    and "syscall_no c \<notin> {19, 20, 23, 24}"
  shows "quiet k (snd (snd (do_syscall c k)))"
proof -
  obtain cur where cur: "on_cpu k cur" using assms(1) by (auto simp: kernel_inv_def)
  note steps = quiet.sys_read_R [OF cur] quiet.sys_write_color_R quiet.R_video quiet_mm_free
    quiet_sys_block quiet_process_unblock quiet_sys_yield [OF assms(1)] quiet_waitpid [OF assms(1)]
    quiet.sem_open_R quiet.sem_wait_R quiet.sem_post_R quiet.sem_close_R quiet.sys_pipe_R
    quiet.sys_dup2_R quiet.fd_decref_I quiet.sys_pipe_open_R quiet.process_pipe_setup_R
    quiet.sys_tty_mode_R quiet_refl
  have malloc: "quiet k (snd (mm_malloc a k))" for a
    by (rule quiet_I) (simp_all add: mm_malloc_def case_prod_beta)
  show ?thesis
    using assms(3) by (cases c) (simp_all add: do_syscall.simps ret_defs case_prod_beta steps malloc)
qed

lemma do_syscall_inv:
  assumes "kernel_inv k" and "allowed c k"
  shows "mid_inv (snd (snd (do_syscall c k)))"
proof -
  have m: "mid_inv k" by (rule kernel_inv_mid [OF assms(1)])
  show ?thesis
  proof (cases c)
    case (Sys_create_process nm ent ac av fg)
    with assms(2) process_create_inv [OF m] show ?thesis
      by (simp add: do_syscall.simps ret_defs)
  next
    case (Sys_exit r)
    with assms process_exit_inv show ?thesis by (simp add: do_syscall.simps ret_defs)
  next
    case (Sys_kill n)
    with assms process_kill_inv show ?thesis by (simp add: do_syscall.simps ret_defs)
  next
    case (Sys_nice n p)
    with assms process_nice_inv show ?thesis by (simp add: do_syscall.simps ret_defs)
  qed (rule quiet_mid_inv [OF m quiet_syscall [OF assms]]; simp)+
qed

lemma irq128_inv:
  assumes "kernel_inv k" and "allowed (table (unat rax)) k" and "0 \<le> sint rax"
  shows "kernel_inv (snd (snd (irq128 rax table junk sp k)))"
proof -
  have q: "quiet k1 (k1\<lparr>qmem := m\<rparr>)" for k1 m by (rule quiet_I) simp_all
  have "mid_inv (k\<lparr>qmem := m\<rparr>)" for m
    by (rule quiet_mid_inv [OF kernel_inv_mid [OF assms(1)] q])
  moreover have "mid_inv ((snd (snd (do_syscall (table (unat rax)) k)))\<lparr>qmem := m\<rparr>)" for m
    by (rule quiet_mid_inv [OF do_syscall_inv [OF assms(1,2)] q])
  ultimately show ?thesis
    using assms(3) check_yield_inv by (simp add: irq128_def case_prod_beta Let_def)
qed

section \<open>The keyboard interrupt\<close>

lemma quiet_kbd_wake:
  assumes "mid_inv k"
  shows "quiet k (kbd_wake k)"
proof (cases "kbd_waiting_process (kbd k)")
  case None
  then show ?thesis by (simp add: kbd_wake_def quiet_refl)
next
  case (Some p)
  then have "\<not> is_free k p" "\<not> zombie k p"
    using assms unfolding mid_inv_def sys_inv_def cpu_inv_def by blast+
  then have "quiet k (upd_proc p (\<lambda>c. c\<lparr>pstate := PROCESS_READY\<rparr>) k)"
    using quiet_pstate [where b = False and s = PROCESS_READY and k = k and i = p
        and f = "\<lambda>p. p\<lparr>pstate := PROCESS_READY\<rparr>"] by simp
  moreover have "quiet k1 (upd_kbd (\<lambda>b. b\<lparr>kbd_waiting_process := None\<rparr>) k1)" for k1
    by (rule quiet_I) simp_all
  ultimately show ?thesis using Some by (auto simp: kbd_wake_def intro: quiet_trans)
qed

lemma kbd_wake_inv: "mid_inv k1 \<Longrightarrow> mid_inv (kbd_wake k1)"
  using quiet_mid_inv quiet_kbd_wake by blast

lemma upd_kbd_inv: "mid_inv k \<Longrightarrow> waiting_kept f \<Longrightarrow> mid_inv (upd_kbd f k)"
  using quiet_mid_inv quiet.R_kbd by blast

lemma put_video_inv: "mid_inv k \<Longrightarrow> mid_inv (put_video c k)"
  using quiet_mid_inv quiet.R_video unfolding put_video_def by blast

lemma waiting_kept_writeBuff: "waiting_kept (writeBuff c)"
  by (simp add: waiting_kept_def writeBuff_def Let_def)

lemma key_eof_inv: "mid_inv k \<Longrightarrow> mid_inv (key_eof k)"
  unfolding key_eof_def
  by (auto simp: waiting_kept_def intro!: kbd_wake_inv upd_kbd_inv waiting_kept_writeBuff)

lemma key_char_inv: "mid_inv k \<Longrightarrow> mid_inv (key_char c k)"
  unfolding key_char_def
  by (auto simp: waiting_kept_def append_line_def
      intro!: kbd_wake_inv upd_kbd_inv put_video_inv waiting_kept_writeBuff)

lemma foreground_scan_pid:
  assumes "foreground_scan k = (Some i, n, m)"
  shows "i < MAX_PROCESSES \<and> n = pid (proc k i) \<and> \<not> is_free k i \<and> foreground (proc k i) \<noteq> 0"
proof -
  let ?f = "\<lambda>i (idx, tp, n). let p = proc k i
        in if pstate p \<noteq> PROCESS_FREE \<and> foreground p \<noteq> 0 then
             (if pid p > tp then (Some i, pid p, n + 1) else (idx, tp, n + 1))
           else (idx, tp, n)"
  let ?ok = "\<lambda>(idx, tp, n :: nat). case idx of None \<Rightarrow> True
    | Some i \<Rightarrow> i < MAX_PROCESSES \<and> tp = pid (proc k i) \<and> \<not> is_free k i \<and> foreground (proc k i) \<noteq> 0"
  have "?ok (fold ?f l s)" if "set l \<subseteq> {..<MAX_PROCESSES}" "?ok s" for l s
    using that
  proof (induction l arbitrary: s)
    case (Cons x l)
    have "?ok (?f x s)" using Cons.prems by (auto simp: Let_def split: prod.splits)
    then show ?case using Cons.IH [of "?f x s"] Cons.prems(1) by simp
  qed simp
  moreover have "set [0..<MAX_PROCESSES] \<subseteq> {..<MAX_PROCESSES}" by auto
  ultimately have "?ok (fold ?f [0..<MAX_PROCESSES] (None, 0, 0))" by simp
  then show ?thesis
    using assms by (auto simp: foreground_scan_def)
qed

lemma process_kill_foreground_inv:
  assumes "kernel_inv k"
  shows "mid_inv (process_kill_foreground k)"
proof -
  obtain idx n m where s: "foreground_scan k = (idx, n, m)" by (cases "foreground_scan k")
  show ?thesis
  proof (cases idx)
    case None
    then show ?thesis using s assms by (simp add: process_kill_foreground_def kernel_inv_mid)
  next
    case (Some i)
    note i = foreground_scan_pid [OF s [unfolded Some]]
    have si: "sys_inv {} k" using assms by (simp add: kernel_inv_def)
    then obtain d where d: "d < MAX_PROCESSES" "\<not> is_free k d" "pid (proc k d) = 1" "foreground (proc k d) = 0"
      using inv_idle by metis
    have "pids_unique k" using si unfolding sys_inv_def table_inv_def by blast
    then have "n \<noteq> 1" using i d unfolding pids_unique_def by metis
    then have "mid_inv (process_kill n k)" by (rule process_kill_inv [OF assms])
    then show ?thesis using s Some kernel_inv_mid [OF assms] by (simp add: process_kill_foreground_def)
  qed
qed

lemma kernel_inv_quiet:
  assumes "kernel_inv k" and "quiet k k'" and "force_switch k' = force_switch k"
  shows "kernel_inv k'"
  using assms quiet_inv [of "{}" k k'] unfolding kernel_inv_def quiet_def settled_def by blast

lemma handlePressedKey_inv:
  assumes "kernel_inv k"
  shows "mid_inv (handlePressedKey k)"
proof -
  let ?k = "upd_kbd (\<lambda>_. snd (kbd_scancode_read (kbd k))) k"
  have "quiet k ?k" by (rule quiet_I) (simp_all add: kbd_scancode_read_def)
  then have ki: "kernel_inv ?k" by (rule kernel_inv_quiet [OF assms]) simp
  note m = kernel_inv_mid [OF ki]
  have kept: "waiting_kept (\<lambda>b. b\<lparr>shift := v\<rparr>)" "waiting_kept (\<lambda>b. b\<lparr>ctrl := v\<rparr>)"
    "waiting_kept (\<lambda>b. b\<lparr>caps := \<not> caps b\<rparr>)" "waiting_kept (\<lambda>b. (storeSnapshot b)\<lparr>boolRegisters := v\<rparr>)" for v
    by (simp_all add: waiting_kept_def storeSnapshot_def)
  show ?thesis
    unfolding handlePressedKey_def
    using m upd_kbd_inv [OF m] kept process_kill_foreground_inv [OF ki] key_eof_inv [OF m] key_char_inv [OF m]
    by (simp add: case_prod_beta Let_def)
qed

lemma irq01_inv:
  assumes "kernel_inv k"
  shows "kernel_inv (snd (irq01 scancode sp k))"
proof -
  let ?k1 = "upd_kbd (\<lambda>b. b\<lparr>pressed_key := scancode\<rparr>) k"
  let ?k2 = "if scancode = 0x1D
               then upd_kbd (\<lambda>b. b\<lparr>regsArray := take_snapshot sp (qmem ?k1) (regsArray b)\<rparr>) ?k1 else ?k1"
  have "quiet k ?k2" by (rule quiet_I) (simp_all split: if_splits)
  then have "kernel_inv ?k2" by (rule kernel_inv_quiet [OF assms]) simp
  from check_yield_inv [OF handlePressedKey_inv [OF this]] show ?thesis
    by (simp add: irq01_def irqDispatcher_def Let_def)
qed

section \<open>Exceptions\<close>

lemma video_inv: "kernel_inv k \<Longrightarrow> kernel_inv (k\<lparr>video := v\<rparr>)"
  by (rule kernel_inv_quiet [OF _ quiet.R_video]) simp_all

lemma exception_enter_inv:
  assumes "kernel_inv k"
  shows "kernel_inv (exception_enter ex sp k)"
proof -
  have "kernel_inv (upd_kbd (\<lambda>b. b\<lparr>regsArray := r b\<rparr>) k)" for r
    by (rule kernel_inv_quiet [OF assms quiet.R_kbd]) (simp_all add: waiting_kept_def)
  then show ?thesis
    by (auto simp: exception_enter_def exceptionDispatcher_def exceptionHandler_def Let_def video_inv split: option.split)
qed

lemma exception_wait_inv: "kernel_inv k \<Longrightarrow> kernel_inv (snd (exception_wait k))"
  unfolding exception_wait_def case_prod_beta Let_def snd_conv
  by (rule kernel_inv_quiet [OF _ quiet.kbd_const_R]) (simp_all add: getFromBuffer_def)

lemma exception_leave_inv:
  assumes "kernel_inv k"
  shows "kernel_inv (exception_leave e sp k)"
proof -
  have "quiet k (k\<lparr>qmem := m\<rparr>)" for k m by (rule quiet_I) simp_all
  then have "kernel_inv ((k\<lparr>video := v\<rparr>)\<lparr>qmem := m\<rparr>)" for m v
    by (rule kernel_inv_quiet [OF video_inv [OF assms]]) simp
  then show ?thesis unfolding exception_leave_def .
qed

section \<open>Start-up\<close>

lemma sem_init_eq: "\<exists>t. sem_init k = k\<lparr>sem_table := t\<rparr>"
proof -
  have "\<exists>t. fold (\<lambda>i. upd_sem i (f i)) l k = k\<lparr>sem_table := t\<rparr>" for f l
  proof (induction l arbitrary: k)
    case Nil
    show ?case by (intro exI [where x = "sem_table k"]) simp
  next
    case (Cons x l)
    from Cons [of "upd_sem x (f x) k"] show ?case by (auto simp: upd_sem_def)
  qed
  then show ?thesis unfolding sem_init_def .
qed

lemma fd_init_eq: "\<exists>t. fd_init k = k\<lparr>fd_table := t\<rparr>"
proof -
  have "\<exists>t. fold (\<lambda>i. upd_fd i (f i)) l k = k\<lparr>fd_table := t\<rparr>" for f l k
  proof (induction l arbitrary: k)
    case Nil
    show ?case by (intro exI [where x = "fd_table k"]) simp
  next
    case (Cons x l)
    from Cons [of "upd_fd x (f x) k"] show ?case by (auto simp: upd_fd_def)
  qed
  from this [of "\<lambda>_ _. \<lparr>fd_type = FD_NONE, refcount = 0, fd_data = None\<rparr>" "[0..<MAX_FDS]" k]
  show ?thesis by (auto simp: fd_init_def Let_def upd_fd_def)
qed

text \<open>The state in which \<open>initializeKernelBinary\<close> creates the first process.\<close>

definition initial :: "kernel \<Rightarrow> bool" where
  "initial k \<longleftrightarrow> (\<forall>i<MAX_PROCESSES. is_free k i) \<and> next_pid k = 0 \<and> current_process k = None \<and>
     \<not> force_switch k \<and> queue_size k = 0 \<and> queue_idx k = 0 \<and> idle_pcb k = None \<and>
     kbd_waiting_process (kbd k) = None \<and> heap k = boot_heap"

lemma initial_init:
  "initial (sem_init (scheduler_init (pipe_init (fd_init (process_init (mm_init HEAP_START HEAP_SIZE (bss_kernel v tramp m)))))))"
proof -
  have "initial (process_init (mm_init HEAP_START HEAP_SIZE (bss_kernel v tramp m)))"
    by (simp add: initial_def process_init_def mm_init_def bss_kernel_def
        zero_pcb_def zero_kbd_def boot_heap_def ff_init_def)
  moreover have "initial (fd_init k)" if "initial k" for k
    using that fd_init_eq [of k] by (auto simp: initial_def)
  moreover have "initial (sem_init k)" if "initial k" for k
    using that sem_init_eq [of k] by (auto simp: initial_def)
  moreover have "initial (scheduler_init (pipe_init k))" if "initial k" for k
    using that by (simp add: initial_def scheduler_init_def pipe_init_def)
  ultimately show ?thesis by blast
qed

lemma malloc_initial:
  assumes "heap k = boot_heap"
  shows "\<exists>h. mm_malloc_kernel 4096 k = (0x600018, k\<lparr>heap := h\<rparr>)"
  unfolding mm_malloc_kernel_def assms
  by (simp add: boot_heap_def ff_init_def ff_malloc_impl_def align8_def case_prod_beta) blast

text \<open>Idle is created in slot 0 with PID 1, and taken out of the run queue again.\<close>

lemma create_idle:
  assumes "initial k"
  shows "fst (process_create (Some nm) ent 0 None 0 k) = 1"
    and "sys_inv {} (register_idle 1 (snd (process_create (Some nm) ent 0 None 0 k)))"
    and "next_pid (register_idle 1 (snd (process_create (Some nm) ent 0 None 0 k))) = 1"
    and "current_process (register_idle 1 (snd (process_create (Some nm) ent 0 None 0 k))) = None"
    and "\<not> force_switch (register_idle 1 (snd (process_create (Some nm) ent 0 None 0 k)))"
proof -
  have slot: "first_slot MAX_PROCESSES (\<lambda>i. is_free k i) = Some 0"
    using assms by (simp add: first_slot_Some initial_def)
  obtain h where h: "mm_malloc_kernel 4096 k = (0x600018, k\<lparr>heap := h\<rparr>)"
    using malloc_initial assms by (auto simp: initial_def)
  obtain k1 sp where k1: "process_create (Some nm) ent 0 None 0 k =
      (let k' = scheduler_add 0 (fill_pcb (Some nm) ent 0 0 ([], []) 0 sp 0 k1) in (to_int (pid (proc k' 0)), k'))"
    "quiet k k1"
  proof
    let ?k = "upd_proc 0 (\<lambda>p. p\<lparr>stack_base := 0x600018\<rparr>) (k\<lparr>heap := h\<rparr>)"
    let ?st = "build_initial_stack (0x600018 + 4096) (trampoline k) 0 0 (qmem k)"
    show "process_create (Some nm) ent 0 None 0 k =
      (let k' = scheduler_add 0 (fill_pcb (Some nm) ent 0 0 ([], []) 0 (fst ?st) 0 (?k\<lparr>qmem := snd ?st\<rparr>))
       in (to_int (pid (proc k' 0)), k'))"
      by (simp add: process_create_def slot h case_prod_beta Let_def)
    show "quiet k (?k\<lparr>qmem := snd ?st\<rparr>)" by (rule quiet_I) simp_all
  qed
  let ?k4 = "fill_pcb (Some nm) ent 0 0 ([], []) 0 sp 0 k1"
  obtain f where q4: "quiet (upd_proc 0 f (k1\<lparr>next_pid := next_pid k1 + 1\<rparr>)) ?k4"
    and f: "\<And>p. pid (f p) = next_pid k1 + 1" "\<And>p. foreground (f p) = 0" "\<And>p. pstate (f p) = PROCESS_READY"
    using fill_pcb_quiet [of 0 k1 "Some nm" ent 0 0 "([], [])" 0 sp] by auto
  have n: "next_pid k1 = 0" "current_process k1 = None" "\<not> force_switch k1" "queue_size k1 = 0" "queue_idx k1 = 0"
    "idle_pcb k1 = None" "kbd_waiting_process (kbd k1) = None" "\<And>i. i < MAX_PROCESSES \<Longrightarrow> is_free k1 i"
    using assms k1(2) unfolding initial_def quiet_def by auto
  have a: "is_free ?k4 i \<longleftrightarrow> i \<noteq> 0" if "i < MAX_PROCESSES" for i
    using quiet_simps(4) [OF q4, of i] n(8) [OF that] by (simp add: f)
  have b: "pid (proc ?k4 0) = 1" "foreground (proc ?k4 0) = 0" "next_pid ?k4 = 1" "current_process ?k4 = None"
    "\<not> force_switch ?k4" "queue_size ?k4 = 0" "queue_idx ?k4 = 0" "idle_pcb ?k4 = None" "kbd_waiting_process (kbd ?k4) = None"
    using q4 n f unfolding quiet_def by auto
  have nz: "\<not> is_free ?k4 0" "\<not> zombie ?k4 0" "pstate (proc ?k4 0) \<noteq> PROCESS_RUNNING"
    using q4 f unfolding quiet_def by auto
  have rq4: "rq ?k4 = []" using b(6) by (simp add: rq_eq_Nil)
  let ?k5 = "scheduler_add 0 ?k4"
  have rq5: "rq ?k5 = [0]" using b(6,8) rq4 by (simp add: abs_simps insert_desc_def)
  have pc: "process_create (Some nm) ent 0 None 0 k = (1, ?k5)"
    unfolding k1(1) by (simp add: Let_def b(1) to_int_def)
  then show "fst (process_create (Some nm) ent 0 None 0 k) = 1" by simp
  have "first_slot MAX_PROCESSES (\<lambda>i. pid (proc ?k5 i) = 1 \<and> \<not> is_free ?k5 i) = Some 0"
    by (rule first_slot_unique) (use a b(1) in \<open>auto\<close>)
  then have get: "process_get (of_int64 1) ?k5 = Some 0" by (simp add: process_get_def of_int64_def)
  let ?k6 = "(upd_proc 0 (\<lambda>p. p\<lparr>priority := 1, remaining_quanta := 1\<rparr>) ?k5)\<lparr>idle_pcb := Some 0\<rparr>"
  let ?k7 = "scheduler_remove 0 ?k6"
  have reg: "register_idle 1 ?k5 = ?k7"
    by (simp add: register_idle_def get Let_def scheduler_set_idle_def)
  have "rq ?k6 = [0]" using rq5 by (simp add: rq_def)
  then have rq7: "rq ?k7 = []" by (simp add: abs_simps)
  have free7: "is_free ?k7 i \<longleftrightarrow> i \<noteq> 0" if "i < MAX_PROCESSES" for i
    using a [OF that] nz(1) by auto
  have "cursor_ok ?k4" using b(6,7) by (simp add: cursor_ok_def)
  then have "cursor_ok ?k6" using cursor_ok_add [of ?k4 0] by (simp add: cursor_ok_def)
  then have "cursor_ok ?k7" by (rule cursor_ok_remove)
  then have "queue_inv {} ?k7" unfolding queue_inv_def rq7 using free7 by auto
  moreover have "table_inv ?k7"
    unfolding table_inv_def pids_unique_def using free7 a b(1-3) nz by auto
  moreover have "cpu_inv ?k7"
    unfolding cpu_inv_def
  proof (intro conjI allI impI)
    fix i assume i: "i < MAX_PROCESSES" "pstate (proc ?k7 i) = PROCESS_RUNNING \<or> zombie ?k7 i"
    have "pstate (proc ?k7 i) = pstate (proc ?k4 i)" by simp
    then show "current_process ?k7 = Some i" using i a [OF i(1)] nz by (cases "i = 0") auto
  qed (use b(4,9) in simp_all)
  ultimately have "sys_inv {} ?k7" by (simp only: sys_inv_def)
  then show "sys_inv {} (register_idle 1 (snd (process_create (Some nm) ent 0 None 0 k)))"
    by (simp add: pc reg)
  show "next_pid (register_idle 1 (snd (process_create (Some nm) ent 0 None 0 k))) = 1"
    "current_process (register_idle 1 (snd (process_create (Some nm) ent 0 None 0 k))) = None"
    "\<not> force_switch (register_idle 1 (snd (process_create (Some nm) ent 0 None 0 k)))"
    using b(3-5) by (simp_all add: pc reg)
qed

lemma scheduler_start_inv:
  assumes "sys_inv {} k" and "current_process k = None" and "\<not> force_switch k"
  shows "kernel_inv (snd (scheduler_start k)) \<and> fst (scheduler_start k) \<noteq> None"
proof -
  obtain n j where n: "scheduler_next_ready k = (Some n, k\<lparr>queue_idx := j\<rparr>)"
    "sys_inv {} (k\<lparr>queue_idx := j\<rparr>)" "n < MAX_PROCESSES" "\<not> is_free k n" "\<not> zombie k n"
    by (rule inv_next_ready [OF assms(1)])
  let ?k = "k\<lparr>queue_idx := j\<rparr>"
  have "pstate (proc ?k i) \<noteq> PROCESS_RUNNING \<and> \<not> zombie ?k i" if "i < MAX_PROCESSES" for i
    using assms(1,2) that unfolding sys_inv_def cpu_inv_def by auto
  then have d: "sys_inv {} (snd (dispatch n ?k))" "on_cpu (snd (dispatch n ?k)) n"
    "\<not> force_switch (snd (dispatch n ?k))"
    using inv_dispatch [OF n(2,3)] n(4,5) assms(3) by simp_all
  then have "kernel_inv (snd (dispatch n ?k))" by (auto simp: kernel_inv_def)
  moreover have "quiet (snd (dispatch n ?k)) (snd (scheduler_start k))"
    by (rule quiet_I) (simp_all add: scheduler_start_def n(1) dispatch_def process_set_current_def Let_def)
  moreover have "force_switch (snd (scheduler_start k)) = force_switch (snd (dispatch n ?k))"
    by (simp add: scheduler_start_def n(1) dispatch_def process_set_current_def Let_def)
  ultimately have "kernel_inv (snd (scheduler_start k))" by (rule kernel_inv_quiet)
  then show ?thesis by (simp add: scheduler_start_def n(1) Let_def)
qed

lemma boot_kernel_inv: "kernel_inv (snd (boot v tramp idle_entry m)) \<and> fst (boot v tramp idle_entry m) \<noteq> None"
proof -
  let ?k = "sem_init (scheduler_init (pipe_init (fd_init (process_init (mm_init HEAP_START HEAP_SIZE (bss_kernel v tramp m))))))"
  obtain k1 where k1: "process_create (Some ''idle'') idle_entry 0 None 0 ?k = (1, k1)"
    using create_idle(1) [OF initial_init] by (metis prod.collapse)
  note i = create_idle(2-5) [OF initial_init [of v tramp m], of "''idle''" idle_entry, unfolded k1 snd_conv]
  let ?k3 = "snd (process_create (Some ''shell'') sampleCodeModuleAddress 0 None 1 (register_idle 1 k1))"
  have eq: "initializeKernelBinary idle_entry (bss_kernel v tramp m) = ?k3"
    unfolding initializeKernelBinary_def Let_def k1 prod.case ..
  have n: "next_pid (register_idle 1 k1) \<noteq> - 1" using i(2) by simp
  note c = process_create_sys_inv [OF i(1) n, of "Some ''shell''" sampleCodeModuleAddress 0 None 1]
  show ?thesis unfolding boot_def eq
    by (rule scheduler_start_inv) (use c i in simp_all)
qed

section \<open>Runs of the kernel\<close>

text \<open>
  One step: an interrupt, a system call or one of the three parts of an exception, whatever its parameters,
  with the restrictions of \<open>allowed\<close>. The call number is non-negative: a negative one leaves the model (see
  \<open>irq128\<close>). The handlers run with the interrupts off but for two waits: that of an exception for
  ENTER, which is a step of its own, and that of \<open>sys_beep\<close>, which has touched nothing of this state before
  it, so that the call counts as the step of its end.
\<close>

inductive kernel_step :: "kernel \<Rightarrow> kernel \<Rightarrow> bool" where
  timer: "kernel_step k (snd (irq00 sp k))"
| keyboard: "kernel_step k (snd (irq01 scancode sp k))"
| system_call: "0 \<le> sint rax \<Longrightarrow> allowed (table (unat rax)) k \<Longrightarrow>
    kernel_step k (snd (snd (irq128 rax table junk sp k)))"
| exception: "kernel_step k (exception_enter ex sp k)"
| exception_waits: "kernel_step k (snd (exception_wait k))"
| exception_ends: "kernel_step k (exception_leave endOfKernel sp k)"

inductive reachable :: "kernel \<Rightarrow> bool" where
  booted: "reachable (snd (boot v tramp idle_entry m))"
| step: "reachable k \<Longrightarrow> kernel_step k k' \<Longrightarrow> reachable k'"

lemma kernel_step_inv: "kernel_step k k' \<Longrightarrow> kernel_inv k \<Longrightarrow> kernel_inv k'"
  by (induction rule: kernel_step.induct) (simp_all add: irq00_def irq00_inv irq01_inv irq128_inv exception_enter_inv exception_wait_inv exception_leave_inv)

lemma reachable_inv: "reachable k \<Longrightarrow> kernel_inv k"
  by (induction rule: reachable.induct) (auto intro: kernel_step_inv simp: boot_kernel_inv)


end
