(* ===== verification/Demo.thy ===== *)
theory Demo
  imports Inv_Steps
begin

text \<open>
  Concrete states at which the properties are instantiated: a screen of 1024 x 768 with 24 bits
  per pixel, and a kernel with idle, the shell (in the foreground, running) and a child of it.
\<close>

definition demo_video :: video where
  "demo_video = \<lparr>v_width = 1024, v_height = 768, v_pitch = 3072, v_bpp = 24, fb = (\<lambda>_. 0),
     currentX = 0, currentY = 0, defaultTextSize = 1, font = (\<lambda>_ _. 0)\<rparr>"

definition demo_idle :: pcb where
  "demo_idle = zero_pcb\<lparr>pid := 1, priority := 1, remaining_quanta := 1, pstate := PROCESS_READY\<rparr>"

definition demo_shell :: pcb where
  "demo_shell = zero_pcb\<lparr>pid := 2, priority := 3, remaining_quanta := 3, pstate := PROCESS_RUNNING,
     foreground := 1\<rparr>"

definition demo_child :: pcb where
  "demo_child = zero_pcb\<lparr>pid := 3, priority := 5, remaining_quanta := 5, pstate := PROCESS_READY,
     parent_pid := 2\<rparr>"

definition demo :: kernel where
  "demo = (bss_kernel demo_video 0 (\<lambda>_. 0))\<lparr>
     process_table := (\<lambda>i. if i = 0 then demo_idle else if i = 1 then demo_shell
                           else if i = 2 then demo_child else zero_pcb),
     next_pid := 3, current_process := Some 1, run_queue := (\<lambda>i. if i = 0 then 2 else 1),
     queue_size := 2, queue_idx := 1, idle_pcb := Some 0, heap := boot_heap\<rparr>"

lemmas demo_pcbs = demo_idle_def demo_shell_def demo_child_def zero_pcb_def

lemma demo_simps [simp]:
  "process_table demo 0 = demo_idle" "process_table demo (Suc 0) = demo_shell" "process_table demo 2 = demo_child"
  "3 \<le> i \<Longrightarrow> process_table demo i = zero_pcb"
  "next_pid demo = 3" "current_process demo = Some 1" "queue_size demo = 2" "queue_idx demo = 1"
  "run_queue demo 0 = 2" "run_queue demo (Suc 0) = 1" "idle_pcb demo = Some 0" "\<not> force_switch demo"
  "heap demo = boot_heap" "kbd demo = zero_kbd" "video demo = demo_video"
  by (simp_all add: demo_def bss_kernel_def)

lemma rq_demo: "rq demo = [2, 1]"
  by (simp add: rq_def cells_def demo_def upt_rec)

lemma demo_slots: "is_free demo i \<longleftrightarrow> 3 \<le> i"
  by (cases "3 \<le> i") (auto simp: demo_def demo_pcbs)

lemma less3: "i < (3 :: nat) \<longleftrightarrow> i = 0 \<or> i = 1 \<or> i = 2"
  by auto

lemma demo_inv: "kernel_inv demo"
proof -
  have "queue_inv {} demo"
  proof -
    have "set (rq demo) = {i. i < MAX_PROCESSES \<and> \<not> is_free demo i \<and> Some i \<noteq> idle_pcb demo} - {}"
      by (auto simp: rq_demo demo_slots)
    then show ?thesis
      by (simp add: queue_inv_def rq_demo cursor_ok_def demo_pcbs)
  qed
  moreover have "table_inv demo"
  proof -
    have "\<not> is_free demo i \<longleftrightarrow> i = 0 \<or> i = 1 \<or> i = 2" for i
      using less3 [of i] by (simp add: demo_slots not_le)
    then show ?thesis unfolding table_inv_def pids_unique_def by (auto simp: demo_pcbs)
  qed
  moreover have "cpu_inv demo"
  proof -
    have s: "pstate (proc demo i) = (if i = 1 then PROCESS_RUNNING else if i = 0 \<or> i = 2 then PROCESS_READY else PROCESS_FREE)" for i
      by (cases "3 \<le> i") (auto simp: less3 not_le demo_pcbs)
    show ?thesis unfolding cpu_inv_def s by (auto simp: zero_kbd_def)
  qed
  ultimately show ?thesis
    by (auto simp: kernel_inv_def sys_inv_def on_cpu_def demo_pcbs)
qed

end
