(* ===== verification/Wait_Props.thy ===== *)
theory Wait_Props
  imports Demo
begin

text \<open>
  How the end of a process reaches the parent that waits for it: what the release of semaphores,
  pipes and descriptors leaves alone, and the states of the two processes after \<open>process_exit\<close> and
  \<open>process_kill\<close>.
\<close>

section \<open>The release does not touch the wait\<close>

text \<open>
  READY or BLOCKED, what a process waits for, whose child it is, and where its registers are saved.
\<close>

definition off_cpu :: "kernel \<Rightarrow> nat \<Rightarrow> bool" where
  "off_cpu k i \<longleftrightarrow> pstate (proc k i) = PROCESS_READY \<or> pstate (proc k i) = PROCESS_BLOCKED"

definition calm :: "kernel \<Rightarrow> kernel \<Rightarrow> bool" where
  "calm k k' \<longleftrightarrow> qmem k' = qmem k \<and> current_process k' = current_process k \<and>
     (\<forall>i. pid (proc k' i) = pid (proc k i) \<and> parent_pid (proc k' i) = parent_pid (proc k i) \<and>
          waiting_for (proc k' i) = waiting_for (proc k i) \<and> rsp (proc k' i) = rsp (proc k i) \<and>
          (is_free k' i \<longleftrightarrow> is_free k i) \<and> (off_cpu k i \<longrightarrow> off_cpu k' i))"

lemma calm_refl: "calm k k"
  by (simp add: calm_def)

lemma calm_trans: "calm k k1 \<Longrightarrow> calm k1 k2 \<Longrightarrow> calm k k2"
  by (simp add: calm_def)

lemma calm_get: "calm k k' \<Longrightarrow> process_get n k' = process_get n k"
  by (rule process_get_cong) (simp add: calm_def)

lemma calm_same:
  assumes "process_table k' = process_table k" "qmem k' = qmem k" "current_process k' = current_process k"
  shows "calm k k'"
  using assms by (simp add: calm_def off_cpu_def)

lemma calm_upd_proc: "harmless f \<Longrightarrow> calm k (upd_proc i f k)"
  by (auto simp: calm_def harmless_def off_cpu_def)

lemma calm_block: "calm k (process_block n k)"
  by (auto simp: calm_def off_cpu_def process_block_def Let_def split: option.split)

lemma calm_unblock: "calm k (process_unblock n k)"
  by (auto simp: calm_def off_cpu_def process_unblock_def Let_def split: option.split)

interpretation calm: sem_frame calm
proof
  show "calm k (upd_sem i f k)" for k i f by (rule calm_same) simp_all
  show "calm k (set_fault e k)" for k e by (rule calm_same) simp_all
  show "calm k (set_fault Spin k)" for k by (rule calm_same) simp_all
qed (blast intro: calm_refl calm_trans calm_upd_proc calm_block calm_unblock)+

interpretation calm: pipe_frame calm
proof
  show "calm k (upd_pipe i f k)" for k i f by (rule calm_same) simp_all
qed

interpretation calm: fd_frame calm
proof
  show "calm k (upd_fd i f k)" for k i f by (rule calm_same) simp_all
qed

lemma calm_kbd_I: "calm k k1 \<Longrightarrow> calm k (upd_kbd f k1)"
  using calm_trans [OF _ calm_same] by simp

lemma calm_mm_free_I: "calm k k1 \<Longrightarrow> calm k (mm_free a k1)"
  using calm_trans [OF _ calm_same] by (auto simp: mm_free_def split: option.split)

section \<open>The release wakes, and never blocks\<close>

definition is_ready :: "kernel \<Rightarrow> nat \<Rightarrow> bool" where
  "is_ready k i \<longleftrightarrow> pstate (proc k i) = PROCESS_READY"

lemma ready_cong: "process_table k' = process_table k \<Longrightarrow> is_ready k' i = is_ready k i"
  by (simp add: is_ready_def)

lemma ready_unblock: "is_ready k i \<Longrightarrow> is_ready (process_unblock n k) i"
  by (auto simp: is_ready_def process_unblock_def Let_def split: option.split)

lemma ready_wake_reader: "is_ready k i \<Longrightarrow> is_ready (pipe_wake_reader p k) i"
  by (auto simp: pipe_wake_reader_def case_prod_beta is_ready_def [symmetric]
      intro!: ready_unblock) (simp add: is_ready_def)

lemma ready_wake_writer: "is_ready k i \<Longrightarrow> is_ready (pipe_wake_writer p k) i"
  by (auto simp: pipe_wake_writer_def case_prod_beta is_ready_def [symmetric]
      intro!: ready_unblock) (simp add: is_ready_def)

lemma ready_wake_all_readers: "is_ready k i \<Longrightarrow> is_ready (pipe_wake_all_readers p k) i"
proof (induction p k rule: pipe_wake_all_readers.induct)
  case (1 p k)
  then show ?case by (subst pipe_wake_all_readers.simps) (auto intro: ready_wake_reader)
qed

lemma ready_wake_all_writers: "is_ready k i \<Longrightarrow> is_ready (pipe_wake_all_writers p k) i"
proof (induction p k rule: pipe_wake_all_writers.induct)
  case (1 p k)
  then show ?case by (subst pipe_wake_all_writers.simps) (auto intro: ready_wake_writer)
qed

lemma ready_upd_pipe [simp]: "is_ready (upd_pipe p f k) i = is_ready k i"
  "is_ready (upd_fd n g k) i = is_ready k i"
  by (simp_all add: is_ready_def)

lemma ready_maybe_free [simp]: "is_ready (pipe_maybe_free p k) i = is_ready k i"
  by (simp add: pipe_maybe_free_def)

lemma ready_close_read: "is_ready k i \<Longrightarrow> is_ready (pipe_close_read d k) i"
  by (auto simp: pipe_close_read_def Let_def intro!: ready_wake_all_writers split: option.split)

lemma ready_close_write: "is_ready k i \<Longrightarrow> is_ready (pipe_close_write d k) i"
  by (auto simp: pipe_close_write_def Let_def intro!: ready_wake_all_readers split: option.split)

lemma ready_fd_decref: "is_ready k i \<Longrightarrow> is_ready (fd_decref n k) i"
  by (auto simp: fd_decref_def Let_def intro!: ready_close_read ready_close_write split: option.split)

lemma ready_upd_proc: "harmless f \<Longrightarrow> is_ready (upd_proc p f k) i = is_ready k i"
  by (simp add: is_ready_def harmless_def)

lemma ready_release_fds: "is_ready k i \<Longrightarrow> is_ready (process_release_fds d k) i"
  by (auto simp: process_release_fds_def Let_def harmless_def ready_upd_proc intro!: ready_fd_decref
      split: option.split)

section \<open>A process in no queue is left asleep\<close>

text \<open>The release unblocks only PIDs it takes from a queue of a semaphore or of a pipe.\<close>

definition out_of :: "u64 \<Rightarrow> pidq \<Rightarrow> bool" where
  "out_of n q \<longleftrightarrow> q_ok q \<and> n \<notin> set (pids q)"

definition queued_nowhere :: "u64 \<Rightarrow> kernel \<Rightarrow> bool" where
  "queued_nowhere n k \<longleftrightarrow> (\<forall>i. out_of n (sem_queue (sem_table k i)) \<and>
     out_of n (wait_readers (pipe_table k i)) \<and> out_of n (wait_writers (pipe_table k i)))"

definition asleep :: "nat \<Rightarrow> kernel \<Rightarrow> bool" where
  "asleep q k \<longleftrightarrow> pstate (proc k q) = PROCESS_BLOCKED \<and> queued_nowhere (pid (proc k q)) k"

lemma out_of_pop:
  "out_of n q \<Longrightarrow> 0 < q_count q \<Longrightarrow> fst (queue_pop q) \<noteq> n \<and> out_of n (snd (queue_pop q))"
  using pids_queue_pop [of q] by (auto simp: out_of_def queue_pop_ok)

lemma out_of_remove: "out_of n q \<Longrightarrow> out_of n (snd (queue_remove_pid m q))"
  by (simp add: out_of_def queue_remove_pid_ok pids_queue_remove_pid)

lemma out_of_empty [simp]: "out_of n (q\<lparr>q_head := 0, q_tail := 0, q_count := 0\<rparr>)"
  by (simp add: out_of_def q_ok_def pids_def)

lemma asleep_cong:
  assumes "process_table k' = process_table k" "sem_table k' = sem_table k" "pipe_table k' = pipe_table k"
  shows "asleep q k' = asleep q k"
  using assms by (simp add: asleep_def queued_nowhere_def)

lemma asleep_upd_proc:
  "asleep q k \<Longrightarrow> i \<noteq> q \<or> harmless f \<Longrightarrow> asleep q (upd_proc i f k)"
  by (auto simp: asleep_def queued_nowhere_def harmless_def)

lemma asleep_upd_sem:
  "asleep q k \<Longrightarrow> (\<And>n. out_of n (sem_queue (sem_table k i)) \<Longrightarrow> out_of n (sem_queue (f (sem_table k i)))) \<Longrightarrow>
   asleep q (upd_sem i f k)"
  by (simp add: asleep_def queued_nowhere_def)

lemma asleep_upd_pipe:
  "asleep q k \<Longrightarrow>
   (\<And>n. out_of n (wait_readers (pipe_table k i)) \<Longrightarrow> out_of n (wait_writers (pipe_table k i)) \<Longrightarrow>
      out_of n (wait_readers (f (pipe_table k i))) \<and> out_of n (wait_writers (f (pipe_table k i)))) \<Longrightarrow>
   asleep q (upd_pipe i f k)"
  by (simp add: asleep_def queued_nowhere_def)

lemma asleep_unblock:
  assumes "asleep q k" "n \<noteq> pid (proc k q)"
  shows "asleep q (process_unblock n k)"
proof -
  have "proc (process_unblock n k) q = proc k q" if "process_get n k = Some p" for p
  proof -
    have "p \<noteq> q" using process_get_Some [OF that] assms(2) by auto
    then show ?thesis by (simp add: process_unblock_def that Let_def split: option.split)
  qed
  then have "proc (process_unblock n k) q = proc k q"
    by (cases "process_get n k") (simp_all add: process_unblock_def)
  moreover have "sem_table (process_unblock n k) = sem_table k" "pipe_table (process_unblock n k) = pipe_table k"
    by (simp_all add: process_unblock_def Let_def split: option.split)
  ultimately show ?thesis using assms(1) by (simp add: asleep_def queued_nowhere_def)
qed

lemmas asleep_intros = asleep_upd_proc asleep_upd_sem asleep_upd_pipe

lemma asleep_sem_lock: "asleep q k \<Longrightarrow> asleep q (sem_lock i k)"
  by (auto simp: sem_lock_def intro!: asleep_intros) (simp add: asleep_def queued_nowhere_def)

lemma asleep_sem_unlock: "asleep q k \<Longrightarrow> asleep q (sem_unlock i k)"
  by (auto simp: sem_unlock_def intro!: asleep_intros)

lemma asleep_sem_wake:
  assumes "asleep q k" "0 < q_count (sem_queue (sem_table k i))"
  shows "asleep q (sem_wake i k)"
proof -
  obtain m w where p: "queue_pop (sem_queue (sem_table k i)) = (m, w)" by fastforce
  let ?k = "upd_sem i (\<lambda>s. s\<lparr>sem_queue := w\<rparr>) k"
  have m: "m \<noteq> pid (proc k q)"
    using out_of_pop [OF _ assms(2), of "pid (proc k q)"] assms(1) p
    by (simp add: asleep_def queued_nowhere_def)
  have a: "asleep q ?k"
    using out_of_pop [OF _ assms(2)] p by (intro asleep_upd_sem [OF assms(1)]) fastforce
  let ?k2 = "sem_unlock i (case process_get m ?k of None \<Rightarrow> ?k
      | Some w \<Rightarrow> upd_proc w (\<lambda>c. c\<lparr>held_sems := set_sem_bit i (held_sems c)\<rparr>) ?k)"
  have "asleep q ?k2 \<and> pid (proc ?k2 q) = pid (proc k q)"
    using a by (auto simp: harmless_def intro!: asleep_sem_unlock asleep_upd_proc split: option.split)
      (simp_all add: sem_unlock_def)
  then show ?thesis using m unfolding sem_wake_def p Let_def prod.case
    by (intro asleep_unblock) simp_all
qed

lemma asleep_cleanup_one:
  assumes "asleep q k"
  shows "asleep q (sem_cleanup_one p n i k)"
proof -
  let ?k1 = "sem_lock i k"
  have "asleep q (upd_sem i (\<lambda>s. s\<lparr>sem_queue := snd (queue_remove_pid n (sem_queue (sem_table ?k1 i)))\<rparr>) ?k1)"
    by (intro asleep_upd_sem [OF asleep_sem_lock [OF assms]]) (simp add: out_of_remove)
  then show ?thesis using assms
    by (auto simp: sem_cleanup_one_def case_prod_beta Let_def harmless_def
        intro!: asleep_sem_unlock asleep_sem_wake asleep_intros)
qed

lemma asleep_sem_cleanup: "asleep q k \<Longrightarrow> asleep q (sem_cleanup_for_process n k)"
proof -
  have "asleep q k \<Longrightarrow> asleep q (fold (sem_cleanup_one p n) l k)" for p l
    by (induction l arbitrary: k) (simp_all add: asleep_cleanup_one)
  then show "asleep q k \<Longrightarrow> ?thesis"
    by (auto simp: sem_cleanup_for_process_def harmless_def intro!: asleep_upd_proc split: option.split)
qed

lemma asleep_pipe_cleanup: "asleep q k \<Longrightarrow> asleep q (pipe_cleanup_for_process n k)"
proof -
  let ?f = "\<lambda>i k. if \<not> in_use (pipe_table k i) then k
        else upd_pipe i (\<lambda>s. s\<lparr>wait_readers := snd (queue_remove_pid n (wait_readers s)),
                               wait_writers := snd (queue_remove_pid n (wait_writers s))\<rparr>) k"
  have "asleep q k \<Longrightarrow> asleep q (?f i k)" for i k
    by (auto simp: out_of_remove intro!: asleep_upd_pipe)
  then have "asleep q k \<Longrightarrow> asleep q (fold ?f l k)" for l
    by (induction l arbitrary: k) simp_all
  then show "asleep q k \<Longrightarrow> ?thesis" unfolding pipe_cleanup_for_process_def .
qed

lemma asleep_wake_reader:
  assumes "asleep q k"
  shows "asleep q (pipe_wake_reader p k)"
proof (cases "0 < q_count (wait_readers (pipe_table k p))")
  case True
  let ?r = "queue_pop (wait_readers (pipe_table k p))"
  note pop = out_of_pop [OF _ True]
  have "asleep q (upd_pipe p (\<lambda>s. s\<lparr>wait_readers := snd ?r\<rparr>) k)"
    using pop by (intro asleep_upd_pipe [OF assms]) simp
  moreover have "fst ?r \<noteq> pid (proc k q)"
    using pop assms by (simp add: asleep_def queued_nowhere_def)
  ultimately show ?thesis using True
    by (simp add: pipe_wake_reader_def case_prod_beta asleep_unblock)
qed (use assms in \<open>simp add: pipe_wake_reader_def\<close>)

lemma asleep_wake_writer:
  assumes "asleep q k"
  shows "asleep q (pipe_wake_writer p k)"
proof (cases "0 < q_count (wait_writers (pipe_table k p))")
  case True
  let ?r = "queue_pop (wait_writers (pipe_table k p))"
  note pop = out_of_pop [OF _ True]
  have "asleep q (upd_pipe p (\<lambda>s. s\<lparr>wait_writers := snd ?r\<rparr>) k)"
    using pop by (intro asleep_upd_pipe [OF assms]) simp
  moreover have "fst ?r \<noteq> pid (proc k q)"
    using pop assms by (simp add: asleep_def queued_nowhere_def)
  ultimately show ?thesis using True
    by (simp add: pipe_wake_writer_def case_prod_beta asleep_unblock)
qed (use assms in \<open>simp add: pipe_wake_writer_def\<close>)

lemma asleep_wake_all_readers: "asleep q k \<Longrightarrow> asleep q (pipe_wake_all_readers p k)"
proof (induction p k rule: pipe_wake_all_readers.induct)
  case (1 p k)
  then show ?case by (subst pipe_wake_all_readers.simps) (auto intro: asleep_wake_reader)
qed

lemma asleep_wake_all_writers: "asleep q k \<Longrightarrow> asleep q (pipe_wake_all_writers p k)"
proof (induction p k rule: pipe_wake_all_writers.induct)
  case (1 p k)
  then show ?case by (subst pipe_wake_all_writers.simps) (auto intro: asleep_wake_writer)
qed

lemma asleep_maybe_free: "asleep q k \<Longrightarrow> asleep q (pipe_maybe_free p k)"
  by (auto simp: pipe_maybe_free_def pipe_reset_def intro!: asleep_upd_pipe)

lemma asleep_close_read: "asleep q k \<Longrightarrow> asleep q (pipe_close_read d k)"
  by (auto simp: pipe_close_read_def Let_def
      intro!: asleep_maybe_free asleep_wake_all_writers asleep_upd_pipe split: option.split)

lemma asleep_close_write: "asleep q k \<Longrightarrow> asleep q (pipe_close_write d k)"
  by (auto simp: pipe_close_write_def Let_def
      intro!: asleep_maybe_free asleep_wake_all_readers asleep_upd_pipe split: option.split)

lemma asleep_upd_fd [simp]: "asleep q (upd_fd i f k) = asleep q k"
  by (rule asleep_cong) simp_all

lemma asleep_fd_decref: "asleep q k \<Longrightarrow> asleep q (fd_decref n k)"
  by (auto simp: fd_decref_def Let_def intro!: asleep_close_read asleep_close_write split: option.split)

lemma asleep_release_fds: "asleep q k \<Longrightarrow> asleep q (process_release_fds d k)"
  by (auto simp: process_release_fds_def Let_def harmless_def intro!: asleep_fd_decref asleep_upd_proc
      split: option.split)

lemma asleep_kbd [simp]: "asleep q (upd_kbd f k) = asleep q k"
  by (rule asleep_cong) simp_all

section \<open>The parent is woken\<close>

text \<open>
  The parent is READY; and if its PID stood in no queue, it finds the value in the RAX slot of its
  saved frame and waits no more. Otherwise the release of a semaphore or of a pipe may have unblocked
  it before, and its call returns what it found in the frame.
\<close>

definition parent_woken :: "int \<Rightarrow> nat \<Rightarrow> kernel \<Rightarrow> kernel \<Rightarrow> bool" where
  "parent_woken ret q k k' \<longleftrightarrow> is_ready k' q \<and>
     (queued_nowhere (pid (proc k q)) k \<longrightarrow>
        waiting_for (proc k' q) = 0 \<and> qmem k' (rsp (proc k q) + 8 * 14) = of_int64 ret)"

lemma wake_parent_woken:
  assumes "calm k k1" "asleep q k \<Longrightarrow> asleep q k1"
    and "process_get par k = Some q" "pstate (proc k q) = PROCESS_BLOCKED" "waiting_for (proc k q) = n"
  shows "parent_woken ret q k (wake_parent par n ret k1)"
proof -
  have g: "process_get par k1 = Some q" using calm_get [OF assms(1)] assms(3) by simp
  have w: "waiting_for (proc k1 q) = n" "rsp (proc k1 q) = rsp (proc k q)" "off_cpu k1 q"
    using assms(1,4,5) by (simp_all add: calm_def off_cpu_def)
  show ?thesis using w assms(2,4)
    by (auto simp: wake_parent_def g parent_woken_def is_ready_def off_cpu_def asleep_def)
qed

lemma parent_woken_calm:
  assumes "parent_woken ret q k k1" "calm k1 k2" "is_ready k1 q \<Longrightarrow> is_ready k2 q"
  shows "parent_woken ret q k k2"
  using assms by (simp add: parent_woken_def calm_def)

lemma parent_woken_upd_proc [simp]: "i \<noteq> q \<Longrightarrow> parent_woken ret q k (upd_proc i f k1) = parent_woken ret q k k1"
  "parent_woken ret q k (k1\<lparr>force_switch := b\<rparr>) = parent_woken ret q k k1"
  by (simp_all add: parent_woken_def is_ready_def)

lemma parent_woken_free [simp]: "parent_woken ret q k (mm_free a k1) = parent_woken ret q k k1"
  by (simp add: parent_woken_def is_ready_def mm_free_def split: option.split)

lemma parent_woken_remove [simp]: "parent_woken ret q k (scheduler_remove i k1) = parent_woken ret q k k1"
  by (simp add: parent_woken_def is_ready_def)

lemma parent_woken_release: "parent_woken ret q k k1 \<Longrightarrow> parent_woken ret q k (process_release_fds d k1)"
  by (rule parent_woken_calm [OF _ calm.release_fds_I [OF calm_refl] ready_release_fds])

lemma exit_wakes:
  assumes "current_process k = Some c" "q \<noteq> c"
    and q: "process_get (parent_pid (proc k c)) k = Some q" "pstate (proc k q) = PROCESS_BLOCKED"
      "waiting_for (proc k q) = pid (proc k c)"
  shows "parent_woken ret q k (process_exit ret k) \<and>
    pstate (proc (process_exit ret k) c) = PROCESS_ZOMBIE \<and> force_switch (process_exit ret k)"
proof -
  let ?n = "pid (proc k c)"
  define k1 where "k1 = upd_proc c (\<lambda>p. p\<lparr>retval := ret\<rparr>) k"
  define k2 where "k2 = sem_cleanup_for_process (pid (proc k1 c)) k1"
  define k3 where "k3 = pipe_cleanup_for_process (pid (proc k2 c)) k2"
  define k4 where "k4 = process_release_fds (Some c) (upd_kbd (kbd_clear_waiting c) k3)"
  define k5 where "k5 = wake_parent (parent_pid (proc k4 c)) (pid (proc k4 c)) ret k4"
  have eq: "process_exit ret k = (upd_proc c (\<lambda>p. p\<lparr>pstate := PROCESS_ZOMBIE\<rparr>) k5)\<lparr>force_switch := True\<rparr>"
    unfolding process_exit_def assms(1) option.case Let_def k5_def k4_def k3_def k2_def k1_def ..
  have c: "calm k k4" unfolding k4_def k3_def k2_def k1_def
    by (intro calm.release_fds_I calm_kbd_I calm.cleanup_pipes_I calm.sem_cleanup_I
        calm.proc_I calm_refl) (simp add: harmless_def)
  have s: "asleep q k4" if "asleep q k" unfolding k4_def k3_def k2_def k1_def using that assms(2)
    by (intro asleep_release_fds asleep_pipe_cleanup asleep_sem_cleanup asleep_upd_proc
        asleep_kbd [THEN iffD2]) simp_all
  from c have "parent_pid (proc k4 c) = parent_pid (proc k c)" "pid (proc k4 c) = ?n" by (simp_all add: calm_def)
  then have "parent_woken ret q k k5" unfolding k5_def using wake_parent_woken [OF c s q] by simp
  then show ?thesis using assms(2) unfolding eq by simp
qed

lemma kill_wakes:
  assumes "process_get n k = Some c" "\<not> zombie k c" "q \<noteq> c"
    and q: "process_get (parent_pid (proc k c)) k = Some q" "pstate (proc k q) = PROCESS_BLOCKED"
      "waiting_for (proc k q) = n"
  shows "parent_woken (- 1) q k (process_kill n k) \<and>
    pstate (proc (process_kill n k) c) =
      (if current_process k = Some c then PROCESS_ZOMBIE else PROCESS_FREE)"
proof -
  define k1 where "k1 = upd_kbd (kbd_clear_waiting c) (pipe_cleanup_for_process n (sem_cleanup_for_process n
      (upd_proc c (\<lambda>p. p\<lparr>retval := - 1\<rparr>) k)))"
  define k2 where "k2 = wake_parent (parent_pid (proc k1 c)) n (- 1) k1"
  have c1: "calm k k1" unfolding k1_def
    by (intro calm_kbd_I calm.cleanup_pipes_I calm.sem_cleanup_I calm.proc_I calm_refl)
      (simp add: harmless_def)
  have s1: "asleep q k1" if "asleep q k" unfolding k1_def using that assms(3)
    by (intro asleep_pipe_cleanup asleep_sem_cleanup asleep_upd_proc asleep_kbd [THEN iffD2]) simp_all
  from c1 have "parent_pid (proc k1 c) = parent_pid (proc k c)" by (simp add: calm_def)
  then have w: "parent_woken (- 1) q k k2" unfolding k2_def using wake_parent_woken [OF c1 s1 q] by simp
  have cur: "current_process k2 = current_process k"
    using c1 by (auto simp: k2_def wake_parent_def calm_def split: option.split)
  have p: "\<not> is_free k c" by (rule process_get_Some [OF assms(1)])
  show ?thesis
  proof (cases "current_process k = Some c")
    case True
    define k3 where "k3 = process_release_fds (Some c) (upd_proc c (\<lambda>p. p\<lparr>pstate := PROCESS_ZOMBIE\<rparr>) k2)"
    have eq: "process_kill n k = k3\<lparr>force_switch := True\<rparr>"
      unfolding process_kill_def assms(1) option.case Let_def k3_def k2_def k1_def [symmetric]
      using p assms(2) True cur by (simp add: k2_def)
    have "quiet (upd_proc c (\<lambda>p. p\<lparr>pstate := PROCESS_ZOMBIE\<rparr>) k2) k3"
      unfolding k3_def by (intro quiet.release_fds_I quiet_refl)
    then have "zombie k3 c" by (simp add: quiet_def)
    moreover have "parent_woken (- 1) q k k3" unfolding k3_def using w assms(3) by (intro parent_woken_release) simp
    ultimately show ?thesis unfolding eq using True by simp
  next
    case False
    define k3 where "k3 = process_release_fds (Some c) (scheduler_remove c k2)"
    define k4 where "k4 = (if stack_base (proc k3 c) \<noteq> 0 then
        upd_proc c (\<lambda>p. p\<lparr>stack_base := 0\<rparr>) (mm_free (stack_base (proc k3 c)) k3) else k3)"
    define k5 where "k5 = (if argv (proc k4 c) \<noteq> 0 then
        upd_proc c (\<lambda>p. p\<lparr>argv := 0\<rparr>) (mm_free (argv (proc k4 c)) k4) else k4)"
    have eq: "process_kill n k = upd_proc c (\<lambda>p. p\<lparr>pstate := PROCESS_FREE, pid := 0\<rparr>) k5"
      unfolding process_kill_def assms(1) option.case k5_def k4_def k3_def using p assms(2) False cur
      by (simp only: k2_def k1_def Let_def simp_thms if_False) simp
    have "parent_woken (- 1) q k k3" unfolding k3_def using w by (intro parent_woken_release) simp
    then have "parent_woken (- 1) q k k5" using assms(3) by (simp add: k5_def k4_def)
    then show ?thesis unfolding eq using assms(3) False by simp
  qed
qed

section \<open>The property\<close>

text \<open>
  C9: The end of a process reaches the parent that waits for it. If the parent is blocked in
  \<open>waitpid\<close> for the process, then after \<open>process_exit\<close> and after \<open>process_kill\<close> the parent is READY,
  and, when its PID stands in no wait queue of a semaphore or pipe, it finds the exit value (-1 for a
  killed process) in the RAX slot of its saved frame and counts as waiting no more. The process that
  ended is a ZOMBIE and gives the processor up; one that is killed while another runs is gone at once.
\<close>

theorem waiting_parent_is_woken:
  assumes "process_get n k = Some c" and "pstate (proc k c) \<noteq> PROCESS_ZOMBIE"
    and "process_get (parent_pid (proc k c)) k = Some q" and "q \<noteq> c"
    and "pstate (proc k q) = PROCESS_BLOCKED" and "waiting_for (proc k q) = n"
  shows "(current_process k = Some c \<longrightarrow>
      parent_woken ret q k (process_exit ret k) \<and>
      pstate (proc (process_exit ret k) c) = PROCESS_ZOMBIE \<and> force_switch (process_exit ret k)) \<and>
    parent_woken (- 1) q k (process_kill n k) \<and>
    pstate (proc (process_kill n k) c) =
      (if current_process k = Some c then PROCESS_ZOMBIE else PROCESS_FREE)"
proof (intro conjI impI)
  have n: "pid (proc k c) = n" by (rule process_get_Some [OF assms(1)])
  show "parent_woken ret q k (process_exit ret k)" "pstate (proc (process_exit ret k) c) = PROCESS_ZOMBIE"
    "force_switch (process_exit ret k)" if "current_process k = Some c"
    using exit_wakes [OF that assms(4,3,5)] assms(6) n by simp_all
  show "parent_woken (- 1) q k (process_kill n k)" "pstate (proc (process_kill n k) c) =
      (if current_process k = Some c then PROCESS_ZOMBIE else PROCESS_FREE)"
    using kill_wakes [OF assms(1,2,4,3,5,6)] by simp_all
qed

text \<open>The shell of \<open>demo\<close> waits for its child, which runs and exits with 7.\<close>

definition demo_wait :: kernel where
  "demo_wait = (snd (process_waitpid 3 demo))\<lparr>current_process := Some 2\<rparr>"

lemma demo_get: "process_get 2 demo = Some 1" "process_get 3 demo = Some 2"
proof -
  have "pids_unique demo" using demo_inv by (simp add: kernel_inv_def sys_inv_def table_inv_def)
  from process_get_pid [OF this, of 1] process_get_pid [OF this, of 2]
  show "process_get 2 demo = Some 1" "process_get 3 demo = Some 2" by (simp_all add: demo_pcbs)
qed

lemma demo_wait_pcbs:
  "process_get m demo_wait = process_get m demo"
  "proc demo_wait (Suc 0) = demo_shell\<lparr>pstate := PROCESS_BLOCKED, waiting_for := 3\<rparr>"
  "proc demo_wait 2 = demo_child" "is_free demo_wait i = is_free demo i"
  "queued_nowhere m demo_wait"
proof -
  have w: "demo_wait = ((upd_proc 1 (\<lambda>p. p\<lparr>pstate := PROCESS_BLOCKED, waiting_for := 3\<rparr>) demo)
      \<lparr>force_switch := True, current_process := Some 2\<rparr>)"
    by (simp add: demo_wait_def process_waitpid_def demo_get demo_pcbs)
  show "proc demo_wait (Suc 0) = demo_shell\<lparr>pstate := PROCESS_BLOCKED, waiting_for := 3\<rparr>"
    "proc demo_wait 2 = demo_child" by (simp_all add: w)
  show f: "is_free demo_wait i = is_free demo i" for i by (cases "i = 1") (simp_all add: w demo_pcbs)
  have "pid (proc demo_wait i) = pid (proc demo i)" for i by (simp add: w)
  then show "process_get m demo_wait = process_get m demo" by (intro process_get_cong) (simp add: f)
  show "queued_nowhere m demo_wait"
    by (simp add: queued_nowhere_def w demo_def bss_kernel_def zero_pipe_def zero_sem_def out_of_def)
qed

theorem waiting_parent_is_woken_witness:
  "let k = process_exit 7 demo_wait in
   pstate (proc k 1) = PROCESS_READY \<and> pstate (proc k 2) = PROCESS_ZOMBIE \<and> qmem k (8 * 14) = 7"
proof -
  have g: "process_get 3 demo_wait = Some 2"
    "process_get (parent_pid (proc demo_wait 2)) demo_wait = Some 1"
    by (simp_all add: demo_wait_pcbs demo_get demo_child_def)
  have c: "current_process demo_wait = Some 2" by (simp add: demo_wait_def)
  from waiting_parent_is_woken [OF g(1) _ g(2), of 7] show ?thesis
    by (simp add: c demo_wait_pcbs demo_pcbs parent_woken_def is_ready_def Let_def of_int64_def)
qed

end
