(* ===== verification/User_Lib.thy ===== *)
theory User_Lib
  imports Syscalls
begin

text \<open>
  The user library: numbers and strings (\<open>Userland/c/shell/userlib.c\<close>, \<open>tests/test_util.c\<close>), output
  through the buffer from which the screen is redrawn (\<open>shell.c\<close>, \<open>userlib.c\<close>), and the wrappers of
  the system calls (\<open>shell/syscall.c\<close>).

  A user program runs against an environment: \<open>sys_call\<close> answers a system call with the value in RAX
  and what the kernel stored for the caller, and changes the world \<open>'w\<close>, which the program does not
  see. The calls are those of \<open>Syscalls\<close>, so \<open>do_syscall\<close> with the state of the kernel as the world
  is one environment. The globals of the user program are the record \<open>user\<close>. All processes share one
  address space, and others may run while a call blocks: the answer to a call may change the globals.
\<close>

text \<open>
  The globals, those of the MVars (\<open>mvar.c\<close>), of the random numbers (\<open>test_util.c\<close>) and of the tests
  (\<open>global\<close> of \<open>test_sync.c\<close>, \<open>max_value\<close> of \<open>test_prio.c\<close>) too; \<open>umem\<close> is the memory that
  \<open>malloc\<close> hands out. The machine: the gate of the system calls, the traps, the addresses of the
  programs, the bits in which its floating point unit computes.
\<close>

record user_mvar =
  mv_name :: "char list"
  mv_value :: char
  mv_in_use :: bool

record user =
  redrawBuffer :: "nat \<Rightarrow> char \<times> u64"
  redrawLength :: nat
  cursorVisible :: bool
  umvar_table :: "nat \<Rightarrow> user_mvar"
  reclaim :: nat
  m_z :: u32
  m_w :: u32
  sync_global :: u64
  max_value :: u64
  umem :: "u64 \<Rightarrow> u8"

record 'w machine =
  sys_call :: "syscall \<Rightarrow> user \<times> 'w \<Rightarrow> (u64 \<times> outcome) \<times> user \<times> 'w"
  cpu_trap :: "nat \<Rightarrow> user \<times> 'w \<Rightarrow> user \<times> 'w"
  entry_of :: "string \<Rightarrow> u64"
  fpu_bits :: nat

text \<open>A call whose value is used, and one whose value is not.\<close>

definition call :: "'w machine \<Rightarrow> syscall \<Rightarrow> user \<times> 'w \<Rightarrow> (u64 \<times> outcome) \<times> user \<times> 'w" where
  "call m c s = sys_call m c s"

definition call0 :: "'w machine \<Rightarrow> syscall \<Rightarrow> user \<times> 'w \<Rightarrow> user \<times> 'w" where
  "call0 m c s = snd (call m c s)"

definition upd_user :: "(user \<Rightarrow> user) \<Rightarrow> user \<times> 'w \<Rightarrow> user \<times> 'w" where
  "upd_user f s = (f (fst s), snd s)"

text \<open>What a program reads from the variables the kernel stored to.\<close>

fun bytes_of :: "outcome \<Rightarrow> char list" where
  "bytes_of (Bytes b) = b"
| "bytes_of _ = []"

fun fds_of :: "outcome \<Rightarrow> int \<times> int" where
  "fds_of (Fd_Pair r w) = (r, w)"
| "fds_of _ = (0, 0)"

section \<open>Numbers\<close>

text \<open>The loop of \<open>num_to_str\<close>: the digits, least significant first.\<close>

function num_loop :: "u64 \<Rightarrow> u64 \<Rightarrow> char list" where
  "num_loop val base =
     (if val \<noteq> 0 \<and> base \<ge> 2 then digit_char (unat (val mod base)) # num_loop (val div base) base else [])"
  by pat_completeness auto
termination
proof (relation "measure (\<lambda>(v, b). unat v)", simp)
  fix v b :: u64
  assume "v \<noteq> 0 \<and> b \<ge> 2"
  then have "0 < unat v" "2 \<le> unat b" by (simp_all add: unat_gt_0 word_le_nat_alt)
  then show "((v div b, b), v, b) \<in> measure (\<lambda>(v, b). unat v)" by (simp add: unat_div)
qed

declare num_loop.simps [simp del]

text \<open>\<open>num_to_str\<close>: the length, and the bytes written to \<open>dest\<close>.\<close>

definition num_to_str :: "u64 \<Rightarrow> int \<Rightarrow> nat \<times> char list" where
  "num_to_str val base =
     (let base = (if base < 2 \<or> base > 16 then 10 else base);
          tmp = (if val = 0 then ''0'' else num_loop val (of_int64 base))
      in (length tmp, rev tmp @ [NUL]))"

text \<open>The loop of \<open>satoi\<close> from some index on; \<open>res\<close> wraps at 64 bits.\<close>

fun satoi_loop :: "char list \<Rightarrow> u64 \<Rightarrow> u64 option" where
  "satoi_loop [] res = Some res"
| "satoi_loop (c # cs) res =
     (if c = NUL then Some res
      else if of_char c < (48 :: nat) \<or> of_char c > (57 :: nat) then None
      else satoi_loop cs (res * 10 + of_nat (of_char c) - 48))"

definition satoi :: "char list option \<Rightarrow> u64" where
  "satoi str =
     (case str of None \<Rightarrow> 0
      | Some s \<Rightarrow>
          (if rd s = CHR ''-''
           then (case satoi_loop (tl s) 0 of None \<Rightarrow> 0 | Some res \<Rightarrow> res * - 1)
           else (case satoi_loop s 0 of None \<Rightarrow> 0 | Some res \<Rightarrow> res)))"

fun all_digits :: "char list \<Rightarrow> bool" where
  "all_digits [] = True"
| "all_digits (c # cs) =
     (if c = NUL then True
      else if of_char c < (48 :: nat) \<or> of_char c > (57 :: nat) then False else all_digits cs)"

definition is_valid_uint :: "char list option \<Rightarrow> bool" where
  "is_valid_uint str = (case str of None \<Rightarrow> False | Some s \<Rightarrow> if rd s = NUL then False else all_digits s)"

text \<open>
  \<open>adjustHour\<close>: a BCD hour moved by an offset, with which the caller stays above -24: the quotient
  and the remainder are those of numbers that are not negative.
\<close>

definition bcd_value :: "u8 \<Rightarrow> int" where
  "bcd_value b = uint (drop_bit 4 b) * 10 + uint (b AND 0x0F)"

definition to_bcd :: "int \<Rightarrow> u8" where
  "to_bcd n = word_of_int (push_bit 4 (n div 10) OR (n mod 10))"

definition adjustHour :: "u8 \<Rightarrow> int \<Rightarrow> u8" where
  "adjustHour hour offset =
     (let decimalHour = bcd_value hour + offset;
          decimalHour = (if decimalHour < 0 then decimalHour + 24
                         else if decimalHour \<ge> 24 then decimalHour - 24 else decimalHour)
      in to_bcd decimalHour)"

text \<open>\<open>GetUint\<close>\<close>

definition GetUint :: "user \<Rightarrow> u32 \<times> user" where
  "GetUint u =
     (let u = u\<lparr>m_z := 36969 * (m_z u AND 65535) + drop_bit 16 (m_z u)\<rparr>;
          u = u\<lparr>m_w := 18000 * (m_w u AND 65535) + drop_bit 16 (m_w u)\<rparr>
      in (push_bit 16 (m_z u) + m_w u, u))"

section \<open>Strings\<close>

definition user_strlen :: "char list option \<Rightarrow> nat" where
  "user_strlen s = (case s of None \<Rightarrow> 0 | Some b \<Rightarrow> str_len_loop b)"

fun strcmp_loop :: "char list \<Rightarrow> char list \<Rightarrow> int" where
  "strcmp_loop [] b = 0 - int (of_char (rd b))"
| "strcmp_loop (x # xs) b =
     (if x \<noteq> NUL \<and> x = rd b then strcmp_loop xs (tl b) else int (of_char x) - int (of_char (rd b)))"

definition strcmp :: "char list option \<Rightarrow> char list option \<Rightarrow> int" where
  "strcmp a b =
     (case a of
        None \<Rightarrow> (case b of None \<Rightarrow> 0 | Some _ \<Rightarrow> - 1)
      | Some x \<Rightarrow> (case b of None \<Rightarrow> 1 | Some y \<Rightarrow> strcmp_loop x y))"

section \<open>The redraw buffer\<close>

abbreviation (input) REDRAW_BUFF :: nat where "REDRAW_BUFF \<equiv> 4096"
abbreviation (input) STDOUT :: u64 where "STDOUT \<equiv> 1"

definition redraw_reset :: "user \<Rightarrow> user" where
  "redraw_reset u = u\<lparr>redrawLength := 0\<rparr>"

definition redraw_append_char :: "char \<Rightarrow> u64 \<Rightarrow> user \<Rightarrow> user" where
  "redraw_append_char c fd u =
     (let u = (if redrawLength u \<ge> REDRAW_BUFF
               then u\<lparr>redrawBuffer := fold (\<lambda>i b. b(i - 1 := b i)) [1..<redrawLength u] (redrawBuffer u),
                      redrawLength := redrawLength u - 1\<rparr>
               else u)
      in u\<lparr>redrawBuffer := (redrawBuffer u)(redrawLength u := (c, fd)),
           redrawLength := redrawLength u + 1\<rparr>)"

text \<open>\<open>sys_write\<close> of a local buffer.\<close>

definition write_buf :: "'w machine \<Rightarrow> u64 \<Rightarrow> char list \<Rightarrow> user \<times> 'w \<Rightarrow> user \<times> 'w" where
  "write_buf m fd buf s = call0 m (Sys_write fd (Some buf) (of_nat (length buf))) s"

definition shellPutchar :: "'w machine \<Rightarrow> char \<Rightarrow> u64 \<Rightarrow> user \<times> 'w \<Rightarrow> user \<times> 'w" where
  "shellPutchar m c fd s = write_buf m fd [c] (upd_user (redraw_append_char c fd) s)"

fun print_loop :: "'w machine \<Rightarrow> char list \<Rightarrow> user \<times> 'w \<Rightarrow> user \<times> 'w" where
  "print_loop m [] s = s"
| "print_loop m (c # cs) s = (if c = NUL then s else print_loop m cs (shellPutchar m c STDOUT s))"

definition shellPrintString :: "'w machine \<Rightarrow> char list option \<Rightarrow> user \<times> 'w \<Rightarrow> user \<times> 'w" where
  "shellPrintString m str s = (case str of None \<Rightarrow> s | Some b \<Rightarrow> print_loop m b s)"

definition shellNewline :: "'w machine \<Rightarrow> user \<times> 'w \<Rightarrow> user \<times> 'w" where
  "shellNewline m = shellPutchar m (CHR 0x0A) STDOUT"

definition putchar :: "'w machine \<Rightarrow> char \<Rightarrow> user \<times> 'w \<Rightarrow> u64 \<times> user \<times> 'w" where
  "putchar m c s =
     (let s = upd_user (redraw_append_char c STDOUT) s;
          (r, s) = call m (Sys_write STDOUT (Some [c]) 1) s
      in (fst r, s))"

text \<open>
  The loop of \<open>redrawFont\<close> at index \<open>i\<close>: the descriptor of the run, and the bytes collected for it;
  a run is written out when the descriptor changes or 4095 bytes are there.
\<close>

fun redraw_loop :: "'w machine \<Rightarrow> (char \<times> u64) list \<Rightarrow> u64 \<Rightarrow> char list \<Rightarrow> user \<times> 'w \<Rightarrow> user \<times> 'w" where
  "redraw_loop m [] current buf s = (if buf \<noteq> [] then write_buf m current buf s else s)"
| "redraw_loop m ((c, fd) # rest) current buf s =
     (if fd \<noteq> current \<or> length buf \<ge> REDRAW_BUFF - 1
      then redraw_loop m rest fd [c] (if buf \<noteq> [] then write_buf m current buf s else s)
      else redraw_loop m rest current (buf @ [c]) s)"

definition redrawFont :: "'w machine \<Rightarrow> user \<times> 'w \<Rightarrow> user \<times> 'w" where
  "redrawFont m s =
     (let s = call0 m Sys_clear s; u = fst s
      in if redrawLength u = 0 then s
         else redraw_loop m (cells (redrawLength u) (redrawBuffer u)) (snd (redrawBuffer u 0)) [] s)"

definition shellIncreaseFontSize :: "'w machine \<Rightarrow> user \<times> 'w \<Rightarrow> user \<times> 'w" where
  "shellIncreaseFontSize m s = redrawFont m (call0 m Sys_increase_fontsize s)"

definition shellDecreaseFontSize :: "'w machine \<Rightarrow> user \<times> 'w \<Rightarrow> user \<times> 'w" where
  "shellDecreaseFontSize m s = redrawFont m (call0 m Sys_decrease_fontsize s)"


section \<open>Wrappers of system calls (syscall.c)\<close>

definition user_str_eq :: "char list option \<Rightarrow> char list option \<Rightarrow> bool" where
  "user_str_eq a b =
     (case a of None \<Rightarrow> False
      | Some x \<Rightarrow> (case b of None \<Rightarrow> False | Some y \<Rightarrow> str_eq_loop x y))"

definition registry :: "string list" where
  "registry =
     [''endless_loop'', ''endless_loop_print'', ''loop'', ''zero_to_max'', ''my_process_inc'',
      ''test_mm'', ''test_processes'', ''test_prio'', ''test_sync'', ''mem'', ''kill'', ''nice'',
      ''block'', ''sh'', ''cat'', ''wc'', ''mvar'', ''mvar_writer'', ''mvar_reader'', ''filter'', ''help'']"

definition my_create_process_fg ::
    "'w machine \<Rightarrow> char list option \<Rightarrow> u64 \<Rightarrow> char list option list \<Rightarrow> u8 \<Rightarrow> user \<times> 'w \<Rightarrow> int \<times> user \<times> 'w" where
  "my_create_process_fg m nm ac av fg s =
     (case find (\<lambda>e. user_str_eq (Some e) nm) registry of
        None \<Rightarrow> (- 1, s)
      | Some e \<Rightarrow>
          let (r, s) = call m (Sys_create_process nm (entry_of m e) ac (Some av) (ucast fg)) s
          in (sint (fst r), s))"

definition my_create_process ::
    "'w machine \<Rightarrow> char list option \<Rightarrow> u64 \<Rightarrow> char list option list \<Rightarrow> user \<times> 'w \<Rightarrow> int \<times> user \<times> 'w" where
  "my_create_process m nm ac av s = my_create_process_fg m nm ac av 0 s"

definition my_wait :: "'w machine \<Rightarrow> int \<Rightarrow> user \<times> 'w \<Rightarrow> int \<times> user \<times> 'w" where
  "my_wait m p s = (let (r, s) = call m (Sys_waitpid (of_int64 p)) s in (sint (fst r), s))"

definition my_sem_open :: "'w machine \<Rightarrow> char list \<Rightarrow> u64 \<Rightarrow> user \<times> 'w \<Rightarrow> int \<times> user \<times> 'w" where
  "my_sem_open m nm v s = (let (r, s) = call m (Sys_sem_open (Some nm) v) s in (sint (fst r), s))"

definition my_sem_wait :: "'w machine \<Rightarrow> char list \<Rightarrow> user \<times> 'w \<Rightarrow> int \<times> user \<times> 'w" where
  "my_sem_wait m nm s = (let (r, s) = call m (Sys_sem_wait (Some nm)) s in (sint (fst r), s))"

definition my_sem_post :: "'w machine \<Rightarrow> char list \<Rightarrow> user \<times> 'w \<Rightarrow> int \<times> user \<times> 'w" where
  "my_sem_post m nm s = (let (r, s) = call m (Sys_sem_post (Some nm)) s in (sint (fst r), s))"

definition my_sem_close :: "'w machine \<Rightarrow> char list \<Rightarrow> user \<times> 'w \<Rightarrow> int \<times> user \<times> 'w" where
  "my_sem_close m nm s = (let (r, s) = call m (Sys_sem_close (Some nm)) s in (sint (fst r), s))"

end
