(* ===== verification/Shell.thy ===== *)
theory Shell
  imports User_Lib
begin

text \<open>
  The shell: parsing and running a command line (\<open>processLine\<close> of \<open>Userland/c/shell/userlib.c\<close>) and the
  loop that reads it (\<open>shell.c\<close>).

  A pointer into the line is the string from there on. The parts into which the parser cuts the line
  with NULs do not overlap, so each is a string of its own; \<open>parse_args\<close>, whose caller goes on to use
  the pointers, returns offsets and the changed buffer.
\<close>

abbreviation (input) SP :: char where "SP \<equiv> CHR '' ''"
abbreviation (input) NL :: char where "NL \<equiv> CHR 0x0A"
abbreviation (input) BS :: char where "BS \<equiv> CHR 0x08"
abbreviation (input) TTY_RAW :: u64 where "TTY_RAW \<equiv> 0"
abbreviation (input) TTY_COOKED :: u64 where "TTY_COOKED \<equiv> 1"

section \<open>Parsing\<close>

text \<open>\<open>parse_args\<close> with room for \<open>n\<close> more arguments, at offset \<open>off\<close> of the buffer.\<close>

fun parse_args :: "nat \<Rightarrow> nat \<Rightarrow> char list \<Rightarrow> nat list \<times> char list" where
  "parse_args 0 off src = ([], src)"
| "parse_args (Suc n) off src =
     (if rd src = NUL then ([], src)
      else
        let sp = takeWhile (\<lambda>c. c = SP) src; src' = drop (length sp) src
        in if rd src' = NUL then ([], src)
           else
             let arg = off + length sp;
                 word = takeWhile (\<lambda>c. c \<noteq> NUL \<and> c \<noteq> SP) src'; rest = drop (length word) src';
                 off = arg + length word
             in if rd rest = SP
                then let (args, rest) = parse_args n (off + 1) (tl rest)
                     in (arg # args, sp @ word @ NUL # rest)
                else let (args, rest) = parse_args n off rest
                     in (arg # args, sp @ word @ rest))"

text \<open>\<open>char *argv[16] = {0}; argc = parse_args(args, argv, 15);\<close> when there are arguments.\<close>

definition build_argv :: "char list option \<Rightarrow> nat \<times> char list option list" where
  "build_argv args =
     (case args of None \<Rightarrow> (0, replicate 16 None)
      | Some src \<Rightarrow>
          let (ptrs, buf) = parse_args 15 0 src
          in (length ptrs, map (\<lambda>p. Some (drop p buf)) ptrs @ replicate (16 - length ptrs) None))"

definition strip_right :: "char list \<Rightarrow> char list" where
  "strip_right s = rev (dropWhile (\<lambda>c. c = SP) (rev s))"

definition parse_pipe :: "char list \<Rightarrow> (char list \<times> char list) option" where
  "parse_pipe cmdl =
     (let left = takeWhile (\<lambda>c. c \<noteq> NUL \<and> c \<noteq> CHR ''|'') cmdl; rest = drop (length left) cmdl
      in if rd rest = CHR ''|''
         then Some (strip_right left, dropWhile (\<lambda>c. c = SP) (tl rest)) else None)"

text \<open>The loop that cuts the name off a command and finds its arguments.\<close>

definition split_name :: "char list \<Rightarrow> char list \<times> char list option" where
  "split_name cmdl =
     (let nm = takeWhile (\<lambda>c. c \<noteq> NUL \<and> c \<noteq> SP) cmdl; rest = drop (length nm) cmdl
      in if rd rest = SP
         then let args = dropWhile (\<lambda>c. c = SP) (tl rest)
              in (nm, if rd args \<noteq> NUL then Some args else None)
         else (nm, None))"

definition child_cmds :: "string list" where
  "child_cmds =
     [''test_mm'', ''test_processes'', ''test_prio'', ''test_sync'', ''mem'', ''kill'', ''nice'',
      ''block'', ''loop'', ''sh'', ''cat'', ''wc'', ''mvar'', ''filter'', ''help'']"

definition is_child_command :: "char list \<Rightarrow> bool" where
  "is_child_command nm = (find (\<lambda>c. strcmp (Some nm) (Some c) = 0) child_cmds \<noteq> None)"

section \<open>Two commands in a pipe\<close>

definition print_pid :: "'w machine \<Rightarrow> int \<Rightarrow> user \<times> 'w \<Rightarrow> user \<times> 'w" where
  "print_pid m p s = shellPrintString m (Some (snd (num_to_str (of_int64 p) 10))) s"

definition close_fds :: "'w machine \<Rightarrow> int \<times> int \<Rightarrow> user \<times> 'w \<Rightarrow> user \<times> 'w" where
  "close_fds m fds s =
     call0 m (Sys_close (of_int64 (snd fds))) (call0 m (Sys_close (of_int64 (fst fds))) s)"

definition handle_pipe :: "'w machine \<Rightarrow> char list \<Rightarrow> char list \<Rightarrow> bool \<Rightarrow> user \<times> 'w \<Rightarrow> user \<times> 'w" where
  "handle_pipe m left right bg s =
     (let (r, s) = call m (Sys_pipe False) s in
      if sint (fst r) < 0 then shellPrintString m (Some ''Error creando pipe\<newline>'') s
      else
        let fds = fds_of (snd r);
            (left_name, left_args) = split_name left;
            (right_name, right_args) = split_name right
        in if \<not> is_child_command left_name \<or> \<not> is_child_command right_name
           then close_fds m fds
                  (shellPrintString m (Some ''Pipe solo soporta comandos externos\<newline>'') s)
           else
             let (argc1, argv1) = build_argv left_args;
                 (argc2, argv2) = build_argv right_args;
                 (pid1, s) = my_create_process_fg m (Some left_name) (of_nat argc1) argv1 3 s
             in if pid1 < 0
                then close_fds m fds
                       (shellPrintString m (Some ''Error creando proceso izquierdo\<newline>'') s)
                else
                  let (pid2, s) = my_create_process_fg m (Some right_name) (of_nat argc2) argv2 3 s
                  in if pid2 < 0
                     then close_fds m fds (call0 m (Sys_kill (of_int64 pid1))
                            (shellPrintString m (Some ''Error creando proceso derecho\<newline>'') s))
                     else
                       let s = call0 m (Sys_pipe_setup (of_int64 pid1) (of_int64 (snd fds)) 1) s;
                           s = call0 m (Sys_pipe_setup (of_int64 pid2) (of_int64 (fst fds)) 0) s;
                           s = close_fds m fds s;
                           s = (if \<not> bg then call0 m (Sys_tty_mode TTY_COOKED) s else s);
                           s = call0 m (Sys_unblock (of_int64 pid1)) s;
                           s = call0 m (Sys_unblock (of_int64 pid2)) s
                       in if \<not> bg then
                            let (_, s) = my_wait m pid1 s; (_, s) = my_wait m pid2 s
                            in call0 m (Sys_tty_mode TTY_RAW) s
                          else
                            let s = shellPrintString m (Some ''['') s;
                                s = print_pid m pid1 s;
                                s = shellPrintString m (Some '', '') s;
                                s = print_pid m pid2 s
                            in shellPrintString m (Some '']\<newline>'') s)"

section \<open>The commands of the shell itself\<close>

definition clear :: "'w machine \<Rightarrow> user \<times> 'w \<Rightarrow> user \<times> 'w" where
  "clear m s = upd_user redraw_reset (call0 m Sys_clear s)"

definition cpu_exception :: "'w machine \<Rightarrow> nat \<Rightarrow> user \<times> 'w \<Rightarrow> user \<times> 'w" where
  "cpu_exception m n s = cpu_trap m n s"

definition divideByZero :: "'w machine \<Rightarrow> user \<times> 'w \<Rightarrow> user \<times> 'w" where
  "divideByZero m s = cpu_exception m 0 (clear m s)"

definition invOp :: "'w machine \<Rightarrow> user \<times> 'w \<Rightarrow> user \<times> 'w" where
  "invOp m s = cpu_exception m 6 s"

definition registers :: "'w machine \<Rightarrow> user \<times> 'w \<Rightarrow> user \<times> 'w" where
  "registers m s =
     (let (r, s) = call m Sys_registers s
      in if fst r \<noteq> 0 then shellPrintString m (Some (bytes_of (snd r))) s
         else shellPrintString m (Some ''Presione CTRL para guardar los registros.\<newline>'') s)"

fun bcd_of :: "outcome \<Rightarrow> u8 list" where
  "bcd_of (Bcd b) = b"
| "bcd_of _ = []"

definition printTimeAndDate :: "'w machine \<Rightarrow> u8 list \<Rightarrow> char \<Rightarrow> user \<times> 'w \<Rightarrow> user \<times> 'w" where
  "printTimeAndDate m cmdl separator s =
     (let part = (\<lambda>i. let val = nat (bcd_value (cmdl ! i))
                      in [char_of (48 + val div 10), char_of (48 + val mod 10)])
      in shellPrintString m
           (Some (part 0 @ [separator] @ part 1 @ [separator] @ part 2 @ [NL, NUL])) s)"

definition printTime :: "'w machine \<Rightarrow> user \<times> 'w \<Rightarrow> user \<times> 'w" where
  "printTime m s =
     (let (r, s) = call m (Sys_time []) s; timeBuff = bcd_of (snd r)
      in printTimeAndDate m (timeBuff[0 := adjustHour (timeBuff ! 0) (- 3)]) (CHR '':'') s)"

text \<open>The part of \<open>printDate\<close> that goes back to the day before.\<close>

definition date_before :: "u8 list \<Rightarrow> u8 list" where
  "date_before dateBuff =
     (let day = bcd_value (dateBuff ! 0) - 1
      in if day \<le> 0 then
           let day = 30; month = bcd_value (dateBuff ! 1) - 1
           in if month \<le> 0 then
                let month = 12; year = bcd_value (dateBuff ! 2) - 1
                in dateBuff[2 := to_bcd year, 1 := to_bcd month, 0 := to_bcd day]
              else dateBuff[1 := to_bcd month, 0 := to_bcd day]
         else dateBuff[0 := to_bcd day])"

definition printDate :: "'w machine \<Rightarrow> user \<times> 'w \<Rightarrow> user \<times> 'w" where
  "printDate m s =
     (let (r, s) = call m (Sys_time []) s; timeBuff = bcd_of (snd r);
          (r, s) = call m (Sys_date []) s; dateBuff = bcd_of (snd r);
          hour = bcd_value (timeBuff ! 0)
      in printTimeAndDate m (if hour < 3 then date_before dateBuff else dateBuff) (CHR ''/'') s)"

definition beeps :: "(u32 \<times> u64) list" where
  "beeps =
     [(659, 50), (622, 50), (659, 50), (622, 50), (659, 50), (494, 50), (587, 50), (523, 50), (440, 100),
      (262, 50), (330, 50), (440, 50), (494, 100),
      (330, 50), (415, 50), (494, 50), (523, 100),
      (330, 50), (659, 50), (622, 50), (659, 50), (622, 50), (659, 50), (494, 50), (587, 50), (523, 50), (440, 100),
      (262, 50), (330, 50), (440, 50), (494, 100),
      (330, 50), (523, 50), (494, 50), (440, 100)]"

definition playBeep :: "'w machine \<Rightarrow> user \<times> 'w \<Rightarrow> user \<times> 'w" where
  "playBeep m s = fold (\<lambda>(freq, t). call0 m (Sys_beep freq t)) beeps s"

definition state_names :: "string list" where
  "state_names = [''FREE'', ''READY'', ''RUNNING'', ''BLOCKED'', ''ZOMBIE'']"

definition ps_line :: "'w machine \<Rightarrow> process_info \<Rightarrow> user \<times> 'w \<Rightarrow> user \<times> 'w" where
  "ps_line m p s =
     (let pr = (\<lambda>str. shellPrintString m (Some str));
          s = pr (snd (num_to_str (pi_pid p) 10)) s;
          s = pr ''    '' s;
          s = pr (snd (num_to_str (ucast (pi_priority p)) 10)) s;
          s = pr ''    '' s;
          s = pr (if pi_foreground p \<noteq> 0 then ''Y '' else ''N '') s;
          s = pr ''  '' s;
          s = pr (if pi_state p \<le> 4 then state_names ! unat (pi_state p) else ''?'') s;
          s = pr ''  '' s;
          s = pr (pi_name p) s
      in pr ''\<newline>'' s)"

fun infos_of :: "outcome \<Rightarrow> nat \<Rightarrow> process_info" where
  "infos_of (Infos n f) i = f i"
| "infos_of _ i = \<lparr>pi_pid = 0, pi_name = [], pi_priority = 0, pi_state = 0, pi_foreground = 0, pi_rsp = 0\<rparr>"

definition ps :: "'w machine \<Rightarrow> (nat \<Rightarrow> process_info) \<Rightarrow> user \<times> 'w \<Rightarrow> user \<times> 'w" where
  "ps m buf s =
     (let (r, s) = call m (Sys_ps buf 64) s;
          s = shellPrintString m (Some ''PID  PRI  FG  STATE    NAME\<newline>'') s;
          s = shellPrintString m (Some ''---  ---  --  -------  --------\<newline>'') s
      in fold (\<lambda>i. ps_line m (infos_of (snd r) i)) [0..<unat (fst r)] s)"

section \<open>A command line\<close>

text \<open>The table \<open>commands\<close>; \<open>tests\<close> are the entries from \<open>tests/\<close>, \<open>buf\<close> the static buffer of \<open>ps\<close>.\<close>

definition commands ::
    "'w machine \<Rightarrow> (string \<Rightarrow> user \<times> 'w \<Rightarrow> user \<times> 'w) \<Rightarrow> (nat \<Rightarrow> process_info)
     \<Rightarrow> (string \<times> (user \<times> 'w \<Rightarrow> user \<times> 'w)) list" where
  "commands m tests buf =
     [(''clear'', clear m), (''printTime'', printTime m), (''printDate'', printDate m),
      (''registers'', registers m), (''testDiv0'', divideByZero m), (''invOp'', invOp m),
      (''playBeep'', playBeep m), (''test_mm'', tests ''test_mm''),
      (''test_processes'', tests ''test_processes''), (''test_prio'', tests ''test_prio''),
      (''test_sync'', tests ''test_sync''), (''ps'', ps m buf)]"

text \<open>The \<open>&\<close> at the end of a line that is not empty.\<close>

definition strip_bg :: "char list \<Rightarrow> bool \<times> char list" where
  "strip_bg cmdl =
     (if last cmdl = CHR ''&'' then (True, strip_right (butlast cmdl)) else (False, cmdl))"

definition processLine ::
    "'w machine \<Rightarrow> (string \<Rightarrow> user \<times> 'w \<Rightarrow> user \<times> 'w) \<Rightarrow> (nat \<Rightarrow> process_info) \<Rightarrow> char list
     \<Rightarrow> user \<times> 'w \<Rightarrow> user \<times> 'w" where
  "processLine m tests buf line s =
     (if user_strlen (Some line) = 0 then s
      else
        let (bg, cmdl) = strip_bg (cstr line)
        in case parse_pipe cmdl of
             Some (left, right) \<Rightarrow> handle_pipe m left right bg s
           | None \<Rightarrow>
               let (nm, args) = split_name cmdl
               in if is_child_command nm then
                    let (ac, av) = build_argv args;
                        s = (if \<not> bg
                             then call0 m (Sys_tty_mode TTY_COOKED) (shellPrintString m (Some [BS]) s)
                             else s);
                        (p, s) = my_create_process_fg m (Some nm) (of_nat ac) av (if bg then 0 else 1) s
                    in if p < 0 then shellPrintString m (Some ''Error creando proceso\<newline>'') s
                       else if \<not> bg then
                         let (_, s) = my_wait m p s in call0 m (Sys_tty_mode TTY_RAW) s
                       else
                         let s = shellPrintString m (Some ''['') s; s = print_pid m p s
                         in shellPrintString m (Some '']\<newline>'') s
                  else
                    case find (\<lambda>c. strcmp (Some nm) (Some (fst c)) = 0) (commands m tests buf) of
                      Some c \<Rightarrow> snd c s
                    | None \<Rightarrow> shellPrintString m
                        (Some (''Comando no reconocido! Escriba 'help' para ver los comandos disponibles.\<newline>'')) s)"

section \<open>Reading a line\<close>

definition showCursor :: "'w machine \<Rightarrow> user \<times> 'w \<Rightarrow> user \<times> 'w" where
  "showCursor m s =
     (if \<not> cursorVisible (fst s)
      then upd_user (\<lambda>u. u\<lparr>cursorVisible := True\<rparr>) (write_buf m STDOUT ''_'' s) else s)"

definition hideCursor :: "'w machine \<Rightarrow> user \<times> 'w \<Rightarrow> user \<times> 'w" where
  "hideCursor m s =
     (if cursorVisible (fst s)
      then upd_user (\<lambda>u. u\<lparr>cursorVisible := False\<rparr>) (write_buf m STDOUT [BS] s) else s)"

text \<open>What one character other than the newline does to the line and the screen.\<close>

definition read_line_char :: "'w machine \<Rightarrow> nat \<Rightarrow> char \<Rightarrow> char list \<Rightarrow> user \<times> 'w \<Rightarrow> char list \<times> user \<times> 'w" where
  "read_line_char m lim c line s =
     (if c = BS then
        (if line \<noteq> []
         then (butlast line, showCursor m (shellPutchar m BS STDOUT (hideCursor m s))) else (line, s))
      else if c = CHR ''+'' then
        (line, showCursor m (redrawFont m (call0 m Sys_increase_fontsize (hideCursor m s))))
      else if c = CHR ''-'' then
        (line, showCursor m (redrawFont m (call0 m Sys_decrease_fontsize (hideCursor m s))))
      else if length line + 1 < lim
        then (line @ [c], showCursor m (shellPutchar m c STDOUT (hideCursor m s)))
      else (line, s))"

text \<open>The loop of \<open>shellReadLine\<close>: it ends with a newline. \<open>line\<close> is the buffer up to \<open>idx\<close>.\<close>

partial_function (option) read_line_loop ::
    "'w machine \<Rightarrow> nat \<Rightarrow> char list \<Rightarrow> u64 \<Rightarrow> user \<times> 'w \<Rightarrow> (char list \<times> user \<times> 'w) option" where
  "read_line_loop m lim line lastBlink s =
     (let (r, s) = call m (Sys_read 0 False 1) s
      in if fst r = 1 then
           (if rd (bytes_of (snd r)) = NL then Some (line, s)
            else
              let (line, s) = read_line_char m lim (rd (bytes_of (snd r))) line s;
                  (t, s) = call m Sys_ticks s
              in read_line_loop m lim line (fst t) s)
         else
           let (t, s) = call m Sys_ticks s
           in if fst t - lastBlink \<ge> 9
              then read_line_loop m lim line (fst t)
                     (if cursorVisible (fst s) then hideCursor m s else showCursor m s)
              else read_line_loop m lim line lastBlink s)"

definition shellReadLine :: "'w machine \<Rightarrow> nat \<Rightarrow> user \<times> 'w \<Rightarrow> (char list \<times> user \<times> 'w) option" where
  "shellReadLine m lim s =
     (let (t, s) = call m Sys_ticks s
      in map_option (\<lambda>(line, s). (line @ [NUL], s)) (read_line_loop m lim [] (fst t) (showCursor m s)))"

abbreviation (input) BUFF_LENGTH :: nat where "BUFF_LENGTH \<equiv> 100"

text \<open>One round of the loop of \<open>shell_run\<close>.\<close>

definition shell_round ::
    "'w machine \<Rightarrow> (string \<Rightarrow> user \<times> 'w \<Rightarrow> user \<times> 'w) \<Rightarrow> (nat \<Rightarrow> process_info) \<Rightarrow> user \<times> 'w
     \<Rightarrow> (user \<times> 'w) option" where
  "shell_round m tests buf s =
     map_option (\<lambda>(line, s). processLine m tests buf line (shellNewline m (hideCursor m s)))
       (shellReadLine m BUFF_LENGTH (showCursor m (shellPrintString m (Some ''> '') s)))"

end
