(* ===== verification/Commands.thy ===== *)
theory Commands
  imports Shell
begin

text \<open>
  The programs of \<open>Userland/c/commands\<close>. Each is a function of its arguments, run against an
  environment; a loop that ends only when the environment says so is a partial function, with \<open>None\<close>
  for a run that never ends.
\<close>

type_synonym argv = "char list option list"

definition say :: "'w machine \<Rightarrow> string \<Rightarrow> user \<times> 'w \<Rightarrow> user \<times> 'w" where
  "say m str s = shellPrintString m (Some str) s"

definition say_num :: "'w machine \<Rightarrow> u64 \<Rightarrow> user \<times> 'w \<Rightarrow> user \<times> 'w" where
  "say_num m n s = shellPrintString m (Some (snd (num_to_str n 10))) s"

section \<open>Filters\<close>

text \<open>
  The common loop \<open>while (1) { n = sys_read(STDIN, buf, 128); ... }\<close>: end on 0, again on -1, else \<open>body\<close>
  on the \<open>n\<close> bytes, with \<open>x\<close> the variables of the program.
\<close>

partial_function (option) read_all ::
    "'w machine \<Rightarrow> (char list \<Rightarrow> 'x \<Rightarrow> user \<times> 'w \<Rightarrow> 'x \<times> user \<times> 'w) \<Rightarrow> 'x \<Rightarrow> user \<times> 'w
     \<Rightarrow> ('x \<times> user \<times> 'w) option" where
  "read_all m body x s =
     (let (r, s) = call m (Sys_read 0 False 128) s
      in if fst r = 0 then Some (x, s)
         else if fst r = - 1 then read_all m body x s
         else let (x, s) = body (take (unat (fst r)) (bytes_of (snd r))) x s in read_all m body x s)"

definition cat_body :: "'w machine \<Rightarrow> char list \<Rightarrow> unit \<Rightarrow> user \<times> 'w \<Rightarrow> unit \<times> user \<times> 'w" where
  "cat_body m chunk x s = (x, write_buf m STDOUT chunk s)"

definition cat :: "'w machine \<Rightarrow> user \<times> 'w \<Rightarrow> (int \<times> user \<times> 'w) option" where
  "cat m s = map_option (\<lambda>(_, s). (0, s)) (read_all m (cat_body m) () s)"

definition is_vowel :: "char \<Rightarrow> bool" where
  "is_vowel c \<longleftrightarrow>
     c = CHR ''a'' \<or> c = CHR ''e'' \<or> c = CHR ''i'' \<or> c = CHR ''o'' \<or> c = CHR ''u'' \<or>
     c = CHR ''A'' \<or> c = CHR ''E'' \<or> c = CHR ''I'' \<or> c = CHR ''O'' \<or> c = CHR ''U''"

text \<open>The inner loop of \<open>filter\<close>, which packs the bytes it keeps at the front of the buffer.\<close>

definition filter_pack :: "char list \<Rightarrow> char list" where
  "filter_pack chunk = fold (\<lambda>c out. if \<not> is_vowel c then out @ [c] else out) chunk []"

definition filter_body :: "'w machine \<Rightarrow> char list \<Rightarrow> unit \<Rightarrow> user \<times> 'w \<Rightarrow> unit \<times> user \<times> 'w" where
  "filter_body m chunk x s =
     (let out = filter_pack chunk in (x, if out \<noteq> [] then write_buf m STDOUT out s else s))"

definition filter_cmd :: "'w machine \<Rightarrow> user \<times> 'w \<Rightarrow> (int \<times> user \<times> 'w) option" where
  "filter_cmd m s = map_option (\<lambda>(_, s). (0, s)) (read_all m (filter_body m) () s)"

definition is_space :: "char \<Rightarrow> bool" where
  "is_space c \<longleftrightarrow> c = SP \<or> c = CHR 0x09 \<or> c = NL \<or> c = CHR 0x0D \<or> c = CHR 0x0C \<or> c = CHR 0x0B"

record counts =
  wc_lines :: u64
  wc_words :: u64
  wc_bytes :: u64
  in_word :: bool

definition wc_char :: "char \<Rightarrow> counts \<Rightarrow> counts" where
  "wc_char c x =
     (let x = x\<lparr>wc_bytes := wc_bytes x + 1\<rparr>;
          x = (if c = NL then x\<lparr>wc_lines := wc_lines x + 1\<rparr> else x)
      in if is_space c then x\<lparr>in_word := False\<rparr>
         else if \<not> in_word x then x\<lparr>in_word := True, wc_words := wc_words x + 1\<rparr> else x)"

definition wc_body :: "char list \<Rightarrow> counts \<Rightarrow> user \<times> 'w \<Rightarrow> counts \<times> user \<times> 'w" where
  "wc_body chunk x s = (fold wc_char chunk x, s)"

definition wc_report :: "'w machine \<Rightarrow> counts \<Rightarrow> user \<times> 'w \<Rightarrow> user \<times> 'w" where
  "wc_report m x s =
     (let s = shellNewline m s;
          s = say m ''Lineas: '' s; s = say_num m (wc_lines x) s; s = shellNewline m s;
          s = say m ''Palabras: '' s; s = say_num m (wc_words x) s; s = shellNewline m s;
          s = say m ''Bytes: '' s; s = say_num m (wc_bytes x) s
      in shellNewline m s)"

definition wc :: "'w machine \<Rightarrow> user \<times> 'w \<Rightarrow> (int \<times> user \<times> 'w) option" where
  "wc m s =
     map_option (\<lambda>(x, s). (0, wc_report m x s))
       (read_all m wc_body \<lparr>wc_lines = 0, wc_words = 0, wc_bytes = 0, in_word = False\<rparr> s)"

section \<open>Processes and memory\<close>

definition kill_cmd :: "'w machine \<Rightarrow> int \<Rightarrow> argv \<Rightarrow> user \<times> 'w \<Rightarrow> int \<times> user \<times> 'w" where
  "kill_cmd m ac av s =
     (if ac \<noteq> 1 then (- 1, say m ''uso: kill <pid>\<newline>'' s)
      else
        let p = satoi (av ! 0)
        in if sint p < 0 then (- 1, say m ''PID invalido\<newline>'' s)
           else
             let s = call0 m (Sys_kill p) s; s = say m ''Proceso '' s; s = say_num m p s
             in (0, say m '' terminado.\<newline>'' s))"

definition block_cmd :: "'w machine \<Rightarrow> int \<Rightarrow> argv \<Rightarrow> user \<times> 'w \<Rightarrow> int \<times> user \<times> 'w" where
  "block_cmd m ac av s =
     (if ac \<noteq> 1 then (- 1, say m ''uso: block <pid>\<newline>'' s)
      else
        let p = satoi (av ! 0)
        in if sint p < 0 then (- 1, say m ''PID invalido\<newline>'' s)
           else
             let (r, s) = call m (Sys_block p) s
             in if sint (fst r) < 0
                then (- 1, say m ''No se puede modificar un proceso bloqueado por syscall interna.\<newline>'' s)
                else
                  let s = say m ''Estado de '' s; s = say_num m p s
                  in (0, say m '' alternado.\<newline>'' s))"

definition nice_cmd :: "'w machine \<Rightarrow> int \<Rightarrow> argv \<Rightarrow> user \<times> 'w \<Rightarrow> int \<times> user \<times> 'w" where
  "nice_cmd m ac av s =
     (if ac \<noteq> 2 then (- 1, say m ''uso: nice <pid> <prioridad>\<newline>'' s)
      else
        let p = satoi (av ! 0); prio = satoi (av ! 1)
        in if sint p < 0 then (- 1, say m ''PID invalido\<newline>'' s)
           else if sint prio < 1 \<or> sint prio > 5
             then (- 1, say m ''Prioridad fuera de rango (1-5)\<newline>'' s)
           else
             let s = call0 m (Sys_nice p prio) s;
                 s = say m ''Prioridad de '' s; s = say_num m p s;
                 s = say m '' cambiada a '' s; s = say_num m prio s
             in (0, say m ''\<newline>'' s))"

fun status_of :: "outcome \<Rightarrow> mem_status" where
  "status_of (Status (Some st)) = st"
| "status_of _ = \<lparr>ms_total = 0, ms_free = 0, ms_used = 0, ms_used_kernel = 0, ms_alloc_count = 0\<rparr>"

definition mem :: "'w machine \<Rightarrow> user \<times> 'w \<Rightarrow> int \<times> user \<times> 'w" where
  "mem m s =
     (let (r, s) = call m Sys_mem_status s; st = status_of (snd r);
          s = say m ''Total:       '' s; s = say_num m (ms_total st) s; s = say m '' bytes\<newline>'' s;
          s = say m ''Free:        '' s; s = say_num m (ms_free st) s; s = say m '' bytes\<newline>'' s;
          s = say m ''Used (user): '' s; s = say_num m (ms_used st) s; s = say m '' bytes\<newline>'' s;
          s = say m ''Used (kern): '' s; s = say_num m (ms_used_kernel st) s; s = say m '' bytes\<newline>'' s;
          s = say m ''Alloc count: '' s; s = say_num m (ms_alloc_count st) s
      in (0, say m ''\<newline>'' s))"

section \<open>MVars\<close>

abbreviation (input) MAX_USER_MVARS :: nat where "MAX_USER_MVARS \<equiv> 16"
abbreviation (input) UMVAR_NAME_LEN :: nat where "UMVAR_NAME_LEN \<equiv> 28"

definition reader_colors :: "u32 list" where
  "reader_colors =
     [0xCCCCCC, 0xFF0000, 0x00FF00, 0x0000FF, 0xFFFF00, 0x00FFFF, 0xFF00FF, 0xFFA500, 0xFFC0CB, 0x8B4513]"

definition umvar_str_eq :: "char list option \<Rightarrow> char list option \<Rightarrow> bool" where
  "umvar_str_eq a b =
     (case a of None \<Rightarrow> False
      | Some x \<Rightarrow> (case b of None \<Rightarrow> False | Some y \<Rightarrow> str_eq_loop x y))"

definition umvar_str_copy :: "char list \<Rightarrow> char list option \<Rightarrow> nat \<Rightarrow> char list" where
  "umvar_str_copy dst src lim =
     (case src of None \<Rightarrow> dst[0 := NUL] | Some b \<Rightarrow> str_copy_loop dst 0 lim b)"

definition build_sem_names :: "char list \<Rightarrow> char list \<times> char list" where
  "build_sem_names nm =
     (let base = take (UMVAR_NAME_LEN - 1) (cstr nm)
      in (base @ [CHR ''e'', NUL], base @ [CHR ''f'', NUL]))"

definition find_umvar :: "char list \<Rightarrow> user \<Rightarrow> nat option" where
  "find_umvar nm u =
     first_slot MAX_USER_MVARS
       (\<lambda>i. mv_in_use (umvar_table u i) \<and> umvar_str_eq (Some (mv_name (umvar_table u i))) (Some nm))"

definition upd_mvar :: "nat \<Rightarrow> (user_mvar \<Rightarrow> user_mvar) \<Rightarrow> user \<times> 'w \<Rightarrow> user \<times> 'w" where
  "upd_mvar i f s = upd_user (\<lambda>u. u\<lparr>umvar_table := (umvar_table u)(i := f (umvar_table u i))\<rparr>) s"

definition user_mvar_open_sems :: "'w machine \<Rightarrow> char list \<Rightarrow> user \<times> 'w \<Rightarrow> int \<times> user \<times> 'w" where
  "user_mvar_open_sems m nm s =
     (let (sem_empty, sem_full) = build_sem_names nm;
          (r, s) = my_sem_open m sem_empty 1 s
      in if r = 0 then (0, s)
         else
           let (r, s) = my_sem_open m sem_full 0 s
           in if r = 0 then let (_, s) = my_sem_close m sem_empty s in (0, s)
              else (1, s))"

definition user_mvar_close_sems :: "'w machine \<Rightarrow> char list \<Rightarrow> user \<times> 'w \<Rightarrow> user \<times> 'w" where
  "user_mvar_close_sems m nm s =
     (let (sem_empty, sem_full) = build_sem_names nm;
          (_, s) = my_sem_close m sem_empty s;
          (_, s) = my_sem_close m sem_full s
      in s)"

definition user_mvar_create :: "'w machine \<Rightarrow> char list option \<Rightarrow> user \<times> 'w \<Rightarrow> int \<times> user \<times> 'w" where
  "user_mvar_create m nm s =
     (case nm of None \<Rightarrow> (0, s)
      | Some n \<Rightarrow>
          if find_umvar n (fst s) \<noteq> None then (0, s)
          else
            let (slot, s) =
                  (case first_slot MAX_USER_MVARS (\<lambda>i. \<not> mv_in_use (umvar_table (fst s) i)) of
                     Some i \<Rightarrow> (i, s)
                   | None \<Rightarrow>
                       let slot = reclaim (fst s);
                           s = upd_user (\<lambda>u. u\<lparr>reclaim := (reclaim u + 1) mod MAX_USER_MVARS\<rparr>) s
                       in (slot, user_mvar_close_sems m (mv_name (umvar_table (fst s) slot)) s))
            in (1, upd_mvar slot
                     (\<lambda>v. v\<lparr>mv_name := umvar_str_copy (mv_name v) nm UMVAR_NAME_LEN, mv_value := NUL,
                            mv_in_use := True\<rparr>) s))"

definition user_mvar_put :: "'w machine \<Rightarrow> char list \<Rightarrow> char \<Rightarrow> user \<times> 'w \<Rightarrow> int \<times> user \<times> 'w" where
  "user_mvar_put m nm v s =
     (case find_umvar nm (fst s) of None \<Rightarrow> (- 1, s)
      | Some i \<Rightarrow>
          let (sem_empty, sem_full) = build_sem_names nm;
              (_, s) = my_sem_wait m sem_empty s;
              s = upd_mvar i (\<lambda>x. x\<lparr>mv_value := v\<rparr>) s;
              (_, s) = my_sem_post m sem_full s
          in (0, s))"

definition user_mvar_take :: "'w machine \<Rightarrow> char list \<Rightarrow> user \<times> 'w \<Rightarrow> int \<times> user \<times> 'w" where
  "user_mvar_take m nm s =
     (case find_umvar nm (fst s) of None \<Rightarrow> (- 1, s)
      | Some i \<Rightarrow>
          let (sem_empty, sem_full) = build_sem_names nm;
              (_, s) = my_sem_wait m sem_full s;
              v = mv_value (umvar_table (fst s) i);
              (_, s) = my_sem_post m sem_empty s
          in (int (of_char v), s))"

definition user_mvar_destroy :: "'w machine \<Rightarrow> char list \<Rightarrow> user \<times> 'w \<Rightarrow> user \<times> 'w" where
  "user_mvar_destroy m nm s =
     (case find_umvar nm (fst s) of None \<Rightarrow> s
      | Some i \<Rightarrow>
          let s = user_mvar_close_sems m nm s
          in upd_mvar i (\<lambda>v. v\<lparr>mv_in_use := False, mv_name := (mv_name v)[0 := NUL]\<rparr>) s)"

text \<open>\<open>random_busy_wait\<close> computes and loses time: what is left is the state of the generator.\<close>

definition random_busy_wait :: "user \<times> 'w \<Rightarrow> user \<times> 'w" where
  "random_busy_wait s = upd_user (\<lambda>u. snd (GetUint u)) s"

text \<open>The digits of a number, least significant first, as \<open>build_mvar_name\<close> computes them.\<close>

definition build_mvar_name :: "u64 \<Rightarrow> char list" where
  "build_mvar_name p =
     ''mvar_'' @ rev (if p = 0 then ''0'' else num_loop p 10) @ [NUL]"

partial_function (option) writer_loop ::
    "'w machine \<Rightarrow> char list \<Rightarrow> char \<Rightarrow> user \<times> 'w \<Rightarrow> (user \<times> 'w) option" where
  "writer_loop m nm letter s =
     (let (r, s) = user_mvar_put m nm letter (random_busy_wait s)
      in if r = - 1 then Some s else writer_loop m nm letter s)"

definition mvar_writer :: "'w machine \<Rightarrow> int \<Rightarrow> argv \<Rightarrow> user \<times> 'w \<Rightarrow> (user \<times> 'w) option" where
  "mvar_writer m ac av s =
     (if ac < 2 then Some (call0 m (Sys_exit 1) s)
      else
        let idx = to_int (satoi (av ! 0));
            letter = char_of (nat ((65 + idx) mod 256));
            nm = the (av ! 1);
            (r, s) = user_mvar_open_sems m nm s
        in if r = 0 then Some (call0 m (Sys_exit 1) s)
           else map_option (\<lambda>s. call0 m (Sys_exit 0) (user_mvar_close_sems m nm s))
                  (writer_loop m nm letter s))"

partial_function (option) reader_loop ::
    "'w machine \<Rightarrow> char list \<Rightarrow> u32 \<Rightarrow> user \<times> 'w \<Rightarrow> (user \<times> 'w) option" where
  "reader_loop m nm color s =
     (let (r, s) = user_mvar_take m nm (random_busy_wait s)
      in if r = - 1 then Some s
         else reader_loop m nm color
                (call0 m (Sys_write_color STDOUT (Some [char_of (nat r)]) 1 color) s))"

definition mvar_reader :: "'w machine \<Rightarrow> int \<Rightarrow> argv \<Rightarrow> user \<times> 'w \<Rightarrow> (user \<times> 'w) option" where
  "mvar_reader m ac av s =
     (if ac < 2 then Some (call0 m (Sys_exit 1) s)
      else
        let idx = to_int (satoi (av ! 0));
            color = reader_colors ! unat (of_int64 idx mod 10);
            nm = the (av ! 1);
            (r, s) = user_mvar_open_sems m nm s
        in if r = 0 then Some (call0 m (Sys_exit 1) s)
           else map_option (\<lambda>s. call0 m (Sys_exit 0) (user_mvar_close_sems m nm s))
                  (reader_loop m nm color s))"

text \<open>The index of a child as a string.\<close>

definition idx_str :: "nat \<Rightarrow> char list" where
  "idx_str i =
     (if i \<ge> 10 then [char_of (48 + i div 10 mod 10), char_of (48 + i mod 10), NUL]
      else [char_of (48 + i), NUL])"

definition spawn :: "'w machine \<Rightarrow> string \<Rightarrow> char list \<Rightarrow> nat \<Rightarrow> user \<times> 'w \<Rightarrow> user \<times> 'w" where
  "spawn m prog nm i s = snd (my_create_process m (Some prog) 2 [Some (idx_str i), Some nm, None] s)"

definition mvar :: "'w machine \<Rightarrow> int \<Rightarrow> argv \<Rightarrow> user \<times> 'w \<Rightarrow> int \<times> user \<times> 'w" where
  "mvar m ac av s =
     (if ac < 2 then (- 1, s)
      else
        let writers = to_int (satoi (av ! 0)); readers = to_int (satoi (av ! 1))
        in if writers \<le> 0 \<or> readers \<le> 0 then (- 1, s)
           else
             let (r, s) = call m Sys_getpid s;
                 nm = build_mvar_name (fst r);
                 (r, s) = user_mvar_create m (Some nm) s
             in if r \<noteq> 1 then (- 1, s)
                else
                  let s = fold (spawn m ''mvar_writer'' nm) [0..<nat writers] s
                  in (0, fold (spawn m ''mvar_reader'' nm) [0..<nat readers] s))"

end
