(* ===== verification/Test_Util.thy ===== *)
theory Test_Util
  imports Commands
begin

text \<open>
  \<open>Userland/c/tests/test_util.c\<close> beyond what the shell uses: the random numbers below a bound, the check
  of a stretch of memory, the loops that only take time and \<open>printf\<close>; and \<open>memset\<close> of
  \<open>Userland/_loader.c\<close>. (\<open>satoi\<close>, \<open>is_valid_uint\<close> and \<open>GetUint\<close> are in \<open>User_Lib\<close>.)
\<close>

section \<open>Random numbers\<close>

text \<open>
  A number in floating point, away from the smallest exponent, is a natural number rounded to as many
  bits as the significand has, times a power of two: \<open>round_to\<close> rounds to the nearest, ties to even.
  The program computes with \<open>double\<close>, and the compiler chooses the width: 53 bits, or 64 where it uses
  the x87 unit (the build passes \<open>-mno-sse2\<close>), in which the constant is rounded as well.
\<close>

fun bit_len :: "nat \<Rightarrow> nat" where
  "bit_len n = (if n = 0 then 0 else Suc (bit_len (n div 2)))"

declare bit_len.simps [simp del]

definition round_to :: "nat \<Rightarrow> nat \<Rightarrow> nat" where
  "round_to p n =
     (let e = bit_len n - p
      in if e = 0 then n
         else
           let q = n div 2 ^ e; r = n mod 2 ^ e
           in (if r > 2 ^ (e - 1) \<or> r = 2 ^ (e - 1) \<and> odd q then q + 1 else q) * 2 ^ e)"

text \<open>\<open>2.328306435454494e-10\<close>, a little less than \<open>2^-32\<close>, in units of \<open>2^-(p + 32)\<close>.\<close>

definition uniform_factor :: "nat \<Rightarrow> nat" where
  "uniform_factor p = (2 * 2328306435454494 * 2 ^ (p + 32) + 10 ^ 25) div (2 * 10 ^ 25)"

text \<open>\<open>GetUniform\<close>: both products are rounded, the conversion to an integer cuts off.\<close>

definition GetUniform :: "'w machine \<Rightarrow> u32 \<Rightarrow> user \<Rightarrow> u32 \<times> user" where
  "GetUniform m lim u =
     (let p = fpu_bits m;
          (x, u) = GetUint u;
          y = round_to p ((unat x + 1) * uniform_factor p);
          z = round_to p (y * unat lim)
      in (of_nat (z div 2 ^ (p + 32)), u))"

definition uniform :: "'w machine \<Rightarrow> u32 \<Rightarrow> user \<times> 'w \<Rightarrow> u32 \<times> user \<times> 'w" where
  "uniform m lim s = (let (r, u) = GetUniform m lim (fst s) in (r, u, snd s))"

section \<open>Memory\<close>

text \<open>\<open>while(length--) dst[length] = chr;\<close>\<close>

fun user_memset :: "u64 \<Rightarrow> int \<Rightarrow> nat \<Rightarrow> (u64 \<Rightarrow> u8) \<Rightarrow> (u64 \<Rightarrow> u8)" where
  "user_memset dst c 0 store = store"
| "user_memset dst c (Suc n) store = user_memset dst c n (store(dst + of_nat n := word_of_int c))"

text \<open>\<open>memcheck\<close>, with as many bytes to go as the third argument says.\<close>

fun memcheck :: "u64 \<Rightarrow> u8 \<Rightarrow> nat \<Rightarrow> (u64 \<Rightarrow> u8) \<Rightarrow> bool" where
  "memcheck p val 0 store = True"
| "memcheck p val (Suc n) store = (if store p \<noteq> val then False else memcheck (p + 1) val n store)"

section \<open>Taking time\<close>

definition bussy_wait :: "u64 \<Rightarrow> user \<times> 'w \<Rightarrow> user \<times> 'w" where
  "bussy_wait n s = ((\<lambda>s. s) ^^ unat n) s"

partial_function (option) endless_loop :: "user \<times> 'w \<Rightarrow> (user \<times> 'w) option" where
  "endless_loop s = endless_loop s"

section \<open>printf\<close>

text \<open>The arguments behind the format: a number of 32 bits or a string.\<close>

datatype va_arg = Num u32 | Str "char list option"

fun va_num :: "va_arg list \<Rightarrow> u32" where
  "va_num (Num n # _) = n"
| "va_num _ = 0"

fun va_str :: "va_arg list \<Rightarrow> char list option" where
  "va_str (Str t # _) = t"
| "va_str _ = None"

definition put :: "'w machine \<Rightarrow> char \<Rightarrow> user \<times> 'w \<Rightarrow> user \<times> 'w" where
  "put m c s = snd (putchar m c s)"

definition print_uint :: "'w machine \<Rightarrow> u64 \<Rightarrow> user \<times> 'w \<Rightarrow> int \<times> user \<times> 'w" where
  "print_uint m v s =
     (if v = 0 then (1, put m (CHR ''0'') s)
      else let buf = num_loop v 10 in (int (length buf), fold (put m) (rev buf) s))"

definition print_int :: "'w machine \<Rightarrow> u64 \<Rightarrow> user \<times> 'w \<Rightarrow> int \<times> user \<times> 'w" where
  "print_int m v s =
     (if sint v < 0 then
        let (n, s) = print_uint m (- v) (put m (CHR ''-'') s) in (1 + n, s)
      else print_uint m v s)"

fun print_str_loop :: "'w machine \<Rightarrow> char list \<Rightarrow> int \<Rightarrow> user \<times> 'w \<Rightarrow> int \<times> user \<times> 'w" where
  "print_str_loop m [] n s = (n, s)"
| "print_str_loop m (c # cs) n s = (if c = NUL then (n, s) else print_str_loop m cs (n + 1) (put m c s))"

definition print_str :: "'w machine \<Rightarrow> char list option \<Rightarrow> user \<times> 'w \<Rightarrow> int \<times> user \<times> 'w" where
  "print_str m t s =
     (case t of None \<Rightarrow> (6, say m ''(null)'' s) | Some b \<Rightarrow> print_str_loop m b 0 s)"

text \<open>
  One conversion: the characters it prints, and the arguments that are left. The C function reads past
  the end of a format that ends in \<open>%\<close>; no caller has one, here the format ends there.
\<close>

definition convert :: "'w machine \<Rightarrow> char \<Rightarrow> va_arg list \<Rightarrow> user \<times> 'w \<Rightarrow> int \<times> va_arg list \<times> user \<times> 'w" where
  "convert m c args s =
     (if c = CHR ''d'' then let (n, s) = print_int m (scast (va_num args)) s in (n, tl args, s)
      else if c = CHR ''u'' then let (n, s) = print_uint m (ucast (va_num args)) s in (n, tl args, s)
      else if c = CHR ''s'' then let (n, s) = print_str m (va_str args) s in (n, tl args, s)
      else if c = CHR ''c'' then (1, tl args, put m (char_of (unat (va_num args))) s)
      else if c = CHR ''%'' then (1, args, put m (CHR ''%'') s)
      else (2, args, put m c (put m (CHR ''%'') s)))"

fun printf_loop :: "'w machine \<Rightarrow> char list \<Rightarrow> va_arg list \<Rightarrow> int \<Rightarrow> user \<times> 'w \<Rightarrow> int \<times> user \<times> 'w" where
  "printf_loop m [] args n s = (n, s)"
| "printf_loop m [c] args n s =
     (if c = NUL then (n, s)
      else if c \<noteq> CHR ''%'' then (n + 1, put m c s)
      else (n + 2, put m NUL (put m (CHR ''%'') s)))"
| "printf_loop m (c # d # fmt) args n s =
     (if c = NUL then (n, s)
      else if c \<noteq> CHR ''%'' then printf_loop m (d # fmt) args (n + 1) (put m c s)
      else let (l, args, s) = convert m d args s in printf_loop m fmt args (n + l) s)"

definition printf :: "'w machine \<Rightarrow> char list \<Rightarrow> va_arg list \<Rightarrow> user \<times> 'w \<Rightarrow> int \<times> user \<times> 'w" where
  "printf m fmt args s = printf_loop m fmt args 0 s"

text \<open>A call whose value is not used.\<close>

definition printf0 :: "'w machine \<Rightarrow> char list \<Rightarrow> va_arg list \<Rightarrow> user \<times> 'w \<Rightarrow> user \<times> 'w" where
  "printf0 m fmt args s = snd (printf m fmt args s)"

partial_function (option) print_pid_loop :: "'w machine \<Rightarrow> u64 \<Rightarrow> u64 \<Rightarrow> user \<times> 'w \<Rightarrow> (user \<times> 'w) option" where
  "print_pid_loop m n wait s = print_pid_loop m n wait (bussy_wait wait (printf0 m ''%d '' [Num (ucast n)] s))"

definition endless_loop_print :: "'w machine \<Rightarrow> int \<Rightarrow> argv \<Rightarrow> user \<times> 'w \<Rightarrow> (user \<times> 'w) option" where
  "endless_loop_print m ac av s =
     (let wait = (if ac > 0 \<and> av ! 0 \<noteq> None then satoi (av ! 0) else 1000000000);
          (r, s) = call m Sys_getpid s
      in print_pid_loop m (fst r) wait s)"

section \<open>Wrappers of system calls (syscall.c)\<close>

text \<open>They answer 0 whatever the kernel answers.\<close>

definition my_getpid :: "'w machine \<Rightarrow> user \<times> 'w \<Rightarrow> u64 \<times> user \<times> 'w" where
  "my_getpid m s = (let (r, s) = call m Sys_getpid s in (fst r, s))"

definition my_nice :: "'w machine \<Rightarrow> u64 \<Rightarrow> u64 \<Rightarrow> user \<times> 'w \<Rightarrow> int \<times> user \<times> 'w" where
  "my_nice m n prio s = (0, call0 m (Sys_nice n prio) s)"

definition my_kill :: "'w machine \<Rightarrow> u64 \<Rightarrow> user \<times> 'w \<Rightarrow> int \<times> user \<times> 'w" where
  "my_kill m n s = (0, call0 m (Sys_kill n) s)"

definition my_block :: "'w machine \<Rightarrow> u64 \<Rightarrow> user \<times> 'w \<Rightarrow> int \<times> user \<times> 'w" where
  "my_block m n s = (0, call0 m (Sys_block n) s)"

definition my_unblock :: "'w machine \<Rightarrow> u64 \<Rightarrow> user \<times> 'w \<Rightarrow> int \<times> user \<times> 'w" where
  "my_unblock m n s = (0, call0 m (Sys_unblock n) s)"

definition my_yield :: "'w machine \<Rightarrow> user \<times> 'w \<Rightarrow> int \<times> user \<times> 'w" where
  "my_yield m s = (0, call0 m Sys_yield s)"

end
