(* ===== verification/Tests.thy ===== *)
theory Tests
  imports Test_Util
begin

text \<open>
  The test programs of \<open>Userland/c/tests\<close>. Each is a function of its arguments, run against an
  environment as the commands are. \<open>test_mm\<close> and \<open>test_processes\<close> go round until they find an error:
  they are partial functions, and \<open>None\<close> is a test that never ends.

  An error inside a loop ends the program at once: a loop over the indices of a table is
  \<open>until_error\<close>, with \<open>Inl\<close> the state at the \<open>return -1\<close>.
\<close>

fun until_error :: "('i \<Rightarrow> 'x \<Rightarrow> 'e + 'x) \<Rightarrow> 'i list \<Rightarrow> 'x \<Rightarrow> 'e + 'x" where
  "until_error f [] x = Inr x"
| "until_error f (i # l) x = (case f i x of Inl e \<Rightarrow> Inl e | Inr y \<Rightarrow> until_error f l y)"

section \<open>test_mm.c\<close>

abbreviation (input) MAX_BLOCKS :: nat where "MAX_BLOCKS \<equiv> 128"

record mm_rq =
  rq_address :: u64
  rq_size :: u32

text \<open>The first loop of a round: blocks of random sizes, until \<open>malloc\<close> fails, the bound or the table is reached.\<close>

function alloc_blocks ::
    "'w machine \<Rightarrow> u64 \<Rightarrow> mm_rq list \<Rightarrow> u32 \<Rightarrow> user \<times> 'w \<Rightarrow> mm_rq list \<times> user \<times> 'w" where
  "alloc_blocks m max_memory rqs used s =
     (if length rqs < MAX_BLOCKS \<and> ucast used < max_memory then
        let (r, s) = uniform m (ucast (max_memory - ucast used - 1)) s;
            sz = r + 1;
            (a, s) = call m (Sys_malloc (ucast sz)) s
        in if fst a \<noteq> 0
           then alloc_blocks m max_memory (rqs @ [\<lparr>rq_address = fst a, rq_size = sz\<rparr>]) (used + sz) s
           else (rqs, s)
      else (rqs, s))"
  by pat_completeness auto
termination
  by (relation "measure (\<lambda>(m, max_memory, rqs, used, s). MAX_BLOCKS - length rqs)") auto

declare alloc_blocks.simps [simp del]

definition fill_block :: "mm_rq list \<Rightarrow> nat \<Rightarrow> user \<times> 'w \<Rightarrow> user \<times> 'w" where
  "fill_block rqs i s =
     (if rq_address (rqs ! i) \<noteq> 0
      then upd_user (\<lambda>u. u\<lparr>umem := user_memset (rq_address (rqs ! i)) (int i) (unat (rq_size (rqs ! i))) (umem u)\<rparr>) s
      else s)"

definition block_ok :: "mm_rq list \<Rightarrow> (u64 \<Rightarrow> u8) \<Rightarrow> nat \<Rightarrow> bool" where
  "block_ok rqs store i \<longleftrightarrow>
     rq_address (rqs ! i) = 0 \<or>
     memcheck (rq_address (rqs ! i)) (of_nat i) (unat (rq_size (rqs ! i))) store"

definition free_block :: "'w machine \<Rightarrow> mm_rq \<Rightarrow> user \<times> 'w \<Rightarrow> user \<times> 'w" where
  "free_block m rq s = (if rq_address rq \<noteq> 0 then call0 m (Sys_free (rq_address rq)) s else s)"

text \<open>One round of \<open>while(1)\<close>: whether every block held what was written to it, and the state after.\<close>

definition mm_round :: "'w machine \<Rightarrow> u64 \<Rightarrow> user \<times> 'w \<Rightarrow> bool \<times> user \<times> 'w" where
  "mm_round m max_memory s =
     (let (rqs, s) = alloc_blocks m max_memory [] 0 s;
          s = fold (fill_block rqs) [0..<length rqs] s
      in if list_all (block_ok rqs (umem (fst s))) [0..<length rqs]
         then (True, fold (free_block m) rqs s)
         else (False, printf0 m ''test_mm ERROR.\<newline>'' [] s))"

partial_function (option) mm_loop :: "'w machine \<Rightarrow> u64 \<Rightarrow> user \<times> 'w \<Rightarrow> (int \<times> user \<times> 'w) option" where
  "mm_loop m max_memory s =
     (let (good, s) = mm_round m max_memory s in if good then mm_loop m max_memory s else Some (- 1, s))"

definition test_mm_internal :: "'w machine \<Rightarrow> u64 \<Rightarrow> argv \<Rightarrow> user \<times> 'w \<Rightarrow> (int \<times> user \<times> 'w) option" where
  "test_mm_internal m ac av s =
     (if ac \<noteq> 1 then Some (- 1, say m ''uso: test_mm <max_memory>\<newline>'' s)
      else if \<not> is_valid_uint (av ! 0)
        then Some (- 1, say m ''test_mm: max_memory debe ser un numero positivo\<newline>'' s)
      else if satoi (av ! 0) = 0
        then Some (- 1, say m ''test_mm: max_memory debe ser mayor a 0\<newline>'' s)
      else mm_loop m (satoi (av ! 0)) s)"

definition test_mm_cmd :: "'w machine \<Rightarrow> char list option \<Rightarrow> user \<times> 'w \<Rightarrow> (user \<times> 'w) option" where
  "test_mm_cmd m args s =
     (if args = None then Some (say m ''uso: test_mm <max_memory>\<newline>'' s)
      else map_option snd (test_mm_internal m 1 [args] s))"

definition test_mm_entry :: "'w machine \<Rightarrow> int \<Rightarrow> argv \<Rightarrow> user \<times> 'w \<Rightarrow> (int \<times> user \<times> 'w) option" where
  "test_mm_entry m ac av s = test_mm_internal m (of_int64 ac) av s"

section \<open>test_processes.c\<close>

datatype rq_state = RUNNING | BLOCKED | KILLED

record p_rq =
  rq_pid :: int
  rq_state :: rq_state

definition to_int32 :: "int \<Rightarrow> int" where
  "to_int32 n = sint (word_of_int n :: u32)"

text \<open>The variables of a round: the table, \<open>alive\<close>, the state. An error carries the state only.\<close>

type_synonym 'w rqs = "p_rq list \<times> u8 \<times> user \<times> 'w"

definition create_rq :: "'w machine \<Rightarrow> nat \<Rightarrow> 'w rqs \<Rightarrow> (user \<times> 'w) + 'w rqs" where
  "create_rq m i x =
     (let (rqs, alive, s) = x;
          (p, s) = my_create_process m (Some ''endless_loop'') 0 [None] s;
          p = to_int32 p
      in if p = - 1 then Inl (printf0 m ''test_processes: ERROR creando proceso\<newline>'' [] s)
         else Inr (rqs @ [\<lparr>rq_pid = p, rq_state = RUNNING\<rparr>], alive + 1, s))"

definition act_rq :: "'w machine \<Rightarrow> nat \<Rightarrow> 'w rqs \<Rightarrow> (user \<times> 'w) + 'w rqs" where
  "act_rq m i x =
     (let (rqs, alive, s) = x;
          (action, s) = uniform m 100 s;
          n = of_int64 (rq_pid (rqs ! i))
      in if action mod 2 = 0 then
           (if rq_state (rqs ! i) = RUNNING \<or> rq_state (rqs ! i) = BLOCKED then
              let (r, s) = my_kill m n s
              in if r = - 1 then Inl (printf0 m ''test_processes: ERROR matando proceso\<newline>'' [] s)
                 else
                   let (_, s) = my_wait m (rq_pid (rqs ! i)) s
                   in Inr (rqs[i := (rqs ! i)\<lparr>rq_state := KILLED\<rparr>], alive - 1, s)
            else Inr (rqs, alive, s))
         else
           (if rq_state (rqs ! i) = RUNNING then
              let (r, s) = my_block m n s
              in if r = - 1 then Inl (printf0 m ''test_processes: ERROR bloqueando proceso\<newline>'' [] s)
                 else Inr (rqs[i := (rqs ! i)\<lparr>rq_state := BLOCKED\<rparr>], alive, s)
            else Inr (rqs, alive, s)))"

definition unblock_rq :: "'w machine \<Rightarrow> nat \<Rightarrow> 'w rqs \<Rightarrow> (user \<times> 'w) + 'w rqs" where
  "unblock_rq m i x =
     (let (rqs, alive, s) = x
      in if rq_state (rqs ! i) = BLOCKED then
           let (r, s) = uniform m 100 s
           in if r mod 2 \<noteq> 0 then
                let (r, s) = my_unblock m (of_int64 (rq_pid (rqs ! i))) s
                in if r = - 1 then Inl (printf0 m ''test_processes: ERROR desbloqueando proceso\<newline>'' [] s)
                   else Inr (rqs[i := (rqs ! i)\<lparr>rq_state := RUNNING\<rparr>], alive, s)
              else Inr (rqs, alive, s)
         else Inr (rqs, alive, s))"

text \<open>\<open>while(alive > 0)\<close>\<close>

partial_function (option) drain_loop :: "'w machine \<Rightarrow> 'w rqs \<Rightarrow> ((user \<times> 'w) + 'w rqs) option" where
  "drain_loop m x =
     (if fst (snd x) = 0 then Some (Inr x)
      else case until_error (act_rq m) [0..<length (fst x)] x of
        Inl e \<Rightarrow> Some (Inl e)
      | Inr x \<Rightarrow>
          (case until_error (unblock_rq m) [0..<length (fst x)] x of
             Inl e \<Rightarrow> Some (Inl e) | Inr x \<Rightarrow> drain_loop m x))"

partial_function (option) processes_loop ::
    "'w machine \<Rightarrow> nat \<Rightarrow> user \<times> 'w \<Rightarrow> (int \<times> user \<times> 'w) option" where
  "processes_loop m max_processes s =
     (case until_error (create_rq m) [0..<max_processes] ([], 0, s) of
        Inl s \<Rightarrow> Some (- 1, s)
      | Inr x \<Rightarrow>
          Option.bind (drain_loop m x)
            (\<lambda>r. case r of Inl s \<Rightarrow> Some (- 1, s) | Inr x \<Rightarrow> processes_loop m max_processes (snd (snd x))))"

definition test_processes_internal :: "'w machine \<Rightarrow> u64 \<Rightarrow> argv \<Rightarrow> user \<times> 'w \<Rightarrow> (int \<times> user \<times> 'w) option" where
  "test_processes_internal m ac av s =
     (if ac \<noteq> 1 then Some (- 1, say m ''uso: test_processes <max_processes>\<newline>'' s)
      else if \<not> is_valid_uint (av ! 0)
        then Some (- 1, say m ''test_processes: max_processes debe ser un numero positivo\<newline>'' s)
      else if satoi (av ! 0) = 0
        then Some (- 1, say m ''test_processes: max_processes debe ser mayor a 0\<newline>'' s)
      else if satoi (av ! 0) > 64
        then Some (- 1, say m ''test_processes: max_processes excede el maximo (64)\<newline>'' s)
      else processes_loop m (unat (satoi (av ! 0))) s)"

definition test_processes_cmd :: "'w machine \<Rightarrow> char list option \<Rightarrow> user \<times> 'w \<Rightarrow> (user \<times> 'w) option" where
  "test_processes_cmd m args s =
     (if args = None then Some (say m ''uso: test_processes <max_processes>\<newline>'' s)
      else map_option snd (test_processes_internal m 1 [args] s))"

definition test_processes_entry :: "'w machine \<Rightarrow> int \<Rightarrow> argv \<Rightarrow> user \<times> 'w \<Rightarrow> (int \<times> user \<times> 'w) option" where
  "test_processes_entry m ac av s = test_processes_internal m (of_int64 ac) av s"

section \<open>test_prio.c\<close>

definition prio :: "int list" where
  "prio = [1, 3, 5]"

text \<open>\<open>get_current_priority\<close>; \<open>buf\<close> is what its static buffer held.\<close>

definition get_current_priority :: "'w machine \<Rightarrow> (nat \<Rightarrow> process_info) \<Rightarrow> user \<times> 'w \<Rightarrow> u8 \<times> user \<times> 'w" where
  "get_current_priority m buf s =
     (let (r, s) = call m (Sys_ps buf 64) s;
          (q, s) = call m Sys_getpid s
      in (case find (\<lambda>i. pi_pid (infos_of (snd r) i) = fst q) [0..<unat (fst r)] of
            Some i \<Rightarrow> pi_priority (infos_of (snd r) i) | None \<Rightarrow> 0, s))"

text \<open>\<open>while(value++ != max_value);\<close>\<close>

function count_up :: "u64 \<Rightarrow> u64 \<Rightarrow> u64" where
  "count_up bound val = (if val \<noteq> bound then count_up bound (val + 1) else val + 1)"
  by pat_completeness auto
termination
proof (relation "measure (\<lambda>(b, v). unat (b - v))", simp)
  fix b v :: u64
  assume "v \<noteq> b"
  then have "b - v \<noteq> 0" by simp
  then have "unat (b - v - 1) < unat (b - v)" by (metis measure_unat)
  then show "((b, v + 1), b, v) \<in> measure (\<lambda>(b, v). unat (b - v))" by (simp add: algebra_simps)
qed

declare count_up.simps [simp del]

definition zero_to_max :: "'w machine \<Rightarrow> (nat \<Rightarrow> process_info) \<Rightarrow> user \<times> 'w \<Rightarrow> user \<times> 'w" where
  "zero_to_max m buf s =
     (let _ = count_up (max_value (fst s)) 0;
          (pr, s) = get_current_priority m buf s;
          (p, s) = my_getpid m s
      in printf0 m ''PROCESS %d DONE! PRIO: %d\<newline>'' [Num (ucast p), Num (ucast pr)] s)"

definition create_ztm :: "'w machine \<Rightarrow> user \<times> 'w \<Rightarrow> int \<times> user \<times> 'w" where
  "create_ztm m s = my_create_process m (Some ''zero_to_max'') 0 [None] s"

text \<open>The bodies of the three loops that create the processes; the PIDs are collected in order.\<close>

definition prio_same :: "'w machine \<Rightarrow> nat \<Rightarrow> int list \<times> user \<times> 'w \<Rightarrow> int list \<times> user \<times> 'w" where
  "prio_same m i x = (let (children, s) = x; (p, s) = create_ztm m s in (children @ [p], s))"

definition prio_report :: "'w machine \<Rightarrow> int \<Rightarrow> nat \<Rightarrow> user \<times> 'w \<Rightarrow> user \<times> 'w" where
  "prio_report m p i s =
     printf0 m ''  PROCESS %d NEW PRIORITY: %d\<newline>'' [Num (word_of_int p), Num (word_of_int (prio ! i))] s"

definition prio_change :: "'w machine \<Rightarrow> nat \<Rightarrow> int list \<times> user \<times> 'w \<Rightarrow> int list \<times> user \<times> 'w" where
  "prio_change m i x =
     (let (children, s) = x;
          (p, s) = create_ztm m s;
          (_, s) = my_nice m (of_int64 p) (of_int64 (prio ! i)) s
      in (children @ [p], prio_report m p i s))"

definition prio_blocked :: "'w machine \<Rightarrow> nat \<Rightarrow> int list \<times> user \<times> 'w \<Rightarrow> int list \<times> user \<times> 'w" where
  "prio_blocked m i x =
     (let (children, s) = x;
          (p, s) = create_ztm m s;
          (_, s) = my_block m (of_int64 p) s;
          (_, s) = my_nice m (of_int64 p) (of_int64 (prio ! i)) s
      in (children @ [p], prio_report m p i s))"

definition wait_all :: "'w machine \<Rightarrow> int list \<Rightarrow> user \<times> 'w \<Rightarrow> user \<times> 'w" where
  "wait_all m children s = fold (\<lambda>p s. snd (my_wait m p s)) children s"

definition unblock_all :: "'w machine \<Rightarrow> int list \<Rightarrow> user \<times> 'w \<Rightarrow> user \<times> 'w" where
  "unblock_all m children s = fold (\<lambda>p s. snd (my_unblock m (of_int64 p) s)) children s"

definition test_prio_internal :: "'w machine \<Rightarrow> u64 \<Rightarrow> argv \<Rightarrow> user \<times> 'w \<Rightarrow> int \<times> user \<times> 'w" where
  "test_prio_internal m ac av s =
     (if ac \<noteq> 1 then (- 1, say m ''uso: test_prio <max_value>\<newline>'' s)
      else if \<not> is_valid_uint (av ! 0)
        then (- 1, say m ''test_prio: max_value debe ser un numero positivo\<newline>'' s)
      else
        let s = upd_user (\<lambda>u. u\<lparr>max_value := satoi (av ! 0)\<rparr>) s
        in if satoi (av ! 0) = 0
           then (- 1, say m ''test_prio: max_value debe ser mayor a 0\<newline>'' s)
           else
             let s = printf0 m ''SAME PRIORITY...\<newline>'' [] s;
                 (children, s) = fold (prio_same m) [0..<3] ([], s);
                 s = wait_all m children s;
                 s = printf0 m ''SAME PRIORITY, THEN CHANGE IT...\<newline>'' [] s;
                 (children, s) = fold (prio_change m) [0..<3] ([], s);
                 s = wait_all m children s;
                 s = printf0 m ''SAME PRIORITY, THEN CHANGE IT WHILE BLOCKED...\<newline>'' [] s;
                 (children, s) = fold (prio_blocked m) [0..<3] ([], s);
                 s = unblock_all m children s
             in (0, wait_all m children s))"

definition test_prio_cmd :: "'w machine \<Rightarrow> char list option \<Rightarrow> user \<times> 'w \<Rightarrow> user \<times> 'w" where
  "test_prio_cmd m args s =
     (case args of None \<Rightarrow> say m ''uso: test_prio <max_value>\<newline>'' s
      | Some a \<Rightarrow>
          if rd a = NUL then say m ''uso: test_prio <max_value>\<newline>'' s
          else if \<not> all_digits a then say m ''test_prio: max_value debe ser un numero positivo\<newline>'' s
          else snd (test_prio_internal m 1 [args] s))"

definition test_prio_entry :: "'w machine \<Rightarrow> int \<Rightarrow> argv \<Rightarrow> user \<times> 'w \<Rightarrow> int \<times> user \<times> 'w" where
  "test_prio_entry m ac av s = test_prio_internal m (of_int64 ac) av s"

section \<open>test_sync.c\<close>

abbreviation (input) SEM_ID :: string where "SEM_ID \<equiv> ''sem''"

text \<open>\<open>slowInc(&global, inc)\<close>: what \<open>global\<close> was is kept in \<open>aux\<close> across the call that yields.\<close>

definition slowInc :: "'w machine \<Rightarrow> u64 \<Rightarrow> user \<times> 'w \<Rightarrow> user \<times> 'w" where
  "slowInc m inc s =
     (let aux = sync_global (fst s);
          (r, s) = uniform m 100 s;
          s = (if r < 30 then snd (my_yield m s) else s)
      in upd_user (\<lambda>u. u\<lparr>sync_global := aux + inc\<rparr>) s)"

definition inc_round :: "'w machine \<Rightarrow> u64 \<Rightarrow> bool \<Rightarrow> user \<times> 'w \<Rightarrow> user \<times> 'w" where
  "inc_round m inc use_sem s =
     (let s = (if use_sem then snd (my_sem_wait m SEM_ID s) else s);
          s = slowInc m inc s
      in if use_sem then snd (my_sem_post m SEM_ID s) else s)"

definition my_process_inc :: "'w machine \<Rightarrow> int \<Rightarrow> argv \<Rightarrow> user \<times> 'w \<Rightarrow> int \<times> user \<times> 'w" where
  "my_process_inc m ac av s =
     (if ac \<noteq> 3 then (- 1, s)
      else
        let n = satoi (av ! 0); inc = (ucast (satoi (av ! 1)) :: u8); use_sem = (ucast (satoi (av ! 2)) :: u8)
        in if n = 0 then (- 1, s)
           else if inc = 0 then (- 1, s)
           else if sint use_sem < 0 then (- 1, s)
           else
             let (opened, s) = (if use_sem \<noteq> 0 then my_sem_open m SEM_ID 1 s else (1, s))
             in if opened = 0 then (- 1, printf0 m ''test_sync: ERROR abriendo semaforo.\<newline>'' [] s)
                else
                  let s = (inc_round m (scast inc) (use_sem \<noteq> 0) ^^ unat n) s
                  in (0, if use_sem \<noteq> 0 then snd (my_sem_close m SEM_ID s) else s))"

text \<open>One pair of processes: it decrements, it increments.\<close>

definition create_pair :: "'w machine \<Rightarrow> argv \<Rightarrow> argv \<Rightarrow> nat \<Rightarrow> (int \<times> int) list \<times> user \<times> 'w
    \<Rightarrow> (int \<times> int) list \<times> user \<times> 'w" where
  "create_pair m argvDec argvInc i x =
     (let (children, s) = x;
          (p, s) = my_create_process m (Some ''my_process_inc'') 3 argvDec s;
          (q, s) = my_create_process m (Some ''my_process_inc'') 3 argvInc s
      in (children @ [(p, q)], s))"

definition wait_pair :: "'w machine \<Rightarrow> int \<times> int \<Rightarrow> user \<times> 'w \<Rightarrow> user \<times> 'w" where
  "wait_pair m pq s = snd (my_wait m (snd pq) (snd (my_wait m (fst pq) s)))"

definition test_sync_internal :: "'w machine \<Rightarrow> u64 \<Rightarrow> argv \<Rightarrow> user \<times> 'w \<Rightarrow> int \<times> user \<times> 'w" where
  "test_sync_internal m ac av s =
     (if ac \<noteq> 2 then (- 1, say m ''uso: test_sync <n> <use_sem>\<newline>'' s)
      else if \<not> is_valid_uint (av ! 0) \<or> satoi (av ! 0) = 0
        then (- 1, say m ''test_sync: n debe ser un numero positivo\<newline>'' s)
      else if \<not> is_valid_uint (av ! 1) \<or> sint (satoi (av ! 1)) > 1
        then (- 1, say m ''test_sync: use_sem debe ser 0 o 1\<newline>'' s)
      else
        let argvDec = [av ! 0, Some ''-1'', av ! 1, None];
            argvInc = [av ! 0, Some ''1'', av ! 1, None];
            s = upd_user (\<lambda>u. u\<lparr>sync_global := 0\<rparr>) s;
            (children, s) = fold (create_pair m argvDec argvInc) [0..<2] ([], s);
            s = fold (wait_pair m) children s
        in (0, printf0 m ''Valor final: %d\<newline>'' [Num (ucast (sync_global (fst s)))] s))"

definition test_sync_cmd :: "'w machine \<Rightarrow> char list option \<Rightarrow> user \<times> 'w \<Rightarrow> user \<times> 'w" where
  "test_sync_cmd m args s =
     (case args of None \<Rightarrow> say m ''uso: test_sync <n> <use_sem>\<newline>'' s
      | Some a \<Rightarrow>
          let buf = take 63 (cstr a);
              p = dropWhile (\<lambda>c. c \<noteq> SP) buf
          in if rd p = SP
             then snd (test_sync_internal m 2
                    [Some (takeWhile (\<lambda>c. c \<noteq> SP) buf @ [NUL]), Some (dropWhile (\<lambda>c. c = SP) (tl p) @ [NUL])] s)
             else say m ''uso: test_sync <n> <use_sem>\<newline>'' s)"

definition test_sync_entry :: "'w machine \<Rightarrow> int \<Rightarrow> argv \<Rightarrow> user \<times> 'w \<Rightarrow> int \<times> user \<times> 'w" where
  "test_sync_entry m ac av s = test_sync_internal m (of_int64 ac) av s"

end
