(* ===== verification/User_Props.thy ===== *)
theory User_Props
  imports Commands
begin

text \<open>The properties of the user library, the shell and the commands.\<close>

section \<open>Numbers\<close>

lemma of_char_digit: "r < 10 \<Longrightarrow> of_char (digit_char r) = r + 48"
  by (simp add: digit_char_def)

lemma digit_char_not_NUL: "r < 16 \<Longrightarrow> digit_char r \<noteq> NUL"
proof
  assume r: "r < 16" "digit_char r = NUL"
  then have "of_char (digit_char r) = (0 :: nat)" by simp
  then show False using r(1) by (simp add: digit_char_def split: if_splits)
qed

lemma num_loop_0 [simp]: "num_loop 0 b = []"
  by (simp add: num_loop.simps)

lemma unat_mod_10: "unat (v mod 10 :: u64) < 10"
  by (simp add: unat_mod)

lemma satoi_num_loop:
  "satoi_loop (rev (num_loop v 10) @ ys) r = satoi_loop ys (r * 10 ^ length (num_loop v 10) + v)"
proof (induction v "10 :: u64" arbitrary: ys r rule: num_loop.induct)
  case (1 v)
  show ?case
  proof (cases "v = 0")
    case True
    then show ?thesis by simp
  next
    case False
    let ?d = "unat (v mod 10)"
    have nl: "num_loop v 10 = digit_char ?d # num_loop (v div 10) 10"
      using False by (subst num_loop.simps) simp
    have ten: "10 \<ge> (2 :: u64)" by simp
    have dv: "v div 10 * 10 + v mod 10 = v" by (rule div_mult_mod_eq)
    have "satoi_loop (rev (num_loop v 10) @ ys) r
        = satoi_loop (digit_char ?d # ys) (r * 10 ^ length (num_loop (v div 10) 10) + v div 10)"
      using 1 [of "digit_char ?d # ys" r] False unfolding nl by simp
    also have "\<dots> = satoi_loop ys ((r * 10 ^ length (num_loop (v div 10) 10) + v div 10) * 10
        + of_nat (?d + 48) - 48)"
      using unat_mod_10 [of v] digit_char_not_NUL [of ?d] of_char_digit [of ?d] by simp
    also have "(r * 10 ^ length (num_loop (v div 10) 10) + v div 10) * 10 + of_nat (?d + 48) - 48
        = r * 10 ^ length (num_loop v 10) + (v div 10 * 10 + v mod 10)"
      by (simp add: nl algebra_simps)
    finally show ?thesis unfolding dv .
  qed
qed

lemma all_digits_num_loop:
  "all_digits (rev (num_loop v 10) @ ys) = all_digits ys"
proof (induction v "10 :: u64" arbitrary: ys rule: num_loop.induct)
  case (1 v)
  show ?case
  proof (cases "v = 0")
    case True
    then show ?thesis by simp
  next
    case False
    have nl: "num_loop v 10 = digit_char (unat (v mod 10)) # num_loop (v div 10) 10"
      using False by (subst num_loop.simps) simp
    show ?thesis
      using 1 [of "digit_char (unat (v mod 10)) # ys"] False
        unat_mod_10 [of v] digit_char_not_NUL [of "unat (v mod 10)"] of_char_digit [of "unat (v mod 10)"]
      unfolding nl by simp
  qed
qed

lemma hd_num_loop:
  "c \<in> set (num_loop v 10) \<Longrightarrow> 48 \<le> (of_char c :: nat) \<and> (of_char c :: nat) \<le> 57"
proof (induction v "10 :: u64" rule: num_loop.induct)
  case (1 v)
  show ?case
  proof (cases "v = 0")
    case False
    then have nl: "num_loop v 10 = digit_char (unat (v mod 10)) # num_loop (v div 10) 10"
      by (subst num_loop.simps) simp
    then show ?thesis using 1 False unat_mod_10 [of v] of_char_digit [of "unat (v mod 10)"] by auto
  qed (use 1 in simp)
qed

text \<open>The reversal in place reverses.\<close>

lemma reverse_loop_eq:
  "reverse_loop (length a) (length a + length xs - 1) (a @ xs @ b) = a @ rev xs @ b"
proof (induction xs arbitrary: a b rule: length_induct)
  case (1 xs)
  consider "xs = []" | x where "xs = [x]" | x y m where "xs = x # m @ [y]"
    by (cases xs; cases "tl xs" rule: rev_cases) auto
  then show ?case
  proof cases
    case 3
    let ?p = "length a" and ?q = "length a + Suc (length m)"
    have "(a @ xs @ b)[?p := (a @ xs @ b) ! ?q, ?q := (a @ xs @ b) ! ?p] = (a @ [y]) @ m @ x # b"
      using 3 by (simp add: nth_append list_update_append)
    then have "reverse_loop ?p ?q (a @ xs @ b) = reverse_loop (Suc ?p) (?q - 1) ((a @ [y]) @ m @ x # b)"
      by (subst reverse_loop.simps) simp
    also have "\<dots> = (a @ [y]) @ rev m @ x # b"
      using 1 [rule_format, of m "a @ [y]" "x # b"] 3 by simp
    finally show ?thesis using 3 by simp
  next
    case 1
    have "\<not> length a < length a - 1" by simp
    then show ?thesis using 1 by (subst reverse_loop.simps) simp
  qed (simp add: reverse_loop.simps)
qed

lemma reverse_loop_rev: "reverse_loop 0 (length xs - 1) xs = rev xs"
  using reverse_loop_eq [of "[]" xs "[]"] by simp

text \<open>The digits of the kernel's \<open>uintToBase\<close> are those of the user library.\<close>

lemma unat_ucast_u32 [simp]: "unat (ucast b :: u64) = unat (b :: u32)"
  by (simp add: unsigned_ucast_eq take_bit_nat_eq_self less_trans [OF unsigned_less])

lemma digits_loop_num_loop:
  assumes "2 \<le> b" and "v \<noteq> 0"
  shows "digits_loop v b = num_loop v (ucast b)"
  using assms
proof (induction v b rule: digits_loop.induct)
  case (1 v b)
  have b2: "(2 :: u64) \<le> ucast b" using 1(2) by (simp add: word_le_nat_alt)
  have "num_loop v (ucast b) = digit_char (unat (v mod ucast b)) # num_loop (v div ucast b) (ucast b)"
    using 1(3) b2 by (subst num_loop.simps) simp
  then show ?case using 1 by (subst digits_loop.simps) (simp split: if_splits)
qed

lemma char_of_48: "char_of (48 :: nat) = CHR ''0''"
proof -
  have "(of_char (char_of (48 :: nat) :: char) :: nat) = of_char (CHR ''0'')" by simp
  then show ?thesis by (simp only: of_char_eq_iff)
qed

lemma uintToBase_num_to_str:
  assumes "2 \<le> b" and "b \<le> 16"
  shows "num_to_str v (int b) = (let (n, ds) = uintToBase v (of_nat b) in (n, ds @ [NUL]))"
proof -
  have ub: "unat (of_nat b :: u32) = b" using assms by (simp add: unat_of_nat)
  then have b: "(2 :: u32) \<le> of_nat b" using assms by (simp add: word_le_nat_alt)
  have "unat (ucast (of_nat b :: u32) :: u64) = unat (of_nat b :: u64)"
    using ub assms by (simp only: unat_ucast_u32) (simp add: unat_of_nat)
  then have c: "ucast (of_nat b :: u32) = (of_nat b :: u64)" by (simp only: unsigned_word_eqI)
  have i: "of_int64 (int b) = (of_nat b :: u64)" by (simp add: of_int64_def)
  show ?thesis
  proof (cases "v = 0")
    case True
    then show ?thesis
      using assms by (simp add: num_to_str_def uintToBase_def digits_loop.simps [of 0] reverse_loop.simps [of 0 0] Let_def digit_char_def char_of_48)
  next
    case False
    then show ?thesis
      using assms digits_loop_num_loop [OF b False] c i
        reverse_loop_rev [of "num_loop v (of_nat b)"]
      by (simp add: num_to_str_def uintToBase_def Let_def)
  qed
qed

text \<open>
  C39: Numbers as text. \<open>num_to_str\<close> of the user library writes the same digits as the kernel's
  \<open>uintToBase\<close>, for every value and base; in base 10 \<open>is_valid_uint\<close> accepts the text, and
  \<open>satoi\<close> reads the value back, all 64 bits of it.
\<close>

theorem num_to_str_roundtrip:
  "satoi (Some (snd (num_to_str v 10))) = v \<and> is_valid_uint (Some (snd (num_to_str v 10))) \<and>
   (2 \<le> b \<longrightarrow> b \<le> 16 \<longrightarrow> num_to_str v (int b) = (let (n, ds) = uintToBase v (of_nat b) in (n, ds @ [NUL])))"
proof (intro conjI impI uintToBase_num_to_str)
  let ?ds = "if v = 0 then ''0'' else num_loop v 10"
  have n: "snd (num_to_str v 10) = rev ?ds @ [NUL]"
    by (simp add: num_to_str_def Let_def of_int64_def)
  have ds: "?ds \<noteq> []" by (subst num_loop.simps) simp
  then obtain c cs where c: "rev ?ds @ [NUL] = c # cs" "c \<in> set ?ds"
    using set_rev [of ?ds] by (cases "rev ?ds") (simp, simp only: append_Cons, fastforce)
  have "48 \<le> (of_char c :: nat)"
  proof (cases "v = 0")
    case True
    then show ?thesis using c(2) by simp
  next
    case False
    then show ?thesis using c(2) hd_num_loop [of c v] by simp
  qed
  then have hd: "rd (rev ?ds @ [NUL]) \<noteq> CHR ''-''" "rd (rev ?ds @ [NUL]) \<noteq> NUL"
    unfolding c(1) rd_simps by auto
  have "satoi_loop (rev ?ds @ [NUL]) 0 = Some v"
    using satoi_num_loop [of v "[NUL]" 0] by simp
  then show "satoi (Some (snd (num_to_str v 10))) = v" unfolding n satoi_def using hd by simp
  have "all_digits (rev ?ds @ [NUL])" using all_digits_num_loop [of v "[NUL]"] by simp
  then show "is_valid_uint (Some (snd (num_to_str v 10)))" unfolding n is_valid_uint_def using hd by simp
qed

theorem num_to_str_roundtrip_witness:
  "num_to_str 255 16 = (let (n, ds) = uintToBase 255 16 in (n, ds @ [NUL])) \<and>
   satoi (Some (snd (num_to_str 255 10))) = 255"
  using num_to_str_roundtrip [of 255 16] by simp


section \<open>Command lines\<close>

text \<open>The words of a text, separated by spaces.\<close>

fun word_split :: "char list \<Rightarrow> char list list" where
  "word_split [] = [[]]"
| "word_split (c # cs) =
     (if c = SP then [] # word_split cs else (c # hd (word_split cs)) # tl (word_split cs))"

definition words_of :: "char list \<Rightarrow> char list list" where
  "words_of s = List.filter (\<lambda>w. w \<noteq> []) (word_split s)"

lemma word_split_not_Nil [simp]: "word_split s \<noteq> []"
  by (cases s) simp_all

lemma words_of_space: "words_of (SP # s) = words_of s"
  by (simp add: words_of_def)

lemma words_of_spaces: "words_of (takeWhile (\<lambda>c. c = SP) s @ t) = words_of t"
  by (induction s) (auto simp: words_of_space)

lemma word_split_word: "SP \<notin> set w \<Longrightarrow> word_split (w @ SP # s) = w # word_split s"
  by (induction w) auto

lemma word_split_only: "SP \<notin> set w \<Longrightarrow> word_split w = [w]"
  by (induction w) auto

lemma words_of_word: "SP \<notin> set w \<Longrightarrow> w \<noteq> [] \<Longrightarrow> words_of (w @ SP # s) = w # words_of s"
  by (simp add: words_of_def word_split_word)

lemma words_of_only: "SP \<notin> set w \<Longrightarrow> words_of w = (if w = [] then [] else [w])"
  by (simp add: words_of_def word_split_only)

lemma words_of_drop_spaces: "words_of (dropWhile (\<lambda>c. c = SP) s) = words_of s"
  using words_of_spaces [of s "dropWhile (\<lambda>c. c = SP) s"] by simp

lemma cstr_append: "NUL \<notin> set a \<Longrightarrow> cstr (a @ b) = a @ cstr b"
  unfolding cstr_def by (subst takeWhile_append2) auto

lemma rd_drop_spaces: "rd (dropWhile (\<lambda>c. c = SP) s) \<noteq> SP"
  by (induction s) auto

lemma rd_drop_word: "rd (dropWhile (\<lambda>c. c \<noteq> NUL \<and> c \<noteq> SP) s) \<in> {NUL, SP}"
  by (induction s) auto

lemma rd_cstr: "rd s = NUL \<longleftrightarrow> cstr s = []"
  by (cases s) auto

lemma parse_args_zero: "rd s = NUL \<Longrightarrow> parse_args n off s = ([], s)"
  by (cases n) simp_all

lemma drop_behind: "drop (length a + length b + 1 + k) (a @ b @ c # t) = drop k t"
  by simp

text \<open>
  What \<open>parse_args\<close> returns: each pointer lies in the buffer, and in the changed buffer points to a
  word of the text, in order.
\<close>

lemma parse_args_spec:
  "parse_args n off s = (ptrs, buf) \<Longrightarrow>
   length buf = length s \<and> (\<forall>p \<in> set ptrs. off \<le> p) \<and>
   map (\<lambda>p. cstr (drop (p - off) buf)) ptrs = take n (words_of (cstr s))"
proof (induction n arbitrary: off s ptrs buf)
  case 0
  then show ?case by simp
next
  case (Suc n)
  let ?sp = "takeWhile (\<lambda>c. c = SP) s" and ?s = "dropWhile (\<lambda>c. c = SP) s"
  have sp: "NUL \<notin> set ?sp" by (auto dest: set_takeWhileD)
  have s: "cstr s = ?sp @ cstr ?s" using cstr_append [OF sp, of ?s] by simp
  then have w: "words_of (cstr s) = words_of (cstr ?s)"
    using words_of_spaces [of s "cstr ?s"] by simp
  have d: "drop (length ?sp) s = ?s" by (rule dropWhile_eq_drop [symmetric])
  show ?case
  proof (cases "rd s = NUL \<or> rd ?s = NUL")
    case True
    then have "words_of (cstr s) = []"
    proof
      assume "rd s = NUL"
      then show ?thesis by (simp add: rd_cstr words_of_only)
    next
      assume "rd ?s = NUL"
      then show ?thesis unfolding w by (simp add: rd_cstr words_of_only)
    qed
    moreover have "ptrs = []" "buf = s" using Suc.prems True d by (auto simp: Let_def split: if_splits)
    ultimately show ?thesis by simp
  next
    case False
    let ?w = "takeWhile (\<lambda>c. c \<noteq> NUL \<and> c \<noteq> SP) ?s"
    let ?r = "dropWhile (\<lambda>c. c \<noteq> NUL \<and> c \<noteq> SP) ?s"
    let ?a = "off + length ?sp"
    have dr: "drop (length ?w) ?s = ?r" by (rule dropWhile_eq_drop [symmetric])
    have wn: "NUL \<notin> set ?w" "SP \<notin> set ?w" by (auto dest: set_takeWhileD)
    have sw: "?s = ?w @ ?r" by simp
    have cw: "cstr ?s = ?w @ cstr ?r" using cstr_append [OF wn(1), of ?r] by simp
    have "?w \<noteq> []"
    proof (cases ?s)
      case Nil
      then show ?thesis using False by (metis rd_simps(1))
    next
      case (Cons c cs)
      moreover from this have "c \<noteq> SP" using rd_drop_spaces [of s] by simp
      ultimately show ?thesis using False by simp
    qed
    have len: "length s = length ?sp + length ?w + length ?r"
    proof -
      have "length s = length (?sp @ ?w @ ?r)" by simp
      then show ?thesis by (simp only: length_append)
    qed
    show ?thesis
    proof (cases "rd ?r = SP")
      case True
      then obtain t where r: "?r = SP # t" by (cases ?r) auto
      obtain ptrs' t' where rec: "parse_args n (?a + length ?w + 1) t = (ptrs', t')" by fastforce
      have res: "ptrs = ?a # ptrs'" "buf = ?sp @ ?w @ NUL # t'"
        using Suc.prems False rec unfolding parse_args.simps Let_def d dr r by simp_all
      note IH = Suc.IH [OF rec]
      have "cstr (drop (p - off) buf) = cstr (drop (p - (?a + length ?w + 1)) t')" if "p \<in> set ptrs'" for p
      proof -
        have "?a + length ?w + 1 \<le> p" using IH that by blast
        then have e: "p - off = length ?sp + length ?w + 1 + (p - (?a + length ?w + 1))" by linarith
        show ?thesis unfolding res(2) by (subst e) (simp only: drop_behind)
      qed
      then have "map (\<lambda>p. cstr (drop (p - off) buf)) ptrs' =
          map (\<lambda>p. cstr (drop (p - (?a + length ?w + 1)) t')) ptrs'"
        by (rule map_cong [OF refl])
      also have "\<dots> = take n (words_of (cstr t))" using IH by (elim conjE)
      finally have "map (\<lambda>p. cstr (drop (p - off) buf)) ptrs' = take n (words_of (cstr t))" .
      moreover have "cstr (drop (?a - off) buf) = ?w"
        unfolding res(2) using cstr_append [OF wn(1), of "NUL # t'"] by simp
      moreover have "words_of (cstr s) = ?w # words_of (cstr t)"
        unfolding w cw r using words_of_word [OF wn(2) \<open>?w \<noteq> []\<close>] by simp
      moreover have "length buf = length s" using IH len r unfolding res(2) by simp
      moreover have "\<forall>p \<in> set ptrs. off \<le> p" using IH unfolding res(1) by fastforce
      ultimately show ?thesis unfolding res(1) by simp
    next
      case nsp: False
      have "rd ?r = NUL" using nsp rd_drop_word [of ?s] by simp
      then have r: "cstr ?r = []" "parse_args n (?a + length ?w) ?r = ([], ?r)"
        by (simp_all add: rd_cstr parse_args_zero)
      have "parse_args (Suc n) off s = ([?a], ?sp @ ?w @ ?r)"
        using False nsp r(2) unfolding parse_args.simps Let_def d dr by simp
      then have "([?a], ?sp @ ?w @ ?r) = (ptrs, buf)" using Suc.prems by (rule trans [OF sym])
      then have res: "ptrs = [?a]" "buf = ?sp @ ?w @ ?r" by (simp_all only: prod.inject)
      have "cstr (drop (?a - off) buf) = ?w"
        unfolding res(2) using cw r(1) by (simp add: d)
      moreover have "words_of (cstr s) = [?w]"
        unfolding w cw r(1) using words_of_only [OF wn(2)] \<open>?w \<noteq> []\<close> by simp
      moreover have "length buf = length s" using len unfolding res(2) by simp
      ultimately show ?thesis unfolding res(1) by simp
    qed
  qed
qed

lemma words_of_cstr_spaces: "words_of (cstr (dropWhile (\<lambda>c. c = SP) t)) = words_of (cstr t)"
proof -
  have "NUL \<notin> set (takeWhile (\<lambda>c. c = SP) t)" by (auto dest: set_takeWhileD)
  from cstr_append [OF this, of "dropWhile (\<lambda>c. c = SP) t"] show ?thesis
    using words_of_spaces [of t "cstr (dropWhile (\<lambda>c. c = SP) t)"] by simp
qed

lemma split_name_words:
  assumes "rd cmdl \<noteq> SP" and "rd cmdl \<noteq> NUL" and "split_name cmdl = (nm, args)"
  shows "words_of (cstr cmdl) = nm # (case args of None \<Rightarrow> [] | Some a \<Rightarrow> words_of (cstr a))"
proof -
  let ?nm = "takeWhile (\<lambda>c. c \<noteq> NUL \<and> c \<noteq> SP) cmdl" and ?r = "dropWhile (\<lambda>c. c \<noteq> NUL \<and> c \<noteq> SP) cmdl"
  have dr: "drop (length ?nm) cmdl = ?r" by (rule dropWhile_eq_drop [symmetric])
  have wn: "NUL \<notin> set ?nm" "SP \<notin> set ?nm" by (auto dest: set_takeWhileD)
  have ne: "?nm \<noteq> []" using assms(1,2) by (cases cmdl) auto
  have cw: "cstr cmdl = ?nm @ cstr ?r" using cstr_append [OF wn(1), of ?r] by simp
  show ?thesis
  proof (cases "rd ?r = SP")
    case True
    then obtain t where r: "?r = SP # t" by (cases ?r) auto
    have "words_of (cstr cmdl) = ?nm # words_of (cstr (dropWhile (\<lambda>c. c = SP) t))"
      unfolding cw r words_of_cstr_spaces using words_of_word [OF wn(2) ne, of "cstr t"] by simp
    moreover have "cstr (dropWhile (\<lambda>c. c = SP) t) = []" if "rd (dropWhile (\<lambda>c. c = SP) t) = NUL"
      using that by (simp add: rd_cstr)
    ultimately show ?thesis
      using assms(3) r unfolding split_name_def Let_def dr by (auto simp: words_of_only split: if_splits)
  next
    case False
    then have "cstr ?r = []" using rd_drop_word [of cmdl] by (simp add: rd_cstr)
    then show ?thesis
      using assms(3) False ne words_of_only [OF wn(2)] unfolding split_name_def Let_def dr cw by auto
  qed
qed

text \<open>
  The arguments a child process gets are the words of the command line: cutting off the name and
  then running \<open>parse_args\<close> yields the words behind the first one, at most 15 of them, and the
  pointers and the count agree.
\<close>

lemma command_words:
  assumes "rd cmdl \<noteq> SP" and "rd cmdl \<noteq> NUL" and "split_name cmdl = (nm, args)"
    and "build_argv args = (n, av)"
  shows "nm # map (\<lambda>a. cstr (the a)) (take n av) = take 16 (words_of (cstr cmdl)) \<and>
    drop n av = replicate (16 - n) None \<and> n \<le> 15"
proof (cases args)
  case None
  then show ?thesis using assms(4) split_name_words [OF assms(1-3)] by (auto simp: build_argv_def)
next
  case (Some a)
  obtain ptrs buf where p: "parse_args 15 0 a = (ptrs, buf)" by fastforce
  note sp = parse_args_spec [OF p]
  have len: "length ptrs \<le> 15" using sp by (metis length_map length_take min.cobounded2)
  have n: "n = length ptrs" "av = map (\<lambda>p. Some (drop p buf)) ptrs @ replicate (16 - n) None"
    using assms(4) Some p by (auto simp: build_argv_def)
  then show ?thesis using sp split_name_words [OF assms(1-3)] Some len by (simp add: comp_def)
qed

text \<open>The line \<open>nice  7 3\<close> of the shell.\<close>

section \<open>Filters\<close>

text \<open>
  The environment of a program between two pipes: what the reads return (\<open>None\<close> for a read that was
  interrupted, the end of the list for the end of the input), how many bytes the writes have room for, one after the
  other, and what was written to standard output. A write takes the bytes that fit, as \<open>pipe_write\<close> does; with no room
  it takes none, and returns -1 when the pipe has some again.
\<close>

record stdio =
  input :: "char list option list"
  written :: "char list"
  writes :: nat
  room :: "nat \<Rightarrow> nat"

fun stdio_call :: "syscall \<Rightarrow> stdio \<Rightarrow> (u64 \<times> outcome) \<times> stdio" where
  "stdio_call (Sys_read fd _ n) w =
     (case input w of
        [] \<Rightarrow> ((0, Bytes []), w)
      | None # rest \<Rightarrow> ((- 1, No_Output), w\<lparr>input := rest\<rparr>)
      | Some chunk # rest \<Rightarrow> ((of_nat (length chunk), Bytes chunk), w\<lparr>input := rest\<rparr>))"
| "stdio_call (Sys_write fd (Some buf) n) w =
     (let taken = take (room w (writes w)) (take (unat n) buf)
      in ((if taken = [] then - 1 else of_nat (length taken), No_Output),
          w\<lparr>written := written w @ taken, writes := writes w + 1\<rparr>))"
| "stdio_call _ w = ((0, No_Output), w)"

definition piped :: "stdio machine" where
  "piped = \<lparr>sys_call = (\<lambda>c (u, w). let (r, w) = stdio_call c w in (r, u, w)), cpu_trap = (\<lambda>_ s. s), entry_of = (\<lambda>_. 0),
     fpu_bits = 64\<rparr>"

text \<open>The globals of a program that starts.\<close>

definition user0 :: user where
  "user0 = \<lparr>redrawBuffer = (\<lambda>_. (NUL, 0)), redrawLength = 0, cursorVisible = False,
     umvar_table = (\<lambda>_. \<lparr>mv_name = replicate 28 NUL, mv_value = NUL, mv_in_use = False\<rparr>), reclaim = 0,
     m_z = 362436069, m_w = 521288629, sync_global = 0, max_value = 0, umem = (\<lambda>_. 0)\<rparr>"

text \<open>Reads of 128 bytes deliver between 1 and 128.\<close>

definition chunks_ok :: "char list option list \<Rightarrow> bool" where
  "chunks_ok cs \<longleftrightarrow> (\<forall>c. Some c \<in> set cs \<longrightarrow> c \<noteq> [] \<and> length c \<le> 128)"

definition all_input :: "char list option list \<Rightarrow> char list" where
  "all_input cs = concat (map (\<lambda>c. case c of None \<Rightarrow> [] | Some x \<Rightarrow> x) cs)"

lemma read_all_piped:
  assumes "chunks_ok cs"
  shows "read_all piped body x (u, \<lparr>input = cs, written = out, writes = k, room = r\<rparr>) =
    (case cs of [] \<Rightarrow> Some (x, u, \<lparr>input = [], written = out, writes = k, room = r\<rparr>)
     | None # rest \<Rightarrow> read_all piped body x (u, \<lparr>input = rest, written = out, writes = k, room = r\<rparr>)
     | Some c # rest \<Rightarrow> let (x, s) = body c x (u, \<lparr>input = rest, written = out, writes = k, room = r\<rparr>) in read_all piped body x s)"
proof (cases cs)
  case Nil
  then show ?thesis by (subst read_all.simps) (simp add: call_def piped_def)
next
  case (Cons c rest)
  show ?thesis
  proof (cases c)
    case None
    then show ?thesis using Cons by (subst read_all.simps) (simp add: call_def piped_def)
  next
    case (Some chunk)
    then have "chunk \<noteq> []" "length chunk \<le> 128" using assms Cons by (auto simp: chunks_ok_def)
    then have u: "unat (of_nat (length chunk) :: u64) = length chunk" "0 < length chunk"
      by (simp_all add: unat_of_nat)
    then have "(of_nat (length chunk) :: u64) \<noteq> 0" "(of_nat (length chunk) :: u64) \<noteq> - 1"
      using \<open>length chunk \<le> 128\<close> by (auto simp: word_unat_eq_iff unsigned_minus_1_eq_mask mask_eq_exp_minus_1)
    then show ?thesis using Cons Some u(1) by (subst read_all.simps) (simp add: call_def piped_def)
  qed
qed


lemma write_piped:
  assumes "length buf < 2 ^ 64"
  shows "write_buf piped fd buf (u, w) =
    (u, w\<lparr>written := written w @ take (room w (writes w)) buf, writes := writes w + 1\<rparr>)"
  using assms by (simp add: write_buf_def call0_def call_def piped_def unat_of_nat Let_def)

text \<open>What arrives of a sequence of buffers, the first of which is write number \<open>k\<close>.\<close>

fun sent :: "(nat \<Rightarrow> nat) \<Rightarrow> nat \<Rightarrow> char list list \<Rightarrow> char list" where
  "sent r k [] = []"
| "sent r k (b # bs) = take (r k) b @ sent r (k + 1) bs"

lemma sent_all: "\<forall>b \<in> set bs. length b \<le> n \<Longrightarrow> \<forall>j. n \<le> r j \<Longrightarrow> sent r k bs = concat bs"
proof (induction bs arbitrary: k)
  case (Cons b bs)
  then have "length b \<le> r k" by (meson le_trans list.set_intros(1))
  then show ?case using Cons by simp
qed simp

text \<open>The buffers that \<open>cat\<close> and \<open>filter\<close> write: one for each read that delivers something.\<close>

definition pieces :: "char list option list \<Rightarrow> char list list" where
  "pieces cs = map the (List.filter (\<lambda>c. c \<noteq> None) cs)"

definition filtered :: "char list option list \<Rightarrow> char list list" where
  "filtered cs = List.filter (\<lambda>b. b \<noteq> []) (map (List.filter (\<lambda>c. \<not> is_vowel c)) (pieces cs))"

lemma pieces_simps [simp]:
  "pieces [] = []" "pieces (None # cs) = pieces cs" "pieces (Some c # cs) = c # pieces cs"
  "filtered [] = []" "filtered (None # cs) = filtered cs"
  "filtered (Some c # cs) = (if List.filter (\<lambda>c. \<not> is_vowel c) c = [] then filtered cs
     else List.filter (\<lambda>c. \<not> is_vowel c) c # filtered cs)"
  by (auto simp: pieces_def filtered_def)

lemma chunks_ok_Cons: "chunks_ok (c # cs) \<Longrightarrow> chunks_ok cs"
  by (simp add: chunks_ok_def)

lemma all_input_simps [simp]:
  "all_input [] = []" "all_input (None # cs) = all_input cs" "all_input (Some c # cs) = c @ all_input cs"
  by (simp_all add: all_input_def)

lemma body_simps:
  "cat_body m chunk x (u, w) = (x, write_buf m STDOUT chunk (u, w))"
  "filter_body m chunk x (u, w) =
     (x, if filter_pack chunk \<noteq> [] then write_buf m STDOUT (filter_pack chunk) (u, w) else (u, w))"
  "wc_body chunk y (u, w) = (fold wc_char chunk y, u, w)"
  by (simp_all add: cat_body_def filter_body_def wc_body_def Let_def)

lemma filter_pack_eq: "filter_pack chunk = List.filter (\<lambda>c. \<not> is_vowel c) chunk"
proof -
  have "fold (\<lambda>c out. if \<not> is_vowel c then out @ [c] else out) chunk out =
      out @ List.filter (\<lambda>c. \<not> is_vowel c) chunk" for out
    by (induction chunk arbitrary: out) auto
  then show ?thesis by (simp add: filter_pack_def)
qed

lemma cat_loop_eq:
  "chunks_ok cs \<Longrightarrow> read_all piped (cat_body piped) x (u, \<lparr>input = cs, written = out, writes = k, room = r\<rparr>) =
     Some (x, u, \<lparr>input = [], written = out @ sent r k (pieces cs), writes = k + length (pieces cs), room = r\<rparr>)"
proof (induction cs arbitrary: out k)
  case Nil
  then show ?case by (subst read_all_piped) simp_all
next
  case (Cons c cs)
  have "length d < 2 ^ 64" if "c = Some d" for d
    using Cons.prems that by (auto simp: chunks_ok_def intro: le_less_trans)
  then show ?case
    using Cons.IH [OF chunks_ok_Cons [OF Cons.prems]]
    by (subst read_all_piped [OF Cons.prems])
      (auto simp: body_simps write_piped split: option.split)
qed

lemma filter_loop_eq:
  "chunks_ok cs \<Longrightarrow> read_all piped (filter_body piped) x (u, \<lparr>input = cs, written = out, writes = k, room = r\<rparr>) =
     Some (x, u, \<lparr>input = [], written = out @ sent r k (filtered cs), writes = k + length (filtered cs), room = r\<rparr>)"
proof (induction cs arbitrary: out k)
  case Nil
  then show ?case by (subst read_all_piped) simp_all
next
  case (Cons c cs)
  have "length (filter_pack d) < 2 ^ 64" if "c = Some d" for d
  proof -
    have "length (filter_pack d) \<le> length d" by (simp add: filter_pack_eq)
    moreover have "length d \<le> 128" using Cons.prems that by (auto simp: chunks_ok_def)
    ultimately show ?thesis by (simp add: le_less_trans)
  qed
  then show ?case
    using Cons.IH [OF chunks_ok_Cons [OF Cons.prems]]
    by (subst read_all_piped [OF Cons.prems])
      (auto simp: body_simps write_piped filter_pack_eq split: option.split)
qed

lemma wc_loop_eq:
  "chunks_ok cs \<Longrightarrow> read_all piped wc_body x (u, \<lparr>input = cs, written = out, writes = k, room = r\<rparr>) =
     Some (fold wc_char (all_input cs) x, u, \<lparr>input = [], written = out, writes = k, room = r\<rparr>)"
proof (induction cs arbitrary: x)
  case Nil
  then show ?case by (subst read_all_piped) simp_all
next
  case (Cons c cs)
  show ?case
    using Cons.IH [OF chunks_ok_Cons [OF Cons.prems]]
    by (subst read_all_piped [OF Cons.prems]) (auto simp: body_simps split: option.split)
qed

text \<open>A word starts at a character that is not white space and does not follow one that is not.\<close>

fun word_starts :: "bool \<Rightarrow> char list \<Rightarrow> nat" where
  "word_starts inside [] = 0"
| "word_starts inside (c # cs) =
     (if is_space c then word_starts False cs
      else (if inside then 0 else 1) + word_starts True cs)"

lemma fold_wc_char:
  "fold wc_char cs x =
     \<lparr>wc_lines = wc_lines x + of_nat (length (List.filter (\<lambda>c. c = NL) cs)),
      wc_words = wc_words x + of_nat (word_starts (in_word x) cs),
      wc_bytes = wc_bytes x + of_nat (length cs),
      in_word = (if cs = [] then in_word x else \<not> is_space (last cs))\<rparr>"
proof (induction cs arbitrary: x)
  case (Cons c cs)
  have "is_space NL" by (simp add: is_space_def)
  then show ?case
    unfolding fold_simps Cons.IH by (auto simp: wc_char_def Let_def)
qed simp

text \<open>With room for every write, all of the input arrives.\<close>

lemma pieces_le: "chunks_ok cs \<Longrightarrow> \<forall>b \<in> set (pieces cs). length b \<le> 128"
  by (auto simp: chunks_ok_def pieces_def)

lemma filtered_le: "chunks_ok cs \<Longrightarrow> \<forall>b \<in> set (filtered cs). length b \<le> 128"
proof
  fix b
  assume "chunks_ok cs" and "b \<in> set (filtered cs)"
  then obtain p where "p \<in> set (pieces cs)" "b = List.filter (\<lambda>c. \<not> is_vowel c) p" by (auto simp: filtered_def)
  moreover from this have "length p \<le> 128" using pieces_le [OF \<open>chunks_ok cs\<close>] by blast
  ultimately show "length b \<le> 128" using le_trans [OF length_filter_le] by blast
qed

lemma concat_pieces: "concat (pieces cs) = all_input cs"
  "concat (filtered cs) = List.filter (\<lambda>c. \<not> is_vowel c) (all_input cs)"
proof (induction cs)
  case (Cons c cs)
  {
    case 1
    then show ?case using Cons by (cases c) simp_all
  next
    case 2
    then show ?case using Cons by (cases c) simp_all
  }
qed simp_all

text \<open>
  C40: The filters, whatever way their input is cut into reads and interrupted. \<open>wc\<close> depends on the input alone: it
  reports the number of newlines, of words (also of those that straddle two reads) and of bytes. \<open>cat\<close> writes every
  piece it reads and \<open>filter\<close> every piece without its vowels (if anything is left of it), once: what arrives of a piece is
  what that one write had room for, and the rest is lost, as neither looks at the result of \<open>sys_write\<close>. So
  when every write has room for 128 bytes, \<open>cat\<close> delivers the whole input and \<open>filter\<close> the input without its
  vowels, independent of the cuts. All three end with the input, with status 0.
\<close>

theorem filters_ignore_chunks:
  assumes "chunks_ok cs"
  shows "cat piped (u, \<lparr>input = cs, written = out, writes = k, room = r\<rparr>) =
      Some (0, u, \<lparr>input = [], written = out @ sent r k (pieces cs), writes = k + length (pieces cs), room = r\<rparr>) \<and>
    filter_cmd piped (u, \<lparr>input = cs, written = out, writes = k, room = r\<rparr>) =
      Some (0, u, \<lparr>input = [], written = out @ sent r k (filtered cs), writes = k + length (filtered cs), room = r\<rparr>) \<and>
    ((\<forall>j. 128 \<le> r j) \<longrightarrow> sent r k (pieces cs) = all_input cs \<and>
      sent r k (filtered cs) = List.filter (\<lambda>c. \<not> is_vowel c) (all_input cs)) \<and>
    wc piped (u, \<lparr>input = cs, written = out, writes = k, room = r\<rparr>) =
      Some (0, wc_report piped
        \<lparr>wc_lines = of_nat (length (List.filter (\<lambda>c. c = NL) (all_input cs))),
         wc_words = of_nat (word_starts False (all_input cs)),
         wc_bytes = of_nat (length (all_input cs)),
         in_word = (all_input cs \<noteq> [] \<and> \<not> is_space (last (all_input cs)))\<rparr>
        (u, \<lparr>input = [], written = out, writes = k, room = r\<rparr>))"
proof -
  have "sent r k (pieces cs) = all_input cs" "sent r k (filtered cs) = List.filter (\<lambda>c. \<not> is_vowel c) (all_input cs)"
    if "\<forall>j. 128 \<le> r j"
    using sent_all [OF pieces_le [OF assms] that] sent_all [OF filtered_le [OF assms] that] by (simp_all add: concat_pieces)
  then show ?thesis
    by (simp add: cat_def filter_cmd_def wc_def cat_loop_eq [OF assms] filter_loop_eq [OF assms]
        wc_loop_eq [OF assms] fold_wc_char)
qed

text \<open>With room for three bytes in each write, \<open>cat\<close> loses the end of \<open>hello\<close> when it comes in one piece.\<close>

theorem filters_ignore_chunks_witness:
  "filter_cmd piped (user0, \<lparr>input = [Some ''hel'', None, Some ''lo''], written = [], writes = 0, room = \<lambda>_. 128\<rparr>) =
     Some (0, user0, \<lparr>input = [], written = ''hll'', writes = 2, room = \<lambda>_. 128\<rparr>) \<and>
   cat piped (user0, \<lparr>input = [Some ''hello''], written = [], writes = 0, room = \<lambda>_. 3\<rparr>) =
     Some (0, user0, \<lparr>input = [], written = ''hel'', writes = 1, room = \<lambda>_. 3\<rparr>) \<and>
   cat piped (user0, \<lparr>input = [Some ''he'', Some ''llo''], written = [], writes = 0, room = \<lambda>_. 3\<rparr>) =
     Some (0, user0, \<lparr>input = [], written = ''hello'', writes = 2, room = \<lambda>_. 3\<rparr>)"
  using filters_ignore_chunks [of "[Some ''hel'', None, Some ''lo'']" user0 "[]" 0 "\<lambda>_. 128"]
    filters_ignore_chunks [of "[Some ''hello'']" user0 "[]" 0 "\<lambda>_. 3"]
    filters_ignore_chunks [of "[Some ''he'', Some ''llo'']" user0 "[]" 0 "\<lambda>_. 3"]
  by (simp add: chunks_ok_def is_vowel_def)

end
