(* ===== verification/Memory_Regions.thy ===== *)
theory Memory_Regions
  imports Lib
begin

text \<open>
  Regions of memory, and what \<open>memset\<close> and \<open>memcpy\<close> of \<open>Kernel/c/lib/lib.c\<close> do to them.
\<close>

section \<open>Memory regions\<close>

definition region :: "u64 \<Rightarrow> nat \<Rightarrow> u64 set" where
  "region a n = (\<lambda>i. a + of_nat i) ` {..<n}"

text \<open>The bytes \<open>bs\<close> stand at the address \<open>a\<close>.\<close>

fun mem_at :: "(u64 \<Rightarrow> u8) \<Rightarrow> u64 \<Rightarrow> u8 list \<Rightarrow> bool" where
  "mem_at m a [] = True"
| "mem_at m a (b # bs) = (m a = b \<and> mem_at m (a + 1) bs)"

lemma region_0 [simp]: "region a 0 = {}"
  by (simp add: region_def)

lemma region_Suc: "region a (Suc n) = insert a (region (a + 1) n)"
  unfolding region_def lessThan_Suc_eq_insert_0 by (auto simp: image_image algebra_simps)

lemma region_Suc_end: "region a (Suc n) = insert (a + of_nat n) (region a n)"
  by (simp add: region_def lessThan_Suc)

lemma region_add: "region a (m + n) = region a m \<union> region (a + of_nat m) n"
  by (induction m arbitrary: a) (simp_all add: region_Suc algebra_simps)

lemma region_I: "i < n \<Longrightarrow> a + of_nat i \<in> region a n"
  by (auto simp: region_def)

lemma mem_at_append: "mem_at m a (xs @ ys) \<longleftrightarrow> mem_at m a xs \<and> mem_at m (a + of_nat (length xs)) ys"
  by (induction xs arbitrary: a) (simp_all add: algebra_simps)

lemma mem_at_cong:
  "(\<And>b. b \<in> region a (length bs) \<Longrightarrow> m' b = m b) \<Longrightarrow> mem_at m' a bs = mem_at m a bs"
  by (induction bs arbitrary: a) (simp_all add: region_Suc)

lemma mem_at_shift:
  "(\<And>i. i < length bs \<Longrightarrow> m' (d + of_nat i) = m (s + of_nat i)) \<Longrightarrow> mem_at m' d bs = mem_at m s bs"
proof (induction bs arbitrary: d s)
  case (Cons b bs)
  have "m' (d + 1 + of_nat i) = m (s + 1 + of_nat i)" if "i < length bs" for i
    using Cons.prems [of "Suc i"] that by (simp add: algebra_simps)
  then show ?case using Cons.IH [of "d + 1" "s + 1"] Cons.prems [of 0] by simp
qed simp

section \<open>memcpy\<close>

text \<open>Both loops of \<open>memcpy\<close> move the source if it does not overlap with the destination.\<close>

definition moved :: "u64 \<Rightarrow> u64 \<Rightarrow> nat \<Rightarrow> (u64 \<Rightarrow> u8) \<Rightarrow> (u64 \<Rightarrow> u8)" where
  "moved d s n m = (\<lambda>a. if a \<in> region d n then m (s + (a - d)) else m a)"

lemma moved_0 [simp]: "moved d s 0 m = m"
  by (simp add: moved_def)

lemma moved_Suc: "moved d s (Suc n) m = (moved d s n m)(d + of_nat n := m (s + of_nat n))"
  by (auto simp: moved_def region_Suc_end)

lemma moved_source: "a \<notin> region d n \<Longrightarrow> moved d s n m a = m a"
  by (simp add: moved_def)

lemma fold_upt_Suc: "fold f [0..<Suc k] m = f k (fold f [0..<k] m)"
  by simp

lemma copy_bytes:
  assumes "region d n \<inter> region s n = {}" and "k \<le> n"
  shows "fold (\<lambda>i m. m(d + of_nat i := m (s + of_nat i))) [0..<k] m = moved d s k m"
  using assms(2)
proof (induction k)
  case (Suc k)
  have "s + of_nat k \<in> region s n" using Suc.prems by (intro region_I) simp
  moreover have "region d k \<subseteq> region d n" using Suc.prems by (auto simp: region_def)
  ultimately have "s + of_nat k \<notin> region d k" using assms(1) by blast
  then have src: "moved d s k m (s + of_nat k) = m (s + of_nat k)" by (rule moved_source)
  have "fold (\<lambda>i m. m(d + of_nat i := m (s + of_nat i))) [0..<k] m = moved d s k m"
    using Suc.prems by (intro Suc.IH) simp
  then show ?case by (simp only: fold_upt_Suc src moved_Suc)
qed simp

lemma copy_words:
  assumes "region d (4 * n) \<inter> region s (4 * n) = {}" and "k \<le> n"
  shows "fold (copy_word d s) [0..<k] m = moved d s (4 * k) m"
  using assms(2)
proof (induction k)
  case (Suc k)
  have src: "moved d s (4 * k) m (s + of_nat (4 * k + j)) = m (s + of_nat (4 * k + j))" if "j < 4" for j
  proof (rule moved_source)
    have "s + of_nat (4 * k + j) \<in> region s (4 * n)" using Suc.prems that by (intro region_I) simp
    moreover have "region d (4 * k) \<subseteq> region d (4 * n)" using Suc.prems by (auto simp: region_def)
    ultimately show "s + of_nat (4 * k + j) \<notin> region d (4 * k)" using assms(1) by blast
  qed
  have "4 * Suc k = Suc (Suc (Suc (Suc (4 * k))))" by simp
  then have "moved d s (4 * Suc k) m = copy_word d s k (moved d s (4 * k) m)"
    using src [of 0] src [of 1] src [of 2] src [of 3]
    by (simp only: moved_Suc) (simp add: copy_word_def Let_def add.commute add.left_commute)
  moreover have "fold (copy_word d s) [0..<k] m = moved d s (4 * k) m" using Suc by simp
  ultimately show ?case by simp
qed simp

lemma memcpy_moved:
  assumes "region d n \<inter> region s n = {}"
  shows "memcpy d s n m = moved d s n m"
proof (cases "d mod 4 = 0 \<and> s mod 4 = 0 \<and> n mod 4 = 0")
  case True
  then have "n mod 4 = 0" by blast
  then have "4 * (n div 4) = n" by presburger
  then show ?thesis
    using copy_words [of d "n div 4" s "n div 4" m] assms unfolding memcpy_def if_P [OF True] by simp
next
  case False
  show ?thesis unfolding memcpy_def if_not_P [OF False] by (rule copy_bytes [OF assms order_refl])
qed

section \<open>memset\<close>

lemma memset_region:
  "memset d c n m = (\<lambda>a. if a \<in> region d n then word_of_int c else m a)"
proof -
  have "fold (\<lambda>i m. m(d + of_nat i := word_of_int c)) xs m =
      (\<lambda>a. if a \<in> (\<lambda>i. d + of_nat i) ` set xs then word_of_int c else m a)" for xs
    by (induction xs arbitrary: m) auto
  from this [of "rev [0..<n]"] show ?thesis by (simp add: memset_def region_def lessThan_atLeast0)
qed

text \<open>A region that does not reach beyond the end of memory is an interval.\<close>

lemma region_interval:
  assumes "unat d + n \<le> 2 ^ 64"
  shows "a \<in> region d n \<longleftrightarrow> unat d \<le> unat a \<and> unat a < unat d + n"
proof
  assume "a \<in> region d n"
  then obtain i where i: "i < n" "a = d + of_nat i" by (auto simp: region_def)
  then have "unat a = unat d + i" using assms by (simp add: unat_word_ariths unat_of_nat)
  then show "unat d \<le> unat a \<and> unat a < unat d + n" using i by simp
next
  assume r: "unat d \<le> unat a \<and> unat a < unat d + n"
  then have "a = d + of_nat (unat a - unat d)"
    by (simp add: of_nat_diff)
  moreover have "unat a - unat d < n" using r by linarith
  ultimately show "a \<in> region d n" using region_I [of "unat a - unat d" n d] by simp
qed

lemma regions_disjoint:
  assumes "unat p + s \<le> 2 ^ 64" and "unat q + t \<le> 2 ^ 64" and "unat p + s \<le> unat q \<or> unat q + t \<le> unat p"
  shows "region p s \<inter> region q t = {}"
  using assms by (auto simp: region_interval)

end
