(* ===== verification/System.thy ===== *)
theory System
  imports Inv_Steps
begin

text \<open>
  The laws of the components (Frames) lifted to the whole kernel: a relation between states
  that each component respects holds from before to after every system call, every interrupt
  and the start-up. A predicate \<open>J\<close> on one component is an invariant of all runs as soon as
  \<open>\<lambda>k k'. J k \<longrightarrow> J k'\<close> is such a relation and \<open>J\<close> holds when the tables have been
  initialised.
\<close>

section \<open>The interface\<close>

text \<open>The process table, the scheduler and the stacks may differ.\<close>

definition same_tables :: "kernel \<Rightarrow> kernel \<Rightarrow> bool" where
  "same_tables k k' \<longleftrightarrow> sem_table k' = sem_table k \<and> pipe_table k' = pipe_table k \<and>
     fd_table k' = fd_table k \<and> kbd k' = kbd k \<and> video k' = video k \<and> heap k' = heap k \<and>
     fault k' = fault k"

text \<open>An update of the keyboard that touches neither the ring nor the line.\<close>

definition flags_only :: "(keyboard \<Rightarrow> keyboard) \<Rightarrow> bool" where
  "flags_only g \<longleftrightarrow>
     (\<forall>b. kbd_waiting_process (g b) = kbd_waiting_process b \<and> buff (g b) = buff b \<and>
        buff_size (g b) = buff_size b \<and> start_index (g b) = start_index b \<and>
        end_index (g b) = end_index b \<and> tty_mode (g b) = tty_mode b \<and> tty_line (g b) = tty_line b \<and>
        tty_line_len (g b) = tty_line_len b \<and> tty_line_ready (g b) = tty_line_ready b \<and>
        tty_eof (g b) = tty_eof b)"

lemma rr_pass_idx: "\<exists>j. snd (rr_pass n t k) = k\<lparr>queue_idx := j\<rparr>"
proof (induction n arbitrary: k)
  case 0
  show ?case by (intro exI [where x = "queue_idx k"]) simp
next
  case (Suc n)
  from Suc [of "k\<lparr>queue_idx := (queue_idx k + 1) mod queue_size k\<rparr>"] show ?case
    by (auto simp: Let_def)
qed

lemma next_ready_idx: "\<exists>j. snd (scheduler_next_ready k) = k\<lparr>queue_idx := j\<rparr>"
proof -
  have r: "\<exists>j. k' = k\<lparr>queue_idx := j\<rparr>" if "rr_pass n t k = (p, k')" for n t p k k'
    using rr_pass_idx [of n t k] that by simp
  have s: "\<exists>j. k = k\<lparr>queue_idx := j\<rparr>" for k :: kernel
    by (intro exI [where x = "queue_idx k"]) simp
  show ?thesis
    unfolding scheduler_next_ready_def Let_def
    by (auto simp: s split: prod.split option.split dest!: r)
qed

locale system_ops = tty_ops R + sem_ops R for R :: "kernel \<Rightarrow> kernel \<Rightarrow> bool" +
  assumes R_same: "same_tables k k' \<Longrightarrow> R k k'"
    and R_malloc: "R k (snd (mm_malloc sz k))"
    and R_malloc_kernel: "R k (snd (mm_malloc_kernel sz k))"
    and R_free: "R k (mm_free p k)"
    and R_flags: "flags_only g \<Longrightarrow> R k (upd_kbd g k)"
    and R_clear_waiting: "R k (upd_kbd (kbd_clear_waiting c) k)"
    and R_key_char: "R k (key_char ch k)"
    and R_key_eof: "R k (key_eof k)"
    and R_getchar: "R k (upd_kbd (\<lambda>_. snd (getFromBuffer (kbd k))) k)"
begin

lemma same_I: "same_tables k1 k2 \<Longrightarrow> R k k1 \<Longrightarrow> R k k2"
  using R_same R_trans by blast

lemma free_I: "R k k1 \<Longrightarrow> R k (mm_free p k1)"
  using R_free R_trans by blast

lemma clear_waiting_keeps: "R k k1 \<Longrightarrow> R k (upd_kbd (kbd_clear_waiting c) k1)"
  using R_clear_waiting R_trans by blast

lemma flags_I: "flags_only g \<Longrightarrow> R k k1 \<Longrightarrow> R k (upd_kbd g k1)"
  using R_flags R_trans by blast

lemma any_proc_I: "R k k1 \<Longrightarrow> R k (upd_proc i f k1)"
  by (rule same_I [of k1]) (simp_all add: same_tables_def)

lemma other_I:
  "R k k1 \<Longrightarrow> R k (k1\<lparr>force_switch := b\<rparr>)"
  "R k k1 \<Longrightarrow> R k (k1\<lparr>current_process := p\<rparr>)"
  "R k k1 \<Longrightarrow> R k (k1\<lparr>qmem := m\<rparr>)"
  "R k k1 \<Longrightarrow> R k (k1\<lparr>queue_idx := j\<rparr>)"
  "R k k1 \<Longrightarrow> R k (k1\<lparr>ticks := t\<rparr>)"
  "R k k1 \<Longrightarrow> R k (k1\<lparr>next_pid := n\<rparr>)"
  "R k k1 \<Longrightarrow> R k (k1\<lparr>idle_pcb := p\<rparr>)"
  by (rule same_I [of k1], simp_all add: same_tables_def)+

section \<open>The scheduler\<close>

lemma add_I: "R k k1 \<Longrightarrow> R k (scheduler_add p k1)"
  by (rule same_I [of k1])
     (simp_all add: same_tables_def scheduler_add_def Let_def case_prod_beta split: option.split)

lemma remove_I: "R k k1 \<Longrightarrow> R k (scheduler_remove p k1)"
  by (rule same_I [of k1])
     (simp_all add: same_tables_def scheduler_remove_def Let_def split: option.split)

lemma next_ready_I: "R k k1 \<Longrightarrow> R k (snd (scheduler_next_ready k1))"
  using next_ready_idx [of k1] by (auto intro: other_I)

lemma dispatch_I: "R k k1 \<Longrightarrow> R k (snd (dispatch n k1))"
  by (auto simp: dispatch_def process_set_current_def Let_def intro!: any_proc_I other_I)

lemma reap_I: "R k k1 \<Longrightarrow> R k (scheduler_reap c k1)"
  by (auto simp: scheduler_reap_def Let_def intro!: any_proc_I remove_I free_I split: option.split)

lemma age_I: "R k k1 \<Longrightarrow> R k (age_waiting k1)"
  unfolding age_waiting_def by (rule fold_I) (auto simp: Let_def intro!: any_proc_I)

lemma choose_I:
  assumes "R k k1"
  shows "R k (snd (case scheduler_next_ready k1 of
      (None, k) \<Rightarrow> (case c of None \<Rightarrow> (s, k) | Some i \<Rightarrow> if P i k then (s, upd_proc i f k) else (s, k))
    | (Some n, k) \<Rightarrow> dispatch n (scheduler_reap c k)))"
proof -
  obtain p k2 where n: "scheduler_next_ready k1 = (p, k2)" by (cases "scheduler_next_ready k1")
  have "R k k2" using next_ready_I [OF assms] by (simp add: n)
  then show ?thesis
    unfolding n by (cases p; cases c) (simp_all add: any_proc_I dispatch_I reap_I)
qed

lemma yield_R: "R k (snd (scheduler_yield_impl sp k))"
  unfolding scheduler_yield_impl_def Let_def
  by (rule choose_I) (auto intro!: any_proc_I R_refl split: option.split)

lemma tick_R: "R k (snd (scheduler_tick sp k))"
proof -
  have a: "R k (age_waiting (timer_handler k))"
    unfolding timer_handler_def by (intro age_I other_I R_refl)
  show ?thesis
  proof (cases "process_current (timer_handler k)")
    case None
    show ?thesis
      unfolding scheduler_tick_def Let_def None
      by (simp only: option.case prod.case if_False) (rule choose_I [OF a, where c = None, unfolded option.case])
  next
    case (Some c)
    have b: "R k (snd (case r of (keep, k) \<Rightarrow> if keep then (y, k)
      else case scheduler_next_ready k of
        (None, k) \<Rightarrow> if P k then (s, upd_proc c f k) else (s, k)
      | (Some n, k) \<Rightarrow> dispatch n (scheduler_reap (Some c) k)))"
      if "R k (snd r)" for r y P s f
      using that choose_I [of k "snd r", where c = "Some c" and s = s and P = "\<lambda>_. P" and f = f, unfolded option.case]
      by (cases r) simp
    show ?thesis
      unfolding scheduler_tick_def Let_def Some option.case
      by (rule b) (simp add: a any_proc_I)
  qed
qed

lemma check_yield_I: "R k k1 \<Longrightarrow> R k (snd (check_yield sp k1))"
  using R_trans [OF _ yield_R, of k] by (auto simp: check_yield_def intro: other_I)

section \<open>Processes\<close>

lemma wake_parent_keeps: "R k k1 \<Longrightarrow> R k (wake_parent p n r k1)"
  by (auto simp: wake_parent_def intro!: any_proc_I other_I split: option.split)

lemma fill_pcb_I: "R k k1 \<Longrightarrow> R k (fill_pcb nm ent ac acopy blk fg sp slot k1)"
  unfolding fill_pcb_def Let_def by (intro any_proc_I fd_incref_I other_I)

lemma malloc_kernel_I: "R k k1 \<Longrightarrow> R k (snd (mm_malloc_kernel sz k1))"
  using R_malloc_kernel R_trans by blast

lemma process_create_R: "R k (snd (process_create nm ent ac av fg k))"
proof (cases "first_slot MAX_PROCESSES (\<lambda>i. pstate (proc k i) = PROCESS_FREE)")
  case None
  then show ?thesis by (simp add: process_create_def R_refl)
next
  case (Some slot)
  define k1 where "k1 = upd_proc slot (\<lambda>p. p\<lparr>stack_base := fst (mm_malloc_kernel STACK_SIZE k)\<rparr>) (snd (mm_malloc_kernel STACK_SIZE k))"
  have k1: "R k k1" unfolding k1_def by (intro any_proc_I R_malloc_kernel)
  have k2: "R k (snd (mm_malloc_kernel sz k1))" for sz by (rule malloc_kernel_I [OF k1])
  show ?thesis
    unfolding process_create_def Some option.case Let_def case_prod_beta k1_def [symmetric]
    using k1 k2
    by (auto intro!: add_I fill_pcb_I other_I free_I split: option.split)
qed

lemma process_exit_I: "R k k1 \<Longrightarrow> R k (process_exit r k1)"
  unfolding process_exit_def Let_def
  by (auto intro!: any_proc_I other_I wake_parent_keeps release_fds_I clear_waiting_keeps cleanup_pipes_I
      sem_cleanup_I split: option.split)

lemma process_kill_I: "R k k1 \<Longrightarrow> R k (process_kill n k1)"
  unfolding process_kill_def Let_def
  by (auto intro!: any_proc_I other_I wake_parent_keeps release_fds_I clear_waiting_keeps cleanup_pipes_I
      sem_cleanup_I remove_I free_I split: option.split)

lemma process_kill_foreground_I: "R k k1 \<Longrightarrow> R k (process_kill_foreground k1)"
  by (auto simp: process_kill_foreground_def case_prod_beta intro: process_kill_I)

lemma process_nice_R: "R k (process_nice n p k)"
  by (auto simp: process_nice_def Let_def intro!: any_proc_I add_I remove_I R_refl split: option.split)

lemma process_waitpid_R: "R k (snd (process_waitpid n k))"
  by (auto simp: process_waitpid_def Let_def intro!: any_proc_I other_I free_I R_refl split: option.split)

section \<open>System calls, interrupts, start-up\<close>

lemma sys_block_R: "R k (snd (sys_block n k))"
  by (auto simp: sys_block_def intro!: R_refl R_block R_unblock split: option.split)

lemma sys_yield_R: "R k (sys_yield k)"
  by (auto simp: sys_yield_def intro!: R_refl any_proc_I other_I split: option.split)

lemma do_syscall_R:
  assumes "on_cpu k cur"
  shows "R k (snd (snd (do_syscall c k)))"
  by (cases c)
     (simp_all add: do_syscall.simps ret_defs case_prod_beta sys_read_R [OF assms] sys_write_color_R
        R_video R_malloc R_free process_create_R process_exit_I process_kill_I process_nice_R
        sys_block_R R_unblock sys_yield_R process_waitpid_R sem_open_R sem_wait_R sem_post_R sem_close_R
        sys_pipe_R sys_dup2_R fd_decref_I sys_pipe_open_R process_pipe_setup_R sys_tty_mode_R R_refl)

lemma handlePressedKey_I:
  assumes "R k k1"
  shows "R k (handlePressedKey k1)"
proof -
  let ?k = "upd_kbd (\<lambda>_. snd (kbd_scancode_read (kbd k1))) k1"
  have "?k = upd_kbd (\<lambda>b. b\<lparr>pressed_key := 0\<rparr>) k1" by (simp add: upd_kbd_def kbd_scancode_read_def)
  then have k: "R k ?k" using assms by (auto simp: flags_only_def intro: flags_I)
  show ?thesis
    unfolding handlePressedKey_def case_prod_beta Let_def
    using k R_trans [OF k R_key_char] R_trans [OF k R_key_eof] process_kill_foreground_I [OF k]
    by (auto simp: flags_only_def storeSnapshot_def intro!: flags_I)
qed

lemma irq01_R: "R k (snd (irq01 scancode sp k))"
  unfolding irq01_def irqDispatcher_def Let_def
  by (auto simp: flags_only_def intro!: check_yield_I handlePressedKey_I flags_I R_refl)

lemma irq128_R:
  assumes "on_cpu k cur" and "0 \<le> sint rax"
  shows "R k (snd (snd (irq128 rax table junk sp k)))"
  using do_syscall_R [OF assms(1)] assms(2)
  by (auto simp: irq128_def case_prod_beta Let_def intro!: check_yield_I other_I R_refl)

lemma exception_enter_R: "R k (exception_enter ex sp k)"
  by (auto simp: exception_enter_def exceptionDispatcher_def exceptionHandler_def Let_def flags_only_def
      intro!: video_I flags_I R_refl split: option.split)

lemma exception_leave_R: "R k (exception_leave e sp k)"
proof -
  have "R k ((k\<lparr>video := v\<rparr>)\<lparr>qmem := m\<rparr>)" for m v by (intro video_I other_I R_refl)
  then show ?thesis unfolding exception_leave_def .
qed

lemma kernel_step_R:
  assumes "kernel_step k k'" and "kernel_inv k"
  shows "R k k'"
  using assms
proof cases
  case (system_call rax table junk sp)
  moreover obtain cur where "on_cpu k cur" using assms(2) by (auto simp: kernel_inv_def)
  ultimately show ?thesis by (simp add: irq128_R)
qed (simp_all add: irq00_def tick_R irq01_R exception_enter_R exception_leave_R exception_wait_def case_prod_beta R_getchar)

end

section \<open>Relations that do not look at the keyboard and the screen\<close>

definition same_stores :: "kernel \<Rightarrow> kernel \<Rightarrow> bool" where
  "same_stores k k' \<longleftrightarrow> sem_table k' = sem_table k \<and> pipe_table k' = pipe_table k \<and>
     fd_table k' = fd_table k \<and> heap k' = heap k \<and> fault k' = fault k"

locale store_frame = fd_ops R + sem_ops R for R :: "kernel \<Rightarrow> kernel \<Rightarrow> bool" +
  assumes R_stores: "same_stores k k' \<Longrightarrow> R k k'"
    and R_malloc_store: "R k (snd (mm_malloc sz k))"
    and R_malloc_kernel_store: "R k (snd (mm_malloc_kernel sz k))"
    and R_free_store: "R k (mm_free p k)"

lemma same_stores_upd_kbd: "same_stores k (upd_kbd g k)"
  by (simp add: same_stores_def)

lemma same_stores_tty_read: "same_stores k (snd (snd (tty_read cnt c k)))"
  by (simp add: tty_read_def same_stores_def block_on_keyboard_def case_prod_beta Let_def split: option.split)

lemma same_stores_kbd_wake: "same_stores k k1 \<Longrightarrow> same_stores k (kbd_wake k1)"
  by (simp add: kbd_wake_def same_stores_def split: option.split)

lemma same_stores_key_char: "same_stores k (key_char c k)"
  unfolding key_char_def
  by (auto intro!: same_stores_kbd_wake) (auto simp: same_stores_def put_video_def)

lemma same_stores_key_eof: "same_stores k (key_eof k)"
  unfolding key_eof_def
  by (auto intro!: same_stores_kbd_wake) (auto simp: same_stores_def)

sublocale store_frame \<subseteq> system_ops
  by unfold_locales
     (auto intro: R_stores R_malloc_store R_malloc_kernel_store R_free_store same_stores_upd_kbd
        same_stores_tty_read same_stores_key_char same_stores_key_eof
        simp: same_stores_def same_tables_def)

section \<open>Invariants of all runs\<close>

text \<open>The kernel behind the five initialisers that \<open>initializeKernelBinary\<close> calls first.\<close>

definition init_tables :: "video \<Rightarrow> u64 \<Rightarrow> (u64 \<Rightarrow> u64) \<Rightarrow> kernel" where
  "init_tables v tramp m =
     sem_init (scheduler_init (pipe_init (fd_init (process_init (mm_init HEAP_START HEAP_SIZE (bss_kernel v tramp m))))))"

locale invariant = system_ops "\<lambda>k k'. J k \<longrightarrow> J k'" for J :: "kernel \<Rightarrow> bool" +
  assumes J_init: "J (init_tables v tramp m)"
begin

lemma J_boot: "J (snd (boot v tramp idle_entry m))"
proof -
  let ?k0 = "init_tables v tramp m"
  let ?c1 = "process_create (Some ''idle'') idle_entry 0 None 0 ?k0"
  let ?k2 = "register_idle (fst ?c1) (snd ?c1)"
  let ?c3 = "process_create (Some ''shell'') sampleCodeModuleAddress 0 None 1 ?k2"
  have 1: "J (snd ?c1)" using process_create_R [of ?k0] J_init by blast
  have "J k \<longrightarrow> J (register_idle p k)" for p k
  proof (cases "process_get (of_int64 p) k")
    case None
    then show ?thesis by (simp add: register_idle_def)
  next
    case (Some i)
    then show ?thesis
      unfolding register_idle_def Let_def scheduler_set_idle_def Some option.case
      by (intro remove_I other_I any_proc_I R_refl)
  qed
  with 1 have 2: "J ?k2" by blast
  then have 3: "J (snd ?c3)" using process_create_R [of ?k2] by blast
  then have "J (snd (scheduler_next_ready (snd ?c3)))" using next_ready_I [of "snd ?c3" "snd ?c3"] by blast
  moreover have "J k \<longrightarrow> J (k\<lparr>current_process := p\<rparr>)" "J k \<longrightarrow> J (upd_proc i f k)" for k p i f
    using R_refl other_I(2) any_proc_I by blast+
  ultimately have "J (snd (scheduler_start (snd ?c3)))"
    by (auto simp: scheduler_start_def process_set_current_def Let_def split: prod.split option.split)
  then show ?thesis
    by (simp add: boot_def initializeKernelBinary_def init_tables_def Let_def case_prod_beta)
qed

lemma J_reachable: "reachable k \<Longrightarrow> J k"
proof (induction rule: reachable.induct)
  case (booted v tramp idle_entry m)
  show ?case by (rule J_boot)
next
  case (step k k')
  then show ?case using kernel_step_R [OF step(2) reachable_inv [OF step(1)]] by blast
qed

end

end
