(* ===== verification/Sem_Inv.thy ===== *)
theory Sem_Inv
  imports System
begin

text \<open>
  The semaphores in all runs: what each operation does to the table, in closed form, and the
  invariant that every lock is free between two operations, every wait queue well formed and, unless the value
  has wrapped around, never longer than the deficit of the semaphore.
\<close>

section \<open>Frame\<close>

lemma process_block_frame [simp]:
  "sem_table (process_block n k) = sem_table k" "pipe_table (process_block n k) = pipe_table k"
  "fd_table (process_block n k) = fd_table k" "fault (process_block n k) = fault k"
  "heap (process_block n k) = heap k" "video (process_block n k) = video k"
  by (simp_all add: process_block_def Let_def split: option.split)

lemma process_unblock_frame [simp]:
  "sem_table (process_unblock n k) = sem_table k"
  "fd_table (process_unblock n k) = fd_table k" "fault (process_unblock n k) = fault k"
  "heap (process_unblock n k) = heap k" "video (process_unblock n k) = video k"
  by (simp_all add: process_unblock_def Let_def split: option.split)

lemma mm_free_frame [simp]:
  "sem_table (mm_free p k) = sem_table k" "pipe_table (mm_free p k) = pipe_table k"
  "fd_table (mm_free p k) = fd_table k"
  by (simp_all add: mm_free_def split: option.split)

lemma mm_malloc_frame [simp]:
  "sem_table (snd (mm_malloc sz k)) = sem_table k" "fault (snd (mm_malloc sz k)) = fault k"
  "pipe_table (snd (mm_malloc sz k)) = pipe_table k" "fd_table (snd (mm_malloc sz k)) = fd_table k"
  by (simp_all add: mm_malloc_def case_prod_beta)

lemma mm_malloc_kernel_frame [simp]:
  "sem_table (snd (mm_malloc_kernel sz k)) = sem_table k" "fault (snd (mm_malloc_kernel sz k)) = fault k"
  "pipe_table (snd (mm_malloc_kernel sz k)) = pipe_table k"
  "fd_table (snd (mm_malloc_kernel sz k)) = fd_table k"
  by (simp_all add: mm_malloc_kernel_def case_prod_beta)

lemma mm_free_spin: "fault (mm_free p k) = Some Spin \<longleftrightarrow> fault k = Some Spin \<and> ff_free p (heap k) \<noteq> None"
  by (auto simp: mm_free_def split: option.split)

section \<open>Blocking and unblocking a process that is there\<close>

lemma process_block_current:
  assumes "kernel_inv k" and "current_process k = Some c"
  shows "process_block (pid (proc k c)) k = (upd_proc c (\<lambda>p. p\<lparr>pstate := PROCESS_BLOCKED\<rparr>) k)\<lparr>force_switch := True\<rparr>"
proof -
  have i: "sys_inv {} k" and o: "on_cpu k c" using assms by (auto simp: kernel_inv_def on_cpu_def)
  have u: "pids_unique k" and c: "c < MAX_PROCESSES"
    using i assms(2) unfolding sys_inv_def table_inv_def cpu_inv_def by blast+
  have "\<not> is_free k c" "\<not> zombie k c" "pstate (proc k c) \<noteq> PROCESS_BLOCKED" using o by (auto simp: on_cpu_def)
  then show ?thesis using process_get_pid [OF u c] assms(2) by (simp add: process_block_def)
qed

lemma process_unblock_pstate:
  "pstate (proc (process_unblock n k) j) =
     (if process_get n k = Some j \<and> pstate (proc k j) = PROCESS_BLOCKED then PROCESS_READY else pstate (proc k j))"
  by (auto simp: process_unblock_def Let_def split: option.split)

lemma process_get_upd_sem [simp]: "process_get n (upd_sem i f k) = process_get n k"
  by (simp add: process_get_def)

lemma process_get_harmless:
  "harmless f \<Longrightarrow> process_get n (upd_proc i f k) = process_get n k"
  by (rule process_get_cong) (simp add: harmless_def)

section \<open>The value at its width\<close>

lemma i64_small: "- (2 ^ 63) \<le> x \<Longrightarrow> x < 2 ^ 63 \<Longrightarrow> i64 x = x"
  unfolding i64_def by (rule signed_take_bit_int_eq_self) simp_all

lemma i64_near [simp]: "- 1000 \<le> x \<Longrightarrow> x \<le> 1000 \<Longrightarrow> i64 x = x"
  by (rule i64_small) simp_all

lemma i64_i64 [simp]: "i64 (i64 x) = i64 x"
  by (simp add: i64_def)

lemma i64_bounds: "- (2 ^ 63) \<le> i64 x" "i64 x < 2 ^ 63"
  unfolding i64_def by (rule signed_take_bit_int_greater_eq_minus_exp, rule signed_take_bit_int_less_exp)

lemma i64_sint [simp]: "i64 (sint (v :: u64)) = sint v"
  using sint_greater_eq [of v] sint_less [of v] by (intro i64_small) simp_all

section \<open>The invariant\<close>

definition sem_good :: "semaphore \<Rightarrow> bool" where
  "sem_good s \<longleftrightarrow> q_ok (sem_queue s) \<and> \<not> sem_locked s \<and>
     length (sem_name s) = SEM_NAME_LEN \<and> i64 (sem_value s) = sem_value s \<and>
     (\<not> sem_wrapped s \<and> 0 < q_count (sem_queue s) \<longrightarrow> int (q_count (sem_queue s)) \<le> - sem_value s)"

definition sems_ok :: "kernel \<Rightarrow> bool" where
  "sems_ok k \<longleftrightarrow> (\<forall>i. sem_good (sem_table k i)) \<and> fault k \<noteq> Some Spin"

lemma sems_ok_cong: "sem_table k' = sem_table k \<Longrightarrow> fault k' = fault k \<Longrightarrow> sems_ok k' = sems_ok k"
  by (simp add: sems_ok_def)

lemma sems_ok_upd:
  "sems_ok k \<Longrightarrow> sem_good s \<Longrightarrow> sem_table k' = (sem_table k)(i := s) \<Longrightarrow> fault k' = fault k \<Longrightarrow> sems_ok k'"
  by (simp add: sems_ok_def)

lemma sems_ok_sem: "sems_ok k \<Longrightarrow> sem_good (sem_table k i)"
  by (simp add: sems_ok_def)

lemma locked_False [simp]: "\<not> sem_locked s \<Longrightarrow> s\<lparr>sem_locked := False\<rparr> = s"
  by (cases s) simp

section \<open>The operations in closed form\<close>

text \<open>Taking one unit: the caller with PID \<open>p\<close> queues up if there is none.\<close>

definition sem_down :: "u64 \<Rightarrow> semaphore \<Rightarrow> semaphore" where
  "sem_down p s =
     (let s = add_value (- 1) s
      in if sem_value s < 0 then s\<lparr>sem_queue := sem_queue_push p (sem_queue s)\<rparr> else s)"

text \<open>Giving one unit back: the first waiter leaves the queue.\<close>

definition sem_up :: "semaphore \<Rightarrow> semaphore" where
  "sem_up s =
     (let s = add_value 1 s
      in if sem_value s \<le> 0 \<and> q_count (sem_queue s) > 0
         then s\<lparr>sem_queue := snd (queue_pop (sem_queue s))\<rparr> else s)"

lemma sem_good_down:
  assumes "sem_good s"
  shows "sem_good (sem_down p s)"
proof -
  have "q_ok (sem_queue_push p (sem_queue s))" using assms by (simp add: sem_good_def sem_queue_push_ok)
  moreover have "q_count (sem_queue_push p (sem_queue s)) \<le> q_count (sem_queue s) + 1"
    by (simp add: sem_queue_push_def)
  ultimately show ?thesis using assms by (auto simp: sem_good_def sem_down_def Let_def)
qed

lemma sem_good_up:
  assumes "sem_good s"
  shows "sem_good (sem_up s)"
proof -
  have "q_count (snd (queue_pop (sem_queue s))) = q_count (sem_queue s) - 1"
    by (simp add: queue_pop_def)
  then show ?thesis
    using assms queue_pop_ok [of "sem_queue s"] by (auto simp: sem_good_def sem_up_def Let_def)
qed

text \<open>The wrap-around: from the least value a unit can be taken, whoever waits.\<close>

lemma sem_down_wraps: "sem_value s = - (2 ^ 63) \<Longrightarrow>
    sem_value (sem_down p s) = 2 ^ 63 - 1 \<and> sem_queue (sem_down p s) = sem_queue s \<and> sem_wrapped (sem_down p s)"
  by (simp add: sem_down_def i64_def signed_take_bit_int_eq_self_iff signed_take_bit_eq_take_bit_shift take_bit_eq_mod Let_def)

lemma sem_lock_free: "\<not> sem_locked (sem_table k i) \<Longrightarrow> sem_lock i k = upd_sem i (\<lambda>s. s\<lparr>sem_locked := True\<rparr>) k"
  by (simp add: sem_lock_def)

lemma sem_wake_tables [simp]:
  "sem_table (sem_wake i k) = (sem_table k)(i := (sem_table k i)\<lparr>sem_queue := snd (queue_pop (sem_queue (sem_table k i))),
      sem_locked := False\<rparr>)"
  "fault (sem_wake i k) = fault k"
  by (simp_all add: sem_wake_def sem_unlock_def case_prod_beta Let_def split: option.split)

lemma sem_wait_table:
  assumes "sems_ok k" and "find_sem (Some nm) k = Some i" and "current_process k = Some c"
  shows "sem_table (snd (sem_wait (Some nm) k)) = (sem_table k)(i := sem_down (pid (proc k c)) (sem_table k i))"
    and "fault (snd (sem_wait (Some nm) k)) = fault k"
  using assms sems_ok_sem [OF assms(1), of i]
  by (simp_all add: sem_wait_def sem_lock_free sem_unlock_def sem_down_def sem_good_def process_current_def Let_def
      add_value_def)

lemma sem_post_table:
  assumes "sems_ok k" and "find_sem (Some nm) k = Some i"
  shows "sem_table (snd (sem_post (Some nm) k)) = (sem_table k)(i := sem_up (sem_table k i))"
    and "fault (snd (sem_post (Some nm) k)) = fault k"
  using assms sems_ok_sem [OF assms(1), of i]
  by (auto simp: sem_post_def sem_lock_free sem_unlock_def sem_up_def sem_good_def Let_def add_value_def
      split: option.split)

section \<open>Every operation keeps the invariant\<close>

lemma sem_wait_ok: "sems_ok k \<Longrightarrow> sems_ok (snd (sem_wait nm k))"
proof (cases "\<exists>s i. nm = Some s \<and> find_sem nm k = Some i")
  case True
  then obtain s i where nm: "nm = Some s" "find_sem (Some s) k = Some i" by auto
  assume k: "sems_ok k"
  show ?thesis
  proof (cases "current_process k")
    case None
    have g: "sem_good (sem_table k i)" by (rule sems_ok_sem [OF k])
    then have "sem_good (add_value (- 1) (sem_table k i))"
      by (auto simp: sem_good_def)
    then show ?thesis
      using g by (intro sems_ok_upd [OF k])
        (auto simp: nm sem_wait_def sem_lock_free sem_unlock_def sem_good_def process_current_def None Let_def
          add_value_def)
  next
    case (Some c)
    show ?thesis
      unfolding nm(1)
      by (rule sems_ok_upd [OF k sem_good_down [OF sems_ok_sem [OF k]] sem_wait_table [OF k nm(2) Some]])
  qed
next
  case False
  then show "sems_ok k \<Longrightarrow> ?thesis" by (cases nm) (auto simp: sem_wait_def split: option.split)
qed

lemma sem_post_ok: "sems_ok k \<Longrightarrow> sems_ok (snd (sem_post nm k))"
proof (cases "\<exists>s i. nm = Some s \<and> find_sem nm k = Some i")
  case True
  then obtain s i where nm: "nm = Some s" "find_sem (Some s) k = Some i" by auto
  assume k: "sems_ok k"
  show ?thesis
    unfolding nm(1)
    by (rule sems_ok_upd [OF k sem_good_up [OF sems_ok_sem [OF k]] sem_post_table [OF k nm(2)]])
next
  case False
  then show "sems_ok k \<Longrightarrow> ?thesis" by (cases nm) (auto simp: sem_post_def split: option.split)
qed

lemma opened_by_current_tables [simp]:
  "sem_table (opened_by_current i k) = sem_table k" "fault (opened_by_current i k) = fault k"
  by (simp_all add: opened_by_current_def split: option.split)

lemma sem_open_ok: "sems_ok k \<Longrightarrow> sems_ok (snd (sem_open nm v k))"
  by (auto simp: sem_open_def sems_ok_def sem_good_def reset_queue_def q_ok_def sem_str_copy_eq split: option.split)

lemma sem_close_ok: "sems_ok k \<Longrightarrow> sems_ok (snd (sem_close nm k))"
  by (auto simp: sem_close_def sems_ok_def sem_good_def reset_queue_def q_ok_def Let_def split: option.split)

text \<open>What the death of a process does to a semaphore it has opened, holds or waits for.\<close>

definition sem_forget :: "bool \<Rightarrow> bool \<Rightarrow> u64 \<Rightarrow> semaphore \<Rightarrow> semaphore" where
  "sem_forget opened held n s =
     (if open_count s \<le> 0 then s
      else
        let (found, q) = queue_remove_pid n (sem_queue s);
            s = s\<lparr>sem_queue := q, open_count := (if opened then open_count s - 1 else open_count s)\<rparr>
        in if found then add_value 1 s else if held then sem_up s else s)"

lemma sem_cleanup_one_tables:
  assumes k: "sems_ok k"
  shows "sem_table (sem_cleanup_one p n i k) =
      (sem_table k)(i := sem_forget (sem_bit i (opened_sems (proc k p))) (sem_bit i (held_sems (proc k p))) n (sem_table k i))"
    and "fault (sem_cleanup_one p n i k) = fault k"
  using sems_ok_sem [OF k, of i]
  by (simp_all add: sem_cleanup_one_def sem_forget_def sem_lock_free sem_unlock_def sem_up_def sem_good_def
      case_prod_beta Let_def add_value_def)

lemma sem_forget_good:
  assumes g: "sem_good s"
  shows "sem_good (sem_forget opened held n s)"
proof -
  let ?q = "snd (queue_remove_pid n (sem_queue s))"
  let ?s = "s\<lparr>sem_queue := ?q, open_count := (if opened then open_count s - 1 else open_count s)\<rparr>"
  have q: "q_ok (sem_queue s)" using g by (simp add: sem_good_def)
  have len: "q_count ?q = length (filter (\<lambda>x. x \<noteq> n) (pids (sem_queue s)))"
    using pids_queue_remove_pid [OF q, of n] length_pids [of ?q] by simp
  have le: "q_count ?q \<le> q_count (sem_queue s)"
    using length_filter_le [of "\<lambda>x. x \<noteq> n" "pids (sem_queue s)"] unfolding len by simp
  have lt: "q_count ?q < q_count (sem_queue s)" if "fst (queue_remove_pid n (sem_queue s))"
  proof -
    have "n \<in> set (pids (sem_queue s))" using that queue_remove_pid_found [OF q] by simp
    then show ?thesis using length_filter_less [of n "pids (sem_queue s)" "\<lambda>x. x \<noteq> n"] unfolding len by simp
  qed
  have g1: "sem_good ?s" if "0 < open_count s"
    using g le queue_remove_pid_ok [OF q] that by (auto simp: sem_good_def)
  have up1: "sem_good (add_value 1 ?s)"
    if "0 < open_count s" "fst (queue_remove_pid n (sem_queue s))"
    using g1 [OF that(1)] g lt [OF that(2)] by (auto simp: sem_good_def)
  show ?thesis
    using g g1 sem_good_up [OF g1] up1 by (simp add: sem_forget_def case_prod_beta Let_def)
qed

lemma sem_cleanup_one_ok:
  assumes k: "sems_ok k"
  shows "sems_ok (sem_cleanup_one p n i k)"
  by (rule sems_ok_upd [OF k sem_forget_good [OF sems_ok_sem [OF k]] sem_cleanup_one_tables [OF k]])

lemma sem_cleanup_ok: "sems_ok k \<Longrightarrow> sems_ok (sem_cleanup_for_process n k)"
proof -
  have "sems_ok k \<Longrightarrow> sems_ok (fold (sem_cleanup_one p n) l k)" for p l
    by (induction l arbitrary: k) (simp_all add: sem_cleanup_one_ok)
  then show "sems_ok k \<Longrightarrow> ?thesis"
    by (simp add: sem_cleanup_for_process_def sems_ok_def split: option.split)
qed

text \<open>The bits of \<open>held_sems\<close> and \<open>opened_sems\<close>.\<close>

lemma sem_bit_eq: "sem_bit i x \<longleftrightarrow> bit x i"
proof -
  have "drop_bit i x AND 1 = (if bit x i then 1 else 0)"
    by (simp add: and_one_eq bit_iff_odd_drop_bit mod2_eq_if)
  then show ?thesis by (simp add: sem_bit_def)
qed

lemma sem_bit_clear: "i < 32 \<Longrightarrow> sem_bit i (clear_sem_bit j x) \<longleftrightarrow> sem_bit i x \<and> i \<noteq> j"
  by (auto simp: sem_bit_eq clear_sem_bit_def bit_simps)

lemma sem_bit_set: "i < 32 \<Longrightarrow> sem_bit i (set_sem_bit j x) \<longleftrightarrow> sem_bit i x \<or> i = j"
  by (auto simp: sem_bit_eq set_sem_bit_def bit_simps)

lemma sem_bit_0 [simp]: "\<not> sem_bit i 0"
  by (simp add: sem_bit_eq)

text \<open>The iteration for one semaphore leaves the bits of the others alone.\<close>

lemma process_unblock_bits [simp]:
  "held_sems (proc (process_unblock n k) q) = held_sems (proc k q)"
  "opened_sems (proc (process_unblock n k) q) = opened_sems (proc k q)"
  by (simp_all add: process_unblock_def Let_def split: option.split)

lemma sem_wake_bits:
  "i < 32 \<Longrightarrow> i \<noteq> j \<Longrightarrow> sem_bit i (held_sems (proc (sem_wake j k) q)) = sem_bit i (held_sems (proc k q))"
  "opened_sems (proc (sem_wake j k) q) = opened_sems (proc k q)"
  by (simp_all add: sem_wake_def sem_unlock_def case_prod_beta Let_def sem_bit_set split: option.split)

lemma sem_lock_proc [simp]: "process_table (sem_lock i k) = process_table k"
  by (simp add: sem_lock_def)

lemma sem_cleanup_one_bits:
  assumes "i < 32" and "i \<noteq> j"
  shows "sem_bit i (held_sems (proc (sem_cleanup_one p n j k) p)) = sem_bit i (held_sems (proc k p))"
    and "sem_bit i (opened_sems (proc (sem_cleanup_one p n j k) p)) = sem_bit i (opened_sems (proc k p))"
  using assms
  by (simp_all add: sem_cleanup_one_def sem_unlock_def case_prod_beta Let_def sem_wake_bits sem_bit_clear)

lemma sem_cleanup_table:
  assumes "sems_ok k" and "process_get n k = Some p"
  shows "sem_table (sem_cleanup_for_process n k) i =
    (if i < MAX_SEMS
     then sem_forget (sem_bit i (opened_sems (proc k p))) (sem_bit i (held_sems (proc k p))) n (sem_table k i)
     else sem_table k i)"
proof -
  let ?f = "\<lambda>m. fold (sem_cleanup_one p n) [0..<m] k"
  have "sems_ok (?f m) \<and>
    (\<forall>i<32. m \<le> i \<longrightarrow> sem_bit i (held_sems (proc (?f m) p)) = sem_bit i (held_sems (proc k p)) \<and>
       sem_bit i (opened_sems (proc (?f m) p)) = sem_bit i (opened_sems (proc k p))) \<and>
    sem_table (?f m) = (\<lambda>i. if i < m then sem_forget (sem_bit i (opened_sems (proc k p)))
        (sem_bit i (held_sems (proc k p))) n (sem_table k i) else sem_table k i)" if "m \<le> MAX_SEMS" for m
    using that
  proof (induction m)
    case 0
    then show ?case using assms(1) by simp
  next
    case (Suc m)
    then have m: "m < 32" and ok: "sems_ok (?f m)"
      and bits: "\<And>i. i < 32 \<Longrightarrow> m \<le> i \<Longrightarrow> sem_bit i (held_sems (proc (?f m) p)) = sem_bit i (held_sems (proc k p)) \<and>
       sem_bit i (opened_sems (proc (?f m) p)) = sem_bit i (opened_sems (proc k p))"
      and tab: "sem_table (?f m) = (\<lambda>i. if i < m then sem_forget (sem_bit i (opened_sems (proc k p)))
        (sem_bit i (held_sems (proc k p))) n (sem_table k i) else sem_table k i)" by auto
    have f: "?f (Suc m) = sem_cleanup_one p n m (?f m)" by simp
    have "sem_table (?f (Suc m)) = (\<lambda>i. if i < Suc m then sem_forget (sem_bit i (opened_sems (proc k p)))
        (sem_bit i (held_sems (proc k p))) n (sem_table k i) else sem_table k i)"
      unfolding f sem_cleanup_one_tables(1) [OF ok] using bits [OF m] tab by (auto simp: fun_eq_iff less_Suc_eq)
    moreover have "sem_bit i (held_sems (proc (?f (Suc m)) p)) = sem_bit i (held_sems (proc k p)) \<and>
       sem_bit i (opened_sems (proc (?f (Suc m)) p)) = sem_bit i (opened_sems (proc k p))" if "i < 32" "Suc m \<le> i" for i
      unfolding f using sem_cleanup_one_bits [OF that(1), of m p n "?f m"] bits [OF that(1)] that(2) by simp
    ultimately show ?case using sem_cleanup_one_ok [OF ok] unfolding f by blast
  qed
  from this [of MAX_SEMS] have "sem_table (?f MAX_SEMS) = (\<lambda>i. if i < MAX_SEMS then
      sem_forget (sem_bit i (opened_sems (proc k p))) (sem_bit i (held_sems (proc k p))) n (sem_table k i)
      else sem_table k i)" by simp
  then show ?thesis using assms(2) by (simp add: sem_cleanup_for_process_def)
qed

section \<open>In all runs\<close>

lemma sem_table_init:
  "sem_table (sem_init k) i = (if i < MAX_SEMS then
     (sem_table k i)\<lparr>open_count := 0, sem_value := 0, sem_queue := empty_q,
       sem_name := (sem_name (sem_table k i))[0 := NUL], sem_locked := False\<rparr> else sem_table k i)"
proof -
  have "sem_table (fold (\<lambda>i. upd_sem i f) [0..<n] k) i = (if i < n then f (sem_table k i) else sem_table k i)" for f n
    by (induction n) auto
  then show ?thesis by (simp add: sem_init_def)
qed

lemma sem_init_fault [simp]: "fault (sem_init k) = fault k"
  using sem_init_eq [of k] by auto

lemma fd_init_frame [simp]: "sem_table (fd_init k) = sem_table k" "fault (fd_init k) = fault k"
  "pipe_table (fd_init k) = pipe_table k" "kbd (fd_init k) = kbd k" "heap (fd_init k) = heap k"
  using fd_init_eq [of k] by auto

lemma sems_ok_init: "sems_ok (init_tables v tramp m)"
  by (simp add: sems_ok_def init_tables_def sem_table_init scheduler_init_def pipe_init_def process_init_def
      mm_init_def bss_kernel_def zero_sem_def sem_good_def empty_q_def q_ok_def)

interpretation sems: pipe_frame "\<lambda>k k'. sems_ok k \<longrightarrow> sems_ok k'"
  by unfold_locales (auto simp: sems_ok_def)

lemma sems_ok_others:
  "sems_ok k \<Longrightarrow> sems_ok (upd_fd i d k)"
  "sems_ok k \<Longrightarrow> same_stores k k' \<Longrightarrow> sems_ok k'"
  "sems_ok k \<Longrightarrow> sems_ok (snd (mm_malloc sz k))"
  "sems_ok k \<Longrightarrow> sems_ok (snd (mm_malloc_kernel sz k))"
  "sems_ok k \<Longrightarrow> sems_ok (mm_free p k)"
  by (simp_all add: sems_ok_def same_stores_def mm_free_spin)

interpretation sems: fd_frame "\<lambda>k k'. sems_ok k \<longrightarrow> sems_ok k'"
  by unfold_locales (simp add: sems_ok_others)

interpretation sems: store_frame "\<lambda>k k'. sems_ok k \<longrightarrow> sems_ok k'"
  by unfold_locales
     (blast intro: sem_open_ok sem_wait_ok sem_post_ok sem_close_ok sem_cleanup_ok sems_ok_others)+

interpretation sems: invariant sems_ok
  by unfold_locales (rule sems_ok_init)

lemma reachable_sems_ok: "reachable k \<Longrightarrow> sems_ok k"
  by (rule sems.J_reachable)

end
