(* ===== verification/Pipe_Inv.thy ===== *)
theory Pipe_Inv
  imports Sem_Inv
begin

text \<open>
  The pipes and descriptors in all runs. \<open>pipes_ok\<close> is about each pipe alone: the ring and the
  two wait queues. \<open>fds_ok\<close> ties the descriptor table to the pipe table: the number of open ends
  that a pipe counts is the sum of the reference counts of its descriptors, and a descriptor
  never points to a pipe that has been given back.
\<close>

section \<open>The byte ring of a pipe\<close>

definition pipe_bytes :: "pipe \<Rightarrow> char list" where
  "pipe_bytes s = ring_list PIPE_BUFFER_SIZE (p_buffer s) (read_idx s) (p_count s)"

definition ring_ok :: "pipe \<Rightarrow> bool" where
  "ring_ok s \<longleftrightarrow> read_idx s < PIPE_BUFFER_SIZE \<and> p_count s \<le> PIPE_BUFFER_SIZE \<and>
     write_idx s = (read_idx s + p_count s) mod PIPE_BUFFER_SIZE"

lemma length_pipe_bytes [simp]: "length (pipe_bytes s) = p_count s"
  by (simp add: pipe_bytes_def)

interpretation pipe_ring: bounded_fifo pipe_put pipe_get pipe_bytes ring_ok PIPE_BUFFER_SIZE
proof
  fix q :: pipe and x :: char
  assume q: "ring_ok q"
  show "length (pipe_bytes q) < PIPE_BUFFER_SIZE \<Longrightarrow> ring_ok (pipe_put x q)"
    using q by (simp add: ring_ok_def pipe_put_def mod_Suc_eq)
  show "length (pipe_bytes q) < PIPE_BUFFER_SIZE \<Longrightarrow> pipe_bytes (pipe_put x q) = pipe_bytes q @ [x]"
    using q by (simp add: ring_ok_def pipe_put_def pipe_bytes_def ring_list_write)
  show "pipe_bytes q \<noteq> [] \<Longrightarrow> ring_ok (snd (pipe_get q))"
    using q mod_pop [of "p_count q" "read_idx q" PIPE_BUFFER_SIZE]
    by (simp add: ring_ok_def pipe_get_def pipe_bytes_def le_diff_conv)
  show "pipe_bytes q \<noteq> [] \<Longrightarrow> pipe_bytes q = fst (pipe_get q) # pipe_bytes (snd (pipe_get q))"
    using q by (simp add: ring_ok_def pipe_get_def pipe_bytes_def ring_list_head)
  show "length (pipe_bytes q) \<le> PIPE_BUFFER_SIZE"
    using q by (simp add: ring_ok_def)
qed

text \<open>What the copy loops leave alone.\<close>

definition no_ring :: "pipe \<Rightarrow> pipe" where
  "no_ring s = s\<lparr>p_buffer := \<lambda>_. NUL, read_idx := 0, write_idx := 0, p_count := 0\<rparr>"

lemma no_ring_put [simp]: "no_ring (pipe_put c s) = no_ring s"
  by (simp add: no_ring_def pipe_put_def)

lemma no_ring_get [simp]: "no_ring (snd (pipe_get s)) = no_ring s"
  by (simp add: no_ring_def pipe_get_def)

lemma no_ring_push_list [simp]: "no_ring (push_list pipe_put bs s) = no_ring s"
  by (induction bs arbitrary: s) simp_all

lemma no_ring_pop_n [simp]: "no_ring (snd (pop_n pipe_get n s)) = no_ring s"
  by (induction n arbitrary: s) (auto simp: case_prod_beta)

lemma no_ring_fields:
  assumes "no_ring s' = no_ring s"
  shows "open_read s' = open_read s" "open_write s' = open_write s" "wait_readers s' = wait_readers s"
    "wait_writers s' = wait_writers s" "in_use s' = in_use s" "is_named s' = is_named s"
    "p_eof s' = p_eof s" "opens s' = opens s" "p_name s' = p_name s"
  using assms by (cases s; cases s'; simp add: no_ring_def)+

section \<open>Each pipe alone\<close>

definition waitq_ok :: "pidq \<Rightarrow> bool" where
  "waitq_ok q \<longleftrightarrow> q_ok q \<and> distinct (pids q)"

definition pipe_good :: "pipe \<Rightarrow> bool" where
  "pipe_good s \<longleftrightarrow> ring_ok s \<and> waitq_ok (wait_readers s) \<and> waitq_ok (wait_writers s) \<and>
     length (p_name s) = PIPE_NAME_LEN"

definition pipes_ok :: "kernel \<Rightarrow> bool" where
  "pipes_ok k \<longleftrightarrow> (\<forall>i. pipe_good (pipe_table k i))"

lemma pipes_ok_cong: "pipe_table k' = pipe_table k \<Longrightarrow> pipes_ok k' = pipes_ok k"
  by (simp add: pipes_ok_def)

lemma pipes_ok_upd: "pipes_ok k \<Longrightarrow> pipe_good (f (pipe_table k i)) \<Longrightarrow> pipes_ok (upd_pipe i f k)"
  by (simp add: pipes_ok_def)

lemma pipes_ok_pipe: "pipes_ok k \<Longrightarrow> pipe_good (pipe_table k i)"
  by (simp add: pipes_ok_def)

lemma waitq_ok_empty [simp]: "waitq_ok q \<Longrightarrow> waitq_ok (q\<lparr>q_head := 0, q_tail := 0, q_count := 0\<rparr>)"
  by (simp add: waitq_ok_def q_ok_def pids_def)

lemma waitq_ok_push: "waitq_ok q \<Longrightarrow> waitq_ok (pipe_queue_push n q)"
  using pids_pipe_queue_push [of q n] pipe_queue_push_ok [of q n] by (auto simp: waitq_ok_def)

lemma waitq_ok_pop: "waitq_ok q \<Longrightarrow> 0 < q_count q \<Longrightarrow> waitq_ok (snd (queue_pop q))"
  using pids_queue_pop [of q] queue_pop_ok [of q] by (metis distinct.simps(2) waitq_ok_def)

lemma waitq_ok_remove: "waitq_ok q \<Longrightarrow> waitq_ok (snd (queue_remove_pid n q))"
  using pids_queue_remove_pid [of q n] queue_remove_pid_ok [of q n] by (simp add: waitq_ok_def)

lemma process_block_pipe_ok [simp]: "pipes_ok (process_block n k) = pipes_ok k"
  by (rule pipes_ok_cong) simp

lemma process_unblock_pipe_ok [simp]: "pipes_ok (process_unblock n k) = pipes_ok k"
  by (rule pipes_ok_cong) simp

lemma wake_reader_ok: "pipes_ok k \<Longrightarrow> pipes_ok (pipe_wake_reader p k)"
  using pipes_ok_pipe [of k p] waitq_ok_pop [of "wait_readers (pipe_table k p)"]
  by (auto simp: pipe_wake_reader_def case_prod_beta Let_def pipe_good_def ring_ok_def intro!: pipes_ok_upd)

lemma wake_writer_ok: "pipes_ok k \<Longrightarrow> pipes_ok (pipe_wake_writer p k)"
  using pipes_ok_pipe [of k p] waitq_ok_pop [of "wait_writers (pipe_table k p)"]
  by (auto simp: pipe_wake_writer_def case_prod_beta Let_def pipe_good_def ring_ok_def intro!: pipes_ok_upd)

lemma wake_all_readers_ok: "pipes_ok k \<Longrightarrow> pipes_ok (pipe_wake_all_readers p k)"
proof (induction p k rule: pipe_wake_all_readers.induct)
  case (1 p k)
  then show ?case by (subst pipe_wake_all_readers.simps) (simp add: wake_reader_ok)
qed

lemma wake_all_writers_ok: "pipes_ok k \<Longrightarrow> pipes_ok (pipe_wake_all_writers p k)"
proof (induction p k rule: pipe_wake_all_writers.induct)
  case (1 p k)
  then show ?case by (subst pipe_wake_all_writers.simps) (simp add: wake_writer_ok)
qed

lemma pipe_good_reset: "pipe_good s \<Longrightarrow> pipe_good (pipe_reset s)"
  by (simp add: pipe_good_def pipe_reset_def ring_ok_def)

lemma pipe_good_simps [simp]:
  "pipe_good (s\<lparr>open_read := n\<rparr>) = pipe_good s" "pipe_good (s\<lparr>open_write := n\<rparr>) = pipe_good s"
  "pipe_good (s\<lparr>p_eof := b\<rparr>) = pipe_good s" "pipe_good (s\<lparr>opens := n\<rparr>) = pipe_good s"
  "pipe_good (s\<lparr>in_use := b\<rparr>) = pipe_good s" "pipe_good (s\<lparr>is_named := b\<rparr>) = pipe_good s"
  by (simp_all add: pipe_good_def ring_ok_def)

lemma length_pipe_name_copy [simp]: "length (pipe_name_copy d j s) = length d"
  by (induction d j s rule: pipe_name_copy.induct) simp_all

lemma pipe_alloc_ok: "pipes_ok k \<Longrightarrow> pipes_ok (snd (pipe_alloc k))"
  by (auto simp: pipe_alloc_def pipe_good_reset pipes_ok_pipe intro!: pipes_ok_upd split: option.split)

lemma pipe_open_ok: "pipes_ok k \<Longrightarrow> pipes_ok (snd (pipe_open nm k))"
proof -
  assume k: "pipes_ok k"
  obtain r k1 where a: "pipe_alloc k = (r, k1)" by (cases "pipe_alloc k")
  have k1: "pipes_ok k1" using pipe_alloc_ok [OF k] by (simp add: a)
  have nm: "pipe_good (s\<lparr>p_name := pipe_name_copy (p_name s) 0 x\<rparr>)" if "pipe_good s" for s x
    using that by (simp add: pipe_good_def ring_ok_def)
  show ?thesis
    using k k1 by (auto simp: pipe_open_def a pipes_ok_pipe nm intro!: pipes_ok_upd split: option.split)
qed

lemma pipe_maybe_free_ok: "pipes_ok k \<Longrightarrow> pipes_ok (pipe_maybe_free p k)"
  by (auto simp: pipe_maybe_free_def pipe_good_reset pipes_ok_pipe intro!: pipes_ok_upd)

lemma pipe_open_read_ok: "pipes_ok k \<Longrightarrow> pipes_ok (pipe_open_read d k)"
  by (auto simp: pipe_open_read_def Let_def pipes_ok_pipe intro!: wake_all_writers_ok pipes_ok_upd split: option.split)

lemma pipe_open_write_ok: "pipes_ok k \<Longrightarrow> pipes_ok (pipe_open_write d k)"
  by (auto simp: pipe_open_write_def Let_def pipes_ok_pipe intro!: wake_all_readers_ok pipes_ok_upd split: option.split)

lemma pipe_close_read_ok: "pipes_ok k \<Longrightarrow> pipes_ok (pipe_close_read d k)"
  by (auto simp: pipe_close_read_def Let_def pipes_ok_pipe
      intro!: wake_all_writers_ok pipe_maybe_free_ok pipes_ok_upd split: option.split)

lemma pipe_close_write_ok: "pipes_ok k \<Longrightarrow> pipes_ok (pipe_close_write d k)"
  by (auto simp: pipe_close_write_def Let_def pipes_ok_pipe
      intro!: wake_all_readers_ok pipe_maybe_free_ok pipes_ok_upd split: option.split)

lemma pipe_good_waitq:
  "pipe_good s \<Longrightarrow> waitq_ok q \<Longrightarrow> pipe_good (s\<lparr>wait_readers := q\<rparr>)"
  "pipe_good s \<Longrightarrow> waitq_ok q \<Longrightarrow> pipe_good (s\<lparr>wait_writers := q\<rparr>)"
  by (simp_all add: pipe_good_def ring_ok_def)

lemma pipe_good_readers: "pipe_good s \<Longrightarrow> waitq_ok (wait_readers s)"
  and pipe_good_writers: "pipe_good s \<Longrightarrow> waitq_ok (wait_writers s)"
  by (simp_all add: pipe_good_def)

lemma block_reader_ok: "pipes_ok k \<Longrightarrow> pipes_ok (block_reader p k)"
  by (auto simp: block_reader_def Let_def pipes_ok_pipe pipe_good_readers
      intro!: pipes_ok_upd pipe_good_waitq waitq_ok_push split: option.split)

lemma block_writer_ok: "pipes_ok k \<Longrightarrow> pipes_ok (block_writer p k)"
  by (auto simp: block_writer_def Let_def pipes_ok_pipe pipe_good_writers
      intro!: pipes_ok_upd pipe_good_waitq waitq_ok_push split: option.split)

lemma pipe_cleanup_ok: "pipes_ok k \<Longrightarrow> pipes_ok (pipe_cleanup_for_process n k)"
proof -
  let ?f = "\<lambda>i k. if \<not> in_use (pipe_table k i) then k
        else upd_pipe i (\<lambda>s. s\<lparr>wait_readers := snd (queue_remove_pid n (wait_readers s)),
                               wait_writers := snd (queue_remove_pid n (wait_writers s))\<rparr>) k"
  have "pipes_ok k \<Longrightarrow> pipes_ok (fold ?f l k)" for l k
    by (induction l arbitrary: k)
       (simp_all add: pipes_ok_upd pipe_good_waitq pipes_ok_pipe pipe_good_readers pipe_good_writers waitq_ok_remove)
  then show "pipes_ok k \<Longrightarrow> ?thesis" by (simp add: pipe_cleanup_for_process_def)
qed

lemma pipe_good_ring:
  "pipe_good s \<Longrightarrow> no_ring s' = no_ring s \<Longrightarrow> ring_ok s' \<Longrightarrow> pipe_good s'"
  using no_ring_fields [of s' s] by (simp add: pipe_good_def)

lemma pipe_read_ok: "pipes_ok k \<Longrightarrow> pipes_ok (snd (snd (pipe_read d null cnt k)))"
proof (cases d)
  case (Some p)
  assume k: "pipes_ok k"
  let ?s = "pipe_table k p"
  let ?n = "if unat cnt > p_count ?s then p_count ?s else unat cnt"
  have g: "pipe_good ?s" by (rule pipes_ok_pipe [OF k])
  then have "ring_ok (snd (pop_n pipe_get ?n ?s))"
    using pipe_ring.pop_n_contents [of ?s ?n] by (simp add: pipe_good_def)
  then have "pipe_good (snd (pop_n pipe_get ?n ?s))" by (rule pipe_good_ring [OF g no_ring_pop_n])
  then show ?thesis
    using k by (auto simp: pipe_read_def Some Let_def case_prod_beta
        intro!: block_reader_ok wake_writer_ok pipes_ok_upd)
qed (simp add: pipe_read_def)

lemma pipe_write_ok: "pipes_ok k \<Longrightarrow> pipes_ok (snd (pipe_write d buf cnt k))"
proof (cases "d = None \<or> buf = None")
  case False
  then obtain p bytes where d: "d = Some p" "buf = Some bytes" by auto
  assume k: "pipes_ok k"
  let ?s = "pipe_table k p"
  let ?n = "if unat cnt < PIPE_BUFFER_SIZE - p_count ?s then unat cnt else PIPE_BUFFER_SIZE - p_count ?s"
  have g: "pipe_good ?s" by (rule pipes_ok_pipe [OF k])
  then have "p_count ?s \<le> PIPE_BUFFER_SIZE" by (simp add: pipe_good_def ring_ok_def)
  then have "p_count ?s + length (take ?n bytes) \<le> PIPE_BUFFER_SIZE" by auto
  then have "ring_ok (push_list pipe_put (take ?n bytes) ?s)"
    using g pipe_ring.push_list_contents [of ?s "take ?n bytes"] unfolding pipe_good_def length_pipe_bytes by blast
  then have "pipe_good (push_list pipe_put (take ?n bytes) ?s)"
    by (rule pipe_good_ring [OF g no_ring_push_list])
  then show ?thesis
    using k by (auto simp: pipe_write_def d Let_def
        intro!: block_writer_ok wake_reader_ok pipes_ok_upd)
qed (auto simp: pipe_write_def split: option.split)

lemma pipes_ok_init: "pipes_ok (init_tables v tramp m)"
proof -
  have "pipe_table (init_tables v tramp m) = (\<lambda>_. zero_pipe)"
    using sem_init_eq [of "scheduler_init (pipe_init (fd_init (process_init (mm_init HEAP_START HEAP_SIZE (bss_kernel v tramp m)))))"]
    by (auto simp: init_tables_def scheduler_init_def pipe_init_def process_init_def mm_init_def bss_kernel_def)
  then show ?thesis
    by (simp add: pipes_ok_def pipe_good_def zero_pipe_def ring_ok_def waitq_ok_def)
qed

lemma pipes_ok_others:
  "pipes_ok (upd_fd i d k) = pipes_ok k" "pipes_ok (upd_sem i f k) = pipes_ok k"
  "pipes_ok (upd_proc i h k) = pipes_ok k" "pipes_ok (set_fault e k) = pipes_ok k"
  "pipes_ok (snd (mm_malloc sz k)) = pipes_ok k" "pipes_ok (snd (mm_malloc_kernel sz k)) = pipes_ok k"
  "pipes_ok (mm_free a k) = pipes_ok k"
  by (rule pipes_ok_cong, simp)+

lemma pipes_ok_same: "pipes_ok k \<Longrightarrow> same_stores k k' \<Longrightarrow> pipes_ok k'"
  by (simp add: pipes_ok_def same_stores_def)

interpretation pipes: sem_frame "\<lambda>k k'. pipes_ok k \<longrightarrow> pipes_ok k'"
  by unfold_locales (simp_all add: pipes_ok_others)

interpretation pipes: pipe_ops "\<lambda>k k'. pipes_ok k \<longrightarrow> pipes_ok k'"
  by unfold_locales
     (blast intro: pipe_open_ok pipe_open_read_ok pipe_open_write_ok pipe_close_read_ok pipe_close_write_ok
        pipe_read_ok pipe_write_ok pipe_cleanup_ok)+

interpretation pipes: fd_frame "\<lambda>k k'. pipes_ok k \<longrightarrow> pipes_ok k'"
  by unfold_locales (simp add: pipes_ok_others)

interpretation pipes: store_frame "\<lambda>k k'. pipes_ok k \<longrightarrow> pipes_ok k'"
  by unfold_locales (auto simp: pipes_ok_others intro: pipes_ok_same)

interpretation pipes: invariant pipes_ok
  by unfold_locales (rule pipes_ok_init)

lemma reachable_pipes_ok: "reachable k \<Longrightarrow> pipes_ok k"
  by (rule pipes.J_reachable)

end
