(* ===== verification/Fd_Inv.thy ===== *)
theory Fd_Inv
  imports Pipe_Inv
begin

text \<open>
  The descriptor table and the pipe table together: reference counts.
\<close>

section \<open>The open ends of a pipe\<close>

definition ends :: "pipe \<Rightarrow> nat \<times> nat \<times> bool" where
  "ends s = (open_read s, open_write s, in_use s)"

lemma ends_simps [simp]:
  "ends (s\<lparr>wait_readers := q\<rparr>) = ends s" "ends (s\<lparr>wait_writers := q\<rparr>) = ends s"
  "ends (s\<lparr>p_eof := b\<rparr>) = ends s" "ends (s\<lparr>opens := n\<rparr>) = ends s"
  "ends (s\<lparr>p_name := nm\<rparr>) = ends s" "ends (s\<lparr>is_named := b\<rparr>) = ends s"
  by (simp_all add: ends_def)

lemma ends_no_ring: "no_ring s' = no_ring s \<Longrightarrow> ends s' = ends s"
  using no_ring_fields [of s' s] by (simp add: ends_def)

lemma wake_reader_ends [simp]:
  "ends (pipe_table (pipe_wake_reader p k) q) = ends (pipe_table k q)"
  "fd_table (pipe_wake_reader p k) = fd_table k"
  by (simp_all add: pipe_wake_reader_def case_prod_beta)

lemma wake_writer_ends [simp]:
  "ends (pipe_table (pipe_wake_writer p k) q) = ends (pipe_table k q)"
  "fd_table (pipe_wake_writer p k) = fd_table k"
  by (simp_all add: pipe_wake_writer_def case_prod_beta)

lemma wake_all_readers_ends [simp]:
  "ends (pipe_table (pipe_wake_all_readers p k) q) = ends (pipe_table k q) \<and>
   fd_table (pipe_wake_all_readers p k) = fd_table k"
proof (induction p k rule: pipe_wake_all_readers.induct)
  case (1 p k)
  then show ?case by (subst (1 2) pipe_wake_all_readers.simps) simp
qed

lemma wake_all_writers_ends [simp]:
  "ends (pipe_table (pipe_wake_all_writers p k) q) = ends (pipe_table k q) \<and>
   fd_table (pipe_wake_all_writers p k) = fd_table k"
proof (induction p k rule: pipe_wake_all_writers.induct)
  case (1 p k)
  then show ?case by (subst (1 2) pipe_wake_all_writers.simps) simp
qed

lemma open_read_ends:
  "ends (pipe_table (pipe_open_read (Some p) k) q) =
     (if q = p then (open_read (pipe_table k p) + 1, open_write (pipe_table k p), in_use (pipe_table k p))
      else ends (pipe_table k q))"
  "fd_table (pipe_open_read d k) = fd_table k"
  by (auto simp: pipe_open_read_def Let_def ends_def [of "open_read_update _ _"] split: option.split)

lemma open_write_ends:
  "ends (pipe_table (pipe_open_write (Some p) k) q) =
     (if q = p then (open_read (pipe_table k p), open_write (pipe_table k p) + 1, in_use (pipe_table k p))
      else ends (pipe_table k q))"
  "fd_table (pipe_open_write d k) = fd_table k"
  by (auto simp: pipe_open_write_def Let_def ends_def [of "open_write_update _ _"] split: option.split)

definition freed :: "nat \<times> nat \<times> bool \<Rightarrow> nat \<times> nat \<times> bool" where
  "freed e = (if fst e = 0 \<and> fst (snd e) = 0 then (0, 0, False) else e)"

lemma maybe_free_ends:
  "ends (pipe_table (pipe_maybe_free p k) q) =
     (if q = p then freed (ends (pipe_table k p)) else ends (pipe_table k q))"
  "fd_table (pipe_maybe_free p k) = fd_table k"
  by (auto simp: pipe_maybe_free_def freed_def ends_def pipe_reset_def)

lemma close_read_ends:
  "ends (pipe_table (pipe_close_read (Some p) k) q) =
     (if q = p then freed (open_read (pipe_table k p) - 1, open_write (pipe_table k p), in_use (pipe_table k p))
      else ends (pipe_table k q))"
  "fd_table (pipe_close_read d k) = fd_table k"
  by (auto simp: pipe_close_read_def Let_def maybe_free_ends ends_def [of "open_read_update _ _"]
      ends_def [of "pipe_table k p"] split: option.split)

lemma close_write_ends:
  "ends (pipe_table (pipe_close_write (Some p) k) q) =
     (if q = p then freed (open_read (pipe_table k p), open_write (pipe_table k p) - 1, in_use (pipe_table k p))
      else ends (pipe_table k q))"
  "fd_table (pipe_close_write d k) = fd_table k"
  by (auto simp: pipe_close_write_def Let_def maybe_free_ends ends_def [of "open_write_update _ _"]
      ends_def [of "pipe_table k p"] split: option.split)

lemma block_reader_ends [simp]:
  "ends (pipe_table (block_reader p k) q) = ends (pipe_table k q)" "fd_table (block_reader p k) = fd_table k"
  by (simp_all add: block_reader_def Let_def split: option.split)

lemma block_writer_ends [simp]:
  "ends (pipe_table (block_writer p k) q) = ends (pipe_table k q)" "fd_table (block_writer p k) = fd_table k"
  by (simp_all add: block_writer_def Let_def split: option.split)

lemma pipe_read_ends:
  "ends (pipe_table (snd (snd (pipe_read d null cnt k))) q) = ends (pipe_table k q)"
  "fd_table (snd (snd (pipe_read d null cnt k))) = fd_table k"
  by (auto simp: pipe_read_def Let_def case_prod_beta ends_no_ring [OF no_ring_pop_n] split: option.split)

lemma pipe_write_ends:
  "ends (pipe_table (snd (pipe_write d buf cnt k)) q) = ends (pipe_table k q)"
  "fd_table (snd (pipe_write d buf cnt k)) = fd_table k"
  by (auto simp: pipe_write_def Let_def ends_no_ring [OF no_ring_push_list] split: option.split)

lemma pipe_cleanup_ends:
  "ends (pipe_table (pipe_cleanup_for_process n k) q) = ends (pipe_table k q)"
  "fd_table (pipe_cleanup_for_process n k) = fd_table k"
proof -
  let ?f = "\<lambda>i k. if \<not> in_use (pipe_table k i) then k
        else upd_pipe i (\<lambda>s. s\<lparr>wait_readers := snd (queue_remove_pid n (wait_readers s)),
                               wait_writers := snd (queue_remove_pid n (wait_writers s))\<rparr>) k"
  have "ends (pipe_table (fold ?f l k) q) = ends (pipe_table k q) \<and> fd_table (fold ?f l k) = fd_table k" for l k
    by (induction l arbitrary: k) auto
  then show "ends (pipe_table (pipe_cleanup_for_process n k) q) = ends (pipe_table k q)"
    "fd_table (pipe_cleanup_for_process n k) = fd_table k"
    by (simp_all add: pipe_cleanup_for_process_def)
qed

section \<open>The invariant\<close>

abbreviation pipe_end :: "fd_type \<Rightarrow> bool" where
  "pipe_end t \<equiv> t = FD_PIPE_READ \<or> t = FD_PIPE_WRITE"

definition contrib :: "fd_type \<Rightarrow> nat \<Rightarrow> fdesc \<Rightarrow> nat" where
  "contrib t p d = (if fd_type d = t \<and> fd_data d = Some p then refcount d else 0)"

definition refs :: "fd_type \<Rightarrow> nat \<Rightarrow> (nat \<Rightarrow> fdesc) \<Rightarrow> nat" where
  "refs t p f = (\<Sum>i<MAX_FDS. contrib t p (f i))"

definition fds_ok :: "kernel \<Rightarrow> bool" where
  "fds_ok k \<longleftrightarrow>
     (\<forall>i<MAX_FDS. pipe_end (fd_type (fd_table k i)) \<longrightarrow> 0 < refcount (fd_table k i) \<and>
        (\<exists>p<MAX_PIPES. fd_data (fd_table k i) = Some p \<and> in_use (pipe_table k p))) \<and>
     (\<forall>p. open_read (pipe_table k p) = refs FD_PIPE_READ p (fd_table k) \<and>
          open_write (pipe_table k p) = refs FD_PIPE_WRITE p (fd_table k)) \<and>
     fd_type (fd_table k 0) = FD_TERMINAL \<and> fd_type (fd_table k 1) = FD_TERMINAL"

lemma fds_okD:
  assumes "fds_ok k"
  shows "i < MAX_FDS \<Longrightarrow> pipe_end (fd_type (fd_table k i)) \<Longrightarrow> 0 < refcount (fd_table k i)"
    and "i < MAX_FDS \<Longrightarrow> pipe_end (fd_type (fd_table k i)) \<Longrightarrow>
      \<exists>p<MAX_PIPES. fd_data (fd_table k i) = Some p \<and> in_use (pipe_table k p)"
    and "ends (pipe_table k p) = (refs FD_PIPE_READ p (fd_table k), refs FD_PIPE_WRITE p (fd_table k), in_use (pipe_table k p))"
    and "fd_type (fd_table k 0) = FD_TERMINAL" "fd_type (fd_table k 1) = FD_TERMINAL"
  using assms unfolding fds_ok_def ends_def by auto

lemma fds_ok_cong:
  assumes "\<And>q. ends (pipe_table k' q) = ends (pipe_table k q)" and "fd_table k' = fd_table k"
  shows "fds_ok k' = fds_ok k"
proof -
  have "open_read (pipe_table k' q) = open_read (pipe_table k q)" "open_write (pipe_table k' q) = open_write (pipe_table k q)"
    "in_use (pipe_table k' q) = in_use (pipe_table k q)" for q
    using assms(1) [of q] by (simp_all add: ends_def)
  then show ?thesis using assms(2) by (simp add: fds_ok_def)
qed

lemma refs_upd:
  assumes "i < MAX_FDS"
  shows "refs t p (f(i := d)) + contrib t p (f i) = refs t p f + contrib t p d"
proof -
  let ?rest = "\<lambda>g. \<Sum>j\<in>{..<MAX_FDS} - {i}. contrib t p (g j)"
  have r: "refs t p g = contrib t p (g i) + ?rest g" for g
    unfolding refs_def using assms by (intro sum.remove) auto
  have "?rest (f(i := d)) = ?rest f"
    by (rule sum.cong) auto
  then show ?thesis using r [of f] r [of "f(i := d)"] by simp
qed

lemma refs_zero:
  "refs t p f = 0 \<Longrightarrow> i < MAX_FDS \<Longrightarrow> fd_type (f i) = t \<Longrightarrow> fd_data (f i) = Some p \<Longrightarrow> refcount (f i) = 0"
  by (auto simp: refs_def contrib_def split: if_splits)

lemma refs_unused:
  assumes "fds_ok k" and "\<not> in_use (pipe_table k p)" and "pipe_end t"
  shows "refs t p (fd_table k) = 0"
proof -
  have "contrib t p (fd_table k i) = 0" if "i < MAX_FDS" for i
    using fds_okD(2) [OF assms(1) that] assms(2,3) by (auto simp: contrib_def)
  then show ?thesis by (simp add: refs_def)
qed

text \<open>One descriptor gains a reference: a new one its first, an old one another.\<close>

lemma fds_ok_gain:
  assumes k: "fds_ok k" and i: "i < MAX_FDS" and t: "pipe_end t" and p: "p < MAX_PIPES" "in_use (pipe_table k p)"
    and d: "d = \<lparr>fd_type = t, refcount = n + 1, fd_data = Some p\<rparr>"
    and old: "fd_type (fd_table k i) = FD_NONE \<and> n = 0 \<or> fd_table k i = \<lparr>fd_type = t, refcount = n, fd_data = Some p\<rparr>"
    and fd: "fd_table k' = (fd_table k)(i := d)"
    and en: "\<And>q. ends (pipe_table k' q) = (if q = p then
        (open_read (pipe_table k p) + of_bool (t = FD_PIPE_READ), open_write (pipe_table k p) + of_bool (t = FD_PIPE_WRITE), True)
        else ends (pipe_table k q))"
  shows "fds_ok k'"
proof -
  have c: "contrib t' q (fd_table k i) = (if t' = t \<and> q = p then n else 0)"
    "contrib t' q d = (if t' = t \<and> q = p then n + 1 else 0)" if "pipe_end t'" for t' q
    using old that t by (auto simp: contrib_def d)
  have r: "refs t' q (fd_table k') = refs t' q (fd_table k) + of_bool (t' = t \<and> q = p)" if "pipe_end t'" for t' q
    using refs_upd [OF i, of t' q "fd_table k" d] c [OF that, of q] unfolding fd
    by (cases "t' = t \<and> q = p") auto
  have use: "in_use (pipe_table k' q) = in_use (pipe_table k q)" for q
    using en [of q] p(2) by (simp add: ends_def split: if_splits)
  have op: "open_read (pipe_table k' q) = refs FD_PIPE_READ q (fd_table k') \<and>
      open_write (pipe_table k' q) = refs FD_PIPE_WRITE q (fd_table k')" for q
    using en [of q] fds_okD(3) [OF k, of q] t by (auto simp: r ends_def split: if_splits)
  have tm: "fd_type (fd_table k' 0) = FD_TERMINAL" "fd_type (fd_table k' 1) = FD_TERMINAL"
    using fds_okD(4,5) [OF k] old t unfolding fd by auto
  have "0 < refcount (fd_table k' j) \<and> (\<exists>q<MAX_PIPES. fd_data (fd_table k' j) = Some q \<and> in_use (pipe_table k' q))"
    if "j < MAX_FDS" "pipe_end (fd_type (fd_table k' j))" for j
    using that fds_okD(1,2) [OF k that(1)] p unfolding use fd d by (cases "j = i") auto
  then show ?thesis using op tm unfolding fds_ok_def by blast
qed

text \<open>One descriptor loses a reference, and is given back with its last.\<close>

lemma fds_ok_lose:
  assumes k: "fds_ok k" and i: "i < MAX_FDS" and t: "pipe_end t"
    and old: "fd_table k i = \<lparr>fd_type = t, refcount = Suc n, fd_data = Some p\<rparr>"
    and d: "d = (if n = 0 then \<lparr>fd_type = FD_NONE, refcount = 0, fd_data = None\<rparr> else \<lparr>fd_type = t, refcount = n, fd_data = Some p\<rparr>)"
    and fd: "fd_table k' = (fd_table k)(i := d)"
    and en: "\<And>q. ends (pipe_table k' q) = (if q = p then
        freed (open_read (pipe_table k p) - of_bool (t = FD_PIPE_READ), open_write (pipe_table k p) - of_bool (t = FD_PIPE_WRITE),
          in_use (pipe_table k p))
        else ends (pipe_table k q))"
  shows "fds_ok k'"
proof -
  have c: "contrib t' q (fd_table k i) = (if t' = t \<and> q = p then Suc n else 0)"
    "contrib t' q d = (if t' = t \<and> q = p then n else 0)" if "pipe_end t'" for t' q
    using that t by (auto simp: contrib_def old d)
  have r: "refs t' q (fd_table k) = refs t' q (fd_table k') + of_bool (t' = t \<and> q = p)" if "pipe_end t'" for t' q
    using refs_upd [OF i, of t' q "fd_table k" d] c [OF that, of q] unfolding fd
    by (cases "t' = t \<and> q = p") auto
  have e: "ends (pipe_table k' q) = (if q = p then freed (refs FD_PIPE_READ q (fd_table k'), refs FD_PIPE_WRITE q (fd_table k'), in_use (pipe_table k q))
      else ends (pipe_table k q))" for q
    using en [of q] fds_okD(3) [OF k, of q] t by (auto simp: r ends_def split: if_splits)
  have op: "open_read (pipe_table k' q) = refs FD_PIPE_READ q (fd_table k') \<and>
      open_write (pipe_table k' q) = refs FD_PIPE_WRITE q (fd_table k')" for q
    using e [of q] fds_okD(3) [OF k, of q] by (auto simp: r ends_def freed_def split: if_splits)
  have tm: "fd_type (fd_table k' 0) = FD_TERMINAL" "fd_type (fd_table k' 1) = FD_TERMINAL"
    using fds_okD(4,5) [OF k] old t unfolding fd by auto
  have "0 < refcount (fd_table k' j) \<and> (\<exists>q<MAX_PIPES. fd_data (fd_table k' j) = Some q \<and> in_use (pipe_table k' q))"
    if j: "j < MAX_FDS" "pipe_end (fd_type (fd_table k' j))" for j
  proof -
    have pos: "0 < refcount (fd_table k' j)"
      using j fds_okD(1) [OF k j(1)] unfolding fd d by (auto split: if_splits)
    have "fd_type (fd_table k j) = fd_type (fd_table k' j) \<and> fd_data (fd_table k j) = fd_data (fd_table k' j)"
      using j(2) old unfolding fd d by (auto split: if_splits)
    then obtain q where q: "q < MAX_PIPES" "fd_data (fd_table k' j) = Some q" "in_use (pipe_table k q)"
      using fds_okD(2) [OF k j(1)] j(2) by auto
    have "refs (fd_type (fd_table k' j)) q (fd_table k') \<noteq> 0"
      using refs_zero [of "fd_type (fd_table k' j)" q "fd_table k'" j] j(1) q(2) pos by auto
    then have "in_use (pipe_table k' q)"
      using e [of q] q(3) j(2) by (auto simp: freed_def ends_def split: if_splits)
    then show ?thesis using pos q by blast
  qed
  then show ?thesis using op tm unfolding fds_ok_def by blast
qed

section \<open>The operations\<close>

lemma fds_ok_refcount:
  assumes "fds_ok k" and "\<not> pipe_end (fd_type (fd_table k i))" and "i < MAX_FDS"
    and "fd_table k' = (fd_table k)(i := d)" and "\<not> pipe_end (fd_type d)"
    and "fd_type (fd_table k i) = FD_TERMINAL \<longrightarrow> fd_type d = FD_TERMINAL"
    and "pipe_table k' = pipe_table k"
  shows "fds_ok k'"
proof -
  have "refs t q (fd_table k') = refs t q (fd_table k)" if "pipe_end t" for t q
    using refs_upd [OF assms(3), of t q "fd_table k" d] assms(2,5) that unfolding assms(4)
    by (auto simp: contrib_def split: if_splits)
  then show ?thesis using assms unfolding fds_ok_def by auto
qed

lemma fd_get_Some: "fd_get n k = Some i \<Longrightarrow> i = unat n \<and> i < MAX_FDS \<and> fd_type (fd_table k i) \<noteq> FD_NONE"
  by (auto simp: fd_get_def word_le_nat_alt split: if_splits)

lemma fdesc_eta: "fd_type d = t \<Longrightarrow> fd_data d = x \<Longrightarrow> d = \<lparr>fd_type = t, refcount = refcount d, fd_data = x\<rparr>"
  by (cases d) simp

lemma fd_incref_ok: "fds_ok k \<Longrightarrow> fds_ok (fd_incref n k)"
proof (cases "fd_get n k")
  case (Some i)
  assume k: "fds_ok k"
  have i: "i < MAX_FDS" "fd_type (fd_table k i) \<noteq> FD_NONE" using fd_get_Some [OF Some] by auto
  let ?k1 = "upd_fd i (\<lambda>d. d\<lparr>refcount := refcount d + 1\<rparr>) k"
  show ?thesis
  proof (cases "pipe_end (fd_type (fd_table k i))")
    case False
    then have "fd_incref n k = ?k1" using i by (simp add: fd_incref_def Some Let_def)
    then show ?thesis using fds_ok_refcount [OF k False i(1), of "fd_incref n k"] False by simp
  next
    case True
    then obtain p where p: "p < MAX_PIPES" "fd_data (fd_table k i) = Some p" "in_use (pipe_table k p)"
      using fds_okD(2) [OF k i(1)] by blast
    let ?d = "\<lparr>fd_type = fd_type (fd_table k i), refcount = refcount (fd_table k i) + 1, fd_data = Some p\<rparr>"
    have upd: "(fd_table k i)\<lparr>refcount := refcount (fd_table k i) + 1\<rparr> = ?d"
      using p(2) by (cases "fd_table k i") simp
    have "fd_table (fd_incref n k) = (fd_table k)(i := ?d)"
      using True upd by (auto simp: fd_incref_def Some Let_def open_read_ends open_write_ends)
    moreover have "ends (pipe_table (fd_incref n k) q) = (if q = p then
        (open_read (pipe_table k p) + of_bool (fd_type (fd_table k i) = FD_PIPE_READ),
         open_write (pipe_table k p) + of_bool (fd_type (fd_table k i) = FD_PIPE_WRITE), True)
        else ends (pipe_table k q))" for q
      using True p by (auto simp: fd_incref_def Some Let_def open_read_ends open_write_ends)
    moreover have "fd_table k i = \<lparr>fd_type = fd_type (fd_table k i), refcount = refcount (fd_table k i), fd_data = Some p\<rparr>"
      using p(2) by (cases "fd_table k i") simp
    ultimately show ?thesis
      using fds_ok_gain [OF k i(1) True p(1,3) refl disjI2] by blast
  qed
qed (simp add: fd_incref_def)

lemma fd_decref_ok: "fds_ok k \<Longrightarrow> fds_ok (fd_decref n k)"
proof (cases "fd_get n k")
  case (Some i)
  assume k: "fds_ok k"
  have i: "i < MAX_FDS" "fd_type (fd_table k i) \<noteq> FD_NONE" using fd_get_Some [OF Some] by auto
  show ?thesis
  proof (cases "pipe_end (fd_type (fd_table k i))")
    case False
    then have "fd_type (fd_table k i) = FD_TERMINAL" using i by (cases "fd_type (fd_table k i)") auto
    then have "fd_table (fd_decref n k) = (fd_table k)(i := (fd_table k i)\<lparr>refcount := refcount (fd_table k i) - 1\<rparr>)"
      "pipe_table (fd_decref n k) = pipe_table k"
      by (auto simp: fd_decref_def Some Let_def)
    then show ?thesis using fds_ok_refcount [OF k False i(1)] False by simp
  next
    case True
    then obtain p where p: "p < MAX_PIPES" "fd_data (fd_table k i) = Some p" "in_use (pipe_table k p)"
      using fds_okD(2) [OF k i(1)] by blast
    obtain n' where n': "refcount (fd_table k i) = Suc n'"
      using fds_okD(1) [OF k i(1) True] by (cases "refcount (fd_table k i)") auto
    have old: "fd_table k i = \<lparr>fd_type = fd_type (fd_table k i), refcount = Suc n', fd_data = Some p\<rparr>"
      using p(2) n' by (cases "fd_table k i") simp
    let ?d = "if n' = 0 then \<lparr>fd_type = FD_NONE, refcount = 0, fd_data = None\<rparr>
      else \<lparr>fd_type = fd_type (fd_table k i), refcount = n', fd_data = Some p\<rparr>"
    obtain t where t: "fd_table k i = \<lparr>fd_type = t, refcount = Suc n', fd_data = Some p\<rparr>" "pipe_end t"
      using old True by metis
    have "fd_table (fd_decref n k) = (fd_table k)(i := ?d)"
      using t by (auto simp: fd_decref_def Some Let_def close_read_ends close_write_ends)
    moreover have "ends (pipe_table (fd_decref n k) q) = (if q = p then
        freed (open_read (pipe_table k p) - of_bool (fd_type (fd_table k i) = FD_PIPE_READ),
          open_write (pipe_table k p) - of_bool (fd_type (fd_table k i) = FD_PIPE_WRITE), in_use (pipe_table k p))
        else ends (pipe_table k q))" for q
      using t by (auto simp: fd_decref_def Some Let_def close_read_ends close_write_ends)
    ultimately show ?thesis using fds_ok_lose [OF k i(1) True old refl] by blast
  qed
qed (simp add: fd_decref_def)

lemma pipe_alloc_fds:
  assumes k: "fds_ok k" and a: "pipe_alloc k = (r, k1)"
  shows "fds_ok k1 \<and> (\<forall>p. r = Some p \<longrightarrow> p < MAX_PIPES \<and> in_use (pipe_table k1 p))"
proof (cases "first_slot MAX_PIPES (\<lambda>i. \<not> in_use (pipe_table k i))")
  case None
  then show ?thesis using k a by (auto simp: pipe_alloc_def)
next
  case (Some p)
  then have p: "p < MAX_PIPES" "\<not> in_use (pipe_table k p)" by (auto simp: first_slot_Some)
  have k1: "r = Some p" "k1 = upd_pipe p (\<lambda>s. (pipe_reset s)\<lparr>in_use := True\<rparr>) k"
    using a Some by (auto simp: pipe_alloc_def)
  have "refs FD_PIPE_READ p (fd_table k) = 0" "refs FD_PIPE_WRITE p (fd_table k) = 0"
    using refs_unused [OF k p(2)] by auto
  then have "fds_ok k1"
    using k unfolding k1 fds_ok_def by (auto simp: pipe_reset_def)
  then show ?thesis using p by (simp add: k1)
qed

lemma pipe_open_fds:
  assumes k: "fds_ok k" and a: "pipe_open nm k = (r, k1)"
  shows "fds_ok k1 \<and> (\<forall>p. r = Some p \<longrightarrow> p < MAX_PIPES \<and> in_use (pipe_table k1 p))"
proof -
  obtain r2 k2 where b: "pipe_alloc k = (r2, k2)" by (cases "pipe_alloc k")
  note k2 = pipe_alloc_fds [OF k b]
  have c: "fds_ok (upd_pipe q f k0)" if "fds_ok k0" "\<And>s. ends (f s) = ends s" for q f k0
    using that fds_ok_cong [of "upd_pipe q f k0" k0] by simp
  show ?thesis
    using a k k2 b
    by (auto simp: pipe_open_def first_slot_Some intro!: c split: option.splits)
qed

lemma fd_create_pipe_fds:
  assumes k: "fds_ok k" and p: "p < MAX_PIPES" "in_use (pipe_table k p)"
  shows "fds_ok (snd (fd_create_pipe (Some p) w k)) \<and> in_use (pipe_table (snd (fd_create_pipe (Some p) w k)) p)"
proof (cases "first_slot MAX_FDS (\<lambda>i. fd_type (fd_table k i) = FD_NONE)")
  case None
  then show ?thesis using k p by (simp add: fd_create_pipe_def fd_alloc_def Let_def)
next
  case (Some i)
  then have i: "i < MAX_FDS" "fd_type (fd_table k i) = FD_NONE" by (auto simp: first_slot_Some)
  let ?t = "if w then FD_PIPE_WRITE else FD_PIPE_READ"
  let ?k1 = "upd_fd i (\<lambda>_. \<lparr>fd_type = ?t, refcount = 0, fd_data = Some p\<rparr>) k"
  let ?d = "\<lparr>fd_type = ?t, refcount = 0 + 1, fd_data = Some p\<rparr>"
  have "of_int64 (int i) = (of_nat i :: u64)" by (simp add: of_int64_def)
  moreover have "unat (of_nat i :: u64) = i" using i(1) by (simp add: unat_of_nat)
  ultimately have get: "fd_get (of_int64 (int i)) ?k1 = Some i"
    using i(1) by (simp add: fd_get_def word_le_nat_alt)
  have eq: "snd (fd_create_pipe (Some p) w k) = fd_incref (of_int64 (int i)) ?k1" (is "_ = ?k2")
    using Some by (simp add: fd_create_pipe_def fd_alloc_def Let_def)
  have fd: "fd_table ?k2 = (fd_table k)(i := ?d)"
    by (simp add: fd_incref_def get Let_def open_read_ends open_write_ends del: upd_fd_simps(12))
       (simp add: open_read_ends open_write_ends)
  have en: "ends (pipe_table ?k2 q) = (if q = p then
        (open_read (pipe_table k p) + of_bool (?t = FD_PIPE_READ), open_write (pipe_table k p) + of_bool (?t = FD_PIPE_WRITE), True)
        else ends (pipe_table k q))" for q
    using p(2) by (simp add: fd_incref_def get Let_def open_read_ends open_write_ends)
  have "fds_ok ?k2"
    by (rule fds_ok_gain [OF k i(1) _ p refl disjI1 fd en]) (use i(2) in auto)
  then show ?thesis using en [of p] unfolding eq by (simp add: ends_def)
qed

lemma pipe_create_fds_ok:
  assumes "fds_ok k" and "p < MAX_PIPES" and "in_use (pipe_table k p)"
  shows "fds_ok (snd (snd (pipe_create_fds (Some p) k)))"
proof -
  obtain r k1 where a: "fd_create_pipe (Some p) False k = (r, k1)" by (cases "fd_create_pipe (Some p) False k")
  have k1: "fds_ok k1" "in_use (pipe_table k1 p)" using fd_create_pipe_fds [OF assms, of False] by (simp_all add: a)
  obtain w k2 where b: "fd_create_pipe (Some p) True k1 = (w, k2)" by (cases "fd_create_pipe (Some p) True k1")
  have k2: "fds_ok k2" using fd_create_pipe_fds [OF k1(1) assms(2) k1(2), of True] by (simp add: b)
  show ?thesis using k1(1) k2 fd_decref_ok by (simp add: pipe_create_fds_def a b Let_def)
qed

lemma sys_pipe_ok: "fds_ok k \<Longrightarrow> fds_ok (snd (snd (sys_pipe null k)))"
proof -
  assume k: "fds_ok k"
  obtain r k1 where a: "pipe_open None k = (r, k1)" by (cases "pipe_open None k")
  from pipe_open_fds [OF k a] show ?thesis
    using k pipe_create_fds_ok [of k1] by (auto simp: sys_pipe_def a split: option.split)
qed

lemma sys_pipe_open_ok: "fds_ok k \<Longrightarrow> fds_ok (snd (snd (sys_pipe_open nm null k)))"
proof -
  assume k: "fds_ok k"
  obtain r k1 where a: "pipe_open nm k = (r, k1)" by (cases "pipe_open nm k")
  from pipe_open_fds [OF k a] show ?thesis
    using k pipe_create_fds_ok [of k1] by (auto simp: sys_pipe_open_def a split: option.split)
qed

section \<open>In all runs\<close>

lemma fd_table_init:
  "fd_table (fd_init k) i = (if i < MAX_FDS then
     \<lparr>fd_type = (if i = 0 \<or> i = 1 then FD_TERMINAL else FD_NONE), refcount = 0, fd_data = None\<rparr> else fd_table k i)"
proof -
  have "fd_table (fold (\<lambda>i. upd_fd i (\<lambda>_. d)) [0..<n] k) i = (if i < n then d else fd_table k i)" for d n
    by (induction n) auto
  then show ?thesis by (auto simp: fd_init_def Let_def)
qed

lemma fds_ok_init: "fds_ok (init_tables v tramp m)"
proof -
  let ?k0 = "process_init (mm_init HEAP_START HEAP_SIZE (bss_kernel v tramp m))"
  have f: "fd_table (init_tables v tramp m) = fd_table (fd_init ?k0)" and "pipe_table (init_tables v tramp m) = (\<lambda>_. zero_pipe)"
    using sem_init_eq [of "scheduler_init (pipe_init (fd_init ?k0))"]
    by (auto simp: init_tables_def scheduler_init_def pipe_init_def process_init_def mm_init_def bss_kernel_def)
  moreover have "refs t p (fd_table (fd_init ?k0)) = 0" for t p
    by (simp add: refs_def contrib_def fd_table_init)
  ultimately show ?thesis
    by (simp add: fds_ok_def zero_pipe_def fd_table_init)
qed

lemma fds_ok_others:
  "fds_ok (upd_sem i f k) = fds_ok k" "fds_ok (upd_proc i h k) = fds_ok k" "fds_ok (set_fault e k) = fds_ok k"
  "fds_ok (process_block n k) = fds_ok k" "fds_ok (process_unblock n k) = fds_ok k"
  "fds_ok (snd (mm_malloc sz k)) = fds_ok k" "fds_ok (snd (mm_malloc_kernel sz k)) = fds_ok k"
  "fds_ok (mm_free a k) = fds_ok k"
  "fds_ok (snd (snd (pipe_read d null cnt k))) = fds_ok k" "fds_ok (snd (pipe_write d buf cnt k)) = fds_ok k"
  "fds_ok (pipe_cleanup_for_process n k) = fds_ok k"
  by (rule fds_ok_cong, simp_all add: pipe_read_ends pipe_write_ends pipe_cleanup_ends)+

lemma fds_ok_same: "fds_ok k \<Longrightarrow> same_stores k k' \<Longrightarrow> fds_ok k'"
  using fds_ok_cong [of k' k] by (simp add: same_stores_def)

interpretation fds: sem_frame "\<lambda>k k'. fds_ok k \<longrightarrow> fds_ok k'"
  by unfold_locales (simp_all add: fds_ok_others)

interpretation fds: fd_ops "\<lambda>k k'. fds_ok k \<longrightarrow> fds_ok k'"
  by unfold_locales (simp_all add: fds_ok_others fd_incref_ok fd_decref_ok sys_pipe_ok sys_pipe_open_ok)

interpretation fds: store_frame "\<lambda>k k'. fds_ok k \<longrightarrow> fds_ok k'"
  by unfold_locales (auto simp: fds_ok_others intro: fds_ok_same)

interpretation fds: invariant fds_ok
  by unfold_locales (rule fds_ok_init)

lemma reachable_fds_ok: "reachable k \<Longrightarrow> fds_ok k"
  by (rule fds.J_reachable)

end
