(* ===== verification/Props_Process.thy ===== *)
theory Props_Process
  imports Demo
begin

text \<open>
  The properties of processes: the first stack frame, the copy of the arguments, what a new process
  looks like, and how the end of a process reaches its parent.
\<close>

section \<open>The first stack frame\<close>

lemma word_8_ne_0: "8 * of_nat (Suc j) \<noteq> (0 :: u64)" if "Suc j < 2 ^ 61"
proof
  assume "8 * of_nat (Suc j) = (0 :: u64)"
  then have "(of_nat (8 * Suc j) :: u64) = 0" by (simp only: of_nat_mult of_nat_numeral)
  then have "2 ^ 64 dvd 8 * Suc j" by (simp only: word_of_nat_eq_0_iff) simp
  then have "2 ^ 64 \<le> 8 * Suc j" by (rule dvd_imp_le) simp
  then show False using that by simp
qed

text \<open>Pushing a list of words: the last one is at the top.\<close>

lemma fold_push:
  "length vs < 2 ^ 61 \<Longrightarrow>
   fst (fold push_qword vs (stk, m)) = stk - 8 * of_nat (length vs) \<and>
   (\<forall>i < length vs.
      snd (fold push_qword vs (stk, m)) (stk - 8 * of_nat (length vs) + 8 * of_nat i) = rev vs ! i) \<and>
   (\<forall>a. (\<forall>i < length vs. a \<noteq> stk - 8 * of_nat (length vs) + 8 * of_nat i) \<longrightarrow>
      snd (fold push_qword vs (stk, m)) a = m a)"
proof (induction vs rule: rev_induct)
  case Nil
  then show ?case by simp
next
  case (snoc v vs)
  let ?r = "fold push_qword vs (stk, m)" and ?n = "length vs"
  have len: "?n < 2 ^ 61" using snoc.prems by simp
  have IH: "fst ?r = stk - 8 * of_nat ?n"
    "\<And>i. i < ?n \<Longrightarrow> snd ?r (stk - 8 * of_nat ?n + 8 * of_nat i) = rev vs ! i"
    "\<And>a. (\<And>i. i < ?n \<Longrightarrow> a \<noteq> stk - 8 * of_nat ?n + 8 * of_nat i) \<Longrightarrow> snd ?r a = m a"
    using snoc.IH [OF len] by auto
  let ?sp = "stk - 8 * of_nat ?n - 8"
  have sp: "stk - 8 * of_nat (length (vs @ [v])) = ?sp" by (simp add: algebra_simps)
  have step: "fold push_qword (vs @ [v]) (stk, m) = (?sp, (snd ?r)(?sp := v))"
    using IH(1) by (simp add: push_qword_def)
  have sh: "?sp + 8 * of_nat (Suc j) = stk - 8 * of_nat ?n + 8 * of_nat j" for j
    by (simp add: algebra_simps)
  have ne: "stk - 8 * of_nat ?n + 8 * of_nat j \<noteq> ?sp" if "j < ?n" for j
  proof
    assume "stk - 8 * of_nat ?n + 8 * of_nat j = ?sp"
    then have "8 * of_nat (Suc j) = (0 :: u64)" by (simp add: algebra_simps)
    with word_8_ne_0 [of j] that len show False by simp
  qed
  have "((snd ?r)(?sp := v)) (?sp + 8 * of_nat i) = rev (vs @ [v]) ! i" if "i < length (vs @ [v])" for i
  proof (cases i)
    case 0
    then show ?thesis by simp
  next
    case (Suc j)
    then have "j < ?n" using that by simp
    then show ?thesis unfolding Suc sh using IH(2) ne by simp
  qed
  moreover have "((snd ?r)(?sp := v)) a = m a"
    if "\<forall>i < length (vs @ [v]). a \<noteq> ?sp + 8 * of_nat i" for a
  proof -
    have "a \<noteq> ?sp" using that [rule_format, of 0] by simp
    moreover have "a \<noteq> stk - 8 * of_nat ?n + 8 * of_nat j" if "j < ?n" for j
      using \<open>\<forall>i < length (vs @ [v]). a \<noteq> ?sp + 8 * of_nat i\<close> [rule_format, of "Suc j"] that
      unfolding sh by simp
    then have "snd ?r a = m a" by (rule IH(3))
    ultimately show ?thesis by simp
  qed
  ultimately show ?case unfolding step sp by simp
qed

lemma build_initial_stack_frame:
  assumes "build_initial_stack stk ent ac av m = (sp, m')"
  shows "sp = stk - 160"
    and "i < 20 \<Longrightarrow> m' (sp + 8 * of_nat i) =
      [0, 0, 0, 0, 0, 0, 0, 0, av, of_int64 ac, 0, 0, 0, 0, 0, ent, 0x08, 0x202, stk, 0] ! i"
    and "(\<And>i. i < 20 \<Longrightarrow> a \<noteq> sp + 8 * of_nat i) \<Longrightarrow> m' a = m a"
proof -
  let ?vs = "[0, stk, 0x202, 0x08, ent, 0, 0, 0, 0, 0, of_int64 ac, av, 0, 0, 0, 0, 0, 0, 0, 0]"
  have l: "length ?vs = 20" by simp
  have r: "rev ?vs = [0, 0, 0, 0, 0, 0, 0, 0, av, of_int64 ac, 0, 0, 0, 0, 0, ent, 0x08, 0x202, stk, 0]"
    by simp
  have f: "fold push_qword ?vs (stk, m) = (sp, m')"
    using assms unfolding build_initial_stack_def .
  note fp = fold_push [of ?vs stk m, unfolded l f fst_conv snd_conv r, simplified]
  show sp: "sp = stk - 160" using fp by simp
  show "m' (sp + 8 * of_nat i) =
      [0, 0, 0, 0, 0, 0, 0, 0, av, of_int64 ac, 0, 0, 0, 0, 0, ent, 0x08, 0x202, stk, 0] ! i"
    if "i < 20" using fp that unfolding sp by simp
  show "m' a = m a" if "\<And>i. i < 20 \<Longrightarrow> a \<noteq> sp + 8 * of_nat i"
    using fp that unfolding sp by simp
qed

section \<open>The copy of the arguments\<close>

lemma argv_copy_length: "argv_copy a strs = (ps, pool) \<Longrightarrow> length ps = length strs"
  by (induction a strs arbitrary: ps pool rule: argv_copy.induct) (auto split: prod.splits)

lemma argv_copy_spec:
  "argv_copy a strs = (ps, pool) \<Longrightarrow> j < length strs \<Longrightarrow>
   (case strs ! j of None \<Rightarrow> ps ! j = 0
    | Some s \<Rightarrow> \<exists>off < length pool. ps ! j = a + of_nat off \<and> cstr (drop off pool) = cstr s)"
proof (induction a strs arbitrary: ps pool j rule: argv_copy.induct)
  case (1 a)
  then show ?case by simp
next
  case (2 a strs)
  obtain ps' where r: "argv_copy a strs = (ps', pool)" "ps = 0 # ps'"
    using 2(2) by (auto split: prod.splits)
  show ?case
  proof (cases j)
    case (Suc i)
    then show ?thesis using 2(1) [OF r(1), of i] 2(3) r(2)
      by (cases "strs ! i") simp_all
  qed (use r(2) in simp)
next
  case (3 a s strs)
  let ?n = "str_len (Some s) + 1"
  obtain ps' pool' where r: "argv_copy (a + of_nat ?n) strs = (ps', pool')" "ps = a # ps'"
    "pool = cstr s @ [NUL] @ pool'"
    using 3(2) by (auto simp: Let_def split: prod.splits)
  have NUL: "takeWhile (\<lambda>c. c \<noteq> NUL) (cstr s @ NUL # pool') = cstr s"
    by (subst takeWhile_append2) (use NUL_notin_cstr in auto)
  show ?case
  proof (cases j)
    case 0
    have "cstr (drop 0 pool) = cstr s" unfolding r(3) using NUL by (simp add: cstr_def)
    then show ?thesis using 0 r by (auto intro!: exI [of _ 0])
  next
    case (Suc i)
    have IH: "case strs ! i of None \<Rightarrow> ps' ! i = 0
        | Some t \<Rightarrow> \<exists>off < length pool'. ps' ! i = a + of_nat ?n + of_nat off \<and> cstr (drop off pool') = cstr t"
      using 3(1) [OF refl r(1), of i] 3(3) Suc by simp
    show ?thesis
    proof (cases "strs ! i")
      case None
      then show ?thesis using IH Suc r(2) by simp
    next
      case (Some t)
      then obtain off where off: "off < length pool'" "ps' ! i = a + of_nat ?n + of_nat off"
        "cstr (drop off pool') = cstr t" using IH by auto
      have "drop (?n + off) pool = drop off pool'" "?n + off < length pool" using off(1) unfolding r(3) by simp_all
      moreover have "ps ! j = a + of_nat (?n + off)" using off(2) Suc r(2) by (simp add: add.assoc)
      ultimately show ?thesis using Some Suc off(3) by (auto intro!: exI [of _ "?n + off"])
    qed
  qed
qed

lemma argv_copy_size:
  "argv_copy a strs = (ps, pool) \<Longrightarrow>
   fold (\<lambda>s n. case s of None \<Rightarrow> n | Some b \<Rightarrow> n + of_nat (str_len (Some b)) + 1) strs n
     = n + (of_nat (length pool) :: u64)"
  by (induction a strs arbitrary: ps pool n rule: argv_copy.induct)
    (auto simp: Let_def add.assoc split: prod.splits)


text \<open>
  C37: The copy of the arguments that \<open>process_create\<close> makes for a new process fits the block it asks
  for, and means the same: the pointers and the string pool together have the size \<open>argv_size\<close>
  computes; there is a pointer for each argument; a null argument stays null, and every other pointer
  leads into the pool, to a string equal to the original.
\<close>

theorem argv_copy_fits:
  assumes "argv_copy (a + 8 * of_int64 (ac + 1)) (take (nat ac) strs) = (ps, pool)"
    and "0 < ac" and "nat ac \<le> length strs"
  shows "length ps = nat ac \<and> argv_size ac strs = 8 * of_int64 (ac + 1) + of_nat (length pool) \<and>
    (\<forall>j < nat ac. case strs ! j of None \<Rightarrow> ps ! j = 0
      | Some s \<Rightarrow> \<exists>off < length pool.
          ps ! j = a + 8 * of_int64 (ac + 1) + of_nat off \<and> cstr (drop off pool) = cstr s)"
proof (intro conjI allI impI)
  have len: "length (take (nat ac) strs) = nat ac" using assms(3) by simp
  show "length ps = nat ac" using argv_copy_length [OF assms(1)] len by simp
  show "argv_size ac strs = 8 * of_int64 (ac + 1) + of_nat (length pool)"
    unfolding argv_size_def by (rule argv_copy_size [OF assms(1)])
  fix j assume "j < nat ac"
  then show "case strs ! j of None \<Rightarrow> ps ! j = 0
      | Some s \<Rightarrow> \<exists>off < length pool.
          ps ! j = a + 8 * of_int64 (ac + 1) + of_nat off \<and> cstr (drop off pool) = cstr s"
    using argv_copy_spec [OF assms(1), of j] len by simp
qed

theorem argv_copy_fits_witness:
  "argv_size 2 [Some ''nice'', Some ''7''] = 8 * 3 + 7"
proof -
  obtain ps pool where p: "argv_copy (0 + 8 * of_int64 (2 + 1)) (take (nat 2) [Some ''nice'', Some ''7'']) = (ps, pool)"
    by fastforce
  from argv_copy_fits [OF p] show ?thesis using p by (auto simp: of_int64_def)
qed

section \<open>A new process\<close>

lemma fd_incref_other:
  assumes "fd_type (fd_table k n) \<noteq> FD_PIPE_READ" and "fd_type (fd_table k n) \<noteq> FD_PIPE_WRITE"
    and "n < 2"
  shows "fd_incref (of_int64 (int n)) k =
    (if fd_type (fd_table k n) = FD_NONE then k else upd_fd n (\<lambda>d. d\<lparr>refcount := refcount d + 1\<rparr>) k)"
proof -
  have u: "unat (of_int64 (int n)) = n" "\<not> of_int64 (int n) \<ge> of_nat MAX_FDS"
    using assms(3) by (simp_all add: of_int64_def unat_of_nat word_le_nat_alt)
  show ?thesis using assms u by (simp add: fd_incref_def fd_get_def Let_def)
qed


lemma mm_malloc_upd_proc:
  "mm_malloc_kernel n (upd_proc i f k) =
     (fst (mm_malloc_kernel n k), upd_proc i f (snd (mm_malloc_kernel n k)))"
  by (simp add: mm_malloc_kernel_def upd_proc_def case_prod_beta Let_def)

lemma mm_malloc_parts:
  assumes "mm_malloc_kernel n k = (p, k')"
  shows "process_table k' = process_table k" "next_pid k' = next_pid k" "qmem k' = qmem k"
    "trampoline k' = trampoline k" "current_process k' = current_process k" "fd_table k' = fd_table k"
  using assms by (auto simp: mm_malloc_kernel_def case_prod_beta Let_def)

definition std_fd :: "kernel \<Rightarrow> nat \<Rightarrow> bool" where
  "std_fd k n \<longleftrightarrow> fd_type (fd_table k n) \<noteq> FD_PIPE_READ \<and> fd_type (fd_table k n) \<noteq> FD_PIPE_WRITE"

definition with_ref :: "nat \<Rightarrow> kernel \<Rightarrow> kernel" where
  "with_ref n k =
     (if fd_type (fd_table k n) = FD_NONE then k else upd_fd n (\<lambda>d. d\<lparr>refcount := refcount d + 1\<rparr>) k)"

lemma with_ref_simps [simp]:
  "process_table (with_ref n k) = process_table k" "next_pid (with_ref n k) = next_pid k"
  "qmem (with_ref n k) = qmem k" "current_process (with_ref n k) = current_process k"
  by (simp_all add: with_ref_def)

lemma with_ref_std [simp]: "std_fd (with_ref n k) m = std_fd k m"
  by (simp add: with_ref_def std_fd_def)

lemma with_ref_count:
  "fd_type (fd_table k n) \<noteq> FD_NONE \<Longrightarrow>
   refcount (fd_table (with_ref n k) m) = refcount (fd_table k m) + (if m = n then 1 else 0)"
  by (simp add: with_ref_def)

lemma fd_incref_std: "std_fd k n \<Longrightarrow> n < 2 \<Longrightarrow> fd_incref (of_int64 (int n)) k = with_ref n k"
  using fd_incref_other [of k n] by (simp add: std_fd_def with_ref_def)

lemma std_fd_cong: "fd_table k' = fd_table k \<Longrightarrow> std_fd k' n = std_fd k n"
  by (simp add: std_fd_def)

definition fresh_pcb :: "u64 \<Rightarrow> u64 \<Rightarrow> u8 \<Rightarrow> pcb \<Rightarrow> pcb" where
  "fresh_pcb n sp fg = (\<lambda>p. p\<lparr>rsp := sp, pid := n, priority := 3, remaining_quanta := 3, wait_ticks := 0,
     pstate := (if fg AND 2 \<noteq> 0 then PROCESS_BLOCKED else PROCESS_READY), foreground := fg,
     pfd := (pfd p)(0 := int 0, 1 := int 1)\<rparr>)"

definition started_pcb ::
    "u64 \<Rightarrow> char list option \<Rightarrow> u64 \<Rightarrow> int \<Rightarrow> u64 \<Rightarrow> u64 list \<times> char list \<Rightarrow> pcb \<Rightarrow> pcb" where
  "started_pcb parent nm ent ac acopy blk =
     (\<lambda>p. let p = p\<lparr>parent_pid := parent, waiting_for := 0, argc := ac, argv := acopy, argv_blk := blk,
               retval := 0, entry := ent, held_sems := 0, opened_sems := 0,
               pname := str_copy (pname p) nm 32\<rparr>
          in if str_len (Some (pname p)) = 0 then p\<lparr>pname := (pname p)[0 := CHR ''?'', 1 := NUL]\<rparr> else p)"

lemma started_pcb_simps [simp]:
  "pid (started_pcb par nm ent ac acopy blk p) = pid p" "rsp (started_pcb par nm ent ac acopy blk p) = rsp p"
  "priority (started_pcb par nm ent ac acopy blk p) = priority p"
  "pstate (started_pcb par nm ent ac acopy blk p) = pstate p"
  "pfd (started_pcb par nm ent ac acopy blk p) = pfd p"
  "remaining_quanta (started_pcb par nm ent ac acopy blk p) = remaining_quanta p"
  "parent_pid (started_pcb par nm ent ac acopy blk p) = par"
  "held_sems (started_pcb par nm ent ac acopy blk p) = 0"
  "opened_sems (started_pcb par nm ent ac acopy blk p) = 0"
  "argv_blk (started_pcb par nm ent ac acopy blk p) = blk"
  by (simp_all add: started_pcb_def Let_def)

lemma fill_pcb_eq:
  assumes "std_fd k 0" and "std_fd k 1" and "current_process k = Some c" and "c \<noteq> slot"
  shows "fill_pcb nm ent ac acopy blk fg sp slot k =
    upd_proc slot (started_pcb (pid (proc k c)) nm ent ac acopy blk)
      (with_ref 1 (with_ref 0 (upd_proc slot (fresh_pcb (next_pid k + 1) sp fg) (k\<lparr>next_pid := next_pid k + 1\<rparr>))))"
proof -
  let ?k1 = "upd_proc slot (fresh_pcb (next_pid k + 1) sp fg) (k\<lparr>next_pid := next_pid k + 1\<rparr>)"
  have std: "std_fd ?k1 0" "std_fd ?k1 1"
    using assms(1,2) std_fd_cong [of ?k1 k] by simp_all
  have f0: "fd_incref (of_int64 (pfd (proc ?k1 slot) 0)) ?k1 = with_ref 0 ?k1"
    using fd_incref_std [OF std(1)] by (simp add: fresh_pcb_def)
  have "fd_incref (of_int64 (int 1)) (with_ref 0 ?k1) = with_ref 1 (with_ref 0 ?k1)"
    using std(2) by (intro fd_incref_std) simp_all
  then have f1: "fd_incref (of_int64 (pfd (proc (with_ref 0 ?k1) slot) 1)) (with_ref 0 ?k1) =
      with_ref 1 (with_ref 0 ?k1)"
    by (simp add: fresh_pcb_def)
  have k1: "upd_proc slot (\<lambda>p. p\<lparr>rsp := sp, pid := next_pid (k\<lparr>next_pid := next_pid k + 1\<rparr>), priority := 3,
                remaining_quanta := 3, wait_ticks := 0,
                pstate := (if fg AND 2 \<noteq> 0 then PROCESS_BLOCKED else PROCESS_READY), foreground := fg,
                pfd := (pfd p)(0 := int 0, 1 := int 1)\<rparr>) (k\<lparr>next_pid := next_pid k + 1\<rparr>) = ?k1"
    by (simp add: fresh_pcb_def)
  show ?thesis
    unfolding fill_pcb_def Let_def k1 f0 f1
    using assms(3,4) by (simp add: started_pcb_def Let_def)
qed

text \<open>
  C36: A process that can be created starts where it should. It gets the next PID and is entered in the
  free slot found first, READY or, if its creator asked for it, BLOCKED, at the default priority, as a
  child of the caller, with the terminal as input and output; no other PCB changes. Its saved stack
  pointer is 160 bytes below the end of its new stack, and the 20 words from there are the frame that
  \<open>popState; iretq\<close> consumes: the trampoline as RIP with interrupts enabled, \<open>argc\<close> in RDI and the copy
  of \<open>argv\<close> in RSI, and the end of the stack as RSP.
\<close>

theorem process_create_starts:
  assumes "first_slot MAX_PROCESSES (\<lambda>i. pstate (proc k i) = PROCESS_FREE) = Some slot"
    and "current_process k = Some c" and "pstate (proc k c) \<noteq> PROCESS_FREE"
    and "std_fd k 0" and "std_fd k 1"
    and "mm_malloc_kernel 4096 k = (base, k1)" and "base \<noteq> 0" and "0 < ac"
    and "mm_malloc_kernel (argv_size ac strs) k1 = (a, k2)" and "a \<noteq> 0"
  shows "let (r, k') = process_create nm ent ac (Some strs) fg k; p = proc k' slot in
    r = to_int (pid p) \<and> pid p = next_pid k + 1 \<and> next_pid k' = next_pid k + 1 \<and>
    pstate p = (if fg AND 2 \<noteq> 0 then PROCESS_BLOCKED else PROCESS_READY) \<and> priority p = 3 \<and>
    parent_pid p = pid (proc k c) \<and> pfd p 0 = 0 \<and> pfd p 1 = 1 \<and> held_sems p = 0 \<and> opened_sems p = 0 \<and>
    (\<forall>i. i \<noteq> slot \<longrightarrow> proc k' i = proc k i) \<and>
    rsp p = base + 4096 - 160 \<and>
    (\<forall>i < 20. qmem k' (rsp p + 8 * of_nat i) =
       [0, 0, 0, 0, 0, 0, 0, 0, a, of_int64 ac, 0, 0, 0, 0, 0, trampoline k, 0x08, 0x202, base + 4096, 0] ! i)"
proof -
  note b = mm_malloc_parts [OF assms(6)] and p = mm_malloc_parts [OF assms(9)]
  let ?k1 = "upd_proc slot (\<lambda>p. p\<lparr>stack_base := base\<rparr>) k1"
  let ?k2 = "upd_proc slot (\<lambda>p. p\<lparr>stack_base := base\<rparr>) k2"
  have m2: "mm_malloc_kernel (argv_size ac strs) ?k1 = (a, ?k2)"
    by (simp add: mm_malloc_upd_proc assms(9))
  obtain ps pool where ap: "argv_copy (a + 8 * of_int64 (ac + 1)) (take (nat ac) strs) = (ps, pool)"
    by fastforce
  obtain sp m where st: "build_initial_stack (base + 4096) (trampoline k) ac a (qmem k) = (sp, m)"
    by fastforce
  have ne: "c \<noteq> slot" using assms(1,3) by (auto simp: first_slot_Some)
  let ?k3 = "?k2\<lparr>qmem := m\<rparr>"
  have std: "std_fd ?k3 0" "std_fd ?k3 1"
    using assms(4,5) std_fd_cong [of ?k3 k] b(6) p(6) by simp_all
  have cur: "current_process ?k3 = Some c" using assms(2) b(5) p(5) by simp
  note fill = fill_pcb_eq [OF std cur ne, of nm ent ac a "(ps @ [0], pool)" fg sp]
  let ?k4 = "fill_pcb nm ent ac a (ps @ [0], pool) fg sp slot ?k3"
  have pc: "process_create nm ent ac (Some strs) fg k = (to_int (pid (proc ?k4 slot)), scheduler_add slot ?k4)"
    using assms(1,6-8,10) m2 ap st b p
    by (simp add: process_create_def Let_def)
  have slot: "proc ?k4 slot = started_pcb (pid (proc k c)) nm ent ac a (ps @ [0], pool)
      (fresh_pcb (next_pid k + 1) sp fg (proc ?k2 slot))"
    unfolding fill using ne b p by simp
  have rest: "proc ?k4 i = proc k i" if "i \<noteq> slot" for i
    unfolding fill using that b p by simp
  have frame: "qmem ?k4 = m" "next_pid ?k4 = next_pid k + 1" unfolding fill using b p by simp_all
  note fr = build_initial_stack_frame [OF st]
  show ?thesis
    unfolding pc Let_def prod.case scheduler_add_frame slot
    using rest frame fr(1,2) by (simp add: fresh_pcb_def)
qed


text \<open>The shell of \<open>demo\<close> starts \<open>cat x\<close>.\<close>

theorem process_create_starts_witness:
  "pid (proc (snd (process_create (Some ''cat'') 0x400000 1 (Some [Some ''x'']) 1 demo)) 3) = 4"
proof -
  have slot: "first_slot MAX_PROCESSES (\<lambda>i. is_free demo i) = Some 3"
    by (simp add: first_slot_Some demo_slots)
  obtain base k1 where b: "mm_malloc_kernel 4096 demo = (base, k1)" by fastforce
  then have b': "base = 0x600018" and h1: "heap k1 =
      [\<lparr>mb_addr = 0x600000, mb_size = 4096, mb_free = False, mb_kernel = True\<rparr>,
       \<lparr>mb_addr = 0x601018, mb_size = 0x7FEFD0, mb_free = True, mb_kernel = False\<rparr>]"
    by (auto simp: mm_malloc_kernel_def ff_malloc_impl_def boot_heap_def ff_init_def align8_def)
  have sz: "argv_size 1 [Some ''x''] = 18" by (simp add: argv_size_def of_int64_def cstr_def)
  obtain a k2 where a: "mm_malloc_kernel (argv_size 1 [Some ''x'']) k1 = (a, k2)" by fastforce
  then have a': "a = 0x601030" unfolding sz by (auto simp: mm_malloc_kernel_def ff_malloc_impl_def h1 align8_def)
  have std: "std_fd demo 0" "std_fd demo 1"
    by (simp_all add: std_fd_def demo_def bss_kernel_def)
  have cur: "\<not> is_free demo 1" using demo_slots [of 1] by simp
  from process_create_starts [OF slot _ cur std b _ _ a, of "Some ''cat''" "0x400000" 1] b' a'
  show ?thesis by (simp add: case_prod_beta Let_def)
qed

end
