(* ===== verification/Boot_Processes.thy ===== *)
theory Boot_Processes
  imports Props_Process
begin

text \<open>
  The two processes that \<open>initializeKernelBinary\<close> creates before there is a current one, idle and the shell: what
  the process table, the run queue, the heap and the stacks are when \<open>scheduler_start\<close> has chosen the first.
\<close>

section \<open>Creating a process before there is a current one\<close>

lemma fill_pcb_first:
  assumes "std_fd k 0" and "std_fd k 1" and "current_process k = None"
  shows "fill_pcb nm ent ac acopy blk fg sp slot k =
    upd_proc slot (started_pcb 0 nm ent ac acopy blk)
      (with_ref 1 (with_ref 0 (upd_proc slot (fresh_pcb (next_pid k + 1) sp fg) (k\<lparr>next_pid := next_pid k + 1\<rparr>))))"
proof -
  let ?k1 = "upd_proc slot (fresh_pcb (next_pid k + 1) sp fg) (k\<lparr>next_pid := next_pid k + 1\<rparr>)"
  have std: "std_fd ?k1 0" "std_fd ?k1 1"
    using assms(1,2) std_fd_cong [of ?k1 k] by simp_all
  have f0: "fd_incref (of_int64 (pfd (proc ?k1 slot) 0)) ?k1 = with_ref 0 ?k1"
    using fd_incref_std [OF std(1)] by (simp add: fresh_pcb_def)
  have "fd_incref (of_int64 (int 1)) (with_ref 0 ?k1) = with_ref 1 (with_ref 0 ?k1)"
    using std(2) by (intro fd_incref_std) simp_all
  then have f1: "fd_incref (of_int64 (pfd (proc (with_ref 0 ?k1) slot) 1)) (with_ref 0 ?k1) =
      with_ref 1 (with_ref 0 ?k1)"
    by (simp add: fresh_pcb_def)
  have k1: "upd_proc slot (\<lambda>p. p\<lparr>rsp := sp, pid := next_pid (k\<lparr>next_pid := next_pid k + 1\<rparr>), priority := 3,
                remaining_quanta := 3, wait_ticks := 0,
                pstate := (if fg AND 2 \<noteq> 0 then PROCESS_BLOCKED else PROCESS_READY), foreground := fg,
                pfd := (pfd p)(0 := int 0, 1 := int 1)\<rparr>) (k\<lparr>next_pid := next_pid k + 1\<rparr>) = ?k1"
    by (simp add: fresh_pcb_def)
  show ?thesis
    unfolding fill_pcb_def Let_def k1 f0 f1
    using assms(3) by (simp add: started_pcb_def Let_def)
qed

lemma with_ref_more [simp]:
  "heap (with_ref n k) = heap k" "idle_pcb (with_ref n k) = idle_pcb k" "rq (with_ref n k) = rq k"
  "trampoline (with_ref n k) = trampoline k" "fault (with_ref n k) = fault k" "cursor_ok (with_ref n k) = cursor_ok k"
  by (simp_all add: with_ref_def rq_def cursor_ok_def)

lemma frame_more:
  "rq (upd_proc i f k) = rq k" "cursor_ok (upd_proc i f k) = cursor_ok k" "std_fd (upd_proc i f k) n = std_fd k n"
  "rq (k\<lparr>next_pid := m\<rparr>) = rq k" "cursor_ok (k\<lparr>next_pid := m\<rparr>) = cursor_ok k" "std_fd (k\<lparr>next_pid := m\<rparr>) n = std_fd k n"
  by (simp_all add: rq_def cursor_ok_def std_fd_def)

lemma pcb_entry [simp]:
  "entry (started_pcb par nm ent ac acopy blk p) = ent"
  "foreground (started_pcb par nm ent ac acopy blk p) = foreground p"
  by (simp_all add: started_pcb_def Let_def)

lemma create_unparented:
  fixes k :: kernel and nm :: "char list option" and ent :: u64 and fg :: u8
  assumes "first_slot MAX_PROCESSES (\<lambda>i. is_free k i) = Some slot" and "std_fd k 0" and "std_fd k 1"
    and "current_process k = None" and "mm_malloc_kernel 4096 k = (base, k1)" and "base \<noteq> 0"
  defines "k' \<equiv> snd (process_create nm ent 0 None fg k)"
  shows "fst (process_create nm ent 0 None fg k) = to_int (next_pid k + 1)"
    and "proc k' i = (if i = slot then started_pcb 0 nm ent 0 0 ([], [])
        (fresh_pcb (next_pid k + 1) (base + 3936) fg ((proc k slot)\<lparr>stack_base := base\<rparr>)) else proc k i)"
    and "next_pid k' = next_pid k + 1" and "current_process k' = None" and "idle_pcb k' = idle_pcb k"
    and "heap k' = heap k1" and "std_fd k' n = std_fd k n"
    and "cursor_ok k \<Longrightarrow> cursor_ok k'"
    and "rq k = [] \<Longrightarrow> idle_pcb k \<noteq> Some slot \<Longrightarrow> rq k' = [slot]"
    and "j < 20 \<Longrightarrow> qmem k' (base + 3936 + 8 * of_nat j) =
      [0, 0, 0, 0, 0, 0, 0, 0, 0, 0, 0, 0, 0, 0, 0, trampoline k, 0x08, 0x202, base + 4096, 0] ! j"
    and "trampoline k' = trampoline k" and "fault k' = fault k"
proof -
  note b = mm_malloc_parts [OF assms(5)]
  have more: "idle_pcb k1 = idle_pcb k" "rq k1 = rq k" "cursor_ok k1 = cursor_ok k" "fault k1 = fault k"
    using assms(5) by (auto simp: mm_malloc_kernel_def case_prod_beta Let_def rq_def cursor_ok_def)
  obtain sp m where st: "build_initial_stack (base + 4096) (trampoline k) 0 0 (qmem k) = (sp, m)" by fastforce
  note fr = build_initial_stack_frame [OF st]
  define K where "K = (upd_proc slot (\<lambda>p. p\<lparr>stack_base := base\<rparr>) k1)\<lparr>qmem := m\<rparr>"
  have K: "std_fd K n = std_fd k n" "current_process K = None" "next_pid K = next_pid k" "idle_pcb K = idle_pcb k"
    "heap K = heap k1" "rq K = rq k" "cursor_ok K = cursor_ok k" "qmem K = m" "trampoline K = trampoline k" "fault K = fault k" for n
    using std_fd_cong [of K k n] b more assms(4) by (simp_all add: K_def rq_def cursor_ok_def)
  let ?F = "fill_pcb nm ent 0 0 ([], []) fg sp slot K"
  note fill = fill_pcb_first [OF _ _ K(2), unfolded K(1), OF assms(2,3), of nm ent 0 0 "([], [])" fg sp slot]
  have pc: "process_create nm ent 0 None fg k =
      (to_int (pid (proc (scheduler_add slot ?F) slot)), scheduler_add slot ?F)"
    using assms(1,5,6) st b by (simp add: process_create_def K_def Let_def)
  have k': "k' = scheduler_add slot ?F" unfolding k'_def pc by simp
  have sp: "sp = base + 3936" using fr(1) by simp
  have F: "proc ?F i = (if i = slot then started_pcb 0 nm ent 0 0 ([], [])
        (fresh_pcb (next_pid k + 1) sp fg ((proc k slot)\<lparr>stack_base := base\<rparr>)) else proc k i)" for i
    unfolding fill by (simp add: K_def b)
  have rest: "next_pid ?F = next_pid k + 1" "current_process ?F = None" "idle_pcb ?F = idle_pcb k"
    "heap ?F = heap k1" "rq ?F = rq k" "cursor_ok ?F = cursor_ok k" "qmem ?F = m" "trampoline ?F = trampoline k"
    "fault ?F = fault k" "std_fd ?F n = std_fd k n" for n
    unfolding fill using K by (simp_all add: frame_more)
  show "fst (process_create nm ent 0 None fg k) = to_int (next_pid k + 1)"
    unfolding pc fst_conv scheduler_add_frame F by (simp add: fresh_pcb_def)
  show "proc k' i = (if i = slot then started_pcb 0 nm ent 0 0 ([], [])
        (fresh_pcb (next_pid k + 1) (base + 3936) fg ((proc k slot)\<lparr>stack_base := base\<rparr>)) else proc k i)"
    using F [of i] unfolding k' scheduler_add_frame sp .
  show "next_pid k' = next_pid k + 1" "current_process k' = None" "idle_pcb k' = idle_pcb k" "heap k' = heap k1"
    "std_fd k' n = std_fd k n" "trampoline k' = trampoline k" "fault k' = fault k"
    unfolding k' using rest by (simp_all add: std_fd_def)
  show "cursor_ok k \<Longrightarrow> cursor_ok k'" unfolding k' using rest(6) cursor_ok_add [of ?F slot] by simp
  show "rq k' = [slot]" if "rq k = []" "idle_pcb k \<noteq> Some slot"
  proof -
    have "rq ?F = []" using rest(5) that by simp
    moreover from this have "queue_size ?F = 0" by (simp add: rq_eq_Nil)
    ultimately show ?thesis unfolding k' using rest(3) that by (simp add: abs_simps insert_desc_def)
  qed
  show "qmem k' (base + 3936 + 8 * of_nat j) =
      [0, 0, 0, 0, 0, 0, 0, 0, 0, 0, 0, 0, 0, 0, 0, trampoline k, 0x08, 0x202, base + 4096, 0] ! j" if "j < 20"
    using fr(2) [OF that] unfolding k' scheduler_add_frame rest(7) by (simp add: sp of_int64_def)
qed

section \<open>Idle and the shell\<close>

lemma boot_std: "n < 2 \<Longrightarrow> std_fd (fd_init k) n"
  by (auto simp: std_fd_def fd_init_def Let_def)

text \<open>The two allocations of stacks from the fresh heap.\<close>

lemma boot_stacks:
  assumes "heap k = boot_heap"
  shows "fst (mm_malloc_kernel 4096 k) = 0x600018"
    and "heap k' = heap (snd (mm_malloc_kernel 4096 k)) \<Longrightarrow> fst (mm_malloc_kernel 4096 k') = 0x601030"
proof -
  have h: "mm_malloc_kernel 4096 k = (0x600018, k\<lparr>heap :=
      [\<lparr>mb_addr = 0x600000, mb_size = 4096, mb_free = False, mb_kernel = True\<rparr>,
       \<lparr>mb_addr = 0x601018, mb_size = 0x7FEFD0, mb_free = True, mb_kernel = False\<rparr>]\<rparr>)"
    using assms by (auto simp: mm_malloc_kernel_def ff_malloc_impl_def boot_heap_def ff_init_def align8_def)
  then show "fst (mm_malloc_kernel 4096 k) = 0x600018" by simp
  assume "heap k' = heap (snd (mm_malloc_kernel 4096 k))"
  then have "heap k' = [\<lparr>mb_addr = 0x600000, mb_size = 4096, mb_free = False, mb_kernel = True\<rparr>,
       \<lparr>mb_addr = 0x601018, mb_size = 0x7FEFD0, mb_free = True, mb_kernel = False\<rparr>]"
    by (simp add: h)
  then show "fst (mm_malloc_kernel 4096 k') = 0x601030"
    by (auto simp: mm_malloc_kernel_def ff_malloc_impl_def align8_def)
qed

text \<open>
  The state of the kernel when \<open>scheduler_start\<close> has made its choice: the shell runs, at the entry point of the
  user program, idle stands by, and the shell's stack holds the frame from which it starts.
\<close>

definition shell_runs :: "u64 \<Rightarrow> u64 \<Rightarrow> kernel \<Rightarrow> bool" where
  "shell_runs tramp idle k \<longleftrightarrow>
     current_process k = Some 1 \<and> pid (proc k 1) = 2 \<and> pstate (proc k 1) = PROCESS_RUNNING \<and>
     entry (proc k 1) = 0x400000 \<and> foreground (proc k 1) = 1 \<and> rsp (proc k 1) = 0x601F90 \<and>
     idle_pcb k = Some 0 \<and> pid (proc k 0) = 1 \<and> pstate (proc k 0) = PROCESS_READY \<and>
     entry (proc k 0) = idle \<and> (\<forall>i. 2 \<le> i \<longrightarrow> i < MAX_PROCESSES \<longrightarrow> pstate (proc k i) = PROCESS_FREE) \<and>
     rq k = [1] \<and> fault k = None \<and>
     (\<forall>i < 20. qmem k (0x601F90 + 8 * of_nat i) =
        [0, 0, 0, 0, 0, 0, 0, 0, 0, 0, 0, 0, 0, 0, 0, tramp, 0x08, 0x202, 0x602030, 0] ! i)"

text \<open>Idle, in slot 0, registered with the scheduler.\<close>

lemma boot_idle:
  fixes k :: kernel and idle :: u64
  assumes ini: "initial k" and std: "std_fd k 0" "std_fd k 1"
  defines "k' \<equiv> register_idle 1 (snd (process_create (Some ''idle'') idle 0 None 0 k))"
  shows "fst (process_create (Some ''idle'') idle 0 None 0 k) = 1"
    and "is_free k' i \<longleftrightarrow> is_free k i \<and> i \<noteq> 0"
    and "pid (proc k' 0) = 1" "pstate (proc k' 0) = PROCESS_READY" "entry (proc k' 0) = idle"
    and "next_pid k' = 1" "current_process k' = None" "idle_pcb k' = Some 0" "rq k' = []" "cursor_ok k'"
    and "std_fd k' 0" "std_fd k' 1" "trampoline k' = trampoline k"
    and "heap k' = heap (snd (mm_malloc_kernel 4096 k))" and "fault k' = fault k"
proof -
  have slot: "first_slot MAX_PROCESSES (\<lambda>i. is_free k i) = Some 0"
    using ini by (simp add: first_slot_Some initial_def)
  have n: "next_pid k = 0" "current_process k = None" "idle_pcb k = None" "rq k = []" "cursor_ok k" "heap k = boot_heap"
    "\<And>i. i < MAX_PROCESSES \<Longrightarrow> is_free k i"
    using ini by (simp_all add: initial_def rq_eq_Nil cursor_ok_def)
  obtain k1 where b: "mm_malloc_kernel 4096 k = (0x600018, k1)"
    using boot_stacks(1) [OF n(6)] by (metis prod.collapse)
  let ?K = "snd (process_create (Some ''idle'') idle 0 None 0 k)"
  have nz: "(0x600018 :: u64) \<noteq> 0" by simp
  note c = create_unparented [OF slot std n(2) b nz, where nm = "Some ''idle''" and ent = idle and fg = 0]
  show "fst (process_create (Some ''idle'') idle 0 None 0 k) = 1" unfolding c(1) by (simp add: n(1) to_int_def)
  have p0: "pid (proc ?K 0) = 1" "pstate (proc ?K 0) = PROCESS_READY" "entry (proc ?K 0) = idle"
    unfolding c(2) [of 0] by (simp_all add: fresh_pcb_def n(1))
  have pi: "proc ?K i = proc k i" if "i \<noteq> 0" for i using that unfolding c(2) by simp
  have "is_free ?K i" if "i \<noteq> 0" "i < MAX_PROCESSES" for i using pi [OF that(1)] n(7) [OF that(2)] by simp
  then have "first_slot MAX_PROCESSES (\<lambda>i. pid (proc ?K i) = 1 \<and> \<not> is_free ?K i) = Some 0"
    using p0 by (intro first_slot_unique) auto
  then have get: "process_get (of_int64 1) ?K = Some 0" by (simp add: process_get_def of_int64_def)
  let ?k6 = "(upd_proc 0 (\<lambda>p. p\<lparr>priority := 1, remaining_quanta := 1\<rparr>) ?K)\<lparr>idle_pcb := Some 0\<rparr>"
  have k': "k' = scheduler_remove 0 ?k6"
    by (simp add: k'_def register_idle_def get Let_def scheduler_set_idle_def)
  have rq: "rq ?K = [0]" using c(9) n(3,4) by simp
  then have "rq ?k6 = [0]" by (simp add: rq_def)
  then show "rq k' = []" unfolding k' by (simp add: abs_simps)
  have "cursor_ok ?k6" using c(8) n(5) by (simp add: cursor_ok_def)
  then show "cursor_ok k'" unfolding k' by (rule cursor_ok_remove)
  show "is_free k' i \<longleftrightarrow> is_free k i \<and> i \<noteq> 0" unfolding k' using p0(2) pi [of i] by auto
  show "pid (proc k' 0) = 1" "pstate (proc k' 0) = PROCESS_READY" "entry (proc k' 0) = idle"
    "next_pid k' = 1" "current_process k' = None" "idle_pcb k' = Some 0"
    "std_fd k' 0" "std_fd k' 1" "trampoline k' = trampoline k" "heap k' = heap (snd (mm_malloc_kernel 4096 k))"
    "fault k' = fault k"
    unfolding k' using p0 c(3,4,6,7,11,12) n(1) std b by (simp_all add: std_fd_def)
qed

lemma initial_scheduler_start:
  assumes "rq k = [1]" and "cursor_ok k" and "ready k 1"
  shows "\<exists>j. scheduler_start k = (Some (rsp (proc k 1)),
      process_set_current (Some 1) (upd_proc 1 (\<lambda>p. p\<lparr>pstate := PROCESS_RUNNING\<rparr>) (k\<lparr>queue_idx := j\<rparr>)))"
proof -
  have "pick k = Some 1"
    using assms(1,3) by (cases rule: pick_cases [of k]) (auto simp: in_best)
  then obtain j where "scheduler_next_ready k = (Some 1, k\<lparr>queue_idx := j\<rparr>)"
    using scheduler_next_ready_pick [OF assms(2)] by auto
  then show ?thesis by (intro exI [of _ j]) (simp add: scheduler_start_def process_set_current_def Let_def)
qed

lemma initial_runs_shell:
  fixes k :: kernel and idle :: u64
  assumes ini: "initial k" and std: "std_fd k 0" "std_fd k 1" and tr: "trampoline k = tramp" and "fault k = None"
  defines "k2 \<equiv> register_idle 1 (snd (process_create (Some ''idle'') idle 0 None 0 k))"
  defines "k4 \<equiv> snd (process_create (Some ''shell'') 0x400000 0 None 1 k2)"
  shows "fst (scheduler_start k4) = Some 0x601F90 \<and> shell_runs tramp idle (snd (scheduler_start k4))"
proof -
  have free: "is_free k i" if "i < MAX_PROCESSES" for i using ini that by (simp add: initial_def)
  have heap: "heap k = boot_heap" using ini by (simp add: initial_def)
  note i2 = boot_idle(2-) [OF ini std, of idle, folded k2_def]
  have slot: "first_slot MAX_PROCESSES (\<lambda>i. is_free k2 i) = Some 1"
    unfolding first_slot_Some using free [of 1] i2(3) by (auto simp: i2(1) less_Suc_eq)
  obtain k3 where b: "mm_malloc_kernel 4096 k2 = (0x601030, k3)"
    using boot_stacks(2) [OF heap i2(13)] by (metis prod.collapse)
  have nz: "(0x601030 :: u64) \<noteq> 0" by simp
  note c = create_unparented [OF slot i2(10,11) i2(6) b nz,
      where nm = "Some ''shell''" and ent = "0x400000" and fg = 1, folded k4_def]
  have p1: "pid (proc k4 1) = 2" "pstate (proc k4 1) = PROCESS_READY" "entry (proc k4 1) = 0x400000"
    "foreground (proc k4 1) = 1" "rsp (proc k4 1) = 0x601F90"
    unfolding c(2) [of 1] by (simp_all add: fresh_pcb_def i2(5))
  have pj: "proc k4 j = proc k2 j" if "j \<noteq> 1" for j using that unfolding c(2) by simp
  have rq: "rq k4 = [1]" using c(9) i2(7,8) by simp
  have rd: "ready k4 1" using p1(2) .
  obtain j where s: "scheduler_start k4 = (Some (rsp (proc k4 1)),
      process_set_current (Some 1) (upd_proc 1 (\<lambda>p. p\<lparr>pstate := PROCESS_RUNNING\<rparr>) (k4\<lparr>queue_idx := j\<rparr>)))"
    using initial_scheduler_start [OF rq c(8) [OF i2(9)] rd] by blast
  have fr: "qmem k4 (0x601F90 + 8 * of_nat j) =
      [0, 0, 0, 0, 0, 0, 0, 0, 0, 0, 0, 0, 0, 0, 0, tramp, 0x08, 0x202, 0x602030, 0] ! j" if "j < 20" for j
    using c(10) [OF that] i2(12) tr by simp
  have oth: "is_free k4 j" if "2 \<le> j" "j < MAX_PROCESSES" for j
    using that pj [of j] i2(1) [of j] free by simp
  have p0: "pid (proc k4 0) = 1" "pstate (proc k4 0) = PROCESS_READY" "entry (proc k4 0) = idle" "idle_pcb k4 = Some 0"
    using pj [of 0] i2(2-4,7) c(5) by simp_all
  have "fault k4 = None" using assms(5) c(12) i2(14) by simp
  then show ?thesis
    unfolding s shell_runs_def using p0 p1 rq fr oth
    by (simp add: process_set_current_def rq_def)
qed

lemma boot_runs_shell: "fst (boot v tramp idle m) = Some 0x601F90 \<and> shell_runs tramp idle (snd (boot v tramp idle m))"
proof -
  let ?k = "sem_init (scheduler_init (pipe_init (fd_init (process_init (mm_init HEAP_START HEAP_SIZE (bss_kernel v tramp m))))))"
  have ini: "initial ?k" by (rule initial_init)
  obtain t where t: "?k = (scheduler_init (pipe_init (fd_init (process_init (mm_init HEAP_START HEAP_SIZE (bss_kernel v tramp m))))))
      \<lparr>sem_table := t\<rparr>" using sem_init_eq by blast
  have std: "std_fd ?k n" if "n < 2" for n
    using boot_std [OF that, of "process_init (mm_init HEAP_START HEAP_SIZE (bss_kernel v tramp m))"]
    unfolding t by (simp add: std_fd_def scheduler_init_def pipe_init_def)
  have std01: "std_fd ?k 0" "std_fd ?k 1" by (rule std, simp)+
  have tr: "trampoline ?k = tramp"
    using fd_init_eq [of "process_init (mm_init HEAP_START HEAP_SIZE (bss_kernel v tramp m))"]
    unfolding t by (auto simp: scheduler_init_def pipe_init_def process_init_def mm_init_def bss_kernel_def)
  have ft: "fault ?k = None"
    using fd_init_eq [of "process_init (mm_init HEAP_START HEAP_SIZE (bss_kernel v tramp m))"]
    unfolding t by (auto simp: scheduler_init_def pipe_init_def process_init_def mm_init_def bss_kernel_def)
  have "fst (process_create (Some ''idle'') idle 0 None 0 ?k) = 1"
    by (rule boot_idle(1) [OF ini std01])
  then have "initializeKernelBinary idle (bss_kernel v tramp m) =
      snd (process_create (Some ''shell'') 0x400000 0 None 1
        (register_idle 1 (snd (process_create (Some ''idle'') idle 0 None 0 ?k))))"
    unfolding initializeKernelBinary_def Let_def by (simp add: case_prod_beta)
  then show ?thesis
    unfolding boot_def using initial_runs_shell [OF ini std01 tr ft, of idle] by simp
qed

end
