(* ===== verification/Heap_Inv.thy ===== *)
theory Heap_Inv
  imports Fd_Inv Boot_Processes
begin

text \<open>
  The heap in all runs: whatever order allocations, releases, exits and kills come in, the blocks of the
  first-fit allocator tile the heap, as long as every address passed to \<open>sys_free\<close> is 24 bytes behind a header.
  Of any other address the code takes the 24 bytes before it for a header and writes there: the model records the
  fault \<open>Wild_Free\<close>, and what it says of the heap afterwards means nothing.
\<close>

section \<open>Releases that are not of a live payload\<close>

lemma ff_free_at_unchanged:
  "ff_free_at a h = Some h' \<Longrightarrow> coalesced h \<Longrightarrow> (\<forall>b \<in> set h. mb_addr b = a \<longrightarrow> mb_free b) \<Longrightarrow> h' = h"
proof (induction a h arbitrary: h' rule: ff_free_at.induct)
  case (3 a prev b bs)
  show ?case
  proof (cases "mb_addr b = a")
    case True
    then have b: "mb_free b" "b\<lparr>mb_free := True\<rparr> = b" using 3(4) by simp_all
    then have "\<not> mb_free prev" "bs = [] \<or> \<not> mb_free (hd bs)"
      using 3(3) by (auto simp: coalesced_Cons)
    then show ?thesis using 3(2) True b ff_absorb_stop [of bs b] by simp
  next
    case False
    then show ?thesis using 3 by (auto simp: coalesced_Cons)
  qed
qed simp_all

lemma ff_free_not_live:
  assumes ok: "ff_ok a e h" and "ff_live h p = None" and "ff_free p h = Some h'"
  shows "h' = h"
proof (cases "p = 0")
  case True
  then show ?thesis using assms(3) by (simp add: ff_free_def)
next
  case False
  obtain b bs where h: "h = b # bs" using ok by (cases h) (auto simp: ff_ok_def)
  have free: "mb_free c" if c: "c \<in> set h" "mb_addr c = p - HDR" for c
  proof (rule ccontr)
    assume "\<not> mb_free c"
    moreover obtain pre post where "h = pre @ c # post" using c(1) by (meson split_list)
    ultimately have "ff_live h (mb_addr c + HDR) \<noteq> None"
      by (auto simp: ff_live_append map_add_def split: option.splits)
    then show False using assms(2) c(2) by simp
  qed
  have co: "coalesced h" using ok by (simp add: ff_ok_def)
  show ?thesis
  proof (cases "mb_addr b = p - HDR")
    case True
    then have b: "mb_free b" "b\<lparr>mb_free := True\<rparr> = b" using free h by simp_all
    then have "bs = [] \<or> \<not> mb_free (hd bs)" using co h by (auto simp: coalesced_Cons)
    then show ?thesis using assms(3) False True h b ff_absorb_stop [of bs b] by (simp add: ff_free_def)
  next
    case nf: False
    then have "ff_free_at (p - HDR) h = Some h'" using assms(3) False h by (simp add: ff_free_def)
    then show ?thesis using co free by (auto intro: ff_free_at_unchanged)
  qed
qed

lemma ff_free_keeps: "ff_ok a e h \<Longrightarrow> ff_free p h = Some h' \<Longrightarrow> ff_ok a e h'"
  using ff_free_ok [of a e h p] ff_free_not_live [of a e h p h'] by (cases "ff_live h p") auto

section \<open>The invariant\<close>

definition heap_ok :: "kernel \<Rightarrow> bool" where
  "heap_ok k \<longleftrightarrow> ff_ok 0x600000 0xE00000 (heap k)"

lemma heap_ok_cong: "heap k' = heap k \<Longrightarrow> heap_ok k' = heap_ok k"
  by (simp add: heap_ok_def)

lemma heap_ok_others:
  "heap_ok (upd_fd i d k) = heap_ok k" "heap_ok (upd_sem i f k) = heap_ok k"
  "heap_ok (upd_pipe i g k) = heap_ok k" "heap_ok (upd_proc i h k) = heap_ok k"
  "heap_ok (set_fault e k) = heap_ok k" "heap_ok (process_block n k) = heap_ok k"
  "heap_ok (process_unblock n k) = heap_ok k"
  by (rule heap_ok_cong, simp)+

lemma heap_ok_malloc: "heap_ok k \<Longrightarrow> heap_ok (snd (mm_malloc sz k)) \<and> heap_ok (snd (mm_malloc_kernel sz k))"
  by (simp add: heap_ok_def mm_malloc_def mm_malloc_kernel_def case_prod_beta Let_def ff.malloc_ok)

lemma heap_ok_free: "heap_ok k \<Longrightarrow> heap_ok (mm_free p k)"
  by (auto simp: heap_ok_def mm_free_def intro: ff_free_keeps split: option.split)

lemma heap_ok_same: "heap_ok k \<Longrightarrow> same_stores k k' \<Longrightarrow> heap_ok k'"
  by (simp add: heap_ok_def same_stores_def)

lemma fold_upd_fd_heap [simp]: "heap (fold (\<lambda>i. upd_fd i (f i)) l k) = heap k"
  by (induction l arbitrary: k) simp_all

lemma heap_ok_init: "heap_ok (init_tables v tramp m)"
proof -
  have "heap (init_tables v tramp m) = ff_init HEAP_START HEAP_SIZE []"
    using sem_init_eq [of "scheduler_init (pipe_init (fd_init (process_init (mm_init HEAP_START HEAP_SIZE (bss_kernel v tramp m)))))"]
    by (auto simp: init_tables_def scheduler_init_def pipe_init_def fd_init_def process_init_def mm_init_def bss_kernel_def)
  then show ?thesis
    using ff_init_ok(1) [of HEAP_START "0x600000" HEAP_SIZE "[]"] by (simp add: heap_ok_def)
qed

interpretation heap: sem_frame "\<lambda>k k'. heap_ok k \<longrightarrow> heap_ok k'"
  by unfold_locales (simp_all add: heap_ok_others)

interpretation heap: pipe_frame "\<lambda>k k'. heap_ok k \<longrightarrow> heap_ok k'"
  by unfold_locales (simp_all add: heap_ok_others)

interpretation heap: fd_frame "\<lambda>k k'. heap_ok k \<longrightarrow> heap_ok k'"
  by unfold_locales (simp add: heap_ok_others)

interpretation heap: store_frame "\<lambda>k k'. heap_ok k \<longrightarrow> heap_ok k'"
  by unfold_locales (auto simp: heap_ok_malloc intro: heap_ok_free heap_ok_same)

interpretation heap: invariant heap_ok
  by unfold_locales (rule heap_ok_init)

text \<open>A fault, once recorded, stays recorded: without one at the end of a run there was none before.\<close>

interpretation faulty: sem_frame "\<lambda>k k'. fault k \<noteq> None \<longrightarrow> fault k' \<noteq> None"
  by unfold_locales auto

interpretation faulty: pipe_frame "\<lambda>k k'. fault k \<noteq> None \<longrightarrow> fault k' \<noteq> None"
  by unfold_locales auto

interpretation faulty: fd_frame "\<lambda>k k'. fault k \<noteq> None \<longrightarrow> fault k' \<noteq> None"
  by unfold_locales auto

interpretation faulty: store_frame "\<lambda>k k'. fault k \<noteq> None \<longrightarrow> fault k' \<noteq> None"
  by unfold_locales (auto simp: same_stores_def mm_free_def split: option.split)

lemma no_fault_before: "kernel_step k k' \<Longrightarrow> kernel_inv k \<Longrightarrow> fault k' = None \<Longrightarrow> fault k = None"
  using faulty.kernel_step_R by blast






end
