(* ===== verification/Mm_Buddy.thy ===== *)
theory Mm_Buddy
  imports Mm_Interface
begin

text \<open>
  The alternative memory manager, \<open>Kernel/c/memoryManager/memoryManagerBuddy.c\<close>: blocks of
  \<open>2 ^ order\<close> bytes, each with a header of 8 bytes, and one linked list of free blocks per order.

  \<open>bd_hdr\<close> is the memory as far as it holds headers: the header at an address. A list of free
  blocks, linked through the payloads, is the Isabelle list of the addresses in the order of
  the links. \<open>mm_free\<close> checks nothing; for a pointer in front of which the order byte is not
  an order it indexes \<open>free_lists\<close> out of bounds, which is \<open>None\<close> here.
\<close>

abbreviation (input) MIN_ORDER :: nat where "MIN_ORDER \<equiv> 4"
abbreviation (input) MAX_ORDER :: nat where "MAX_ORDER \<equiv> 23"
abbreviation (input) BHDR :: u64 where "BHDR \<equiv> 8"

record block_hdr =
  hd_order :: nat
  hd_free :: bool
  hd_kernel :: bool

record buddy_heap =
  heap_base :: u64
  heap_total :: u64
  alloc_count :: u64
  free_lists :: "nat \<Rightarrow> u64 list"
  bd_hdr :: "u64 \<Rightarrow> block_hdr"

section \<open>Operations\<close>

text \<open>\<open>(uint64_t)1 << order\<close>\<close>

definition pow2 :: "nat \<Rightarrow> u64" where
  "pow2 order = push_bit order 1"

definition order_idx :: "nat \<Rightarrow> nat" where
  "order_idx order = order - MIN_ORDER"

text \<open>\<open>size_to_order\<close>; the result -1 is \<open>None\<close>.\<close>

function size_loop :: "nat \<Rightarrow> u64 \<Rightarrow> nat option" where
  "size_loop order sz =
     (if pow2 order < sz then
        (if order + 1 > MAX_ORDER then None else size_loop (order + 1) sz)
      else Some order)"
  by pat_completeness auto
termination
  by (relation "measure (\<lambda>(order, sz). MAX_ORDER - order)") auto

declare size_loop.simps [simp del]

definition size_to_order :: "u64 \<Rightarrow> nat option" where
  "size_to_order sz = size_loop MIN_ORDER sz"

definition get_buddy :: "u64 \<Rightarrow> nat \<Rightarrow> buddy_heap \<Rightarrow> u64 option" where
  "get_buddy block order h =
     (let offset = block - heap_base h;
          buddy_off = offset XOR pow2 order
      in if buddy_off + pow2 order > heap_total h then None else Some (heap_base h + buddy_off))"

text \<open>\<open>list_remove\<close>: walk to the target and skip it.\<close>

fun unlink :: "u64 \<Rightarrow> u64 list \<Rightarrow> u64 list" where
  "unlink target [] = []"
| "unlink target (x # xs) = (if x \<noteq> target then x # unlink target xs else xs)"

definition set_hdr :: "u64 \<Rightarrow> (block_hdr \<Rightarrow> block_hdr) \<Rightarrow> buddy_heap \<Rightarrow> buddy_heap" where
  "set_hdr a f h = h\<lparr>bd_hdr := (bd_hdr h)(a := f (bd_hdr h a))\<rparr>"

definition set_list :: "nat \<Rightarrow> (u64 list \<Rightarrow> u64 list) \<Rightarrow> buddy_heap \<Rightarrow> buddy_heap" where
  "set_list order f h =
     h\<lparr>free_lists := (free_lists h)(order_idx order := f (free_lists h (order_idx order)))\<rparr>"

definition list_remove :: "nat \<Rightarrow> u64 \<Rightarrow> buddy_heap \<Rightarrow> buddy_heap" where
  "list_remove order target h = set_list order (unlink target) h"

text \<open>One round of the loop of \<open>mm_init\<close>, and \<open>mm_init\<close>.\<close>

definition bd_init_step :: "u64 \<Rightarrow> u64 \<Rightarrow> nat \<Rightarrow> u64 \<times> buddy_heap \<Rightarrow> u64 \<times> buddy_heap" where
  "bd_init_step start sz order s =
     (let (offset, h) = s in
      if offset < sz \<and> offset + pow2 order \<le> sz then
        let block = start + offset;
            h = set_hdr block (\<lambda>_. \<lparr>hd_order = order, hd_free = True, hd_kernel = False\<rparr>) h
        in (offset + pow2 order, set_list order (\<lambda>l. block # l) h)
      else (offset, h))"

definition bd_init :: "u64 \<Rightarrow> u64 \<Rightarrow> buddy_heap \<Rightarrow> buddy_heap" where
  "bd_init start sz h =
     snd (fold (bd_init_step start sz) (rev [MIN_ORDER..<Suc MAX_ORDER])
       (0, h\<lparr>heap_base := start, heap_total := sz, alloc_count := 0,
             free_lists := (\<lambda>i. if i < MAX_ORDER - MIN_ORDER + 1 then [] else free_lists h i)\<rparr>))"

text \<open>The \<open>while (found > order)\<close> loop of \<open>malloc_impl\<close>.\<close>

fun split_loop :: "nat \<Rightarrow> nat \<Rightarrow> u64 \<Rightarrow> buddy_heap \<Rightarrow> buddy_heap" where
  "split_loop 0 order block h = h"
| "split_loop (Suc f) order block h =
     (if Suc f > order then
        let buddy = block + pow2 f;
            h = set_hdr buddy (\<lambda>_. \<lparr>hd_order = f, hd_free = True, hd_kernel = False\<rparr>) h;
            h = set_list f (\<lambda>l. buddy # l) h;
            h = set_hdr block (\<lambda>b. b\<lparr>hd_order := f\<rparr>) h
        in split_loop f order block h
      else h)"

definition bd_malloc_impl :: "u64 \<Rightarrow> bool \<Rightarrow> buddy_heap \<Rightarrow> u64 \<times> buddy_heap" where
  "bd_malloc_impl sz kern h =
     (if sz = 0 \<or> heap_base h = 0 then (0, h)
      else case size_to_order (sz + BHDR) of
        None \<Rightarrow> (0, h)
      | Some order \<Rightarrow>
          (case find (\<lambda>i. free_lists h (order_idx i) \<noteq> []) [order..<Suc MAX_ORDER] of
             None \<Rightarrow> (0, h)
           | Some found \<Rightarrow>
               let block = hd (free_lists h (order_idx found));
                   h = set_list found tl h;
                   h = split_loop found order block h;
                   h = set_hdr block (\<lambda>b. b\<lparr>hd_free := False, hd_kernel := kern\<rparr>) h;
                   h = (if kern then h else h\<lparr>alloc_count := alloc_count h + 1\<rparr>)
               in (block + BHDR, h)))"

text \<open>The coalescing loop of \<open>mm_free\<close>: the order and the address of the merged block.\<close>

function coalesce :: "nat \<Rightarrow> u64 \<Rightarrow> buddy_heap \<Rightarrow> nat \<times> u64 \<times> buddy_heap" where
  "coalesce order block h =
     (if order < MAX_ORDER then
        case get_buddy block order h of
          None \<Rightarrow> (order, block, h)
        | Some buddy \<Rightarrow>
            if \<not> hd_free (bd_hdr h buddy) \<or> hd_order (bd_hdr h buddy) \<noteq> order then (order, block, h)
            else
              let h = list_remove order buddy h;
                  block = (if buddy < block then buddy else block)
              in coalesce (order + 1) block (set_hdr block (\<lambda>b. b\<lparr>hd_order := order + 1\<rparr>) h)
      else (order, block, h))"
  by pat_completeness auto
termination
  by (relation "measure (\<lambda>(order, block, h). MAX_ORDER - order)") auto

declare coalesce.simps [simp del]

definition bd_free :: "u64 \<Rightarrow> buddy_heap \<Rightarrow> buddy_heap option" where
  "bd_free ptr h =
     (if ptr = 0 then Some h
      else
        let block = ptr - BHDR;
            order = hd_order (bd_hdr h block)
        in if order < MIN_ORDER \<or> order > MAX_ORDER then None
           else
             let h = (if hd_kernel (bd_hdr h block) then h else h\<lparr>alloc_count := alloc_count h - 1\<rparr>);
                 h = set_hdr block (\<lambda>b. b\<lparr>hd_free := True\<rparr>) h;
                 (order, block, h) = coalesce order block h
             in Some (set_list order (\<lambda>l. block # l) h))"

text \<open>
  The loop of \<open>mm_status\<close>. It need not end: an offset that wraps around can come back to a block
  visited before. Not returning is \<open>None\<close>.
\<close>

partial_function (option) status_loop ::
    "buddy_heap \<Rightarrow> u64 \<Rightarrow> u64 \<times> u64 \<times> u64 \<Rightarrow> (u64 \<times> u64 \<times> u64) option" where
  "status_loop h off acc =
     (if off < heap_total h then
        let b = bd_hdr h (heap_base h + off);
            bsz = pow2 (hd_order b);
            (free_bytes, used_bytes, used_kernel_bytes) = acc
        in status_loop h (off + bsz)
             (if hd_free b then (free_bytes + bsz, used_bytes, used_kernel_bytes)
              else if hd_kernel b then (free_bytes, used_bytes, used_kernel_bytes + bsz)
              else (free_bytes, used_bytes + bsz, used_kernel_bytes))
      else Some acc)"

text \<open>\<open>mm_status\<close>: \<open>Some None\<close> is the return without a report before \<open>mm_init\<close>.\<close>

definition bd_status :: "buddy_heap \<Rightarrow> mem_status option option" where
  "bd_status h =
     (if heap_base h = 0 then Some None
      else map_option (\<lambda>(f, u, k). Some \<lparr>ms_total = heap_total h, ms_free = f, ms_used = u,
             ms_used_kernel = k, ms_alloc_count = alloc_count h\<rparr>) (status_loop h 0 (0, 0, 0)))"


end
