(* ===== verification/Buddy_Tiling.thy ===== *)
theory Buddy_Tiling
  imports Prelude
begin

text \<open>
  The arithmetic of a buddy system, on offsets into the heap: a range of \<open>T\<close> bytes is tiled by
  blocks whose sizes are powers of two and which are aligned to their size. \<open>r x\<close> is the order of the
  block at offset \<open>x\<close>.
\<close>

definition tiling :: "nat \<Rightarrow> nat set \<Rightarrow> (nat \<Rightarrow> nat) \<Rightarrow> bool" where
  "tiling T S r \<longleftrightarrow>
     (\<forall>x \<in> S. 4 \<le> r x \<and> r x \<le> 23 \<and> 2 ^ r x dvd x \<and> x + 2 ^ r x \<le> T) \<and>
     (\<forall>x \<in> S. \<forall>y \<in> S. x < y \<longrightarrow> x + 2 ^ r x \<le> y) \<and>
     (\<forall>z < T. \<exists>x \<in> S. x \<le> z \<and> z < x + 2 ^ r x)"

lemma tilingD:
  assumes "tiling T S r" and "x \<in> S"
  shows "4 \<le> r x" and "r x \<le> 23" and "2 ^ r x dvd x" and "x + 2 ^ r x \<le> T" and "x < T"
proof -
  show "4 \<le> r x" "r x \<le> 23" "2 ^ r x dvd x" "x + 2 ^ r x \<le> T"
    using assms by (auto simp: tiling_def)
  moreover have "(0 :: nat) < 2 ^ r x" by simp
  ultimately show "x < T" by linarith
qed

lemma tiling_disjoint: "tiling T S r \<Longrightarrow> x \<in> S \<Longrightarrow> y \<in> S \<Longrightarrow> x < y \<Longrightarrow> x + 2 ^ r x \<le> y"
  unfolding tiling_def by blast

lemma tiling_cover: "tiling T S r \<Longrightarrow> z < T \<Longrightarrow> \<exists>x \<in> S. x \<le> z \<and> z < x + 2 ^ r x"
  unfolding tiling_def by blast

lemma tiling_cong: "(\<And>x. x \<in> S \<Longrightarrow> r x = r' x) \<Longrightarrow> tiling T S r = tiling T S r'"
  by (simp add: tiling_def cong: ball_cong)

lemma tiling_finite: "tiling T S r \<Longrightarrow> finite S"
  by (rule finite_subset [of _ "{..<T}"]) (auto dest: tilingD)

text \<open>Two blocks that meet are one.\<close>

lemma tiling_meet:
  assumes "tiling T S r" and "x \<in> S" and "y \<in> S" and "x \<le> y" and "y < x + 2 ^ r x"
  shows "x = y"
  using tiling_disjoint [OF assms(1-3)] assms(4,5) by (cases "x = y") auto

text \<open>Behind a block the next one starts, or the heap ends.\<close>

lemma tiling_next:
  assumes t: "tiling T S r" and x: "x \<in> S"
  shows "x + 2 ^ r x = T \<or> x + 2 ^ r x \<in> S"
proof (cases "x + 2 ^ r x = T")
  case False
  then have lt: "x + 2 ^ r x < T" using tilingD(4) [OF t x] by simp
  then obtain y where y: "y \<in> S" "y \<le> x + 2 ^ r x" "x + 2 ^ r x < y + 2 ^ r y"
    using tiling_cover [OF t] by blast
  have "y = x + 2 ^ r x"
  proof (cases y x rule: linorder_cases)
    case less
    from tiling_disjoint [OF t y(1) x less] y(3) show ?thesis by simp
  next
    case equal
    with y(3) show ?thesis by simp
  next
    case greater
    from tiling_disjoint [OF t x y(1) greater] y(2) show ?thesis by simp
  qed
  with y(1) show ?thesis by simp
qed simp

lemma tiling_first: "tiling T S r \<Longrightarrow> 0 < T \<Longrightarrow> 0 \<in> S"
  using tiling_cover [of T S r 0] by auto

text \<open>The buddy of an aligned offset, and the block it belongs to.\<close>

definition buddy_of :: "nat \<Rightarrow> nat \<Rightarrow> nat" where
  "buddy_of x k = (if even (x div 2 ^ k) then x + 2 ^ k else x - 2 ^ k)"

lemma xor_buddy:
  assumes "2 ^ k dvd x"
  shows "x XOR 2 ^ k = buddy_of x k"
proof -
  obtain q where q: "x = 2 ^ k * q" using assms by (auto elim: dvdE)
  have "x XOR 2 ^ k = push_bit k (q XOR 1)"
    unfolding push_bit_xor using q by (simp add: push_bit_eq_mult ac_simps)
  also have "\<dots> = 2 ^ k * (q + of_bool (even q) - of_bool (odd q))"
    by (simp add: push_bit_eq_mult xor_Suc_0_eq ac_simps)
  also have "\<dots> = buddy_of x k"
    using q by (auto simp: buddy_of_def algebra_simps diff_mult_distrib2)
  finally show ?thesis .
qed

lemma buddy_cases:
  assumes "2 ^ k dvd x"
  obtains "buddy_of x k = x + 2 ^ k" "2 ^ Suc k dvd x"
    | "2 ^ k \<le> x" "buddy_of x k = x - 2 ^ k" "2 ^ Suc k dvd buddy_of x k" "x = buddy_of x k + 2 ^ k"
proof -
  obtain q where q: "x = 2 ^ k * q" using assms by (auto elim: dvdE)
  show ?thesis
  proof (cases "even q")
    case True
    then have "buddy_of x k = x + 2 ^ k" using q by (simp add: buddy_of_def)
    moreover have "2 ^ Suc k dvd x" using q True by (auto elim!: evenE)
    ultimately show ?thesis by (rule that(1))
  next
    case False
    then obtain m where m: "q = 2 * m + 1" by (auto elim: oddE)
    have "buddy_of x k = x - 2 ^ k" using q False by (simp add: buddy_of_def)
    moreover have x: "x = 2 ^ Suc k * m + 2 ^ k" using q m by (simp add: algebra_simps)
    ultimately have b: "buddy_of x k = 2 ^ Suc k * m" by simp
    show ?thesis
      by (rule that(2)) (use x b in \<open>simp_all\<close>)
  qed
qed

lemma dvd_interval:
  fixes x y :: nat
  assumes "d dvd x" and "d dvd y" and "x \<le> y" and "y < x + d"
  shows "x = y"
proof -
  have "d dvd y - x" using assms(1,2) by (rule dvd_diff_nat [rotated])
  moreover have "y - x < d" using assms(3,4) by simp
  ultimately have "y - x = 0" using nat_dvd_not_less by blast
  with assms(3) show ?thesis by simp
qed

text \<open>
  The two halves \<open>z\<close> and \<open>z + 2 ^ k\<close> of an aligned range: if one is a block, and the other lies in
  the heap, a block starts there too.
\<close>

lemma half_starts:
  assumes t: "tiling T S r" and x: "x \<in> S" "r x = k" and z: "2 ^ Suc k dvd z"
    and xz: "x = z \<or> x = z + 2 ^ k" and y: "y = z \<or> y = z + 2 ^ k" and yT: "y < T"
  shows "y \<in> S"
proof -
  obtain p where p: "p \<in> S" "p \<le> y" "y < p + 2 ^ r p" using tiling_cover [OF t yT] by blast
  have dy: "2 ^ k dvd y"
    using y z by (auto intro: dvd_add power_le_dvd [of 2 "Suc k" z k])
  have dp: "2 ^ r p dvd p" using tilingD(3) [OF t p(1)] .
  show ?thesis
  proof (cases "r p \<le> k")
    case True
    then have "2 ^ r p dvd y" using dy by (metis dvd_trans le_imp_power_dvd)
    from dvd_interval [OF dp this p(2,3)] p(1) show ?thesis by simp
  next
    case False
    then have Suc: "Suc k \<le> r p" by simp
    have "2 ^ Suc k dvd p" using dp Suc by (metis dvd_trans le_imp_power_dvd)
    obtain m where m: "z = 2 ^ Suc k * m" using z by (auto elim: dvdE)
    obtain n where n: "p = 2 ^ Suc k * n" using \<open>2 ^ Suc k dvd p\<close> by (auto elim: dvdE)
    obtain d where d: "2 ^ r p = (2 :: nat) ^ Suc k * d"
      using le_imp_power_dvd [OF Suc, of "2 :: nat"] by (auto elim: dvdE)
    have yz: "z \<le> y" "y < z + 2 ^ Suc k" using y by auto
    have "2 ^ Suc k * n < (2 :: nat) ^ Suc k * (m + 1)" using p(2) yz n m by (simp add: algebra_simps)
    then have nm: "n \<le> m" by (metis mult_less_cancel1 less_Suc_eq_le Suc_eq_plus1)
    have "2 ^ Suc k * m < (2 :: nat) ^ Suc k * (n + d)"
      using p(3) yz n m d by (simp add: algebra_simps)
    then have md: "m + 1 \<le> n + d" by (metis mult_less_cancel1 Suc_leI Suc_eq_plus1)
    have "p \<le> z" using nm n m by simp
    have "z + 2 ^ Suc k = 2 ^ Suc k * (m + 1)" using m by (simp add: algebra_simps)
    also have "\<dots> \<le> 2 ^ Suc k * (n + d)" using md by (intro mult_le_mono) simp_all
    also have "\<dots> = p + 2 ^ r p" using n d by (simp add: algebra_simps)
    finally have e: "z + 2 ^ Suc k \<le> p + 2 ^ r p" .
    have "x < z + 2 ^ Suc k" using xz by auto
    with e \<open>p \<le> z\<close> xz have "p \<le> x" "x < p + 2 ^ r p" by (linarith, linarith)
    from tiling_meet [OF t p(1) x(1) this] x(2) False show ?thesis by simp
  qed
qed

lemma tiling_buddy:
  assumes t: "tiling T S r" and x: "x \<in> S" "r x = k" and bT: "buddy_of x k + 2 ^ k \<le> T"
  shows "buddy_of x k \<in> S"
proof -
  have d: "2 ^ k dvd x" using tilingD(3) [OF t x(1)] x(2) by simp
  have lt: "buddy_of x k < T" using bT by (meson less_le_trans less_add_same_cancel1 zero_less_numeral zero_less_power)
  from d show ?thesis
  proof (cases rule: buddy_cases)
    case 1
    then show ?thesis by (intro half_starts [OF t x, of x]) (use lt in auto)
  next
    case 2
    then show ?thesis by (intro half_starts [OF t x, of "buddy_of x k"]) (use lt in auto)
  qed
qed

text \<open>Splitting and merging.\<close>

lemma tiling_split:
  assumes t: "tiling T S r" and x: "x \<in> S" "r x = Suc f" and f: "4 \<le> f"
  shows "tiling T (insert (x + 2 ^ f) S) (r(x := f, x + 2 ^ f := f))"
    and "x + 2 ^ f \<notin> S"
proof -
  note b = tilingD [OF t x(1)]
  have two: "(2 :: nat) ^ r x = 2 ^ f + 2 ^ f" using x(2) by simp
  have pos: "(0 :: nat) < 2 ^ f" by simp
  show new: "x + 2 ^ f \<notin> S"
    using tiling_meet [OF t x(1), of "x + 2 ^ f"] two pos by fastforce
  let ?r = "r(x := f, x + 2 ^ f := f)"
  have dx: "2 ^ f dvd x" 
    using b(3) x(2) by (intro power_le_dvd [of 2 "Suc f" x f]) simp_all
  have end_y: "y + 2 ^ ?r y \<le> y + 2 ^ r y" if "y \<in> S" for y
  proof (cases "y = x")
    case True
    then show ?thesis using two by simp
  next
    case False
    then have "?r y = r y" using that new by auto
    then show ?thesis by simp
  qed
  show "tiling T (insert (x + 2 ^ f) S) ?r"
    unfolding tiling_def
  proof (intro conjI ballI allI impI)
    fix y assume "y \<in> insert (x + 2 ^ f) S"
    then show "4 \<le> ?r y" "?r y \<le> 23" "2 ^ ?r y dvd y" "y + 2 ^ ?r y \<le> T"
      using f b x(2) dx two tilingD [OF t, of y] by (auto simp: dvd_add)
  next
    fix y z assume yz: "y \<in> insert (x + 2 ^ f) S" "z \<in> insert (x + 2 ^ f) S" "y < z"
    consider "y = x + 2 ^ f" "z \<in> S" | "y \<in> S" "z = x + 2 ^ f" | "y \<in> S" "z \<in> S"
      using yz by auto
    then show "y + 2 ^ ?r y \<le> z"
    proof cases
      case 1
      then have "x < z" using yz(3) pos by linarith
      then show ?thesis using tiling_disjoint [OF t x(1) 1(2)] two 1(1) by simp
    next
      case 2
      then show ?thesis
      proof (cases "y = x")
        case True
        then show ?thesis using 2 by auto
      next
        case False
        have "\<not> x < y"
          using tiling_disjoint [OF t x(1) 2(1)] yz(3) 2(2) two by auto
        then have "y + 2 ^ r y \<le> x" using tiling_disjoint [OF t 2(1) x(1)] False by simp
        then show ?thesis using end_y [OF 2(1)] 2(2) by linarith
      qed
    next
      case 3
      then show ?thesis using tiling_disjoint [OF t 3 yz(3)] end_y [OF 3(1)] by linarith
    qed
  next
    fix z assume "z < T"
    then obtain y where y: "y \<in> S" "y \<le> z" "z < y + 2 ^ r y" using tiling_cover [OF t] by blast
    show "\<exists>y \<in> insert (x + 2 ^ f) S. y \<le> z \<and> z < y + 2 ^ ?r y"
    proof (cases "y = x")
      case True
      then show ?thesis
        using y two x(1) by (cases "z < x + 2 ^ f") auto
    next
      case False
      then have "?r y = r y" using y(1) new by auto
      with y show ?thesis by (intro bexI [of _ y]) auto
    qed
  qed
qed

lemma tiling_merge:
  assumes t: "tiling T S r" and x: "x \<in> S" "r x = k" and y: "x + 2 ^ k \<in> S" "r (x + 2 ^ k) = k"
    and k: "k < 23" and d: "2 ^ Suc k dvd x"
  shows "tiling T (S - {x + 2 ^ k}) (r(x := Suc k))"
proof -
  let ?r = "r(x := Suc k)"
  have pos: "(0 :: nat) < 2 ^ k" by simp
  note bx = tilingD [OF t x(1)] and byy = tilingD [OF t y(1)]
  show ?thesis
    unfolding tiling_def
  proof (intro conjI ballI allI impI)
    fix z assume "z \<in> S - {x + 2 ^ k}"
    then show "4 \<le> ?r z" "?r z \<le> 23" "2 ^ ?r z dvd z" "z + 2 ^ ?r z \<le> T"
      using k d x y bx byy tilingD [OF t, of z] by auto
  next
    fix z w assume zw: "z \<in> S - {x + 2 ^ k}" "w \<in> S - {x + 2 ^ k}" "z < w"
    show "z + 2 ^ ?r z \<le> w"
    proof (cases "z = x")
      case False
      then show ?thesis using tiling_disjoint [OF t, of z w] zw by simp
    next
      case True
      then have "x + 2 ^ k \<le> w" using tiling_disjoint [OF t x(1), of w] zw x(2) by auto
      then have "x + 2 ^ k < w" using zw(2) by auto
      then have "x + 2 ^ k + 2 ^ k \<le> w" using tiling_disjoint [OF t y(1), of w] zw y(2) by auto
      then show ?thesis using True by simp
    qed
  next
    fix z assume "z < T"
    then obtain p where p: "p \<in> S" "p \<le> z" "z < p + 2 ^ r p" using tiling_cover [OF t] by blast
    show "\<exists>p \<in> S - {x + 2 ^ k}. p \<le> z \<and> z < p + 2 ^ ?r p"
    proof (cases "p = x \<or> p = x + 2 ^ k")
      case True
      then show ?thesis using p x y pos by (intro bexI [of _ x]) auto
    next
      case False
      then show ?thesis using p by (intro bexI [of _ p]) auto
    qed
  qed
qed

end
