(* ===== verification/Buddy_Inv.thy ===== *)
theory Buddy_Inv
  imports Mm_Buddy Buddy_Tiling
begin

text \<open>
  The invariant of the buddy allocator: the headers reached from the start of the heap tile it,
  and the free lists hold exactly the free blocks, each once. Every operation keeps it, which
  makes the allocator a provider of \<open>memory_manager\<close>; the status loop ends, with totals that add
  up.

  The lemmas follow the code step by step: taking a block off its list, one round of the split
  loop, marking the block, one round of the coalescing loop, putting the result back. Between the
  steps the set \<open>F\<close> names the free block that is on no list because the operation holds it.
\<close>

section \<open>Well-formed heaps\<close>

text \<open>The header at an offset into the heap.\<close>

definition adr :: "buddy_heap \<Rightarrow> nat \<Rightarrow> u64" where
  "adr h x = heap_base h + of_nat x"

definition hd_at :: "buddy_heap \<Rightarrow> nat \<Rightarrow> block_hdr" where
  "hd_at h x = bd_hdr h (adr h x)"

abbreviation ord_at :: "buddy_heap \<Rightarrow> nat \<Rightarrow> nat" where
  "ord_at h x \<equiv> hd_order (hd_at h x)"

text \<open>The offsets of the blocks, as \<open>mm_status\<close> walks over them.\<close>

function bd_walk :: "buddy_heap \<Rightarrow> nat \<Rightarrow> nat list" where
  "bd_walk h x = (if x < unat (heap_total h) then x # bd_walk h (x + 2 ^ ord_at h x) else [])"
  by pat_completeness auto
termination
  by (relation "measure (\<lambda>(h, x). unat (heap_total h) - x)") (auto simp: diff_less_mono2)

declare bd_walk.simps [simp del]

definition bd_part :: "buddy_heap \<Rightarrow> nat set \<Rightarrow> bool" where
  "bd_part h S \<longleftrightarrow> heap_base h \<noteq> 0 \<and> unat (heap_base h) + unat (heap_total h) < 2 ^ 64 \<and>
     unat (heap_total h) < 2 ^ 32 \<and> tiling (unat (heap_total h)) S (ord_at h)"

definition frees :: "buddy_heap \<Rightarrow> nat set \<Rightarrow> nat set \<Rightarrow> nat \<Rightarrow> nat set" where
  "frees h S F k = {x \<in> S - F. hd_free (hd_at h x) \<and> ord_at h x = k}"

text \<open>The free lists hold the free blocks, but for those in \<open>F\<close>, which an operation has in hand.\<close>

definition lists_ok :: "buddy_heap \<Rightarrow> nat set \<Rightarrow> nat set \<Rightarrow> bool" where
  "lists_ok h S F \<longleftrightarrow> (\<forall>k \<in> {MIN_ORDER..MAX_ORDER}. distinct (free_lists h (order_idx k)) \<and>
     set (free_lists h (order_idx k)) = adr h ` frees h S F k)"

definition users :: "buddy_heap \<Rightarrow> nat set \<Rightarrow> nat set" where
  "users h S = {x \<in> S. \<not> hd_free (hd_at h x) \<and> \<not> hd_kernel (hd_at h x)}"

definition bd_inv :: "buddy_heap \<Rightarrow> nat set \<Rightarrow> nat set \<Rightarrow> bool" where
  "bd_inv h S F \<longleftrightarrow> bd_part h S \<and> lists_ok h S F \<and> F \<subseteq> S"

definition live_in :: "buddy_heap \<Rightarrow> nat set \<Rightarrow> payloads" where
  "live_in h S p =
     (let x = unat (p - BHDR - heap_base h)
      in if x \<in> S \<and> \<not> hd_free (hd_at h x) then Some (2 ^ ord_at h x - 8, hd_kernel (hd_at h x))
         else None)"

definition bd_blocks :: "buddy_heap \<Rightarrow> nat set" where
  "bd_blocks h = set (bd_walk h 0)"

definition bd_ok :: "buddy_heap \<Rightarrow> bool" where
  "bd_ok h \<longleftrightarrow> bd_inv h (bd_blocks h) {} \<and> alloc_count h = of_nat (card (users h (bd_blocks h)))"

definition bd_live :: "buddy_heap \<Rightarrow> payloads" where
  "bd_live h = live_in h (bd_blocks h)"

definition bd_fits :: "u64 \<Rightarrow> bool" where
  "bd_fits n \<longleftrightarrow> unat n + 8 < 2 ^ 64"

section \<open>Addresses and updates\<close>

lemma set_hdr_simps [simp]:
  "heap_base (set_hdr a f h) = heap_base h" "heap_total (set_hdr a f h) = heap_total h"
  "alloc_count (set_hdr a f h) = alloc_count h" "free_lists (set_hdr a f h) = free_lists h"
  "adr (set_hdr a f h) = adr h"
  by (simp_all add: set_hdr_def adr_def fun_eq_iff)

lemma set_list_simps [simp]:
  "heap_base (set_list k g h) = heap_base h" "heap_total (set_list k g h) = heap_total h"
  "alloc_count (set_list k g h) = alloc_count h" "bd_hdr (set_list k g h) = bd_hdr h"
  "adr (set_list k g h) = adr h" "hd_at (set_list k g h) = hd_at h"
  by (simp_all add: set_list_def adr_def hd_at_def fun_eq_iff)

lemma set_list_lists:
  "free_lists (set_list k g h) (order_idx j) =
     (if order_idx j = order_idx k then g (free_lists h (order_idx j))
      else free_lists h (order_idx j))"
  by (simp add: set_list_def)

lemma order_idx_eq: "4 \<le> j \<Longrightarrow> 4 \<le> k \<Longrightarrow> order_idx j = order_idx k \<longleftrightarrow> j = k"
  by (auto simp: order_idx_def)

lemma alloc_count_simps [simp]:
  "adr (h\<lparr>alloc_count := n\<rparr>) = adr h" "hd_at (h\<lparr>alloc_count := n\<rparr>) = hd_at h"
  by (simp_all add: adr_def hd_at_def fun_eq_iff)

lemma live_in_simps [simp]:
  "live_in (set_list k g h) S = live_in h S" "users (set_list k g h) S = users h S"
  "live_in (h\<lparr>alloc_count := n\<rparr>) S = live_in h S" "users (h\<lparr>alloc_count := n\<rparr>) S = users h S"
  by (simp_all add: live_in_def users_def Let_def fun_eq_iff)

lemma pow2_eq: "pow2 k = 2 ^ k"
  by (simp add: pow2_def push_bit_eq_mult)

lemma unat_pow2: "k < 64 \<Longrightarrow> unat (pow2 k) = 2 ^ k"
proof -
  assume "k < 64"
  then have "(2 :: nat) ^ k < 2 ^ 64" by (intro power_strict_increasing) simp_all
  moreover have "pow2 k = of_nat (2 ^ k)" by (simp add: pow2_eq)
  ultimately show ?thesis by (simp add: unat_of_nat del: of_nat_power)
qed

lemma adr_add: "adr h (x + 2 ^ k) = adr h x + pow2 k"
  by (simp add: adr_def pow2_eq)


lemma unat_adr:
  assumes "bd_part h S" and "x \<le> unat (heap_total h)"
  shows "unat (adr h x) = unat (heap_base h) + x"
  using assms by (simp add: bd_part_def adr_def unat_word_ariths unat_of_nat)

lemma adr_inj:
  assumes "bd_part h S" and "x \<le> unat (heap_total h)" and "y \<le> unat (heap_total h)"
  shows "adr h x = adr h y \<longleftrightarrow> x = y"
  using unat_adr [OF assms(1,2)] unat_adr [OF assms(1,3)] by (metis add_left_cancel)

lemma adr_less:
  assumes "bd_part h S" and "x \<le> unat (heap_total h)" and "y \<le> unat (heap_total h)"
  shows "adr h x < adr h y \<longleftrightarrow> x < y"
  using unat_adr [OF assms(1,2)] unat_adr [OF assms(1,3)] by (simp add: word_less_nat_alt)

lemma part_bound: "bd_part h S \<Longrightarrow> x \<in> S \<Longrightarrow> x \<le> unat (heap_total h)"
  unfolding bd_part_def using tilingD(5) less_imp_le by blast

lemma hd_at_set_hdr:
  assumes "bd_part h S" and "x \<le> unat (heap_total h)" and "y \<le> unat (heap_total h)"
  shows "hd_at (set_hdr (adr h y) f h) x = (if x = y then f (hd_at h x) else hd_at h x)"
  using adr_inj [OF assms] by (simp add: hd_at_def set_hdr_def adr_def)

text \<open>The payload of the block at an offset, and the offset of a payload.\<close>

lemma payload_offset:
  assumes "bd_part h S" and "x \<le> unat (heap_total h)"
  shows "unat (adr h x + BHDR - BHDR - heap_base h) = x"
  using assms by (simp add: bd_part_def adr_def unat_of_nat)

lemma payload_nonzero:
  assumes "bd_part h S" and "x \<in> S"
  shows "adr h x + BHDR \<noteq> 0"
proof -
  have t: "tiling (unat (heap_total h)) S (ord_at h)" using assms(1) by (simp add: bd_part_def)
  have "(2 :: nat) ^ 4 \<le> 2 ^ ord_at h x"
    using tilingD(1) [OF t assms(2)] by (intro power_increasing) simp_all
  then have "x + 8 \<le> unat (heap_total h)" using tilingD(4) [OF t assms(2)] by simp
  from unat_adr [OF assms(1) this] have "unat (adr h (x + 8)) \<noteq> 0" by simp
  then show ?thesis by (auto simp: adr_def ac_simps)
qed

lemma offset_payload: "p = adr h (unat (p - BHDR - heap_base h)) + BHDR"
  by (simp add: adr_def)

lemma live_in_payload:
  assumes "bd_part h S" and "x \<in> S"
  shows "live_in h S (adr h x + BHDR) =
    (if hd_free (hd_at h x) then None else Some (2 ^ ord_at h x - 8, hd_kernel (hd_at h x)))"
  using payload_offset [OF assms(1) part_bound [OF assms]] assms(2) by (simp add: live_in_def Let_def)

lemma live_in_cases:
  assumes "live_in h S p = Some (s, k)"
  obtains x where "x \<in> S" "\<not> hd_free (hd_at h x)" "p = adr h x + BHDR"
    "s = 2 ^ ord_at h x - 8" "k = hd_kernel (hd_at h x)"
  using assms offset_payload [of p h] by (auto simp: live_in_def Let_def split: if_splits)

lemma live_in_cong:
  assumes "heap_base h' = heap_base h"
    and "\<And>x. x \<in> S' \<and> \<not> hd_free (hd_at h' x) \<longleftrightarrow> x \<in> S \<and> \<not> hd_free (hd_at h x)"
    and "\<And>x. x \<in> S \<Longrightarrow> \<not> hd_free (hd_at h x) \<Longrightarrow> hd_at h' x = hd_at h x"
  shows "live_in h' S' = live_in h S"
  using assms by (auto simp: live_in_def Let_def fun_eq_iff)

lemma users_cong:
  assumes "\<And>x. x \<in> S' \<and> \<not> hd_free (hd_at h' x) \<longleftrightarrow> x \<in> S \<and> \<not> hd_free (hd_at h x)"
    and "\<And>x. x \<in> S \<Longrightarrow> \<not> hd_free (hd_at h x) \<Longrightarrow> hd_at h' x = hd_at h x"
  shows "users h' S' = users h S"
proof -
  have "x \<in> users h' S' \<longleftrightarrow> x \<in> users h S" for x
    using assms(1) [of x] assms(2) [of x] unfolding users_def by auto
  then show ?thesis by blast
qed

lemma part_finite: "bd_part h S \<Longrightarrow> finite S"
  unfolding bd_part_def using tiling_finite by blast

section \<open>The walk\<close>

lemma walk_part:
  assumes "bd_part h S" and "x \<in> S \<or> x = unat (heap_total h)"
  shows "set (bd_walk h x) = {y \<in> S. x \<le> y}"
  using assms
proof (induction h x rule: bd_walk.induct)
  case (1 h x)
  let ?T = "unat (heap_total h)"
  from 1 have t: "tiling ?T S (ord_at h)" by (simp add: bd_part_def)
  show ?case
  proof (cases "x < ?T")
    case False
    then have "bd_walk h x = []" by (simp add: bd_walk.simps)
    moreover have "\<not> x \<le> y" if "y \<in> S" for y using tilingD(5) [OF t that] False by simp
    ultimately show ?thesis by auto
  next
    case True
    then have x: "x \<in> S" using 1 by auto
    have "set (bd_walk h (x + 2 ^ ord_at h x)) = {y \<in> S. x + 2 ^ ord_at h x \<le> y}"
      using 1 True tiling_next [OF t x] by auto
    moreover have "x \<le> y \<longleftrightarrow> x = y \<or> x + 2 ^ ord_at h x \<le> y" if "y \<in> S" for y
      using tiling_disjoint [OF t x that] by (cases "x = y") auto
    ultimately show ?thesis using True x by (auto simp: bd_walk.simps [of h x])
  qed
qed

lemma bd_blocks_part:
  assumes "bd_part h S"
  shows "bd_blocks h = S"
proof (cases "unat (heap_total h) = 0")
  case True
  then show ?thesis using assms walk_part [of h S 0] by (simp add: bd_blocks_def)
next
  case False
  moreover have "tiling (unat (heap_total h)) S (ord_at h)" using assms by (simp add: bd_part_def)
  ultimately have "0 \<in> S" using tiling_first by blast
  then show ?thesis using assms walk_part [of h S 0] by (simp add: bd_blocks_def)
qed

lemma bd_okI:
  "bd_inv h S {} \<Longrightarrow> alloc_count h = of_nat (card (users h S)) \<Longrightarrow>
   bd_ok h \<and> bd_live h = live_in h S \<and> bd_blocks h = S"
  using bd_blocks_part [of h S] by (auto simp: bd_ok_def bd_live_def bd_inv_def)

section \<open>The steps of an operation\<close>

lemma lists_okD:
  assumes "lists_ok h S F" and "4 \<le> k" and "k \<le> 23"
  shows "distinct (free_lists h (order_idx k))"
    and "set (free_lists h (order_idx k)) = adr h ` frees h S F k"
  using assms by (auto simp: lists_ok_def)

lemma adr_image_diff:
  assumes "bd_part h S" and "A \<subseteq> S" and "x \<in> S"
  shows "adr h ` (A - {x}) = adr h ` A - {adr h x}"
  using assms adr_inj [OF assms(1)] part_bound [OF assms(1)] by (auto 0 3)

text \<open>Taking the first block off a list.\<close>

lemma bd_pop:
  assumes inv: "bd_inv h S {}" and k: "4 \<le> k" "k \<le> 23" and ne: "free_lists h (order_idx k) \<noteq> []"
  obtains x where "x \<in> S" "hd (free_lists h (order_idx k)) = adr h x" "ord_at h x = k"
    "hd_free (hd_at h x)" "bd_inv (set_list k tl h) S {x}"
proof -
  have p: "bd_part h S" and l: "lists_ok h S {}" using inv by (auto simp: bd_inv_def)
  let ?l = "free_lists h (order_idx k)"
  note lk = lists_okD [OF l k]
  have "hd ?l \<in> set ?l" using ne by simp
  then obtain x where x: "x \<in> S" "hd ?l = adr h x" "hd_free (hd_at h x)" "ord_at h x = k"
    using lk(2) by (auto simp: frees_def)
  have split: "?l = adr h x # tl ?l" using ne x(2) by (cases ?l) auto
  have tl: "distinct (tl ?l)" "set (tl ?l) = set ?l - {adr h x}"
    using lk(1) split by (metis distinct_tl, metis Diff_insert_absorb distinct.simps(2) list.simps(15))
  have fr: "frees h S {x} j = frees h S {} j - (if j = k then {x} else {})" for j
    using x(4) by (auto simp: frees_def)
  have sub: "frees h S {} k \<subseteq> S" by (auto simp: frees_def)
  have "lists_ok (set_list k tl h) S {x}"
    unfolding lists_ok_def
  proof (intro ballI conjI)
    fix j assume j: "j \<in> {MIN_ORDER..MAX_ORDER}"
    then have j4: "4 \<le> j" "j \<le> 23" by simp_all
    note lj = lists_okD [OF l j4]
    show "distinct (free_lists (set_list k tl h) (order_idx j))"
      using lj tl(1) by (simp add: set_list_lists order_idx_eq [OF j4(1) k(1)])
    have "frees (set_list k tl h) S {x} j = frees h S {x} j" by (simp add: frees_def)
    then show "set (free_lists (set_list k tl h) (order_idx j)) =
        adr (set_list k tl h) ` frees (set_list k tl h) S {x} j"
      using lj tl(2) fr [of j] adr_image_diff [OF p sub x(1)] lk(2)
      by (cases "j = k") (simp_all add: set_list_lists order_idx_eq [OF j4(1) k(1)])
  qed
  moreover have "bd_part (set_list k tl h) S" using p by (simp add: bd_part_def)
  ultimately have "bd_inv (set_list k tl h) S {x}" using x(1) by (simp add: bd_inv_def)
  with x show ?thesis by (intro that) auto
qed


text \<open>One round of the split loop.\<close>

definition split_step :: "nat \<Rightarrow> u64 \<Rightarrow> buddy_heap \<Rightarrow> buddy_heap" where
  "split_step f block h =
     set_hdr block (\<lambda>b. b\<lparr>hd_order := f\<rparr>)
       (set_list f (\<lambda>l. (block + pow2 f) # l)
         (set_hdr (block + pow2 f) (\<lambda>_. \<lparr>hd_order = f, hd_free = True, hd_kernel = False\<rparr>) h))"

lemma split_loop_step:
  "split_loop (Suc f) order block h =
     (if Suc f > order then split_loop f order block (split_step f block h) else h)"
  by (simp add: split_step_def Let_def)

lemma bd_split:
  assumes inv: "bd_inv h S {x}" and r: "ord_at h x = Suc f" and fr: "hd_free (hd_at h x)"
    and f: "4 \<le> f"
  defines "h' \<equiv> split_step f (adr h x) h"
  shows "bd_inv h' (insert (x + 2 ^ f) S) {x}" and "ord_at h' x = f" and "hd_free (hd_at h' x)"
    and "adr h' = adr h" and "live_in h' (insert (x + 2 ^ f) S) = live_in h S"
    and "users h' (insert (x + 2 ^ f) S) = users h S" and "alloc_count h' = alloc_count h"
proof -
  let ?y = "x + 2 ^ f" and ?T = "unat (heap_total h)"
  let ?new = "\<lparr>hd_order = f, hd_free = True, hd_kernel = False\<rparr>"
  have p: "bd_part h S" and l: "lists_ok h S {x}" and x: "x \<in> S" using inv by (auto simp: bd_inv_def)
  have t: "tiling ?T S (ord_at h)" using p by (simp add: bd_part_def)
  note split = tiling_split [OF t x r f]
  note bnd = part_bound [OF p] tilingD [OF split(1), of ?y]
  have yT: "?y \<le> ?T" using bnd(6) by simp
  have ne: "x \<noteq> ?y" by simp
  have adr': "adr h' = adr h" by (simp add: h'_def split_step_def)
  show "adr h' = adr h" by (rule adr')
  show "alloc_count h' = alloc_count h" by (simp add: h'_def split_step_def)
  have hd': "hd_at h' z = (if z = x then (hd_at h x)\<lparr>hd_order := f\<rparr> else if z = ?y then ?new
      else hd_at h z)" if "z \<le> ?T" for z
  proof -
    let ?h1 = "set_list f (\<lambda>l. (adr h x + pow2 f) # l) (set_hdr (adr h x + pow2 f) (\<lambda>_. ?new) h)"
    have "hd_at (set_hdr (adr h x) g ?h1) z = (if z = x then g (hd_at ?h1 z) else hd_at ?h1 z)" for g
      using adr_inj [OF p that bnd(1) [OF x]] by (simp add: hd_at_def set_hdr_def adr_def)
    moreover have "hd_at ?h1 z = (if z = ?y then ?new else hd_at h z)"
      if "z \<le> ?T" for z
      using hd_at_set_hdr [OF p that yT] by (simp add: adr_add [symmetric])
    ultimately show ?thesis using that ne unfolding h'_def split_step_def by auto
  qed
  show "ord_at h' x = f" "hd_free (hd_at h' x)" using hd' [OF bnd(1) [OF x]] fr by simp_all
  have inS: "z \<le> ?T" if "z \<in> insert ?y S" for z using that bnd(1) yT by auto
  have "tiling ?T (insert ?y S) (ord_at h')"
    using split(1) tiling_cong [of "insert ?y S" "ord_at h'" "(ord_at h)(x := f, ?y := f)" ?T]
      hd' inS by simp
  then have p': "bd_part h' (insert ?y S)"
    using p by (simp add: bd_part_def h'_def split_step_def)
  have frees': "frees h' (insert ?y S) {x} k =
      (if k = f then insert ?y (frees h S {x} k) else frees h S {x} k)" for k
  proof -
    have "z \<in> frees h' (insert ?y S) {x} k \<longleftrightarrow> z = ?y \<and> k = f \<or> z \<in> frees h S {x} k" for z
      using hd' [of z] inS [of z] split(2) ne by (auto simp: frees_def split: if_splits)
    then show ?thesis by auto
  qed
  have lists': "free_lists h' (order_idx k) =
      (if k = f then adr h ?y # free_lists h (order_idx k) else free_lists h (order_idx k))"
    if "4 \<le> k" for k
    using order_idx_eq [OF that f] unfolding h'_def split_step_def
    by (simp add: set_list_lists adr_add)
  have fresh: "adr h ?y \<notin> adr h ` frees h S {x} k" for k
    using adr_inj [OF p yT] part_bound [OF p] split(2) by (auto simp: frees_def)
  have "lists_ok h' (insert ?y S) {x}"
    unfolding lists_ok_def
  proof (intro ballI conjI)
    fix k assume k: "k \<in> {MIN_ORDER..MAX_ORDER}"
    then have k4: "4 \<le> k" "k \<le> 23" by simp_all
    note lk = lists_okD [OF l k4]
    show "distinct (free_lists h' (order_idx k))"
      using lists' [OF k4(1)] lk fresh [of k] by auto
    show "set (free_lists h' (order_idx k)) = adr h' ` frees h' (insert ?y S) {x} k"
      using lists' [OF k4(1)] lk frees' [of k] adr' by auto
  qed
  then show "bd_inv h' (insert ?y S) {x}" using p' x by (simp add: bd_inv_def)
  have same: "z \<in> insert ?y S \<and> \<not> hd_free (hd_at h' z) \<longleftrightarrow> z \<in> S \<and> \<not> hd_free (hd_at h z)" for z
    using hd' [of z] inS [of z] split(2) fr by (auto split: if_splits)
  have keep: "hd_at h' z = hd_at h z" if "z \<in> S" "\<not> hd_free (hd_at h z)" for z
    using hd' [OF bnd(1) [OF that(1)]] that split(2) fr by auto
  show "live_in h' (insert ?y S) = live_in h S"
    by (rule live_in_cong) (use same keep in \<open>auto simp: h'_def split_step_def\<close>)
  show "users h' (insert ?y S) = users h S"
    by (rule users_cong) (use same keep in auto)
qed


lemma bd_split_loop:
  assumes "bd_inv h S {x}" and "ord_at h x = n" and "hd_free (hd_at h x)"
    and "4 \<le> order" and "order \<le> n"
  obtains S' h' where "h' = split_loop n order (adr h x) h" "bd_inv h' S' {x}"
    "ord_at h' x = order" "hd_free (hd_at h' x)" "adr h' = adr h"
    "live_in h' S' = live_in h S" "users h' S' = users h S" "alloc_count h' = alloc_count h"
  using assms
proof (induction n arbitrary: h S thesis)
  case 0
  then show ?case by simp
next
  case (Suc f)
  show ?case
  proof (cases "order = Suc f")
    case True
    then have "split_loop (Suc f) order (adr h x) h = h" by (simp add: split_loop_step del: split_loop.simps)
    then show ?thesis using Suc.prems True by auto
  next
    case False
    then have f: "4 \<le> f" "order \<le> f" using Suc.prems by simp_all
    note st = bd_split [OF Suc.prems(2,3,4) f(1)]
    obtain S' h' where h': "h' = split_loop f order (adr (split_step f (adr h x) h) x) (split_step f (adr h x) h)"
      "bd_inv h' S' {x}" "ord_at h' x = order" "hd_free (hd_at h' x)"
      "adr h' = adr (split_step f (adr h x) h)"
      "live_in h' S' = live_in (split_step f (adr h x) h) (insert (x + 2 ^ f) S)"
      "users h' S' = users (split_step f (adr h x) h) (insert (x + 2 ^ f) S)"
      "alloc_count h' = alloc_count (split_step f (adr h x) h)"
      using Suc.IH [OF _ st(1) st(2) st(3) Suc.prems(5) f(2)] by blast
    have "h' = split_loop (Suc f) order (adr h x) h"
      using h'(1) False Suc.prems(6) st(4) by (simp add: split_loop_step del: split_loop.simps)
    then show ?thesis using h' st by (intro Suc.prems(1) [of h' S']) auto
  qed
qed

text \<open>A change of the marks of one block.\<close>

lemma bd_mark:
  assumes inv: "bd_inv h S F" and x: "x \<in> S" and ord: "\<And>b. hd_order (g b) = hd_order b"
    and frees: "\<And>k. frees (set_hdr (adr h x) g h) S F' k = frees h S F k" and F': "F' \<subseteq> S"
  shows "bd_inv (set_hdr (adr h x) g h) S F'"
proof -
  let ?h = "set_hdr (adr h x) g h"
  have p: "bd_part h S" and l: "lists_ok h S F" using inv by (auto simp: bd_inv_def)
  have "ord_at ?h y = ord_at h y" if "y \<in> S" for y
    using hd_at_set_hdr [OF p part_bound [OF p that] part_bound [OF p x]] ord by simp
  then have "tiling (unat (heap_total h)) S (ord_at ?h)"
    using p tiling_cong [of S "ord_at ?h" "ord_at h"] by (simp add: bd_part_def)
  then have "bd_part ?h S" using p by (simp add: bd_part_def)
  moreover have "lists_ok ?h S F'" using l frees by (simp add: lists_ok_def)
  ultimately show ?thesis using F' by (simp add: bd_inv_def)
qed

definition taken :: "bool \<Rightarrow> block_hdr \<Rightarrow> block_hdr" where
  "taken kern b = b\<lparr>hd_free := False, hd_kernel := kern\<rparr>"

lemma bd_take:
  fixes kern :: bool
  assumes inv: "bd_inv h S {x}" and fr: "hd_free (hd_at h x)"
  defines "h' \<equiv> set_hdr (adr h x) (taken kern) h"
  shows "bd_inv h' S {}"
    and "live_in h' S = (live_in h S)(adr h x + BHDR \<mapsto> (2 ^ ord_at h x - 8, kern))"
    and "live_in h S (adr h x + BHDR) = None"
    and "users h' S = (if kern then users h S else insert x (users h S))" and "x \<notin> users h S"
proof -
  have p: "bd_part h S" and x: "x \<in> S" using inv by (auto simp: bd_inv_def)
  have hd': "hd_at h' y = (if y = x then taken kern (hd_at h x) else hd_at h y)" if "y \<in> S" for y
    using hd_at_set_hdr [OF p part_bound [OF p that] part_bound [OF p x]] by (simp add: h'_def)
  show inv': "bd_inv h' S {}"
    unfolding h'_def
    by (rule bd_mark [OF inv x])
      (use hd' in \<open>auto simp: taken_def frees_def h'_def split: if_splits\<close>)
  show none: "live_in h S (adr h x + BHDR) = None" using live_in_payload [OF p x] fr by simp
  have p': "bd_part h' S" using inv' by (simp add: bd_inv_def)
  show "live_in h' S = (live_in h S)(adr h x + BHDR \<mapsto> (2 ^ ord_at h x - 8, kern))"
  proof
    fix q
    let ?y = "unat (q - BHDR - heap_base h)"
    have q: "q = adr h ?y + BHDR" by (rule offset_payload)
    have y: "?y = x \<longleftrightarrow> q = adr h x + BHDR"
      using q payload_offset [OF p part_bound [OF p x]] by auto
    show "live_in h' S q = ((live_in h S)(adr h x + BHDR \<mapsto> (2 ^ ord_at h x - 8, kern))) q"
    proof (cases "?y = x")
      case True
      then show ?thesis using y x hd' [OF x] by (simp add: live_in_def Let_def h'_def taken_def)
    next
      case False
      then show ?thesis using y hd' [of ?y] by (auto simp: live_in_def Let_def h'_def)
    qed
  qed
  have "y \<in> users h' S \<longleftrightarrow> \<not> kern \<and> y = x \<or> y \<in> users h S" for y
    using hd' [of y] x fr by (auto simp: users_def taken_def split: if_splits)
  then show "users h' S = (if kern then users h S else insert x (users h S))" by auto
  show "x \<notin> users h S" using fr by (simp add: users_def)
qed

section \<open>Allocation\<close>

lemma size_loop_Some:
  "size_loop k sz = Some r \<Longrightarrow> k \<le> 23 \<Longrightarrow> k \<le> r \<and> r \<le> 23 \<and> unat sz \<le> 2 ^ r"
proof (induction k sz rule: size_loop.induct)
  case (1 k sz)
  show ?case
  proof (cases "pow2 k < sz")
    case True
    then show ?thesis using 1 by (auto simp: size_loop.simps [of k] split: if_splits)
  next
    case False
    then have "unat sz \<le> unat (pow2 k)" by (simp add: word_le_nat_alt [symmetric])
    moreover have "size_loop k sz = Some k" using False by (simp add: size_loop.simps [of k])
    ultimately show ?thesis using 1 unat_pow2 [of k] by simp
  qed
qed

lemma size_to_order_Some:
  "size_to_order sz = Some r \<Longrightarrow> 4 \<le> r \<and> r \<le> 23 \<and> unat sz \<le> 2 ^ r"
  using size_loop_Some [of 4 sz r] by (simp add: size_to_order_def)

lemma bd_okD:
  assumes "bd_ok h"
  shows "bd_inv h (bd_blocks h) {}" and "bd_part h (bd_blocks h)"
    and "alloc_count h = of_nat (card (users h (bd_blocks h)))"
  using assms by (auto simp: bd_ok_def bd_inv_def)

lemma users_finite: "bd_part h S \<Longrightarrow> finite (users h S)"
  by (rule finite_subset [of _ S]) (auto simp: users_def intro: part_finite)


text \<open>\<open>malloc_impl\<close> on both outcomes.\<close>

lemma bd_malloc_cases:
  assumes ok: "bd_ok h" and m: "bd_malloc_impl sz kern h = (p, h')"
  obtains "p = 0" "h' = h"
  | r where "size_to_order (sz + BHDR) = Some r" "p \<noteq> 0" "bd_ok h'" "bd_live h p = None"
    "bd_live h' = (bd_live h)(p \<mapsto> (2 ^ r - 8, kern))"
proof -
  let ?S = "bd_blocks h"
  note inv = bd_okD [OF ok]
  show ?thesis
  proof (cases "sz = 0 \<or> heap_base h = 0 \<or> size_to_order (sz + BHDR) = None")
    case True
    then show ?thesis using m by (intro that(1)) (auto simp: bd_malloc_impl_def split: if_splits)
  next
    case False
    then obtain r where r: "size_to_order (sz + BHDR) = Some r" and nz: "sz \<noteq> 0" "heap_base h \<noteq> 0"
      by auto
    note rb = size_to_order_Some [OF r]
    let ?P = "\<lambda>i. free_lists h (order_idx i) \<noteq> []"
    show ?thesis
    proof (cases "find ?P [r..<Suc MAX_ORDER]")
      case None
      then show ?thesis using m r nz by (intro that(1)) (auto simp: bd_malloc_impl_def)
    next
      case (Some n)
      then have n: "r \<le> n" "n \<le> 23" "?P n" by (auto simp: find_Some_iff simp del: upt_Suc)
      have n4: "4 \<le> n" using n(1) rb by simp
      obtain x where x: "x \<in> ?S" "hd (free_lists h (order_idx n)) = adr h x" "ord_at h x = n"
          "hd_free (hd_at h x)" "bd_inv (set_list n tl h) ?S {x}"
        using bd_pop [OF inv(1) n4 n(2,3)] by blast
      obtain S2 h2 where h2: "h2 = split_loop n r (adr h x) (set_list n tl h)" "bd_inv h2 S2 {x}"
          "ord_at h2 x = r" "hd_free (hd_at h2 x)" "adr h2 = adr (set_list n tl h)"
          "live_in h2 S2 = live_in (set_list n tl h) ?S" "users h2 S2 = users (set_list n tl h) ?S"
          "alloc_count h2 = alloc_count (set_list n tl h)"
        using bd_split_loop [OF x(5) _ _ _ n(1)] x(3,4) rb
        unfolding set_list_simps by blast
      define h3 where "h3 = set_hdr (adr h2 x) (taken kern) h2"
      define h4 where "h4 = (if kern then h3 else h3\<lparr>alloc_count := alloc_count h3 + 1\<rparr>)"
      note tk = bd_take(1,2,4) [OF h2(2,4), of kern, folded h3_def] bd_take(3,5) [OF h2(2,4)]
      have l2: "live_in h2 S2 = bd_live h" "users h2 S2 = users h ?S"
        using h2(6,7) by (simp_all add: bd_live_def)
      have m': "(p, h') = (adr h x + BHDR, h4)"
        using m r nz Some x(2) h2(1,5)
        by (cases kern) (simp_all add: bd_malloc_impl_def Let_def h4_def h3_def taken_def [abs_def])
      have p2: "bd_part h2 S2" using h2(2) by (simp add: bd_inv_def)
      have inv4: "bd_inv h4 S2 {}"
        using tk(1) by (simp add: h4_def bd_inv_def bd_part_def lists_ok_def frees_def)
      have u4: "users h4 S2 = users h3 S2" by (simp add: h4_def)
      have l4: "live_in h4 S2 = live_in h3 S2" by (simp add: h4_def)
      have "alloc_count h4 = of_nat (card (users h4 S2))"
        using u4 tk(3,5) users_finite [OF p2] inv(3) l2(2) h2(8)
        by (simp add: h4_def h3_def)
      note ok4 = bd_okI [OF inv4 this]
      have "adr h x + BHDR \<noteq> 0" by (rule payload_nonzero [OF inv(2) x(1)])
      moreover have "bd_live h' = (bd_live h)(p \<mapsto> (2 ^ r - 8, kern))"
        using m' ok4 l4 tk(2) l2 h2(3,5) by simp
      moreover have "bd_live h p = None" using tk(4) l2(1) m' h2(5) by simp
      ultimately show ?thesis using r m' ok4 by (intro that(2)) auto
    qed
  qed
qed


section \<open>Release\<close>

lemma get_buddy_eq:
  assumes p: "bd_part h S" and x: "x \<in> S"
  shows "get_buddy (adr h x) (ord_at h x) h =
    (if buddy_of x (ord_at h x) + 2 ^ ord_at h x \<le> unat (heap_total h)
     then Some (adr h (buddy_of x (ord_at h x))) else None)"
proof -
  let ?k = "ord_at h x" and ?T = "unat (heap_total h)"
  have t: "tiling ?T S (ord_at h)" and T: "?T < 2 ^ 32" using p by (simp_all add: bd_part_def)
  note b = tilingD [OF t x]
  have k: "(2 :: nat) ^ ?k \<le> 2 ^ 23" using b(2) by (intro power_increasing) simp_all
  have bo: "buddy_of x ?k \<le> x + 2 ^ ?k"
    unfolding buddy_of_def by (simp add: le_trans [OF diff_le_self le_add1])
  have off: "unat (adr h x - heap_base h) = x" using b(5) T by (simp add: adr_def unat_of_nat)
  let ?w = "(adr h x - heap_base h) XOR pow2 ?k"
  have w: "unat ?w = buddy_of x ?k"
    using off unat_pow2 [of ?k] b(2) xor_buddy [OF b(3)] by (simp add: unsigned_xor_eq)
  have "unat ?w + unat (pow2 ?k) < 2 ^ 64"
    using w bo k b(2,4) T unat_pow2 [of ?k] by simp
  then have "unat (?w + pow2 ?k) = buddy_of x ?k + 2 ^ ?k"
    using w unat_pow2 [of ?k] b(2) by (simp add: unat_word_ariths)
  then have "?w + pow2 ?k > heap_total h \<longleftrightarrow> \<not> buddy_of x ?k + 2 ^ ?k \<le> ?T"
    by (simp add: word_less_nat_alt not_le)
  moreover have "heap_base h + ?w = adr h (buddy_of x ?k)" using w by (simp add: adr_def flip: w)
  ultimately show ?thesis by (simp add: get_buddy_def Let_def)
qed

lemma unlink_eq: "unlink y l = remove1 y l"
  by (induction l) auto

text \<open>One round of the coalescing loop.\<close>

definition merge_step :: "nat \<Rightarrow> u64 \<Rightarrow> u64 \<Rightarrow> buddy_heap \<Rightarrow> buddy_heap" where
  "merge_step k buddy block h =
     set_hdr block (\<lambda>b. b\<lparr>hd_order := k + 1\<rparr>) (list_remove k buddy h)"

lemma bd_merge:
  fixes x :: nat
  assumes inv: "bd_inv h S {x}" and fx: "hd_free (hd_at h x)"
    and k: "ord_at h x = k" "k < 23" and bT: "buddy_of x k + 2 ^ k \<le> unat (heap_total h)"
    and fy: "hd_free (hd_at h (buddy_of x k))" and ky: "ord_at h (buddy_of x k) = k"
  defines "z \<equiv> min x (buddy_of x k)"
  defines "h' \<equiv> merge_step k (adr h (buddy_of x k)) (adr h z) h"
  shows "bd_inv h' (S - {max x (buddy_of x k)}) {z}" and "ord_at h' z = Suc k"
    and "hd_free (hd_at h' z)" and "adr h' = adr h"
    and "live_in h' (S - {max x (buddy_of x k)}) = live_in h S"
    and "users h' (S - {max x (buddy_of x k)}) = users h S" and "alloc_count h' = alloc_count h"
proof -
  let ?y = "buddy_of x k" and ?T = "unat (heap_total h)"
  let ?S = "S - {max x ?y}"
  have p: "bd_part h S" and l: "lists_ok h S {x}" and x: "x \<in> S" using inv by (auto simp: bd_inv_def)
  have t: "tiling ?T S (ord_at h)" using p by (simp add: bd_part_def)
  note b = tilingD [OF t x, unfolded k(1)]
  have y: "?y \<in> S" by (rule tiling_buddy [OF t x k(1) bT])
  have xz: "max x ?y = z + 2 ^ k \<and> 2 ^ Suc k dvd z" and ne: "x \<noteq> ?y"
    using b(3) by (atomize (full), cases rule: buddy_cases) (auto simp: z_def)
  have z: "z \<in> S" "ord_at h z = k" "hd_free (hd_at h z)"
    using x y k fx fy ky by (auto simp: z_def min_def)
  have w: "max x ?y \<in> S" "ord_at h (max x ?y) = k" using x y k ky by (auto simp: max_def)
  have zw: "{z, max x ?y} = {x, ?y}" "z \<noteq> max x ?y" using ne by (auto simp: z_def)
  have tl: "tiling ?T ?S ((ord_at h)(z := Suc k))"
    using tiling_merge [OF t z(1,2) _ _ k(2)] xz w by auto
  show adr': "adr h' = adr h" by (simp add: h'_def merge_step_def list_remove_def)
  show "alloc_count h' = alloc_count h" by (simp add: h'_def merge_step_def list_remove_def)
  have hd': "hd_at h' v = (if v = z then (hd_at h v)\<lparr>hd_order := Suc k\<rparr> else hd_at h v)"
    if "v \<in> S" for v
    using adr_inj [OF p part_bound [OF p that] part_bound [OF p z(1)]]
    by (simp add: h'_def merge_step_def list_remove_def hd_at_def set_hdr_def set_list_def adr_def)
  show "ord_at h' z = Suc k" "hd_free (hd_at h' z)" using hd' [OF z(1)] z by simp_all
  have "tiling ?T ?S (ord_at h')"
    using tl tiling_cong [of ?S "ord_at h'" "(ord_at h)(z := Suc k)" ?T] hd' by simp
  then have p': "bd_part h' ?S"
    using p by (simp add: bd_part_def h'_def merge_step_def list_remove_def)
  have yf: "?y \<in> frees h S {x} k" using y fy ky ne by (simp add: frees_def)
  have frees': "frees h' ?S {z} j = frees h S {x} j - (if j = k then {?y} else {})" for j
  proof -
    have "v \<in> frees h' ?S {z} j \<longleftrightarrow> v \<in> frees h S {x} j \<and> \<not> (j = k \<and> v = ?y)" for v
    proof (cases "v \<in> {x, ?y}")
      case True
      then have "v \<in> {z, max x ?y}" using zw(1) by blast
      then show ?thesis using True ky by (auto simp: frees_def)
    next
      case False
      then have "v \<notin> {z, max x ?y}" using zw(1) by blast
      then show ?thesis using False hd' [of v] by (auto simp: frees_def)
    qed
    then show ?thesis by auto
  qed
  have k4: "4 \<le> k" using b(1) .
  have lists': "free_lists h' (order_idx j) =
      (if j = k then remove1 (adr h ?y) (free_lists h (order_idx j)) else free_lists h (order_idx j))"
    if "4 \<le> j" for j
    using order_idx_eq [OF that k4] unfolding h'_def merge_step_def list_remove_def
    by (simp add: set_list_lists unlink_eq)
  have "lists_ok h' ?S {z}"
    unfolding lists_ok_def
  proof (intro ballI conjI)
    fix j assume "j \<in> {MIN_ORDER..MAX_ORDER}"
    then have j4: "4 \<le> j" "j \<le> 23" by simp_all
    note lj = lists_okD [OF l j4]
    show "distinct (free_lists h' (order_idx j))"
      using lists' [OF j4(1)] lj by (auto simp: distinct_remove1)
    show "set (free_lists h' (order_idx j)) = adr h' ` frees h' ?S {z} j"
    proof (cases "j = k")
      case True
      have "frees h S {x} k \<subseteq> S" by (auto simp: frees_def)
      from adr_image_diff [OF p this y] show ?thesis
        using True lists' [OF j4(1)] lj frees' [of j] adr' by simp
    next
      case False
      then show ?thesis using lists' [OF j4(1)] lj frees' [of j] adr' by simp
    qed
  qed
  then show "bd_inv h' ?S {z}" using p' z(1) zw(2) by (simp add: bd_inv_def)
  have same: "v \<in> ?S \<and> \<not> hd_free (hd_at h' v) \<longleftrightarrow> v \<in> S \<and> \<not> hd_free (hd_at h v)" for v
  proof (cases "v \<in> {z, max x ?y}")
    case True
    then have "v = z \<or> v = max x ?y" "v \<in> {x, ?y}" using zw(1) by auto
    then show ?thesis using hd' [OF z(1)] z(3) fx fy by auto
  next
    case False
    then show ?thesis using hd' [of v] by auto
  qed
  have keep: "hd_at h' v = hd_at h v" if "v \<in> S" "\<not> hd_free (hd_at h v)" for v
    using hd' [OF that(1)] that z(3) by auto
  show "live_in h' ?S = live_in h S"
    by (rule live_in_cong) (use same keep in \<open>auto simp: h'_def merge_step_def list_remove_def\<close>)
  show "users h' ?S = users h S"
    by (rule users_cong) (use same keep in auto)
qed


lemma coalesce_step:
  assumes "k < MAX_ORDER" and "get_buddy block k h = Some buddy"
    and "hd_free (bd_hdr h buddy)" and "hd_order (bd_hdr h buddy) = k"
  shows "coalesce k block h =
    coalesce (Suc k) (if buddy < block then buddy else block)
      (merge_step k buddy (if buddy < block then buddy else block) h)"
  by (subst coalesce.simps) (use assms in \<open>simp add: merge_step_def Let_def\<close>)

lemma coalesce_stop:
  assumes "\<not> (k < MAX_ORDER \<and> (\<exists>buddy. get_buddy block k h = Some buddy \<and>
    hd_free (bd_hdr h buddy) \<and> hd_order (bd_hdr h buddy) = k))"
  shows "coalesce k block h = (k, block, h)"
  by (subst coalesce.simps) (use assms in \<open>auto split: option.splits\<close>)

lemma bd_coalesce:
  assumes "bd_inv h S {x}" and "hd_free (hd_at h x)" and "ord_at h x = k"
  obtains k' x' h' S' where "coalesce k (adr h x) h = (k', adr h' x', h')" "bd_inv h' S' {x'}"
    "hd_free (hd_at h' x')" "ord_at h' x' = k'" "adr h' = adr h" "live_in h' S' = live_in h S"
    "users h' S' = users h S" "alloc_count h' = alloc_count h"
  using assms
proof (induction "MAX_ORDER - k" arbitrary: k x h S thesis rule: less_induct)
  case less
  note inv = less.prems(2) and fr = less.prems(3) and k = less.prems(4)
  have p: "bd_part h S" and x: "x \<in> S" using inv by (auto simp: bd_inv_def)
  let ?y = "buddy_of x k"
  note gb = get_buddy_eq [OF p x, unfolded k]
  show ?case
  proof (cases "k < MAX_ORDER \<and> ?y + 2 ^ k \<le> unat (heap_total h) \<and> hd_free (hd_at h ?y) \<and>
      ord_at h ?y = k")
    case False
    then have "coalesce k (adr h x) h = (k, adr h x, h)"
      using gb by (intro coalesce_stop) (auto simp: hd_at_def split: if_splits)
    then show ?thesis using less.prems by blast
  next
    case True
    then have T: "k < 23" "?y + 2 ^ k \<le> unat (heap_total h)" "hd_free (hd_at h ?y)" "ord_at h ?y = k"
      by simp_all
    let ?h = "merge_step k (adr h ?y) (adr h (min x ?y)) h" and ?S = "S - {max x ?y}"
    note m = bd_merge [OF inv fr k T]
    have y: "?y \<in> S"
      by (rule tiling_buddy [where r = "ord_at h", OF _ x k T(2)]) (use p in \<open>simp add: bd_part_def\<close>)
    have min: "(if adr h ?y < adr h x then adr h ?y else adr h x) = adr h (min x ?y)"
      using adr_less [OF p part_bound [OF p y] part_bound [OF p x]] by (auto simp: min_def)
    have step: "coalesce k (adr h x) h = coalesce (Suc k) (adr ?h (min x ?y)) ?h"
      using coalesce_step [of k "adr h x" h "adr h ?y"] gb T min m(4) by (simp add: hd_at_def)
    have dec: "MAX_ORDER - Suc k < MAX_ORDER - k" using T(1) by simp
    obtain k' x' h' S' where r: "coalesce (Suc k) (adr ?h (min x ?y)) ?h = (k', adr h' x', h')"
      "bd_inv h' S' {x'}" "hd_free (hd_at h' x')" "ord_at h' x' = k'" "adr h' = adr ?h"
      "live_in h' S' = live_in ?h ?S" "users h' S' = users ?h ?S" "alloc_count h' = alloc_count ?h"
      using less.hyps [OF dec _ m(1,3,2)] by blast
    show ?thesis
      by (rule less.prems(1) [of k' h' x' S'])
        (rule trans [OF step r(1)], simp_all only: r(2-8) m(4-7))
  qed
qed

text \<open>Putting the merged block back.\<close>

lemma bd_push:
  assumes inv: "bd_inv h S {x}" and fr: "hd_free (hd_at h x)" and k: "ord_at h x = k"
  shows "bd_inv (set_list k (\<lambda>l. adr h x # l) h) S {}"
proof -
  let ?h = "set_list k (\<lambda>l. adr h x # l) h"
  have p: "bd_part h S" and l: "lists_ok h S {x}" and x: "x \<in> S" using inv by (auto simp: bd_inv_def)
  have t: "tiling (unat (heap_total h)) S (ord_at h)" using p by (simp add: bd_part_def)
  have k4: "4 \<le> k" using tilingD(1) [OF t x] k by simp
  have frees': "frees ?h S {} j = (if j = k then insert x (frees h S {x} j) else frees h S {x} j)" for j
    using x fr k by (auto simp: frees_def)
  have fresh: "adr h x \<notin> adr h ` frees h S {x} j" for j
    using adr_inj [OF p part_bound [OF p x]] part_bound [OF p] by (auto simp: frees_def)
  have "lists_ok ?h S {}"
    unfolding lists_ok_def
  proof (intro ballI conjI)
    fix j assume "j \<in> {MIN_ORDER..MAX_ORDER}"
    then have j4: "4 \<le> j" "j \<le> 23" by simp_all
    note lj = lists_okD [OF l j4] order_idx_eq [OF j4(1) k4]
    show "distinct (free_lists ?h (order_idx j))" using lj fresh [of j]
      by (cases "j = k") (simp_all add: set_list_lists)
    show "set (free_lists ?h (order_idx j)) = adr ?h ` frees ?h S {} j"
      using lj frees' [of j] by (cases "j = k") (simp_all add: set_list_lists)
  qed
  moreover have "bd_part ?h S" using p by (simp add: bd_part_def)
  ultimately show ?thesis by (simp add: bd_inv_def)
qed

lemma bd_free_ok:
  assumes ok: "bd_ok h" and live: "bd_live h q = Some (s, kern)"
  shows "\<exists>h'. bd_free q h = Some h' \<and> bd_ok h' \<and> bd_live h' = (bd_live h)(q := None)"
proof -
  let ?S = "bd_blocks h"
  note inv = bd_okD [OF ok]
  obtain x where x: "x \<in> ?S" "\<not> hd_free (hd_at h x)" "q = adr h x + BHDR" "kern = hd_kernel (hd_at h x)"
    using live by (auto simp: bd_live_def elim: live_in_cases)
  have t: "tiling (unat (heap_total h)) ?S (ord_at h)" using inv(2) by (simp add: bd_part_def)
  note b = tilingD [OF t x(1)]
  define h0 where "h0 = (if kern then h else h\<lparr>alloc_count := alloc_count h - 1\<rparr>)"
  define h1 where "h1 = set_hdr (adr h x) (\<lambda>b. b\<lparr>hd_free := True\<rparr>) h0"
  have h0: "adr h0 = adr h" "hd_at h0 = hd_at h" "bd_inv h0 ?S {}" "heap_base h0 = heap_base h"
    "live_in h0 ?S = bd_live h" "users h0 ?S = users h ?S" "bd_part h0 ?S"
    using inv(1) by (simp_all add: h0_def bd_inv_def bd_part_def lists_ok_def frees_def bd_live_def)
  have hd1: "hd_at h1 y = (if y = x then (hd_at h x)\<lparr>hd_free := True\<rparr> else hd_at h y)" if "y \<in> ?S" for y
    using hd_at_set_hdr [OF h0(7) part_bound [OF h0(7) that] part_bound [OF h0(7) x(1)]] h0(1,2)
    by (simp add: h1_def)
  have inv1: "bd_inv h1 ?S {x}"
    unfolding h1_def h0(1) [symmetric]
    by (rule bd_mark [OF h0(3) x(1)])
      (use hd1 x h0 in \<open>auto simp: frees_def h1_def split: if_splits\<close>)
  have adr1: "adr h1 = adr h" by (simp add: h1_def h0(1))
  have fr1: "hd_free (hd_at h1 x)" "ord_at h1 x = ord_at h x" using hd1 [OF x(1)] by simp_all
  obtain k' x' h2 S2 where c: "coalesce (ord_at h x) (adr h1 x) h1 = (k', adr h2 x', h2)"
    "bd_inv h2 S2 {x'}" "hd_free (hd_at h2 x')" "ord_at h2 x' = k'" "adr h2 = adr h1"
    "live_in h2 S2 = live_in h1 ?S" "users h2 S2 = users h1 ?S" "alloc_count h2 = alloc_count h1"
    by (rule bd_coalesce [OF inv1 fr1]) (rule that)
  define h3 where "h3 = set_list k' (\<lambda>l. adr h2 x' # l) h2"
  have inv3: "bd_inv h3 S2 {}" unfolding h3_def by (rule bd_push [OF c(2-4)])
  have q: "q \<noteq> 0" using payload_nonzero [OF inv(2) x(1)] x(3) by simp
  have free: "bd_free q h = Some h3"
    using q x(3,4) b(1,2) c(1) adr1 by (simp add: bd_free_def hd_at_def h0_def h1_def h3_def Let_def)
  have users1: "users h1 ?S = users h ?S - {x}"
    using hd1 x(1) by (auto simp: users_def split: if_splits)
  have "alloc_count h3 = of_nat (card (users h3 S2))"
  proof (cases kern)
    case True
    then have "users h ?S - {x} = users h ?S" using x by (auto simp: users_def)
    then show ?thesis using True c(7,8) users1 inv(3) by (simp add: h3_def h1_def h0_def)
  next
    case False
    then have "x \<in> users h ?S" using x by (simp add: users_def)
    then have "card (users h ?S) = Suc (card (users h ?S - {x}))"
      by (rule card.remove [OF users_finite [OF inv(2)]])
    then show ?thesis using False c(7,8) users1 inv(3) by (simp add: h3_def h1_def h0_def)
  qed
  note ok3 = bd_okI [OF inv3 this]
  have "live_in h1 ?S = (bd_live h)(q := None)"
  proof
    fix r
    let ?y = "unat (r - BHDR - heap_base h)"
    have y: "?y = x \<longleftrightarrow> r = q"
      using offset_payload [of r h] payload_offset [OF inv(2) part_bound [OF inv(2) x(1)]] x(3) by auto
    have "heap_base h1 = heap_base h" by (simp add: h1_def h0(4))
    then show "live_in h1 ?S r = ((bd_live h)(q := None)) r"
      using y hd1 [of ?y] by (cases "?y = x") (auto simp: bd_live_def live_in_def Let_def)
  qed
  then have "bd_live h3 = (bd_live h)(q := None)" using ok3 c(6) by (simp add: h3_def)
  then show ?thesis using free ok3 by blast
qed


lemma bd_payload:
  assumes ok: "bd_ok h" and z: "z \<in> bd_blocks h"
  shows "unat (adr h z + BHDR) = unat (heap_base h) + z + 8" "8 \<le> (2 :: nat) ^ ord_at h z"
    "unat (adr h z + BHDR) + (2 ^ ord_at h z - 8) \<le> 2 ^ 64"
proof -
  note part = bd_okD(2) [OF ok]
  have til: "tiling (unat (heap_total h)) (bd_blocks h) (ord_at h)" using part by (simp add: bd_part_def)
  have le: "(2 :: nat) ^ 4 \<le> 2 ^ ord_at h z"
    using tilingD(1) [OF til z] by (intro power_increasing) simp_all
  then show ge: "8 \<le> (2 :: nat) ^ ord_at h z" by simp
  have end_le: "z + 2 ^ ord_at h z \<le> unat (heap_total h)" using tilingD(4) [OF til z] .
  then have "z + 8 \<le> unat (heap_total h)" using le by simp
  from unat_adr [OF part this] show pay: "unat (adr h z + BHDR) = unat (heap_base h) + z + 8"
    by (simp add: adr_def ac_simps)
  have "unat (heap_base h) + unat (heap_total h) < 2 ^ 64" using part by (simp add: bd_part_def)
  then show "unat (adr h z + BHDR) + (2 ^ ord_at h z - 8) \<le> 2 ^ 64" using pay ge end_le by linarith
qed

lemma bd_live_disjoint:
  assumes "bd_ok h"
  shows "disjoint_payloads (bd_live h)"
  unfolding disjoint_payloads_def
proof (intro allI impI)
  fix p q s t k l
  assume pq: "bd_live h p = Some (s, k)" "bd_live h q = Some (t, l)" "p \<noteq> q"
  let ?S = "bd_blocks h"
  note inv = bd_okD [OF assms]
  have til: "tiling (unat (heap_total h)) ?S (ord_at h)" using inv(2) by (simp add: bd_part_def)
  obtain x where x: "x \<in> ?S" "p = adr h x + BHDR" "s = 2 ^ ord_at h x - 8"
    using pq(1) by (auto simp: bd_live_def elim: live_in_cases)
  obtain y where y: "y \<in> ?S" "q = adr h y + BHDR" "t = 2 ^ ord_at h y - 8"
    using pq(2) by (auto simp: bd_live_def elim: live_in_cases)
  note pay = bd_payload [OF assms]
  have "x \<noteq> y" using pq(3) x(2) y(2) by auto
  then consider "x < y" | "y < x" by linarith
  then show "unat p + s \<le> unat q \<or> unat q + t \<le> unat p"
  proof cases
    case 1
    then show ?thesis
      using tiling_disjoint [OF til x(1) y(1)] pay [OF x(1)] pay [OF y(1)] x y by simp
  next
    case 2
    then show ?thesis
      using tiling_disjoint [OF til y(1) x(1)] pay [OF x(1)] pay [OF y(1)] x y by simp
  qed
qed

lemma bd_live_nonnull:
  assumes "bd_ok h"
  shows "bd_live h 0 = None"
proof (rule ccontr)
  assume "bd_live h 0 \<noteq> None"
  then obtain x where "x \<in> bd_blocks h" "0 = adr h x + BHDR"
    by (auto simp: bd_live_def elim: live_in_cases)
  with payload_nonzero [OF bd_okD(2) [OF assms]] show False by metis
qed

lemma bd_fits_order:
  assumes "size_to_order (n + BHDR) = Some r" and "bd_fits n"
  shows "unat n \<le> 2 ^ r - 8"
proof -
  have "unat (n + BHDR) = unat n + 8" using assms(2) by (simp add: bd_fits_def unat_word_ariths)
  then show ?thesis using size_to_order_Some [OF assms(1)] by linarith
qed

text \<open>The buddy system is a second provider of the interface.\<close>

interpretation bd: memory_manager bd_malloc_impl bd_free bd_live bd_ok bd_fits
proof
  show "h' = h" if "bd_ok h" "bd_malloc_impl n k h = (0, h')" for h h' n k
    using bd_malloc_cases [OF that] by metis
next
  show "bd_ok h' \<and> bd_live h p = None \<and>
      (\<exists>s. bd_live h' = (bd_live h)(p \<mapsto> (s, k)) \<and> (bd_fits n \<longrightarrow> unat n \<le> s))"
    if "bd_ok h" "bd_malloc_impl n k h = (p, h')" "p \<noteq> 0" for h h' n k p
    using bd_malloc_cases [OF that(1,2)] that(3) bd_fits_order by metis
next
  show "disjoint_payloads (bd_live h)" if "bd_ok h" for h by (rule bd_live_disjoint [OF that])
  show "bd_live h 0 = None" if "bd_ok h" for h by (rule bd_live_nonnull [OF that])
  show "unat p + s \<le> 2 ^ 64" if "bd_ok h" "bd_live h p = Some (s, k)" for h p s k
    using that(2) bd_payload(3) [OF that(1)] by (auto simp: bd_live_def elim!: live_in_cases)
  show "\<exists>h'. bd_free p h = Some h' \<and> bd_ok h' \<and> bd_live h' = (bd_live h)(p := None)"
    if "bd_ok h" "bd_live h p \<noteq> None" for h p
    using bd_free_ok [OF that(1)] that(2) by auto
qed

section \<open>The status report\<close>

definition free_from :: "buddy_heap \<Rightarrow> nat set \<Rightarrow> nat \<Rightarrow> nat" where
  "free_from h S x = (\<Sum>y \<in> {y \<in> S. x \<le> y \<and> hd_free (hd_at h y)}. 2 ^ ord_at h y)"

lemma free_from_step:
  assumes t: "tiling T S (ord_at h)" and x: "x \<in> S"
  shows "free_from h S x =
    (if hd_free (hd_at h x) then 2 ^ ord_at h x else 0) + free_from h S (x + 2 ^ ord_at h x)"
proof -
  let ?B = "{y \<in> S. x + 2 ^ ord_at h x \<le> y \<and> hd_free (hd_at h y)}"
  have le: "x \<le> y \<longleftrightarrow> x = y \<or> x + 2 ^ ord_at h x \<le> y" if "y \<in> S" for y
    using tiling_disjoint [OF t x that] by (cases "x = y") auto
  have "{y \<in> S. x \<le> y \<and> hd_free (hd_at h y)} = (if hd_free (hd_at h x) then insert x ?B else ?B)"
    using le x by auto
  moreover have "finite ?B" "x \<notin> ?B" using tiling_finite [OF t] by auto
  ultimately show ?thesis by (simp add: free_from_def)
qed

lemma status_walk:
  assumes "bd_part h S" and "x \<in> S \<or> x = unat (heap_total h)"
  shows "\<exists>f' u' k'. status_loop h (of_nat x) (f, u, k) = Some (f', u', k') \<and>
    f' = f + of_nat (free_from h S x) \<and>
    f' + u' + k' = f + u + k + of_nat (unat (heap_total h) - x)"
  using assms
proof (induction h x arbitrary: f u k rule: bd_walk.induct)
  case (1 h x)
  let ?T = "unat (heap_total h)" and ?k = "ord_at h x"
  have t: "tiling ?T S (ord_at h)" and T: "?T < 2 ^ 32" using 1 by (simp_all add: bd_part_def)
  have "x \<le> ?T" using 1(3) part_bound [OF 1(2)] by auto
  then have "x < 2 ^ 64" using T by simp
  then have less: "(of_nat x :: u64) < heap_total h \<longleftrightarrow> x < ?T"
    by (simp add: word_less_nat_alt unat_of_nat)
  show ?case
  proof (cases "x < ?T")
    case False
    then have "{y \<in> S. x \<le> y \<and> hd_free (hd_at h y)} = {}"
      using part_bound [OF 1(2)] tilingD(5) [OF t] by fastforce
    then have "free_from h S x = 0" by (simp only: free_from_def sum.empty)
    then show ?thesis using False less by (subst status_loop.simps) simp
  next
    case True
    then have x: "x \<in> S" using 1 by auto
    have nxt: "x + 2 ^ ?k \<in> S \<or> x + 2 ^ ?k = ?T" using tiling_next [OF t x] by auto
    define f1 u1 k1 where "f1 = (if hd_free (hd_at h x) then f + 2 ^ ?k else f)"
      and "u1 = (if hd_free (hd_at h x) \<or> hd_kernel (hd_at h x) then u else u + 2 ^ ?k)"
      and "k1 = (if \<not> hd_free (hd_at h x) \<and> hd_kernel (hd_at h x) then k + 2 ^ ?k else k)"
    obtain f' u' k' where r: "status_loop h (of_nat (x + 2 ^ ?k)) (f1, u1, k1) = Some (f', u', k')"
      "f' = f1 + of_nat (free_from h S (x + 2 ^ ?k))"
      "f' + u' + k' = f1 + u1 + k1 + of_nat (?T - (x + 2 ^ ?k))"
      using 1(1) [OF True 1(2) nxt, of f1 u1 k1] by blast
    have step: "status_loop h (of_nat x) (f, u, k) = status_loop h (of_nat (x + 2 ^ ?k)) (f1, u1, k1)"
      using True less
      by (subst status_loop.simps)
        (simp add: Let_def adr_def hd_at_def pow2_eq f1_def u1_def k1_def)
    have "?T - x = 2 ^ ?k + (?T - (x + 2 ^ ?k))" using tilingD(4) [OF t x] by simp
    then have w: "(of_nat (?T - x) :: u64) = 2 ^ ?k + of_nat (?T - (x + 2 ^ ?k))"
      by (metis of_nat_add of_nat_numeral of_nat_power)
    have sum: "f1 + u1 + k1 = f + u + k + 2 ^ ?k"
      by (auto simp: f1_def u1_def k1_def)
    have "f' = f + of_nat (free_from h S x)"
      using r(2) free_from_step [OF t x] by (simp add: f1_def)
    moreover have "f' + u' + k' = f + u + k + of_nat (?T - x)" using r(3) w sum by simp
    ultimately show ?thesis using step r(1) by auto
  qed
qed

text \<open>The bytes on the free lists.\<close>

definition list_bytes :: "buddy_heap \<Rightarrow> nat" where
  "list_bytes h = (\<Sum>k \<in> {MIN_ORDER..MAX_ORDER}. 2 ^ k * length (free_lists h (order_idx k)))"

lemma free_from_lists:
  assumes inv: "bd_inv h S {}"
  shows "free_from h S 0 = list_bytes h"
proof -
  have p: "bd_part h S" and l: "lists_ok h S {}" using inv by (auto simp: bd_inv_def)
  have t: "tiling (unat (heap_total h)) S (ord_at h)" using p by (simp add: bd_part_def)
  let ?A = "{y \<in> S. hd_free (hd_at h y)}"
  have len: "2 ^ k * length (free_lists h (order_idx k)) = (\<Sum>y \<in> {y \<in> ?A. ord_at h y = k}. 2 ^ ord_at h y)"
    if "k \<in> {MIN_ORDER..MAX_ORDER}" for k
  proof -
    have k: "4 \<le> k" "k \<le> 23" using that by simp_all
    have "inj_on (adr h) (frees h S {} k)"
      using adr_inj [OF p] part_bound [OF p] by (auto simp: inj_on_def frees_def)
    then have "length (free_lists h (order_idx k)) = card (frees h S {} k)"
      using lists_okD [OF l k] by (metis card_image distinct_card)
    moreover have "frees h S {} k = {y \<in> ?A. ord_at h y = k}" by (auto simp: frees_def)
    ultimately show ?thesis by simp
  qed
  have "(\<Sum>k \<in> {MIN_ORDER..MAX_ORDER}. \<Sum>y \<in> {y \<in> ?A. ord_at h y = k}. 2 ^ ord_at h y)
      = (\<Sum>y \<in> ?A. (2 :: nat) ^ ord_at h y)"
    by (rule sum.group) (use tiling_finite [OF t] tilingD [OF t] in auto)
  then show ?thesis using len by (simp add: free_from_def list_bytes_def mult.commute)
qed


section \<open>Initialisation\<close>

lemma tiling_extend:
  assumes t: "tiling T S r" and k: "4 \<le> k" "k \<le> 23" and d: "2 ^ k dvd T"
  shows "tiling (T + 2 ^ k) (insert T S) (r(T := k))"
proof -
  have new: "T \<notin> S" using tilingD(5) [OF t] by blast
  have r': "(r(T := k)) x = r x" if "x \<in> S" for x using that new by auto
  show ?thesis
    unfolding tiling_def
  proof (intro conjI ballI allI impI)
    fix x assume "x \<in> insert T S"
    then show "4 \<le> (r(T := k)) x" "(r(T := k)) x \<le> 23" "2 ^ (r(T := k)) x dvd x"
      "x + 2 ^ (r(T := k)) x \<le> T + 2 ^ k"
      using k d r' [of x] tilingD [OF t, of x] by auto
  next
    fix x y assume xy: "x \<in> insert T S" "y \<in> insert T S" "x < y"
    then have x: "x \<in> S" using tilingD(5) [OF t, of y] by auto
    then show "x + 2 ^ (r(T := k)) x \<le> y"
      using xy r' [OF x] tiling_disjoint [OF t x] tilingD(4) [OF t x] by auto
  next
    fix z assume z: "z < T + 2 ^ k"
    show "\<exists>x \<in> insert T S. x \<le> z \<and> z < x + 2 ^ (r(T := k)) x"
    proof (cases "z < T")
      case True
      then obtain x where "x \<in> S" "x \<le> z" "z < x + 2 ^ r x" using tiling_cover [OF t] by blast
      then show ?thesis using r' by (intro bexI [of _ x]) auto
    next
      case False
      then show ?thesis using z by (intro bexI [of _ T]) auto
    qed
  qed
qed

text \<open>The heap as far as \<open>mm_init\<close> has decomposed it.\<close>

definition laid :: "u64 \<Rightarrow> u64 \<Rightarrow> nat \<Rightarrow> u64 \<times> buddy_heap \<Rightarrow> bool" where
  "laid start sz k s \<longleftrightarrow>
     (let (off, h) = s in heap_base h = start \<and> heap_total h = sz \<and> alloc_count h = 0 \<and>
        unat off = unat sz div 2 ^ k * 2 ^ k \<and>
        (\<exists>S. bd_inv (h\<lparr>heap_total := off\<rparr>) S {} \<and> (\<forall>x \<in> S. hd_free (hd_at h x))))"

lemma heap_total_simps [simp]:
  "adr (h\<lparr>heap_total := n\<rparr>) = adr h" "hd_at (h\<lparr>heap_total := n\<rparr>) = hd_at h"
  "set_hdr a g (h\<lparr>heap_total := n\<rparr>) = (set_hdr a g h)\<lparr>heap_total := n\<rparr>"
  "set_list k f (h\<lparr>heap_total := n\<rparr>) = (set_list k f h)\<lparr>heap_total := n\<rparr>"
  by (simp_all add: adr_def hd_at_def set_hdr_def set_list_def fun_eq_iff)

lemma div_pow_step:
  "n div 2 ^ Suc k * 2 ^ Suc k + 2 ^ k \<le> n \<Longrightarrow> n div 2 ^ k * 2 ^ k = n div 2 ^ Suc k * 2 ^ Suc k + 2 ^ k"
  "\<not> n div 2 ^ Suc k * 2 ^ Suc k + 2 ^ k \<le> n \<Longrightarrow> n div 2 ^ k * 2 ^ k = n div 2 ^ Suc k * 2 ^ Suc k"
  for n k :: nat
proof -
  let ?q = "n div 2 ^ k"
  have d: "n div 2 ^ Suc k = ?q div 2" by (simp add: div_mult2_eq [symmetric] mult.commute)
  have q: "?q = 2 * (?q div 2) + ?q mod 2" by simp
  have le: "?q * 2 ^ k \<le> n" by simp
  have lt: "n < (?q + 1) * 2 ^ k" by (simp add: dividend_less_div_times)
  have m: "?q mod 2 = 0 \<or> ?q mod 2 = 1" by auto
  have e': "a * c = b * (2 * c) + d * c" if "a = 2 * b + d" for a b c d :: nat
    using that by (simp add: algebra_simps)
  have e: "?q * 2 ^ k = (?q div 2) * 2 ^ Suc k + ?q mod 2 * 2 ^ k"
    using e' [OF q, of "2 ^ k"] by simp
  show "?q * 2 ^ k = n div 2 ^ Suc k * 2 ^ Suc k + 2 ^ k"
    if "n div 2 ^ Suc k * 2 ^ Suc k + 2 ^ k \<le> n"
    using m e lt that unfolding d by (auto simp: algebra_simps)
  show "?q * 2 ^ k = n div 2 ^ Suc k * 2 ^ Suc k"
    if "\<not> n div 2 ^ Suc k * 2 ^ Suc k + 2 ^ k \<le> n"
    using m e le that unfolding d by (auto simp: algebra_simps)
qed

lemma laid_step:
  assumes l: "laid start sz (Suc k) s" and k: "4 \<le> k" "k \<le> 23" and sz: "unat sz < 2 ^ 24"
    and st: "unat start + unat sz < 2 ^ 64"
  shows "laid start sz k (bd_init_step start sz k s)"
proof -
  obtain off h where s: "s = (off, h)" by (cases s)
  obtain S where h: "heap_base h = start" "heap_total h = sz" "alloc_count h = 0"
    "unat off = unat sz div 2 ^ Suc k * 2 ^ Suc k" "bd_inv (h\<lparr>heap_total := off\<rparr>) S {}"
    "\<forall>x \<in> S. hd_free (hd_at h x)"
    using l unfolding laid_def s by auto
  have off: "unat off \<le> unat sz" unfolding h(4) by (rule div_times_less_eq_dividend)
  have k2: "(2 :: nat) ^ k \<le> 2 ^ 23" using k(2) by (intro power_increasing) simp_all
  have sum: "unat (off + pow2 k) = unat off + 2 ^ k"
    using off sz k2 k(2) by (simp add: unat_word_ariths unat_pow2)
  have guard: "off < sz \<and> off + pow2 k \<le> sz \<longleftrightarrow> unat off + 2 ^ k \<le> unat sz"
  proof -
    have "unat off < unat sz" if "unat off + 2 ^ k \<le> unat sz"
      using that zero_less_power [of "2 :: nat" k] by linarith
    then show ?thesis using sum by (auto simp: word_le_nat_alt word_less_nat_alt)
  qed
  show ?thesis
  proof (cases "unat off + 2 ^ k \<le> unat sz")
    case False
    then have "bd_init_step start sz k s = s"
      using guard unfolding bd_init_step_def s by (simp only: Let_def prod.case if_False)
    moreover have "unat off = unat sz div 2 ^ k * 2 ^ k"
      using False div_pow_step(2) [of "unat sz" k] h(4) by simp
    ultimately show ?thesis using l by (simp add: laid_def s)
  next
    case True
    define h1 where "h1 = set_hdr (start + off) (\<lambda>_. \<lparr>hd_order = k, hd_free = True, hd_kernel = False\<rparr>) h"
    define h2 where "h2 = set_list k (\<lambda>l. (start + off) # l) h1"
    have step: "bd_init_step start sz k s = (off + pow2 k, h2)"
      using True guard by (simp add: bd_init_step_def s h1_def h2_def Let_def)
    let ?x = "unat off" and ?H = "h1\<lparr>heap_total := off + pow2 k\<rparr>"
    have ax: "start + off = adr h ?x" using h(1) by (simp add: adr_def)
    have p: "bd_part (h\<lparr>heap_total := off\<rparr>) S" and l0: "lists_ok (h\<lparr>heap_total := off\<rparr>) S {}"
      using h(5) by (auto simp: bd_inv_def)
    have t: "tiling ?x S (ord_at h)" using p by (simp add: bd_part_def)
    have lt: "y < ?x" if "y \<in> S" for y using tilingD(5) [OF t that] .
    have hd1: "hd_at h1 y = (if y = ?x then \<lparr>hd_order = k, hd_free = True, hd_kernel = False\<rparr>
        else hd_at h y)" if "y \<le> ?x" for y
      using adr_inj [OF p, of y ?x] that by (simp add: h1_def ax hd_at_def set_hdr_def adr_def)
    have "2 ^ k dvd ?x" unfolding h(4) by (simp add: dvd_mult)
    then have "tiling (?x + 2 ^ k) (insert ?x S) ((ord_at h)(?x := k))"
      by (rule tiling_extend [OF t k])
    moreover have "ord_at h1 y = ((ord_at h)(?x := k)) y" if "y \<in> insert ?x S" for y
      using hd1 [of y] lt [of y] that by (auto simp: less_imp_le)
    ultimately have "tiling (?x + 2 ^ k) (insert ?x S) (ord_at h1)"
      using tiling_cong [of "insert ?x S" "ord_at h1" "(ord_at h)(?x := k)"] by blast
    then have p1: "bd_part ?H (insert ?x S)"
      using p sum True st sz by (simp add: bd_part_def h1_def h(1))
    have "frees ?H (insert ?x S) {?x} j = frees (h\<lparr>heap_total := off\<rparr>) S {} j" for j
    proof -
      have "?x \<notin> S" using lt by blast
      then show ?thesis using hd1 lt by (auto simp: frees_def less_imp_le split: if_splits)
    qed
    then have "lists_ok ?H (insert ?x S) {?x}" using l0 by (simp add: lists_ok_def h1_def)
    then have inv1: "bd_inv ?H (insert ?x S) {?x}" using p1 by (simp add: bd_inv_def)
    have x1: "hd_free (hd_at h1 ?x)" "ord_at h1 ?x = k" "adr h1 = adr h" using hd1 by (simp_all add: h1_def)
    have "bd_inv (h2\<lparr>heap_total := off + pow2 k\<rparr>) (insert ?x S) {}"
      using bd_push [OF inv1, of k] x1 by (simp add: h2_def ax)
    moreover have "\<forall>y \<in> insert ?x S. hd_free (hd_at h2 y)"
      using h(6) hd1 lt by (auto simp: h2_def less_imp_le)
    moreover have "unat (off + pow2 k) = unat sz div 2 ^ k * 2 ^ k"
      using True div_pow_step(1) [of "unat sz" k] h(4) sum by simp
    moreover have "heap_base h2 = start" "heap_total h2 = sz" "alloc_count h2 = 0"
      using h(1-3) by (simp_all add: h2_def h1_def)
    ultimately show ?thesis unfolding laid_def step by auto
  qed
qed

lemma laid_fold:
  "4 \<le> k \<Longrightarrow> k \<le> 24 \<Longrightarrow> unat sz < 2 ^ 24 \<Longrightarrow> unat start + unat sz < 2 ^ 64 \<Longrightarrow>
   laid start sz 24 s \<Longrightarrow> laid start sz k (fold (bd_init_step start sz) (rev [k..<24]) s)"
proof (induction "24 - k" arbitrary: k)
  case 0
  then show ?case by simp
next
  case (Suc n)
  then have "k < 24" by simp
  then have e: "rev [k..<24] = rev [Suc k..<24] @ [k]" by (simp add: upt_rec [of k])
  have "laid start sz (Suc k) (fold (bd_init_step start sz) (rev [Suc k..<24]) s)"
    using Suc \<open>k < 24\<close> by (intro Suc.hyps(1)) simp_all
  then have "laid start sz k (bd_init_step start sz k (fold (bd_init_step start sz) (rev [Suc k..<24]) s))"
    using Suc.prems \<open>k < 24\<close> by (intro laid_step) simp_all
  then show ?case unfolding e by simp
qed

lemma bd_init_ok:
  assumes "start \<noteq> 0" and "unat start + unat sz < 2 ^ 64" and "unat sz < 2 ^ 24" and "16 dvd unat sz"
  shows "bd_ok (bd_init start sz h)" and "bd_live (bd_init start sz h) = Map.empty"
    and "heap_total (bd_init start sz h) = sz"
proof -
  let ?h0 = "h\<lparr>heap_base := start, heap_total := sz, alloc_count := 0,
    free_lists := (\<lambda>i. if i < MAX_ORDER - MIN_ORDER + 1 then [] else free_lists h i)\<rparr>"
  have "bd_inv (?h0\<lparr>heap_total := 0\<rparr>) {} {}"
    using assms(1) unsigned_less [of start]
    by (auto simp: bd_inv_def bd_part_def lists_ok_def frees_def tiling_def order_idx_def)
  then have "laid start sz 24 (0, ?h0)"
    using assms(3) unfolding laid_def by (auto intro!: exI [of _ "{}"])
  then have "laid start sz 4 (fold (bd_init_step start sz) (rev [4..<24]) (0, ?h0))"
    using assms by (intro laid_fold) simp_all
  moreover obtain off h' where f: "fold (bd_init_step start sz) (rev [4..<24]) (0, ?h0) = (off, h')"
    by fastforce
  ultimately obtain S where l: "heap_total h' = sz" "alloc_count h' = 0"
    "unat off = unat sz div 2 ^ 4 * 2 ^ 4"
    "bd_inv (h'\<lparr>heap_total := off\<rparr>) S {}" "\<forall>x \<in> S. hd_free (hd_at h' x)"
    unfolding laid_def by auto
  have "unat off = unat sz" using l(3) assms(4) by simp
  then have "off = sz" by (simp only: unsigned_word_eqI)
  then have inv: "bd_inv h' S {}" using l(1,4) by (metis (full_types) buddy_heap.surjective buddy_heap.update_convs(2))
  have init: "bd_init start sz h = h'" using f unfolding bd_init_def by simp
  have "users h' S = {}" using l(5) by (auto simp: users_def)
  then have ok: "bd_ok h' \<and> bd_live h' = live_in h' S \<and> bd_blocks h' = S"
    using l(2) by (intro bd_okI [OF inv]) simp
  show "bd_ok (bd_init start sz h)" "heap_total (bd_init start sz h) = sz" using ok init l(1) by simp_all
  have "live_in h' S = Map.empty" using l(5) by (auto simp: live_in_def Let_def fun_eq_iff)
  then show "bd_live (bd_init start sz h) = Map.empty" using ok init by simp
qed


section \<open>Properties\<close>

text \<open>The heap of \<open>kernel.c\<close> under this allocator: 8 MB at \<open>0x600000\<close>, one block.\<close>

definition boot_buddy :: buddy_heap where
  "boot_buddy = bd_init 0x600000 0x800000
     \<lparr>heap_base = 0, heap_total = 0, alloc_count = 0, free_lists = (\<lambda>_. []),
      bd_hdr = (\<lambda>_. \<lparr>hd_order = 0, hd_free = False, hd_kernel = False\<rparr>)\<rparr>"

lemma boot_buddy_ok: "bd_ok boot_buddy" "bd_live boot_buddy = Map.empty" "heap_total boot_buddy = 0x800000"
  unfolding boot_buddy_def by (rule bd_init_ok; simp)+

text \<open>
  C31: The buddy allocator keeps its heap well formed. \<open>mm_init\<close> makes a well-formed heap without
  payloads out of any range of less than 16 MB whose size is a multiple of 16. In a well-formed
  heap an allocation either changes nothing and returns NULL, or adds exactly one payload,
  disjoint from every live one and, for requests below \<open>2^64 - 8\<close>, at least as large as
  requested; releasing a live payload, with all the merging of buddies, never fails and removes
  exactly it.
\<close>

theorem bd_heap_safe:
  "(start \<noteq> 0 \<and> unat start + unat sz < 2 ^ 64 \<and> unat sz < 2 ^ 24 \<and> 16 dvd unat sz \<longrightarrow>
      bd_ok (bd_init start sz h0) \<and> bd_live (bd_init start sz h0) = Map.empty) \<and>
   (bd_ok h \<longrightarrow>
    (let (p, h') = bd_malloc_impl n k h in
      bd_ok h' \<and> (p = 0 \<longrightarrow> h' = h) \<and>
      (p \<noteq> 0 \<longrightarrow> (\<exists>s. bd_live h' = (bd_live h)(p \<mapsto> (s, k)) \<and>
         (unat n + 8 < 2 ^ 64 \<longrightarrow> unat n \<le> s \<and>
            (\<forall>q t l. bd_live h q = Some (t, l) \<longrightarrow>
               unat p + unat n \<le> unat q \<or> unat q + t \<le> unat p))))) \<and>
    (\<forall>q. bd_live h q \<noteq> None \<longrightarrow>
      (\<exists>h'. bd_free q h = Some h' \<and> bd_ok h' \<and> bd_live h' = (bd_live h)(q := None))))"
proof (intro conjI impI)
  assume "start \<noteq> 0 \<and> unat start + unat sz < 2 ^ 64 \<and> unat sz < 2 ^ 24 \<and> 16 dvd unat sz"
  then show "bd_ok (bd_init start sz h0)" "bd_live (bd_init start sz h0) = Map.empty"
    using bd_init_ok [of start sz h0] by simp_all
next
  assume ok: "bd_ok h"
  obtain p h' where m: "bd_malloc_impl n k h = (p, h')" by (cases "bd_malloc_impl n k h")
  have "bd_ok h'" using bd.malloc_ok [OF ok, of n k] m by simp
  moreover have "p = 0 \<longrightarrow> h' = h" using bd.malloc_null [OF ok] m by auto
  moreover have "\<exists>s. bd_live h' = (bd_live h)(p \<mapsto> (s, k)) \<and>
         (unat n + 8 < 2 ^ 64 \<longrightarrow> unat n \<le> s \<and>
            (\<forall>q t l. bd_live h q = Some (t, l) \<longrightarrow>
               unat p + unat n \<le> unat q \<or> unat q + t \<le> unat p))" if "p \<noteq> 0"
    using bd.malloc_live [OF ok m that] bd.malloc_fresh_disjoint [OF ok m that]
    by (auto simp: bd_fits_def)
  ultimately show "let (p, h') = bd_malloc_impl n k h in
      bd_ok h' \<and> (p = 0 \<longrightarrow> h' = h) \<and>
      (p \<noteq> 0 \<longrightarrow> (\<exists>s. bd_live h' = (bd_live h)(p \<mapsto> (s, k)) \<and>
         (unat n + 8 < 2 ^ 64 \<longrightarrow> unat n \<le> s \<and>
            (\<forall>q t l. bd_live h q = Some (t, l) \<longrightarrow>
               unat p + unat n \<le> unat q \<or> unat q + t \<le> unat p))))"
    using m by simp
  show "\<forall>q. bd_live h q \<noteq> None \<longrightarrow>
      (\<exists>h'. bd_free q h = Some h' \<and> bd_ok h' \<and> bd_live h' = (bd_live h)(q := None))"
    using bd.free_live [OF ok] by blast
qed

theorem bd_heap_safe_witness:
  "bd_ok (snd (bd_malloc_impl 4096 True (bd_init 0x600000 0x800000 boot_buddy)))"
proof -
  have "bd_ok (bd_init 0x600000 0x800000 boot_buddy)"
    using bd_heap_safe [where start = "0x600000" and sz = "0x800000" and ?h0.0 = boot_buddy] by simp
  then show ?thesis
    using bd_heap_safe [where h = "bd_init 0x600000 0x800000 boot_buddy" and n = 4096 and k = True]
    by (auto simp: case_prod_beta Let_def)
qed

text \<open>
  C32: The loop of \<open>mm_status\<close>, which jumps from header to header by whatever the order byte says,
  ends on every well-formed heap. Its report adds up to the size of the heap; the free bytes are
  those of the blocks on the free lists, and the counter of allocations is the number of payloads
  of user programs.
\<close>

theorem bd_status_returns:
  assumes "bd_ok h"
  shows "\<exists>st. bd_status h = Some (Some st) \<and>
    ms_free st + ms_used st + ms_used_kernel st = ms_total st \<and> ms_total st = heap_total h \<and>
    ms_free st = of_nat (list_bytes h) \<and>
    ms_alloc_count st = of_nat (card {p. \<exists>s. bd_live h p = Some (s, False)})"
proof -
  let ?S = "bd_blocks h"
  note inv = bd_okD [OF assms]
  have start: "0 \<in> ?S \<or> 0 = unat (heap_total h)"
    using inv(2) tiling_first [of "unat (heap_total h)" ?S "ord_at h"] by (auto simp: bd_part_def)
  obtain f u k where r: "status_loop h 0 (0, 0, 0) = Some (f, u, k)"
    "f = of_nat (free_from h ?S 0)" "f + u + k = heap_total h"
    using status_walk [OF inv(2) start, of 0 0 0] by auto
  have base: "heap_base h \<noteq> 0" using inv(2) by (simp add: bd_part_def)
  have "bij_betw (\<lambda>x. adr h x + BHDR) (users h ?S) {p. \<exists>s. bd_live h p = Some (s, False)}"
    unfolding bij_betw_def
  proof
    show "inj_on (\<lambda>x. adr h x + BHDR) (users h ?S)"
      using adr_inj [OF inv(2)] part_bound [OF inv(2)] by (auto simp: inj_on_def users_def)
    show "(\<lambda>x. adr h x + BHDR) ` users h ?S = {p. \<exists>s. bd_live h p = Some (s, False)}"
      using live_in_payload [OF inv(2)]
      by (auto simp: users_def bd_live_def image_iff elim!: live_in_cases)
  qed
  then have "alloc_count h = of_nat (card {p. \<exists>s. bd_live h p = Some (s, False)})"
    using inv(3) by (simp add: bij_betw_same_card)
  then show ?thesis
    using r base free_from_lists [OF inv(1)] by (simp add: bd_status_def)
qed

theorem bd_status_returns_witness:
  "\<exists>st. bd_status boot_buddy = Some (Some st) \<and> ms_total st = 0x800000 \<and> ms_alloc_count st = 0"
  using bd_status_returns [OF boot_buddy_ok(1)] boot_buddy_ok(2,3) by auto

text \<open>The size that is rounded up wraps around: the payload has 8 bytes.\<close>

lemma bd_malloc_overflow:
  assumes "2 ^ 64 \<le> unat n + 8"
  shows "size_to_order (n + BHDR) = Some 4"
proof -
  have "unat n < 2 ^ 64" using unsigned_less [of n] by simp
  then have "(unat n + 8) mod 2 ^ 64 < 8" using assms by (simp add: le_mod_geq)
  then have "unat (n + BHDR) < 8" by (simp add: unat_word_ariths)
  then show ?thesis
    by (subst size_to_order_def, subst size_loop.simps) (simp add: word_less_nat_alt unat_pow2)
qed

end
