(* ===== verification/Test_Props.thy ===== *)
theory Test_Props
  imports Tests User_Props Memory_Regions Heap_Inv Buddy_Inv
begin

text \<open>
  What the tests show when they run against a correct kernel: \<open>GetUniform\<close> stays in its range, and
  \<open>test_mm\<close> never reports an error, whichever of the two memory managers is linked.
\<close>

section \<open>Random numbers\<close>

lemma bit_len_le: "0 < n \<Longrightarrow> 2 ^ (bit_len n - 1) \<le> n"
proof (induction n rule: bit_len.induct)
  case (1 n)
  show ?case
  proof (cases "n div 2 = 0")
    case True
    then show ?thesis using 1 by (subst bit_len.simps) (simp add: bit_len.simps)
  next
    case False
    then have "2 ^ (bit_len (n div 2) - 1) \<le> n div 2" using 1 by simp
    moreover have "bit_len n = Suc (bit_len (n div 2))" using 1(2) by (subst bit_len.simps) simp
    moreover have "0 < bit_len (n div 2)" using False by (subst bit_len.simps) simp
    ultimately show ?thesis by (cases "bit_len (n div 2)") simp_all
  qed
qed

text \<open>Rounding adds at most half a unit of the last place that is kept.\<close>

lemma round_to_le:
  assumes "0 < p"
  shows "round_to p n * 2 ^ p \<le> n * (2 ^ p + 1)"
proof (cases "bit_len n \<le> p")
  case True
  then show ?thesis by (simp add: round_to_def)
next
  case False
  define e where "e = bit_len n - p"
  define q where "q = n div 2 ^ e"
  define r where "r = n mod 2 ^ e"
  have e: "0 < e" "bit_len n - 1 = (e - 1) + p" using False assms by (simp_all add: e_def)
  have n: "n = q * 2 ^ e + r" unfolding q_def r_def by (rule div_mult_mod_eq [symmetric])
  have half: "(2 :: nat) ^ e = 2 * 2 ^ (e - 1)" using e(1) by (cases e) simp_all
  have "0 < n" using False by (intro notI gr0I) (simp add: bit_len.simps)
  then have len: "2 ^ (e - 1) * 2 ^ p \<le> n" using bit_len_le [of n] e(2) by (simp add: power_add)
  have "round_to p n = (if r > 2 ^ (e - 1) \<or> r = 2 ^ (e - 1) \<and> odd q then q + 1 else q) * 2 ^ e"
    using e(1) by (simp add: round_to_def Let_def e_def q_def r_def)
  also have "\<dots> \<le> n + 2 ^ (e - 1)" using n half by (simp split: if_splits)
  finally have "round_to p n * 2 ^ p \<le> (n + 2 ^ (e - 1)) * 2 ^ p" by (rule mult_le_mono1)
  also have "\<dots> \<le> n * 2 ^ p + n" using len by (simp add: algebra_simps)
  finally show ?thesis by simp
qed

lemma round_to_0 [simp]: "round_to p 0 = 0"
  by (simp add: round_to_def bit_len.simps)

lemma uniform_scaled:
  assumes p: "p = 53 \<or> p = 64" and x: "x \<le> 2 ^ 32" and n: "0 < n"
  shows "round_to p (round_to p (x * uniform_factor p) * n) < n * 2 ^ (p + 32)"
proof -
  let ?y = "round_to p (x * uniform_factor p)" and ?P = "(2 :: nat) ^ p"
  have p0: "0 < p" using p by auto
  have "round_to p (?y * n) * ?P * ?P \<le> ?y * n * (?P + 1) * ?P"
    using round_to_le [OF p0, of "?y * n"] by (intro mult_le_mono1)
  also have "\<dots> = ?y * ?P * (n * (?P + 1))" by (simp add: algebra_simps)
  also have "\<dots> \<le> x * uniform_factor p * (?P + 1) * (n * (?P + 1))"
    by (intro mult_le_mono1 round_to_le p0)
  also have "\<dots> \<le> 2 ^ 32 * uniform_factor p * (?P + 1) * (n * (?P + 1))"
    by (intro mult_le_mono1 x)
  also have "\<dots> = n * (2 ^ 32 * uniform_factor p * (?P + 1) * (?P + 1))" by (simp only: ac_simps)
  also have "\<dots> < n * (2 ^ (p + 32) * ?P * ?P)"
  proof (rule mult_strict_left_mono [OF _ n])
    show "2 ^ 32 * uniform_factor p * (?P + 1) * (?P + 1) < 2 ^ (p + 32) * ?P * ?P"
      using p by (auto simp: uniform_factor_def)
  qed
  finally have "round_to p (?y * n) * (?P * ?P) < n * 2 ^ (p + 32) * (?P * ?P)"
    by (simp only: mult.assoc)
  then show ?thesis by (simp only: mult_less_cancel2)
qed

lemma GetUniform_range:
  assumes "fpu_bits m = 53 \<or> fpu_bits m = 64" and "GetUniform m lim u = (r, u')"
  shows "if lim = 0 then r = 0 else r < lim"
proof -
  let ?p = "fpu_bits m"
  obtain x where x: "GetUint u = (x, u')" by (cases "GetUint u") (use assms(2) in \<open>auto simp: GetUniform_def Let_def\<close>)
  define z where "z = round_to ?p (round_to ?p ((unat x + 1) * uniform_factor ?p) * unat lim)"
  have r: "r = of_nat (z div 2 ^ (?p + 32))"
    using assms(2) unfolding GetUniform_def x z_def Let_def by simp
  show ?thesis
  proof (cases "lim = 0")
    case True
    then have "z = 0" by (simp add: z_def)
    then show ?thesis using True r by simp
  next
    case False
    then have n: "0 < unat lim" by (simp add: unat_gt_0)
    have "unat x < 2 ^ 32" using unsigned_less [of x, where ?'a = nat] by simp
    then have "z < unat lim * 2 ^ (?p + 32)"
      unfolding z_def by (intro uniform_scaled [OF assms(1) _ n]) linarith
    then have lt: "z div 2 ^ (?p + 32) < unat lim" by (rule less_mult_imp_div_less)
    moreover have "unat lim < 2 ^ 32" using unsigned_less [of lim, where ?'a = nat] by simp
    ultimately have "unat r = z div 2 ^ (?p + 32)" unfolding r by (simp add: unat_of_nat)
    then show ?thesis using False lt by (simp add: word_less_nat_alt)
  qed
qed

text \<open>
  \<open>GetUniform(n)\<close> is a number from 0 to \<open>n - 1\<close>, as its comment says, whatever the state of the generator
  and although both products are rounded, to 53 or to 64 bits; for \<open>n = 0\<close> it is 0. The generator goes
  on by one step.
\<close>

lemma uniform_in_range:
  assumes "fpu_bits m = 53 \<or> fpu_bits m = 64"
  shows "(lim \<noteq> 0 \<longrightarrow> fst (GetUniform m lim u) < lim) \<and> (lim = 0 \<longrightarrow> fst (GetUniform m lim u) = 0) \<and>
    snd (GetUniform m lim u) = snd (GetUint u)"
proof -
  obtain r u' where "GetUniform m lim u = (r, u')" by (rule prod.exhaust)
  then show ?thesis
    using GetUniform_range [OF assms] by (auto simp: GetUniform_def Let_def case_prod_beta split: if_splits)
qed

section \<open>Memory\<close>

lemma user_memset_memset: "user_memset d c n s = memset d c n s"
  by (induction n arbitrary: s) (simp_all add: memset_def)

lemma memcheck_iff: "memcheck p v n s \<longleftrightarrow> (\<forall>a \<in> region p n. s a = v)"
  by (induction n arbitrary: p) (auto simp: region_Suc)

text \<open>\<open>L\<close> is what is live: the payloads \<open>L0\<close> and, apart from them, blocks for the requests.\<close>

definition holds :: "payloads \<Rightarrow> mm_rq list \<Rightarrow> payloads \<Rightarrow> bool" where
  "holds L0 rqs L \<longleftrightarrow>
     distinct (map rq_address rqs) \<and> (\<forall>q. q \<notin> rq_address ` set rqs \<longrightarrow> L q = L0 q) \<and>
     (\<forall>r \<in> set rqs. rq_address r \<noteq> 0 \<and> L0 (rq_address r) = None \<and>
        (\<exists>s k. L (rq_address r) = Some (s, k) \<and> unat (rq_size r) \<le> s))"

lemma holds_Nil [simp]: "holds L0 [] L \<longleftrightarrow> L = L0"
  by (auto simp: holds_def)

lemma holds_snoc:
  assumes h: "holds L0 rqs L" and a: "L a = None" "a \<noteq> 0" and sz: "unat sz \<le> s"
  shows "holds L0 (rqs @ [\<lparr>rq_address = a, rq_size = sz\<rparr>]) (L(a \<mapsto> (s, k)))"
proof -
  have "a \<notin> rq_address ` set rqs" using h a(1) by (fastforce simp: holds_def)
  then show ?thesis using assms by (auto simp: holds_def)
qed

lemma holds_free: "holds L0 (r # rqs) L \<Longrightarrow> holds L0 rqs (L(rq_address r := None))"
  by (auto simp: holds_def image_iff)

lemma holds_disjoint:
  assumes h: "holds L0 rqs L" and d: "disjoint_payloads L"
    and b: "\<And>p s k. L p = Some (s, k) \<Longrightarrow> unat p + s \<le> 2 ^ 64"
    and ij: "i < length rqs" "j < length rqs" "i \<noteq> j"
  shows "region (rq_address (rqs ! i)) (unat (rq_size (rqs ! i))) \<inter>
    region (rq_address (rqs ! j)) (unat (rq_size (rqs ! j))) = {}"
proof -
  have "rqs ! i \<in> set rqs" "rqs ! j \<in> set rqs" using ij by simp_all
  then obtain s k t l where L: "L (rq_address (rqs ! i)) = Some (s, k)" "unat (rq_size (rqs ! i)) \<le> s"
    "L (rq_address (rqs ! j)) = Some (t, l)" "unat (rq_size (rqs ! j)) \<le> t"
    using h by (meson holds_def)
  have "map rq_address rqs ! i \<noteq> map rq_address rqs ! j"
    using h ij nth_eq_iff_index_eq [of "map rq_address rqs" i j] by (simp add: holds_def)
  then have "rq_address (rqs ! i) \<noteq> rq_address (rqs ! j)" using ij by simp
  then have "unat (rq_address (rqs ! i)) + s \<le> unat (rq_address (rqs ! j)) \<or>
      unat (rq_address (rqs ! j)) + t \<le> unat (rq_address (rqs ! i))"
    using d L unfolding disjoint_payloads_def by blast
  then show ?thesis using b [OF L(1)] b [OF L(3)] L(2,4) by (intro regions_disjoint) linarith+
qed

lemma fill_block_eq:
  "rq_address (rqs ! i) \<noteq> 0 \<Longrightarrow> fill_block rqs i (u, w) =
     (u\<lparr>umem := \<lambda>a. if a \<in> region (rq_address (rqs ! i)) (unat (rq_size (rqs ! i)))
         then of_nat i else umem u a\<rparr>, w)"
  unfolding fill_block_def upd_user_def fst_conv snd_conv user_memset_memset memset_region of_int_of_nat_eq
  by (rule if_P)

text \<open>The second loop of a round leaves in each block its own number.\<close>

definition filled :: "mm_rq list \<Rightarrow> nat \<Rightarrow> (u64 \<Rightarrow> u8) \<Rightarrow> bool" where
  "filled rqs n s \<longleftrightarrow>
     (\<forall>i < n. \<forall>a \<in> region (rq_address (rqs ! i)) (unat (rq_size (rqs ! i))). s a = of_nat i)"

lemma fill_blocks:
  assumes nz: "\<And>i. i < length rqs \<Longrightarrow> rq_address (rqs ! i) \<noteq> 0"
    and d: "\<And>i j. i < length rqs \<Longrightarrow> j < length rqs \<Longrightarrow> i \<noteq> j \<Longrightarrow>
      region (rq_address (rqs ! i)) (unat (rq_size (rqs ! i))) \<inter>
      region (rq_address (rqs ! j)) (unat (rq_size (rqs ! j))) = {}"
    and n: "n \<le> length rqs"
  shows "\<exists>u'. fold (fill_block rqs) [0..<n] (u, w) = (u', w) \<and> filled rqs n (umem u')"
  using n
proof (induction n)
  case 0
  then show ?case by (simp add: filled_def)
next
  case (Suc n)
  then obtain u' where u': "fold (fill_block rqs) [0..<n] (u, w) = (u', w)" "filled rqs n (umem u')"
    by auto
  let ?R = "\<lambda>i. region (rq_address (rqs ! i)) (unat (rq_size (rqs ! i)))"
  define u'' where "u'' = u'\<lparr>umem := \<lambda>a. if a \<in> ?R n then of_nat n else umem u' a\<rparr>"
  have "fold (fill_block rqs) [0..<Suc n] (u, w) = (u'', w)"
    using u'(1) nz [of n] Suc.prems by (simp add: fill_block_eq u''_def)
  moreover have "filled rqs (Suc n) (umem u'')"
    unfolding filled_def
  proof (intro allI impI ballI)
    fix i a assume i: "i < Suc n" "a \<in> ?R i"
    show "umem u'' a = of_nat i"
    proof (cases "i = n")
      case False
      then have "i < n" using i(1) by simp
      moreover have "a \<notin> ?R n" using d [of i n] False i Suc.prems by auto
      ultimately show ?thesis using u'(2) i(2) by (simp add: u''_def filled_def)
    qed (use i in \<open>simp add: u''_def\<close>)
  qed
  ultimately show ?case by blast
qed

lemma filled_ok: "filled rqs (length rqs) s \<Longrightarrow> list_all (block_ok rqs s) [0..<length rqs]"
  by (auto simp: filled_def block_ok_def memcheck_iff list_all_iff)

section \<open>test_mm against a memory manager\<close>

text \<open>What \<open>sys_malloc\<close> and \<open>sys_free\<close> promise a program: they are those of the memory manager.\<close>

locale mm_client = memory_manager malloc_impl free_impl live ok fits
  for malloc_impl :: "u64 \<Rightarrow> bool \<Rightarrow> 'h \<Rightarrow> u64 \<times> 'h" and free_impl :: "u64 \<Rightarrow> 'h \<Rightarrow> 'h option"
    and live :: "'h \<Rightarrow> payloads" and ok :: "'h \<Rightarrow> bool" and fits :: "u64 \<Rightarrow> bool" +
  fixes m :: "'w machine" and hp :: "'w \<Rightarrow> 'h"
  assumes sys_malloc: "ok (hp w) \<Longrightarrow> sys_call m (Sys_malloc n) (u, w) = (r, u', w') \<Longrightarrow>
      u' = u \<and> malloc_impl n False (hp w) = (fst r, hp w')"
    and sys_free: "ok (hp w) \<Longrightarrow> live (hp w) p \<noteq> None \<Longrightarrow> sys_call m (Sys_free p) (u, w) = (r, u', w') \<Longrightarrow>
      u' = u \<and> free_impl p (hp w) = Some (hp w')"
    and small_fits: "unat n < 2 ^ 32 \<Longrightarrow> fits n"
begin

text \<open>One successful round of the first loop.\<close>

lemma alloc_step:
  assumes "ok (hp w)" and "holds L0 rqs (live (hp w))"
    and "call m (Sys_malloc (ucast (sz :: u32))) (u, w) = (a, u', w')" and "fst a \<noteq> 0"
  shows "ok (hp w') \<and> holds L0 (rqs @ [\<lparr>rq_address = fst a, rq_size = sz\<rparr>]) (live (hp w'))"
proof -
  have ma: "malloc_impl (ucast sz) False (hp w) = (fst a, hp w')"
    using sys_malloc [OF assms(1)] assms(3) by (simp add: call_def)
  have "unat (ucast sz :: u64) < 2 ^ 32" using unsigned_less [of sz, where ?'a = nat] by simp
  then have "fits (ucast sz)" by (rule small_fits)
  then show ?thesis
    using malloc_live [OF assms(1) ma assms(4)] holds_snoc [OF assms(2) _ assms(4), of sz] by auto
qed

lemma alloc_failed:
  assumes "ok (hp w)" and "call m (Sys_malloc n) (u, w) = (a, u', w')" and "fst a = 0"
  shows "hp w' = hp w"
  using sys_malloc [OF assms(1), of n u a u' w'] malloc_null [OF assms(1), of n False "hp w'"] assms(2,3)
  by (simp add: call_def)

lemma alloc_blocks_holds:
  assumes "ok (hp w)" and "holds L0 rqs (live (hp w))"
    and "alloc_blocks m lim rqs used (u, w) = (rqs', u', w')"
  shows "ok (hp w') \<and> holds L0 rqs' (live (hp w'))"
  using assms
proof (induction "MAX_BLOCKS - length rqs" arbitrary: rqs used u w rule: less_induct)
  case less
  obtain x u1 where "GetUniform m (ucast (lim - ucast used - 1)) u = (x, u1)" by (rule prod.exhaust)
  then have un: "uniform m (ucast (lim - ucast used - 1)) (u, w) = (x, u1, w)"
    by (simp add: uniform_def)
  obtain a u2 w2 where c: "call m (Sys_malloc (ucast (x + 1))) (u1, w) = (a, u2, w2)"
    by (metis prod_cases3)
  show ?case
  proof (cases "length rqs < MAX_BLOCKS \<and> ucast used < lim")
    case False
    then show ?thesis using less.prems by (subst (asm) alloc_blocks.simps) auto
  next
    case go: True
    show ?thesis
    proof (cases "fst a = 0")
      case True
      then have "rqs' = rqs" "w' = w2"
        using less.prems(3) go by (subst (asm) alloc_blocks.simps, simp add: un c)+
      then show ?thesis using less.prems(1,2) alloc_failed [OF less.prems(1) c True] by simp
    next
      case False
      have "alloc_blocks m lim (rqs @ [\<lparr>rq_address = fst a, rq_size = x + 1\<rparr>]) (used + (x + 1)) (u2, w2)
          = (rqs', u', w')"
        using less.prems(3) go False by (subst (asm) alloc_blocks.simps) (simp add: un c Let_def)
      moreover have "MAX_BLOCKS - length (rqs @ [\<lparr>rq_address = fst a, rq_size = x + 1\<rparr>]) < MAX_BLOCKS - length rqs"
        using go by auto
      ultimately show ?thesis
        using less.hyps alloc_step [OF less.prems(1,2) c False] by blast
    qed
  qed
qed

lemma free_blocks:
  assumes "ok (hp w)" and "holds L0 rqs (live (hp w))" and "fold (free_block m) rqs (u, w) = (u', w')"
  shows "ok (hp w') \<and> live (hp w') = L0"
  using assms
proof (induction rqs arbitrary: u w)
  case (Cons r rqs)
  have r: "rq_address r \<noteq> 0" "live (hp w) (rq_address r) \<noteq> None"
    using Cons.prems(2) by (auto simp: holds_def)
  obtain a u1 w1 where c: "sys_call m (Sys_free (rq_address r)) (u, w) = (a, u1, w1)"
    by (metis prod_cases3)
  then have "free_impl (rq_address r) (hp w) = Some (hp w1)" using sys_free [OF Cons.prems(1) r(2)] by blast
  then have h: "ok (hp w1)" "live (hp w1) = (live (hp w))(rq_address r := None)"
    using free_live [OF Cons.prems(1) r(2)] by auto
  show ?case
  proof (rule Cons.IH [OF h(1)])
    show "holds L0 rqs (live (hp w1))" using holds_free [OF Cons.prems(2)] h(2) by simp
    show "fold (free_block m) rqs (u1, w1) = (u', w')"
    proof -
      have "free_block m r (u, w) = (u1, w1)" using r(1) by (simp add: free_block_def call0_def call_def c)
      then show ?thesis using Cons.prems(3) by simp
    qed
  qed
qed simp

lemma round_passes:
  assumes ok: "ok (hp w)"
  shows "\<exists>u' w'. mm_round m lim (u, w) = (True, u', w') \<and> ok (hp w') \<and> live (hp w') = live (hp w)"
proof -
  obtain rqs u1 w1 where al: "alloc_blocks m lim [] 0 (u, w) = (rqs, u1, w1)" by (rule prod_cases3)
  have h: "ok (hp w1)" "holds (live (hp w)) rqs (live (hp w1))"
    using alloc_blocks_holds [OF ok _ al, of "live (hp w)"] by simp_all
  have "\<exists>u2. fold (fill_block rqs) [0..<length rqs] (u1, w1) = (u2, w1) \<and> filled rqs (length rqs) (umem u2)"
  proof (rule fill_blocks)
    show "rq_address (rqs ! i) \<noteq> 0" if "i < length rqs" for i
      using h(2) that by (simp add: holds_def)
    show "region (rq_address (rqs ! i)) (unat (rq_size (rqs ! i))) \<inter>
        region (rq_address (rqs ! j)) (unat (rq_size (rqs ! j))) = {}"
      if "i < length rqs" "j < length rqs" "i \<noteq> j" for i j
      by (rule holds_disjoint [OF h(2) live_disjoint [OF h(1)] live_bounds [OF h(1)] that])
  qed simp
  then obtain u2 where f: "fold (fill_block rqs) [0..<length rqs] (u1, w1) = (u2, w1)"
    "list_all (block_ok rqs (umem u2)) [0..<length rqs]" using filled_ok by blast
  obtain u3 w3 where fr: "fold (free_block m) rqs (u2, w1) = (u3, w3)" by (rule prod.exhaust)
  have "mm_round m lim (u, w) = (True, u3, w3)"
    unfolding mm_round_def al Let_def prod.case f(1) fst_conv if_P [OF f(2)] fr ..
  then show ?thesis using free_blocks [OF h fr] by blast
qed

lemma loop_never_ends:
  assumes "ok (hp w)"
  shows "mm_loop m lim (u, w) = None"
proof (rule ccontr)
  assume "mm_loop m lim (u, w) \<noteq> None"
  then obtain y where y: "mm_loop m lim (u, w) = Some y" by blast
  have "m = m \<longrightarrow> \<not> ok (hp (snd (u, w)))"
  proof (rule mm_loop.raw_induct [OF _ y, where P = "\<lambda>m' lim s y. m' = m \<longrightarrow> \<not> ok (hp (snd s))"], intro impI notI)
    fix f m' lim' s y'
    assume IH: "\<And>m' lim s y. f m' lim s = Some y \<Longrightarrow> m' = m \<longrightarrow> \<not> ok (hp (snd s))"
      and step: "(let (good, s) = mm_round m' lim' s in if good then f m' lim' s else Some (- 1, s)) = Some y'"
      and m': "m' = m" and ok: "ok (hp (snd s))"
    obtain u w where s: "s = (u, w)" by (rule prod.exhaust)
    then obtain u' w' where r: "mm_round m lim' s = (True, u', w')" "ok (hp w')"
      using round_passes [of w lim' u] ok by auto
    then have "f m lim' (u', w') = Some y'" using step m' by simp
    then show False using IH r(2) by fastforce
  qed
  then show False using assms by simp
qed

end

text \<open>The sizes asked for are positive, and together they are not more than the bound that was given.\<close>

definition requested :: "mm_rq list \<Rightarrow> nat" where
  "requested rqs = sum_list (map (\<lambda>r. unat (rq_size r)) rqs)"

lemma alloc_size:
  assumes bits: "fpu_bits m = 53 \<or> fpu_bits m = 64" and lim: "unat lim < 2 ^ 32"
    and used: "ucast (used :: u32) < (lim :: u64)"
    and un: "GetUniform m (ucast (lim - ucast used - 1)) u = (x, u')"
  shows "unat (x + 1) = unat x + 1" "unat (used + (x + 1)) = unat used + unat (x + 1)"
    "unat used + unat (x + 1) \<le> unat lim"
proof -
  have "unat used < unat lim" using used by (simp add: word_less_nat_alt)
  moreover from this have "unat (lim - ucast used - 1) = unat lim - unat used - 1"
    by (simp add: unat_sub word_le_nat_alt)
  ultimately have y: "unat (ucast (lim - ucast used - 1) :: u32) = unat lim - unat used - 1"
    using lim by (simp add: unsigned_ucast_eq take_bit_nat_eq_self)
  have "unat x \<le> unat lim - unat used - 1"
    using GetUniform_range [OF bits un] y by (auto simp: word_less_nat_alt split: if_splits)
  then have x: "unat used + unat x + 1 \<le> unat lim" using \<open>unat used < unat lim\<close> by linarith
  then show s: "unat (x + 1) = unat x + 1" using lim by (simp add: unat_word_ariths)
  show "unat (used + (x + 1)) = unat used + unat (x + 1)"
    using x s lim by (simp only: unat_word_ariths(1) [of used]) simp
  show "unat used + unat (x + 1) \<le> unat lim" using x s by simp
qed

lemma alloc_blocks_bounded:
  assumes "fpu_bits m = 53 \<or> fpu_bits m = 64" and "unat lim < 2 ^ 32"
    and "unat used = requested rqs" and "requested rqs \<le> unat lim" and "0 \<notin> rq_size ` set rqs"
    and "alloc_blocks m lim rqs used (u, w) = (rqs', s')"
  shows "requested rqs' \<le> unat lim \<and> 0 \<notin> rq_size ` set rqs'"
  using assms(3-6)
proof (induction "MAX_BLOCKS - length rqs" arbitrary: rqs used u w rule: less_induct)
  case less
  obtain x u1 where gu: "GetUniform m (ucast (lim - ucast used - 1)) u = (x, u1)" by (rule prod.exhaust)
  then have un: "uniform m (ucast (lim - ucast used - 1)) (u, w) = (x, u1, w)"
    by (simp add: uniform_def)
  obtain a u2 w2 where c: "call m (Sys_malloc (ucast (x + 1))) (u1, w) = (a, u2, w2)"
    by (metis prod_cases3)
  show ?case
  proof (cases "length rqs < MAX_BLOCKS \<and> ucast used < lim \<and> fst a \<noteq> 0")
    case False
    then have "rqs' = rqs" using less.prems(4)
      by (subst (asm) alloc_blocks.simps) (auto simp: un c Let_def split: if_splits)
    then show ?thesis using less.prems by simp
  next
    case True
    let ?rqs = "rqs @ [\<lparr>rq_address = fst a, rq_size = x + 1\<rparr>]"
    note sz = alloc_size [OF assms(1,2) _ gu]
    have "alloc_blocks m lim ?rqs (used + (x + 1)) (u2, w2) = (rqs', s')"
      using less.prems(4) True by (subst (asm) alloc_blocks.simps) (simp add: un c Let_def)
    moreover have "MAX_BLOCKS - length ?rqs < MAX_BLOCKS - length rqs" using True by auto
    moreover have "requested ?rqs = requested rqs + unat (x + 1)" by (simp add: requested_def)
    moreover have "0 \<notin> rq_size ` set ?rqs" using less.prems(3) sz(1) True by auto
    ultimately show ?thesis
      using less.hyps sz(2,3) less.prems(1,2) True by metis
  qed
qed

section \<open>The two memory managers\<close>

text \<open>
  The machines: system calls go to the kernel, with the first-fit manager, while nobody else runs; or, for
  the build with the other manager, allocations go to the buddy system.
\<close>

definition kernel_machine :: "nat \<Rightarrow> kernel machine" where
  "kernel_machine p = \<lparr>sys_call = (\<lambda>c (u, k). let (r, out, k) = do_syscall c k
       in ((case r of None \<Rightarrow> 0 | Some v \<Rightarrow> v, out), u, k)),
     cpu_trap = (\<lambda>_ s. s), entry_of = (\<lambda>_. 0), fpu_bits = p\<rparr>"

fun buddy_call :: "syscall \<Rightarrow> buddy_heap \<Rightarrow> u64 \<times> buddy_heap" where
  "buddy_call (Sys_malloc n) h = bd_malloc_impl n False h"
| "buddy_call (Sys_free p) h = (0, case bd_free p h of None \<Rightarrow> h | Some h' \<Rightarrow> h')"
| "buddy_call _ h = (0, h)"

definition buddy_machine :: "nat \<Rightarrow> buddy_heap machine" where
  "buddy_machine p = \<lparr>sys_call = (\<lambda>c (u, h). let (r, h) = buddy_call c h in ((r, No_Output), u, h)),
     cpu_trap = (\<lambda>_ s. s), entry_of = (\<lambda>_. 0), fpu_bits = p\<rparr>"

interpretation ff_prog: mm_client ff_malloc_impl ff_free ff_live "ff_ok a e" ff_fits "kernel_machine p" heap
  for a e p
  by unfold_locales
    (auto simp: kernel_machine_def do_syscall.simps ret_defs mm_malloc_def mm_free_def ff_fits_def
      split: prod.splits option.splits dest: ff.free_live)

interpretation bd_prog: mm_client bd_malloc_impl bd_free bd_live bd_ok bd_fits "buddy_machine p" "\<lambda>h. h"
  for p
  by unfold_locales
    (auto simp: buddy_machine_def bd_fits_def split: prod.splits option.splits dest: bd.free_live)

lemma test_mm_runs:
  "is_valid_uint a \<Longrightarrow> satoi a \<noteq> 0 \<Longrightarrow> test_mm_internal m 1 [a] s = mm_loop m (satoi a) s"
  by (simp add: test_mm_internal_def)

text \<open>
  C15: With a positive number as its argument, \<open>test_mm\<close> never reports an error: in every round each block
  holds what was written to it, the round gives all memory back, and the test goes on for ever; so it is
  with the first-fit manager, from every well-formed heap, and with the buddy system. The blocks of a
  round are not empty and together not larger than the bound (for bounds below 4 GB; \<open>total\<close> has 32 bits).
\<close>

theorem test_mm_never_fails:
  assumes arg: "is_valid_uint a" "satoi a \<noteq> 0"
  shows "(ff_ok b e (heap k) \<longrightarrow> test_mm_internal (kernel_machine p) 1 [a] (u, k) = None \<and>
      (\<exists>u' k'. mm_round (kernel_machine p) (satoi a) (u, k) = (True, u', k') \<and>
         ff_ok b e (heap k') \<and> ff_live (heap k') = ff_live (heap k))) \<and>
    (bd_ok h \<longrightarrow> test_mm_internal (buddy_machine p) 1 [a] (u, h) = None \<and>
      (\<exists>u' h'. mm_round (buddy_machine p) (satoi a) (u, h) = (True, u', h') \<and>
         bd_ok h' \<and> bd_live h' = bd_live h)) \<and>
    (unat (satoi a) < 2 ^ 32 \<longrightarrow> fpu_bits m = 53 \<or> fpu_bits m = 64 \<longrightarrow>
      alloc_blocks m (satoi a) [] 0 (v, w) = (rqs, s) \<longrightarrow>
      requested rqs \<le> unat (satoi a) \<and> 0 \<notin> rq_size ` set rqs)"
proof (intro conjI impI)
  show "test_mm_internal (kernel_machine p) 1 [a] (u, k) = None" if "ff_ok b e (heap k)"
    unfolding test_mm_runs [OF arg] by (rule ff_prog.loop_never_ends [OF that])
  show "\<exists>u' k'. mm_round (kernel_machine p) (satoi a) (u, k) = (True, u', k') \<and>
      ff_ok b e (heap k') \<and> ff_live (heap k') = ff_live (heap k)" if "ff_ok b e (heap k)"
    by (rule ff_prog.round_passes [OF that])
  show "test_mm_internal (buddy_machine p) 1 [a] (u, h) = None" if "bd_ok h"
    unfolding test_mm_runs [OF arg] by (rule bd_prog.loop_never_ends [OF that])
  show "\<exists>u' h'. mm_round (buddy_machine p) (satoi a) (u, h) = (True, u', h') \<and>
      bd_ok h' \<and> bd_live h' = bd_live h" if "bd_ok h"
    by (rule bd_prog.round_passes [OF that])
  show "requested rqs \<le> unat (satoi a)" "0 \<notin> rq_size ` set rqs"
    if "unat (satoi a) < 2 ^ 32" "fpu_bits m = 53 \<or> fpu_bits m = 64"
      "alloc_blocks m (satoi a) [] 0 (v, w) = (rqs, s)"
    using alloc_blocks_bounded [OF that(2,1) _ _ _ that(3)] by (simp_all add: requested_def)
qed

theorem test_mm_never_fails_witness:
  "test_mm_internal (kernel_machine 64) 1 [Some ''4096''] (user0, snd (boot demo_video 0 0 (\<lambda>_. 0))) = None \<and>
   test_mm_internal (buddy_machine 53) 1 [Some ''100000''] (user0, boot_buddy) = None"
proof
  let ?k = "snd (boot demo_video 0 0 (\<lambda>_. 0))"
  have ok: "ff_ok 0x600000 0xE00000 (heap ?k)"
    using heap.J_reachable [OF reachable.booted] by (simp add: heap_ok_def)
  have a: "is_valid_uint (Some ''4096'')" "satoi (Some ''4096'') \<noteq> 0"
    "is_valid_uint (Some ''100000'')" "satoi (Some ''100000'') \<noteq> 0"
    by (simp_all add: is_valid_uint_def satoi_def)
  show "test_mm_internal (kernel_machine 64) 1 [Some ''4096''] (user0, ?k) = None"
    by (rule conjunct1 [OF mp [OF conjunct1 [OF test_mm_never_fails [OF a(1,2)]] ok]])
  show "test_mm_internal (buddy_machine 53) 1 [Some ''100000''] (user0, boot_buddy) = None"
    by (rule conjunct1 [OF mp [OF conjunct1 [OF conjunct2 [OF test_mm_never_fails [OF a(3,4)]]] boot_buddy_ok(1)]])
qed

end
