(* ===== verification/Shell_Run.thy ===== *)
theory Shell_Run
  imports Commands
begin

text \<open>
  The loop of the shell (\<open>shell_run\<close> of \<open>shell.c\<close>, \<open>sh.c\<close>) and the command \<open>help\<close> (\<open>help.c\<close>).
  The shell never ends by itself: each run of the loop is a value of \<open>None\<close>.
\<close>

definition help_text :: "string list" where
  "help_text =
     [''Comandos disponibles: \<newline>'',
      ''help                      ->   muestra la lista de comandos.\<newline>'',
      ''clear                     ->   limpia la pantalla. (built-in) \<newline>'',
      ''+                         ->   aumenta tamano de fuente (atajo de teclado).\<newline>'',
      ''-                         ->   disminuye tamano de fuente (atajo de teclado).\<newline>'',
      ''printTime                 ->   imprime la hora actual. (built-in) \<newline>'',
      ''printDate                 ->   imprime la fecha actual. (built-in) \<newline>'',
      ''registers                 ->   imprime registros. (built-in) \<newline>'',
      ''testDiv0                  ->   division por cero. (built-in) \<newline>'',
      ''invOp                     ->   instruccion invalida. (built-in) \<newline>'',
      ''playBeep                  ->   reproduce un beep. (built-in) \<newline>'',
      ''test_mm <max> [&]         ->   test de memory manager. (foreground/background)\<newline>'',
      ''test_processes <max> [&]  ->   test de procesos. (foreground/background)\<newline>'',
      ''test_prio <target> [&]    ->   test de prioridades. (foreground/background)\<newline>'',
      ''test_sync <n> <sem> [&]   ->   test de sincronizacion. (foreground/background)\<newline>'',
      ''mem                       ->   muestra estado de la memoria.\<newline>'',
      ''kill <pid>                ->   termina el proceso indicado.\<newline>'',
      ''nice <pid> <prio>         ->   cambia prioridad (1-5).\<newline>'',
      ''block <pid>               ->   alterna estado BLOCKED/READY.\<newline>'',
      ''loop                      ->   imprime PID periodicamente.\<newline>'',
      ''sh                        ->   nueva shell.\<newline>'',
      ''cat                       ->   copia stdin a stdout.\<newline>'',
      ''wc                        ->   cuenta lineas, palabras y bytes de stdin. CTRL + D para finalizar.\<newline>'',
      ''mvar <esc> <lec>          ->   MVar: escritores/lectores sincronizados.\<newline>'',
      ''filter                    ->   filtra vocales del stdin.\<newline>'',
      ''ps                        ->   lista de procesos activos.\<newline>'']"

definition help_cmd :: "'w machine \<Rightarrow> user \<times> 'w \<Rightarrow> int \<times> user \<times> 'w" where
  "help_cmd m s = (0, fold (say m) help_text s)"

partial_function (option) shell_loop ::
    "'w machine \<Rightarrow> (string \<Rightarrow> user \<times> 'w \<Rightarrow> user \<times> 'w) \<Rightarrow> (nat \<Rightarrow> process_info) \<Rightarrow> user \<times> 'w
     \<Rightarrow> (user \<times> 'w) option" where
  "shell_loop m tests buf s = Option.bind (shell_round m tests buf s) (shell_loop m tests buf)"

definition shell_run ::
    "'w machine \<Rightarrow> (string \<Rightarrow> user \<times> 'w \<Rightarrow> user \<times> 'w) \<Rightarrow> (nat \<Rightarrow> process_info) \<Rightarrow> user \<times> 'w
     \<Rightarrow> (user \<times> 'w) option" where
  "shell_run m tests buf s =
     (let s = shellNewline m (say m ''Bienvenido al MASS OS!\<newline>'' s)
      in shell_loop m tests buf (say m ''Escriba 'help' para listar comandos.\<newline>'' s))"

definition sh_entry ::
    "'w machine \<Rightarrow> (string \<Rightarrow> user \<times> 'w \<Rightarrow> user \<times> 'w) \<Rightarrow> (nat \<Rightarrow> process_info) \<Rightarrow> user \<times> 'w
     \<Rightarrow> (int \<times> user \<times> 'w) option" where
  "sh_entry m tests buf s = map_option (Pair 0) (shell_run m tests buf s)"

lemma shell_never_ends: "shell_run m tests buf s = None"
proof -
  have "shell_loop m tests buf s = None" for s
  proof (rule ccontr)
    assume "shell_loop m tests buf s \<noteq> None"
    then obtain y where y: "shell_loop m tests buf s = Some y" by blast
    show False
      by (rule shell_loop.raw_induct [OF _ y, where P = "\<lambda>_ _ _ _ _. False"])
        (auto split: Option.bind_splits)
  qed
  then show ?thesis by (simp add: shell_run_def Let_def)
qed

end
