(* ===== verification/Programs.thy ===== *)
theory Programs
  imports Tests Shell_Run
begin

text \<open>
  The programs a process can run: the registry of \<open>syscall.c\<close> with the functions behind its names, and
  \<open>process_trampoline\<close> of \<open>Kernel/c/process/process.c\<close>, in which every process starts and ends.
\<close>

type_synonym 'w program = "int \<Rightarrow> argv \<Rightarrow> user \<times> 'w \<Rightarrow> (user \<times> 'w) option"

text \<open>
  What the entry point returns is dropped. \<open>tests\<close> and \<open>buf\<close> are the parameters of the shell, for the
  entry \<open>sh\<close>, and the static buffer of \<open>test_prio\<close>.
\<close>

definition programs ::
    "'w machine \<Rightarrow> (string \<Rightarrow> user \<times> 'w \<Rightarrow> user \<times> 'w) \<Rightarrow> (nat \<Rightarrow> process_info) \<Rightarrow> (string \<times> 'w program) list" where
  "programs m tests buf =
     [(''endless_loop'', \<lambda>ac av s. endless_loop s),
      (''endless_loop_print'', \<lambda>ac av s. endless_loop_print m ac av s),
      (''loop'', \<lambda>ac av s. endless_loop_print m ac av s),
      (''zero_to_max'', \<lambda>ac av s. Some (zero_to_max m buf s)),
      (''my_process_inc'', \<lambda>ac av s. Some (snd (my_process_inc m ac av s))),
      (''test_mm'', \<lambda>ac av s. map_option snd (test_mm_entry m ac av s)),
      (''test_processes'', \<lambda>ac av s. map_option snd (test_processes_entry m ac av s)),
      (''test_prio'', \<lambda>ac av s. Some (snd (test_prio_entry m ac av s))),
      (''test_sync'', \<lambda>ac av s. Some (snd (test_sync_entry m ac av s))),
      (''mem'', \<lambda>ac av s. Some (snd (mem m s))),
      (''kill'', \<lambda>ac av s. Some (snd (kill_cmd m ac av s))),
      (''nice'', \<lambda>ac av s. Some (snd (nice_cmd m ac av s))),
      (''block'', \<lambda>ac av s. Some (snd (block_cmd m ac av s))),
      (''sh'', \<lambda>ac av s. map_option snd (sh_entry m tests buf s)),
      (''cat'', \<lambda>ac av s. map_option snd (cat m s)),
      (''wc'', \<lambda>ac av s. map_option snd (wc m s)),
      (''mvar'', \<lambda>ac av s. Some (snd (mvar m ac av s))),
      (''mvar_writer'', \<lambda>ac av s. mvar_writer m ac av s),
      (''mvar_reader'', \<lambda>ac av s. mvar_reader m ac av s),
      (''filter'', \<lambda>ac av s. map_option snd (filter_cmd m s)),
      (''help'', \<lambda>ac av s. Some (snd (help_cmd m s)))]"

definition process_trampoline :: "'w machine \<Rightarrow> 'w program option \<Rightarrow> int \<Rightarrow> argv \<Rightarrow> user \<times> 'w \<Rightarrow> (user \<times> 'w) option" where
  "process_trampoline m ent ac av s =
     map_option (call0 m (Sys_exit 0)) (case ent of None \<Rightarrow> Some s | Some f \<Rightarrow> f ac av s)"

lemma programs_registry: "map fst (programs m tests buf) = registry"
  unfolding programs_def registry_def list.map fst_conv by (rule refl)

lemma endless_loop_never_ends: "endless_loop s = None"
proof (rule ccontr)
  assume "endless_loop s \<noteq> None"
  then obtain y where y: "endless_loop s = Some y" by blast
  show False by (rule endless_loop.raw_induct [OF _ y, where P = "\<lambda>_ _. False"]) auto
qed

lemma programs_lookup:
  "map_of (programs m tests buf) ''endless_loop'' = Some (\<lambda>ac av s. endless_loop s)"
  "map_of (programs m tests buf) ''sh'' = Some (\<lambda>ac av s. map_option snd (sh_entry m tests buf s))"
  unfolding programs_def by simp_all

text \<open>A process in \<open>endless_loop\<close> or in the shell never reaches the exit of the trampoline.\<close>

lemma trampoline_never_exits:
  "process_trampoline m (map_of (programs m tests buf) ''endless_loop'') ac av s = None"
  "process_trampoline m (map_of (programs m tests buf) ''sh'') ac av s = None"
  unfolding programs_lookup process_trampoline_def option.case
  by (simp_all add: endless_loop_never_ends sh_entry_def shell_never_ends)

end
