(* ===== verification/Props_Scheduler.thy ===== *)
theory Props_Scheduler
  imports Demo
begin

text \<open>
  The properties of the scheduler: the run queue refines an ordered list, the choice of the
  next process is the round robin among those of maximal effective priority, and what a timer
  tick does.
\<close>

section \<open>The run queue\<close>

text \<open>
  C5: \<open>scheduler_add\<close> refines the stable insertion into a list in descending order of priority:
  the queue stays ordered, processes of equal priority keep their order of arrival, and the
  round-robin cursor stays on the process it was on. A full queue and the idle process are
  left alone.
\<close>

theorem scheduler_add_refines:
  assumes "descending (prio_of k) (rq k)" and "queue_idx k < queue_size k"
  shows "rq (scheduler_add p k) =
      (if queue_size k < MAX_PROCESSES \<and> Some p \<noteq> idle_pcb k
       then takeWhile (\<lambda>q. prio_of k p \<le> prio_of k q) (rq k) @ [p] @
            dropWhile (\<lambda>q. prio_of k p \<le> prio_of k q) (rq k)
       else rq k) \<and>
    descending (prio_of (scheduler_add p k)) (rq (scheduler_add p k)) \<and>
    run_queue (scheduler_add p k) (queue_idx (scheduler_add p k)) = run_queue k (queue_idx k)"
  using assms descending_insert_desc [OF assms(1)] at_cursor_add [OF assms(2)]
  by (auto simp: abs_simps insert_desc_def at_cursor_def)

theorem scheduler_add_refines_witness:
  "rq (scheduler_add 5 demo) = [2, 1, 5]"
  using scheduler_add_refines [of demo 5] by (simp add: rq_demo demo_pcbs)

text \<open>
  C6: \<open>scheduler_remove\<close> removes the process from the run queue and nothing else, keeps the
  order, and leaves the round-robin cursor on the process it was on unless that is the one
  removed.
\<close>

theorem scheduler_remove_refines:
  assumes "descending (prio_of k) (rq k)" and "queue_idx k < queue_size k"
  shows "rq (scheduler_remove p k) = remove1 p (rq k) \<and>
    descending (prio_of (scheduler_remove p k)) (rq (scheduler_remove p k)) \<and>
    (run_queue k (queue_idx k) = p \<or>
     run_queue (scheduler_remove p k) (queue_idx (scheduler_remove p k)) = run_queue k (queue_idx k))"
  using assms descending_remove1 [OF assms(1)] at_cursor_remove [OF assms(2), of p]
  by (auto simp: abs_simps at_cursor_def)

theorem scheduler_remove_refines_witness:
  "rq (scheduler_remove 2 demo) = [1]"
  using scheduler_remove_refines [of demo 2] by (simp add: rq_demo demo_pcbs)

section \<open>The choice\<close>

text \<open>
  C4: What \<open>scheduler_next_ready\<close> returns. Let the effective priority be priority plus one for the
  foreground plus the aging bonus. If some process in the queue is READY, the result is READY
  and of maximal effective priority; it is in the foreground if any such process is; and
  among the candidates it is the first behind the cursor in cyclic order, to which the cursor
  moves. If none is READY the result is the idle process and nothing changes.
\<close>

theorem scheduler_next_ready_picks:
  assumes "cursor_ok k"
  defines "cand \<equiv> filter (\<lambda>c. ready k c \<and>
      (\<forall>d\<in>set (rq k). ready k d \<longrightarrow> eff (proc k d) \<le> eff (proc k c))) (rotate (Suc (queue_idx k)) (rq k))"
  shows "if \<exists>c\<in>set (rq k). ready k c
    then (case find (\<lambda>c. foreground (proc k c) \<noteq> 0) cand of
            Some c \<Rightarrow> fst (scheduler_next_ready k) = Some c
          | None \<Rightarrow> cand \<noteq> [] \<and> fst (scheduler_next_ready k) = Some (hd cand)) \<and>
         (\<exists>j. snd (scheduler_next_ready k) = k\<lparr>queue_idx := j\<rparr> \<and>
              (fst (scheduler_next_ready k) = idle_pcb k \<or>
               fst (scheduler_next_ready k) = Some (run_queue k j)))
    else scheduler_next_ready k = (idle_pcb k, k)"
proof (cases "\<exists>c\<in>set (rq k). ready k c")
  case False
  then show ?thesis using scheduler_next_ready_idle by auto
next
  case True
  have "cand = filter (\<lambda>c. c \<in> set (best k)) (rr_order k)"
    unfolding cand_def rr_order_def by (rule filter_cong) (auto simp: in_best)
  also have "\<dots> = best k" unfolding best_def by (rule filter_cong) auto
  finally have c: "cand = best k" .
  obtain j where j: "scheduler_next_ready k = (pick k, k\<lparr>queue_idx := j\<rparr>)"
    "pick k \<noteq> idle_pcb k \<longrightarrow> pick k = Some (run_queue k j)"
    using scheduler_next_ready_pick [OF assms(1)] by blast
  have "best k \<noteq> []" using True by (simp add: best_Nil)
  then show ?thesis using True j unfolding c by (auto simp: pick_def split: option.split)
qed

theorem scheduler_next_ready_picks_witness:
  "fst (scheduler_next_ready demo) = Some 2"
  using scheduler_next_ready_picks [of demo]
  by (simp add: rq_demo cursor_ok_def demo_pcbs eff_def aging_bonus_def rotate1_def)

text \<open>
  The aging bonus does not save every process: while a foreground process of priority 5
  is READY in the queue, a background process of priority at most 2 is never chosen, however
  long it has waited. (The comment over \<open>scheduler_next_ready\<close> promises that it eventually
  competes.)
\<close>

lemma background_starves:
  assumes "cursor_ok k"
    and "f \<in> set (rq k)" and "ready k f" and "foreground (proc k f) \<noteq> 0" and "priority (proc k f) = 5"
    and "foreground (proc k b) = 0" and "priority (proc k b) \<le> 2"
  shows "fst (scheduler_next_ready k) \<noteq> Some b"
proof
  assume b: "fst (scheduler_next_ready k) = Some b"
  obtain j where j: "scheduler_next_ready k = (pick k, k\<lparr>queue_idx := j\<rparr>)"
    using scheduler_next_ready_pick [OF assms(1)] by blast
  have ne: "best k \<noteq> []" using assms(2,3) by (auto simp: best_Nil)
  from b j have p: "pick k = Some b" by simp
  have bf: "b \<in> set (best k)"
    using p ne hd_in_set [OF ne] by (auto simp: pick_def find_Some_iff split: option.splits)
  have eb: "eff (proc k b) \<le> 6"
    using assms(6,7) aging_bonus_bounds [of "proc k b"] by (simp add: eff_def word_le_def)
  have ef: "6 \<le> eff (proc k f)"
    using assms(4,5) aging_bonus_bounds [of "proc k f"] by (simp add: eff_def)
  have le: "eff (proc k f) \<le> eff (proc k b)" using bf assms(2,3) by (simp add: in_best)
  then have "f \<in> set (best k)" using bf ef eb assms(2,3) by (fastforce simp: in_best)
  then have "find (\<lambda>c. foreground (proc k c) \<noteq> 0) (best k) \<noteq> None"
    using assms(4) by (auto simp: find_None_iff)
  then obtain c where "find (\<lambda>c. foreground (proc k c) \<noteq> 0) (best k) = Some c" by auto
  moreover from this have "foreground (proc k c) \<noteq> 0" by (auto simp: find_Some_iff)
  ultimately show False using p ne assms(6) by (auto simp: pick_def)
qed

section \<open>The timer tick\<close>

text \<open>
  The aging loop of a tick adds one to \<open>wait_ticks\<close> of every process in the run queue that is
  READY and not the current one, exactly once, and changes nothing else in the process table.
\<close>

lemma age_waiting_correct:
  assumes "distinct (rq k)"
  shows "proc (age_waiting k) i =
    (if i \<in> set (rq k) \<and> current_process k \<noteq> Some i \<and> ready k i
     then (proc k i)\<lparr>wait_ticks := wait_ticks (proc k i) + 1\<rparr> else proc k i)"
proof -
  let ?f = "\<lambda>i k. let p = run_queue k i in if Some p \<noteq> current_process k \<and> pstate (proc k p) = PROCESS_READY
                    then upd_proc p (\<lambda>q. q\<lparr>wait_ticks := wait_ticks q + 1\<rparr>) k else k"
  have frame: "run_queue (fold ?f l k) = run_queue k \<and> current_process (fold ?f l k) = current_process k" for l k
    by (induction l arbitrary: k) (simp_all add: Let_def)
  have "proc (fold ?f [0..<n] k) i =
      (if i \<in> set (cells n (run_queue k)) \<and> current_process k \<noteq> Some i \<and> ready k i
       then (proc k i)\<lparr>wait_ticks := wait_ticks (proc k i) + 1\<rparr> else proc k i)"
    if "distinct (cells n (run_queue k))" for n
    using that
  proof (induction n arbitrary: i)
    case (Suc n)
    then have d: "distinct (cells n (run_queue k))" "run_queue k n \<notin> set (cells n (run_queue k))"
      by (simp_all add: cells_Suc)
    show ?case
      using frame [of "[0..<n]" k] d Suc.IH [OF d(1)]
      by (auto simp: Let_def cells_Suc)
  qed simp
  with assms show ?thesis by (simp add: age_waiting_def rq_def)
qed

text \<open>The state in which a tick looks for the next process: the quantum of the current one is over.\<close>

definition preempted :: "u64 \<Rightarrow> nat \<Rightarrow> kernel \<Rightarrow> kernel" where
  "preempted sp c k =
     upd_proc c (\<lambda>p. p\<lparr>rsp := sp, pstate := PROCESS_READY, remaining_quanta := priority p\<rparr>)
       (age_waiting (timer_handler k))"

lemma upd_proc_upd_proc: "upd_proc i f (upd_proc i g k) = upd_proc i (\<lambda>p. f (g p)) k"
  by (simp add: upd_proc_def)

lemma upd_proc_cong: "f (proc k i) = g (proc k i) \<Longrightarrow> upd_proc i f k = upd_proc i g k"
  by (simp add: upd_proc_def)

lemma quantum_cases:
  fixes r :: u8
  shows "\<not> 1 < r \<Longrightarrow> r = 0 \<or> r - 1 = 0" and "1 < r \<Longrightarrow> 0 < r \<and> 0 < r - 1"
proof -
  show "r = 0 \<or> r - 1 = 0" if "\<not> 1 < r"
  proof -
    have "unat r = 0 \<or> unat r = 1" using that by (simp add: word_less_nat_alt) arith
    then have "r = 0 \<or> r = 1" by (simp add: word_unat_eq_iff)
    then show ?thesis by auto
  qed
  show "0 < r \<and> 0 < r - 1" if "1 < r"
  proof -
    have "r \<noteq> 0" "r \<noteq> 1" using that by auto
    then show ?thesis by (simp add: word_gt_0)
  qed
qed

lemma tick_keeps:
  assumes "current_process k = Some c" and "pstate (proc k c) = PROCESS_RUNNING"
    and "remaining_quanta (proc k c) > 1"
  shows "scheduler_tick sp k = (sp, upd_proc c (\<lambda>p. p\<lparr>rsp := sp, remaining_quanta := remaining_quanta p - 1\<rparr>)
        (age_waiting (timer_handler k)))"
  using assms quantum_cases(2) [OF assms(3)]
  by (simp add: scheduler_tick_def process_current_def timer_handler_def Let_def upd_proc_upd_proc)

lemma tick_preempts:
  assumes "current_process k = Some c" and "pstate (proc k c) = PROCESS_RUNNING"
    and "\<not> remaining_quanta (proc k c) > 1"
    and "scheduler_next_ready (preempted sp c k) = (Some n, k1)"
  shows "scheduler_tick sp k = dispatch n (scheduler_reap (Some c) k1)"
proof (cases "remaining_quanta (proc k c) = 0")
  case True
  then show ?thesis
    using assms
    by (simp add: scheduler_tick_def process_current_def timer_handler_def Let_def upd_proc_upd_proc preempted_def)
next
  case False
  then have "remaining_quanta (proc k c) - 1 = 0" using quantum_cases(1) [OF assms(3)] by simp
  with False show ?thesis
    using assms
    by (simp add: scheduler_tick_def process_current_def timer_handler_def Let_def upd_proc_upd_proc preempted_def
        word_neq_0_conv)
qed

text \<open>
  C7: Time slices. While the running process has quanta left, a tick only counts one off and the
  process goes on. The tick that uses up the last one puts it back to READY with a fresh
  quantum of as many ticks as its priority, and hands the CPU to the process that
  \<open>scheduler_next_ready\<close> chooses (perhaps the same): that one is RUNNING, is the current process,
  continues with its own saved stack, and its waiting time is reset.
\<close>

theorem scheduler_tick_quantum:
  assumes "kernel_inv k" and "current_process k = Some c" and "pstate (proc k c) = PROCESS_RUNNING"
  shows "if remaining_quanta (proc k c) > 1
    then fst (scheduler_tick sp k) = sp \<and> current_process (snd (scheduler_tick sp k)) = Some c \<and>
         pstate (proc (snd (scheduler_tick sp k)) c) = PROCESS_RUNNING \<and>
         remaining_quanta (proc (snd (scheduler_tick sp k)) c) = remaining_quanta (proc k c) - 1
    else (\<exists>n. fst (scheduler_next_ready (preempted sp c k)) = Some n \<and>
         fst (scheduler_tick sp k) = rsp (proc (preempted sp c k) n) \<and>
         current_process (snd (scheduler_tick sp k)) = Some n \<and>
         pstate (proc (snd (scheduler_tick sp k)) n) = PROCESS_RUNNING \<and>
         wait_ticks (proc (snd (scheduler_tick sp k)) n) = 0 \<and>
         remaining_quanta (proc (snd (scheduler_tick sp k)) c) = priority (proc k c) \<and>
         (n \<noteq> c \<longrightarrow> pstate (proc (snd (scheduler_tick sp k)) c) = PROCESS_READY))"
proof (cases "remaining_quanta (proc k c) > 1")
  case True
  then show ?thesis using assms(2,3) by (simp add: tick_keeps timer_handler_def)
next
  case False
  let ?p = "preempted sp c k"
  have "quiet k (age_waiting (timer_handler k))"
    by (rule age_waiting_quiet, rule quiet_I) (simp_all add: timer_handler_def)
  moreover have "quiet (age_waiting (timer_handler k)) ?p"
    unfolding preempted_def using assms(3) by (intro quiet_ready) (simp_all add: timer_handler_def)
  ultimately have "quiet k ?p" by (rule quiet_trans)
  moreover have "sys_inv {} k" using assms(1) by (simp add: kernel_inv_def)
  ultimately have "sys_inv {} ?p" by (metis quiet_inv)
  then obtain n j where n: "scheduler_next_ready ?p = (Some n, ?p\<lparr>queue_idx := j\<rparr>)"
    by (rule inv_next_ready)
  note t = tick_preempts [OF assms(2,3) False n]
  have c: "remaining_quanta (proc ?p c) = priority (proc k c)" "pstate (proc ?p c) = PROCESS_READY"
    by (simp_all add: preempted_def timer_handler_def)
  have reap: "scheduler_reap (Some c) (?p\<lparr>queue_idx := j\<rparr>) = ?p\<lparr>queue_idx := j\<rparr>"
    using c(2) by (simp add: scheduler_reap_def)
  have d: "fst (dispatch n k') = rsp (proc k' n)" "current_process (snd (dispatch n k')) = Some n"
    "pstate (proc (snd (dispatch n k')) n) = PROCESS_RUNNING" "wait_ticks (proc (snd (dispatch n k')) n) = 0"
    "remaining_quanta (proc (snd (dispatch n k')) c) = remaining_quanta (proc k' c)"
    "n \<noteq> c \<Longrightarrow> pstate (proc (snd (dispatch n k')) c) = pstate (proc k' c)" for k'
    by (simp_all add: dispatch_def Let_def process_set_current_def)
  have q: "proc (?p\<lparr>queue_idx := j\<rparr>) i = proc ?p i" for i by simp
  show ?thesis
    unfolding t reap if_not_P [OF False]
  proof (intro exI [where x = n] conjI impI)
    show "fst (scheduler_next_ready ?p) = Some n" by (simp only: n fst_conv)
    show "pstate (proc (snd (dispatch n (?p\<lparr>queue_idx := j\<rparr>))) c) = PROCESS_READY" if "n \<noteq> c"
      unfolding d(6) [OF that] q by (rule c(2))
    show "remaining_quanta (proc (snd (dispatch n (?p\<lparr>queue_idx := j\<rparr>))) c) = priority (proc k c)"
      unfolding d(5) q by (rule c(1))
    show "fst (dispatch n (?p\<lparr>queue_idx := j\<rparr>)) = rsp (proc ?p n)" unfolding d(1) q ..
  qed (rule d)+
qed

theorem scheduler_tick_quantum_witness:
  "remaining_quanta (proc (snd (scheduler_tick 0x700000 demo)) 1) = 2"
  using scheduler_tick_quantum [OF demo_inv, of 1 "0x700000"] by (simp add: demo_pcbs)

end
