(* ===== verification/Round_Robin.thy ===== *)
theory Round_Robin
  imports Props_Scheduler
begin

text \<open>
  A bound on the wait for the CPU: the round robin of \<open>scheduler_next_ready\<close> among the best processes of the
  foreground. The place of a process behind the cursor, and what it is to be among the best:
\<close>

definition behind :: "kernel \<Rightarrow> nat \<Rightarrow> nat \<Rightarrow> bool" where
  "behind k f n \<longleftrightarrow> n < queue_size k \<and> rr_order k ! n = f"

definition fg_best :: "kernel \<Rightarrow> nat \<Rightarrow> bool" where
  "fg_best k f \<longleftrightarrow> f \<in> set (rq k) \<and> ready k f \<and> foreground (proc k f) \<noteq> 0 \<and>
     (\<forall>d \<in> set (rq k). ready k d \<longrightarrow> eff (proc k d) \<le> eff (proc k f))"

text \<open>With the full bonus, a foreground process of priority 5 is among the best whatever the others do.\<close>

lemma aged_best:
  assumes "f \<in> set (rq k)" and "ready k f" and "foreground (proc k f) \<noteq> 0"
    and "priority (proc k f) = 5" and "aging_bonus (proc k f) = 4"
    and "\<And>d. d \<in> set (rq k) \<Longrightarrow> priority (proc k d) \<le> 5"
  shows "fg_best k f"
proof -
  have "eff (proc k d) \<le> 10" if "d \<in> set (rq k)" for d
    using assms(6) [OF that] aging_bonus_bounds(2) [of "proc k d"] by (simp add: eff_def word_le_def)
  then show ?thesis using assms by (simp add: fg_best_def eff_def)
qed

lemma behind_exists: "f \<in> set (rq k) \<Longrightarrow> \<exists>n. behind k f n"
  by (metis behind_def in_set_conv_nth length_rotate length_rq rr_order_def set_rr_order)

lemma fg_best_find:
  assumes "fg_best k f" and n: "behind k f n"
  shows "\<exists>m c. find (\<lambda>c. foreground (proc k c) \<noteq> 0) (best k) = Some c \<and> behind k c m \<and> m \<le> n"
proof -
  let ?Q = "\<lambda>c. (ready k c \<and> eff (proc k c) = Max (ready_effs k)) \<and> foreground (proc k c) \<noteq> 0"
  have "f \<in> set (best k)" using assms(1) by (simp add: in_best fg_best_def)
  then have f: "?Q f" using assms(1) by (simp add: best_def fg_best_def)
  have len: "length (rr_order k) = queue_size k" by (simp add: rr_order_def)
  have eq: "find (\<lambda>c. foreground (proc k c) \<noteq> 0) (best k) = find ?Q (rr_order k)"
    by (simp add: best_def find_filter)
  have "f \<in> set (rr_order k)" using assms(1) by (simp add: fg_best_def)
  then have "find ?Q (rr_order k) \<noteq> None" using f unfolding find_None_iff by blast
  then obtain c where c: "find ?Q (rr_order k) = Some c" by blast
  then obtain m where m: "m < queue_size k" "c = rr_order k ! m" "\<forall>j<m. \<not> ?Q (rr_order k ! j)"
    unfolding find_Some_iff len by blast
  have "m \<le> n" using m(3) f n by (metis behind_def not_le)
  then show ?thesis using c m(1,2) eq by (auto simp: behind_def)
qed

text \<open>When another one is chosen, the process comes nearer to the cursor.\<close>

lemma passed_over:
  assumes cur: "cursor_ok k" and d: "distinct (rq k)" and idle: "idle_pcb k \<notin> Some ` set (rq k)"
    and b: "fg_best k f" and n: "behind k f n" and no: "fst (scheduler_next_ready k) \<noteq> Some f"
    and k': "rq k' = rq k" "queue_idx k' = queue_idx (snd (scheduler_next_ready k))"
  shows "\<exists>n' < n. behind k' f n'"
proof -
  let ?s = "queue_size k"
  obtain m c where c: "find (\<lambda>c. foreground (proc k c) \<noteq> 0) (best k) = Some c" "behind k c m" "m \<le> n"
    using fg_best_find [OF b n] by blast
  have "best k \<noteq> []" using c(1) by auto
  then have p: "pick k = Some c" using c(1) by (simp add: pick_def)
  have m: "m < ?s" "c = run_queue k ((queue_idx k + m + 1) mod ?s)"
    using c(2) rr_order_nth by (auto simp: behind_def)
  have f: "n < ?s" "f = run_queue k ((queue_idx k + n + 1) mod ?s)"
    using n rr_order_nth by (auto simp: behind_def)
  have "c \<in> set (rq k)" using c(2) by (metis behind_def nth_mem length_rotate length_rq rr_order_def set_rr_order)
  then have "pick k \<noteq> idle_pcb k" using p idle by (metis image_eqI)
  then obtain j where j: "scheduler_next_ready k = (Some c, k\<lparr>queue_idx := j\<rparr>)" "cursor_ok (k\<lparr>queue_idx := j\<rparr>)"
    "run_queue k j = c" using scheduler_next_ready_pick [OF cur] p by fastforce
  have js: "j < ?s" using j(2) f(1) by (auto simp: cursor_ok_def)
  have "rq k ! j = rq k ! ((queue_idx k + m + 1) mod ?s)" using j(3) js m by (simp add: rq_nth)
  then have jm: "j = (queue_idx k + m + 1) mod ?s"
    using d js m(1) by (simp add: nth_eq_iff_index_eq)
  have "c \<noteq> f" using no j(1) by auto
  then have mn: "m < n" using c(3) m(2) f(2) by (cases "m = n") auto
  have "j + (n - m - 1) + 1 = j + (n - m)" using mn by simp
  then have "(j + (n - m - 1) + 1) mod ?s = (queue_idx k + m + 1 + (n - m)) mod ?s"
    unfolding jm by (simp only: mod_add_left_eq)
  also have "queue_idx k + m + 1 + (n - m) = queue_idx k + n + 1" using mn by simp
  finally have "rr_order k' ! (n - m - 1) = f"
    using k' j(1) f mn unfolding rr_order_def
    by (subst nth_rotate) (simp_all add: rq_nth ac_simps del: rotate_Suc)
  moreover have "queue_size k' = ?s" using k'(1) by (metis length_rq)
  ultimately have "behind k' f (n - m - 1)" using f(1) by (simp add: behind_def)
  then show ?thesis using mn by (intro exI [of _ "n - m - 1"]) simp
qed

text \<open>
  C8: Round robin is fair among the best of the foreground: as long as a READY foreground process has the
  highest effective priority, the processes in the run queue stay the same and nobody else moves the cursor,
  it is passed over fewer times in a row than there are processes in the queue. The states
  \<open>ks 0, ks 1, \<dots>\<close> are those in which \<open>scheduler_next_ready\<close> is called.
\<close>

theorem round_robin_bounded:
  assumes "\<forall>i \<le> n. cursor_ok (ks i) \<and> distinct (rq (ks i)) \<and>
      idle_pcb (ks i) \<notin> Some ` set (rq (ks i)) \<and> fg_best (ks i) f"
    and "\<forall>i < n. fst (scheduler_next_ready (ks i)) \<noteq> Some f"
    and "\<forall>i < n. rq (ks (Suc i)) = rq (ks i) \<and>
      queue_idx (ks (Suc i)) = queue_idx (snd (scheduler_next_ready (ks i)))"
  shows "n < queue_size (ks 0)"
proof -
  obtain p where p: "behind (ks 0) f p" using assms(1) behind_exists [of f "ks 0"] by (auto simp: fg_best_def)
  have "i \<le> n \<Longrightarrow> \<exists>q. behind (ks i) f q \<and> q + i \<le> p" for i
  proof (induction i)
    case 0
    then show ?case using p by auto
  next
    case (Suc i)
    then obtain q where q: "behind (ks i) f q" "q + i \<le> p" by auto
    have "\<exists>q' < q. behind (ks (Suc i)) f q'"
      using Suc.prems assms by (intro passed_over [OF _ _ _ _ q(1)]) auto
    then show ?case using q(2) by fastforce
  qed
  from this [of n] show ?thesis using p by (auto simp: behind_def)
qed

definition demo_equals :: kernel where
  "demo_equals = upd_proc 2 (\<lambda>p. p\<lparr>priority := 3, foreground := 1\<rparr>)
     (upd_proc 1 (\<lambda>p. p\<lparr>priority := 3, foreground := 1, pstate := PROCESS_READY\<rparr>) demo)"

lemma demo_equals_simps:
  "queue_size demo_equals = 2" "queue_idx demo_equals = 1" "idle_pcb demo_equals = Some 0"
  "run_queue demo_equals 0 = 2" "run_queue demo_equals 1 = 1" "rq demo_equals = [2, 1]"
  "eff (proc demo_equals 1) = 4" "eff (proc demo_equals 2) = 4" "aging_bonus (proc demo_equals 2) = 0"
  "ready demo_equals 1" "ready demo_equals 2"
  "foreground (proc demo_equals 1) = 1" "foreground (proc demo_equals 2) = 1"
  "priority (proc demo_equals 2) = 3"
  by (simp_all add: demo_equals_def demo_pcbs eff_def aging_bonus_def rq_def cells_def upt_rec)

lemma demo_equals_next:
  "scheduler_next_ready demo_equals = (Some 2, demo_equals\<lparr>queue_idx := 0\<rparr>)"
proof -
  have "rr_pass 2 t k = (let k = k\<lparr>queue_idx := (queue_idx k + 1) mod queue_size k\<rparr>; c = run_queue k (queue_idx k)
      in if t (proc k c) then (Some c, k) else rr_pass 1 t k)" for t k
    using rr_pass.simps(2) [of 1 t k] by (simp only: Suc_1)
  then show ?thesis
    by (simp add: scheduler_next_ready_def highest_eff_def upt_rec demo_equals_simps
        demo_equals_simps [unfolded One_nat_def] Let_def)
qed

theorem round_robin_bounded_witness:
  "(1 :: nat) < queue_size demo_equals"
proof -
  let ?ks = "\<lambda>i :: nat. if i = 0 then demo_equals else demo_equals\<lparr>queue_idx := 0\<rparr>"
  have rq: "rq (demo_equals\<lparr>queue_idx := 0\<rparr>) = [2, 1]"
    using demo_equals_simps(6) by (simp add: rq_def)
  have "1 < queue_size (?ks 0)"
  proof (rule round_robin_bounded [of 1 ?ks 1])
    show "\<forall>i \<le> 1. cursor_ok (?ks i) \<and> distinct (rq (?ks i)) \<and>
        idle_pcb (?ks i) \<notin> Some ` set (rq (?ks i)) \<and> fg_best (?ks i) 1"
      using demo_equals_simps by (auto simp: rq fg_best_def cursor_ok_def)
    show "\<forall>i < 1. fst (scheduler_next_ready (?ks i)) \<noteq> Some 1"
      by (simp add: demo_equals_next)
    show "\<forall>i < 1. rq (?ks (Suc i)) = rq (?ks i) \<and>
        queue_idx (?ks (Suc i)) = queue_idx (snd (scheduler_next_ready (?ks i)))"
      by (simp add: demo_equals_next rq demo_equals_simps)
  qed
  then show ?thesis by simp
qed

end
