(* ===== verification/Boot_Image.thy ===== *)
theory Boot_Image
  imports Module_Packer Memory_Regions
begin

text \<open>
  From the files of the host to the memory of the machine: the image that the module packer writes is
  the one the module loader of the kernel takes apart.
\<close>

section \<open>Four bytes\<close>

lemma readUint32_le32:
  assumes "mem_at m a (le32 w)"
  shows "readUint32 m a = (w, a + 4)"
proof -
  have m: "m a = ucast w" "m (a + 1) = ucast (drop_bit 8 w)" "m (a + 2) = ucast (drop_bit 16 w)"
    "m (a + 3) = ucast (drop_bit 24 w)"
    using assms by (simp_all add: le32_def add.assoc)
  have "(ucast (ucast w :: u8) OR push_bit 8 (ucast (ucast (drop_bit 8 w) :: u8)) OR
      push_bit 16 (ucast (ucast (drop_bit 16 w) :: u8)) OR push_bit 24 (ucast (ucast (drop_bit 24 w) :: u8)) :: u32) = w"
  proof (rule bit_word_eqI)
    fix n :: nat
    assume "n < LENGTH(32)"
    then consider "n < 8" | "8 \<le> n \<and> n < 16" | "16 \<le> n \<and> n < 24" | "24 \<le> n \<and> n < 32" by force
    then show "bit (ucast (ucast w :: u8) OR push_bit 8 (ucast (ucast (drop_bit 8 w) :: u8)) OR
        push_bit 16 (ucast (ucast (drop_bit 16 w) :: u8)) OR push_bit 24 (ucast (ucast (drop_bit 24 w) :: u8)) :: u32) n
        = bit w n"
      by cases (auto simp: bit_simps)
  qed
  then show ?thesis by (simp add: readUint32_def m)
qed

section \<open>What the packer writes\<close>

definition packed :: "u8 list list \<Rightarrow> u8 list" where
  "packed ms = concat (map (\<lambda>content. le32 (of_nat (length content)) @ content) ms)"

definition image_of :: "u8 list \<Rightarrow> u8 list list \<Rightarrow> u8 list" where
  "image_of binary ms = binary @ le32 (of_nat (length ms)) @ packed ms"

lemma packed_simps [simp]:
  "packed [] = []" "packed (c # ms) = le32 (of_nat (length c)) @ c @ packed ms"
  by (simp_all add: packed_def)

lemma length_le32 [simp]: "length (le32 w) = 4"
  by (simp add: le32_def)

lemma write_file_all: "write_file t \<lparr>left_over = xs, eof = False\<rparr> = t @ xs"
proof (induction xs arbitrary: t rule: length_induct)
  case (1 xs)
  show ?case
  proof (cases "length xs < BUFFER_SIZE")
    case True
    have "write_file (t @ xs) \<lparr>left_over = [], eof = True\<rparr> = t @ xs" by (subst write_file.simps) simp
    with True show ?thesis by (subst write_file.simps) (simp add: fread_def)
  next
    case False
    then have "length (drop BUFFER_SIZE xs) < length xs" by (simp add: BUFFER_SIZE_def)
    then have "write_file (t @ take BUFFER_SIZE xs) \<lparr>left_over = drop BUFFER_SIZE xs, eof = False\<rparr> = t @ xs"
      using 1 by (metis append.assoc append_take_drop_id)
    with False show ?thesis by (subst write_file.simps) (simp add: fread_def)
  qed
qed

lemma write_modules_all:
  "out \<notin> set fs \<Longrightarrow> map (files h) fs = map Some ms \<Longrightarrow> write_modules out h fs t = Some (t @ packed ms)"
proof (induction fs arbitrary: ms t)
  case (Cons f fs)
  then obtain c ms' where "ms = c # ms'" "files h f = Some c" by (cases ms) auto
  with Cons show ?case by (simp add: source_of_def write_size_def write_file_all)
qed simp

lemma buildImage_image:
  assumes "can_create h out" and "out \<notin> set (f # fs)" and "files h f = Some binary"
    and "map (files h) fs = map Some ms"
  shows "buildImage (f # fs) out h = Some (True, h\<lparr>files := (files h)(out \<mapsto> image_of binary ms)\<rparr>)"
proof -
  have "length fs = length ms" using assms(4) by (metis length_map)
  then show ?thesis
    using assms write_modules_all [of out fs h ms]
    by (simp add: buildImage_def source_of_def write_file_all image_of_def Let_def)
qed

section \<open>What the loader reads\<close>

lemma loadModule_packed:
  assumes "mem_at m a (le32 (of_nat (length c)) @ c)" and "length c < 2 ^ 32"
    and "region t (length c) \<inter> region (a + 4) (length c) = {}"
  shows "loadModule t (a, m) = (a + of_nat (4 + length c), moved t (a + 4) (length c) m)"
    and "mem_at (moved t (a + 4) (length c) m) t c"
proof -
  have c: "mem_at m (a + 4) c" and r: "readUint32 m a = (of_nat (length c), a + 4)"
    using assms(1) readUint32_le32 by (simp_all add: mem_at_append)
  have u: "unat (of_nat (length c) :: u32) = length c" using assms(2) by (simp add: unat_of_nat)
  then have "(ucast (of_nat (length c) :: u32) :: u64) = of_nat (length c)"
    by (metis of_nat_unat)
  then show "loadModule t (a, m) = (a + of_nat (4 + length c), moved t (a + 4) (length c) m)"
    using memcpy_moved [OF assms(3)] by (simp add: loadModule_def r u add.assoc)
  have "moved t (a + 4) (length c) m (t + of_nat i) = m (a + 4 + of_nat i)" if "i < length c" for i
    using region_I [OF that, of t] by (simp add: moved_def)
  then show "mem_at (moved t (a + 4) (length c) m) t c" using mem_at_shift [of c] c by blast
qed

text \<open>The loop, from module \<open>j\<close> on.\<close>

lemma load_loop:
  assumes "mem_at m a (packed ms)" and "\<forall>c \<in> set ms. length c < 2 ^ 32"
    and "\<forall>i < length ms. region (t (j + i)) (length (ms ! i)) \<inter> region a (length (packed ms)) = {}"
    and "\<forall>i < length ms. \<forall>i' < length ms. i \<noteq> i' \<longrightarrow>
      region (t (j + i)) (length (ms ! i)) \<inter> region (t (j + i')) (length (ms ! i')) = {}"
  shows "let m' = snd (fold (\<lambda>i. loadModule (t i)) [j..<j + length ms] (a, m)) in
    (\<forall>i < length ms. mem_at m' (t (j + i)) (ms ! i)) \<and>
    (\<forall>b. (\<forall>i < length ms. b \<notin> region (t (j + i)) (length (ms ! i))) \<longrightarrow> m' b = m b)"
  using assms
proof (induction ms arbitrary: j a m)
  case (Cons c ms)
  let ?a = "a + of_nat (4 + length c)" and ?m = "moved (t j) (a + 4) (length c) m"
  have len: "length (packed (c # ms)) = 4 + length c + length (packed ms)" by simp
  have reg: "region a (length (packed (c # ms))) =
      region a 4 \<union> region (a + 4) (length c) \<union> region ?a (length (packed ms))"
    unfolding len by (simp add: region_add add.assoc Un_assoc)
  have d: "region (t j) (length c) \<inter> region a (length (packed (c # ms))) = {}"
    using Cons.prems(3) [rule_format, of 0] by simp
  have first: "loadModule (t j) (a, m) = (?a, ?m)" "mem_at ?m (t j) c"
    using loadModule_packed [of m a c "t j"] Cons.prems(1,2) d unfolding reg
    by (auto simp: mem_at_append add.assoc)
  have rest: "mem_at ?m ?a (packed ms)"
  proof -
    have "mem_at m ?a (packed ms)" using Cons.prems(1) by (simp add: mem_at_append add.assoc)
    moreover have "?m b = m b" if "b \<in> region ?a (length (packed ms))" for b
      using d that unfolding reg by (intro moved_source) blast
    ultimately show ?thesis using mem_at_cong by blast
  qed
  have shift: "region (t (Suc j + i)) (length (ms ! i)) = region (t (j + Suc i)) (length ((c # ms) ! Suc i))" for i
    by simp
  let ?m' = "snd (fold (\<lambda>i. loadModule (t i)) [Suc j..<Suc j + length ms] (?a, ?m))"
  have IH: "(\<forall>i < length ms. mem_at ?m' (t (Suc j + i)) (ms ! i)) \<and>
      (\<forall>b. (\<forall>i < length ms. b \<notin> region (t (Suc j + i)) (length (ms ! i))) \<longrightarrow> ?m' b = ?m b)"
  proof (rule Cons.IH [OF rest, of "Suc j", unfolded Let_def])
    show "\<forall>c \<in> set ms. length c < 2 ^ 32" using Cons.prems(2) by simp
    show "\<forall>i < length ms. region (t (Suc j + i)) (length (ms ! i)) \<inter> region ?a (length (packed ms)) = {}"
      using Cons.prems(3) unfolding shift reg by (auto 0 4)
    show "\<forall>i < length ms. \<forall>i' < length ms. i \<noteq> i' \<longrightarrow>
      region (t (Suc j + i)) (length (ms ! i)) \<inter> region (t (Suc j + i')) (length (ms ! i')) = {}"
      using Cons.prems(4) unfolding shift by (metis Suc_less_eq length_Cons nat.inject)
  qed
  have fold: "fold (\<lambda>i. loadModule (t i)) [j..<j + length (c # ms)] (a, m) =
      fold (\<lambda>i. loadModule (t i)) [Suc j..<Suc j + length ms] (?a, ?m)"
  proof -
    have "[j..<j + length (c # ms)] = j # [Suc j..<Suc j + length ms]"
      using upt_conv_Cons [of j "j + length (c # ms)"] by (simp del: upt_Suc)
    then show ?thesis by (simp only: fold.simps comp_apply first)
  qed
  have c: "mem_at ?m' (t j) c"
  proof -
    have "?m' b = ?m b" if "b \<in> region (t j) (length c)" for b
    proof -
      have "b \<notin> region (t (Suc j + i)) (length (ms ! i))" if "i < length ms" for i
        using Cons.prems(4) [rule_format, of 0 "Suc i"] that \<open>b \<in> region (t j) (length c)\<close> by auto
      then show ?thesis using IH by blast
    qed
    then show ?thesis using mem_at_cong first(2) by blast
  qed
  define M where "M = ?m'"
  have "mem_at M (t (j + i)) ((c # ms) ! i)" if "i < length (c # ms)" for i
    using that IH c unfolding M_def [symmetric] by (cases i) simp_all
  moreover have "M b = m b" if b: "\<forall>i < length (c # ms). b \<notin> region (t (j + i)) (length ((c # ms) ! i))" for b
  proof -
    have "\<forall>i < length ms. b \<notin> region (t (Suc j + i)) (length (ms ! i))"
      using b unfolding shift by (intro allI impI) auto
    moreover have "b \<notin> region (t j) (length c)" using b by force
    ultimately show ?thesis using IH moved_source unfolding M_def [symmetric] by metis
  qed
  ultimately show ?case unfolding fold Let_def M_def [symmetric] by blast
qed simp

text \<open>
  \<open>loadModules\<close>, called with the end of the kernel binary, puts the contents of the i-th module at the i-th
  target and changes no other byte of memory. The targets must not overlap with each other or with the
  image, and no module has 4 GB.
\<close>

lemma modules_unpacked:
  assumes "mem_at m base (image_of binary ms)"
    and "\<forall>c \<in> set ms. length c < 2 ^ 32" and "length ms < 2 ^ 32"
    and "\<forall>i < length ms. region (target i) (length (ms ! i)) \<inter> region base (length (image_of binary ms)) = {}"
    and "\<forall>i < length ms. \<forall>j < length ms. i \<noteq> j \<longrightarrow>
      region (target i) (length (ms ! i)) \<inter> region (target j) (length (ms ! j)) = {}"
  shows "let m' = loadModules (base + of_nat (length binary)) target m in
    (\<forall>i < length ms. mem_at m' (target i) (ms ! i)) \<and>
    (\<forall>b. (\<forall>i < length ms. b \<notin> region (target i) (length (ms ! i))) \<longrightarrow> m' b = m b)"
proof -
  let ?p = "base + of_nat (length binary)"
  have a: "mem_at m ?p (le32 (of_nat (length ms)))" "mem_at m (?p + 4) (packed ms)"
    using assms(1) by (simp_all add: image_of_def mem_at_append)
  have u: "unat (of_nat (length ms) :: u32) = length ms" using assms(3) by (simp add: unat_of_nat)
  have "region base (length (image_of binary ms)) =
      region base (length binary) \<union> region ?p 4 \<union> region (?p + 4) (length (packed ms))"
    by (simp add: image_of_def region_add Un_assoc add.assoc)
  then have "\<forall>i < length ms. region (target (0 + i)) (length (ms ! i)) \<inter> region (?p + 4) (length (packed ms)) = {}"
    using assms(4) by auto
  then show ?thesis
    using load_loop [of m "?p + 4" ms target 0] a(2) assms(2,5)
    by (simp add: loadModules_def readUint32_le32 [OF a(1)] u)
qed

end
