(* ===== verification/Idt.thy ===== *)
theory Idt
  imports Prelude
begin

unbundle bit_operations_syntax

text \<open>
  \<open>Kernel/c/interrupts/idtLoader.c\<close>: the interrupt descriptor table, the masks of the two PICs, and
  interrupts on. The addresses of the handlers of \<open>asm/interrupts.asm\<close> are parameters.
\<close>

section \<open>State\<close>

record descr_int =
  offset_l :: "16 word"
  selector :: "16 word"
  cero :: "8 word"
  access :: "8 word"
  offset_m :: "16 word"
  offset_h :: "32 word"
  other_cero :: "32 word"

record interrupts =
  idt :: "nat \<Rightarrow> descr_int"
  idtr :: "(16 word \<times> u64) option"
  master_mask :: "8 word"
  slave_mask :: "8 word"
  int_on :: bool

record handlers =
  irq00Handler :: u64
  irq01Handler :: u64
  irq128Handler :: u64
  exception0Handler :: u64
  exception6Handler :: u64
  idt_address :: u64

section \<open>Operations\<close>

abbreviation ACS_PRESENT :: "8 word" where "ACS_PRESENT \<equiv> 0x80"
abbreviation ACS_INT_386 :: "8 word" where "ACS_INT_386 \<equiv> 0x0E"

definition ACS_INT :: "8 word" where
  "ACS_INT = ACS_PRESENT OR ACS_INT_386"

definition setup_IDT_entry :: "nat \<Rightarrow> u64 \<Rightarrow> interrupts \<Rightarrow> interrupts" where
  "setup_IDT_entry index offset h =
     h\<lparr>idt := (idt h)(index :=
        \<lparr>offset_l = ucast (offset AND 0xFFFF), selector = 0x08, cero = 0, access = ACS_INT,
         offset_m = ucast (drop_bit 16 offset AND 0xFFFF), offset_h = ucast (drop_bit 32 offset AND 0xFFFFFFFF),
         other_cero = 0\<rparr>)\<rparr>"

definition load_idt :: "handlers \<Rightarrow> interrupts \<Rightarrow> interrupts" where
  "load_idt a h =
     (let h = setup_IDT_entry 0x20 (irq00Handler a) h;
          h = setup_IDT_entry 0x21 (irq01Handler a) h;
          h = setup_IDT_entry 0x00 (exception0Handler a) h;
          h = setup_IDT_entry 0x06 (exception6Handler a) h;
          h = setup_IDT_entry 0x80 (irq128Handler a) h;
          h = h\<lparr>idtr := Some (256 * 16 - 1, idt_address a)\<rparr>
      in h\<lparr>master_mask := 0xFC, slave_mask := 0xFF, int_on := True\<rparr>)"

section \<open>How the processor reads a descriptor\<close>

text \<open>
  The address of a gate is spread over three fields; bit 7 of the access byte is the present bit, bits 5
  and 6 the privilege that \<open>int\<close> needs, and type 14 is an interrupt gate, which clears the interrupt flag.
\<close>

definition gate_target :: "descr_int \<Rightarrow> u64" where
  "gate_target d = ucast (offset_l d) OR push_bit 16 (ucast (offset_m d)) OR push_bit 32 (ucast (offset_h d))"

definition interrupt_gate :: "descr_int \<Rightarrow> bool" where
  "interrupt_gate d \<longleftrightarrow> bit (access d) 7 \<and> access d AND 0x0F = 14 \<and> cero d = 0 \<and> other_cero d = 0"

definition no_gate :: descr_int where
  "no_gate = \<lparr>offset_l = 0, selector = 0, cero = 0, access = 0, offset_m = 0, offset_h = 0, other_cero = 0\<rparr>"

lemma gate_fields:
  fixes a :: u64
  shows "ucast (ucast (a AND 0xFFFF) :: 16 word) OR push_bit 16 (ucast (ucast (drop_bit 16 a AND 0xFFFF) :: 16 word)) OR
    push_bit 32 (ucast (ucast (drop_bit 32 a AND 0xFFFFFFFF) :: 32 word)) = a"
proof (rule bit_word_eqI)
  fix n :: nat
  assume "n < LENGTH(64)"
  have masks: "(0xFFFF :: u64) = mask 16" "(0xFFFFFFFF :: u64) = mask 32" by (simp_all add: mask_eq_exp_minus_1)
  from \<open>n < LENGTH(64)\<close> consider "n < 16" | "16 \<le> n \<and> n < 32" | "32 \<le> n \<and> n < 64" by force
  then show "bit (ucast (ucast (a AND 0xFFFF) :: 16 word) OR
      push_bit 16 (ucast (ucast (drop_bit 16 a AND 0xFFFF) :: 16 word)) OR
      push_bit 32 (ucast (ucast (drop_bit 32 a AND 0xFFFFFFFF) :: 32 word)) :: u64) n = bit a n"
    unfolding masks by cases (auto simp: bit_simps)
qed

lemma setup_at:
  obtains d where "\<And>h. idt (setup_IDT_entry i a h) = (idt h)(i := d)" "interrupt_gate d" "gate_target d = a" "selector d = 8"
proof
  let ?d = "\<lparr>offset_l = ucast (a AND 0xFFFF), selector = 0x08, cero = 0, access = ACS_INT,
         offset_m = ucast (drop_bit 16 a AND 0xFFFF), offset_h = ucast (drop_bit 32 a AND 0xFFFFFFFF),
         other_cero = 0\<rparr> :: descr_int"
  show "idt (setup_IDT_entry i a h) = (idt h)(i := ?d)" for h by (simp add: setup_IDT_entry_def)
  show "interrupt_gate ?d" "selector ?d = 8" by (simp_all add: interrupt_gate_def ACS_INT_def)
  show "gate_target ?d = a" using gate_fields [of a] by (simp add: gate_target_def)
qed

text \<open>The vectors the kernel uses, with their handlers.\<close>

definition vectors :: "handlers \<Rightarrow> nat \<Rightarrow> u64 option" where
  "vectors a = [0x20 \<mapsto> irq00Handler a, 0x21 \<mapsto> irq01Handler a, 0 \<mapsto> exception0Handler a,
     6 \<mapsto> exception6Handler a, 0x80 \<mapsto> irq128Handler a]"

text \<open>
  After \<open>load_idt\<close> every descriptor of the table has its type: the vectors 0, 6, 0x20, 0x21 and 0x80 are present
  64-bit interrupt gates in the code segment 8, whose three offset fields together are exactly the
  address of the handler, and all others stay absent. The limit covers the 256 descriptors of 16 bytes; only
  IRQ 0 and 1 are unmasked, and interrupts are on.
\<close>

lemma load_idt_gates:
  assumes "idt h = (\<lambda>_. no_gate)"
  shows "(\<forall>n. case vectors a n of
      Some handler \<Rightarrow> interrupt_gate (idt (load_idt a h) n) \<and> gate_target (idt (load_idt a h) n) = handler \<and>
        selector (idt (load_idt a h) n) = 8
    | None \<Rightarrow> idt (load_idt a h) n = no_gate \<and> \<not> interrupt_gate (idt (load_idt a h) n)) \<and>
    map_option (\<lambda>(limit, base). (unat limit + 1, base)) (idtr (load_idt a h)) = Some (256 * 16, idt_address a) \<and>
    (\<forall>irq < 8. \<not> bit (master_mask (load_idt a h)) irq \<longleftrightarrow> irq = 0 \<or> irq = 1) \<and>
    (\<forall>irq < 8. bit (slave_mask (load_idt a h)) irq) \<and> int_on (load_idt a h)"
proof -
  let ?h = "load_idt a h"
  have off: "\<not> interrupt_gate no_gate" by (simp add: interrupt_gate_def no_gate_def)
  obtain d0 where d0: "\<And>h. idt (setup_IDT_entry 0x20 (irq00Handler a) h) = (idt h)(0x20 := d0)"
    "interrupt_gate d0" "gate_target d0 = irq00Handler a" "selector d0 = 8"
    by (rule setup_at [where i = "0x20" and a = "irq00Handler a"]) blast
  obtain d1 where d1: "\<And>h. idt (setup_IDT_entry 0x21 (irq01Handler a) h) = (idt h)(0x21 := d1)"
    "interrupt_gate d1" "gate_target d1 = irq01Handler a" "selector d1 = 8"
    by (rule setup_at [where i = "0x21" and a = "irq01Handler a"]) blast
  obtain e0 where e0: "\<And>h. idt (setup_IDT_entry 0 (exception0Handler a) h) = (idt h)(0 := e0)"
    "interrupt_gate e0" "gate_target e0 = exception0Handler a" "selector e0 = 8"
    by (rule setup_at [where i = "0" and a = "exception0Handler a"]) blast
  obtain e6 where e6: "\<And>h. idt (setup_IDT_entry 6 (exception6Handler a) h) = (idt h)(6 := e6)"
    "interrupt_gate e6" "gate_target e6 = exception6Handler a" "selector e6 = 8"
    by (rule setup_at [where i = "6" and a = "exception6Handler a"]) blast
  obtain d8 where d8: "\<And>h. idt (setup_IDT_entry 0x80 (irq128Handler a) h) = (idt h)(0x80 := d8)"
    "interrupt_gate d8" "gate_target d8 = irq128Handler a" "selector d8 = 8"
    by (rule setup_at [where i = "0x80" and a = "irq128Handler a"]) blast
  have t: "idt ?h = (\<lambda>_. no_gate)(0x20 := d0, 0x21 := d1, 0 := e0, 6 := e6, 0x80 := d8)"
    by (simp add: load_idt_def Let_def d0(1) d1(1) e0(1) e6(1) d8(1) assms(1))
  have m: "master_mask ?h = 0xFC" "slave_mask ?h = 0xFF" "int_on ?h" "idtr ?h = Some (256 * 16 - 1, idt_address a)"
    by (simp_all add: load_idt_def Let_def)
  have masks: "(0xFC :: 8 word) = push_bit 2 (mask 6)" "(0xFF :: 8 word) = mask 8"
    by (simp_all add: mask_eq_exp_minus_1)
  have "case vectors a n of
      Some handler \<Rightarrow> interrupt_gate (idt ?h n) \<and> gate_target (idt ?h n) = handler \<and> selector (idt ?h n) = 8
    | None \<Rightarrow> idt ?h n = no_gate \<and> \<not> interrupt_gate (idt ?h n)" for n
    unfolding t vectors_def using d0(2-4) d1(2-4) e0(2-4) e6(2-4) d8(2-4) off by simp
  moreover have "\<forall>irq < 8. \<not> bit (master_mask ?h) irq \<longleftrightarrow> irq = 0 \<or> irq = 1"
    "\<forall>irq < 8. bit (slave_mask ?h) irq"
    unfolding m masks by (auto simp: bit_simps)
  ultimately show ?thesis using m by auto
qed

end
