(* ===== verification/Startup.thy ===== *)
theory Startup
  imports Boot_Image Idt Boot_Processes
begin

text \<open>
  The whole of \<open>initializeKernelBinary\<close> and \<open>main\<close> of \<open>Kernel/c/kernel/kernel.c\<close>, from the image that the
  boot loader put into memory to the first process: the modules are moved to their places and the variables
  are cleared (\<open>unpack\<close>), then the interrupt table is set up and the subsystems are initialized (\<open>Syscalls\<close>).
\<close>

section \<open>The machine\<close>

text \<open>
  The symbols of \<open>kernel.ld\<close>, and what the start-up leaves: the interrupts, and the state of the kernel, whose
  variables and stacks stand for the memory from then on.
\<close>

record linker =
  endOfKernelBinary :: u64
  bss_start :: u64
  endOfKernel :: u64

record computer =
  ints :: interrupts
  kern :: kernel

definition KERNEL_BASE :: u64 where
  "KERNEL_BASE = 0x100000"

text \<open>Memory read in quadwords, as the stacks of the processes are.\<close>

definition qwords :: "(u64 \<Rightarrow> u8) \<Rightarrow> u64 \<Rightarrow> u64" where
  "qwords m a = fold (\<lambda>i w. push_bit 8 w OR ucast (m (a + of_nat i))) (rev [0..<8]) 0"

section \<open>Start-up\<close>

definition clearBSS :: "u64 \<Rightarrow> u64 \<Rightarrow> (u64 \<Rightarrow> u8) \<Rightarrow> (u64 \<Rightarrow> u8)" where
  "clearBSS a n m = memset a 0 (unat n) m"

text \<open>The array has two entries; \<open>junk\<close> is what the loader finds behind them when the image has more modules.\<close>

definition moduleAddresses :: "(nat \<Rightarrow> u64) \<Rightarrow> nat \<Rightarrow> u64" where
  "moduleAddresses junk i = (if i = 0 then 0x400000 else if i = 1 then 0x500000 else junk i)"

text \<open>The first two calls: the memory as \<open>load_idt\<close> finds it.\<close>

definition unpack :: "linker \<Rightarrow> (nat \<Rightarrow> u64) \<Rightarrow> (u64 \<Rightarrow> u8) \<Rightarrow> (u64 \<Rightarrow> u8)" where
  "unpack ld junk m =
     clearBSS (bss_start ld) (endOfKernel ld - bss_start ld)
       (loadModules (endOfKernelBinary ld) (moduleAddresses junk) m)"

text \<open>
  All of it, from the memory \<open>m\<close> and the interrupts \<open>i\<close>. \<open>idle\<close> and \<open>tramp\<close> are the addresses of \<open>idle_entry\<close> and
  \<open>process_trampoline\<close>, \<open>v\<close> is the screen. The variables of the kernel and its interrupt table are in the BSS: that
  it is zero after \<open>unpack\<close> means that they start as \<open>bss_kernel\<close> and an empty table. From there on they are kept as
  values (\<open>kern\<close>, \<open>ints\<close>), and the bytes that hold them are not looked at any more.
\<close>

definition start_up ::
    "linker \<Rightarrow> (nat \<Rightarrow> u64) \<Rightarrow> handlers \<Rightarrow> u64 \<Rightarrow> u64 \<Rightarrow> video \<Rightarrow> (u64 \<Rightarrow> u8) \<Rightarrow> interrupts \<Rightarrow> u64 \<times> computer" where
  "start_up ld junk hs tramp idle v m i =
     (let k = bss_kernel v tramp (qwords (unpack ld junk m));
          i = load_idt hs (i\<lparr>idt := \<lambda>_. no_gate\<rparr>)
      in (getStackBase (endOfKernel ld), \<lparr>ints = i, kern = initializeKernelBinary idle k\<rparr>))"

definition kernel_main :: "computer \<Rightarrow> u64 option \<times> kernel" where
  "kernel_main c = scheduler_start (kern c)"

text \<open>
  \<open>load_idt\<close> turns interrupts on before the processes exist. A tick of the timer when a process is in the
  run queue, but none is current, starts that process, and the stack pointer of the interrupted start-up is
  stored nowhere: between the creation of idle and \<open>main\<close> a tick ends the start-up, without a shell.
\<close>

lemma age_waiting_keeps:
  "rsp (proc (age_waiting k) j) = rsp (proc k j) \<and> run_queue (age_waiting k) = run_queue k \<and>
   queue_size (age_waiting k) = queue_size k \<and> queue_idx (age_waiting k) = queue_idx k \<and>
   idle_pcb (age_waiting k) = idle_pcb k"
proof -
  let ?f = "\<lambda>i k. let p = run_queue k i in if Some p \<noteq> current_process k \<and> pstate (proc k p) = PROCESS_READY
                    then upd_proc p (\<lambda>q. q\<lparr>wait_ticks := wait_ticks q + 1\<rparr>) k else k"
  have "rsp (proc (fold ?f l k) j) = rsp (proc k j) \<and> run_queue (fold ?f l k) = run_queue k \<and>
      queue_size (fold ?f l k) = queue_size k \<and> queue_idx (fold ?f l k) = queue_idx k \<and>
      idle_pcb (fold ?f l k) = idle_pcb k" for l k
    by (induction l arbitrary: k) (simp_all add: Let_def)
  then show ?thesis unfolding age_waiting_def .
qed

lemma tick_ends_start_up:
  assumes "current_process k = None" and "cursor_ok k" and "i \<in> set (rq k)" and "ready k i"
  shows "\<exists>c \<in> set (rq k). fst (irq00 sp k) = rsp (proc k c) \<and> current_process (snd (irq00 sp k)) = Some c \<and>
    (\<forall>j. rsp (proc (snd (irq00 sp k)) j) = rsp (proc k j))"
proof -
  let ?k = "age_waiting (timer_handler k)"
  note t = timer_handler_def
  have rsp: "rsp (proc ?k j) = rsp (proc k j)" for j
    using age_waiting_keeps [of "timer_handler k" j] by (simp add: t)
  have rq: "rq ?k = rq k" and cur: "cursor_ok ?k"
    using age_waiting_keeps [of "timer_handler k"] assms(2) by (simp_all add: rq_def t cursor_ok_def)
  have "ready ?k i" using assms(4) by (simp add: t)
  then obtain c where p: "pick ?k = Some c" "c \<in> set (best ?k)"
    using assms(3) rq by (cases rule: pick_cases [of ?k]) auto
  then have c2: "c \<in> set (rq k)" using rq by (simp add: in_best)
  obtain j where c: "scheduler_next_ready ?k = (Some c, ?k\<lparr>queue_idx := j\<rparr>)"
    using scheduler_next_ready_pick [OF cur] p(1) by auto
  have "irq00 sp k = dispatch c (?k\<lparr>queue_idx := j\<rparr>)"
    using assms(1) c by (simp add: irq00_def scheduler_tick_def t Let_def scheduler_reap_def process_current_def)
  then show ?thesis using c2 rsp
    by (intro bexI [of _ c]) (auto simp: dispatch_def process_set_current_def Let_def)
qed

section \<open>Property\<close>

text \<open>The parts of memory at start-up do not overlap.\<close>

definition layout_ok :: "linker \<Rightarrow> u8 list \<Rightarrow> u8 list list \<Rightarrow> bool" where
  "layout_ok ld binary ms \<longleftrightarrow>
     length ms = 2 \<and> (\<forall>c \<in> set ms. length c \<le> 0x100000) \<and>
     length (image_of binary ms) \<le> 0x300000 \<and>
     endOfKernelBinary ld = KERNEL_BASE + of_nat (length binary) \<and>
     endOfKernelBinary ld \<le> bss_start ld \<and> bss_start ld \<le> endOfKernel ld \<and> endOfKernel ld \<le> 0x400000"

lemma clearBSS_bytes: "clearBSS a n m b = (if b \<in> region a (unat n) then 0 else m b)"
  by (simp add: clearBSS_def memset_region)

lemma layout_regions:
  assumes "layout_ok ld binary ms"
  defines "bss \<equiv> region (bss_start ld) (unat (endOfKernel ld - bss_start ld))"
  shows "i < 2 \<Longrightarrow> region (moduleAddresses junk i) (length (ms ! i)) \<inter> region KERNEL_BASE (length (image_of binary ms)) = {}"
    and "i < 2 \<Longrightarrow> j < 2 \<Longrightarrow> i \<noteq> j \<Longrightarrow>
      region (moduleAddresses junk i) (length (ms ! i)) \<inter> region (moduleAddresses junk j) (length (ms ! j)) = {}"
    and "i < 2 \<Longrightarrow> region (moduleAddresses junk i) (length (ms ! i)) \<inter> bss = {}"
    and "region KERNEL_BASE (length binary) \<inter> bss = {}"
proof -
  have len: "length (ms ! i) \<le> 0x100000" if "i < 2" for i
    using assms(1) that by (simp add: layout_ok_def)
  have img: "length binary + 4 \<le> length (image_of binary ms)" "length (image_of binary ms) \<le> 0x300000"
    using assms(1) by (simp_all add: layout_ok_def image_of_def)
  have base: "unat KERNEL_BASE = 0x100000" by (simp add: KERNEL_BASE_def)
  have addr: "unat (moduleAddresses junk i) = (if i = 0 then 0x400000 else 0x500000)" if "i < 2" for i
    using that by (auto simp: moduleAddresses_def)
  have bin: "unat (endOfKernelBinary ld) = 0x100000 + length binary"
    using assms(1) img by (simp add: layout_ok_def KERNEL_BASE_def unat_word_ariths unat_of_nat)
  have ord: "unat (endOfKernelBinary ld) \<le> unat (bss_start ld)" "unat (endOfKernel ld) \<le> 0x400000"
    "unat (endOfKernel ld - bss_start ld) = unat (endOfKernel ld) - unat (bss_start ld)"
    "unat (bss_start ld) \<le> unat (endOfKernel ld)"
  proof -
    have l: "endOfKernelBinary ld \<le> bss_start ld" "bss_start ld \<le> endOfKernel ld" "endOfKernel ld \<le> 0x400000"
      using assms(1) unfolding layout_ok_def by blast+
    show "unat (endOfKernelBinary ld) \<le> unat (bss_start ld)" "unat (bss_start ld) \<le> unat (endOfKernel ld)"
      "unat (endOfKernel ld - bss_start ld) = unat (endOfKernel ld) - unat (bss_start ld)"
      using l by (simp_all add: word_le_nat_alt unat_sub)
    show "unat (endOfKernel ld) \<le> 0x400000" using l(3) by (simp add: word_le_nat_alt)
  qed
  show "region (moduleAddresses junk i) (length (ms ! i)) \<inter> region KERNEL_BASE (length (image_of binary ms)) = {}"
    if "i < 2" using len [OF that] addr [OF that] base img(2) by (intro regions_disjoint) (auto split: if_splits)
  show "region (moduleAddresses junk i) (length (ms ! i)) \<inter> region (moduleAddresses junk j) (length (ms ! j)) = {}"
    if "i < 2" "j < 2" "i \<noteq> j"
  proof -
    have "i = 0 \<and> j = 1 \<or> i = 1 \<and> j = 0" using that by auto
    then show ?thesis
      using len [OF that(1)] len [OF that(2)] addr [OF that(1)] addr [OF that(2)]
      by (intro regions_disjoint) (elim disjE; simp)+
  qed
  show "region (moduleAddresses junk i) (length (ms ! i)) \<inter> bss = {}" if "i < 2"
    unfolding bss_def using len [OF that] addr [OF that] ord by (intro regions_disjoint) (auto split: if_splits)
  show "region KERNEL_BASE (length binary) \<inter> bss = {}"
    unfolding bss_def using base bin ord by (intro regions_disjoint) auto
qed

text \<open>Memory after the first two steps of the start-up.\<close>

lemma start_up_memory:
  fixes m :: "u64 \<Rightarrow> u8" and junk :: "nat \<Rightarrow> u64"
  assumes im: "mem_at m KERNEL_BASE (image_of binary [code, data])" and lay: "layout_ok ld binary [code, data]"
  defines "bss \<equiv> region (bss_start ld) (unat (endOfKernel ld - bss_start ld))"
  defines "m' \<equiv> unpack ld junk m"
  shows "mem_at m' KERNEL_BASE binary" "mem_at m' 0x400000 code" "mem_at m' 0x500000 data" "\<forall>a \<in> bss. m' a = 0"
proof -
  let ?ms = "[code, data]" and ?t = "moduleAddresses junk"
  define m1 where "m1 = loadModules (endOfKernelBinary ld) ?t m"
  note reg = layout_regions [OF lay, folded bss_def]
  have two: "length ?ms = 2" by simp
  have small: "\<forall>c \<in> set ?ms. length c < 2 ^ 32" "length ?ms < 2 ^ 32" using lay by (auto simp: layout_ok_def)
  have 1: "\<forall>i < length ?ms. region (?t i) (length (?ms ! i)) \<inter> region KERNEL_BASE (length (image_of binary ?ms)) = {}"
    unfolding two using reg(1) by blast
  have 2: "\<forall>i < length ?ms. \<forall>j < length ?ms. i \<noteq> j \<longrightarrow>
      region (?t i) (length (?ms ! i)) \<inter> region (?t j) (length (?ms ! j)) = {}"
    unfolding two using reg(2) by blast
  have eb: "endOfKernelBinary ld = KERNEL_BASE + of_nat (length binary)" using lay by (simp add: layout_ok_def)
  have m1: "(\<forall>i < length ?ms. mem_at m1 (?t i) (?ms ! i)) \<and>
      (\<forall>b. (\<forall>i < length ?ms. b \<notin> region (?t i) (length (?ms ! i))) \<longrightarrow> m1 b = m b)"
    using modules_unpacked [OF im small 1 2] unfolding m1_def eb Let_def .
  have m': "m' b = (if b \<in> bss then 0 else m1 b)" for b
    by (simp add: m'_def unpack_def m1_def bss_def clearBSS_bytes)
  then show "\<forall>a \<in> bss. m' a = 0" by simp
  have keep: "mem_at m' a bs = mem_at m1 a bs" if "region a (length bs) \<inter> bss = {}" for a bs
    using that by (intro mem_at_cong) (auto simp: m')
  show "mem_at m' 0x400000 code" "mem_at m' 0x500000 data"
    using m1 reg(3) [of 0] reg(3) [of 1] keep [of "0x400000" code] keep [of "0x500000" data]
    by (auto simp: moduleAddresses_def)
  have "m1 b = m b" if "b \<in> region KERNEL_BASE (length binary)" for b
  proof -
    have "b \<in> region KERNEL_BASE (length (image_of binary ?ms))" using that by (simp add: image_of_def region_add)
    then show ?thesis using 1 m1 by blast
  qed
  moreover have "mem_at m KERNEL_BASE binary" using im by (simp add: image_of_def mem_at_append)
  ultimately have "mem_at m1 KERNEL_BASE binary" using mem_at_cong by blast
  then show "mem_at m' KERNEL_BASE binary" using keep reg(4) by blast
qed

text \<open>
  C20: From the files to the running system. \<open>buildImage\<close> packs the kernel and two modules; when the image
  stands in memory at the address of the kernel, \<open>loadModules\<close> and \<open>clearBSS\<close> leave the kernel binary in place, the
  user program at \<open>0x400000\<close>, the data module at \<open>0x500000\<close> and zero in all of the BSS (which lies over
  the packed modules and holds the variables that are set from then on). After the rest of the start-up each of the
  five vectors in use is a gate to its handler, and \<open>main\<close> starts the scheduler: it switches to the stack of the
  shell, process 2 in slot 1, the only one in the run queue, whose frame leads to the trampoline with interrupts
  enabled and whose entry point is the user program; idle is process 1 in slot 0, ready and registered as the
  fallback; every other slot is free; and the runs of the kernel begin there. (No tick of the timer comes before
  \<open>main\<close> has switched, see \<open>tick_ends_start_up\<close>.)
\<close>

theorem image_boots:
  assumes "can_create h out" and "out \<notin> {f, g1, g2}" and "files h f = Some binary"
    and "files h g1 = Some code" and "files h g2 = Some data" and lay: "layout_ok ld binary [code, data]"
  shows "\<exists>h' image. buildImage [f, g1, g2] out h = Some (True, h') \<and> files h' out = Some image \<and>
    (\<forall>m i. mem_at m KERNEL_BASE image \<longrightarrow>
      (let m' = unpack ld junk m; (sp, c) = start_up ld junk hs tramp idle v m i in
        mem_at m' KERNEL_BASE binary \<and> mem_at m' 0x400000 code \<and> mem_at m' 0x500000 data \<and>
        (\<forall>a \<in> region (bss_start ld) (unat (endOfKernel ld - bss_start ld)). m' a = 0) \<and>
        sp = getStackBase (endOfKernel ld) \<and>
        (\<forall>n handler. vectors hs n = Some handler \<longrightarrow>
           interrupt_gate (idt (ints c) n) \<and> gate_target (idt (ints c) n) = handler) \<and>
        fst (kernel_main c) = Some 0x601F90 \<and> shell_runs tramp idle (snd (kernel_main c)) \<and>
        reachable (snd (kernel_main c))))"
proof -
  have files: "out \<notin> set (f # [g1, g2])" "map (files h) [g1, g2] = map Some [code, data]"
    using assms(2,4,5) by auto
  have gates: "vectors hs n = Some handler \<Longrightarrow> interrupt_gate (idt (load_idt hs (i\<lparr>idt := \<lambda>_. no_gate\<rparr>)) n) \<and>
      gate_target (idt (load_idt hs (i\<lparr>idt := \<lambda>_. no_gate\<rparr>)) n) = handler" for i n handler
    using load_idt_gates [of "i\<lparr>idt := \<lambda>_. no_gate\<rparr>" hs] by (auto split: option.splits)
  have main: "fst (scheduler_start (initializeKernelBinary idle (bss_kernel v tramp q))) = Some 0x601F90 \<and>
      shell_runs tramp idle (snd (scheduler_start (initializeKernelBinary idle (bss_kernel v tramp q)))) \<and>
      reachable (snd (scheduler_start (initializeKernelBinary idle (bss_kernel v tramp q))))" for q
    using boot_runs_shell [of v tramp idle q] reachable.booted by (simp add: boot_def)
  show ?thesis
    using buildImage_image [OF assms(1) files(1) assms(3) files(2)]
    by (simp add: start_up_def kernel_main_def Let_def start_up_memory [OF _ lay] gates main)
qed

text \<open>A kernel of two bytes with two modules; the BSS lies over them.\<close>

definition demo_host :: host where
  "demo_host = \<lparr>files = [''k'' \<mapsto> [1, 2], ''a'' \<mapsto> [10, 11, 12, 13], ''b'' \<mapsto> [20]],
     can_create = (\<lambda>_. True), stdout = ''''\<rparr>"

definition demo_linker :: linker where
  "demo_linker = \<lparr>endOfKernelBinary = 0x100002, bss_start = 0x100004, endOfKernel = 0x101000\<rparr>"

definition demo_handlers :: handlers where
  "demo_handlers = \<lparr>irq00Handler = 0x100100, irq01Handler = 0x100200, irq128Handler = 0x100300,
     exception0Handler = 0x100400, exception6Handler = 0x100500, idt_address = 0x100600\<rparr>"

theorem image_boots_witness:
  "\<exists>h' image. buildImage [''k'', ''a'', ''b''] ''img'' demo_host = Some (True, h') \<and> files h' ''img'' = Some image \<and>
    (\<forall>m i. mem_at m KERNEL_BASE image \<longrightarrow>
      (let m' = unpack demo_linker (\<lambda>_. 0) m; c = snd (start_up demo_linker (\<lambda>_. 0) demo_handlers 7 0 demo_video m i) in
        mem_at m' 0x400000 [10, 11, 12, 13] \<and> m' 0x100004 = 0 \<and> shell_runs 7 0 (snd (kernel_main c))))"
proof -
  have lay: "layout_ok demo_linker [1, 2] [[10, 11, 12, 13], [20]]"
    by (simp add: layout_ok_def demo_linker_def image_of_def KERNEL_BASE_def)
  have "0x100004 \<in> region (bss_start demo_linker) (unat (endOfKernel demo_linker - bss_start demo_linker))"
    using region_I [of 0 "unat (endOfKernel demo_linker - bss_start demo_linker)" "bss_start demo_linker"]
    by (simp add: demo_linker_def)
  moreover have "can_create demo_host ''img''" "''img'' \<notin> {''k'', ''a'', ''b''}" "files demo_host ''k'' = Some [1, 2]"
    "files demo_host ''a'' = Some [10, 11, 12, 13]" "files demo_host ''b'' = Some [20]"
    by (simp_all add: demo_host_def)
  note image_boots [OF this lay, of "\<lambda>_. 0" demo_handlers 7 0 demo_video]
  ultimately show ?thesis unfolding Let_def case_prod_beta by blast
qed

end
