(* ===== verification/Props_Kernel.thy ===== *)
theory Props_Kernel
  imports Boot_Processes
begin

text \<open>
  The properties of the kernel as a whole, over all runs: the invariant of the run queue, of the
  process table and of the CPU, and what happens when a caller kills idle, which has no guard.
\<close>

section \<open>Leaving the invariant\<close>

text \<open>
  \<open>process_kill\<close> has no guard for idle: when a process other than idle kills PID 1, the slot of
  idle is FREE afterwards and its PID gone, while \<open>idle_pcb\<close>, the scheduler's fallback, still
  points to it.
\<close>

lemma kill_idle_leaves_dangling:
  assumes "kernel_inv k" and "sys_getpid k \<noteq> 1"
  shows "\<exists>d. idle_pcb k = Some d \<and> idle_pcb (process_kill 1 k) = Some d \<and>
    pstate (proc (process_kill 1 k) d) = PROCESS_FREE \<and> pid (proc (process_kill 1 k) d) = 0"
proof -
  have i: "sys_inv {} k" using assms(1) by (simp add: kernel_inv_def)
  obtain d where d: "d < MAX_PROCESSES" "idle_pcb k = Some d" "\<not> is_free k d" "\<not> zombie k d" "pid (proc k d) = 1"
    by (rule inv_idle [OF i])
  have "pids_unique k" using i unfolding sys_inv_def table_inv_def by blast
  from process_get_pid [OF this d(1,3)] have get: "process_get 1 k = Some d" by (simp add: d(5))
  have nc: "current_process k \<noteq> Some d" using assms(2) d(5) by (auto simp: sys_getpid_def process_current_def)
  show ?thesis
    using get d(4)
  proof (cases rule: process_kill_cases)
    case (current k2)
    with nc show ?thesis by simp
  next
    case (other k2 k5)
    have "idle_pcb k5 = Some d"
      using quiet_simps(2) [OF other(4)] quiet_simps(2) [OF other(1)] d(2) by simp
    then show ?thesis using d(2) unfolding other(6) by simp
  qed
qed

section \<open>Every reachable state\<close>

text \<open>
  C1: In every state the kernel can reach from boot by timer ticks, key strokes and system calls, the run
  queue contains each process in use except idle exactly once and nothing else, in
  descending order of priority, and the round-robin index is inside it. No process is lost
  and none is scheduled twice. (The runs exclude killing PID 1, an exit of idle, a wrap-around
  of the PID counter and negative call numbers.)
\<close>

theorem reachable_run_queue:
  assumes "reachable k"
  shows "distinct (rq k) \<and>
    set (rq k) = {i. i < MAX_PROCESSES \<and> pstate (proc k i) \<noteq> PROCESS_FREE \<and> idle_pcb k \<noteq> Some i} \<and>
    sorted_wrt (\<lambda>i j. priority (proc k j) \<le> priority (proc k i)) (rq k) \<and>
    queue_size k \<le> MAX_PROCESSES \<and>
    (queue_idx k < queue_size k \<or> queue_size k = 0 \<and> queue_idx k = 0)"
proof -
  have "queue_inv {} k" using reachable_inv [OF assms] by (simp add: kernel_inv_def sys_inv_def)
  then have d: "distinct (rq k)" and s: "set (rq k) = {i. i < MAX_PROCESSES \<and> \<not> is_free k i \<and> Some i \<noteq> idle_pcb k}"
    and o: "descending (prio_of k) (rq k)" and c: "cursor_ok k"
    by (simp_all add: queue_inv_def)
  have "set (rq k) \<subseteq> {..<MAX_PROCESSES}" unfolding s by auto
  then have "queue_size k \<le> MAX_PROCESSES"
    using card_mono [of "{..<MAX_PROCESSES}" "set (rq k)"] distinct_card [OF d] by simp
  moreover have "{i. i < MAX_PROCESSES \<and> \<not> is_free k i \<and> Some i \<noteq> idle_pcb k} =
      {i. i < MAX_PROCESSES \<and> \<not> is_free k i \<and> idle_pcb k \<noteq> Some i}" by auto
  ultimately show ?thesis using d s o c by (simp add: cursor_ok_def)
qed

definition demo_boot :: kernel where
  "demo_boot = snd (boot demo_video 0 0 (\<lambda>_. 0))"

lemma demo_boot_reachable: "reachable demo_boot"
  unfolding demo_boot_def by (rule booted)

theorem reachable_run_queue_witness: "distinct (rq demo_boot)"
  using reachable_run_queue [OF demo_boot_reachable] by (rule conjunct1)

text \<open>
  C3: In every reachable state the processes in use have different, non-zero PIDs, none above the
  last one issued, so that \<open>process_get\<close> finds exactly the process meant; priorities are
  between \<open>MIN_PRIORITY\<close> and \<open>MAX_PRIORITY\<close>; and the idle process is still the one with PID 1 and alive. The runs
  exclude what would end it, and a wrap-around of the PID counter (\<open>allowed\<close>): a kill of PID 1, an exit of idle. The code
  has no guard against the first: in every such state, the kill of PID 1 by any process but idle leaves the fallback of the
  scheduler pointing at a free slot.
\<close>

theorem reachable_process_table:
  assumes "reachable k"
  shows "(\<forall>i<MAX_PROCESSES. pstate (proc k i) \<noteq> PROCESS_FREE \<longrightarrow>
      process_get (pid (proc k i)) k = Some i \<and> pid (proc k i) \<le> next_pid k \<and>
      MIN_PRIORITY \<le> priority (proc k i) \<and> priority (proc k i) \<le> MAX_PRIORITY) \<and>
    (\<exists>d<MAX_PROCESSES. idle_pcb k = Some d \<and> pid (proc k d) = 1 \<and>
      pstate (proc k d) \<noteq> PROCESS_FREE \<and> pstate (proc k d) \<noteq> PROCESS_ZOMBIE \<and>
      (sys_getpid k \<noteq> 1 \<longrightarrow> idle_pcb (process_kill 1 k) = Some d \<and>
        pstate (proc (process_kill 1 k) d) = PROCESS_FREE \<and> pid (proc (process_kill 1 k) d) = 0))"
proof -
  have "table_inv k" using reachable_inv [OF assms] by (simp add: kernel_inv_def sys_inv_def)
  then show ?thesis
    unfolding table_inv_def using process_get_pid kill_idle_leaves_dangling [OF reachable_inv [OF assms]]
    by (metis option.inject)
qed

theorem reachable_process_table_witness:
  "\<exists>d<MAX_PROCESSES. idle_pcb demo_boot = Some d \<and> pid (proc demo_boot d) = 1 \<and>
      pstate (proc demo_boot d) \<noteq> PROCESS_FREE \<and> pstate (proc (process_kill 1 demo_boot) d) = PROCESS_FREE"
proof -
  have "shell_runs 0 0 demo_boot" unfolding demo_boot_def using boot_runs_shell by blast
  then have "sys_getpid demo_boot \<noteq> 1" by (simp add: shell_runs_def sys_getpid_def process_current_def)
  then show ?thesis using reachable_process_table [OF demo_boot_reachable] by blast
qed

text \<open>
  C2: In every reachable state there is a current process, it is RUNNING or READY, no other process is
  RUNNING, no process is a ZOMBIE (an exited process is released before the handler returns)
  and no voluntary switch is left pending.
\<close>

theorem reachable_cpu:
  assumes "reachable k"
  shows "\<exists>c<MAX_PROCESSES. current_process k = Some c \<and>
    (pstate (proc k c) = PROCESS_RUNNING \<or> pstate (proc k c) = PROCESS_READY) \<and>
    (\<forall>i<MAX_PROCESSES. i \<noteq> c \<longrightarrow> pstate (proc k i) \<noteq> PROCESS_RUNNING) \<and>
    (\<forall>i<MAX_PROCESSES. pstate (proc k i) \<noteq> PROCESS_ZOMBIE) \<and> \<not> force_switch k"
proof -
  have ki: "kernel_inv k" by (rule reachable_inv [OF assms])
  then have c: "cpu_inv k" by (simp only: kernel_inv_def sys_inv_def)
  obtain c where cur: "on_cpu k c" using ki by (auto simp: kernel_inv_def)
  have "c < MAX_PROCESSES" using c cur unfolding cpu_inv_def on_cpu_def by blast
  moreover have "i = c" if "i < MAX_PROCESSES" "pstate (proc k i) = PROCESS_RUNNING \<or> zombie k i" for i
    using c cur that unfolding cpu_inv_def on_cpu_def by (metis option.inject)
  ultimately show ?thesis
    using cur ki unfolding on_cpu_def kernel_inv_def by (metis process_state.distinct)
qed

theorem reachable_cpu_witness:
  "\<exists>c<MAX_PROCESSES. current_process demo_boot = Some c \<and>
    (pstate (proc demo_boot c) = PROCESS_RUNNING \<or> pstate (proc demo_boot c) = PROCESS_READY) \<and>
    (\<forall>i<MAX_PROCESSES. i \<noteq> c \<longrightarrow> pstate (proc demo_boot i) \<noteq> PROCESS_RUNNING) \<and>
    (\<forall>i<MAX_PROCESSES. pstate (proc demo_boot i) \<noteq> PROCESS_ZOMBIE) \<and> \<not> force_switch demo_boot"
  by (rule reachable_cpu [OF demo_boot_reachable])

text \<open>
  The system call gate. With a call number from 0 to 39 the handler runs and the kernel is
  back in a state that satisfies the invariant (the exceptions of \<open>allowed\<close> apart); a number
  from 40 on changes nothing but the RAX slot of the caller's frame, which becomes -1; and a
  negative number, which passes the signed comparison of the gate, indexes the table out of
  bounds.
\<close>

lemma irq128_numbers:
  assumes "kernel_inv k"
  shows "if sint rax < 0 then fault (snd (snd (irq128 rax table junk sp k))) = Some Out_Of_Bounds
    else if sint rax < 40
    then (allowed (table (unat rax)) k \<longrightarrow> kernel_inv (snd (snd (irq128 rax table junk sp k))))
    else irq128 rax table junk sp k = (sp, No_Output, k\<lparr>qmem := (qmem k)(sp + 112 := - 1)\<rparr>)"
  using assms irq128_inv [OF assms, of table rax]
  by (auto simp: irq128_def check_yield_def kernel_inv_def)

end
