(* ===== verification/Props_Sem.thy ===== *)
theory Props_Sem
  imports Demo Sem_Inv
begin

text \<open>
  The properties of the semaphores: blocking, the hand-over in FIFO order, opening by name and
  the release of what a dying process held.
\<close>

section \<open>Helpers\<close>

lemma process_get_sem_lock [simp]: "process_get n (sem_lock i k) = process_get n k"
  by (simp add: process_get_def)

lemma sem_lock_current [simp]: "current_process (sem_lock i k) = current_process k"
  by (simp add: sem_lock_def)

lemma sem_good_deficit:
  "sem_good s \<Longrightarrow> \<not> sem_wrapped s \<Longrightarrow> int (q_count (sem_queue s)) \<le> max 0 (- sem_value s)"
  by (cases "q_count (sem_queue s) = 0") (auto simp: sem_good_def)

lemma sem_good_range: "sem_good s \<Longrightarrow> - (2 ^ 63) \<le> sem_value s \<and> sem_value s < 2 ^ 63"
  using i64_bounds [of "sem_value s"] by (simp add: sem_good_def)

text \<open>As long as the value has not wrapped around, a post with waiters finds the value below zero.\<close>

lemma sem_good_up_le:
  assumes "sem_good s" and "\<not> sem_wrapped s" and "0 < q_count (sem_queue s)"
  shows "i64 (sem_value s + 1) \<le> 0"
proof -
  have "sem_value s \<le> - 1" using assms by (auto simp: sem_good_def)
  then show ?thesis using sem_good_range [OF assms(1)] i64_small [of "sem_value s + 1"] by simp
qed

lemma pids_empty: "q_count q = 0 \<Longrightarrow> pids q = []"
  by simp

section \<open>The closed form of a release\<close>

lemma sem_forget_closed: "open_count s \<le> 0 \<Longrightarrow> sem_forget opened holds n s = s"
  by (simp add: sem_forget_def)

lemma sem_forget_open:
  assumes g: "sem_good s" and pos: "0 < open_count s"
  shows "pids (sem_queue (sem_forget opened holds n s)) =
      (if n \<notin> set (pids (sem_queue s)) \<and> holds \<and> (sem_wrapped s \<longrightarrow> i64 (sem_value s + 1) \<le> 0)
       then tl (filter (\<lambda>x. x \<noteq> n) (pids (sem_queue s)))
       else filter (\<lambda>x. x \<noteq> n) (pids (sem_queue s)))"
    and "sem_value (sem_forget opened holds n s) =
      i64 (sem_value s + (if n \<in> set (pids (sem_queue s)) \<or> holds then 1 else 0))"
    and "open_count (sem_forget opened holds n s) = open_count s - (if opened then 1 else 0)"
proof -
  have q: "q_ok (sem_queue s)" using g by (simp add: sem_good_def)
  obtain b q' where r: "queue_remove_pid n (sem_queue s) = (b, q')" by (cases "queue_remove_pid n (sem_queue s)")
  have b: "b \<longleftrightarrow> n \<in> set (pids (sem_queue s))" using queue_remove_pid_found [OF q, of n] by (simp add: r)
  have q': "pids q' = filter (\<lambda>x. x \<noteq> n) (pids (sem_queue s))" "q_ok q'"
    using pids_queue_remove_pid [OF q, of n] queue_remove_pid_ok [OF q, of n] by (simp_all add: r)
  let ?s = "s\<lparr>sem_queue := q', open_count := (if opened then open_count s - 1 else open_count s)\<rparr>"
  have f: "sem_forget opened holds n s =
      (if b then add_value 1 ?s else if holds then sem_up ?s else ?s)"
    using pos by (simp add: sem_forget_def r Let_def)
  have up: "pids (sem_queue (sem_up ?s)) =
      (if sem_wrapped s \<longrightarrow> i64 (sem_value s + 1) \<le> 0 then tl (pids q') else pids q')" if "\<not> b"
  proof (cases "q_count q' = 0")
    case True
    then have "tl (pids q') = pids q'" by (metis pids_eq_Nil list.sel(2))
    with True show ?thesis by (auto simp: sem_up_def Let_def)
  next
    case False
    have "pids q' = pids (sem_queue s)" using that unfolding q'(1) b by (intro filter_True) auto
    then have "q_count q' = q_count (sem_queue s)" using length_pids by metis
    then have "\<not> sem_wrapped s \<Longrightarrow> i64 (sem_value s + 1) \<le> 0" using False sem_good_up_le [OF g] by simp
    moreover have "pids (snd (queue_pop q')) = tl (pids q')"
      using pids_queue_pop [OF q'(2)] False by (metis list.sel(3) neq0_conv)
    ultimately show ?thesis using False by (cases "i64 (sem_value s + 1) \<le> 0") (auto simp: sem_up_def Let_def)
  qed
  show "pids (sem_queue (sem_forget opened holds n s)) =
      (if n \<notin> set (pids (sem_queue s)) \<and> holds \<and> (sem_wrapped s \<longrightarrow> i64 (sem_value s + 1) \<le> 0)
       then tl (filter (\<lambda>x. x \<noteq> n) (pids (sem_queue s)))
       else filter (\<lambda>x. x \<noteq> n) (pids (sem_queue s)))"
    unfolding f q'(1) [symmetric] b [symmetric] using up by auto
  have "i64 (sem_value s) = sem_value s" using g by (simp add: sem_good_def)
  then show "sem_value (sem_forget opened holds n s) =
      i64 (sem_value s + (if n \<in> set (pids (sem_queue s)) \<or> holds then 1 else 0))"
    "open_count (sem_forget opened holds n s) = open_count s - (if opened then 1 else 0)"
    unfolding f b [symmetric] by (simp_all add: sem_up_def Let_def)
qed

section \<open>A demo\<close>

text \<open>The demo kernel with a semaphore at value -1 for which process 3 waits.\<close>

definition demo_mutex :: semaphore where
  "demo_mutex = zero_sem\<lparr>sem_name := ''m'' @ replicate 31 NUL, sem_value := - 1, open_count := 2,
     sem_queue := sem_queue_push 3 empty_q\<rparr>"

definition demo_sem :: kernel where
  "demo_sem = upd_sem 0 (\<lambda>_. demo_mutex) (upd_proc 2 (\<lambda>p. p\<lparr>pstate := PROCESS_BLOCKED\<rparr>)
     (demo\<lparr>sem_table := \<lambda>_. zero_sem\<rparr>))"

lemma sem_good_zero: "sem_good zero_sem"
  by (simp add: sem_good_def zero_sem_def empty_q_def q_ok_def)

lemma cstr_replicate_NUL [simp]: "cstr (replicate n NUL) = []"
  by (cases n) simp_all

lemma demo_sem_facts:
  "kernel_inv demo_sem" "sems_ok demo_sem" "find_sem (Some ''m'') demo_sem = Some 0"
  "current_process demo_sem = Some 1"
proof -
  have q: "quiet demo (demo\<lparr>sem_table := \<lambda>_. zero_sem\<rparr>)" by (rule quiet_I) simp_all
  have q2: "quiet k (upd_proc 2 (\<lambda>p. p\<lparr>pstate := PROCESS_BLOCKED\<rparr>) k)"
    if "pstate (proc k 2) = PROCESS_READY" "current_process k = Some 1" for k
    using quiet_pstate [where b = False and s = PROCESS_BLOCKED and k = k and i = 2
        and f = "\<lambda>p. p\<lparr>pstate := PROCESS_BLOCKED\<rparr>"] that by simp
  have "quiet demo demo_sem"
    unfolding demo_sem_def
    by (rule quiet.sem_I, rule quiet_trans [OF q q2]) (simp_all add: demo_child_def)
  then show "kernel_inv demo_sem" by (rule kernel_inv_quiet [OF demo_inv]) (simp add: demo_sem_def)
  have "sem_good demo_mutex"
    using sem_queue_push_ok [of empty_q 3]
    by (simp add: sem_good_def demo_mutex_def zero_sem_def) (simp add: sem_queue_push_def empty_q_def)
  then show "sems_ok demo_sem"
    using sem_good_zero by (simp add: sems_ok_def demo_sem_def) (simp add: demo_def bss_kernel_def)
  show "find_sem (Some ''m'') demo_sem = Some 0"
    by (simp add: find_sem_def first_slot_Some demo_sem_def demo_mutex_def)
  show "current_process demo_sem = Some 1" by (simp add: demo_sem_def)
qed

section \<open>Properties\<close>

text \<open>
  C10: In every reachable state the spin lock of every semaphore is free, so that no operation spins
  forever; the indices of every wait queue are in range; and a semaphore whose value has not wrapped around
  since it was opened never has more waiters than its value is below zero: in particular none while the value is
  not negative. (\<open>sem_open\<close> takes any initial value, so that two waits from \<open>INT64_MIN + 1\<close> wrap it around, with
  the first of the callers still in the queue.)
\<close>

theorem reachable_semaphores:
  assumes "reachable k"
  shows "fault k \<noteq> Some Spin \<and>
    (\<forall>i. \<not> sem_locked (sem_table k i) \<and>
       q_head (sem_queue (sem_table k i)) < MAX_PROCESSES \<and>
       q_count (sem_queue (sem_table k i)) \<le> MAX_PROCESSES \<and>
       q_tail (sem_queue (sem_table k i)) =
         (q_head (sem_queue (sem_table k i)) + q_count (sem_queue (sem_table k i))) mod MAX_PROCESSES \<and>
       - (2 ^ 63) \<le> sem_value (sem_table k i) \<and> sem_value (sem_table k i) < 2 ^ 63 \<and>
       (\<not> sem_wrapped (sem_table k i) \<longrightarrow>
         int (q_count (sem_queue (sem_table k i))) \<le> max 0 (- sem_value (sem_table k i))))"
proof -
  have ok: "sems_ok k" by (rule reachable_sems_ok [OF assms])
  have "sem_good (sem_table k i)" for i by (rule sems_ok_sem [OF ok])
  then show ?thesis
    using ok sem_good_deficit sem_good_range unfolding sems_ok_def sem_good_def q_ok_def by blast
qed

theorem reachable_semaphores_witness:
  "fault (snd (boot demo_video 0 0 (\<lambda>_. 0))) \<noteq> Some Spin"
  using reachable_semaphores [OF booted] by (rule conjunct1)

lemma sem_wait_closed:
  assumes "kernel_inv k" and "sems_ok k" and "find_sem (Some nm) k = Some i" and "current_process k = Some c"
  shows "sem_wait (Some nm) k =
    (0, if 0 \<le> i64 (sem_value (sem_table k i) - 1)
        then upd_proc c (\<lambda>p. p\<lparr>held_sems := set_sem_bit i (held_sems p)\<rparr>)
               (upd_sem i (add_value (- 1)) k)
        else (upd_proc c (\<lambda>p. p\<lparr>pstate := PROCESS_BLOCKED\<rparr>)
               (upd_sem i (\<lambda>s. (add_value (- 1) s)\<lparr>sem_queue := sem_queue_push (pid (proc k c)) (sem_queue s)\<rparr>) k))\<lparr>force_switch := True\<rparr>)"
proof -
  let ?up = "\<lambda>f. upd_sem i f k"
  let ?blocked = "?up (\<lambda>s. (add_value (- 1) s)\<lparr>sem_queue := sem_queue_push (pid (proc k c)) (sem_queue s)\<rparr>)"
  have "quiet k ?blocked" by (rule quiet.R_sem)
  then have "kernel_inv ?blocked" by (rule kernel_inv_quiet [OF assms(1)]) simp
  then have b: "process_block (pid (proc k c)) ?blocked =
      (upd_proc c (\<lambda>p. p\<lparr>pstate := PROCESS_BLOCKED\<rparr>) ?blocked)\<lparr>force_switch := True\<rparr>"
    using process_block_current [of ?blocked c] assms(4) by simp
  have unl: "\<not> sem_locked (sem_table k i)" using sems_ok_sem [OF assms(2), of i] by (simp add: sem_good_def)
  have "sem_wait (Some nm) k =
    (0, if 0 \<le> i64 (sem_value (sem_table k i) - 1)
        then upd_proc c (\<lambda>p. p\<lparr>held_sems := set_sem_bit i (held_sems p)\<rparr>)
               (?up (add_value (- 1)))
        else process_block (pid (proc k c)) ?blocked)"
    using assms(3,4) unl
    by (simp add: sem_wait_def sem_lock_free sem_unlock_def process_current_def Let_def upd_sem_def upd_proc_def
        add_value_def)
  then show ?thesis unfolding b .
qed

text \<open>
  \<open>sem_wait\<close> on an open semaphore takes a unit at once if the value stays at zero or above, and records
  that the caller holds it; otherwise the caller is appended to the wait queue (which has room
  for 64) and blocked, a switch is requested, and nothing else changes. It returns 0 in
  both cases.
\<close>

lemma sem_wait_takes_or_blocks:
  assumes "kernel_inv k" and "sems_ok k" and "find_sem (Some nm) k = Some i" and "current_process k = Some c"
  shows "sem_wait (Some nm) k =
    (0, if 0 \<le> i64 (sem_value (sem_table k i) - 1)
        then upd_proc c (\<lambda>p. p\<lparr>held_sems := set_sem_bit i (held_sems p)\<rparr>)
               (upd_sem i (add_value (- 1)) k)
        else (upd_proc c (\<lambda>p. p\<lparr>pstate := PROCESS_BLOCKED\<rparr>)
               (upd_sem i (\<lambda>s. (add_value (- 1) s)\<lparr>sem_queue := sem_queue_push (pid (proc k c)) (sem_queue s)\<rparr>) k))\<lparr>force_switch := True\<rparr>) \<and>
    pids (sem_queue_push (pid (proc k c)) (sem_queue (sem_table k i))) =
      pids (sem_queue (sem_table k i)) @
        (if q_count (sem_queue (sem_table k i)) < MAX_PROCESSES then [pid (proc k c)] else [])"
proof -
  have "pids (sem_queue_push (pid (proc k c)) (sem_queue (sem_table k i))) =
      pids (sem_queue (sem_table k i)) @
        (if q_count (sem_queue (sem_table k i)) < MAX_PROCESSES then [pid (proc k c)] else [])"
    using semq.push_total_contents [of "sem_queue (sem_table k i)" "pid (proc k c)"] sems_ok_sem [OF assms(2), of i]
    by (simp add: sem_good_def)
  then show ?thesis using sem_wait_closed [OF assms] by blast
qed

lemma sem_wake_effect:
  assumes "i < 32" and "q = sem_queue (sem_table k i)"
  shows "pstate (proc (sem_wake i k) j) =
      (if process_get (fst (queue_pop q)) k = Some j \<and> pstate (proc k j) = PROCESS_BLOCKED
       then PROCESS_READY else pstate (proc k j))"
    and "process_get (fst (queue_pop q)) k = Some w \<Longrightarrow> sem_bit i (held_sems (proc (sem_wake i k) w))"
proof -
  let ?p = "fst (queue_pop q)" and ?k1 = "upd_sem i (\<lambda>s. s\<lparr>sem_queue := snd (queue_pop q)\<rparr>) k"
  define k2 where "k2 = (case process_get ?p k of None \<Rightarrow> ?k1
     | Some w \<Rightarrow> upd_proc w (\<lambda>c. c\<lparr>held_sems := set_sem_bit i (held_sems c)\<rparr>) ?k1)"
  have wake: "sem_wake i k = process_unblock ?p (sem_unlock i k2)"
    by (simp add: sem_wake_def assms(2) [symmetric] k2_def case_prod_beta Let_def)
  have st2: "pstate (proc (sem_unlock i k2) j) = pstate (proc k j)"
    "process_get n (sem_unlock i k2) = process_get n k" for j n
    by (simp_all add: k2_def sem_unlock_def process_get_harmless harmless_def split: option.split)
  show "pstate (proc (sem_wake i k) j) =
      (if process_get ?p k = Some j \<and> pstate (proc k j) = PROCESS_BLOCKED
       then PROCESS_READY else pstate (proc k j))"
    unfolding wake process_unblock_pstate st2 ..
  assume "process_get ?p k = Some w"
  then have "sem_bit i (held_sems (proc (sem_unlock i k2) w))"
    using assms(1) by (simp add: k2_def sem_unlock_def sem_bit_set)
  then show "sem_bit i (held_sems (proc (sem_wake i k) w))" unfolding wake by simp
qed

lemma sem_post_states:
  assumes "sems_ok k" and "find_sem (Some nm) k = Some i" and "current_process k = Some c"
  defines "w \<equiv> (if pids (sem_queue (sem_table k i)) = [] \<or>
       sem_wrapped (sem_table k i) \<and> 0 < i64 (sem_value (sem_table k i) + 1) then None
     else process_get (hd (pids (sem_queue (sem_table k i)))) k)"
  shows "pstate (proc (snd (sem_post (Some nm) k)) j) =
      (if w = Some j \<and> pstate (proc k j) = PROCESS_BLOCKED then PROCESS_READY else pstate (proc k j))"
    and "w = Some v \<Longrightarrow> sem_bit i (held_sems (proc (snd (sem_post (Some nm) k)) v))"
proof -
  let ?s = "sem_table k i" and ?k' = "snd (sem_post (Some nm) k)"
  have g: "sem_good ?s" by (rule sems_ok_sem [OF assms(1)])
  have i: "i < 32" using assms(2) by (auto simp: find_sem_def first_slot_Some)
  have unl: "\<not> sem_locked ?s" and q: "q_ok (sem_queue ?s)" using g by (simp_all add: sem_good_def)
  define k1 where "k1 = upd_sem i (add_value 1)
     (upd_proc c (\<lambda>p. p\<lparr>held_sems := clear_sem_bit i (held_sems p)\<rparr>) (sem_lock i k))"
  have st: "pstate (proc k1 j) = pstate (proc k j)" "process_get n k1 = process_get n k"
    "sem_queue (sem_table k1 i) = sem_queue ?s" for j n
    by (simp_all add: k1_def process_get_harmless harmless_def sem_lock_free unl)
  have post: "?k' = (if i64 (sem_value ?s + 1) \<le> 0 \<and> q_count (sem_queue ?s) > 0 then sem_wake i k1 else sem_unlock i k1)"
    using assms(2,3) by (simp add: sem_post_def process_current_def k1_def Let_def sem_lock_free unl)
  have "pstate (proc ?k' j) =
      (if w = Some j \<and> pstate (proc k j) = PROCESS_BLOCKED then PROCESS_READY else pstate (proc k j)) \<and>
    (w = Some v \<longrightarrow> sem_bit i (held_sems (proc ?k' v)))" for j v
  proof (cases "q_count (sem_queue ?s) = 0 \<or> 0 < i64 (sem_value ?s + 1)")
    case True
    then have "w = None" unfolding w_def using pids_empty sem_good_up_le [OF g] by fastforce
    moreover have "pstate (proc ?k' j) = pstate (proc k j)" unfolding post using True st by (auto simp: sem_unlock_def)
    ultimately show ?thesis by simp
  next
    case False
    then have le: "i64 (sem_value ?s + 1) \<le> 0" by simp
    have "pids (sem_queue ?s) = fst (queue_pop (sem_queue ?s)) # pids (snd (queue_pop (sem_queue ?s)))"
      using False by (intro pids_queue_pop [OF q]) simp
    then have w: "w = process_get (fst (queue_pop (sem_queue ?s))) k"
      using False unfolding w_def by (metis list.distinct(1) list.sel(1))
    have k': "?k' = sem_wake i k1" unfolding post using False le by simp
    show ?thesis using sem_wake_effect [OF i st(3) [symmetric]] unfolding k' w st by blast
  qed
  then show "pstate (proc ?k' j) =
      (if w = Some j \<and> pstate (proc k j) = PROCESS_BLOCKED then PROCESS_READY else pstate (proc k j))"
    and "w = Some v \<Longrightarrow> sem_bit i (held_sems (proc ?k' v))"
    by blast+
qed

lemma pids_sem_up: "sem_good s \<Longrightarrow> pids (sem_queue (sem_up s)) =
    (if sem_wrapped s \<longrightarrow> i64 (sem_value s + 1) \<le> 0 then tl (pids (sem_queue s)) else pids (sem_queue s))"
proof (cases "q_count (sem_queue s) = 0")
  case True
  have "tl (pids (sem_queue s)) = pids (sem_queue s)" unfolding pids_empty [OF True] by simp
  with True show ?thesis by (auto simp: sem_up_def Let_def simp del: pids_eq_Nil)
next
  case False
  assume g: "sem_good s"
  have "pids (sem_queue s) = fst (queue_pop (sem_queue s)) # pids (snd (queue_pop (sem_queue s)))"
    using False g by (intro pids_queue_pop) (simp_all add: sem_good_def)
  then have "tl (pids (sem_queue s)) = pids (snd (queue_pop (sem_queue s)))" by (metis list.sel(3))
  then show ?thesis using False sem_good_up_le [OF g] by (auto simp: sem_up_def Let_def)
qed

text \<open>
  C25: \<open>sem_post\<close> on an open semaphore returns 0 and adds one to the value. If processes wait, the
  one that has waited longest leaves the queue, holds the unit and becomes READY; the other
  waiters keep their order, and no other process changes its state. (A semaphore whose \<open>int64_t\<close> value has
  wrapped around hands over only if the new value is not positive.)
\<close>

theorem sem_post_hands_over:
  assumes "kernel_inv k" and "sems_ok k" and "find_sem (Some nm) k = Some i" and "current_process k = Some c"
  shows "let k' = snd (sem_post (Some nm) k); s = sem_table k i; s' = sem_table k' i;
      wakes = (pids (sem_queue s) \<noteq> [] \<and> (sem_wrapped s \<longrightarrow> sem_value s' \<le> 0)) in
    fst (sem_post (Some nm) k) = 0 \<and> sem_value s' = i64 (sem_value s + 1) \<and>
    (\<forall>j. j \<noteq> i \<longrightarrow> sem_table k' j = sem_table k j) \<and>
    pids (sem_queue s') = (if wakes then tl (pids (sem_queue s)) else pids (sem_queue s)) \<and>
    (\<forall>j. pstate (proc k' j) =
       (if wakes \<and> process_get (hd (pids (sem_queue s))) k = Some j \<and> pstate (proc k j) = PROCESS_BLOCKED
        then PROCESS_READY else pstate (proc k j))) \<and>
    (\<forall>w. wakes \<and> process_get (hd (pids (sem_queue s))) k = Some w \<longrightarrow>
       sem_bit i (held_sems (proc k' w)))"
proof -
  let ?s = "sem_table k i" and ?k' = "snd (sem_post (Some nm) k)"
  have g: "sem_good ?s" by (rule sems_ok_sem [OF assms(2)])
  have tab: "sem_table ?k' = (sem_table k)(i := sem_up ?s)" by (rule sem_post_table(1) [OF assms(2,3)])
  have r: "fst (sem_post (Some nm) k) = 0" using assms(3) by (simp add: sem_post_def Let_def)
  have up: "sem_value (sem_up ?s) = i64 (sem_value ?s + 1)" by (simp add: sem_up_def Let_def)
  have tl: "pids (sem_queue (sem_up ?s)) =
      (if pids (sem_queue ?s) \<noteq> [] \<and> (sem_wrapped ?s \<longrightarrow> i64 (sem_value ?s + 1) \<le> 0)
       then tl (pids (sem_queue ?s)) else pids (sem_queue ?s))"
    unfolding pids_sem_up [OF g] by (cases "pids (sem_queue ?s)") (simp_all del: pids_eq_Nil)
  show ?thesis
    using tab r up tl sem_post_states [OF assms(2-4)]
    by (auto simp: Let_def not_le simp del: pids_eq_Nil)
qed

theorem sem_post_hands_over_witness:
  "pids (sem_queue (sem_table (snd (sem_post (Some ''m'') demo_sem)) 0)) = [] \<and>
   pstate (proc (snd (sem_post (Some ''m'') demo_sem)) 2) = PROCESS_READY"
proof -
  have p: "pids (sem_queue demo_mutex) = [3]" "q_count (sem_queue demo_mutex) = 1" "\<not> sem_wrapped demo_mutex"
    by (simp_all add: demo_mutex_def zero_sem_def sem_queue_push_def empty_q_def pids_def ring_list_def)
  have s: "sem_table demo_sem 0 = demo_mutex" "pstate (proc demo_sem 2) = PROCESS_BLOCKED"
    by (simp_all add: demo_sem_def)
  have "pids_unique demo_sem" using demo_sem_facts(1) unfolding kernel_inv_def sys_inv_def table_inv_def by blast
  then have "process_get 3 demo_sem = Some 2"
    using process_get_pid [of demo_sem 2] by (simp add: demo_sem_def demo_child_def)
  then show ?thesis
    using sem_post_hands_over [OF demo_sem_facts] by (simp add: Let_def s p)
qed

text \<open>
  C26: The death of a process (\<open>sem_cleanup_for_process\<close>, called by exit and kill) removes it from the wait
  queue of every open semaphore; where it waited or held a unit the value goes up by one, and
  a unit it held goes to the first waiter; what it had opened is closed once; and
  its own bits are cleared. Closed semaphores are not touched. (A semaphore whose \<open>int64_t\<close> value has
  wrapped around hands the unit over only if the new value is not positive.)
\<close>

theorem sem_cleanup_releases:
  assumes "sems_ok k" and "process_get n k = Some p" and "i < MAX_SEMS"
  shows "let k' = sem_cleanup_for_process n k; s = sem_table k i; s' = sem_table k' i;
      waits = (n \<in> set (pids (sem_queue s))); holds = sem_bit i (held_sems (proc k p));
      rest = filter (\<lambda>x. x \<noteq> n) (pids (sem_queue s)) in
    held_sems (proc k' p) = 0 \<and> opened_sems (proc k' p) = 0 \<and>
    (if open_count s \<le> 0 then s' = s
     else pids (sem_queue s') =
         (if \<not> waits \<and> holds \<and> (sem_wrapped s \<longrightarrow> sem_value s' \<le> 0) then tl rest else rest) \<and>
       sem_value s' = i64 (sem_value s + (if waits \<or> holds then 1 else 0)) \<and>
       open_count s' = open_count s - (if sem_bit i (opened_sems (proc k p)) then 1 else 0))"
proof -
  let ?k' = "sem_cleanup_for_process n k"
  let ?s = "sem_table k i"
  have tab: "sem_table ?k' i = sem_forget (sem_bit i (opened_sems (proc k p))) (sem_bit i (held_sems (proc k p))) n ?s"
    using sem_cleanup_table [OF assms(1,2), of i] assms(3) by simp
  have bits: "held_sems (proc ?k' p) = 0 \<and> opened_sems (proc ?k' p) = 0"
    using assms(2) by (simp add: sem_cleanup_for_process_def)
  have g: "sem_good ?s" by (rule sems_ok_sem [OF assms(1)])
  show ?thesis
  proof (cases "open_count ?s \<le> 0")
    case True
    then show ?thesis using bits by (simp add: tab Let_def sem_forget_closed)
  next
    case False
    define s' where "s' = sem_forget (sem_bit i (opened_sems (proc k p))) (sem_bit i (held_sems (proc k p))) n ?s"
    have "0 < open_count ?s" using False by simp
    note s' = sem_forget_open [OF g this, of "sem_bit i (opened_sems (proc k p))" "sem_bit i (held_sems (proc k p))" n,
        folded s'_def]
    show ?thesis using bits False s' unfolding tab Let_def s'_def [symmetric] by auto
  qed
qed

theorem sem_cleanup_releases_witness:
  "pids (sem_queue (sem_table (sem_cleanup_for_process 3 demo_sem) 0)) = [] \<and>
   sem_value (sem_table (sem_cleanup_for_process 3 demo_sem) 0) = 0"
proof -
  have p: "pids (sem_queue demo_mutex) = [3]" "sem_value demo_mutex = - 1" "open_count demo_mutex = 2"
    by (simp_all add: demo_mutex_def sem_queue_push_def empty_q_def pids_def ring_list_def)
  have s: "sem_table demo_sem 0 = demo_mutex" by (simp add: demo_sem_def)
  have u: "pids_unique demo_sem" using demo_sem_facts(1) unfolding kernel_inv_def sys_inv_def table_inv_def by blast
  have "process_get 3 demo_sem = Some 2"
    using process_get_pid [OF u, of 2] by (simp add: demo_sem_def demo_child_def)
  from sem_cleanup_releases [OF demo_sem_facts(2) this, of 0] show ?thesis
    by (simp add: Let_def s p del: pids_eq_Nil)
qed

text \<open>
  C27: Opening a name no open semaphore has creates the semaphore, if a slot is free: with a name of at most
  31 characters, every later call with that name finds it, with the initial value given, an
  empty wait queue and one opener. A longer name is cut off when it is stored and compared
  in full when it is looked up, so that the semaphore just opened cannot be found by the name
  it was opened with: waiting, posting and closing return -1.
\<close>

theorem sem_open_then_find:
  assumes "sems_ok k" and "find_sem (Some nm) k = None" and "i < MAX_SEMS" and "open_count (sem_table k i) = 0"
  shows "let k' = snd (sem_open (Some nm) v k) in
    fst (sem_open (Some nm) v k) = 1 \<and>
    (if length (cstr nm) < SEM_NAME_LEN
     then \<exists>j. find_sem (Some nm) k' = Some j \<and> sem_value (sem_table k' j) = sint v \<and>
            pids (sem_queue (sem_table k' j)) = [] \<and> open_count (sem_table k' j) = 1
     else find_sem (Some nm) k' = None \<and> fst (sem_wait (Some nm) k') = - 1 \<and>
          fst (sem_post (Some nm) k') = - 1 \<and> fst (sem_close (Some nm) k') = - 1)"
proof -
  let ?k' = "snd (sem_open (Some nm) v k)"
  obtain j where j: "first_slot MAX_SEMS (\<lambda>i. open_count (sem_table k i) = 0) = Some j"
    using assms(3,4) first_slot_None [of MAX_SEMS "\<lambda>i. open_count (sem_table k i) = 0"] by blast
  then have j32: "j < MAX_SEMS" by (simp add: first_slot_Some)
  let ?new = "(sem_table k j)\<lparr>sem_name := sem_str_copy (sem_name (sem_table k j)) (Some nm) SEM_NAME_LEN,
      sem_value := sint v, open_count := 1, sem_queue := reset_queue (sem_queue (sem_table k j)),
      sem_locked := False, sem_wrapped := False\<rparr>"
  have tab: "fst (sem_open (Some nm) v k) = 1" "sem_table ?k' = (sem_table k)(j := ?new)"
    using assms(2) j by (simp_all add: sem_open_def)
  have "length (sem_name (sem_table k j)) = SEM_NAME_LEN"
    using sems_ok_sem [OF assms(1), of j] by (simp add: sem_good_def)
  then have nm: "cstr (sem_name ?new) = take 31 (cstr nm)"
    by (simp add: sem_str_copy_eq cstr_str_copy)
  have others: "\<not> (0 < open_count (sem_table k i) \<and> cstr (sem_name (sem_table k i)) = cstr nm)" if "i < MAX_SEMS" for i
    using assms(2) that by (simp add: find_sem_def first_slot_None)
  show ?thesis
  proof (cases "length (cstr nm) < SEM_NAME_LEN")
    case True
    have "find_sem (Some nm) ?k' = Some j"
      unfolding find_sem_def
      by (rule first_slot_unique [OF j32]) (use True others nm in \<open>auto simp: tab split: if_splits\<close>)
    moreover have "pids (sem_queue ?new) = []" by (simp add: reset_queue_def)
    ultimately show ?thesis using True tab by (simp add: Let_def)
  next
    case False
    then have "length (take 31 (cstr nm)) \<noteq> length (cstr nm)" by simp
    then have "take 31 (cstr nm) \<noteq> cstr nm" by metis
    then have "find_sem (Some nm) ?k' = None"
      using others nm by (auto simp: find_sem_def first_slot_None tab)
    then show ?thesis using False tab by (simp add: Let_def sem_wait_def sem_post_def sem_close_def)
  qed
qed

theorem sem_open_then_find_witness:
  "fst (sem_wait (Some (replicate 32 CHR ''x'')) (snd (sem_open (Some (replicate 32 CHR ''x'')) 1 demo_sem))) = - 1 \<and>
   (\<exists>j. find_sem (Some ''ab'') (snd (sem_open (Some ''ab'') 1 demo_sem)) = Some j)"
proof -
  have none: "find_sem (Some nm) demo_sem = None" if "cstr nm \<noteq> ''m''" for nm
    using that by (auto simp: find_sem_def first_slot_None demo_sem_def demo_mutex_def zero_sem_def)
  have free: "open_count (sem_table demo_sem 1) = 0" by (simp add: demo_sem_def zero_sem_def)
  have c: "cstr (replicate 32 CHR ''x'') = replicate 32 CHR ''x''"
    by (rule cstr_no_NUL) simp
  have ne: "replicate 32 CHR ''x'' \<noteq> ''m''"
    by (auto dest: arg_cong [where f = length])
  show ?thesis
    using sem_open_then_find [OF demo_sem_facts(2) none [of "replicate 32 CHR ''x''"] _ free, of 1]
      sem_open_then_find [OF demo_sem_facts(2) none [of "''ab''"] _ free, of 1]
    by (auto simp: Let_def c ne)
qed

end
