(* ===== verification/Props_Pipe.thy ===== *)
theory Props_Pipe
  imports Demo Fd_Inv
begin

text \<open>
  The properties of the pipes and the descriptors: the ring, blocking, end of file, the
  reference counts, and what happens when the descriptor table is full.
\<close>

section \<open>Waking one waiter\<close>

lemma pids_0: "q_count q = 0 \<Longrightarrow> pids q = []"
  by simp

lemma wake_writer_queue:
  assumes "pipe_good (pipe_table k p)"
  shows "pids (wait_writers (pipe_table (pipe_wake_writer p k) p)) = tl (pids (wait_writers (pipe_table k p)))"
    and "wait_readers (pipe_table (pipe_wake_writer p k) p) = wait_readers (pipe_table k p)"
    and "pipe_bytes (pipe_table (pipe_wake_writer p k) p) = pipe_bytes (pipe_table k p)"
    and "q \<noteq> p \<Longrightarrow> pipe_table (pipe_wake_writer p k) q = pipe_table k q"
proof -
  have q: "q_ok (wait_writers (pipe_table k p))" using assms by (simp add: pipe_good_def waitq_ok_def)
  show "pids (wait_writers (pipe_table (pipe_wake_writer p k) p)) = tl (pids (wait_writers (pipe_table k p)))"
  proof (cases "q_count (wait_writers (pipe_table k p)) = 0")
    case True
    then show ?thesis by (simp add: pipe_wake_writer_def pids_0)
  next
    case False
    then show ?thesis
      using pids_queue_pop [OF q] by (simp add: pipe_wake_writer_def case_prod_beta)
  qed
qed (simp_all add: pipe_wake_writer_def case_prod_beta pipe_bytes_def)

lemma wake_reader_queue:
  assumes "pipe_good (pipe_table k p)"
  shows "pids (wait_readers (pipe_table (pipe_wake_reader p k) p)) = tl (pids (wait_readers (pipe_table k p)))"
    and "wait_writers (pipe_table (pipe_wake_reader p k) p) = wait_writers (pipe_table k p)"
    and "pipe_bytes (pipe_table (pipe_wake_reader p k) p) = pipe_bytes (pipe_table k p)"
    and "q \<noteq> p \<Longrightarrow> pipe_table (pipe_wake_reader p k) q = pipe_table k q"
proof -
  have q: "q_ok (wait_readers (pipe_table k p))" using assms by (simp add: pipe_good_def waitq_ok_def)
  show "pids (wait_readers (pipe_table (pipe_wake_reader p k) p)) = tl (pids (wait_readers (pipe_table k p)))"
  proof (cases "q_count (wait_readers (pipe_table k p)) = 0")
    case True
    then show ?thesis by (simp add: pipe_wake_reader_def pids_0)
  next
    case False
    then show ?thesis
      using pids_queue_pop [OF q] by (simp add: pipe_wake_reader_def case_prod_beta)
  qed
qed (simp_all add: pipe_wake_reader_def case_prod_beta pipe_bytes_def)

text \<open>Who is woken: the process at the head of the queue, if it is still blocked.\<close>

definition woken :: "pidq \<Rightarrow> kernel \<Rightarrow> nat \<Rightarrow> bool" where
  "woken q k j \<longleftrightarrow> 0 < q_count q \<and> process_get (fst (queue_pop q)) k = Some j \<and> pstate (proc k j) = PROCESS_BLOCKED"

lemma wake_writer_pstate:
  "pstate (proc (pipe_wake_writer p k) j) =
     (if woken (wait_writers (pipe_table k p)) k j then PROCESS_READY else pstate (proc k j))"
  by (auto simp: pipe_wake_writer_def case_prod_beta woken_def process_unblock_pstate process_get_def)

lemma wake_reader_pstate:
  "pstate (proc (pipe_wake_reader p k) j) =
     (if woken (wait_readers (pipe_table k p)) k j then PROCESS_READY else pstate (proc k j))"
  by (auto simp: pipe_wake_reader_def case_prod_beta woken_def process_unblock_pstate process_get_def)

lemma woken_cong: "process_table k' = process_table k \<Longrightarrow> woken q k' j = woken q k j"
  by (simp add: woken_def process_get_def)

section \<open>Reading and writing in closed form\<close>

definition at_eof :: "pipe \<Rightarrow> bool" where
  "at_eof s \<longleftrightarrow> (if is_named s then p_eof s else open_write s = 0)"

lemma pipe_read_empty:
  "cnt \<noteq> 0 \<Longrightarrow> p_count (pipe_table k p) = 0 \<Longrightarrow>
   pipe_read (Some p) False cnt k =
     (if at_eof (pipe_table k p) then (0, [], k) else (READ_BLOCKED, [], block_reader p k))"
  by (simp add: pipe_read_def at_eof_def Let_def)

lemma pipe_read_some:
  assumes g: "pipe_good (pipe_table k p)" and c: "cnt \<noteq> 0" "0 < p_count (pipe_table k p)"
  shows "\<exists>s'. pipe_read (Some p) False cnt k =
      (of_nat (min (unat cnt) (p_count (pipe_table k p))), take (unat cnt) (pipe_bytes (pipe_table k p)),
       pipe_wake_writer p (upd_pipe p (\<lambda>_. s') k)) \<and>
     pipe_bytes s' = drop (unat cnt) (pipe_bytes (pipe_table k p)) \<and> no_ring s' = no_ring (pipe_table k p) \<and> pipe_good s'"
proof -
  let ?s = "pipe_table k p"
  let ?n = "if unat cnt > p_count ?s then p_count ?s else unat cnt"
  let ?s' = "snd (pop_n pipe_get ?n ?s)"
  have r: "ring_ok ?s" using g by (simp add: pipe_good_def)
  have n: "?n = min (unat cnt) (p_count ?s)" by simp
  have pop: "fst (pop_n pipe_get ?n ?s) = take ?n (pipe_bytes ?s)" "pipe_bytes ?s' = drop ?n (pipe_bytes ?s)" "ring_ok ?s'"
    using pipe_ring.pop_n_contents [OF r, of ?n] by auto
  have td: "take ?n (pipe_bytes ?s) = take (unat cnt) (pipe_bytes ?s)" "drop ?n (pipe_bytes ?s) = drop (unat cnt) (pipe_bytes ?s)"
    by auto
  have "p_count ?s' < PIPE_BUFFER_SIZE"
  proof -
    have "length (pipe_bytes ?s') < PIPE_BUFFER_SIZE"
      unfolding pop(2) using r c unat_gt_0 [of cnt] by (auto simp: ring_ok_def)
    then show ?thesis by simp
  qed
  then have "pipe_read (Some p) False cnt k = (of_nat ?n, fst (pop_n pipe_get ?n ?s), pipe_wake_writer p (upd_pipe p (\<lambda>_. ?s') k))"
    using c by (simp add: pipe_read_def Let_def case_prod_beta pipe_wake_writer_def)
  moreover have "pipe_good ?s'" by (rule pipe_good_ring [OF g no_ring_pop_n pop(3)])
  ultimately show ?thesis using pop td unfolding n by (intro exI [where x = ?s'] conjI) auto
qed

lemma pipe_write_some:
  assumes g: "pipe_good (pipe_table k p)" and c: "cnt \<noteq> 0" "unat cnt \<le> length bs"
    and o: "open_read (pipe_table k p) \<noteq> 0" "p_count (pipe_table k p) < PIPE_BUFFER_SIZE"
  shows "\<exists>s'. pipe_write (Some p) (Some bs) cnt k =
      (of_nat (min (unat cnt) (PIPE_BUFFER_SIZE - p_count (pipe_table k p))), pipe_wake_reader p (upd_pipe p (\<lambda>_. s') k)) \<and>
     pipe_bytes s' = pipe_bytes (pipe_table k p) @ take (min (unat cnt) (PIPE_BUFFER_SIZE - p_count (pipe_table k p))) bs \<and>
     no_ring s' = no_ring (pipe_table k p) \<and> pipe_good s'"
proof -
  let ?s = "pipe_table k p"
  let ?n = "if unat cnt < PIPE_BUFFER_SIZE - p_count ?s then unat cnt else PIPE_BUFFER_SIZE - p_count ?s"
  let ?s' = "push_list pipe_put (take ?n bs) ?s"
  have r: "ring_ok ?s" using g by (simp add: pipe_good_def)
  have n: "?n = min (unat cnt) (PIPE_BUFFER_SIZE - p_count ?s)" by simp
  have "p_count ?s + length (take ?n bs) \<le> PIPE_BUFFER_SIZE" using r by (auto simp: ring_ok_def)
  then have push: "ring_ok ?s'" "pipe_bytes ?s' = pipe_bytes ?s @ take ?n bs"
    using pipe_ring.push_list_contents [OF r, of "take ?n bs"] unfolding length_pipe_bytes by blast+
  have "0 < ?n" using c o(2) unat_gt_0 [of cnt] by auto
  then have "0 < length (pipe_bytes ?s')" unfolding push(2) using c(2) by auto
  then have "pipe_write (Some p) (Some bs) cnt k = (of_nat ?n, pipe_wake_reader p (upd_pipe p (\<lambda>_. ?s') k))"
    using c(1) o by (simp add: pipe_write_def Let_def pipe_wake_reader_def)
  moreover have "pipe_good ?s'" by (rule pipe_good_ring [OF g no_ring_push_list push(1)])
  ultimately show ?thesis using push unfolding n by (intro exI [where x = ?s'] conjI) auto
qed

section \<open>A demo\<close>

text \<open>Pipe 0, anonymous, with both ends open; process 3 waits to read from it.\<close>

definition demo_pipe :: pipe where
  "demo_pipe = zero_pipe\<lparr>in_use := True, open_read := 1, open_write := 1,
     wait_readers := pipe_queue_push 3 empty_q\<rparr>"

definition demo_pipes :: kernel where
  "demo_pipes = upd_pipe 0 (\<lambda>_. demo_pipe) (upd_proc 2 (\<lambda>p. p\<lparr>pstate := PROCESS_BLOCKED\<rparr>)
     (demo\<lparr>pipe_table := \<lambda>_. zero_pipe\<rparr>))"

lemma pipe_good_zero: "pipe_good zero_pipe"
  by (simp add: pipe_good_def zero_pipe_def ring_ok_def waitq_ok_def)

lemma demo_pipe_good: "pipe_good demo_pipe"
  unfolding demo_pipe_def
  using pipe_good_zero waitq_ok_push [of empty_q 3] by (simp add: waitq_ok_def pipe_good_waitq)

lemma demo_pipes_ok: "pipes_ok demo_pipes"
  using demo_pipe_good pipe_good_zero by (simp add: pipes_ok_def demo_pipes_def)

lemma demo_pipes_simps [simp]: "pipe_table demo_pipes 0 = demo_pipe" "current_process demo_pipes = Some 1"
  by (simp_all add: demo_pipes_def)

lemma demo_pipe_simps [simp]:
  "p_count demo_pipe = 0" "open_read demo_pipe = 1" "open_write demo_pipe = 1" "pipe_bytes demo_pipe = []"
  "\<not> is_named demo_pipe"
  by (simp_all add: demo_pipe_def zero_pipe_def pipe_bytes_def)

section \<open>Properties\<close>

text \<open>
  C12: In every reachable state the ring of every pipe is well formed (its read index inside the
  buffer, at most 4096 bytes, the write index behind the last byte), and a process
  stands at most once in the queue of readers and at most once in the queue of writers.
\<close>

theorem reachable_pipes:
  assumes "reachable k"
  shows "read_idx (pipe_table k p) < PIPE_BUFFER_SIZE \<and> p_count (pipe_table k p) \<le> PIPE_BUFFER_SIZE \<and>
    write_idx (pipe_table k p) = (read_idx (pipe_table k p) + p_count (pipe_table k p)) mod PIPE_BUFFER_SIZE \<and>
    q_count (wait_readers (pipe_table k p)) \<le> MAX_PROCESSES \<and> distinct (pids (wait_readers (pipe_table k p))) \<and>
    q_count (wait_writers (pipe_table k p)) \<le> MAX_PROCESSES \<and> distinct (pids (wait_writers (pipe_table k p)))"
  using pipes_ok_pipe [OF reachable_pipes_ok [OF assms], of p]
  unfolding pipe_good_def ring_ok_def waitq_ok_def q_ok_def by blast

theorem reachable_pipes_witness:
  "p_count (pipe_table (snd (boot demo_video 0 0 (\<lambda>_. 0))) 0) \<le> PIPE_BUFFER_SIZE"
  using reachable_pipes [OF booted] by blast

text \<open>
  C11: In every reachable state a pipe descriptor in use has at least one reference and points to a
  pipe that is in use, and the number of open read (write) ends a pipe counts is
  the sum of the reference counts of its read (write) descriptors: no descriptor dangles, no end
  is lost and no pipe is given back too early. Descriptors 0 and 1 stay the terminal.
\<close>

theorem reachable_descriptors:
  assumes "reachable k"
  shows "(\<forall>i<MAX_FDS. fd_type (fd_table k i) = FD_PIPE_READ \<or> fd_type (fd_table k i) = FD_PIPE_WRITE \<longrightarrow>
      0 < refcount (fd_table k i) \<and>
      (\<exists>p<MAX_PIPES. fd_data (fd_table k i) = Some p \<and> in_use (pipe_table k p))) \<and>
    (\<forall>p. open_read (pipe_table k p) =
        (\<Sum>i | i < MAX_FDS \<and> fd_type (fd_table k i) = FD_PIPE_READ \<and> fd_data (fd_table k i) = Some p. refcount (fd_table k i)) \<and>
      open_write (pipe_table k p) =
        (\<Sum>i | i < MAX_FDS \<and> fd_type (fd_table k i) = FD_PIPE_WRITE \<and> fd_data (fd_table k i) = Some p. refcount (fd_table k i))) \<and>
    fd_type (fd_table k 0) = FD_TERMINAL \<and> fd_type (fd_table k 1) = FD_TERMINAL"
proof -
  have k: "fds_ok k" by (rule reachable_fds_ok [OF assms])
  have "refs t p f = (\<Sum>i | i < MAX_FDS \<and> fd_type (f i) = t \<and> fd_data (f i) = Some p. refcount (f i))" for t p f
    unfolding refs_def contrib_def by (rule sum.mono_neutral_cong_right) auto
  then show ?thesis using k unfolding fds_ok_def by simp
qed

theorem reachable_descriptors_witness:
  "fd_type (fd_table (snd (boot demo_video 0 0 (\<lambda>_. 0))) 0) = FD_TERMINAL"
  using reachable_descriptors [OF booted] by blast

text \<open>
  C28: Reading from a pipe. An empty pipe gives 0 at end of file (no writer, or for a named pipe the
  EOF mark) and otherwise blocks the reader and returns -1. A pipe with data gives the
  oldest bytes, as many as asked for and present, removes exactly these, and wakes the writer
  that has waited longest; other readers stay queued even if data is left.
\<close>

theorem pipe_read_result:
  assumes "pipes_ok k" and "cnt \<noteq> 0"
  shows "let s = pipe_table k p; (n, bytes, k') = pipe_read (Some p) False cnt k; s' = pipe_table k' p in
    if p_count s = 0
    then bytes = [] \<and> (if at_eof s then n = 0 \<and> k' = k else n = - 1 \<and> k' = block_reader p k)
    else bytes = take (unat cnt) (pipe_bytes s) \<and> n = of_nat (length bytes) \<and>
      pipe_bytes s' = drop (unat cnt) (pipe_bytes s) \<and>
      pids (wait_writers s') = tl (pids (wait_writers s)) \<and> wait_readers s' = wait_readers s \<and>
      (\<forall>q. q \<noteq> p \<longrightarrow> pipe_table k' q = pipe_table k q) \<and>
      (\<forall>j. pstate (proc k' j) = (if woken (wait_writers s) k j then PROCESS_READY else pstate (proc k j)))"
proof (cases "p_count (pipe_table k p) = 0")
  case True
  then show ?thesis using assms(2) by (simp add: pipe_read_empty Let_def)
next
  case False
  have g: "pipe_good (pipe_table k p)" by (rule pipes_ok_pipe [OF assms(1)])
  obtain s' where s': "pipe_read (Some p) False cnt k =
      (of_nat (min (unat cnt) (p_count (pipe_table k p))), take (unat cnt) (pipe_bytes (pipe_table k p)),
       pipe_wake_writer p (upd_pipe p (\<lambda>_. s') k))"
    "pipe_bytes s' = drop (unat cnt) (pipe_bytes (pipe_table k p))" "no_ring s' = no_ring (pipe_table k p)" "pipe_good s'"
    using pipe_read_some [OF g assms(2)] False by blast
  let ?k1 = "upd_pipe p (\<lambda>_. s') k"
  have g1: "pipe_good (pipe_table ?k1 p)" using s'(4) by simp
  note w = wake_writer_queue [OF g1] and f = no_ring_fields(3,4) [OF s'(3)]
  have "woken q ?k1 j = woken q k j" for q j by (rule woken_cong) simp
  then show ?thesis
    using False w s'(2) f by (simp add: s'(1) Let_def wake_writer_pstate min.commute)
qed

theorem pipe_read_result_witness:
  "fst (pipe_read (Some 0) False 5 demo_pipes) = - 1"
  using pipe_read_result [OF demo_pipes_ok, of 5 0] by (simp add: at_eof_def Let_def case_prod_beta)

text \<open>
  Writing to a pipe with a reader and space appends as many of the bytes as fit, behind what is there,
  returns their number, and wakes the reader that has waited longest. Without a reader the
  result is 0 for an anonymous pipe (and for a named one after end of file), else, as for
  a full pipe, the writer blocks and the result is -1.
\<close>

lemma pipe_write_result:
  assumes "pipes_ok k" and "cnt \<noteq> 0" and "unat cnt \<le> length bs"
  shows "let s = pipe_table k p; (n, k') = pipe_write (Some p) (Some bs) cnt k; s' = pipe_table k' p;
      room = PIPE_BUFFER_SIZE - p_count s in
    if open_read s = 0 \<and> (\<not> is_named s \<or> p_eof s) then n = 0 \<and> k' = k
    else if open_read s = 0 \<or> room = 0 then n = - 1 \<and> k' = block_writer p k
    else n = of_nat (min (unat cnt) room) \<and>
      pipe_bytes s' = pipe_bytes s @ take (min (unat cnt) room) bs \<and>
      pids (wait_readers s') = tl (pids (wait_readers s)) \<and> wait_writers s' = wait_writers s \<and>
      (\<forall>q. q \<noteq> p \<longrightarrow> pipe_table k' q = pipe_table k q) \<and>
      (\<forall>j. pstate (proc k' j) = (if woken (wait_readers s) k j then PROCESS_READY else pstate (proc k j)))"
proof (cases "open_read (pipe_table k p) \<noteq> 0 \<and> p_count (pipe_table k p) < PIPE_BUFFER_SIZE")
  case False
  then show ?thesis using assms(2) by (auto simp: pipe_write_def Let_def)
next
  case True
  have g: "pipe_good (pipe_table k p)" by (rule pipes_ok_pipe [OF assms(1)])
  obtain s' where s': "pipe_write (Some p) (Some bs) cnt k =
      (of_nat (min (unat cnt) (PIPE_BUFFER_SIZE - p_count (pipe_table k p))), pipe_wake_reader p (upd_pipe p (\<lambda>_. s') k))"
    "pipe_bytes s' = pipe_bytes (pipe_table k p) @ take (min (unat cnt) (PIPE_BUFFER_SIZE - p_count (pipe_table k p))) bs"
    "no_ring s' = no_ring (pipe_table k p)" "pipe_good s'"
    using pipe_write_some [OF g assms(2,3)] True by blast
  let ?k1 = "upd_pipe p (\<lambda>_. s') k"
  have g1: "pipe_good (pipe_table ?k1 p)" using s'(4) by simp
  note w = wake_reader_queue [OF g1] and f = no_ring_fields(3,4) [OF s'(3)]
  have "woken q ?k1 j = woken q k j" for q j by (rule woken_cong) simp
  then show ?thesis
    using True w s'(2) f by (simp add: s'(1) Let_def wake_reader_pstate)
qed

text \<open>
  C16: What is written to a pipe is read back unchanged and in order, behind what was there: after a write that fits,
  a read of everything gives the old contents followed by the bytes written, and leaves the pipe
  empty, wherever in the ring the bytes lie.
\<close>

theorem pipe_write_read:
  assumes "pipes_ok k" and "bs \<noteq> []" and "open_read (pipe_table k p) \<noteq> 0"
    and "p_count (pipe_table k p) + length bs \<le> PIPE_BUFFER_SIZE"
    and "p_count (pipe_table k p) + length bs \<le> unat cnt"
  shows "let k1 = snd (pipe_write (Some p) (Some bs) (of_nat (length bs)) k); r = pipe_read (Some p) False cnt k1 in
    fst (pipe_write (Some p) (Some bs) (of_nat (length bs)) k) = of_nat (length bs) \<and>
    fst (snd r) = pipe_bytes (pipe_table k p) @ bs \<and>
    fst r = of_nat (p_count (pipe_table k p) + length bs) \<and> pipe_bytes (pipe_table (snd (snd r)) p) = []"
proof -
  let ?n = "of_nat (length bs) :: u64"
  have u: "unat ?n = length bs" using assms(4) by (simp add: unat_of_nat)
  have n0: "?n \<noteq> 0" using u assms(2) by (metis length_0_conv unat_0)
  have c0: "cnt \<noteq> 0" using assms(2,5) by auto
  have g: "pipe_good (pipe_table k p)" by (rule pipes_ok_pipe [OF assms(1)])
  have room: "p_count (pipe_table k p) < PIPE_BUFFER_SIZE" using assms(2,4) by (cases bs) auto
  obtain s' where w: "pipe_write (Some p) (Some bs) ?n k =
      (of_nat (min (unat ?n) (PIPE_BUFFER_SIZE - p_count (pipe_table k p))), pipe_wake_reader p (upd_pipe p (\<lambda>_. s') k))"
    "pipe_bytes s' = pipe_bytes (pipe_table k p) @ take (min (unat ?n) (PIPE_BUFFER_SIZE - p_count (pipe_table k p))) bs" "pipe_good s'"
    using pipe_write_some [OF g n0 _ assms(3) room, of bs] u by auto
  have m: "min (unat ?n) (PIPE_BUFFER_SIZE - p_count (pipe_table k p)) = length bs" using assms(4) u by simp
  let ?k1 = "pipe_wake_reader p (upd_pipe p (\<lambda>_. s') k)"
  have b1: "pipe_bytes (pipe_table ?k1 p) = pipe_bytes (pipe_table k p) @ bs"
    using wake_reader_queue(3) [of "upd_pipe p (\<lambda>_. s') k" p] w(2,3) m by simp
  have "pipes_ok ?k1" by (intro wake_reader_ok pipes_ok_upd assms(1) w(3))
  then have g1: "pipe_good (pipe_table ?k1 p)" by (rule pipes_ok_pipe)
  have c1: "p_count (pipe_table ?k1 p) = p_count (pipe_table k p) + length bs"
    using arg_cong [OF b1, of length] by simp
  then have pos: "0 < p_count (pipe_table ?k1 p)" using assms(2) by simp
  obtain s2 where r: "pipe_read (Some p) False cnt ?k1 =
      (of_nat (min (unat cnt) (p_count (pipe_table ?k1 p))), take (unat cnt) (pipe_bytes (pipe_table ?k1 p)),
       pipe_wake_writer p (upd_pipe p (\<lambda>_. s2) ?k1))"
    "pipe_bytes s2 = drop (unat cnt) (pipe_bytes (pipe_table ?k1 p))" "pipe_good s2"
    using pipe_read_some [OF g1 c0 pos] by blast
  have "pipe_bytes (pipe_table (pipe_wake_writer p (upd_pipe p (\<lambda>_. s2) ?k1)) p) = pipe_bytes s2"
    using wake_writer_queue(3) [of "upd_pipe p (\<lambda>_. s2) ?k1" p] r(3) by simp
  then show ?thesis
    using assms(5) by (simp add: w(1) m r(1,2) b1 c1 Let_def del: wake_writer_ends wake_reader_ends)
qed

theorem pipe_write_read_witness:
  "fst (snd (pipe_read (Some 0) False 9 (snd (pipe_write (Some 0) (Some ''abc'') 3 demo_pipes)))) = ''abc''"
  using pipe_write_read [OF demo_pipes_ok, of "''abc''" 0 9] by (simp add: Let_def)

text \<open>
  When no descriptor is free, \<open>sys_pipe\<close> returns -1 but keeps the pipe it has just taken: the slot is
  marked in use with no end open and no descriptor pointing to it, so nothing can ever give it
  back.
\<close>

lemma sys_pipe_leaks:
  assumes "fds_ok k" and "\<forall>i<MAX_FDS. fd_type (fd_table k i) \<noteq> FD_NONE"
    and "p < MAX_PIPES" and "\<not> in_use (pipe_table k p)"
  shows "fst (sys_pipe False k) = - 1 \<and>
    (\<exists>q<MAX_PIPES. let k' = snd (snd (sys_pipe False k)) in
       \<not> in_use (pipe_table k q) \<and> in_use (pipe_table k' q) \<and>
       open_read (pipe_table k' q) = 0 \<and> open_write (pipe_table k' q) = 0 \<and>
       (\<forall>i<MAX_FDS. fd_type (fd_table k' i) = FD_PIPE_READ \<or> fd_type (fd_table k' i) = FD_PIPE_WRITE \<longrightarrow>
          fd_data (fd_table k' i) \<noteq> Some q))"
proof -
  obtain q where q: "first_slot MAX_PIPES (\<lambda>i. \<not> in_use (pipe_table k i)) = Some q"
    using assms(3,4) first_slot_None [of MAX_PIPES "\<lambda>i. \<not> in_use (pipe_table k i)"] by blast
  then have q': "q < MAX_PIPES" "\<not> in_use (pipe_table k q)" by (auto simp: first_slot_Some)
  have none: "first_slot MAX_FDS (\<lambda>i. fd_type (fd_table k i) = FD_NONE) = None"
    using assms(2) by (simp add: first_slot_None)
  let ?k' = "upd_pipe q (\<lambda>s. (pipe_reset s)\<lparr>in_use := True\<rparr>) k"
  have eq: "sys_pipe False k = (- 1, No_Output, ?k')"
    by (simp add: sys_pipe_def pipe_open_def pipe_alloc_def q pipe_create_fds_def fd_create_pipe_def fd_alloc_def none)
  have "\<forall>i<MAX_FDS. fd_type (fd_table k i) = FD_PIPE_READ \<or> fd_type (fd_table k i) = FD_PIPE_WRITE \<longrightarrow>
      fd_data (fd_table k i) \<noteq> Some q"
    using fds_okD(2) [OF assms(1)] q'(2) by fastforce
  then show ?thesis using q' by (auto simp: eq Let_def pipe_reset_def)
qed

end
