(* ===== verification/Tty_Inv.thy ===== *)
theory Tty_Inv
  imports Fd_Inv
begin

text \<open>
  The keyboard and the terminal in all runs: the ring of pending characters, and the line buffer
  of cooked mode, into which nothing is ever written out of bounds.
\<close>

section \<open>The ring of characters\<close>

definition kbd_chars :: "keyboard \<Rightarrow> char list" where
  "kbd_chars b = ring_list BUFF_LENGTH (buff b) (start_index b) (buff_size b)"

definition kring_ok :: "keyboard \<Rightarrow> bool" where
  "kring_ok b \<longleftrightarrow> start_index b < BUFF_LENGTH \<and> buff_size b \<le> BUFF_LENGTH \<and>
     end_index b = (start_index b + buff_size b) mod BUFF_LENGTH"

lemma length_kbd_chars [simp]: "length (kbd_chars b) = buff_size b"
  by (simp add: kbd_chars_def)

interpretation kbd_ring: bounded_fifo writeBuff getFromBuffer kbd_chars kring_ok BUFF_LENGTH
proof
  fix q :: keyboard and x :: char
  assume q: "kring_ok q"
  show "length (kbd_chars q) < BUFF_LENGTH \<Longrightarrow> kring_ok (writeBuff x q)"
    using q by (simp add: kring_ok_def writeBuff_def mod_Suc_eq)
  show "length (kbd_chars q) < BUFF_LENGTH \<Longrightarrow> kbd_chars (writeBuff x q) = kbd_chars q @ [x]"
    using q by (simp add: kring_ok_def writeBuff_def kbd_chars_def ring_list_write)
  show "kbd_chars q \<noteq> [] \<Longrightarrow> kring_ok (snd (getFromBuffer q))"
    using q mod_pop [of "buff_size q" "start_index q" BUFF_LENGTH]
    by (simp add: kring_ok_def getFromBuffer_def kbd_chars_def le_diff_conv)
  show "kbd_chars q \<noteq> [] \<Longrightarrow> kbd_chars q = fst (getFromBuffer q) # kbd_chars (snd (getFromBuffer q))"
    using q by (simp add: kring_ok_def getFromBuffer_def kbd_chars_def ring_list_head)
  show "length (kbd_chars q) \<le> BUFF_LENGTH"
    using q by (simp add: kring_ok_def)
qed

text \<open>A full ring drops its oldest character.\<close>

lemma ring_list_overwrite:
  assumes "h < N"
  shows "ring_list N (a(h := x)) ((h + 1) mod N) N = tl (ring_list N a h N) @ [x]"
proof -
  obtain m where m: "N = Suc m" using assms by (cases N) auto
  let ?g = "(h + 1) mod N"
  have g: "?g < N" using assms by simp
  have "(?g + m) mod N = (h + 1 + m) mod N" by (rule mod_add_left_eq)
  also have "\<dots> = (h + N) mod N" using m by simp
  finally have last: "(?g + m) mod N = h" using assms by simp
  have "ring_list N (a((?g + m) mod N := x)) ?g (Suc m) = ring_list N a ?g m @ [x]"
    using m by (intro ring_list_write) (use g in auto)
  moreover have "ring_list N a h N = a h # ring_list N a ?g (N - 1)"
    using assms m by (intro ring_list_head) auto
  ultimately show ?thesis unfolding last using m by simp
qed

lemma writeBuff_full:
  assumes "kring_ok b" and "buff_size b = BUFF_LENGTH"
  shows "kbd_chars (writeBuff c b) = tl (kbd_chars b) @ [c] \<and> kring_ok (writeBuff c b)"
proof -
  have "end_index b = start_index b" "start_index b < BUFF_LENGTH" using assms by (auto simp: kring_ok_def)
  then show ?thesis
    using assms(2) ring_list_overwrite [of "start_index b" BUFF_LENGTH "buff b" c]
    by (simp add: writeBuff_def kbd_chars_def kring_ok_def mod_Suc_eq Let_def)
qed

lemma kring_ok_write: "kring_ok b \<Longrightarrow> kring_ok (writeBuff c b)"
  using kbd_ring.push_ok [of b c] writeBuff_full [of b c] by (cases "buff_size b = BUFF_LENGTH") (auto simp: kring_ok_def)

lemma kring_ok_get: "kring_ok b \<Longrightarrow> kring_ok (snd (getFromBuffer b))"
  using kbd_ring.pop_ok [of b] by (cases "buff_size b = 0") (simp_all add: getFromBuffer_def kbd_chars_def)

section \<open>The invariant\<close>

text \<open>
  The line is never longer than the buffer, and one character shorter until it is complete; only
  a complete line is marked ready, only in cooked mode, and only while nobody waits for it.
\<close>

definition line_ok :: "keyboard \<Rightarrow> bool" where
  "line_ok b \<longleftrightarrow> tty_line_len b \<le> 256 \<and>
     (if tty_line_ready b then tty_mode b = TTY_COOKED \<and> kbd_waiting_process b = None
      else tty_line_len b \<le> 255)"

definition tty_ok :: "kernel \<Rightarrow> bool" where
  "tty_ok k \<longleftrightarrow> kring_ok (kbd k) \<and> line_ok (kbd k)"

lemma tty_ok_cong: "kbd k' = kbd k \<Longrightarrow> tty_ok k' = tty_ok k"
  by (simp add: tty_ok_def)

lemma tty_ok_I: "kring_ok b \<Longrightarrow> line_ok b \<Longrightarrow> kbd k' = b \<Longrightarrow> tty_ok k'"
  by (simp add: tty_ok_def)

text \<open>Updates of the line leave the ring alone, and the other way round.\<close>

lemma kring_ok_cong:
  "buff_size b' = buff_size b \<Longrightarrow> start_index b' = start_index b \<Longrightarrow> end_index b' = end_index b \<Longrightarrow>
   kring_ok b' = kring_ok b"
  by (simp add: kring_ok_def)

lemma line_ok_cong:
  "tty_line_len b' = tty_line_len b \<Longrightarrow> tty_line_ready b' = tty_line_ready b \<Longrightarrow> tty_mode b' = tty_mode b \<Longrightarrow>
   kbd_waiting_process b' = kbd_waiting_process b \<Longrightarrow> line_ok b' = line_ok b"
  by (simp add: line_ok_def)

lemma line_ok_write [simp]: "line_ok (writeBuff c b) = line_ok b"
  by (rule line_ok_cong) (simp_all add: writeBuff_def Let_def)

lemma line_ok_get [simp]: "line_ok (snd (getFromBuffer b)) = line_ok b"
  by (rule line_ok_cong) (simp_all add: getFromBuffer_def Let_def)

lemma readKeyBuff_loop_ok:
  "kring_ok b \<Longrightarrow> line_ok b \<Longrightarrow> kring_ok (snd (readKeyBuff_loop i cnt b)) \<and> line_ok (snd (readKeyBuff_loop i cnt b))"
proof (induction i cnt b rule: readKeyBuff_loop.induct)
  case (1 i cnt b)
  obtain c b1 where g: "getFromBuffer b = (c, b1)" by (cases "getFromBuffer b")
  have b1: "kring_ok b1" "line_ok b1"
    using kring_ok_get [OF 1(2)] line_ok_get [of b] 1(3) by (simp_all add: g)
  show ?case
  proof (cases "i < unat cnt \<and> i < buff_size b")
    case True
    from 1(1) [OF True refl g [symmetric] b1] show ?thesis
      by (subst (1 2) readKeyBuff_loop.simps) (simp add: True g case_prod_beta)
  next
    case False
    then have "readKeyBuff_loop i cnt b = ([], b)" by (subst readKeyBuff_loop.simps) (rule if_not_P [OF False])
    then show ?thesis using 1(2,3) by simp
  qed
qed

lemma kbd_wake_kbd: "kbd (kbd_wake k) = (kbd k)\<lparr>kbd_waiting_process := None\<rparr>"
  by (cases "kbd_waiting_process (kbd k)") (simp_all add: kbd_wake_def)

lemma put_video_kbd [simp]: "kbd (put_video c k) = kbd k"
  by (simp add: put_video_def)

lemma kring_ok_simps [simp]:
  "kring_ok (b\<lparr>kbd_waiting_process := w\<rparr>) = kring_ok b" "kring_ok (b\<lparr>tty_line_len := n\<rparr>) = kring_ok b"
  "kring_ok (b\<lparr>tty_line_ready := r\<rparr>) = kring_ok b" "kring_ok (b\<lparr>tty_eof := e\<rparr>) = kring_ok b"
  "kring_ok (b\<lparr>tty_line := l\<rparr>) = kring_ok b" "kring_ok (b\<lparr>tty_mode := m\<rparr>) = kring_ok b"
  "kring_ok (append_line c b) = kring_ok b" "kring_ok (tty_set_mode m b) = kring_ok b"
  "kring_ok (kbd_clear_waiting p b) = kring_ok b" "kring_ok (kbd_set_waiting w b) = kring_ok b"
  by (rule kring_ok_cong; simp add: append_line_def tty_set_mode_def kbd_clear_waiting_def kbd_set_waiting_def)+

lemma tty_ok_wake: "kring_ok (kbd k) \<Longrightarrow> line_ok ((kbd k)\<lparr>kbd_waiting_process := None\<rparr>) \<Longrightarrow> tty_ok (kbd_wake k)"
  by (simp add: tty_ok_def kbd_wake_kbd)

lemma line_ok_unwait: "line_ok b \<Longrightarrow> line_ok (b\<lparr>kbd_waiting_process := None\<rparr>)"
  by (simp add: line_ok_def)

lemma key_char_ok: "tty_ok k \<Longrightarrow> tty_ok (key_char c k)"
  unfolding key_char_def
  by (auto simp: tty_ok_def kbd_wake_kbd kring_ok_write line_ok_unwait)
     (auto simp: line_ok_def append_line_def split: if_splits)

lemma key_eof_ok: "tty_ok k \<Longrightarrow> tty_ok (key_eof k)"
  unfolding key_eof_def
  by (auto simp: tty_ok_def kbd_wake_kbd kring_ok_write line_ok_unwait)
     (auto simp: line_ok_def split: if_splits)

lemma tty_take_line_ok:
  "kring_ok b \<Longrightarrow> line_ok b \<Longrightarrow> kring_ok (snd (tty_take_line cnt b)) \<and> line_ok (snd (tty_take_line cnt b))"
  by (auto simp: tty_take_line_def Let_def line_ok_def split: if_splits)

lemma tty_read_ok:
  assumes "tty_ok k"
  shows "tty_ok (snd (snd (tty_read cnt (Some c) k)))"
proof -
  let ?b = "snd (readKeyBuff_loop 0 cnt (kbd k))"
  have b: "kring_ok ?b" "line_ok ?b" using readKeyBuff_loop_ok assms by (auto simp: tty_ok_def)
  have l: "line_ok (kbd_set_waiting w b)" if "line_ok b" "\<not> tty_line_ready b" for w b
    using that by (simp add: line_ok_def kbd_set_waiting_def)
  have raw: "\<not> tty_line_ready ?b" if "tty_mode (kbd k) \<noteq> TTY_COOKED"
  proof -
    have "tty_mode (snd (readKeyBuff_loop i cnt b)) = tty_mode b" for i b
    proof (induction i cnt b rule: readKeyBuff_loop.induct)
      case (1 i cnt b)
      then show ?case
        by (subst readKeyBuff_loop.simps) (auto simp: case_prod_beta getFromBuffer_def)
    qed
    then show ?thesis using b(2) that by (auto simp: line_ok_def)
  qed
  show ?thesis
    using assms b l raw tty_take_line_ok [of "kbd k" cnt]
    by (auto simp: tty_read_def tty_ok_def readKeyBuff_def case_prod_beta block_on_keyboard_def tty_get_mode_def Let_def)
       (simp_all add: line_ok_def)
qed

section \<open>In all runs\<close>

abbreviation tty_keeps :: "kernel \<Rightarrow> kernel \<Rightarrow> bool" where
  "tty_keeps k k' \<equiv> tty_ok k \<longrightarrow> tty_ok k'"

interpretation tty: sem_frame tty_keeps
  by unfold_locales (simp_all add: tty_ok_def)

interpretation tty: pipe_frame tty_keeps
  by unfold_locales (simp add: tty_ok_def)

interpretation tty: fd_frame tty_keeps
  by unfold_locales (simp add: tty_ok_def)

lemma line_ok_set_mode [simp]: "line_ok (tty_set_mode m b)"
  by (simp add: line_ok_def tty_set_mode_def)

lemma line_ok_clear: "line_ok b \<Longrightarrow> line_ok (kbd_clear_waiting p b)"
  by (simp add: line_ok_def kbd_clear_waiting_def)

interpretation tty: tty_ops tty_keeps
  by unfold_locales (blast intro: tty_read_ok, simp_all add: tty_ok_def)

lemma tty_ok_flags: "flags_only g \<Longrightarrow> tty_ok k \<Longrightarrow> tty_ok (upd_kbd g k)"
  using kring_ok_cong [of "g (kbd k)" "kbd k"] line_ok_cong [of "g (kbd k)" "kbd k"]
  by (simp add: tty_ok_def flags_only_def)

lemma tty_ok_mem [simp]:
  "tty_ok (snd (mm_malloc sz k)) = tty_ok k" "tty_ok (snd (mm_malloc_kernel sz k)) = tty_ok k"
  "tty_ok (mm_free p k) = tty_ok k"
  by (rule tty_ok_cong, simp add: mm_malloc_def mm_malloc_kernel_def mm_free_def case_prod_beta split: option.split)+

lemma tty_ok_same: "same_tables k k' \<Longrightarrow> tty_ok k \<Longrightarrow> tty_ok k'"
  by (simp add: same_tables_def tty_ok_def)

lemma tty_ok_clear: "tty_ok k \<Longrightarrow> tty_ok (upd_kbd (kbd_clear_waiting c) k)"
  by (simp add: tty_ok_def line_ok_clear)

lemma tty_ok_getchar: "tty_ok k \<Longrightarrow> tty_ok (upd_kbd (\<lambda>_. snd (getFromBuffer (kbd k))) k)"
  by (simp add: tty_ok_def kring_ok_get)

interpretation tty: system_ops tty_keeps
proof
qed (simp_all add: tty_ok_flags key_char_ok key_eof_ok tty_ok_clear tty_ok_same tty_ok_getchar)

lemma tty_ok_init: "tty_ok (init_tables v tramp m)"
  using sem_init_eq [of "scheduler_init (pipe_init (fd_init (process_init (mm_init HEAP_START HEAP_SIZE (bss_kernel v tramp m)))))"]
  by (auto simp: tty_ok_def init_tables_def scheduler_init_def pipe_init_def process_init_def
      mm_init_def bss_kernel_def zero_kbd_def kring_ok_def line_ok_def)

interpretation tty: invariant tty_ok
  by unfold_locales (rule tty_ok_init)

lemma reachable_tty_ok: "reachable k \<Longrightarrow> tty_ok k"
  by (rule tty.J_reachable)

end
