(* ===== verification/Props_Terminal.thy ===== *)
theory Props_Terminal
  imports Demo Tty_Inv
begin

text \<open>
  The properties of the terminal: the bounds of its buffers, reading in raw mode, line
  editing in cooked mode, the wake-up of readers and the register snapshot.
\<close>

section \<open>Raw mode\<close>

text \<open>How many characters a raw read of \<open>cnt\<close> takes from index \<open>i\<close> on, out of \<open>n\<close>.\<close>

definition raw_count :: "nat \<Rightarrow> nat \<Rightarrow> nat \<Rightarrow> nat" where
  "raw_count i cnt n = min (cnt - i) ((n + 1 - i) div 2)"

lemma raw_count_step: "i < cnt \<Longrightarrow> i < n \<Longrightarrow> raw_count i cnt n = Suc (raw_count (Suc i) cnt (n - 1))"
  unfolding raw_count_def by linarith

lemma raw_count_stop: "\<not> (i < cnt \<and> i < n) \<Longrightarrow> raw_count i cnt n = 0"
  unfolding raw_count_def by linarith

lemma readKeyBuff_loop_raw:
  "kring_ok b \<Longrightarrow>
   fst (readKeyBuff_loop i cnt b) = take (raw_count i (unat cnt) (buff_size b)) (kbd_chars b) \<and>
   kbd_chars (snd (readKeyBuff_loop i cnt b)) = drop (raw_count i (unat cnt) (buff_size b)) (kbd_chars b)"
proof (induction i cnt b rule: readKeyBuff_loop.induct)
  case (1 i cnt b)
  obtain c b1 where g: "getFromBuffer b = (c, b1)" by (cases "getFromBuffer b")
  show ?case
  proof (cases "i < unat cnt \<and> i < buff_size b")
    case True
    then have ne: "kbd_chars b \<noteq> []" by (simp add: kbd_chars_def)
    have b1: "kring_ok b1" "kbd_chars b = c # kbd_chars b1" "buff_size b1 = buff_size b - 1"
      using kbd_ring.pop_ok [OF "1.prems" ne] kbd_ring.pop_contents [OF "1.prems" ne] g True
      by (auto simp: getFromBuffer_def)
    have r: "raw_count i (unat cnt) (buff_size b) = Suc (raw_count (Suc i) (unat cnt) (buff_size b1))"
      using raw_count_step True b1(3) by simp
    from "1.IH" [OF True refl g [symmetric] b1(1)] show ?thesis
      by (subst (1 2) readKeyBuff_loop.simps) (simp add: True g case_prod_beta r b1(2))
  next
    case False
    then have "readKeyBuff_loop i cnt b = ([], b)"
      by (subst readKeyBuff_loop.simps) (rule if_not_P [OF False])
    then show ?thesis using raw_count_stop [OF False] by simp
  qed
qed

section \<open>Line editing\<close>

definition line :: "keyboard \<Rightarrow> char list" where
  "line b = cells (tty_line_len b) (tty_line b)"

text \<open>The reference: a list from which backspace takes the last character.\<close>

fun edit :: "char list \<Rightarrow> char list \<Rightarrow> char list" where
  "edit l [] = l"
| "edit l (c # cs) =
     edit (if c = CHR 0x08 then butlast l else if length l < 255 then l @ [c] else l) cs"

lemma cells_butlast: "cells (n - 1) a = butlast (cells n a)"
  by (cases n) (simp_all add: cells_Suc)

definition editing :: "nat \<Rightarrow> kernel \<Rightarrow> bool" where
  "editing p k \<longleftrightarrow> tty_mode (kbd k) = TTY_COOKED \<and> kbd_waiting_process (kbd k) = Some p"

lemma key_char_edit:
  assumes "editing p k" and "c \<noteq> CHR 0x0A"
  shows "line (kbd (key_char c k)) = edit (line (kbd k)) [c]"
    and "editing p (key_char c k)" and "process_table (key_char c k) = process_table k"
  using assms
  by (auto simp: key_char_def editing_def line_def append_line_def put_video_def cells_Suc cells_butlast [unfolded One_nat_def])

lemma type_edit:
  "editing p k \<Longrightarrow> CHR 0x0A \<notin> set cs \<Longrightarrow>
   line (kbd (fold key_char cs k)) = edit (line (kbd k)) cs \<and> editing p (fold key_char cs k) \<and>
   process_table (fold key_char cs k) = process_table k"
proof (induction cs arbitrary: k)
  case (Cons c cs)
  then have c: "c \<noteq> CHR 0x0A" and cs: "CHR 0x0A \<notin> set cs" by auto
  note s = key_char_edit [OF Cons.prems(1) c]
  from Cons.IH [OF s(2) cs] show ?case by (simp add: s)
qed simp

section \<open>Properties\<close>

text \<open>
  C13: In every reachable state the indices of the keyboard ring are in range, and the line buffer of
  256 characters holds at most 256, at most 255 while a reader waits for the line: the
  newline that completes it always fits, and nothing is stored out of bounds.
\<close>

theorem reachable_terminal:
  assumes "reachable k"
  shows "start_index (kbd k) < BUFF_LENGTH \<and> end_index (kbd k) < BUFF_LENGTH \<and> buff_size (kbd k) \<le> BUFF_LENGTH \<and>
    end_index (kbd k) = (start_index (kbd k) + buff_size (kbd k)) mod BUFF_LENGTH \<and>
    tty_line_len (kbd k) \<le> 256 \<and>
    (kbd_waiting_process (kbd k) \<noteq> None \<longrightarrow> tty_line_len (kbd k) \<le> 255 \<and> \<not> tty_line_ready (kbd k))"
proof -
  have "kring_ok (kbd k)" "line_ok (kbd k)"
    using reachable_tty_ok [OF assms] by (simp_all add: tty_ok_def)
  then show ?thesis by (auto simp: kring_ok_def line_ok_def split: if_splits)
qed

theorem reachable_terminal_witness:
  "tty_line_len (kbd (snd (boot demo_video 0 0 (\<lambda>_. 0)))) \<le> 256"
  using reachable_terminal [OF booted] by blast

text \<open>
  A raw read of \<open>cnt\<close> characters with \<open>n\<close> pending returns the oldest ones in order, but only
  half of them, rounded up (or \<open>cnt\<close>, if that is less): the loop compares its index with the
  number of characters still in the ring, which shrinks with every character taken.
\<close>

lemma readKeyBuff_half:
  assumes "kring_ok b"
  shows "let m = min (unat cnt) ((buff_size b + 1) div 2); r = readKeyBuff cnt b in
    fst r = of_nat m \<and> fst (snd r) = take m (kbd_chars b) \<and> kbd_chars (snd (snd r)) = drop m (kbd_chars b)"
proof -
  have r: "raw_count 0 (unat cnt) (buff_size b) = min (unat cnt) ((buff_size b + 1) div 2)"
    by (simp add: raw_count_def)
  have "length (take (min (unat cnt) ((buff_size b + 1) div 2)) (kbd_chars b)) = min (unat cnt) ((buff_size b + 1) div 2)"
    by simp
  then show ?thesis
    using readKeyBuff_loop_raw [OF assms, of 0 cnt] unfolding r
    by (simp add: readKeyBuff_def case_prod_beta Let_def)
qed

definition demo_keys :: keyboard where
  "demo_keys = writeBuff CHR ''c'' (writeBuff CHR ''b'' (writeBuff CHR ''a'' zero_kbd))"

text \<open>
  C29: While a process waits for a line in cooked mode, typing is the editing of a list: a character is
  appended up to a length of 255, backspace takes the last one off. Nobody's state
  changes until the newline, which completes the line, marks it ready and makes the
  waiting process READY.
\<close>

theorem cooked_editing:
  assumes "tty_mode (kbd k) = TTY_COOKED" and "kbd_waiting_process (kbd k) = Some p" and "CHR 0x0A \<notin> set cs"
  shows "let k1 = fold key_char cs k; k2 = key_char CHR 0x0A k1 in
    line (kbd k1) = edit (line (kbd k)) cs \<and> process_table k1 = process_table k \<and>
    line (kbd k2) = edit (line (kbd k)) cs @ [CHR 0x0A] \<and> tty_line_ready (kbd k2) \<and>
    kbd_waiting_process (kbd k2) = None \<and>
    process_table k2 = (process_table k)(p := (process_table k p)\<lparr>pstate := PROCESS_READY\<rparr>)"
proof -
  have e: "editing p k" using assms by (simp add: editing_def)
  note t = type_edit [OF e assms(3)]
  then have l: "line (kbd (fold key_char cs k)) = edit (line (kbd k)) cs" and e1: "editing p (fold key_char cs k)"
    and pt: "process_table (fold key_char cs k) = process_table k" by auto
  show ?thesis
    using e1 l pt
    by (simp add: Let_def key_char_def editing_def kbd_wake_def put_video_def append_line_def line_def cells_Suc)
qed

theorem cooked_editing_witness:
  "line (kbd (key_char CHR 0x0A (fold key_char [CHR ''l'', CHR ''x'', CHR 0x08, CHR ''s'']
     (upd_kbd (\<lambda>b. b\<lparr>tty_mode := 1, kbd_waiting_process := Some 1\<rparr>) demo)))) = [CHR ''l'', CHR ''s'', CHR 0x0A]"
  using cooked_editing [of "upd_kbd (\<lambda>b. b\<lparr>tty_mode := 1, kbd_waiting_process := Some 1\<rparr>) demo" 1
      "[CHR ''l'', CHR ''x'', CHR 0x08, CHR ''s'']"]
  by (simp add: Let_def line_def zero_kbd_def)

text \<open>
  A foreground reader in cooked mode gets the oldest characters of a ready line, at most as many
  as it asked for; the rest stays, in order, for the next read, and the line is ready as
  long as something of it is left. If no line is ready and there is no end of file the reader
  is blocked and registered for the next key.
\<close>

lemma cooked_read:
  assumes "tty_mode (kbd k) = TTY_COOKED" and "foreground (proc k c) \<noteq> 0" and "\<not> tty_eof (kbd k)"
  shows "let (n, bytes, k') = tty_read cnt (Some c) k in
    if tty_line_ready (kbd k)
    then bytes = take (unat cnt) (line (kbd k)) \<and> n = of_nat (length bytes) \<and>
      line (kbd k') = drop (unat cnt) (line (kbd k)) \<and> (tty_line_ready (kbd k') \<longleftrightarrow> line (kbd k') \<noteq> [])
    else n = - 1 \<and> bytes = [] \<and> pstate (proc k' c) = PROCESS_BLOCKED \<and>
      kbd_waiting_process (kbd k') = Some c \<and> force_switch k'"
proof (cases "tty_line_ready (kbd k)")
  case False
  then show ?thesis
    using assms by (simp add: tty_read_def tty_get_mode_def block_on_keyboard_def kbd_set_waiting_def)
next
  case True
  let ?b = "kbd k" and ?n = "min (unat cnt) (tty_line_len (kbd k))"
  have shift: "fold (\<lambda>i l. l(i := l (i + d))) [0..<m] a = (\<lambda>i. if i < m then a (i + d) else a i)"
    for d m and a :: "nat \<Rightarrow> char"
  proof (cases "d = 0")
    case True
    then show ?thesis by (induction m) (auto simp: fun_eq_iff)
  next
    case False
    then show ?thesis by (induction m) (auto simp: fun_eq_iff)
  qed
  have "map (tty_line ?b) [0..<?n] = take (unat cnt) (line ?b)"
    by (rule nth_equalityI) (auto simp: line_def)
  moreover have "line (snd (tty_take_line cnt ?b)) = drop (unat cnt) (line ?b)"
  proof (cases "unat cnt < tty_line_len ?b")
    case lt: True
    have "drop (unat cnt) (line ?b) = map (\<lambda>i. tty_line ?b (i + unat cnt)) [0..<tty_line_len ?b - unat cnt]"
      by (rule nth_equalityI) (simp_all add: line_def cells_def add.commute)
    moreover have "line (snd (tty_take_line cnt ?b)) = map (\<lambda>i. tty_line ?b (i + unat cnt)) [0..<tty_line_len ?b - unat cnt]"
      using lt by (simp add: tty_take_line_def line_def cells_def shift Let_def)
    ultimately show ?thesis by simp
  next
    case False
    then show ?thesis by (auto simp: tty_take_line_def line_def Let_def)
  qed
  moreover have "tty_line_ready (snd (tty_take_line cnt ?b)) \<longleftrightarrow> line (snd (tty_take_line cnt ?b)) \<noteq> []"
    using True by (auto simp: tty_take_line_def line_def cells_def Let_def)
  moreover have "fst (tty_take_line cnt ?b) = map (tty_line ?b) [0..<?n]"
    by (simp add: tty_take_line_def Let_def min_def)
  ultimately show ?thesis
    using True assms by (simp add: tty_read_def tty_get_mode_def case_prod_beta Let_def)
qed

text \<open>
  Only one process can be registered as waiting for the keyboard: when a second one blocks on it, the
  first is forgotten. The next character makes the second READY and leaves the first
  BLOCKED, with nobody registered: no later key wakes it either.
\<close>

lemma second_reader_forgets_first:
  assumes "a \<noteq> b" and "tty_mode (kbd k) \<noteq> TTY_COOKED"
  shows "let k2 = block_on_keyboard b (block_on_keyboard a k) in
    \<forall>c cs. pstate (proc (key_char c k2) b) = PROCESS_READY \<and>
      pstate (proc (fold key_char cs (key_char c k2)) a) = PROCESS_BLOCKED"
proof -
  let ?k2 = "block_on_keyboard b (block_on_keyboard a k)"
  have step: "pstate (proc (key_char c k1) a) = pstate (proc k1 a) \<and> tty_mode (kbd (key_char c k1)) = tty_mode (kbd k1) \<and>
      kbd_waiting_process (kbd (key_char c k1)) = None"
    if "kbd_waiting_process (kbd k1) \<noteq> Some a" "tty_mode (kbd k1) \<noteq> TTY_COOKED" for c k1
    using that by (auto simp: key_char_def kbd_wake_def writeBuff_def Let_def split: option.split)
  have all: "pstate (proc (fold key_char cs k1) a) = pstate (proc k1 a)"
    if "kbd_waiting_process (kbd k1) \<noteq> Some a" "tty_mode (kbd k1) \<noteq> TTY_COOKED" for cs k1
    using that
  proof (induction cs arbitrary: k1)
    case (Cons c cs)
    from step [OF Cons.prems, of c] Cons.IH [of "key_char c k1"] Cons.prems show ?case by simp
  qed simp
  have k2: "kbd_waiting_process (kbd ?k2) = Some b" "tty_mode (kbd ?k2) = tty_mode (kbd k)"
    "pstate (proc ?k2 a) = PROCESS_BLOCKED"
    using assms(1) by (simp_all add: block_on_keyboard_def kbd_set_waiting_def)
  have "pstate (proc (key_char c ?k2) b) = PROCESS_READY" for c
    using k2 assms(2) by (simp add: key_char_def kbd_wake_def writeBuff_def Let_def)
  moreover have "pstate (proc (fold key_char (c # cs) ?k2) a) = PROCESS_BLOCKED" for c cs
    using all [of ?k2 "c # cs"] k2 assms by simp
  ultimately show ?thesis by (simp add: Let_def)
qed

end
