(* ===== verification/Video_Props.thy ===== *)
theory Video_Props
  imports Demo
begin

text \<open>
  The console, seen as a screen of pixels. All drawing is painting: a set of pixels gets a colour,
  and no byte outside these pixels changes, in particular none outside the framebuffer.
\<close>

section \<open>Painting\<close>

text \<open>The pixel a byte of the framebuffer belongs to, and which byte of it that is.\<close>

definition owner :: "video \<Rightarrow> u64 \<Rightarrow> nat \<times> nat" where
  "owner v a = (unat a mod unat (v_pitch v) div unat (bytesPerPixel v), unat a div unat (v_pitch v))"

definition byte_no :: "video \<Rightarrow> u64 \<Rightarrow> nat" where
  "byte_no v a = unat a mod unat (v_pitch v) mod unat (bytesPerPixel v)"

definition on_screen :: "video \<Rightarrow> (nat \<times> nat) set" where
  "on_screen v = {..<unat (v_width v)} \<times> {..<unat (v_height v)}"

text \<open>A byte of a pixel on the screen, which excludes the end of a row behind the last pixel.\<close>

definition visible :: "video \<Rightarrow> u64 \<Rightarrow> bool" where
  "visible v a \<longleftrightarrow> bytesPerPixel v \<noteq> 0 \<and> owner v a \<in> on_screen v"

definition paint :: "u32 \<Rightarrow> (nat \<times> nat) set \<Rightarrow> video \<Rightarrow> video" where
  "paint color S v =
     v\<lparr>fb := \<lambda>a. if visible v a \<and> owner v a \<in> S
                then ucast (drop_bit (8 * byte_no v a) color AND 0xFF) else fb v a\<rparr>"

text \<open>The rows do not overlap: this is what the mode block of a sane VBE mode says.\<close>

definition geometry_ok :: "video \<Rightarrow> bool" where
  "geometry_ok v \<longleftrightarrow> unat (v_width v) * unat (bytesPerPixel v) \<le> unat (v_pitch v)"

lemma bpp_paint [simp]: "bytesPerPixel (v\<lparr>fb := f\<rparr>) = bytesPerPixel v"
  by (simp add: bytesPerPixel_def)

lemma fb_update_simps [simp]:
  "owner (v\<lparr>fb := f\<rparr>) a = owner v a" "byte_no (v\<lparr>fb := f\<rparr>) a = byte_no v a"
  "on_screen (v\<lparr>fb := f\<rparr>) = on_screen v" "visible (v\<lparr>fb := f\<rparr>) a = visible v a"
  "geometry_ok (v\<lparr>fb := f\<rparr>) = geometry_ok v"
  by (simp_all add: owner_def byte_no_def on_screen_def visible_def geometry_ok_def)

lemma paint_simps [simp]:
  "v_width (paint c S v) = v_width v" "v_height (paint c S v) = v_height v"
  "v_pitch (paint c S v) = v_pitch v" "v_bpp (paint c S v) = v_bpp v" "font (paint c S v) = font v"
  "currentX (paint c S v) = currentX v" "currentY (paint c S v) = currentY v"
  "defaultTextSize (paint c S v) = defaultTextSize v" "bytesPerPixel (paint c S v) = bytesPerPixel v"
  "geometry_ok (paint c S v) = geometry_ok v" "on_screen (paint c S v) = on_screen v"
  "visible (paint c S v) = visible v" "owner (paint c S v) = owner v" "byte_no (paint c S v) = byte_no v"
  by (simp_all add: paint_def fun_eq_iff)

lemma paint_empty [simp]: "paint c {} v = v"
  by (simp add: paint_def)

lemma paint_paint: "paint c T (paint c S v) = paint c (S \<union> T) v"
  by (rule video.equality) (auto simp: paint_def)

lemma paint_cong: "S \<inter> on_screen v = T \<inter> on_screen v \<Longrightarrow> paint c S v = paint c T v"
  unfolding paint_def visible_def by (metis (no_types, lifting) IntD1 IntI)

text \<open>Loops that paint.\<close>

lemma fold_paint:
  assumes "\<And>x w. geometry_ok w \<Longrightarrow> v_width w = v_width v \<Longrightarrow> v_height w = v_height v \<Longrightarrow> v_pitch w = v_pitch v \<Longrightarrow>
      bytesPerPixel w = bytesPerPixel v \<Longrightarrow> font w = font v \<Longrightarrow> x \<in> set xs \<Longrightarrow> f x w = paint c (S x) w"
    and "geometry_ok v"
  shows "fold f xs v = paint c (\<Union>x \<in> set xs. S x) v"
  using assms
proof (induction xs rule: rev_induct)
  case Nil
  then show ?case by simp
next
  case (snoc x xs)
  then have "fold f xs v = paint c (\<Union>x \<in> set xs. S x) v" by simp
  then show ?case using snoc.prems by (simp add: paint_paint Un_commute)
qed

section \<open>Single bytes and pixels\<close>

lemma fold_bytes:
  "B + n < 2 ^ 64 \<Longrightarrow>
   fold (\<lambda>i f. f(of_nat B + of_nat i := g i)) [0..<n] f (a :: u64) =
     (if B \<le> unat a \<and> unat a < B + n then g (unat a - B) else f a)"
proof (induction n)
  case 0
  then show ?case by auto
next
  case (Suc n)
  have u: "unat (of_nat B + of_nat n :: u64) = B + n"
    using Suc.prems by (simp add: unat_of_nat flip: of_nat_add)
  have eq: "a = of_nat B + of_nat n \<longleftrightarrow> unat a = B + n"
    using u by (metis word_unat_eq_iff)
  then show ?case using Suc eq by (auto simp: less_Suc_eq)
qed

lemma pixel_address:
  fixes x y u W n P :: nat
  assumes "x < W" and "W * n \<le> P" and "0 < n"
  shows "y * P + x * n \<le> u \<and> u < y * P + x * n + n \<longleftrightarrow> u mod P div n = x \<and> u div P = y"
    and "u mod P div n = x \<Longrightarrow> u div P = y \<Longrightarrow> u mod P mod n = u - (y * P + x * n)"
proof -
  have "Suc x * n \<le> W * n" using assms(1) by (intro mult_le_mono1) simp
  then have row: "x * n + n \<le> P" using assms(2) by simp
  show "y * P + x * n \<le> u \<and> u < y * P + x * n + n \<longleftrightarrow> u mod P div n = x \<and> u div P = y"
  proof (intro iffI conjI)
    assume u: "y * P + x * n \<le> u \<and> u < y * P + x * n + n"
    define r where "r = u - (y * P + x * n)"
    have ur: "u = y * P + (x * n + r)" using u by (simp add: r_def)
    moreover have "r < n" unfolding r_def using u by linarith
    ultimately have ur: "u = y * P + (x * n + r)" "r < n" by blast+
    then have lt: "x * n + r < P" using row by simp
    show "u div P = y" using ur lt by simp
    have "u mod P = x * n + r" using ur lt by simp
    then show "u mod P div n = x" using ur(2) by simp
  next
    assume o: "u mod P div n = x \<and> u div P = y"
    have "u = u div P * P + u mod P" "u mod P = u mod P div n * n + u mod P mod n" by simp_all
    then have "u = y * P + (x * n + u mod P mod n)" using o by metis
    moreover have "u mod P mod n < n" using assms(3) by simp
    ultimately show "y * P + x * n \<le> u" "u < y * P + x * n + n" by linarith+
  qed
  assume o: "u mod P div n = x" "u div P = y"
  have "u = u div P * P + u mod P" "u mod P = u mod P div n * n + u mod P mod n" by simp_all
  then have "u = y * P + (x * n + u mod P mod n)" using o by metis
  then show "u mod P mod n = u - (y * P + x * n)" by linarith
qed

lemma unat_up [simp]:
  "unat (ucast (b :: u8) :: u32) = unat b" "unat (ucast (h :: u16) :: u64) = unat h"
  "unat (ucast (w :: u32) :: u64) = unat w"
  by (simp_all add: unsigned_ucast_eq take_bit_nat_eq_self less_trans [OF unsigned_less])

lemma u16_less: "unat (h :: u16) < 65536"
proof -
  have "unat h < 2 ^ LENGTH(16)" by (rule unsigned_less)
  then show ?thesis by simp
qed

lemma bpp_le: "unat (bytesPerPixel v) \<le> 32"
proof -
  have "unat (v_bpp v) < 2 ^ LENGTH(8)" by (rule unsigned_less)
  moreover from this have "unat (ucast (v_bpp v) + 7 :: u32) = unat (v_bpp v) + 7"
    by (simp add: unat_word_ariths)
  ultimately show ?thesis by (simp add: bytesPerPixel_def unat_div)
qed

lemma address_small:
  assumes "geometry_ok v" and "(x, y) \<in> on_screen v"
  shows "y * unat (v_pitch v) + x * unat (bytesPerPixel v) + unat (bytesPerPixel v) \<le> unat (v_height v) * unat (v_pitch v)"
    and "unat (v_height v) * unat (v_pitch v) < 2 ^ 32"
proof -
  have "Suc x * unat (bytesPerPixel v) \<le> unat (v_width v) * unat (bytesPerPixel v)"
    using assms(2) by (intro mult_le_mono1) (simp add: on_screen_def)
  then have "x * unat (bytesPerPixel v) + unat (bytesPerPixel v) \<le> unat (v_pitch v)"
    using assms(1) by (simp add: geometry_ok_def)
  moreover have "Suc y * unat (v_pitch v) \<le> unat (v_height v) * unat (v_pitch v)"
    using assms(2) by (intro mult_le_mono1) (simp add: on_screen_def)
  ultimately show "y * unat (v_pitch v) + x * unat (bytesPerPixel v) + unat (bytesPerPixel v)
      \<le> unat (v_height v) * unat (v_pitch v)" by simp
  have "unat (v_height v) < 2 ^ LENGTH(16)" "unat (v_pitch v) < 2 ^ LENGTH(16)"
    by (rule unsigned_less)+
  then have "unat (v_height v) * unat (v_pitch v) < 2 ^ 16 * 2 ^ 16" by (intro mult_strict_mono) simp_all
  then show "unat (v_height v) * unat (v_pitch v) < 2 ^ 32" by simp
qed

lemma writePixel_paint:
  assumes g: "geometry_ok v" and xy: "(x, y) \<in> on_screen v"
    and off: "off = of_nat (y * unat (v_pitch v) + x * unat (bytesPerPixel v))"
  shows "writePixel color off v = paint color {(x, y)} v"
proof -
  let ?n = "unat (bytesPerPixel v)" and ?P = "unat (v_pitch v)"
  let ?B = "y * ?P + x * ?n"
  have B: "?B + ?n < 2 ^ 64" using address_small [OF g xy] by simp
  have x: "x < unat (v_width v)" "unat (v_width v) * ?n \<le> ?P"
    using g xy by (simp_all add: geometry_ok_def on_screen_def)
  have n0: "bytesPerPixel v \<noteq> 0 \<longleftrightarrow> 0 < ?n" by (simp add: unat_gt_0)
  have own: "?B \<le> unat a \<and> unat a < ?B + ?n \<longleftrightarrow> visible v a \<and> owner v a \<in> {(x, y)}" for a
  proof (cases "0 < ?n")
    case True
    show ?thesis
      using pixel_address(1) [OF x True, of y "unat a"] xy n0 True
      by (auto simp: visible_def owner_def)
  qed (use n0 in \<open>auto simp: visible_def\<close>)
  have byte: "byte_no v a = unat a - ?B" if "visible v a \<and> owner v a \<in> {(x, y)}" for a
    using that pixel_address(2) [OF x, of "unat a" y] n0 by (auto simp: visible_def owner_def byte_no_def)
  have "fold (\<lambda>i f. f(of_nat ?B + of_nat i := ucast (drop_bit (8 * i) color AND 0xFF))) [0..<?n] (fb v) =
      fb (paint color {(x, y)} v)"
    unfolding fun_eq_iff fold_bytes [OF B] own using byte by (simp add: paint_def)
  then show ?thesis unfolding writePixel_def off by (simp add: paint_def)
qed

lemma validPosition_iff: "validPosition x y v \<longleftrightarrow> (unat x, unat y) \<in> on_screen v"
  by (simp add: validPosition_def on_screen_def word_less_nat_alt)


lemma paint_off_screen: "S \<inter> on_screen v = {} \<Longrightarrow> paint c S v = v"
  using paint_cong [of S v "{}"] by simp

lemma putPixel_paint: "geometry_ok v \<Longrightarrow> putPixel c x y v = paint c {(unat x, unat y)} v"
  using writePixel_paint [of v "unat x" "unat y" "y * ucast (v_pitch v) + x * ucast (bytesPerPixel v)" c]
    paint_off_screen [of "{(unat x, unat y)}" v c]
  by (auto simp: putPixel_def validPosition_iff)

section \<open>Rectangles\<close>

definition rect :: "u64 \<Rightarrow> u64 \<Rightarrow> u64 \<Rightarrow> u64 \<Rightarrow> (nat \<times> nat) set" where
  "rect x0 y0 x1 y1 = {unat x0..<unat x1} \<times> {unat y0..<unat y1}"

lemma pixel_offset:
  fixes x0 pitch bpp :: u64
  shows "of_nat y * pitch + x0 * bpp + (of_nat x - x0) * bpp = of_nat y * pitch + of_nat x * bpp"
  by (simp add: algebra_simps)

lemma v_fillRectangle_paint:
  assumes g: "geometry_ok v"
  shows "v_fillRectangle x0 y0 x1 y1 c v = paint c (rect x0 y0 x1 y1) v"
proof (cases "x1 \<le> x0 \<or> y1 \<le> y0 \<or> \<not> validPosition x0 y0 v")
  case True
  then have "rect x0 y0 x1 y1 \<inter> on_screen v = {}"
    by (auto simp: validPosition_iff rect_def on_screen_def word_le_nat_alt)
  then show ?thesis using True by (auto simp: v_fillRectangle_def paint_off_screen)
next
  case False
  let ?x1 = "if x1 > ucast (v_width v) then ucast (v_width v) else x1"
  let ?y1 = "if y1 > ucast (v_height v) then ucast (v_height v) else y1"
  have clip: "rect x0 y0 ?x1 ?y1 \<subseteq> on_screen v" "rect x0 y0 ?x1 ?y1 \<inter> on_screen v = rect x0 y0 x1 y1 \<inter> on_screen v"
    by (auto simp: rect_def on_screen_def word_less_nat_alt)
  have row: "fold (\<lambda>x w. writePixel c (of_nat y * ucast (v_pitch v) + x0 * ucast (bytesPerPixel v) +
        (of_nat x - x0) * ucast (bytesPerPixel v)) w) [unat x0..<unat ?x1] w
      = paint c ({unat x0..<unat ?x1} \<times> {y}) w"
    if y: "y \<in> {unat y0..<unat ?y1}" and w: "geometry_ok w" "v_width w = v_width v" "v_height w = v_height v"
      "v_pitch w = v_pitch v" "bytesPerPixel w = bytesPerPixel v" for y w
  proof -
    have "writePixel c (of_nat y * ucast (v_pitch v) + x0 * ucast (bytesPerPixel v) +
        (of_nat x - x0) * ucast (bytesPerPixel v)) w' = paint c {(x, y)} w'"
      if "x \<in> set [unat x0..<unat ?x1]" "geometry_ok w'" "v_width w' = v_width w" "v_height w' = v_height w"
        "v_pitch w' = v_pitch w" "bytesPerPixel w' = bytesPerPixel w" for x w'
      unfolding pixel_offset
    proof (rule writePixel_paint [OF that(2)])
      have "(x, y) \<in> on_screen v" using clip(1) y that(1) by (auto simp: rect_def)
      then show "(x, y) \<in> on_screen w'" using that w by (simp add: on_screen_def)
    qed (use that w in simp)
    from fold_paint [where S = "\<lambda>x. {(x, y)}", OF this w(1)]
    have "fold (\<lambda>x w. writePixel c (of_nat y * ucast (v_pitch v) + x0 * ucast (bytesPerPixel v) +
        (of_nat x - x0) * ucast (bytesPerPixel v)) w) [unat x0..<unat ?x1] w
      = paint c (\<Union>x \<in> set [unat x0..<unat ?x1]. {(x, y)}) w" .
    moreover have "(\<Union>x \<in> set [unat x0..<unat ?x1]. {(x, y)}) = {unat x0..<unat ?x1} \<times> {y}" by auto
    ultimately show ?thesis by simp
  qed
  have "v_fillRectangle x0 y0 x1 y1 c v = fold (\<lambda>y w. fold (\<lambda>x w. writePixel c (of_nat y * ucast (v_pitch v) +
        x0 * ucast (bytesPerPixel v) + (of_nat x - x0) * ucast (bytesPerPixel v)) w) [unat x0..<unat ?x1] w)
      [unat y0..<unat ?y1] v"
    using False by (simp add: v_fillRectangle_def Let_def)
  also have "\<dots> = paint c (\<Union>y \<in> set [unat y0..<unat ?y1]. {unat x0..<unat ?x1} \<times> {y}) v"
    by (rule fold_paint [OF _ g]) (simp add: row)
  also have "(\<Union>y \<in> set [unat y0..<unat ?y1]. {unat x0..<unat ?x1} \<times> {y}) = rect x0 y0 ?x1 ?y1"
    by (auto simp: rect_def)
  also have "paint c (rect x0 y0 ?x1 ?y1) v = paint c (rect x0 y0 x1 y1) v"
    by (rule paint_cong [OF clip(2)])
  finally show ?thesis .
qed

section \<open>Glyphs\<close>

text \<open>
  The pixels of the glyph of \<open>ch\<close> at position \<open>(x, y)\<close>, each bit of the bitmap magnified to a square
  of \<open>sz\<close> by \<open>sz\<close> pixels; the leftmost column is bit 7.
\<close>

definition glyph :: "(nat \<Rightarrow> nat \<Rightarrow> u8) \<Rightarrow> u8 \<Rightarrow> nat \<Rightarrow> nat \<Rightarrow> nat \<Rightarrow> (nat \<times> nat) set" where
  "glyph ft ch x y sz =
     {(X, Y). x \<le> X \<and> X < x + 8 * sz \<and> y \<le> Y \<and> Y < y + 16 * sz \<and>
        bit (ft (unat ch) ((Y - y) div sz)) (7 - (X - x) div sz)}"

lemma column_bit:
  fixes b :: u8
  assumes "j < 8"
  shows "push_bit j (ucast b :: u32) AND 0x80 = 0 \<longleftrightarrow> \<not> bit b (7 - j)"
proof -
  have "push_bit j (ucast b :: u32) AND 2 ^ 7 = 0 \<longleftrightarrow> \<not> bit (push_bit j (ucast b :: u32)) 7"
    by (rule and_exp_eq_0_iff_not_bit)
  also have "\<dots> \<longleftrightarrow> \<not> bit b (7 - j)" using assms by (auto simp: bit_simps)
  finally show ?thesis by simp
qed

lemma cell_address:
  fixes x :: u32 and sz :: u64
  assumes "j < 16" and "dx < unat sz" and "unat sz < 2 ^ 32"
  shows "unat (ucast x + of_nat j * sz + of_nat dx :: u64) = unat x + j * unat sz + dx"
proof -
  have x: "unat x < 2 ^ LENGTH(32)" by (rule unsigned_less)
  have "j * unat sz \<le> 16 * unat sz" using assms(1) by simp
  moreover have "unat x < 4294967296" "unat sz < 4294967296" using x assms(3) by simp_all
  ultimately have "unat x + j * unat sz + dx < 18446744073709551616" using assms(2) by linarith
  moreover have "unat (of_nat N :: u64) = N" if "N < 18446744073709551616" for N
    using that by (simp add: unat_of_nat)
  moreover have "ucast x + of_nat j * sz + of_nat dx = (of_nat (unat x + j * unat sz + dx) :: u64)"
    by simp
  ultimately show ?thesis by (simp only:)
qed

lemma glyph_cells:
  "glyph ft ch x y sz =
     (\<Union>i \<in> set [0..<16]. \<Union>j \<in> set [0..<8]. if bit (ft (unat ch) i) (7 - j)
        then \<Union>dy \<in> set [0..<sz]. \<Union>dx \<in> set [0..<sz]. {(x + j * sz + dx, y + i * sz + dy)} else {})"
  (is "_ = ?U")
proof (intro equalityI subsetI)
  fix p assume p: "p \<in> glyph ft ch x y sz"
  obtain X Y where XY: "p = (X, Y)" by (cases p)
  let ?i = "(Y - y) div sz" and ?j = "(X - x) div sz"
  have sz: "0 < sz" using p XY by (cases sz) (simp_all add: glyph_def)
  have "X = x + ?j * sz + (X - x) mod sz" "Y = y + ?i * sz + (Y - y) mod sz"
    using p XY by (simp_all add: glyph_def)
  moreover have "?i < 16" "?j < 8"
    using p XY sz by (auto simp: glyph_def div_less_iff_less_mult)
  moreover have "(X - x) mod sz < sz" "(Y - y) mod sz < sz" using sz by simp_all
  moreover have "bit (ft (unat ch) ?i) (7 - ?j)" using p XY by (simp add: glyph_def)
  ultimately have "?i \<in> set [0..<16]" "?j \<in> set [0..<8]" "(X - x) mod sz \<in> set [0..<sz]"
    "(Y - y) mod sz \<in> set [0..<sz]" "bit (ft (unat ch) ?i) (7 - ?j)"
    "p = (x + ?j * sz + (X - x) mod sz, y + ?i * sz + (Y - y) mod sz)" unfolding XY
    by (simp_all only: set_upt atLeastLessThan_iff zero_le simp_thms prod.inject)
  then show "p \<in> ?U" by (intro UN_I [of ?i] UN_I [of ?j]) (simp_all only: if_True, blast)
next
  fix p assume "p \<in> ?U"
  then obtain i j where ij: "i \<in> set [0..<16]" "j \<in> set [0..<8]" and
    q: "p \<in> (if bit (ft (unat ch) i) (7 - j)
        then \<Union>dy \<in> set [0..<sz]. \<Union>dx \<in> set [0..<sz]. {(x + j * sz + dx, y + i * sz + dy)} else {})" by blast
  from q have b: "bit (ft (unat ch) i) (7 - j)" by (rule contrapos_pp) simp
  from q [unfolded if_P [OF b]] obtain dx dy where "dx < sz" "dy < sz" "p = (x + j * sz + dx, y + i * sz + dy)"
    by (auto simp only: UN_iff singleton_iff set_upt atLeastLessThan_iff)
  moreover have "i < 16" "j < 8" using ij by (simp_all only: set_upt atLeastLessThan_iff)
  ultimately have c: "i < 16" "j < 8" "dx < sz" "dy < sz" "bit (ft (unat ch) i) (7 - j)"
    "p = (x + j * sz + dx, y + i * sz + dy)" using b by simp_all
  have "sz + j * sz \<le> 8 * sz" "sz + i * sz \<le> 16 * sz"
    using c(1,2) mult_le_mono1 [of "Suc j" 8 sz, unfolded mult_Suc] mult_le_mono1 [of "Suc i" 16 sz, unfolded mult_Suc]
    by simp_all
  then have "j * sz + dx < 8 * sz" "i * sz + dy < 16 * sz" using c(3,4) by linarith+
  then show "p \<in> glyph ft ch x y sz" using c by (simp add: glyph_def)
qed

lemma drawChar_paint:
  assumes g: "geometry_ok v" and c: "ch < 128" and sz: "unat sz < 2 ^ 32"
  shows "drawChar x y ch color sz v = paint color (glyph (font v) ch (unat x) (unat y) (unat sz)) v"
proof -
  let ?px = "\<lambda>i j dy dx. (unat x + j * unat sz + dx, unat y + i * unat sz + dy)"
  have 1: "fold (\<lambda>dx v. putPixel color (ucast x + of_nat j * sz + of_nat dx) (ucast y + of_nat i * sz + of_nat dy) v)
      [0..<unat sz] w = paint color (\<Union>dx \<in> set [0..<unat sz]. {?px i j dy dx}) w"
    if "geometry_ok w" "i < 16" "j < 8" "dy < unat sz" for i j dy w
    by (rule fold_paint [OF _ that(1)]) (use that sz in \<open>simp add: putPixel_paint cell_address\<close>)
  have 2: "fold (\<lambda>dy v. fold (\<lambda>dx v. putPixel color (ucast x + of_nat j * sz + of_nat dx) (ucast y + of_nat i * sz + of_nat dy) v)
      [0..<unat sz] v) [0..<unat sz] w = paint color (\<Union>dy \<in> set [0..<unat sz]. \<Union>dx \<in> set [0..<unat sz]. {?px i j dy dx}) w"
    if "geometry_ok w" "i < 16" "j < 8" for i j w
    by (rule fold_paint [OF _ that(1)]) (use that in \<open>simp add: 1\<close>)
  have 3: "fold (\<lambda>j v. if push_bit j (ucast (l :: u8) :: u32) AND 0x80 \<noteq> 0 then
        fold (\<lambda>dy v. fold (\<lambda>dx v. putPixel color (ucast x + of_nat j * sz + of_nat dx) (ucast y + of_nat i * sz + of_nat dy) v)
          [0..<unat sz] v) [0..<unat sz] v else v) [0..<8] w
      = paint color (\<Union>j \<in> set [0..<8]. if bit l (7 - j) then
          \<Union>dy \<in> set [0..<unat sz]. \<Union>dx \<in> set [0..<unat sz]. {?px i j dy dx} else {}) w"
    if "geometry_ok w" "i < 16" for i l w
    by (rule fold_paint [OF _ that(1)]) (use that in \<open>simp add: 2 column_bit\<close>)
  show ?thesis
    unfolding drawChar_def glyph_cells Let_def if_not_P [OF c [unfolded linorder_not_le [symmetric]]]
    by (rule fold_paint [OF _ g]) (simp add: 3)
qed

section \<open>Scrolling\<close>

lemma unat_of_nat_small: "N < 2 ^ 64 \<Longrightarrow> unat (of_nat N :: u64) = N"
  by (simp add: unat_of_nat)

lemma fold_copy:
  assumes "D + n \<le> S" and "S + n < 2 ^ 64"
  shows "fold (\<lambda>i f. f(of_nat D + of_nat i := f (of_nat S + of_nat i))) [0..<n] f (a :: u64) =
     (if D \<le> unat a \<and> unat a < D + n then f (of_nat (unat a - D + S)) else f a)"
  using assms
proof (induction n arbitrary: a)
  case 0
  then show ?case by auto
next
  case (Suc n)
  have small: "unat (of_nat N :: u64) = N" if "N < 18446744073709551616" for N
    using that by (simp add: unat_of_nat)
  have u: "unat (of_nat D + of_nat n :: u64) = D + n" "unat (of_nat S + of_nat n :: u64) = S + n"
    using Suc.prems small [of "D + n"] small [of "S + n"] by (simp_all flip: of_nat_add)
  have eq: "a = of_nat D + of_nat n \<longleftrightarrow> unat a = D + n"
    using u(1) by (metis word_unat_eq_iff)
  let ?f = "fold (\<lambda>i f. f(of_nat D + of_nat i := f (of_nat S + of_nat i))) [0..<n] f"
  have IH: "?f b = (if D \<le> unat b \<and> unat b < D + n then f (of_nat (unat b - D + S)) else f b)" for b
    by (rule Suc.IH) (use Suc.prems in simp_all)
  have "?f (of_nat S + of_nat n) = f (of_nat S + of_nat n)"
    unfolding IH u using Suc.prems by simp
  then have step: "fold (\<lambda>i f. f(of_nat D + of_nat i := f (of_nat S + of_nat i))) [0..<Suc n] f =
      ?f(of_nat D + of_nat n := f (of_nat S + of_nat n))" by simp
  show ?case
  proof (cases "unat a = D + n")
    case True
    then have a: "a = of_nat D + of_nat n" "of_nat (unat a - D + S) = (of_nat S + of_nat n :: u64)"
      using eq by (simp_all add: add.commute)
    show ?thesis unfolding step using True a(2) by (simp only: a(1) fun_upd_same) simp
  next
    case False
    then have ne: "a \<noteq> of_nat D + of_nat n" using eq by blast
    show ?thesis unfolding step fun_upd_other [OF ne] IH using False by auto
  qed
qed

text \<open>The screen with everything moved up by \<open>n\<close> rows of pixels; the last rows stay.\<close>

definition shift_up :: "nat \<Rightarrow> video \<Rightarrow> video" where
  "shift_up n v =
     v\<lparr>fb := \<lambda>a. if unat a < (unat (v_height v) - n) * unat (v_pitch v)
                then fb v (of_nat (unat a + n * unat (v_pitch v))) else fb v a\<rparr>"

lemma height_pitch: "unat (v_height v) * unat (v_pitch v) < 2 ^ 32"
proof -
  have "unat (v_height v) < 2 ^ LENGTH(16)" "unat (v_pitch v) < 2 ^ LENGTH(16)"
    by (rule unsigned_less)+
  then have "unat (v_height v) * unat (v_pitch v) < 2 ^ 16 * 2 ^ 16" by (intro mult_strict_mono) simp_all
  then show ?thesis by simp
qed

lemma copyRow_eq:
  assumes "0 < n" and "n \<le> s" and "s < unat (v_height v)" and "v_pitch v = P"
  shows "copyRow (of_nat ((s - n) * unat P)) (of_nat (s * unat P)) (unat P) v =
    v\<lparr>fb := \<lambda>a. if (s - n) * unat P \<le> unat a \<and> unat a < (s - n) * unat P + unat P
                then fb v (of_nat (unat a + n * unat P)) else fb v a\<rparr>"
proof -
  have le: "(s - n) * unat P + unat P \<le> s * unat P"
  proof -
    have "Suc (s - n) \<le> s" using assms(1,2) by arith
    then have "Suc (s - n) * unat P \<le> s * unat P" by (rule mult_le_mono1)
    then show ?thesis by simp
  qed
  have "s * unat P + unat P \<le> unat (v_height v) * unat P"
    using assms(3) mult_le_mono1 [of "Suc s" "unat (v_height v)" "unat P"] by simp
  then have lt: "s * unat P + unat P < 2 ^ 64" using height_pitch [of v] assms(4) by simp
  have "x - (s - n) * unat P + s * unat P = x + n * unat P" if "(s - n) * unat P \<le> x" for x
    using that assms(2) by (simp add: algebra_simps diff_mult_distrib)
  then show ?thesis
    unfolding copyRow_def fold_copy [OF le lt] by (intro video.equality) (auto simp: fun_eq_iff fold_copy [OF le lt])
qed

lemma copy_rows:
  assumes n: "0 < n" and "v_pitch v = P" and h: "n \<le> unat (v_height v)"
  shows "n \<le> m \<Longrightarrow> m \<le> unat (v_height v) \<Longrightarrow>
   fold (\<lambda>s v. copyRow ((of_nat s - of_nat n) * ucast P) (of_nat s * ucast P) (unat (v_pitch v)) v) [n..<m] v =
    v\<lparr>fb := \<lambda>a. if unat a < (m - n) * unat P then fb v (of_nat (unat a + n * unat P)) else fb v a\<rparr>"
proof (induction m)
  case 0
  then show ?case using n by simp
next
  case (Suc m)
  show ?case
  proof (cases "n = Suc m")
    case True
    then show ?thesis by simp
  next
    case False
    then have nm: "n \<le> m" "m < unat (v_height v)" using Suc.prems by simp_all
    let ?w = "v\<lparr>fb := \<lambda>a. if unat a < (m - n) * unat P then fb v (of_nat (unat a + n * unat P)) else fb v a\<rparr>"
    have IH: "fold (\<lambda>s v. copyRow ((of_nat s - of_nat n) * ucast P) (of_nat s * ucast P) (unat (v_pitch v)) v) [n..<m] v = ?w"
      using Suc.IH nm by simp
    have addr: "(of_nat m - of_nat n) * ucast P = (of_nat ((m - n) * unat P) :: u64)"
      "of_nat m * ucast P = (of_nat (m * unat P) :: u64)"
      using nm(1) by (simp_all add: of_nat_diff)
    have row: "(Suc m - n) * unat P = (m - n) * unat P + unat P" using nm(1) by (simp add: Suc_diff_le)
    have lt: "m * unat P + unat P \<le> unat (v_height v) * unat P"
      using mult_le_mono1 [of "Suc m" "unat (v_height v)" "unat P"] nm(2) by simp
    have big: "\<not> unat (of_nat (unat a + n * unat P) :: u64) < (m - n) * unat P"
      if "(m - n) * unat P \<le> unat a" "unat a < (m - n) * unat P + unat P" for a :: u64
    proof -
      have "(m - n) * unat P + n * unat P = m * unat P" using nm(1) by (simp flip: add_mult_distrib)
      then have "unat a + n * unat P < 2 ^ 64" using that lt height_pitch [of v] assms(2) by simp
      then have "unat (of_nat (unat a + n * unat P) :: u64) = unat a + n * unat P" by (rule unat_of_nat_small)
      then show ?thesis using that by simp
    qed
    have "fold (\<lambda>s v. copyRow ((of_nat s - of_nat n) * ucast P) (of_nat s * ucast P) (unat (v_pitch v)) v) [n..<Suc m] v =
        copyRow (of_nat ((m - n) * unat P)) (of_nat (m * unat P)) (unat P) ?w"
      using nm(1) IH addr assms(2) by simp
    also have "\<dots> = ?w\<lparr>fb := \<lambda>a. if (m - n) * unat P \<le> unat a \<and> unat a < (m - n) * unat P + unat P
                then fb ?w (of_nat (unat a + n * unat P)) else fb ?w a\<rparr>"
      using nm by (intro copyRow_eq) (simp_all add: n assms(2))
    also have "\<dots> = v\<lparr>fb := \<lambda>a. if unat a < (Suc m - n) * unat P then fb v (of_nat (unat a + n * unat P)) else fb v a\<rparr>"
      unfolding row by (rule video.equality) (use big in \<open>auto simp: fun_eq_iff\<close>)
    finally show ?thesis .
  qed
qed

lemma scroll_paint:
  assumes g: "geometry_ok v" and sz: "defaultTextSize v \<noteq> 0"
    and fit: "unat (defaultTextSize v) * 16 \<le> unat (v_height v)"
  shows "scroll v = paint 0 ({..<unat (v_width v)} \<times> {unat (v_height v) - unat (defaultTextSize v) * 16..<unat (v_height v)})
      (shift_up (unat (defaultTextSize v) * 16) v)"
proof -
  let ?lh = "defaultTextSize v * FONT_HEIGHT" and ?n = "unat (defaultTextSize v) * 16"
  have h16: "unat (v_height v) < 2 ^ LENGTH(16)" by (rule unsigned_less)
  have lh: "unat ?lh = ?n" using fit h16 by (simp add: unat_word_ariths)
  have lw: "?lh = of_nat ?n" by simp
  have n: "0 < ?n" using sz by (simp add: unat_gt_0)
  have bottom: "unat (ucast (v_height v) - ?lh) = unat (v_height v) - ?n"
    using lh fit by (simp add: unat_sub word_le_nat_alt)
  have rows: "fold (\<lambda>s w. copyRow ((of_nat s - ?lh) * ucast (v_pitch v)) (of_nat s * ucast (v_pitch v)) (unat (v_pitch w)) w)
      [unat ?lh..<unat (v_height v)] v = shift_up ?n v"
    unfolding lh unfolding lw shift_up_def by (rule copy_rows [OF n refl fit fit order_refl])
  have "rect 0 (ucast (v_height v) - ?lh) (ucast (v_width v)) (ucast (v_height v)) =
      {..<unat (v_width v)} \<times> {unat (v_height v) - ?n..<unat (v_height v)}"
    unfolding rect_def bottom by auto
  then show ?thesis
    using v_fillRectangle_paint [of "shift_up ?n v"] g
    by (simp add: scroll_def Let_def rows shift_up_def)
qed

section \<open>What no operation of the console touches\<close>

text \<open>Same mode and font, and the same bytes behind the end of the framebuffer.\<close>

definition same_outside :: "video \<Rightarrow> video \<Rightarrow> bool" where
  "same_outside v w \<longleftrightarrow> v_width w = v_width v \<and> v_height w = v_height v \<and> v_pitch w = v_pitch v \<and>
     v_bpp w = v_bpp v \<and> font w = font v \<and>
     (\<forall>a. unat (v_height v) * unat (v_pitch v) \<le> unat a \<longrightarrow> fb w a = fb v a)"

lemma outside_refl: "same_outside v v"
  by (simp add: same_outside_def)

lemma outside_trans: "same_outside v w \<Longrightarrow> same_outside w x \<Longrightarrow> same_outside v x"
  by (simp add: same_outside_def)

lemma outside_cursor [simp]:
  "same_outside v (w\<lparr>currentX := x\<rparr>) = same_outside v w" "same_outside v (w\<lparr>currentY := x\<rparr>) = same_outside v w"
  "same_outside v (w\<lparr>defaultTextSize := x\<rparr>) = same_outside v w"
  "same_outside (v\<lparr>currentX := x\<rparr>) w = same_outside v w" "same_outside (v\<lparr>currentY := x\<rparr>) w = same_outside v w"
  "same_outside (v\<lparr>defaultTextSize := x\<rparr>) w = same_outside v w"
  by (simp_all add: same_outside_def)

lemma geometry_cursor [simp]:
  "geometry_ok (v\<lparr>currentX := x\<rparr>) = geometry_ok v" "geometry_ok (v\<lparr>currentY := x\<rparr>) = geometry_ok v"
  "geometry_ok (v\<lparr>defaultTextSize := x\<rparr>) = geometry_ok v"
  by (simp_all add: geometry_ok_def bytesPerPixel_def)

lemma outside_geometry: "same_outside v w \<Longrightarrow> geometry_ok w = geometry_ok v"
  by (simp add: same_outside_def geometry_ok_def bytesPerPixel_def)

lemma outside_then:
  "geometry_ok v \<Longrightarrow> same_outside v w \<Longrightarrow> (geometry_ok w \<Longrightarrow> same_outside w x) \<Longrightarrow> same_outside v x"
  using outside_trans outside_geometry by blast

lemma outside_fold:
  "(\<And>x w. same_outside v w \<Longrightarrow> x \<in> set xs \<Longrightarrow> same_outside w (f x w)) \<Longrightarrow> same_outside v (fold f xs v)"
proof (induction xs rule: rev_induct)
  case Nil
  then show ?case by (simp add: outside_refl)
next
  case (snoc x xs)
  then have "same_outside v (fold f xs v)" by simp
  then show ?case using snoc.prems [of "fold f xs v" x] by (auto intro: outside_trans)
qed

lemma visible_inside:
  assumes "geometry_ok v" and "visible v a"
  shows "unat a < unat (v_height v) * unat (v_pitch v)"
proof -
  have "0 < unat (v_width v)" "0 < unat (bytesPerPixel v)" "unat a div unat (v_pitch v) < unat (v_height v)"
    using assms(2) by (auto simp: visible_def on_screen_def owner_def unat_gt_0)
  moreover from this have "0 < unat (v_pitch v)" using assms(1) by (auto simp: geometry_ok_def dest: less_le_trans)
  ultimately show ?thesis by (simp add: div_less_iff_less_mult)
qed

lemma outside_paint: "geometry_ok v \<Longrightarrow> same_outside v (paint c S v)"
  using visible_inside [of v] by (auto simp: same_outside_def paint_def not_less [symmetric])

lemma outside_fill: "geometry_ok v \<Longrightarrow> same_outside v (v_fillRectangle x0 y0 x1 y1 c v)"
  by (simp add: v_fillRectangle_paint outside_paint)

lemma outside_drawChar: "geometry_ok v \<Longrightarrow> same_outside v (drawChar x y ch c sz v)"
  unfolding drawChar_def Let_def
  by (auto intro!: outside_refl outside_fold simp: putPixel_paint outside_paint outside_geometry)

lemma outside_copyRow:
  assumes "unat dst + n \<le> unat (v_height v) * unat (v_pitch v)"
  shows "same_outside v (copyRow dst src n v)"
proof -
  have keep: "fold (\<lambda>i f. f(dst + of_nat i := f (src + of_nat i))) [0..<m] f a = f a"
    if "m \<le> n" "unat (v_height v) * unat (v_pitch v) \<le> unat a" for m a and f :: "u64 \<Rightarrow> u8"
    using that(1)
  proof (induction m)
    case (Suc m)
    have "unat dst + m < 2 ^ 64" using Suc.prems assms height_pitch [of v] by simp
    then have "unat (dst + of_nat m) = unat dst + m"
      using unat_of_nat_small [of "unat dst + m"] by simp
    then have "a \<noteq> dst + of_nat m" using that(2) assms Suc.prems by auto
    then show ?case using Suc by simp
  qed simp
  then show ?thesis using keep [OF order_refl] by (simp add: same_outside_def copyRow_def)
qed

lemma outside_scroll:
  assumes "geometry_ok v"
  shows "same_outside v (scroll v)"
proof -
  let ?lh = "defaultTextSize v * FONT_HEIGHT"
  let ?w = "fold (\<lambda>s w. copyRow ((of_nat s - ?lh) * ucast (v_pitch v)) (of_nat s * ucast (v_pitch v)) (unat (v_pitch w)) w)
      [unat ?lh..<unat (v_height v)] v"
  have "same_outside v ?w"
  proof (rule outside_fold, rule outside_copyRow)
    fix s w assume w: "same_outside v w" and s: "s \<in> set [unat ?lh..<unat (v_height v)]"
    have mode: "v_height w = v_height v" "v_pitch w = v_pitch v" using w by (simp_all add: same_outside_def)
    have le: "Suc (s - unat ?lh) * unat (v_pitch v) \<le> unat (v_height v) * unat (v_pitch v)"
      using s by (intro mult_le_mono1) auto
    have "(of_nat s - ?lh) * ucast (v_pitch v) = (of_nat ((s - unat ?lh) * unat (v_pitch v)) :: u64)"
      using s by (simp add: of_nat_diff)
    then have "unat ((of_nat s - ?lh) * ucast (v_pitch v)) = (s - unat ?lh) * unat (v_pitch v)"
      using unat_of_nat_small [of "(s - unat ?lh) * unat (v_pitch v)"] le height_pitch [of v] by simp
    then show "unat ((of_nat s - ?lh) * ucast (v_pitch v)) + unat (v_pitch w) \<le> unat (v_height w) * unat (v_pitch w)"
      using le mode by simp
  qed
  moreover have "scroll v = v_fillRectangle 0 (ucast (v_height ?w) - ?lh) (ucast (v_width ?w)) (ucast (v_height ?w)) bgColor ?w"
    by (simp add: scroll_def Let_def)
  ultimately show ?thesis
    using outside_fill [of ?w] outside_geometry [of v ?w] assms by (auto intro: outside_trans)
qed

lemma outside_newLine: "geometry_ok v \<Longrightarrow> same_outside v (newLine v)"
  using outside_scroll [of "v\<lparr>currentX := 0\<rparr>"] outside_fill [of "v\<lparr>currentX := 0, currentY := y\<rparr>" for y]
  by (simp add: newLine_def Let_def)

lemma outside_updateCursor: "geometry_ok v \<Longrightarrow> same_outside v (updateCursor v)"
  by (simp add: updateCursor_def outside_newLine outside_refl)

lemma outside_moveRight: "geometry_ok v \<Longrightarrow> same_outside v (moveRight v)"
  by (simp add: moveRight_def Let_def outside_newLine outside_refl)

text \<open>The operations the kernel calls.\<close>

lemma outside_fontSize: "geometry_ok v \<Longrightarrow> same_outside v (increaseFontSize v) \<and> same_outside v (decreaseFontSize v)"
  using outside_updateCursor [of "v\<lparr>defaultTextSize := n\<rparr>" for n] outside_updateCursor [of v]
  by (simp add: increaseFontSize_def decreaseFontSize_def)

lemma outside_putChar:
  assumes g: "geometry_ok v"
  shows "same_outside v (videoPutChar c color v)"
proof -
  have "same_outside v (updateCursor (moveRight (drawChar x y ch color sz v)))" for x y ch sz
    by (rule outside_then [OF g _ outside_updateCursor], rule outside_then [OF g outside_drawChar [OF g] outside_moveRight])
  moreover have "same_outside v (updateCursor (v_fillRectangle x0 y0 x1 y1 bgColor (v\<lparr>currentX := x\<rparr>)))" for x0 y0 x1 y1 x
  proof (rule outside_then [OF g _ outside_updateCursor])
    show "same_outside v (v_fillRectangle x0 y0 x1 y1 bgColor (v\<lparr>currentX := x\<rparr>))"
      using outside_fill [of "v\<lparr>currentX := x\<rparr>"] g by simp
  qed
  ultimately show ?thesis
    using outside_newLine [OF g] by (simp add: videoPutChar_def Let_def outside_refl)
qed

text \<open>
  C35: The console writes inside the framebuffer. In a mode whose rows do not overlap, whatever the
  cursor, the text size, the coordinates and the characters are, no operation that the kernel offers
  changes a byte behind the last row, or the mode.
\<close>

theorem console_in_framebuffer:
  assumes "geometry_ok v"
  shows "same_outside v (videoPutChar c color v) \<and> same_outside v (videoPrint str color v) \<and>
    same_outside v (putPixel color x y v) \<and> same_outside v (fillRect x y w h color v) \<and>
    same_outside v (clearScreen color v) \<and> same_outside v (increaseFontSize v) \<and>
    same_outside v (decreaseFontSize v)"
proof (intro conjI)
  show "same_outside v (videoPrint str color v)"
    using assms
    by (auto simp: videoPrint_def outside_geometry intro!: outside_refl outside_fold outside_putChar split: option.split)
qed (use assms in \<open>simp_all add: outside_putChar putPixel_paint outside_paint outside_fill outside_fontSize
    fillRect_def clearScreen_def drawFilledRect_def outside_refl\<close>)

lemma demo_geometry: "geometry_ok demo_video"
  by (simp add: demo_video_def geometry_ok_def bytesPerPixel_def)

theorem console_in_framebuffer_witness:
  "fb (videoPutChar (CHR ''A'') 0xFFFFFF demo_video) (768 * 3072) = fb demo_video (768 * 3072)"
  using console_in_framebuffer [OF demo_geometry, of "CHR ''A''" "0xFFFFFF"]
  by (simp add: same_outside_def demo_video_def)

text \<open>
  What is drawn. A pixel, a rectangle and a glyph are drawn exactly: the pixels inside get the
  colour, however they are clipped at the edges of the screen, and no other byte changes; the four
  loops of \<open>drawChar\<close> equal the magnified bitmap. Scrolling moves the screen up by the height of a
  line and clears the last one.
\<close>

lemma console_paints:
  assumes "geometry_ok v"
  shows "putPixel c x y v = paint c {(unat x, unat y)} v \<and>
    v_fillRectangle x y x1 y1 c v = paint c (rect x y x1 y1) v \<and>
    (ch < 128 \<longrightarrow> unat sz < 2 ^ 32 \<longrightarrow>
      drawChar px py ch c sz v = paint c (glyph (font v) ch (unat px) (unat py) (unat sz)) v) \<and>
    (defaultTextSize v \<noteq> 0 \<longrightarrow> unat (defaultTextSize v) * 16 \<le> unat (v_height v) \<longrightarrow>
      scroll v = paint 0 ({..<unat (v_width v)} \<times> {unat (v_height v) - unat (defaultTextSize v) * 16..<unat (v_height v)})
        (shift_up (unat (defaultTextSize v) * 16) v))"
  using assms by (simp add: putPixel_paint v_fillRectangle_paint drawChar_paint scroll_paint)

section \<open>The cursor\<close>

definition layout :: "video \<Rightarrow> u64 \<times> u64 \<times> u64 \<times> u16 \<times> u16" where
  "layout v = (currentX v, currentY v, defaultTextSize v, v_width v, v_height v)"

lemma layout_fold: "(\<And>x w. layout (f x w) = layout w) \<Longrightarrow> layout (fold f xs v) = layout v"
  by (induction xs arbitrary: v) simp_all

lemma layout_draw [simp]:
  "layout (writePixel c off v) = layout v" "layout (putPixel c x y v) = layout v"
  "layout (v_fillRectangle x0 y0 x1 y1 c v) = layout v" "layout (copyRow d s n v) = layout v"
  by (auto simp: layout_def writePixel_def putPixel_def copyRow_def v_fillRectangle_def Let_def
      intro!: layout_fold [unfolded layout_def, simplified])

lemma layout_drawChar [simp]: "layout (drawChar x y ch c sz v) = layout v"
  by (auto simp: drawChar_def Let_def intro!: layout_fold)

lemma layout_scroll [simp]: "layout (scroll v) = layout v"
  by (auto simp: scroll_def Let_def intro!: layout_fold)

text \<open>A cell of the current size fits in the line behind the cursor.\<close>

definition cursor_inside :: "video \<Rightarrow> bool" where
  "cursor_inside v \<longleftrightarrow> 1 \<le> unat (defaultTextSize v) \<and> unat (defaultTextSize v) \<le> 5 \<and>
     40 \<le> unat (v_width v) \<and> 80 \<le> unat (v_height v) \<and>
     unat (currentX v) + 8 * unat (defaultTextSize v) \<le> unat (v_width v) \<and> unat (currentY v) < unat (v_height v)"

lemma inside_layout: "layout w = layout v \<Longrightarrow> cursor_inside w = cursor_inside v"
  by (simp add: layout_def cursor_inside_def)

text \<open>While a character is drawn the column may be anywhere.\<close>

definition row_inside :: "video \<Rightarrow> bool" where
  "row_inside v \<longleftrightarrow> cursor_inside (v\<lparr>currentX := 0\<rparr>) \<and> unat (currentX v) \<le> 2 ^ 17"

lemma row_inside_layout: "layout w = layout v \<Longrightarrow> row_inside w = row_inside v"
  by (simp add: layout_def row_inside_def cursor_inside_def)

lemma inside_row: "cursor_inside v \<Longrightarrow> row_inside v"
  using u16_less [of "v_width v"] by (auto simp: row_inside_def cursor_inside_def)

lemma steps:
  assumes "row_inside v"
  shows "unat (FONT_WIDTH * defaultTextSize v) = 8 * unat (defaultTextSize v)"
    and "unat (defaultTextSize v * FONT_HEIGHT) = 16 * unat (defaultTextSize v)"
    and "unat (currentX v + FONT_WIDTH * defaultTextSize v) = unat (currentX v) + 8 * unat (defaultTextSize v)"
    and "unat (currentY v + defaultTextSize v * FONT_HEIGHT) = unat (currentY v) + 16 * unat (defaultTextSize v)"
    and "unat (currentX v + FONT_WIDTH * defaultTextSize v - 1) = unat (currentX v) + 8 * unat (defaultTextSize v) - 1"
proof -
  have sz: "1 \<le> unat (defaultTextSize v)" "unat (defaultTextSize v) \<le> 5" and x: "unat (currentX v) \<le> 2 ^ 17"
    and y: "unat (currentY v) < 2 ^ 16"
    using assms u16_less [of "v_height v"] by (auto simp: row_inside_def cursor_inside_def)
  show w: "unat (FONT_WIDTH * defaultTextSize v) = 8 * unat (defaultTextSize v)"
    and h: "unat (defaultTextSize v * FONT_HEIGHT) = 16 * unat (defaultTextSize v)"
    using sz by (simp_all add: unat_word_ariths)
  show xw: "unat (currentX v + FONT_WIDTH * defaultTextSize v) = unat (currentX v) + 8 * unat (defaultTextSize v)"
    using sz x w by (subst unat_add_small) simp_all
  show "unat (currentY v + defaultTextSize v * FONT_HEIGHT) = unat (currentY v) + 16 * unat (defaultTextSize v)"
    using sz y h by (subst unat_add_small) simp_all
  show "unat (currentX v + FONT_WIDTH * defaultTextSize v - 1) = unat (currentX v) + 8 * unat (defaultTextSize v) - 1"
    using xw sz by (subst unat_sub) (simp_all add: word_le_nat_alt)
qed

lemma newLine_inside:
  assumes "row_inside v"
  shows "cursor_inside (newLine v)"
proof -
  let ?v = "v\<lparr>currentX := 0\<rparr>" and ?h = "defaultTextSize v * FONT_HEIGHT"
  have i: "cursor_inside ?v" using assms by (simp add: row_inside_def)
  note st = steps(2,4) [OF assms]
  show ?thesis
  proof (cases "currentY v + ?h < ucast (v_height v)")
    case True
    then have "unat (currentY v + ?h) < unat (v_height v)" by (simp add: word_less_nat_alt)
    then have "cursor_inside (?v\<lparr>currentY := currentY v + ?h\<rparr>)" using i by (simp add: cursor_inside_def)
    then show ?thesis
      using True inside_layout [OF layout_draw(3)] by (simp add: newLine_def Let_def)
  next
    case False
    have sz: "1 \<le> unat (defaultTextSize v)" "16 * unat (defaultTextSize v) \<le> unat (v_height v)"
      using i by (auto simp: cursor_inside_def)
    have "unat (ucast (v_height v) - ?h) = unat (v_height v) - 16 * unat (defaultTextSize v)"
      using sz st by (subst unat_sub) (simp_all add: word_le_nat_alt)
    then have "cursor_inside (?v\<lparr>currentY := ucast (v_height v) - ?h\<rparr>)"
      using i sz by (simp add: cursor_inside_def)
    moreover have "layout ((scroll ?v)\<lparr>currentY := y\<rparr>) = layout (?v\<lparr>currentY := y\<rparr>)" for y
      using layout_scroll [of ?v] by (simp add: layout_def)
    moreover have "v_height (scroll ?v) = v_height v" using layout_scroll [of ?v] by (simp add: layout_def)
    moreover have "newLine v = (scroll ?v)\<lparr>currentY := ucast (v_height (scroll ?v)) - ?h\<rparr>"
      using False by (simp add: newLine_def Let_def)
    ultimately show ?thesis using inside_layout by metis
  qed
qed

lemma updateCursor_inside:
  assumes "row_inside v"
  shows "cursor_inside (updateCursor v)"
proof (cases "validPosition (currentX v + FONT_WIDTH * defaultTextSize v - 1)
    (currentY v + FONT_HEIGHT * defaultTextSize v - 1) v")
  case True
  then have "unat (currentX v + FONT_WIDTH * defaultTextSize v - 1) < unat (v_width v)"
    by (simp add: validPosition_def word_less_nat_alt)
  then show ?thesis
    using True assms steps(5) [OF assms] by (simp add: updateCursor_def cursor_inside_def row_inside_def)
next
  case False
  then show ?thesis using newLine_inside [OF assms] by (simp add: updateCursor_def)
qed

lemma moveRight_row:
  assumes "cursor_inside v"
  shows "row_inside (moveRight v)"
proof (cases "currentX v + FONT_WIDTH * defaultTextSize v < ucast (v_width v)")
  case True
  then have "unat (currentX v + FONT_WIDTH * defaultTextSize v) < unat (v_width v)"
    by (simp add: word_less_nat_alt)
  then have "row_inside (v\<lparr>currentX := currentX v + FONT_WIDTH * defaultTextSize v\<rparr>)"
    using inside_row [OF assms] u16_less [of "v_width v"] by (simp add: row_inside_def)
  then show ?thesis using True by (simp add: moveRight_def)
next
  case False
  then show ?thesis using inside_row [OF newLine_inside [OF inside_row [OF assms]]] by (simp add: moveRight_def)
qed

lemma putChar_inside:
  assumes "cursor_inside v"
  shows "cursor_inside (videoPutChar c color v)"
proof -
  note row = inside_row [OF assms]
  have erase: "cursor_inside (updateCursor (v_fillRectangle x0 y0 x1 y1 bgColor
      (v\<lparr>currentX := currentX v - FONT_WIDTH * defaultTextSize v\<rparr>)))"
    if "FONT_WIDTH * defaultTextSize v \<le> currentX v" for x0 y0 x1 y1
  proof (rule updateCursor_inside)
    have "unat (currentX v - FONT_WIDTH * defaultTextSize v) \<le> unat (currentX v)"
      using that by (simp add: unat_sub)
    then have "row_inside (v\<lparr>currentX := currentX v - FONT_WIDTH * defaultTextSize v\<rparr>)"
      using row by (simp add: row_inside_def)
    then show "row_inside (v_fillRectangle x0 y0 x1 y1 bgColor (v\<lparr>currentX := currentX v - FONT_WIDTH * defaultTextSize v\<rparr>))"
      using row_inside_layout [OF layout_draw(3)] by blast
  qed
  have "cursor_inside (updateCursor (moveRight (drawChar x y ch color sz v)))" for x y ch sz
    using assms inside_layout [OF layout_drawChar] by (intro updateCursor_inside moveRight_row) blast
  then show ?thesis
    using newLine_inside [OF row] erase assms by (simp add: videoPutChar_def Let_def)
qed

text \<open>
  The cursor stays on the screen. Text is laid out so that the next character always fits in the
  width of the line, at sizes from 1 to 5, and its row starts on the screen; printing, erasing, new
  lines, clearing and changes of the font size preserve this.
\<close>

lemma console_cursor:
  assumes "cursor_inside v"
  shows "cursor_inside (videoPutChar c color v) \<and> cursor_inside (videoPrint str color v) \<and>
    cursor_inside (clearScreen color v) \<and> cursor_inside (increaseFontSize v) \<and> cursor_inside (decreaseFontSize v)"
proof (intro conjI)
  have "cursor_inside (fold (\<lambda>c. videoPutChar c color) cs v)" for cs
    using assms by (induction cs arbitrary: v) (simp_all add: putChar_inside)
  then show "cursor_inside (videoPrint str color v)" using assms by (simp add: videoPrint_def split: option.split)
  have "layout (clearScreen color v) = layout (v\<lparr>currentX := 0, currentY := 0\<rparr>)"
    using layout_draw(3) by (simp add: clearScreen_def drawFilledRect_def layout_def)
  moreover have "cursor_inside (v\<lparr>currentX := 0, currentY := 0\<rparr>)"
    using assms by (auto simp: cursor_inside_def)
  ultimately show "cursor_inside (clearScreen color v)" using inside_layout by blast
  have sz: "row_inside (v\<lparr>defaultTextSize := n\<rparr>)" if "1 \<le> unat n" "unat n \<le> 5" for n
    using inside_row [OF assms] that by (auto simp: row_inside_def cursor_inside_def)
  have le: "1 \<le> unat (defaultTextSize v)" "unat (defaultTextSize v) \<le> 5"
    using assms by (simp_all add: cursor_inside_def)
  have "unat (defaultTextSize v + 1) = unat (defaultTextSize v) + 1" using le by (simp add: unat_word_ariths)
  then show "cursor_inside (increaseFontSize v)"
    using sz [of "defaultTextSize v + 1"] inside_row [OF assms]
    by (auto simp: increaseFontSize_def word_less_nat_alt intro!: updateCursor_inside)
  have "unat (defaultTextSize v - 1) = unat (defaultTextSize v) - 1" if "1 < defaultTextSize v"
    using that by (subst unat_sub) (simp_all add: word_le_nat_alt word_less_nat_alt)
  then show "cursor_inside (decreaseFontSize v)"
    using sz [of "defaultTextSize v - 1"] inside_row [OF assms] le
    by (auto simp: decreaseFontSize_def word_less_nat_alt intro!: updateCursor_inside)
qed (use assms in \<open>simp add: putChar_inside\<close>)

end
