(* ===== verification/Shell_Props.thy ===== *)
theory Shell_Props
  imports User_Props
begin

text \<open>
  The shell as a client of the kernel: what it asks for, whatever the kernel answers.
\<close>

section \<open>What the shell asks of the kernel\<close>

text \<open>
  An environment that keeps a log of the calls and answers them in any way: \<open>ans\<close> is arbitrary and may
  depend on all that was called before, and so is what the other processes do to the globals.
\<close>

type_synonym log = "(syscall \<times> u64 \<times> outcome) list"

definition logged ::
    "(log \<Rightarrow> syscall \<Rightarrow> u64 \<times> outcome) \<Rightarrow> (log \<Rightarrow> syscall \<Rightarrow> user \<Rightarrow> user) \<Rightarrow> (string \<Rightarrow> u64)
     \<Rightarrow> log machine" where
  "logged ans others entries =
     \<lparr>sys_call = (\<lambda>c (u, w). (ans w c, others w c u, w @ [(c, ans w c)])), cpu_trap = (\<lambda>_ s. s),
      entry_of = entries, fpu_bits = 64\<rparr>"

definition closed_fds :: "log \<Rightarrow> u64 list" where
  "closed_fds w = List.map_filter (\<lambda>(c, r). case c of Sys_close fd \<Rightarrow> Some fd | _ \<Rightarrow> None) w"

definition tty_modes :: "log \<Rightarrow> u64 list" where
  "tty_modes w = List.map_filter (\<lambda>(c, r). case c of Sys_tty_mode md \<Rightarrow> Some md | _ \<Rightarrow> None) w"

definition unblocked :: "log \<Rightarrow> u64 list" where
  "unblocked w = List.map_filter (\<lambda>(c, r). case c of Sys_unblock p \<Rightarrow> Some p | _ \<Rightarrow> None) w"

definition killed :: "log \<Rightarrow> u64 list" where
  "killed w = List.map_filter (\<lambda>(c, r). case c of Sys_kill p \<Rightarrow> Some p | _ \<Rightarrow> None) w"

definition created :: "log \<Rightarrow> u64 list" where
  "created w = List.map_filter (\<lambda>(c, r). case c of
     Sys_create_process nm e ac av fg \<Rightarrow> if sint (fst r) \<ge> 0 then Some (fst r) else None | _ \<Rightarrow> None) w"

lemmas log_defs = closed_fds_def tty_modes_def unblocked_def killed_def created_def

lemma log_simps [simp]:
  "closed_fds [] = []" "tty_modes [] = []" "unblocked [] = []" "killed [] = []" "created [] = []"
  "closed_fds (a @ b) = closed_fds a @ closed_fds b" "tty_modes (a @ b) = tty_modes a @ tty_modes b"
  "unblocked (a @ b) = unblocked a @ unblocked b" "killed (a @ b) = killed a @ killed b"
  "created (a @ b) = created a @ created b"
  by (simp_all add: log_defs List.map_filter_def)

lemma call_logged:
  "call (logged ans oth en) c s = (ans (snd s) c, oth (snd s) c (fst s), snd s @ [(c, ans (snd s) c)])"
  by (simp add: call_def logged_def case_prod_beta)

lemma log_write:
  "closed_fds [(Sys_write fd b n, r)] = []" "tty_modes [(Sys_write fd b n, r)] = []"
  "unblocked [(Sys_write fd b n, r)] = []" "killed [(Sys_write fd b n, r)] = []"
  "created [(Sys_write fd b n, r)] = []"
  by (simp_all add: log_defs List.map_filter_def)

lemma putchar_logged:
  "closed_fds (snd (shellPutchar (logged ans oth en) c fd s)) = closed_fds (snd s)"
  "tty_modes (snd (shellPutchar (logged ans oth en) c fd s)) = tty_modes (snd s)"
  "unblocked (snd (shellPutchar (logged ans oth en) c fd s)) = unblocked (snd s)"
  "killed (snd (shellPutchar (logged ans oth en) c fd s)) = killed (snd s)"
  "created (snd (shellPutchar (logged ans oth en) c fd s)) = created (snd s)"
  by (simp_all add: shellPutchar_def write_buf_def call0_def call_logged upd_user_def log_write)

lemma print_loop_logged:
  "closed_fds (snd (print_loop (logged ans oth en) cs s)) = closed_fds (snd s)"
  "tty_modes (snd (print_loop (logged ans oth en) cs s)) = tty_modes (snd s)"
  "unblocked (snd (print_loop (logged ans oth en) cs s)) = unblocked (snd s)"
  "killed (snd (print_loop (logged ans oth en) cs s)) = killed (snd s)"
  "created (snd (print_loop (logged ans oth en) cs s)) = created (snd s)"
  by (induction cs arbitrary: s) (simp_all add: putchar_logged)

lemma print_logged [simp]:
  "closed_fds (snd (shellPrintString (logged ans oth en) str s)) = closed_fds (snd s)"
  "tty_modes (snd (shellPrintString (logged ans oth en) str s)) = tty_modes (snd s)"
  "unblocked (snd (shellPrintString (logged ans oth en) str s)) = unblocked (snd s)"
  "killed (snd (shellPrintString (logged ans oth en) str s)) = killed (snd s)"
  "created (snd (shellPrintString (logged ans oth en) str s)) = created (snd s)"
  by (cases str; simp add: shellPrintString_def print_loop_logged)+

lemma of_int64_sint: "of_int64 (sint x) = x"
  by (simp add: of_int64_def)

lemma create_logged:
  fixes ans oth en nm ac av fg s
  defines "r \<equiv> my_create_process_fg (logged ans oth en) nm ac av fg s"
  shows "closed_fds (snd (snd r)) = closed_fds (snd s)" "tty_modes (snd (snd r)) = tty_modes (snd s)"
    "unblocked (snd (snd r)) = unblocked (snd s)" "killed (snd (snd r)) = killed (snd s)"
    "created (snd (snd r)) = created (snd s) @ (if fst r \<ge> 0 then [of_int64 (fst r)] else [])"
  by (auto simp: r_def my_create_process_fg_def call_logged log_defs List.map_filter_def of_int64_sint
      split: option.splits if_splits)

lemma wait_logged:
  "closed_fds (snd (snd (my_wait (logged ans oth en) p s))) = closed_fds (snd s)"
  "tty_modes (snd (snd (my_wait (logged ans oth en) p s))) = tty_modes (snd s)"
  "unblocked (snd (snd (my_wait (logged ans oth en) p s))) = unblocked (snd s)"
  "killed (snd (snd (my_wait (logged ans oth en) p s))) = killed (snd s)"
  "created (snd (snd (my_wait (logged ans oth en) p s))) = created (snd s)"
  by (simp_all add: my_wait_def call_logged log_defs List.map_filter_def)

lemma call0_logged:
  "closed_fds (snd (call0 (logged ans oth en) c s)) = closed_fds (snd s) @ closed_fds [(c, ans (snd s) c)]"
  "tty_modes (snd (call0 (logged ans oth en) c s)) = tty_modes (snd s) @ tty_modes [(c, ans (snd s) c)]"
  "unblocked (snd (call0 (logged ans oth en) c s)) = unblocked (snd s) @ unblocked [(c, ans (snd s) c)]"
  "killed (snd (call0 (logged ans oth en) c s)) = killed (snd s) @ killed [(c, ans (snd s) c)]"
  "created (snd (call0 (logged ans oth en) c s)) = created (snd s) @ created [(c, ans (snd s) c)]"
  by (simp_all add: call0_def call_logged)

lemma log_single:
  "closed_fds [(Sys_pipe null, r)] = []"
   "tty_modes [(Sys_pipe null, r)] = []"
   "unblocked [(Sys_pipe null, r)] = []"
   "killed [(Sys_pipe null, r)] = []"
   "created [(Sys_pipe null, r)] = []"
  "closed_fds [(Sys_close fd, r)] = [fd]"
   "tty_modes [(Sys_close fd, r)] = []"
   "unblocked [(Sys_close fd, r)] = []"
   "killed [(Sys_close fd, r)] = []"
   "created [(Sys_close fd, r)] = []"
  "closed_fds [(Sys_kill p, r)] = []"
   "tty_modes [(Sys_kill p, r)] = []"
   "unblocked [(Sys_kill p, r)] = []"
   "killed [(Sys_kill p, r)] = [p]"
   "created [(Sys_kill p, r)] = []"
  "closed_fds [(Sys_pipe_setup p q t, r)] = []"
   "tty_modes [(Sys_pipe_setup p q t, r)] = []"
   "unblocked [(Sys_pipe_setup p q t, r)] = []"
   "killed [(Sys_pipe_setup p q t, r)] = []"
   "created [(Sys_pipe_setup p q t, r)] = []"
  "closed_fds [(Sys_tty_mode md, r)] = []"
   "tty_modes [(Sys_tty_mode md, r)] = [md]"
   "unblocked [(Sys_tty_mode md, r)] = []"
   "killed [(Sys_tty_mode md, r)] = []"
   "created [(Sys_tty_mode md, r)] = []"
  "closed_fds [(Sys_unblock p, r)] = []"
   "tty_modes [(Sys_unblock p, r)] = []"
   "unblocked [(Sys_unblock p, r)] = [p]"
   "killed [(Sys_unblock p, r)] = []"
   "created [(Sys_unblock p, r)] = []"
  by (simp_all add: log_defs List.map_filter_def)

text \<open>What \<open>handle_pipe\<close> does on each of its six paths, behind the call of \<open>sys_pipe\<close>.\<close>

lemma handle_pipe_paths:
  fixes m :: "'w machine"
  assumes call: "call m (Sys_pipe False) s0 = ((r, out), s)"
    and names: "split_name left = (ln, la)" "split_name right = (rn, ra)"
    and args: "build_argv la = (ac1, av1)" "build_argv ra = (ac2, av2)"
    and create: "my_create_process_fg m (Some ln) (of_nat ac1) av1 3 s = (p1, s1)"
      "my_create_process_fg m (Some rn) (of_nat ac2) av2 3 s1 = (p2, s2)"
  defines "ext \<equiv> is_child_command ln \<and> is_child_command rn"
  defines "redirected \<equiv> close_fds m (fds_of out)
      (call0 m (Sys_pipe_setup (of_int64 p2) (of_int64 (fst (fds_of out))) 0)
      (call0 m (Sys_pipe_setup (of_int64 p1) (of_int64 (snd (fds_of out))) 1) s2))"
    and "started \<equiv> \<lambda>s. call0 m (Sys_unblock (of_int64 p2)) (call0 m (Sys_unblock (of_int64 p1)) s)"
  shows "handle_pipe m left right bg s0 =
    (if sint r < 0 then shellPrintString m (Some ''Error creando pipe\<newline>'') s
     else if \<not> ext then close_fds m (fds_of out) (shellPrintString m (Some ''Pipe solo soporta comandos externos\<newline>'') s)
     else if p1 < 0 then close_fds m (fds_of out) (shellPrintString m (Some ''Error creando proceso izquierdo\<newline>'') s1)
     else if p2 < 0 then close_fds m (fds_of out) (call0 m (Sys_kill (of_int64 p1))
        (shellPrintString m (Some ''Error creando proceso derecho\<newline>'') s2))
     else if bg then shellPrintString m (Some '']\<newline>'') (print_pid m p2 (shellPrintString m (Some '', '')
        (print_pid m p1 (shellPrintString m (Some ''['') (started redirected)))))
     else call0 m (Sys_tty_mode TTY_RAW) (snd (my_wait m p2 (snd (my_wait m p1
        (started (call0 m (Sys_tty_mode TTY_COOKED) redirected)))))))"
  unfolding handle_pipe_def redirected_def started_def ext_def call names args create Let_def prod.case fst_conv snd_conv
  by (simp add: case_prod_beta)

text \<open>
  C38: Running \<open>left | right\<close> does not leak, whatever the kernel answers: if \<open>sys_pipe\<close> delivers two
  descriptors, the shell closes each exactly once, on every path; every process it creates (blocked)
  is either unblocked, or killed because its partner could not be created; and the terminal is left in
  raw mode, cooked mode being switched on only for two processes in the foreground. If \<open>sys_pipe\<close>
  fails nothing is created or closed.
\<close>

theorem handle_pipe_releases:
  "let w = snd (handle_pipe (logged ans oth en) left right bg (u, [])); (r, out) = ans [] (Sys_pipe False) in
     closed_fds w = (if sint r < 0 then [] else [of_int64 (fst (fds_of out)), of_int64 (snd (fds_of out))]) \<and>
     ((created w = unblocked w \<and> length (created w) \<in> {0, 2} \<and> killed w = []) \<or>
      (created w = killed w \<and> length (created w) = 1 \<and> unblocked w = [])) \<and>
     (sint r < 0 \<longrightarrow> created w = []) \<and>
     tty_modes w = (if \<not> bg \<and> length (created w) = 2 then [TTY_COOKED, TTY_RAW] else [])"
proof -
  let ?m = "logged ans oth en"
  obtain r out where a: "ans [] (Sys_pipe False) = (r, out)" by fastforce
  obtain ln la where l: "split_name left = (ln, la)" by fastforce
  obtain rn ra where rt: "split_name right = (rn, ra)" by fastforce
  obtain ac1 av1 where b1: "build_argv la = (ac1, av1)" by fastforce
  obtain ac2 av2 where b2: "build_argv ra = (ac2, av2)" by fastforce
  let ?s = "(oth [] (Sys_pipe False) u, [(Sys_pipe False, r, out)])"
  obtain p1 s1 where c1: "my_create_process_fg ?m (Some ln) (of_nat ac1) av1 3 ?s = (p1, s1)" by (meson surj_pair)
  obtain p2 s2 where c2: "my_create_process_fg ?m (Some rn) (of_nat ac2) av2 3 s1 = (p2, s2)" by (meson surj_pair)
  note cr1 = create_logged [of ans oth en "Some ln" "of_nat ac1" av1 3 ?s, unfolded c1 fst_conv snd_conv log_single]
  note cr2 = create_logged [of ans oth en "Some rn" "of_nat ac2" av2 3 s1, unfolded c2 fst_conv snd_conv cr1]
  have call: "call ?m (Sys_pipe False) (u, []) = ((r, out), ?s)" by (simp add: call_logged a)
  show ?thesis
    unfolding handle_pipe_paths [OF call l rt b1 b2 c1 c2] a
    by (simp add: call0_logged log_single wait_logged close_fds_def print_pid_def cr1 cr2)
qed


text \<open>A kernel that grants every request.\<close>

definition grant :: "log \<Rightarrow> syscall \<Rightarrow> u64 \<times> outcome" where
  "grant w c = (case c of Sys_pipe null \<Rightarrow> (0, Fd_Pair 5 6) | Sys_create_process nm e ac av fg \<Rightarrow> (7, No_Output)
     | _ \<Rightarrow> (0, No_Output))"

theorem handle_pipe_releases_witness:
  "closed_fds (snd (handle_pipe (logged grant (\<lambda>_ _ u. u) (\<lambda>_. 0)) ''cat'' ''wc'' False (user0, []))) = [5, 6]"
  using handle_pipe_releases [of grant "\<lambda>_ _ u. u" "\<lambda>_. 0" "''cat''" "''wc''" False user0]
  by (simp add: grant_def of_int64_def Let_def)

text \<open>
  A command in the foreground that cannot be created leaves the terminal in cooked mode. For a
  line with a single command of those that run as a child, without \<open>&\<close>, the shell switches to
  cooked mode before it creates the process, and back to raw mode only when the process has been
  created and waited for.
\<close>

lemma failed_command_leaves_cooked:
  assumes "cstr line \<noteq> []" and "strip_bg (cstr line) = (False, b)" and "parse_pipe b = None"
    and "split_name b = (nm, args)" and "is_child_command nm"
  shows "let w = snd (processLine (logged ans oth en) tests buf line (u, [])) in
    tty_modes w = (if created w = [] then [TTY_COOKED] else [TTY_COOKED, TTY_RAW])"
proof -
  let ?m = "logged ans oth en"
  obtain ac av where av: "build_argv args = (ac, av)" by fastforce
  let ?s = "call0 ?m (Sys_tty_mode TTY_COOKED) (shellPrintString ?m (Some [BS]) (u, []))"
  obtain p s1 where c: "my_create_process_fg ?m (Some nm) (of_nat ac) av 1 ?s = (p, s1)"
    by (meson surj_pair)
  note cr = create_logged [of ans oth en "Some nm" "of_nat ac" av 1 ?s, unfolded c fst_conv snd_conv]
  have len: "user_strlen (Some line) \<noteq> 0"
    using assms(1) by (simp add: user_strlen_def str_len_loop_eq)
  note eqs = len assms(2-5) av c
  show ?thesis
  proof (cases "p < 0")
    case True
    then have "processLine ?m tests buf line (u, []) =
        shellPrintString ?m (Some ''Error creando proceso\<newline>'') s1"
      unfolding processLine_def using eqs by simp
    then show ?thesis using True by (simp add: cr call0_logged log_single)
  next
    case False
    then have "processLine ?m tests buf line (u, []) =
        call0 ?m (Sys_tty_mode TTY_RAW) (snd (my_wait ?m p s1))"
      unfolding processLine_def using eqs by (simp add: case_prod_beta)
    then show ?thesis using False by (simp add: cr call0_logged log_single wait_logged)
  qed
qed

text \<open>\<open>cat\<close>, when the kernel refuses everything, for instance because the process table is full.\<close>

definition refuse :: "log machine" where
  "refuse = logged (\<lambda>w c. (- 1, No_Output)) (\<lambda>_ _ u. u) (\<lambda>_. 0)"

lemma refuse_create: "fst (my_create_process_fg refuse nm ac av fg s) = - 1"
  by (simp add: my_create_process_fg_def refuse_def call_logged Let_def split: option.split)

end
