(* ===== verification/Token_Protocol.thy ===== *)
theory Token_Protocol
  imports Props_Sem
begin

text \<open>
  Processes of user space that hand a single unit around between semaphores: the pattern behind the
  MVars of \<open>mvar.c\<close> and the critical section of \<open>test_sync.c\<close>. A participant waits on one semaphore,
  works on shared data in a number of atomic steps, posts to a semaphore (the same or another), and
  starts again. The semaphores are those of the kernel: \<open>sem_down\<close> and \<open>sem_up\<close> are what \<open>sem_wait\<close> and
  \<open>sem_post\<close> do to the table (\<open>sem_wait_table\<close>, \<open>sem_post_table\<close>), the caller blocks when the value was
  not positive, and a post lets the process at the head of the queue go on.

  The steps of different participants interleave in any way.
\<close>

datatype pc = Outside | Queued | Inside nat

record ('d, 'x) tstate =
  sems :: "'d \<Rightarrow> semaphore"
  at :: "u64 \<Rightarrow> pc"
  dat :: 'x

definition t_wait :: "(u64 \<Rightarrow> 'd) \<Rightarrow> u64 \<Rightarrow> ('d, 'x) tstate \<Rightarrow> ('d, 'x) tstate" where
  "t_wait ws p s =
     s\<lparr>sems := (sems s)(ws p := sem_down p (sems s (ws p))),
       at := (at s)(p := if 0 \<le> sem_value (sem_down p (sems s (ws p))) then Inside 0 else Queued)\<rparr>"

definition t_act :: "(u64 \<Rightarrow> nat \<Rightarrow> 'x \<Rightarrow> 'x) \<Rightarrow> u64 \<Rightarrow> nat \<Rightarrow> ('d, 'x) tstate \<Rightarrow> ('d, 'x) tstate" where
  "t_act act p j s = s\<lparr>at := (at s)(p := Inside (j + 1)), dat := act p j (dat s)\<rparr>"

definition t_post :: "(u64 \<Rightarrow> 'd) \<Rightarrow> u64 \<Rightarrow> ('d, 'x) tstate \<Rightarrow> ('d, 'x) tstate" where
  "t_post ps p s =
     (let sem = sems s (ps p); a = (at s)(p := Outside)
      in s\<lparr>sems := (sems s)(ps p := sem_up sem),
           at := (if sem_value (sem_up sem) \<le> 0 \<and> q_count (sem_queue sem) > 0
                  then a(fst (queue_pop (sem_queue sem)) := Inside 0) else a)\<rparr>)"

text \<open>\<open>fin p\<close> is the number of steps of \<open>p\<close> between its wait and its post.\<close>

inductive t_step ::
    "u64 set \<Rightarrow> (u64 \<Rightarrow> 'd) \<Rightarrow> (u64 \<Rightarrow> 'd) \<Rightarrow> (u64 \<Rightarrow> nat \<Rightarrow> 'x \<Rightarrow> 'x) \<Rightarrow> (u64 \<Rightarrow> nat)
     \<Rightarrow> ('d, 'x) tstate \<Rightarrow> ('d, 'x) tstate \<Rightarrow> bool"
  for who ws ps act fin where
  wait: "p \<in> who \<Longrightarrow> at s p = Outside \<Longrightarrow> t_step who ws ps act fin s (t_wait ws p s)"
| act: "p \<in> who \<Longrightarrow> at s p = Inside j \<Longrightarrow> j < fin p \<Longrightarrow> t_step who ws ps act fin s (t_act act p j s)"
| post: "p \<in> who \<Longrightarrow> at s p = Inside (fin p) \<Longrightarrow> t_step who ws ps act fin s (t_post ps p s)"

inductive_cases t_stepE: "t_step who ws ps act fin s s'"

text \<open>Before the first wait: one unit at \<open>d\<close>, as \<open>sem_open\<close> leaves it.\<close>

definition t_start :: "'d \<Rightarrow> 'x \<Rightarrow> ('d, 'x) tstate \<Rightarrow> bool" where
  "t_start d x s \<longleftrightarrow> at s = (\<lambda>_. Outside) \<and> dat s = x \<and>
     (\<forall>e. q_ok (sem_queue (sems s e)) \<and> q_count (sem_queue (sems s e)) = 0 \<and>
        sem_value (sems s e) = (if e = d then 1 else 0))"

inductive t_reach ::
    "u64 set \<Rightarrow> (u64 \<Rightarrow> 'd) \<Rightarrow> (u64 \<Rightarrow> 'd) \<Rightarrow> (u64 \<Rightarrow> nat \<Rightarrow> 'x \<Rightarrow> 'x) \<Rightarrow> (u64 \<Rightarrow> nat)
     \<Rightarrow> 'd \<Rightarrow> 'x \<Rightarrow> ('d, 'x) tstate \<Rightarrow> bool"
  for who ws ps act fin d x where
  start: "t_start d x s \<Longrightarrow> t_reach who ws ps act fin d x s"
| step: "t_reach who ws ps act fin d x s \<Longrightarrow> t_step who ws ps act fin s s' \<Longrightarrow> t_reach who ws ps act fin d x s'"

section \<open>The invariant\<close>

text \<open>
  The waiters of each semaphore are in its queue, and its value counts them. As the queue holds 64 at most, the
  value stays far from the ends of its range.
\<close>

definition queues_ok :: "u64 set \<Rightarrow> (u64 \<Rightarrow> 'd) \<Rightarrow> ('d, 'x) tstate \<Rightarrow> bool" where
  "queues_ok who ws s \<longleftrightarrow>
     (\<forall>d. q_ok (sem_queue (sems s d)) \<and> distinct (pids (sem_queue (sems s d))) \<and>
        set (pids (sem_queue (sems s d))) = {p \<in> who. ws p = d \<and> at s p = Queued})"

definition all_outside :: "u64 set \<Rightarrow> ('d, 'x) tstate \<Rightarrow> bool" where
  "all_outside who s \<longleftrightarrow> (\<forall>p \<in> who. \<forall>j. at s p \<noteq> Inside j)"

definition debt :: "semaphore \<Rightarrow> int" where
  "debt s = - int (q_count (sem_queue s))"

lemma sem_down_up_value: "sem_value (sem_down p s) = i64 (sem_value s - 1)" "sem_value (sem_up s) = i64 (sem_value s + 1)"
  by (simp_all add: sem_down_def sem_up_def Let_def)

lemma debt_bounds: "q_ok (sem_queue s) \<Longrightarrow> - 64 \<le> debt s \<and> debt s \<le> 0"
  by (simp add: debt_def q_ok_def)

text \<open>The unit is at the semaphore \<open>d\<close>, or with the process \<open>h\<close>, whose step \<open>j\<close> is next.\<close>

definition unit_at :: "u64 set \<Rightarrow> 'd \<Rightarrow> ('d, 'x) tstate \<Rightarrow> bool" where
  "unit_at who d s \<longleftrightarrow> all_outside who s \<and> q_count (sem_queue (sems s d)) = 0 \<and> sem_value (sems s d) = 1 \<and>
     (\<forall>e. e \<noteq> d \<longrightarrow> sem_value (sems s e) = debt (sems s e))"

definition unit_with :: "u64 set \<Rightarrow> (u64 \<Rightarrow> nat) \<Rightarrow> u64 \<Rightarrow> nat \<Rightarrow> ('d, 'x) tstate \<Rightarrow> bool" where
  "unit_with who fin h j s \<longleftrightarrow> h \<in> who \<and> at s h = Inside j \<and> j \<le> fin h \<and>
     (\<forall>p \<in> who. p \<noteq> h \<longrightarrow> (\<forall>i. at s p \<noteq> Inside i)) \<and> (\<forall>e. sem_value (sems s e) = debt (sems s e))"

text \<open>
  The data belong to whoever has the unit: \<open>G d\<close> holds of them while the unit is at \<open>d\<close>, \<open>H p j\<close> while
  \<open>p\<close> is about to do its step \<open>j\<close>.
\<close>

locale token_protocol =
  fixes who :: "u64 set" and ws ps :: "u64 \<Rightarrow> 'd" and act :: "u64 \<Rightarrow> nat \<Rightarrow> 'x \<Rightarrow> 'x" and fin :: "u64 \<Rightarrow> nat"
    and G :: "'d \<Rightarrow> 'x \<Rightarrow> bool" and H :: "u64 \<Rightarrow> nat \<Rightarrow> 'x \<Rightarrow> bool"
  assumes who_fits: "finite who" "card who \<le> MAX_PROCESSES"
    and enter: "p \<in> who \<Longrightarrow> G (ws p) x \<Longrightarrow> H p 0 x"
    and work: "p \<in> who \<Longrightarrow> j < fin p \<Longrightarrow> H p j x \<Longrightarrow> H p (j + 1) (act p j x)"
    and leave: "p \<in> who \<Longrightarrow> H p (fin p) x \<Longrightarrow> G (ps p) x"
begin

definition token_inv :: "('d, 'x) tstate \<Rightarrow> bool" where
  "token_inv s \<longleftrightarrow> queues_ok who ws s \<and>
     ((\<exists>d. unit_at who d s \<and> G d (dat s)) \<or> (\<exists>h j. unit_with who fin h j s \<and> H h j (dat s)))"

lemma start_inv:
  assumes "t_start d x s" and "G d x"
  shows "token_inv s"
proof -
  have e: "pids (sem_queue (sems s e)) = []" for e
    using assms(1) by (intro pids_empty) (simp add: t_start_def)
  have "queues_ok who ws s" using assms(1) by (simp add: queues_ok_def t_start_def e)
  then show ?thesis using assms by (auto simp: token_inv_def t_start_def unit_at_def all_outside_def debt_def)
qed

lemma room:
  assumes "queues_ok who ws s" and "p \<in> who" and "at s p = Outside"
  shows "q_count (sem_queue (sems s d)) < MAX_PROCESSES"
proof -
  have q: "distinct (pids (sem_queue (sems s d)))" "set (pids (sem_queue (sems s d))) \<subseteq> who - {p}"
    using assms by (auto simp: queues_ok_def)
  have "q_count (sem_queue (sems s d)) = card (set (pids (sem_queue (sems s d))))"
    using q(1) by (simp add: distinct_card)
  also have "\<dots> \<le> card (who - {p})" using q(2) who_fits(1) by (intro card_mono) simp_all
  also have "\<dots> < card who" using who_fits(1) assms(2) by (intro card_Diff1_less)
  finally show ?thesis using who_fits(2) by simp
qed

lemma token_near: "token_inv s \<Longrightarrow> - 64 \<le> sem_value (sems s e) \<and> sem_value (sems s e) \<le> 1"
proof -
  assume i: "token_inv s"
  then have "q_ok (sem_queue (sems s e))" by (simp add: token_inv_def queues_ok_def)
  then have b: "- 64 \<le> debt (sems s e) \<and> debt (sems s e) \<le> 0" by (rule debt_bounds)
  have "sem_value (sems s e) = debt (sems s e) \<or> sem_value (sems s e) = 1"
    using i unfolding token_inv_def unit_at_def unit_with_def by metis
  then show ?thesis using b by auto
qed

lemma wait_at:
  assumes "- 64 \<le> sem_value (sems s (ws p))" and "sem_value (sems s (ws p)) \<le> 1"
  shows "at (t_wait ws p s) = (at s)(p := if 0 < sem_value (sems s (ws p)) then Inside 0 else Queued)"
    and "sem_queue (sem_down p (sems s (ws p))) =
      (if 0 < sem_value (sems s (ws p)) then sem_queue (sems s (ws p)) else sem_queue_push p (sem_queue (sems s (ws p))))"
  using assms by (auto simp: t_wait_def sem_down_def Let_def)

lemma wait_sems: "sems (t_wait ws p s) = (sems s)(ws p := sem_down p (sems s (ws p)))"
  by (simp add: t_wait_def)

lemma wait_queues:
  assumes q: "queues_ok who ws s" and p: "p \<in> who" "at s p = Outside"
    and near: "- 64 \<le> sem_value (sems s (ws p))" "sem_value (sems s (ws p)) \<le> 1"
  shows "queues_ok who ws (t_wait ws p s)"
    and "q_count (sem_queue (sems (t_wait ws p s) (ws p))) =
      q_count (sem_queue (sems s (ws p))) + (if 0 < sem_value (sems s (ws p)) then 0 else 1)"
proof -
  let ?q = "sem_queue (sems s (ws p))"
  have ok: "q_ok ?q" using q by (simp add: queues_ok_def)
  have push: "pids (sem_queue_push p ?q) = pids ?q @ [p]"
    using room [OF q p, of "ws p"] ok by (simp add: abs_simps)
  have new: "pids (sem_queue (sem_down p (sems s (ws p)))) =
      pids ?q @ (if 0 < sem_value (sems s (ws p)) then [] else [p])"
    using push by (simp add: wait_at(2) [OF near])
  have nok: "q_ok (sem_queue (sem_down p (sems s (ws p))))"
    using ok by (simp add: wait_at(2) [OF near] inv_intros)
  have "p \<notin> set (pids ?q)" using q p by (simp add: queues_ok_def)
  then show "queues_ok who ws (t_wait ws p s)"
    using q p new nok by (auto simp: queues_ok_def wait_at(1) [OF near] wait_sems)
  show "q_count (sem_queue (sems (t_wait ws p s) (ws p))) =
      q_count ?q + (if 0 < sem_value (sems s (ws p)) then 0 else 1)"
    using arg_cong [OF new, of length] by (simp add: t_wait_def)
qed

text \<open>The first process that waits for a semaphore whose unit is there takes it along.\<close>

lemma wait_inv:
  assumes "token_inv s" and p: "p \<in> who" "at s p = Outside"
  shows "token_inv (t_wait ws p s)"
proof -
  have q: "queues_ok who ws s" using assms(1) by (simp add: token_inv_def)
  have near: "- 64 \<le> sem_value (sems s (ws p))" "sem_value (sems s (ws p)) \<le> 1" using token_near [OF assms(1)] by auto
  note qw = wait_queues [OF q p near]
  have v: "sem_value (sems (t_wait ws p s) e) = sem_value (sems s e) - (if e = ws p then 1 else 0)" for e
    using near by (simp add: t_wait_def sem_down_up_value)
  have c: "q_count (sem_queue (sems (t_wait ws p s) e)) = q_count (sem_queue (sems s e))" if "e \<noteq> ws p" for e
    using that by (simp add: t_wait_def)
  have at: "at (t_wait ws p s) = (at s)(p := if 0 < sem_value (sems s (ws p)) then Inside 0 else Queued)"
    and d: "dat (t_wait ws p s) = dat s" by (rule wait_at(1) [OF near]) (simp add: t_wait_def)
  have blocked: "sem_value (sems (t_wait ws p s) e) = debt (sems (t_wait ws p s) e)"
    if "sem_value (sems s e) = debt (sems s e)" "\<not> 0 < sem_value (sems s (ws p))" for e
    using that v [of e] c [of e] qw(2) by (cases "e = ws p") (simp_all add: debt_def)
  consider (unit) u where "unit_at who u s" "G u (dat s)" | (hold) h j where "unit_with who fin h j s" "H h j (dat s)"
    using assms(1) by (auto simp: token_inv_def)
  then show ?thesis
  proof cases
    case unit
    show ?thesis
    proof (cases "u = ws p")
      case True
      then have "unit_with who fin p 0 (t_wait ws p s)"
        using unit(1) p(1) v c qw(2) by (auto simp: unit_at_def unit_with_def all_outside_def at debt_def)
      moreover have "H p 0 (dat (t_wait ws p s))" using enter [OF p(1)] unit(2) True d by simp
      ultimately show ?thesis using qw(1) by (auto simp: token_inv_def)
    next
      case False
      then have b: "\<not> 0 < sem_value (sems s (ws p))" using unit(1) by (auto simp: unit_at_def debt_def)
      then have "unit_at who u (t_wait ws p s)"
        using unit(1) blocked v [of u] c [of u] False by (auto simp: unit_at_def all_outside_def at)
      then show ?thesis using qw(1) unit(2) d by (auto simp: token_inv_def)
    qed
  next
    case hold
    then have b: "\<not> 0 < sem_value (sems s (ws p))" by (auto simp: unit_with_def debt_def)
    then have "unit_with who fin h j (t_wait ws p s)"
      using hold(1) blocked p by (auto simp: unit_with_def at)
    then show ?thesis using qw(1) hold(2) d by (auto simp: token_inv_def)
  qed
qed

text \<open>Whoever is inside has the unit.\<close>

lemma inside_holds:
  assumes "token_inv s" and "p \<in> who" and "at s p = Inside j"
  shows "unit_with who fin p j s \<and> H p j (dat s)"
proof -
  from assms obtain h i where h: "unit_with who fin h i s" "H h i (dat s)"
    by (auto simp: token_inv_def unit_at_def all_outside_def)
  then have "p = h" using assms(2,3) by (auto simp: unit_with_def)
  moreover from this have "i = j" using h(1) assms(3) by (simp add: unit_with_def)
  ultimately show ?thesis using h by simp
qed

lemma act_inv:
  assumes "token_inv s" and p: "p \<in> who" "at s p = Inside j" "j < fin p"
  shows "token_inv (t_act act p j s)"
proof -
  note h = inside_holds [OF assms(1) p(1,2)]
  have "queues_ok who ws (t_act act p j s)"
    using assms by (auto simp: token_inv_def queues_ok_def t_act_def)
  moreover have "unit_with who fin p (j + 1) (t_act act p j s)"
    using h p(3) by (auto simp: unit_with_def t_act_def debt_def)
  moreover have "H p (j + 1) (dat (t_act act p j s))"
    using work [OF p(1,3)] h by (simp add: t_act_def)
  ultimately show ?thesis by (auto simp: token_inv_def)
qed

lemma post_inv:
  assumes "token_inv s" and p: "p \<in> who" "at s p = Inside (fin p)"
  shows "token_inv (t_post ps p s)"
proof -
  note h = inside_holds [OF assms(1) p]
  have G: "G (ps p) (dat (t_post ps p s))" using leave [OF p(1)] h by (simp add: t_post_def Let_def)
  let ?s = "sems s (ps p)"
  have q: "queues_ok who ws s" using assms(1) by (simp add: token_inv_def)
  have val: "sem_value ?s = - int (q_count (sem_queue ?s))" using h by (simp add: unit_with_def debt_def)
  then have near: "i64 (1 - int (q_count (sem_queue ?s))) = 1 - int (q_count (sem_queue ?s))"
    using token_near [OF assms(1), of "ps p"] by simp
  have others: "\<forall>i. at s r \<noteq> Inside i" if "r \<in> who" "r \<noteq> p" for r
    using h that by (simp add: unit_with_def)
  show ?thesis
  proof (cases "q_count (sem_queue ?s) = 0")
    case True
    then have eq: "t_post ps p s = s\<lparr>sems := (sems s)(ps p := ?s\<lparr>sem_value := 1\<rparr>), at := (at s)(p := Outside)\<rparr>"
      using val by (simp add: t_post_def sem_up_def add_value_def Let_def)
    have "queues_ok who ws (t_post ps p s)" unfolding eq using q p(2) by (auto simp: queues_ok_def)
    moreover have "unit_at who (ps p) (t_post ps p s)"
      unfolding eq using h True others by (auto simp: unit_at_def all_outside_def unit_with_def debt_def)
    ultimately show ?thesis using G by (auto simp: token_inv_def)
  next
    case False
    have ok: "q_ok (sem_queue ?s)" using q by (simp add: queues_ok_def)
    have pop: "pids (sem_queue ?s) = fst (queue_pop (sem_queue ?s)) # pids (snd (queue_pop (sem_queue ?s)))"
      using False by (intro pids_queue_pop [OF ok]) simp
    define r q' where "r = fst (queue_pop (sem_queue ?s))" and "q' = snd (queue_pop (sem_queue ?s))"
    have pids: "pids (sem_queue ?s) = r # pids q'" and ok': "q_ok q'"
      using pop queue_pop_ok [OF ok] False by (simp_all add: r_def q'_def)
    have eq: "t_post ps p s = s\<lparr>sems := (sems s)(ps p := ?s\<lparr>sem_value := sem_value ?s + 1, sem_queue := q'\<rparr>),
        at := (at s)(p := Outside, r := Inside 0)\<rparr>"
      using val False near by (simp add: t_post_def sem_up_def add_value_def Let_def r_def q'_def)
    have r: "r \<in> who" "ws r = ps p" "at s r = Queued" "r \<notin> set (pids q')" "distinct (pids q')"
      "set (pids q') = {x \<in> who. ws x = ps p \<and> at s x = Queued} - {r}"
    proof -
      have "set (pids (sem_queue ?s)) = {x \<in> who. ws x = ps p \<and> at s x = Queued}" "distinct (pids (sem_queue ?s))"
        using q by (simp_all add: queues_ok_def)
      then have i: "insert r (set (pids q')) = {x \<in> who. ws x = ps p \<and> at s x = Queued}"
          and d: "r \<notin> set (pids q')" "distinct (pids q')"
        unfolding pids by simp_all
      show "r \<in> who" "ws r = ps p" "at s r = Queued" "r \<notin> set (pids q')" "distinct (pids q')"
        using i d by blast+
      show "set (pids q') = {x \<in> who. ws x = ps p \<and> at s x = Queued} - {r}" using i d(1) by blast
    qed
    have cnt: "q_count q' = q_count (sem_queue ?s) - 1"
      using arg_cong [OF pids, of length] by simp
    have "queues_ok who ws (t_post ps p s)"
      unfolding eq using q p r ok' by (auto simp: queues_ok_def)
    moreover have "unit_with who fin r 0 (t_post ps p s)"
      unfolding eq using h r others cnt False by (auto simp: unit_with_def debt_def)
    moreover have "H r 0 (dat (t_post ps p s))" using enter [OF r(1)] G r(2) by simp
    ultimately show ?thesis by (auto simp: token_inv_def)
  qed
qed

lemma reach_inv: "t_reach who ws ps act fin d x s \<Longrightarrow> G d x \<Longrightarrow> token_inv s"
proof (induction rule: t_reach.induct)
  case (start s)
  then show ?case by (rule start_inv)
next
  case (step s s')
  from step(2) step.IH [OF step.prems] show ?case
    by (elim t_stepE) (simp_all add: wait_inv act_inv post_inv)
qed

text \<open>Mutual exclusion, and no deadlock as long as somebody can use the unit wherever it is.\<close>

lemma exclusive:
  assumes "t_reach who ws ps act fin d x s" and "G d x"
    and "p \<in> who" "q \<in> who" "at s p = Inside i" "at s q = Inside j"
  shows "p = q"
  using inside_holds [OF reach_inv [OF assms(1,2)] assms(3,5)] assms(4,6) by (auto simp: unit_with_def)

text \<open>Where all use one semaphore: whenever somebody waits, somebody is inside.\<close>

lemma waits_for_holder:
  assumes "t_reach who ws ps act fin d x s" and "G d x" and one: "\<And>a b :: 'd. a = b"
    and p: "p \<in> who" "at s p = Queued"
  shows "\<exists>q \<in> who. \<exists>j. at s q = Inside j"
proof (rule ccontr)
  assume n: "\<not> ?thesis"
  have i: "token_inv s" by (rule reach_inv [OF assms(1,2)])
  then obtain u where "unit_at who u s" using n by (auto simp: token_inv_def unit_with_def)
  then have "pids (sem_queue (sems s (ws p))) = []" using one [of "ws p" u] by (intro pids_empty) (simp add: unit_at_def)
  moreover have "p \<in> set (pids (sem_queue (sems s (ws p))))"
    using i p by (simp add: token_inv_def queues_ok_def)
  ultimately show False by (simp only: list.set empty_iff)
qed

lemma progress:
  assumes "t_reach who ws ps act fin d x s" and "G d x" and "\<And>e. \<exists>p \<in> who. ws p = e"
  shows "\<exists>s'. t_step who ws ps act fin s s'"
proof -
  have i: "token_inv s" by (rule reach_inv [OF assms(1,2)])
  then consider (unit) u where "unit_at who u s" | (hold) h j where "unit_with who fin h j s"
    by (auto simp: token_inv_def)
  then show ?thesis
  proof cases
    case unit
    obtain p where p: "p \<in> who" "ws p = u" using assms(3) by blast
    have "pids (sem_queue (sems s u)) = []" using unit by (intro pids_empty) (simp add: unit_at_def)
    then have "set (pids (sem_queue (sems s u))) = {}" by (simp only: list.set)
    moreover have "set (pids (sem_queue (sems s u))) = {x \<in> who. ws x = u \<and> at s x = Queued}"
      using i by (simp add: token_inv_def queues_ok_def)
    ultimately have "{x \<in> who. ws x = u \<and> at s x = Queued} = {}" by (simp only:)
    then have "at s p \<noteq> Queued" using p by simp
    moreover have "at s p \<noteq> Inside j" for j using unit p by (auto simp: unit_at_def all_outside_def)
    ultimately have "at s p = Outside" by (cases "at s p") auto
    then show ?thesis using t_step.wait [OF p(1)] by blast
  next
    case hold
    then have "h \<in> who" "at s h = Inside j" "j < fin h \<or> j = fin h" by (auto simp: unit_with_def)
    then show ?thesis using t_step.act [of h who s j fin] t_step.post [of h who s fin] by blast
  qed
qed

end

end
