(* ===== verification/Protocols.thy ===== *)
theory Protocols
  imports Token_Protocol User_Props Tests
begin

text \<open>
  Two programs of user space that synchronise through the semaphores of the kernel, as instances of
  the token protocol: the MVars of \<open>commands/mvar.c\<close> and the counter of \<open>tests/test_sync.c\<close>.
\<close>

section \<open>The kernel carries out the waits and posts\<close>

text \<open>
  \<open>ix\<close> says which entry of the kernel's table is which semaphore; the participants are processes of the
  kernel, blocked exactly while they wait.
\<close>

definition t_abs :: "('d \<Rightarrow> nat) \<Rightarrow> u64 set \<Rightarrow> kernel \<Rightarrow> ('d, 'x) tstate \<Rightarrow> bool" where
  "t_abs ix who k s \<longleftrightarrow> (\<forall>d. sems s d = sem_table k (ix d)) \<and>
     (\<forall>p \<in> who. \<exists>j. process_get p k = Some j \<and> (pstate (proc k j) = PROCESS_BLOCKED \<longleftrightarrow> at s p = Queued))"

lemma t_abs_participant:
  "t_abs ix who k s \<Longrightarrow> p \<in> who \<Longrightarrow>
     \<exists>j. process_get p k = Some j \<and> (pstate (proc k j) = PROCESS_BLOCKED) = (at s p = Queued)"
  by (simp add: t_abs_def)

lemma process_get_quiet: "quiet k k' \<Longrightarrow> process_get n k' = process_get n k"
  by (rule process_get_cong) (simp add: quiet_def)

lemma current_pid:
  assumes "kernel_inv k" and "current_process k = Some c"
  shows "process_get (pid (proc k c)) k = Some c" and "pstate (proc k c) \<noteq> PROCESS_BLOCKED"
proof -
  have i: "sys_inv {} k" and o: "on_cpu k c" using assms by (auto simp: kernel_inv_def on_cpu_def)
  have "pids_unique k" and "c < MAX_PROCESSES"
    using i assms(2) unfolding sys_inv_def table_inv_def cpu_inv_def by blast+
  then show "process_get (pid (proc k c)) k = Some c" using o process_get_pid [of k c] by (auto simp: on_cpu_def)
  show "pstate (proc k c) \<noteq> PROCESS_BLOCKED" using o by (auto simp: on_cpu_def)
qed

lemma process_get_inj: "process_get p k = Some j \<Longrightarrow> process_get q k = Some j \<Longrightarrow> p = q"
  by (metis process_get_Some(2))

lemma wait_refines:
  assumes "kernel_inv k" and "sems_ok k" and "inj ix" and f: "find_sem (Some nm) k = Some (ix (ws p))"
    and "current_process k = Some c" and p: "p = pid (proc k c)" and "t_abs ix who k s"
  shows "t_abs ix who (snd (sem_wait (Some nm) k)) (t_wait ws p s)"
proof -
  let ?k = "snd (sem_wait (Some nm) k)"
  have tab: "sem_table ?k = (sem_table k)(ix (ws p) := sem_down p (sem_table k (ix (ws p))))"
    unfolding p by (rule sem_wait_table(1) [OF assms(2) f [unfolded p] assms(5)])
  have s: "sems s d = sem_table k (ix d)" for d using assms(7) by (simp add: t_abs_def)
  have "sems (t_wait ws p s) d = sem_table ?k (ix d)" for d
    using assms(3) by (auto simp: t_wait_def tab s dest: injD)
  moreover have get: "process_get q ?k = process_get q k" for q
    by (rule process_get_quiet [OF quiet.sem_wait_frame])
  have st: "pstate (proc ?k j) =
      (if j = c \<and> \<not> 0 \<le> sem_value (sem_down p (sem_table k (ix (ws p)))) then PROCESS_BLOCKED
       else pstate (proc k j))" for j
    unfolding sem_wait_closed [OF assms(1,2) f assms(5)] sem_down_up_value by simp
  have "\<exists>j. process_get q ?k = Some j \<and> (pstate (proc ?k j) = PROCESS_BLOCKED \<longleftrightarrow> at (t_wait ws p s) q = Queued)"
    if q: "q \<in> who" for q
  proof -
    obtain j where j: "process_get q k = Some j" "pstate (proc k j) = PROCESS_BLOCKED \<longleftrightarrow> at s q = Queued"
      using t_abs_participant [OF assms(7) q] by blast
    have "j = c \<longleftrightarrow> q = p"
      using j(1) current_pid(1) [OF assms(1,5)] process_get_inj [of q k c p] unfolding p by auto
    then show ?thesis
      using j current_pid(2) [OF assms(1,5)] by (auto simp: get st t_wait_def s)
  qed
  ultimately show ?thesis by (simp add: t_abs_def)
qed

lemma post_refines:
  assumes "kernel_inv k" and "sems_ok k" and "inj ix" and f: "find_sem (Some nm) k = Some (ix (vs p))"
    and "current_process k = Some c" and p: "p = pid (proc k c)" and "t_abs ix who k s" and "queues_ok who ws s"
  shows "t_abs ix who (snd (sem_post (Some nm) k)) (t_post vs p s)"
proof -
  let ?k = "snd (sem_post (Some nm) k)" and ?s = "sem_table k (ix (vs p))"
  have tab: "sem_table ?k = (sem_table k)(ix (vs p) := sem_up ?s)" by (rule sem_post_table(1) [OF assms(2) f])
  have s: "sems s d = sem_table k (ix d)" for d using assms(7) by (simp add: t_abs_def)
  have "sems (t_post vs p s) d = sem_table ?k (ix d)" for d
    using assms(3) by (auto simp: t_post_def tab s Let_def dest: injD)
  moreover have get: "process_get q ?k = process_get q k" for q
    by (rule process_get_quiet [OF quiet.sem_post_frame])
  have g: "sem_good ?s" by (rule sems_ok_sem [OF assms(2)])
  define b where "b \<longleftrightarrow> pids (sem_queue ?s) \<noteq> [] \<and> i64 (sem_value ?s + 1) \<le> 0"
  define w where "w = hd (pids (sem_queue ?s))"
  have bq: "b \<longleftrightarrow> q_count (sem_queue ?s) > 0 \<and> i64 (sem_value ?s + 1) \<le> 0" by (simp add: b_def)
  have pop: "w = fst (queue_pop (sem_queue ?s))" if b
  proof -
    have "pids (sem_queue ?s) = fst (queue_pop (sem_queue ?s)) # pids (snd (queue_pop (sem_queue ?s)))"
      using that g unfolding bq by (intro pids_queue_pop) (simp_all add: sem_good_def)
    then show ?thesis unfolding w_def by (metis list.sel(1))
  qed
  have waits: "w \<in> who" "at s w = Queued" if b
  proof -
    have "w \<in> set (pids (sem_queue ?s))" unfolding w_def by (rule hd_in_set) (use that b_def in blast)
    then show "w \<in> who" "at s w = Queued" using assms(8) unfolding queues_ok_def s by blast+
  qed
  have at: "at (t_post vs p s) = (if b then (at s)(p := Outside, w := Inside 0) else (at s)(p := Outside))"
    using pop by (auto simp: t_post_def s bq sem_down_up_value Let_def)
  have st: "pstate (proc ?k j) = (if b \<and> process_get w k = Some j \<and> pstate (proc k j) = PROCESS_BLOCKED
      then PROCESS_READY else pstate (proc k j))" for j
  proof -
    have "pids (sem_queue ?s) = [] \<or> sem_wrapped ?s \<and> 0 < i64 (sem_value ?s + 1) \<longleftrightarrow> \<not> b"
      using sem_good_up_le [OF g] unfolding bq by auto
    then show ?thesis unfolding sem_post_states(1) [OF assms(2) f assms(5)] w_def [symmetric] by simp
  qed
  have "\<exists>j. process_get q ?k = Some j \<and> (pstate (proc ?k j) = PROCESS_BLOCKED \<longleftrightarrow> at (t_post vs p s) q = Queued)"
    if q: "q \<in> who" for q
  proof -
    obtain j where j: "process_get q k = Some j" "pstate (proc k j) = PROCESS_BLOCKED \<longleftrightarrow> at s q = Queued"
      using t_abs_participant [OF assms(7) q] by blast
    have "j = c \<longleftrightarrow> q = p"
      using j(1) current_pid(1) [OF assms(1,5)] process_get_inj [of q k c p] unfolding p by auto
    moreover have "process_get w k = Some j \<longleftrightarrow> q = w" using j(1) process_get_inj [of q k j w] by auto
    ultimately show ?thesis
      using j current_pid(2) [OF assms(1,5)] by (auto simp: get st at)
  qed
  ultimately show ?thesis by (simp add: t_abs_def)
qed

text \<open>
  C19: The kernel refines the steps of the protocol. While the participants are processes of the kernel,
  blocked exactly if they are queued, and the named semaphores are entries of the kernel's table, the
  system call \<open>sem_wait\<close> of a running participant does the step \<open>t_wait\<close> and \<open>sem_post\<close> the step \<open>t_post\<close>; both
  return 0, and the abstraction relation holds again.
\<close>

theorem kernel_refines_protocol:
  assumes "kernel_inv k" and "sems_ok k" and "inj ix" and "current_process k = Some c" and "t_abs ix who k s"
    and "queues_ok who ws s"
  shows "(find_sem (Some nm) k = Some (ix (ws (pid (proc k c)))) \<longrightarrow> fst (sem_wait (Some nm) k) = 0 \<and>
      t_abs ix who (snd (sem_wait (Some nm) k)) (t_wait ws (pid (proc k c)) s)) \<and>
    (find_sem (Some nm) k = Some (ix (vs (pid (proc k c)))) \<longrightarrow> fst (sem_post (Some nm) k) = 0 \<and>
      t_abs ix who (snd (sem_post (Some nm) k)) (t_post vs (pid (proc k c)) s))"
proof (intro conjI impI)
  assume f: "find_sem (Some nm) k = Some (ix (ws (pid (proc k c))))"
  show "fst (sem_wait (Some nm) k) = 0" unfolding sem_wait_closed [OF assms(1,2) f assms(4)] by simp
  show "t_abs ix who (snd (sem_wait (Some nm) k)) (t_wait ws (pid (proc k c)) s)"
    by (rule wait_refines) (use assms f in simp_all)
next
  assume f: "find_sem (Some nm) k = Some (ix (vs (pid (proc k c))))"
  then show "fst (sem_post (Some nm) k) = 0" by (simp add: sem_post_def Let_def)
  show "t_abs ix who (snd (sem_post (Some nm) k)) (t_post vs (pid (proc k c)) s)"
    by (rule post_refines) (use assms f in simp_all)
qed

text \<open>In the demo kernel process 2 is inside and process 3 waits: 2 posts.\<close>

definition demo_inside :: "(unit, unit) tstate" where
  "demo_inside = \<lparr>sems = (\<lambda>_. demo_mutex), at = (\<lambda>_. Outside)(2 := Inside 0, 3 := Queued), dat = ()\<rparr>"

lemma demo_inside_abs:
  "t_abs (\<lambda>_. 0) {2, 3} demo_sem demo_inside" "queues_ok {2, 3} (\<lambda>_. ()) demo_inside"
proof -
  have s: "sem_table demo_sem 0 = demo_mutex" "pstate (proc demo_sem 2) = PROCESS_BLOCKED"
    "pid (proc demo_sem 1) = 2" "pid (proc demo_sem 2) = 3"
    by (simp_all add: demo_sem_def demo_shell_def demo_child_def)
  have u: "pids_unique demo_sem" using demo_sem_facts(1) unfolding kernel_inv_def sys_inv_def table_inv_def by blast
  have "process_get 3 demo_sem = Some 2" using process_get_pid [OF u, of 2] by (simp add: s)
  then show "t_abs (\<lambda>_. 0) {2, 3} demo_sem demo_inside"
    using current_pid [OF demo_sem_facts(1,4), unfolded s] by (simp add: t_abs_def demo_inside_def s)
  have p: "pids (sem_queue demo_mutex) = [3]"
    by (simp add: demo_mutex_def sem_queue_push_def empty_q_def pids_def ring_list_def)
  have "sem_good demo_mutex" using sems_ok_sem [OF demo_sem_facts(2), of 0] by (simp add: s)
  then show "queues_ok {2, 3} (\<lambda>_. ()) demo_inside"
    by (auto simp: queues_ok_def demo_inside_def p sem_good_def)
qed

theorem kernel_refines_protocol_witness:
  "t_abs (\<lambda>_. 0) {2, 3} (snd (sem_post (Some ''m'') demo_sem)) (t_post (\<lambda>_. ()) 2 demo_inside)"
proof -
  have "pid (proc demo_sem 1) = 2" by (simp add: demo_sem_def demo_shell_def)
  moreover have "inj (\<lambda>_ :: unit. 0 :: nat)" by (simp add: inj_def)
  ultimately show ?thesis
    using kernel_refines_protocol [OF demo_sem_facts(1,2) _ demo_sem_facts(4) demo_inside_abs,
        of "''m''" "\<lambda>_. ()"] demo_sem_facts(3)
    by simp
qed

section \<open>The programs\<close>

text \<open>
  What a participant of the protocol is as a program: wait on the semaphore \<open>wn\<close>, do the steps \<open>act 0\<close>, \<open>act 1\<close>,
  ... with the code \<open>between\<close> them, post to the semaphore \<open>pn\<close>. The system calls run on any machine, so that
  whatever the others do while a call lasts is covered. \<open>'g\<close> is what the steps record besides the globals of the
  image: no program reads it.
\<close>

definition calling :: "(user \<times> 'w \<Rightarrow> 'r \<times> user \<times> 'w) \<Rightarrow> (user \<times> 'w) \<times> 'g \<Rightarrow> (user \<times> 'w) \<times> 'g" where
  "calling f x = (snd (f (fst x)), snd x)"

definition acting :: "(user \<times> 'g \<Rightarrow> user \<times> 'g) \<Rightarrow> (user \<times> 'w) \<times> 'g \<Rightarrow> (user \<times> 'w) \<times> 'g" where
  "acting a x = (let (u, g) = a (fst (fst x), snd x) in ((u, snd (fst x)), g))"

primrec working ::
    "(nat \<Rightarrow> user \<times> 'g \<Rightarrow> user \<times> 'g) \<Rightarrow> (nat \<Rightarrow> user \<times> 'w \<Rightarrow> user \<times> 'w) \<Rightarrow> nat
     \<Rightarrow> (user \<times> 'w) \<times> 'g \<Rightarrow> (user \<times> 'w) \<times> 'g" where
  "working act between 0 x = x"
| "working act between (Suc j) x =
     (let y = acting (act j) (working act between j x) in (between j (fst y), snd y))"

definition participant ::
    "'w machine \<Rightarrow> char list \<Rightarrow> char list \<Rightarrow> (nat \<Rightarrow> user \<times> 'g \<Rightarrow> user \<times> 'g)
     \<Rightarrow> (nat \<Rightarrow> user \<times> 'w \<Rightarrow> user \<times> 'w) \<Rightarrow> nat \<Rightarrow> (user \<times> 'w) \<times> 'g \<Rightarrow> (user \<times> 'w) \<times> 'g" where
  "participant m wn pn act between n x =
     calling (my_sem_post m pn) (working act between n (calling (my_sem_wait m wn) x))"

lemmas participant_defs = participant_def calling_def acting_def case_prod_beta Let_def

section \<open>MVars\<close>

text \<open>
  The entry \<open>i\<close> of \<open>umvar_table\<close> is in use; its two semaphores count the empty and the full slot. A
  writer of the letter \<open>c\<close> runs \<open>user_mvar_put\<close> again and again, a reader \<open>user_mvar_take\<close>: each waits on
  one semaphore, accesses \<open>mv_value\<close> once and posts to the other. \<open>puts\<close> and \<open>gets\<close> record what was written
  and what was read. That the two functions do just this is \<open>put_participates\<close> and \<open>take_participates\<close>.
\<close>

datatype slot_sem = Sem_Empty | Sem_Full

definition mv_ws :: "(u64 \<Rightarrow> char option) \<Rightarrow> u64 \<Rightarrow> slot_sem" where
  "mv_ws role p = (case role p of Some c \<Rightarrow> Sem_Empty | None \<Rightarrow> Sem_Full)"

definition mv_ps :: "(u64 \<Rightarrow> char option) \<Rightarrow> u64 \<Rightarrow> slot_sem" where
  "mv_ps role p = (case role p of Some c \<Rightarrow> Sem_Full | None \<Rightarrow> Sem_Empty)"

definition mv_act ::
    "nat \<Rightarrow> (u64 \<Rightarrow> char option) \<Rightarrow> u64 \<Rightarrow> nat \<Rightarrow> user \<times> char list \<times> char list \<Rightarrow> user \<times> char list \<times> char list" where
  "mv_act i role p j d =
     (case d of (u, puts, gets) \<Rightarrow>
       (case role p of
          Some c \<Rightarrow> (fst (upd_mvar i (\<lambda>x. x\<lparr>mv_value := c\<rparr>) (u, ())), puts @ [c], gets)
        | None \<Rightarrow> (u, puts, gets @ [mv_value (umvar_table u i)])))"

definition mv_sem_name :: "char list \<Rightarrow> slot_sem \<Rightarrow> char list" where
  "mv_sem_name nm e = (case e of Sem_Empty \<Rightarrow> fst (build_sem_names nm) | Sem_Full \<Rightarrow> snd (build_sem_names nm))"

definition mv_program ::
    "'w machine \<Rightarrow> char list \<Rightarrow> nat \<Rightarrow> (u64 \<Rightarrow> char option) \<Rightarrow> u64
     \<Rightarrow> (user \<times> 'w) \<times> char list \<times> char list \<Rightarrow> (user \<times> 'w) \<times> char list \<times> char list" where
  "mv_program m nm i role p =
     participant m (mv_sem_name nm (mv_ws role p)) (mv_sem_name nm (mv_ps role p)) (mv_act i role p) (\<lambda>_ s. s) (Suc 0)"

lemma put_participates:
  "find_umvar nm (fst s) = Some i \<Longrightarrow> role p = Some c \<Longrightarrow>
     user_mvar_put m nm c s = (0, fst (mv_program m nm i role p (s, g)))"
  by (simp add: user_mvar_put_def mv_program_def participant_defs mv_sem_name_def mv_ws_def mv_ps_def mv_act_def
      upd_mvar_def upd_user_def)

lemma take_participates:
  "find_umvar nm (fst s) = Some i \<Longrightarrow> role p = None \<Longrightarrow>
     user_mvar_take m nm s =
       (int (of_char (last (snd (snd (mv_program m nm i role p (s, g)))))), fst (mv_program m nm i role p (s, g)))"
  by (simp add: user_mvar_take_def mv_program_def participant_defs mv_sem_name_def mv_ws_def mv_ps_def mv_act_def)

definition mv_pending :: "nat \<Rightarrow> user \<times> char list \<times> char list \<Rightarrow> bool" where
  "mv_pending i d = (case d of (u, puts, gets) \<Rightarrow> puts = gets @ [mv_value (umvar_table u i)])"

definition mv_taken :: "user \<times> char list \<times> char list \<Rightarrow> bool" where
  "mv_taken d = (case d of (u, puts, gets) \<Rightarrow> puts = gets)"

definition mv_at_sem :: "nat \<Rightarrow> slot_sem \<Rightarrow> user \<times> char list \<times> char list \<Rightarrow> bool" where
  "mv_at_sem i d x = (case d of Sem_Empty \<Rightarrow> mv_taken x | Sem_Full \<Rightarrow> mv_pending i x)"

definition mv_held :: "nat \<Rightarrow> (u64 \<Rightarrow> char option) \<Rightarrow> u64 \<Rightarrow> nat \<Rightarrow> user \<times> char list \<times> char list \<Rightarrow> bool" where
  "mv_held i role p j x = (if (role p = None) = (j = 0) then mv_pending i x else mv_taken x)"

lemmas mv_defs = mv_ws_def mv_ps_def mv_act_def mv_pending_def mv_taken_def mv_at_sem_def mv_held_def upd_mvar_def
  upd_user_def

lemma mv_ws_iff:
  "mv_ws role p = Sem_Empty \<longleftrightarrow> role p \<noteq> None" "mv_ws role p = Sem_Full \<longleftrightarrow> role p = None"
  by (auto simp: mv_ws_def split: option.splits)

text \<open>The process table has room for 64 participants.\<close>

interpretation mv: token_protocol "set (take MAX_PROCESSES l)" "mv_ws role" "mv_ps role" "mv_act i role" "\<lambda>_. Suc 0"
    "mv_at_sem i" "mv_held i role"
  for l i role
proof
  show "card (set (take MAX_PROCESSES l)) \<le> MAX_PROCESSES"
    using card_length [of "take MAX_PROCESSES l"] by simp
qed (auto simp: mv_defs split: option.splits)

lemma participants:
  fixes who :: "u64 set"
  assumes "finite who" and "card who \<le> MAX_PROCESSES"
  obtains l where "who = set (take MAX_PROCESSES l)"
proof -
  obtain l where l: "who = set l" "distinct l" using finite_distinct_list [OF assms(1)] by auto
  then have "length l \<le> MAX_PROCESSES" using assms(2) distinct_card [OF l(2)] by simp
  then show ?thesis using that [of l] l(1) by simp
qed

text \<open>
  C17: An MVar delivers every value exactly once, in the order of the writes. For any writers and
  readers, at most 64 together, and any interleaving of their steps: what has been read is what has been
  written, except for at most one value that is still in the slot; no two participants are between a wait
  and a post at the same time, so no value is overwritten or read twice; and as long as there are a writer
  and a reader, some participant can go on. The participants are the code: on every machine and in every state where
  the MVar is in the table, a call of \<open>user_mvar_put\<close> with the writer's letter is a wait on the writer's semaphore,
  its step and a post to its other semaphore, and returns 0; a call of \<open>user_mvar_take\<close> is the same of a reader,
  and returns what the step has read.
\<close>

theorem mvar_exactly_once:
  assumes "finite who" and "card who \<le> MAX_PROCESSES"
    and "t_reach who (mv_ws role) (mv_ps role) (mv_act i role) (\<lambda>_. Suc 0) Sem_Empty (u0, [], []) s"
    and "dat s = (u, puts, gets)"
  shows "(puts = gets \<or> puts = gets @ [mv_value (umvar_table u i)]) \<and>
    (\<forall>p \<in> who. \<forall>q \<in> who. \<forall>a b. at s p = Inside a \<longrightarrow> at s q = Inside b \<longrightarrow> p = q) \<and>
    ((\<exists>p \<in> who. role p = None) \<longrightarrow> (\<exists>p \<in> who. role p \<noteq> None) \<longrightarrow>
      (\<exists>s'. t_step who (mv_ws role) (mv_ps role) (mv_act i role) (\<lambda>_. Suc 0) s s')) \<and>
    (find_umvar nm (fst x) = Some i \<longrightarrow>
      (\<forall>c. role p = Some c \<longrightarrow> user_mvar_put m nm c x = (0, fst (mv_program m nm i role p (x, g)))) \<and>
      (role p = None \<longrightarrow>
        user_mvar_take m nm x = (int (of_char (last (snd (snd (mv_program m nm i role p (x, g)))))),
          fst (mv_program m nm i role p (x, g)))))"
proof -
  obtain l where l: "who = set (take MAX_PROCESSES l)" using participants [OF assms(1,2)] .
  note r = assms(3) [unfolded l]
  have 0: "mv_at_sem i Sem_Empty (u0, [], [])" by (simp add: mv_defs)
  have "puts = gets \<or> puts = gets @ [mv_value (umvar_table u i)]"
    using mv.reach_inv [OF r 0] assms(4)
    by (auto simp: mv.token_inv_def mv_defs split: slot_sem.splits if_splits) (metis slot_sem.exhaust)
  moreover have "\<exists>p \<in> who. mv_ws role p = e" if "\<exists>p \<in> who. role p = None" "\<exists>p \<in> who. role p \<noteq> None" for e
    using that by (cases e) (simp_all add: mv_ws_iff)
  ultimately show ?thesis
    using mv.exclusive [OF r 0] mv.progress [OF r 0] put_participates [of nm x i role p _ m g]
      take_participates [of nm x i role p m g] unfolding l by blast
qed

text \<open>One writer and one reader before their first step.\<close>

definition mv_idle :: "(slot_sem, user \<times> char list \<times> char list) tstate" where
  "mv_idle = \<lparr>sems = (\<lambda>e. zero_sem\<lparr>sem_value := (if e = Sem_Empty then 1 else 0)\<rparr>), at = (\<lambda>_. Outside),
     dat = (user0, [], [])\<rparr>"

lemma start_zero_sem:
  "t_start d x \<lparr>sems = (\<lambda>e. zero_sem\<lparr>sem_value := (if e = d then 1 else 0)\<rparr>), at = (\<lambda>_. Outside), dat = x\<rparr>"
  by (simp add: t_start_def zero_sem_def empty_q_def q_ok_def)

definition mv_user :: user where
  "mv_user = user0\<lparr>umvar_table := \<lambda>_. \<lparr>mv_name = ''mvar_2'' @ [NUL], mv_value = NUL, mv_in_use = True\<rparr>\<rparr>"

lemma mv_user_found: "find_umvar ''mvar_2'' mv_user = Some 0"
  by (simp add: find_umvar_def mv_user_def first_slot_Some umvar_str_eq_def)

theorem mvar_exactly_once_witness:
  "(\<exists>s'. t_step {2, 3} (mv_ws [2 \<mapsto> CHR ''A'']) (mv_ps [2 \<mapsto> CHR ''A'']) (mv_act 0 [2 \<mapsto> CHR ''A'']) (\<lambda>_. Suc 0)
     mv_idle s') \<and>
   (\<forall>m :: unit machine. user_mvar_put m ''mvar_2'' CHR ''A'' (mv_user, ()) =
     (0, fst (mv_program m ''mvar_2'' 0 [2 \<mapsto> CHR ''A''] 2 ((mv_user, ()), [], []))))"
proof -
  have r: "t_reach {2, 3} (mv_ws [2 \<mapsto> CHR ''A'']) (mv_ps [2 \<mapsto> CHR ''A'']) (mv_act 0 [2 \<mapsto> CHR ''A'']) (\<lambda>_. Suc 0)
      Sem_Empty (user0, [], []) mv_idle"
    unfolding mv_idle_def by (rule t_reach.start [OF start_zero_sem])
  show ?thesis
    using mvar_exactly_once [OF _ _ r, of user0 "[]" "[]" "''mvar_2''" "(mv_user, ())" 2 _ "([], [])"]
    by (simp add: mv_idle_def mv_user_found)
qed

section \<open>The counter of test_sync\<close>

text \<open>
  The data are the globals of the image, among them \<open>global\<close> (\<open>sync_global\<close>), and for every participant its local
  \<open>aux\<close> and the number of rounds it has finished. \<open>slowInc\<close> is two steps, with the code that may yield between
  them: the others may run there. That \<open>inc_round\<close>, one iteration of \<open>my_process_inc\<close>, does just this between its
  wait and its post is \<open>inc_participates\<close>.
\<close>

type_synonym counting = "user \<times> (u64 \<Rightarrow> u64) \<times> (u64 \<Rightarrow> nat)"

abbreviation counter :: "counting \<Rightarrow> u64" where "counter c \<equiv> sync_global (fst c)"
abbreviation aux_of :: "counting \<Rightarrow> u64 \<Rightarrow> u64" where "aux_of c \<equiv> fst (snd c)"
abbreviation rounds :: "counting \<Rightarrow> u64 \<Rightarrow> nat" where "rounds c \<equiv> snd (snd c)"

definition slow_inc :: "(u64 \<Rightarrow> u64) \<Rightarrow> u64 \<Rightarrow> nat \<Rightarrow> counting \<Rightarrow> counting" where
  "slow_inc inc p j c =
     (if j = 0 then (fst c, (aux_of c)(p := counter c), rounds c)
      else ((fst c)\<lparr>sync_global := aux_of c p + inc p\<rparr>, aux_of c, (rounds c)(p := rounds c p + 1)))"

definition may_yield :: "'w machine \<Rightarrow> nat \<Rightarrow> user \<times> 'w \<Rightarrow> user \<times> 'w" where
  "may_yield m j s =
     (if j = 0 then let (r, s) = uniform m 100 s in if r < 30 then snd (my_yield m s) else s else s)"

lemma inc_participates:
  "inc_round m (inc p) True s = fst (participant m SEM_ID SEM_ID (slow_inc inc p) (may_yield m) 2 (s, g))"
  "inc_round m (inc p) False s = fst (working (slow_inc inc p) (may_yield m) 2 (s, g))"
  by (simp_all add: inc_round_def slowInc_def slow_inc_def may_yield_def participant_defs upd_user_def
      numeral_2_eq_2)

definition counted :: "u64 set \<Rightarrow> (u64 \<Rightarrow> u64) \<Rightarrow> counting \<Rightarrow> bool" where
  "counted who inc c \<longleftrightarrow> counter c = (\<Sum>p\<in>who. of_nat (rounds c p) * inc p)"

definition sc_held :: "u64 set \<Rightarrow> (u64 \<Rightarrow> u64) \<Rightarrow> u64 \<Rightarrow> nat \<Rightarrow> counting \<Rightarrow> bool" where
  "sc_held who inc p j c \<longleftrightarrow> counted who inc c \<and> (j = 1 \<longrightarrow> aux_of c p = counter c)"

lemma counted_inc:
  assumes "finite who" and "p \<in> who" and "counted who inc c" and "aux_of c p = counter c"
  shows "counted who inc (slow_inc inc p (Suc 0) c)"
proof -
  have "(\<Sum>q\<in>who. of_nat (((rounds c)(p := rounds c p + 1)) q) * inc q) =
      of_nat (rounds c p + 1) * inc p + (\<Sum>q\<in>who - {p}. of_nat (rounds c q) * inc q)"
    using assms(1,2) by (simp add: sum.remove [of who p])
  also have "\<dots> = (\<Sum>q\<in>who. of_nat (rounds c q) * inc q) + inc p"
    using assms(1,2) by (simp add: sum.remove [of who p] algebra_simps)
  finally show ?thesis using assms(3,4) by (simp add: counted_def slow_inc_def)
qed

interpretation sc: token_protocol "set (take MAX_PROCESSES l)" "\<lambda>_. ()" "\<lambda>_. ()" "slow_inc inc" "\<lambda>_. 2"
    "\<lambda>_. counted (set (take MAX_PROCESSES l)) inc" "sc_held (set (take MAX_PROCESSES l)) inc"
  for l inc
proof
  show "card (set (take MAX_PROCESSES l)) \<le> MAX_PROCESSES"
    using card_length [of "take MAX_PROCESSES l"] by simp
  fix p j c
  assume p: "p \<in> set (take MAX_PROCESSES l)" and j: "j < (2 :: nat)"
    and h: "sc_held (set (take MAX_PROCESSES l)) inc p j c"
  from j consider "j = 0" | "j = 1" by linarith
  then show "sc_held (set (take MAX_PROCESSES l)) inc p (j + 1) (slow_inc inc p j c)"
  proof cases
    case 1
    with h show ?thesis by (simp add: sc_held_def slow_inc_def counted_def)
  next
    case 2
    with h p counted_inc [of "set (take MAX_PROCESSES l)" p inc c] show ?thesis by (simp add: sc_held_def)
  qed
qed (simp_all add: sc_held_def)

text \<open>
  C18: \<open>test_sync\<close> with semaphores ends at 0. Any number of participants up to 64 run \<open>slowInc\<close> between
  \<open>sem_wait\<close> and \<open>sem_post\<close> of one semaphore, in any interleaving: the counter is always the sum of the finished
  increments; when all have made as many rounds and the increments cancel out it is 0; nobody is
  inside together with another; and whenever one waits, another is inside and can go on. The participants are the
  code: on every machine, an iteration of \<open>my_process_inc\<close> with the semaphore is the wait on \<open>SEM_ID\<close>, the two steps
  and the post; without it, it is the two steps alone, and an increment gets lost: two participants that
  read before either writes.
\<close>

theorem test_sync_counts:
  assumes "finite who" and "card who \<le> MAX_PROCESSES" and "sync_global u0 = 0"
    and "t_reach who (\<lambda>_. ()) (\<lambda>_. ()) (slow_inc inc) (\<lambda>_. 2) () (u0, a, \<lambda>_. 0) s"
  shows "counter (dat s) = (\<Sum>p\<in>who. of_nat (rounds (dat s) p) * inc p) \<and>
    ((\<forall>p \<in> who. rounds (dat s) p = n) \<longrightarrow> (\<Sum>p\<in>who. inc p) = 0 \<longrightarrow> counter (dat s) = 0) \<and>
    (\<forall>p \<in> who. \<forall>q \<in> who. \<forall>a b. at s p = Inside a \<longrightarrow> at s q = Inside b \<longrightarrow> p = q) \<and>
    ((\<exists>p \<in> who. at s p = Queued) \<longrightarrow> (\<exists>q \<in> who. \<exists>j. at s q = Inside j)) \<and>
    inc_round m (inc p) True x = fst (participant m SEM_ID SEM_ID (slow_inc inc p) (may_yield m) 2 (x, g)) \<and>
    inc_round m (inc p) False x = fst (working (slow_inc inc p) (may_yield m) 2 (x, g)) \<and>
    (p \<noteq> q \<longrightarrow>
      counter (slow_inc inc p 1 (slow_inc inc q 1 (slow_inc inc q 0 (slow_inc inc p 0 c)))) = counter c + inc p)"
proof -
  let ?c = "(u0, a, \<lambda>_. 0) :: counting"
  obtain l where l: "who = set (take MAX_PROCESSES l)" using participants [OF assms(1,2)] .
  note r = assms(4) [unfolded l]
  have 0: "counted (set (take MAX_PROCESSES l)) inc ?c" by (simp add: counted_def assms(3))
  have i: "sc.token_inv l inc s" by (rule sc.reach_inv [OF r 0])
  then have g: "counter (dat s) = (\<Sum>p\<in>who. of_nat (rounds (dat s) p) * inc p)"
    unfolding l sc.token_inv_def sc_held_def counted_def by blast
  moreover have "counter (dat s) = 0" if "\<forall>p \<in> who. rounds (dat s) p = n" "(\<Sum>p\<in>who. inc p) = 0"
    using that by (simp add: g flip: sum_distrib_left)
  moreover have "\<exists>q \<in> who. \<exists>j. at s q = Inside j" if "p \<in> who" "at s p = Queued" for p
    using sc.waits_for_holder [OF r 0 _ that [unfolded l]] unfolding l by simp
  moreover have "counter (slow_inc inc p 1 (slow_inc inc q 1 (slow_inc inc q 0 (slow_inc inc p 0 c)))) = counter c + inc p"
    if "p \<noteq> q"
    using that by (simp add: slow_inc_def)
  ultimately show ?thesis
    using sc.exclusive [OF r 0] inc_participates [of m inc p x g] unfolding l by blast
qed

theorem test_sync_counts_witness:
  "\<exists>s :: (unit, counting) tstate. at s 2 = Inside 2 \<and>
    counter (dat s) = (\<Sum>p\<in>{2, 3}. of_nat (rounds (dat s) p) * (if p = 2 then 1 else - 1)) \<and> rounds (dat s) 2 = 1"
proof -
  let ?inc = "\<lambda>p :: u64. if p = 2 then 1 else - 1 :: u64"
  let ?c = "(user0, \<lambda>_. 0, \<lambda>_. 0) :: counting"
  let ?s0 = "\<lparr>sems = (\<lambda>e. zero_sem\<lparr>sem_value := (if e = () then 1 else 0)\<rparr>), at = (\<lambda>_. Outside), dat = ?c\<rparr>"
  define s1 where "s1 = t_wait (\<lambda>_. ()) 2 ?s0"
  define s2 where "s2 = t_act (slow_inc ?inc) 2 0 s1"
  define s3 where "s3 = t_act (slow_inc ?inc) 2 1 s2"
  have at: "at s1 2 = Inside 0" "at s2 2 = Inside 1" "at s3 2 = Inside 2"
    by (simp_all add: s1_def s2_def s3_def t_wait_def t_act_def sem_down_up_value)
  have "t_reach {2, 3} (\<lambda>_. ()) (\<lambda>_. ()) (slow_inc ?inc) (\<lambda>_. 2) () ?c ?s0"
    by (rule t_reach.start [OF start_zero_sem])
  then have "t_reach {2, 3} (\<lambda>_. ()) (\<lambda>_. ()) (slow_inc ?inc) (\<lambda>_. 2) () ?c s1"
    by (rule t_reach.step) (simp add: s1_def t_step.wait)
  then have "t_reach {2, 3} (\<lambda>_. ()) (\<lambda>_. ()) (slow_inc ?inc) (\<lambda>_. 2) () ?c s2"
    by (rule t_reach.step) (simp add: s2_def t_step.act at)
  then have r: "t_reach {2, 3} (\<lambda>_. ()) (\<lambda>_. ()) (slow_inc ?inc) (\<lambda>_. 2) () ?c s3"
    by (rule t_reach.step) (simp add: s3_def t_step.act at)
  have "rounds (dat s3) 2 = 1"
    by (simp add: s1_def s2_def s3_def t_wait_def t_act_def slow_inc_def)
  moreover have "counter (dat s3) = (\<Sum>p\<in>{2, 3}. of_nat (rounds (dat s3) p) * (if p = 2 then 1 else - 1))"
    by (rule conjunct1 [OF test_sync_counts [OF _ _ _ r]]) (simp_all add: user0_def)
  ultimately show ?thesis using at(3) by blast
qed

end
