(* ===== verification/Vga_Console.thy ===== *)
theory Vga_Console
  imports Lib
begin

text \<open>
  \<open>Kernel/c/lib/naiveConsole.c\<close>: the console in the text buffer of the VGA, which the kernel keeps for
  debugging. A cell of the screen is a character at an even offset and its attribute behind it.
\<close>

abbreviation VGA :: u64 where "VGA \<equiv> 0xB8000"
abbreviation VGA_LIMIT :: u64 where "VGA_LIMIT \<equiv> 0xB8FA0"

record vga =
  vga_mem :: "u64 \<Rightarrow> char"
  currentVideo :: u64

section \<open>Operations\<close>

text \<open>The end of \<open>ncPrintChar\<close>: back to the first cell from outside the buffer.\<close>

definition nc_wrap :: "vga \<Rightarrow> vga" where
  "nc_wrap v = (if currentVideo v < VGA \<or> currentVideo v \<ge> VGA_LIMIT then v\<lparr>currentVideo := VGA\<rparr> else v)"

definition nc_put :: "char \<Rightarrow> vga \<Rightarrow> vga" where
  "nc_put c v =
     nc_wrap (v\<lparr>vga_mem := (vga_mem v)(currentVideo v := c), currentVideo := currentVideo v + 2\<rparr>)"

text \<open>\<open>do ncPrintChar(' '); while ((currentVideo - video) % (width * 2) != 0)\<close>\<close>

lemma nc_put_forward:
  assumes "(currentVideo (nc_put c v) - VGA) mod 160 \<noteq> 0"
  shows "unat (currentVideo (nc_put c v)) = unat (currentVideo v) + 2 \<and> currentVideo (nc_put c v) < VGA_LIMIT
    \<and> VGA \<le> currentVideo (nc_put c v)"
proof -
  have c: "currentVideo (nc_put c v) = currentVideo v + 2" "\<not> (currentVideo v + 2 < VGA \<or> currentVideo v + 2 \<ge> VGA_LIMIT)"
    using assms by (auto simp: nc_put_def nc_wrap_def split: if_splits)
  have "2 \<le> currentVideo v + 2" using c(2) by (auto simp: word_le_nat_alt word_less_nat_alt)
  then have "unat (currentVideo v + 2 - 2) = unat (currentVideo v + 2) - unat (2 :: u64)" by (rule unat_sub)
  then have "unat (currentVideo v) = unat (currentVideo v + 2) - 2" by simp
  moreover have "2 \<le> unat (currentVideo v + 2)" using \<open>2 \<le> currentVideo v + 2\<close> by (simp add: word_le_nat_alt)
  ultimately show ?thesis using c by (auto simp: not_less not_le)
qed

function ncNewline :: "vga \<Rightarrow> vga" where
  "ncNewline v =
     (let v = nc_put CHR '' '' v
      in if (currentVideo v - VGA) mod (80 * 2) \<noteq> 0 then ncNewline v else v)"
  by pat_completeness auto
termination
proof (relation "measure (\<lambda>v. 2 ^ 64 - unat (currentVideo v))", simp)
  fix v x :: vga
  assume "x = nc_put CHR '' '' v" "(currentVideo x - VGA) mod (80 * 2) \<noteq> 0"
  then have "unat (currentVideo x) = unat (currentVideo v) + 2" using nc_put_forward [of "CHR '' ''" v] by simp
  moreover have "unat (currentVideo x) < 2 ^ 64" by (rule order_less_le_trans [OF unsigned_less]) simp
  ultimately show "(x, v) \<in> measure (\<lambda>v. 2 ^ 64 - unat (currentVideo v))" by simp
qed

declare ncNewline.simps [simp del]

definition ncPrintChar :: "char \<Rightarrow> vga \<Rightarrow> vga" where
  "ncPrintChar c v =
     (if c = CHR 0x08 then
        nc_wrap (v\<lparr>currentVideo := currentVideo v - 2, vga_mem := (vga_mem v)(currentVideo v - 2 := NUL)\<rparr>)
      else if c = CHR ''\<newline>'' then nc_wrap (ncNewline v)
      else nc_put c v)"

definition ncPrint :: "char list \<Rightarrow> vga \<Rightarrow> vga" where
  "ncPrint s v = fold ncPrintChar (cstr s) v"

definition ncPrintBase :: "u64 \<Rightarrow> u32 \<Rightarrow> vga \<Rightarrow> vga" where
  "ncPrintBase val base v = ncPrint (snd (uintToBase val base)) v"

definition ncPrintDec :: "u64 \<Rightarrow> vga \<Rightarrow> vga" where
  "ncPrintDec val v = ncPrintBase val 10 v"

definition ncPrintHex :: "u64 \<Rightarrow> vga \<Rightarrow> vga" where
  "ncPrintHex val v = ncPrintBase val 16 v"

definition ncPrintBin :: "u64 \<Rightarrow> vga \<Rightarrow> vga" where
  "ncPrintBin val v = ncPrintBase val 2 v"

definition ncClear :: "vga \<Rightarrow> vga" where
  "ncClear v =
     v\<lparr>vga_mem := fold (\<lambda>i m. m(VGA + of_nat i * 2 := CHR '' '')) [0..<25 * 80] (vga_mem v), currentVideo := VGA\<rparr>"

end
