(* ===== verification/Vga_Props.thy ===== *)
theory Vga_Props
  imports Vga_Console
begin

text \<open>
  The cursor of the VGA console stays on a character cell of the text buffer; what each character does to the
  screen.
\<close>

section \<open>The cursor as an offset\<close>

definition off :: "vga \<Rightarrow> nat" where
  "off v = unat (currentVideo v - VGA)"

definition nc_ok :: "vga \<Rightarrow> bool" where
  "nc_ok v \<longleftrightarrow> VGA \<le> currentVideo v \<and> currentVideo v < VGA_LIMIT \<and> even (off v)"

lemma unat_off: "VGA \<le> a \<Longrightarrow> unat (a - VGA) = unat a - 0xB8000"
  by (simp add: unat_sub)

lemma nc_okD:
  assumes "nc_ok v"
  shows "off v < 4000" and "even (off v)" and "currentVideo v = VGA + of_nat (off v)"
    and "unat (currentVideo v) = 0xB8000 + off v"
proof -
  have a: "VGA \<le> currentVideo v" "currentVideo v < VGA_LIMIT" "even (off v)" using assms by (simp_all add: nc_ok_def)
  show "even (off v)" by (rule a(3))
  have o: "off v = unat (currentVideo v) - 0xB8000" using unat_off [OF a(1)] by (simp add: off_def)
  moreover have "0xB8000 \<le> unat (currentVideo v)" "unat (currentVideo v) < 0xB8FA0"
    using a(1,2) by (simp_all add: word_le_nat_alt word_less_nat_alt)
  ultimately show "off v < 4000" "unat (currentVideo v) = 0xB8000 + off v" by simp_all
  show "currentVideo v = VGA + of_nat (off v)" by (simp add: off_def)
qed

lemma nc_ok_at: "i < 4000 \<Longrightarrow> even i \<Longrightarrow> currentVideo v = VGA + of_nat i \<Longrightarrow> nc_ok v \<and> off v = i"
proof -
  assume i: "i < 4000" "even i" "currentVideo v = VGA + of_nat i"
  then have u: "unat (VGA + of_nat i :: u64) = 0xB8000 + i"
    by (simp add: unat_word_ariths unat_of_nat)
  have o: "off v = i" using i by (simp add: off_def unat_of_nat)
  then show ?thesis using i u by (simp add: nc_ok_def word_le_nat_alt word_less_nat_alt)
qed

lemma nc_put_ok:
  assumes "nc_ok v"
  shows "nc_ok (nc_put c v)" and "off (nc_put c v) = (if off v + 2 < 4000 then off v + 2 else 0)"
    and "vga_mem (nc_put c v) = (vga_mem v)(VGA + of_nat (off v) := c)"
proof -
  note d = nc_okD [OF assms]
  have u: "unat (VGA + of_nat (off v) + 2 :: u64) = 0xB8000 + (off v + 2)"
    using d(1) by (simp add: unat_word_ariths unat_of_nat)
  have cur: "currentVideo (nc_put c v) = VGA + of_nat (if off v + 2 < 4000 then off v + 2 else 0)"
    using u unfolding nc_put_def nc_wrap_def d(3) by (auto simp: word_le_nat_alt word_less_nat_alt add.assoc)
  have "nc_ok (nc_put c v) \<and> off (nc_put c v) = (if off v + 2 < 4000 then off v + 2 else 0)"
    using cur d(2) by (intro nc_ok_at) auto
  then show "nc_ok (nc_put c v)" "off (nc_put c v) = (if off v + 2 < 4000 then off v + 2 else 0)" by blast+
  show "vga_mem (nc_put c v) = (vga_mem v)(VGA + of_nat (off v) := c)"
    by (simp add: nc_put_def nc_wrap_def d(3) [symmetric])
qed

text \<open>The cells from \<open>i\<close> to before \<open>j\<close>.\<close>

definition cells_between :: "nat \<Rightarrow> nat \<Rightarrow> u64 set" where
  "cells_between i j = {VGA + of_nat n | n. i \<le> n \<and> n < j \<and> even n}"

definition row_end :: "nat \<Rightarrow> nat" where
  "row_end i = (i div 160 + 1) * 160"

lemma cells_between_step: "i < j \<Longrightarrow> even i \<Longrightarrow> cells_between i j = insert (VGA + of_nat i) (cells_between (i + 2) j)"
proof -
  assume i: "i < j" "even i"
  have "n = i \<or> i + 2 \<le> n" if "i \<le> n" "even n" for n
    using that i(2) by (cases "n = i + 1") auto
  then show ?thesis using i by (auto simp: cells_between_def)
qed

lemma cells_between_empty [simp]: "cells_between i i = {}"
  by (auto simp: cells_between_def)

lemma row_end_step:
  assumes "even n"
  shows "if (n + 2) mod 160 = 0 then row_end n = n + 2 else row_end (n + 2) = row_end n"
proof -
  obtain q r where n: "n = 160 * q + r" "r < 160" by (metis mod_less_divisor mult_div_mod_eq zero_less_numeral)
  then have "even r" using assms by simp
  then have "r = 158 \<or> r + 2 < 160" using n(2) by presburger
  moreover have "n + 2 = 160 * (q + 1)" if "r = 158" using that n by simp
  moreover have "(160 * q + m) mod 160 = m \<and> (160 * q + m) div 160 = q" if "m < 160" for m
    using that by simp
  note this [of "r + 2"]
  moreover have "n div 160 = q" using n by simp
  ultimately show ?thesis using n by (auto simp: row_end_def)
qed

lemma ncNewline_ok:
  "nc_ok v \<Longrightarrow> nc_ok (ncNewline v) \<and> off (ncNewline v) = row_end (off v) mod 4000 \<and>
     vga_mem (ncNewline v) = (\<lambda>a. if a \<in> cells_between (off v) (row_end (off v)) then CHR '' '' else vga_mem v a)"
proof (induction v rule: ncNewline.induct)
  case (1 v)
  note d = nc_okD [OF 1(2)]
  let ?w = "nc_put CHR '' '' v"
  note w = nc_put_ok [OF 1(2), of "CHR '' ''"]
  have e: "(currentVideo ?w - VGA) mod (80 * 2) \<noteq> 0 \<longleftrightarrow> off ?w mod 160 \<noteq> 0"
    by (simp add: off_def word_arith_nat_mod unat_of_nat word_unat_eq_iff unat_mod)
  have lt: "off v < row_end (off v)" "row_end (off v) \<le> 4000" "even (row_end (off v))"
    using d(1) by (auto simp: row_end_def)
  have step: "cells_between (off v) (row_end (off v)) =
      insert (VGA + of_nat (off v)) (cells_between (off v + 2) (row_end (off v)))"
    by (rule cells_between_step [OF lt(1) d(2)])
  show ?case
  proof (cases "off ?w mod 160 = 0")
    case True
    then have n: "ncNewline v = ?w" using e by (subst ncNewline.simps) (simp add: Let_def)
    have "off v + 2 = row_end (off v)"
    proof -
      have "off v + 2 < 4000 \<or> off v + 2 = 4000" using d(1,2) by presburger
      then have "(off v + 2) mod 160 = 0" using True w(2) by auto
      then show ?thesis using row_end_step [OF d(2)] by simp
    qed
    then show ?thesis using w step lt unfolding n by (auto split: if_splits)
  next
    case False
    then have n: "ncNewline v = ncNewline ?w" using e by (subst ncNewline.simps) (simp add: Let_def)
    have o: "off ?w = off v + 2" using False w(2) by (auto split: if_splits)
    then have "row_end (off ?w) = row_end (off v)" using False row_end_step [OF d(2)] by simp
    moreover have "nc_ok (ncNewline ?w) \<and> off (ncNewline ?w) = row_end (off ?w) mod 4000 \<and>
        vga_mem (ncNewline ?w) = (\<lambda>a. if a \<in> cells_between (off ?w) (row_end (off ?w)) then CHR '' '' else vga_mem ?w a)"
      by (rule 1(1) [OF refl iffD2 [OF e False] w(1)])
    ultimately show ?thesis unfolding n o w(3) step by (auto simp: fun_eq_iff)
  qed
qed

lemma nc_wrap_ok: "nc_ok v \<Longrightarrow> nc_wrap v = v"
  by (auto simp: nc_ok_def nc_wrap_def dest: leD)

lemma cells_between_buffer: "j \<le> 4000 \<Longrightarrow> a \<in> cells_between i j \<Longrightarrow> VGA \<le> a \<and> a < VGA_LIMIT"
  by (auto simp: cells_between_def word_le_nat_alt word_less_nat_alt unat_word_ariths unat_of_nat)

lemma cell_in_buffer: "i < 4000 \<Longrightarrow> VGA \<le> VGA + of_nat i \<and> VGA + of_nat i < VGA_LIMIT"
  by (simp add: word_le_nat_alt word_less_nat_alt unat_word_ariths unat_of_nat)

lemma ncPrintChar_newline:
  assumes "nc_ok v"
  shows "nc_ok (ncPrintChar CHR ''\<newline>'' v)" and "off (ncPrintChar CHR ''\<newline>'' v) = row_end (off v) mod 4000"
    and "vga_mem (ncPrintChar CHR ''\<newline>'' v) =
      (\<lambda>a. if a \<in> cells_between (off v) (row_end (off v)) then CHR '' '' else vga_mem v a)"
  using ncNewline_ok [OF assms] by (simp_all add: ncPrintChar_def nc_wrap_ok)

text \<open>The backspace at the first cell leaves the buffer before the cursor is put back.\<close>

lemma ncPrintChar_backspace:
  assumes "nc_ok v"
  shows "nc_ok (ncPrintChar CHR 0x08 v)" and "off (ncPrintChar CHR 0x08 v) = off v - 2"
    and "vga_mem (ncPrintChar CHR 0x08 v) = (vga_mem v)(VGA + of_nat (off v) - 2 := NUL)"
proof -
  note d = nc_okD [OF assms]
  have m: "vga_mem (ncPrintChar CHR 0x08 v) = (vga_mem v)(VGA + of_nat (off v) - 2 := NUL)"
    by (simp add: ncPrintChar_def nc_wrap_def d(3) [symmetric])
  have "currentVideo (ncPrintChar CHR 0x08 v) = VGA + of_nat (off v - 2)"
  proof (cases "off v = 0")
    case True
    then have "currentVideo v = VGA" using d(3) by simp
    then show ?thesis using True by (simp add: ncPrintChar_def nc_wrap_def)
  next
    case False
    then have "2 \<le> off v" using d(2) by presburger
    then have c: "currentVideo v - 2 = VGA + of_nat (off v - 2)" unfolding d(3) by (simp add: of_nat_diff)
    have "VGA \<le> VGA + of_nat (off v - 2) \<and> VGA + of_nat (off v - 2) < VGA_LIMIT" using d(1) by (intro cell_in_buffer) simp
    then show ?thesis by (auto simp: ncPrintChar_def nc_wrap_def c)
  qed
  then have "nc_ok (ncPrintChar CHR 0x08 v) \<and> off (ncPrintChar CHR 0x08 v) = off v - 2"
    using d(1,2) by (intro nc_ok_at) auto
  with m show "nc_ok (ncPrintChar CHR 0x08 v)" "off (ncPrintChar CHR 0x08 v) = off v - 2"
    "vga_mem (ncPrintChar CHR 0x08 v) = (vga_mem v)(VGA + of_nat (off v) - 2 := NUL)" by blast+
qed

text \<open>
  Every character keeps the cursor of the VGA console on a cell of the text buffer. A newline ends and leaves
  the cursor at the start of the next row, or of the screen behind the last one, with the rest of the row
  blank; any other character but the backspace is stored at the cursor, which moves on by a cell; the backspace
  moves the cursor back and clears that cell. Nothing else changes, and nothing outside the buffer, with one
  exception: a backspace at the first cell clears the byte two before the buffer.
\<close>

lemma vga_console_cursor:
  fixes v :: vga and c :: char
  assumes "nc_ok v"
  defines "w \<equiv> ncPrintChar c v"
  shows "nc_ok w \<and>
    (if c = CHR ''\<newline>'' then off w = row_end (off v) mod 4000 \<and>
       vga_mem w = (\<lambda>a. if a \<in> cells_between (off v) (row_end (off v)) then CHR '' '' else vga_mem v a)
     else if c = CHR 0x08 then off w = off v - 2 \<and> vga_mem w = (vga_mem v)(VGA + of_nat (off v) - 2 := NUL)
     else off w = (off v + 2) mod 4000 \<and> vga_mem w = (vga_mem v)(VGA + of_nat (off v) := c)) \<and>
    (\<forall>a. \<not> (VGA \<le> a \<and> a < VGA_LIMIT) \<longrightarrow> vga_mem w a \<noteq> vga_mem v a \<longrightarrow> c = CHR 0x08 \<and> off v = 0 \<and> a = VGA - 2)"
proof -
  note d = nc_okD [OF assms(1)]
  have wrap: "(if off v + 2 < 4000 then off v + 2 else 0) = (off v + 2) mod 4000"
  proof -
    have "off v + 2 < 4000 \<or> off v + 2 = 4000" using d(1,2) by presburger
    then show ?thesis by auto
  qed
  have "row_end (off v) \<le> 4000" using d(1) by (auto simp: row_end_def)
  note row = cells_between_buffer [OF this]
  consider "c = CHR ''\<newline>''" | "c = CHR 0x08" | "c \<noteq> CHR ''\<newline>''" "c \<noteq> CHR 0x08" by blast
  then show ?thesis
  proof cases
    case 1
    then show ?thesis using ncPrintChar_newline [OF assms(1)] row unfolding w_def by auto
  next
    case 2
    have "VGA \<le> VGA + of_nat (off v) - 2 \<and> VGA + of_nat (off v) - 2 < VGA_LIMIT" if "off v \<noteq> 0"
    proof -
      have "2 \<le> off v" using that d(2) by presburger
      then show ?thesis using cell_in_buffer [of "off v - 2"] d(1) by (simp add: of_nat_diff)
    qed
    then show ?thesis using 2 ncPrintChar_backspace [OF assms(1)] unfolding w_def by (cases "off v = 0") auto
  next
    case 3
    then have "w = nc_put c v" by (simp add: w_def ncPrintChar_def)
    then show ?thesis using 3 nc_put_ok [OF assms(1), of c] wrap cell_in_buffer [OF d(1)] by auto
  qed
qed

end
