(* ===== verification/Sound.thy ===== *)
theory Sound
  imports Prelude
begin

unbundle bit_operations_syntax

text \<open>
  The hardware behind ports: the PC speaker (\<open>Kernel/c/sound/sound.c\<close>), the real-time clock and the delay
  (\<open>Kernel/c/lib/time.c\<close>, \<open>asm/libasm.asm\<close>). The instructions \<open>in\<close>, \<open>out\<close> and \<open>hlt\<close> and the counter of
  ticks, which the timer interrupt advances, are an environment with a state \<open>'w\<close>.
\<close>

record 'w bus =
  inb :: "16 word \<Rightarrow> 'w \<Rightarrow> 8 word \<times> 'w"
  outb :: "16 word \<Rightarrow> 8 word \<Rightarrow> 'w \<Rightarrow> 'w"
  hlt :: "'w \<Rightarrow> 'w"
  tick_count :: "'w \<Rightarrow> u64"

abbreviation PC_SPEAKER_PORT :: "16 word" where "PC_SPEAKER_PORT \<equiv> 0x61"
abbreviation PIT_CHANNEL2_DATA_PORT :: "16 word" where "PIT_CHANNEL2_DATA_PORT \<equiv> 0x42"
abbreviation PIT_CONTROL_PORT :: "16 word" where "PIT_CONTROL_PORT \<equiv> 0x43"
abbreviation PIT_SQUARE_WAVE_MODE :: "8 word" where "PIT_SQUARE_WAVE_MODE \<equiv> 0xB6"

section \<open>The speaker\<close>

definition turnOff :: "'w bus \<Rightarrow> 'w \<Rightarrow> 'w" where
  "turnOff b w =
     (let (tmp, w) = inb b PC_SPEAKER_PORT w in outb b PC_SPEAKER_PORT (tmp AND 0xFC) w)"

definition startSpeaker :: "'w bus \<Rightarrow> u32 \<Rightarrow> 'w \<Rightarrow> 'w" where
  "startSpeaker b freq w =
     (if freq = 0 then turnOff b w
      else
        let dv = 1193180 div freq;
            w = outb b PIT_CONTROL_PORT PIT_SQUARE_WAVE_MODE w;
            w = outb b PIT_CHANNEL2_DATA_PORT (ucast (dv AND 0xFF)) w;
            w = outb b PIT_CHANNEL2_DATA_PORT (ucast (drop_bit 8 dv)) w;
            (tmp, w) = inb b PC_SPEAKER_PORT w
        in if tmp AND 3 \<noteq> 3 then outb b PC_SPEAKER_PORT (tmp OR 3) w else w)"

section \<open>The delay\<close>

partial_function (option) sleep_loop :: "'w bus \<Rightarrow> u64 \<Rightarrow> u64 \<Rightarrow> 'w \<Rightarrow> 'w option" where
  "sleep_loop b start target w =
     (if tick_count b w - start < target then sleep_loop b start target (hlt b w) else Some w)"

definition sleep :: "'w bus \<Rightarrow> u64 \<Rightarrow> 'w \<Rightarrow> 'w option" where
  "sleep b ms w = sleep_loop b (tick_count b w) (ms div 10) w"

definition beep :: "'w bus \<Rightarrow> u32 \<Rightarrow> u64 \<Rightarrow> 'w \<Rightarrow> 'w option" where
  "beep b freq tm w = map_option (turnOff b) (sleep b tm (startSpeaker b freq w))"

section \<open>The clock\<close>

text \<open>\<open>getSeconds\<close> and its relatives: select a register of the clock and read it.\<close>

definition rtc :: "'w bus \<Rightarrow> 8 word \<Rightarrow> 'w \<Rightarrow> 8 word \<times> 'w" where
  "rtc b reg w = inb b 0x71 (outb b 0x70 reg w)"

definition date :: "'w bus \<Rightarrow> 'w \<Rightarrow> 8 word list \<times> 'w" where
  "date b w =
     (let (day, w) = rtc b 7 w; (month, w) = rtc b 8 w; (year, w) = rtc b 9 w in ([day, month, year], w))"

definition time :: "'w bus \<Rightarrow> 'w \<Rightarrow> 8 word list \<times> 'w" where
  "time b w =
     (let (hour, w) = rtc b 4 w; (minutes, w) = rtc b 2 w; (seconds, w) = rtc b 0 w
      in ([hour, minutes, seconds], w))"

section \<open>The delay ends\<close>

text \<open>\<open>n\<close> ticks of the counter, which may wrap around.\<close>

lemma sleep_loop_ticks:
  assumes "\<And>w. tick_count b (hlt b w) = tick_count b w + 1"
    and "unat (tick_count b w - start) + n = unat target"
  shows "sleep_loop b start target w = Some ((hlt b ^^ n) w) \<and> tick_count b ((hlt b ^^ n) w) = tick_count b w + of_nat n"
  using assms(2)
proof (induction n arbitrary: w)
  case 0
  then have "\<not> tick_count b w - start < target" by (simp add: word_less_nat_alt)
  then show ?case by (subst sleep_loop.simps) simp
next
  case (Suc n)
  let ?d = "tick_count b w - start"
  have lt: "unat ?d < unat target" using Suc.prems by simp
  have "unat target < 2 ^ 64" by (rule order_less_le_trans [OF unsigned_less]) simp
  then have "unat (?d + 1) = unat ?d + 1" using lt by (simp add: unat_word_ariths)
  moreover have "tick_count b (hlt b w) - start = ?d + 1" by (simp add: assms(1))
  ultimately have "unat (tick_count b (hlt b w) - start) + n = unat target" using Suc.prems by (simp only:) 
  then have "sleep_loop b start target (hlt b w) = Some ((hlt b ^^ n) (hlt b w)) \<and>
      tick_count b ((hlt b ^^ n) (hlt b w)) = tick_count b (hlt b w) + of_nat n"
    by (rule Suc.IH)
  moreover have "sleep_loop b start target w = sleep_loop b start target (hlt b w)"
    using lt by (subst sleep_loop.simps) (simp add: word_less_nat_alt)
  ultimately show ?case by (simp add: funpow_swap1 assms(1) algebra_simps)
qed

text \<open>What the speaker relies on: bits 0 and 1 of port 0x61 read back as they were written, and only the timer ticks.\<close>

definition pc_speaker :: "('w \<Rightarrow> 8 word) \<Rightarrow> 'w bus \<Rightarrow> bool" where
  "pc_speaker spk b \<longleftrightarrow>
     (\<forall>w. fst (inb b PC_SPEAKER_PORT w) = spk w \<and> spk (snd (inb b PC_SPEAKER_PORT w)) = spk w \<and>
        tick_count b (snd (inb b PC_SPEAKER_PORT w)) = tick_count b w \<and>
        spk (hlt b w) = spk w \<and> tick_count b (hlt b w) = tick_count b w + 1) \<and>
     (\<forall>p x w. tick_count b (outb b p x w) = tick_count b w \<and>
        spk (outb b p x w) AND 3 = (if p = PC_SPEAKER_PORT then x else spk w) AND 3)"

lemma turnOff_effect:
  assumes "pc_speaker spk b"
  shows "spk (turnOff b w) AND 3 = 0" and "tick_count b (turnOff b w) = tick_count b w"
proof -
  have "(x AND 0xFC) AND 3 = 0" for x :: "8 word"
    by (simp add: and.assoc)
  then show "spk (turnOff b w) AND 3 = 0" "tick_count b (turnOff b w) = tick_count b w"
    using assms by (simp_all add: turnOff_def pc_speaker_def case_prod_beta)
qed

lemma startSpeaker_effect:
  assumes "pc_speaker spk b"
  shows "spk (startSpeaker b freq w) AND 3 = (if freq = 0 then 0 else 3)"
    and "tick_count b (startSpeaker b freq w) = tick_count b w"
proof -
  have or3: "(x OR 3) AND 3 = 3" for x :: "8 word" by (rule bit_word_eqI) (auto simp: bit_simps)
  show "spk (startSpeaker b freq w) AND 3 = (if freq = 0 then 0 else 3)"
    "tick_count b (startSpeaker b freq w) = tick_count b w"
    using assms turnOff_effect [OF assms]
    by (auto simp: startSpeaker_def pc_speaker_def case_prod_beta Let_def or3)
qed

text \<open>
  A beep ends. On a machine whose timer advances the counter at every \<open>hlt\<close>, \<open>beep freq time\<close> returns after exactly
  \<open>time / 10\<close> ticks, also when the counter wraps around on the way, and with the speaker off; while it waits the
  speaker is on, unless the frequency is 0.
\<close>

lemma beep_returns:
  assumes "pc_speaker spk b"
  shows "\<exists>w'. beep b freq tm w = Some w' \<and> spk w' AND 3 = 0 \<and> tick_count b w' = tick_count b w + tm div 10 \<and>
    (\<exists>v. sleep b tm (startSpeaker b freq w) = Some v \<and> w' = turnOff b v \<and> spk v AND 3 = (if freq = 0 then 0 else 3))"
proof -
  let ?v = "startSpeaker b freq w" and ?n = "unat (tm div 10)"
  have h: "\<And>w. tick_count b (hlt b w) = tick_count b w + 1" using assms by (simp add: pc_speaker_def)
  have "spk ((hlt b ^^ n) w) = spk w" for n w
    using assms by (induction n) (simp_all add: pc_speaker_def)
  moreover have "sleep b tm ?v = Some ((hlt b ^^ ?n) ?v) \<and> tick_count b ((hlt b ^^ ?n) ?v) = tick_count b ?v + tm div 10"
    using sleep_loop_ticks [OF h, of ?v "tick_count b ?v" ?n "tm div 10"] by (simp add: sleep_def)
  ultimately show ?thesis
    using startSpeaker_effect [OF assms] turnOff_effect [OF assms]
    by (simp add: beep_def)
qed

text \<open>A machine with a speaker and a counter.\<close>

definition small_pc :: "(8 word \<times> u64) bus" where
  "small_pc = \<lparr>inb = (\<lambda>p w. (fst w, w)), outb = (\<lambda>p x w. if p = PC_SPEAKER_PORT then (x, snd w) else w),
     hlt = (\<lambda>w. (fst w, snd w + 1)), tick_count = snd\<rparr>"

end
