(* ===== verification/Spec2Isabelle.thy ===== *)
theory Spec2Isabelle
  imports Bmfs_Props Wait_Props Test_Props Programs Round_Robin Startup Props_Scheduler Props_Kernel Props_Sem Props_Pipe Props_Terminal Props_Process
    Heap_Inv Video_Props Buddy_Inv Shell_Props Protocols Vga_Props Sound
begin

text \<open>
  MASS-OS, a small preemptive operating system for one x86-64 CPU: the kernel as a state machine,
  the shell, the commands and the tests as programs that make system calls, the packer that makes the
  boot image, the tool that makes the disk from which it starts, and the properties that make them correct.

  The program. Pure64 boots into \<open>Kernel/c/kernel/kernel.c\<close>, which moves the modules of the image to
  their places, clears its variables, loads the interrupt table, sets up memory, processes,
  descriptors, semaphores, pipes and the scheduler, and starts the shell. From then on the kernel
  is entered through the gates of \<open>Kernel/asm/interrupts.asm\<close>: the timer (IRQ 0), the keyboard
  (IRQ 1), the system call (\<open>int 80h\<close>) and the two exceptions. A gate runs to its \<open>iretq\<close> with
  interrupts off, but for the wait of an exception for a key, which is a step of its own. So a run
  of the system is a sequence of such steps: that is the transition relation \<open>kernel_step\<close>
  of \<open>Inv_Steps\<close>; \<open>reachable\<close> is its closure from the state that \<open>boot\<close> leaves.

  The state. One record \<open>kernel\<close> (\<open>Kernel_State\<close>) has a field for each static variable of the C
  files: the table of PCBs, the array of the run queue with its count and index, the tables of
  semaphores, pipes and descriptors, the keyboard record, the screen, the heap, the memory and
  the tick counter. A C array is a total function on indices of which the code uses the first N;
  unsigned integers are words of their width, signed ones are integers with the wrap-around written out where a run
  can reach it (\<open>i64\<close> and \<open>i32\<close> for the value and the openers of a semaphore, \<open>to_int\<close> and \<open>of_int64\<close> between the
  two kinds; the code is built without optimisation, so that a signed sum that does not fit wraps around). The indices
  and counts that the code keeps below a bound, and the references to descriptors and ends of pipes, of which
  there are never more than the descriptors of all processes (\<open>reachable_descriptors\<close>), are natural numbers. What would hang or destroy the kernel (a spin on a lock that
  nobody will release, a release of an address at which no block starts, an index out of bounds) is
  recorded in the field \<open>fault\<close> and stays there (\<open>no_fault_before\<close>): from then on the model does not say what the
  machine does. What the kernel does not guard against and no fault records are the three
  calls that \<open>allowed\<close> (\<open>Inv_Steps\<close>) leaves out of the runs: killing PID 1, an exit of idle, and a creation when the PID
  counter is about to wrap around; \<open>kill_idle_leaves_dangling\<close> says what the first of them does.

  Theories and the sources they translate.
    \<^item> \<open>Prelude\<close>, \<open>Cstring\<close>, \<open>Fifo\<close>, \<open>Pid_Queue\<close>: names of types, arrays, the search for a slot
      (\<open>first_slot\<close>), C strings, circular buffers and their contract \<open>bounded_fifo\<close>, which the wait
      queues of semaphore.c and pipe.c, the bytes of a pipe and the keyboard buffer instantiate.
    \<^item> \<open>Mm_Interface\<close>, \<open>Mm_FirstFit\<close>: memoryManager.h as the locale \<open>memory_manager\<close>, and
      memoryManagerFF.c as an instance: the chain of block headers as a list, allocation with
      split, release with coalescing, alignment with its wrap-around.
    \<^item> \<open>Buddy_Tiling\<close>, \<open>Mm_Buddy\<close>, \<open>Buddy_Inv\<close>: memoryManagerBuddy.c, the allocator the build can
      choose instead: the headers as a map from offsets, the free lists, splitting and merging of
      buddies; a heap is well formed when its blocks tile it, aligned to their size.
    \<^item> \<open>Video\<close>: videoDriver.c, the console drawn into the frame buffer. \<open>Vga_Console\<close>: naiveConsole.c, the
      one of the text mode. \<open>Sound\<close>: sound.c, time.c and libasm.asm against an environment of ports.
    \<^item> \<open>Kernel_State\<close>, \<open>Process_Core\<close>, \<open>Process\<close>: process.h and process.c.
    \<^item> \<open>Scheduler\<close>: scheduler.c. \<open>Semaphores\<close>: semaphore.c. \<open>Pipes\<close>: pipe.c. \<open>Fds\<close>: fd.c.
    \<^item> \<open>Keyboard_Buffer\<close>, \<open>Keyboard\<close>: keyboardDriver.c, the translation of scan codes, raw and
      cooked mode, the register snapshot. \<open>Exceptions\<close>: exceptions.c and its gate, in three parts
      (\<open>exception_enter\<close>, \<open>exception_wait\<close>, \<open>exception_leave\<close>) between which other gates run.
    \<^item> \<open>Lib\<close>: lib.c, the numbers of naiveConsole.c, moduleLoader.c.
    \<^item> \<open>Syscalls\<close>: syscallDispatcher.c, irqDispatcher.c, the gates of interrupts.asm and the
      initialization of the subsystems in kernel.c. \<open>Idt\<close>: idtLoader.c. \<open>Startup\<close>: all of the start-up, with
      memory and interrupt table; \<open>Boot_Processes\<close>: the two processes it creates.
    \<^item> \<open>Module_Packer\<close>, \<open>Memory_Regions\<close>, \<open>Boot_Image\<close>: the packer of \<open>Toolchain\<close>, what \<open>memcpy\<close> and \<open>memset\<close> do to a
      region of memory, and the way of an image from the packer to the loader.
    \<^item> \<open>Bmfs\<close>, \<open>Bmfs_Commands\<close>, \<open>Bmfs_Main\<close>: \<open>Bootloader/BMFS/bmfs.c\<close>, the host tool that makes a disk with boot record,
      loader and kernel and keeps files on it, on the bytes of the disk: the directory entries are
      read from and written to the 4096 bytes that are on the disk.
    \<^item> \<open>User_Lib\<close>, \<open>Shell\<close>, \<open>Commands\<close>, \<open>Shell_Run\<close>: userlib.c, shell.c, syscall.c, help.c, sh.c and commands/
      under \<open>Userland/c\<close>. A program is a function of an environment (\<open>machine\<close>) that answers its system
      calls, of the globals of user space (\<open>user\<close>) and of the state of the environment.
    \<^item> \<open>Test_Util\<close>, \<open>Tests\<close>: tests/ and \<open>_loader.c\<close>. \<open>Programs\<close>: the registry with the programs behind its
      names, and the trampoline in which each of them starts and ends.

  Lemmas. \<open>Run_Queue\<close> reads the array of the run queue as a list. \<open>Invariant\<close>, \<open>Inv_Process\<close> and
  \<open>Inv_Steps\<close> prove the invariant of process table, run queue and CPU for every step. \<open>Frames\<close>
  states, one locale per component, what semaphores, pipes, descriptors and the terminal may do
  to the rest of the kernel, and \<open>System\<close> lifts these laws to all runs: a component proves a law for
  its own operations and obtains an invariant of every reachable state by interpreting
  \<open>invariant\<close>. \<open>Sem_Inv\<close>, \<open>Pipe_Inv\<close>, \<open>Fd_Inv\<close>, \<open>Tty_Inv\<close> and \<open>Heap_Inv\<close> do so. \<open>Wait_Props\<close>
  interprets the locales of \<open>Frames\<close> once more, for what a parent inside \<open>waitpid\<close> relies on. The \<open>Props_\<close> theories,
  \<open>Round_Robin\<close>, \<open>Video_Props\<close>, \<open>Vga_Props\<close>, \<open>Shell_Props\<close>, \<open>User_Props\<close> and \<open>Test_Props\<close> hold the properties, each
  with a state from \<open>Demo\<close> or its own at which it applies.

  The BMFS tool is proved in layers: \<open>Bmfs_Bytes\<close> (reading back what was written, beside and inside),
  \<open>Bmfs_Dir\<close> (a well-formed directory and what is found in it), \<open>Bmfs_Alloc\<close> (changing an entry, the search
  for a gap), \<open>Bmfs_Files\<close> (the disk as a map from names to contents, one lemma per command), \<open>Bmfs_Init\<close>
  (the sizes and the disk that \<open>initialize\<close> makes), \<open>Bmfs_Host\<close> (the same as runs of \<open>main\<close>, and the
  specification on two maps), \<open>Bmfs_Overlap\<close> (what \<open>create\<close> does after \<open>delete\<close>); \<open>Bmfs_Props\<close> has the properties.

  Interfaces. The allocators are both interpretations of \<open>memory_manager\<close>, and the wait queues of
  \<open>bounded_fifo\<close>. \<open>Test_Props\<close> proves \<open>test_mm\<close> in a locale that extends \<open>memory_manager\<close> by the two system
  calls, and interprets it for the kernel and for the other allocator. \<open>Token_Protocol\<close> describes any
  number of processes that hand a unit around between semaphores; the MVars and the critical section of
  test_sync.c are instances in \<open>Protocols\<close>, where the semaphores of the kernel are shown to carry out the
  waits and posts of the protocol, and the bodies of mvar.c and test_sync.c to be its participants on any
  machine. Other programs of user space are proved against two environments: one
  that answers in any way and keeps a log (\<open>Shell_Props\<close>), and one that delivers an input in pieces
  and takes of each write what it has room for (\<open>User_Props\<close>).

  Bounds and fuel. Loops over a table recurse on its constant length, loops over a string on the
  string, other loops have a measure. The strings of user space are lists that end with a NUL or
  with the list: reading at the end of the list gives the NUL. A loop that
  only its environment can end (a program that reads its input, the rounds of a test, the walk of the
  buddy allocator over headers that may be corrupt) is a partial function, with \<open>None\<close> for a run that never
  ends; where it matters a theorem says that it ends, or that it does not. No definition takes fuel.

  Not modelled. The boot loader Pure64 is third-party assembly. Of the tool BMFS the C library is a parameter
  (\<open>libc\<close>: the order in which \<open>qsort\<close> leaves an array, the success of \<open>malloc\<close>, the line the user types, how far
  the disk can be written, the text of a percentage); undefined behaviour, such as a counter of type \<open>int\<close> that
  overflows in a file of 2 GiB, is the result \<open>None\<close>. Interrupts that arrive
  during the start-up are left out of \<open>reachable\<close> (\<open>tick_ends_start_up\<close> in \<open>Startup\<close> says what one of them does), and
  so are those that \<open>sys_beep\<close> lets in while it waits. The headers of the first-fit blocks are a list and not bytes
  of memory, which a program that writes past the end of its block would change. A fault of the CPU in a
  user program is a parameter (\<open>cpu_trap\<close>), and so are the addresses of functions and the glyphs of
  font.h. The width of floating point numbers is the field \<open>fpu_bits\<close> of the machine: the compiler chooses
  it, and only \<open>GetUniform\<close> of the tests computes with them. The stubs of \<open>Userland/asm/userlib.asm\<close> load the
  registers for \<open>int 80h\<close>; they are the field \<open>sys_call\<close>.
\<close>

end
